(* ===== verification/Prelude.thy ===== *)
theory Prelude
  imports Main "HOL-Library.Word"
begin

unbundle bit_operations_syntax

text \<open>
  What the component theories share: names for the machine integers of the C code, the
  conversion a C \<^theory_text>\<open>int\<close> makes, bits of small words, and the laws of a ring buffer kept in
  an array (read index, number of stored elements), which several devices use.
\<close>

type_synonym u8 = "8 word"
type_synonym u16 = "16 word"
type_synonym u32 = "32 word"
type_synonym u64 = "64 word"

named_theorems ring_laws

subsection \<open>C integers\<close>

text \<open>The value a 32-bit \<^theory_text>\<open>int\<close> holds after a two's complement wrap.\<close>

definition c_int :: "int \<Rightarrow> int" where
  "c_int x = signed_take_bit 31 x"

lemma c_int_id: "- (2 ^ 31) \<le> x \<Longrightarrow> x < 2 ^ 31 \<Longrightarrow> c_int x = x"
  unfolding c_int_def by (rule signed_take_bit_int_eq_self) simp_all

lemma c_int_0 [simp]: "c_int 0 = 0"
  by (simp add: c_int_def)

text \<open>C's \<open>x ? 1 : 0\<close>.\<close>

definition c_bool :: "bool \<Rightarrow> int" where
  "c_bool b = (if b then 1 else 0)"

lemma c_bool_simps [simp]: "c_bool True = 1" "c_bool False = 0"
  by (simp_all add: c_bool_def)

lemma c_bool_eq_0 [simp]: "c_bool b = 0 \<longleftrightarrow> \<not> b"
  by (cases b) simp_all

subsection \<open>Ring buffers\<close>

text \<open>The \<open>c\<close> elements stored from index \<open>r\<close> on in the array \<open>xs\<close>, wrapping at its end.\<close>

definition ring :: "'a list \<Rightarrow> nat \<Rightarrow> nat \<Rightarrow> 'a list" where
  "ring xs r c = map (\<lambda>i. xs ! ((r + i) mod length xs)) [0..<c]"

lemma length_ring [simp, ring_laws]: "length (ring xs r c) = c"
  by (simp add: ring_def)

lemma ring_0 [simp, ring_laws]: "ring xs r 0 = []"
  by (simp add: ring_def)

lemma ring_eq_Nil [simp]: "ring xs r c = [] \<longleftrightarrow> c = 0"
  by (simp add: ring_def)

lemma nth_ring: "i < c \<Longrightarrow> ring xs r c ! i = xs ! ((r + i) mod length xs)"
  by (simp add: ring_def)

lemma ring_Suc: "r < length xs \<Longrightarrow> ring xs r (Suc c) = xs ! r # ring xs (Suc r mod length xs) c"
  by (rule nth_equalityI)
    (auto simp: nth_ring nth_Cons mod_simps split: nat.splits)

lemma ring_hd: "r < length xs \<Longrightarrow> 0 < c \<Longrightarrow> ring xs r c = xs ! r # ring xs (Suc r mod length xs) (c - 1)"
  using ring_Suc [of r xs "c - 1"] by simp

text \<open>Writing at the write index, with a free slot, appends to the contents.\<close>

lemma ring_snoc:
  assumes "r < length xs" and "c < length xs" and "w = (r + c) mod length xs"
  shows "ring (xs[w := x]) r (Suc c) = ring xs r c @ [x]"
proof (rule nth_equalityI)
  show "length (ring (xs[w := x]) r (Suc c)) = length (ring xs r c @ [x])"
    by simp
next
  fix i assume "i < length (ring (xs[w := x]) r (Suc c))"
  then have i: "i \<le> c" by simp
  show "ring (xs[w := x]) r (Suc c) ! i = (ring xs r c @ [x]) ! i"
  proof (cases "i = c")
    case True
    have "w < length xs" using assms(1,3) by (cases xs) auto
    then show ?thesis using True assms(3) by (simp add: nth_ring nth_append)
  next
    case False
    with i have lt: "i < c" by simp
    have "(r + i) mod length xs \<noteq> (r + c) mod length xs"
    proof
      assume "(r + i) mod length xs = (r + c) mod length xs"
      then have "length xs dvd (r + c) - (r + i)"
        using lt by (metis add_le_cancel_left le_eq_less_or_eq mod_eq_dvd_iff_nat)
      then have "length xs dvd c - i" by simp
      then show False using lt assms(2) by (auto dest: dvd_imp_le)
    qed
    then show ?thesis using lt assms(3) by (simp add: nth_ring nth_append)
  qed
qed

text \<open>Increment with the reset to zero the code writes as a comparison.\<close>

lemma Suc_wrap: "i < n \<Longrightarrow> (if Suc i = n then 0 else Suc i) = Suc i mod n"
  by simp

lemma mod_Suc_wrap: "(Suc r mod n + c) mod n = Suc (r + c) mod n"
  by (simp add: mod_simps)

subsection \<open>Words\<close>

text \<open>Clearing the lowest bits rounds down; a small number keeps its value as a word.\<close>

lemma and_not_mask: "unat (w AND NOT (mask k)) = unat w div 2 ^ k * 2 ^ k" for w :: "'a::len word"
proof -
  have "w = (w AND mask k) + (w AND NOT (mask k))"
    by (subst disjunctive_add) (auto simp: bit_simps intro!: bit_word_eqI)
  then have "w AND NOT (mask k) = w - take_bit k w" by (simp add: take_bit_eq_mask algebra_simps)
  moreover have "take_bit k w \<le> w" by (simp add: word_le_nat_alt unsigned_take_bit_eq)
  moreover have "unat (take_bit k w) = unat w mod 2 ^ k"
    by (simp only: unsigned_take_bit_eq) (simp only: take_bit_eq_mod)
  ultimately have "unat (w AND NOT (mask k)) = unat w - unat w mod 2 ^ k" by (simp only: unat_sub)
  then show ?thesis by (simp add: minus_mod_eq_div_mult)
qed

lemma unat_small: "n < 2 ^ LENGTH('a) \<Longrightarrow> unat (of_nat n :: 'a::len word) = n"
  by (simp add: unat_of_nat)

subsection \<open>Decimal digits\<close>

fun dec_nat :: "nat \<Rightarrow> string" where
  "dec_nat n = (if n < 10 then [char_of (48 + n)] else dec_nat (n div 10) @ [char_of (48 + n mod 10)])"

declare dec_nat.simps [simp del]

lemma length_dec_nat:
  assumes "n < 10 ^ k" and "0 < k"
  shows "length (dec_nat n) \<le> k"
  using assms
proof (induction n arbitrary: k rule: dec_nat.induct)
  case (1 n)
  show ?case
  proof (cases "n < 10")
    case True
    with 1 show ?thesis by (subst dec_nat.simps) simp
  next
    case False
    then obtain j where k: "k = Suc j" and j: "0 < j"
      using 1(2,3) by (cases k; cases "k - 1") auto
    have "n div 10 < 10 ^ j" using 1(2) k by (simp add: less_mult_imp_div_less mult.commute)
    with 1(1) False j k show ?thesis by (subst dec_nat.simps) simp
  qed
qed

end
