(* ===== verification/Fifo.thy ===== *)
theory Fifo
  imports Prelude
begin

text \<open>
  The contract of a bounded first-in first-out buffer, as the devices use one: an element
  put into a full buffer is dropped, and the buffer is read through its abstraction to a
  list. The lemmas about runs of operations are proved once here.
\<close>

locale bounded_buffer =
  fixes inv :: "'q \<Rightarrow> bool"
    and contents :: "'q \<Rightarrow> 'a list"
    and capacity :: "'q \<Rightarrow> nat"
  assumes contents_bounded: "inv q \<Longrightarrow> length (contents q) \<le> capacity q"

locale bounded_fifo = bounded_buffer inv contents capacity
  for inv :: "'q \<Rightarrow> bool" and contents :: "'q \<Rightarrow> 'a list" and capacity :: "'q \<Rightarrow> nat" +
  fixes put :: "'q \<Rightarrow> 'a \<Rightarrow> 'q"
    and get :: "'q \<Rightarrow> 'a \<times> 'q"
  assumes inv_put: "inv q \<Longrightarrow> inv (put q x)"
    and capacity_put: "inv q \<Longrightarrow> capacity (put q x) = capacity q"
    and contents_put: "inv q \<Longrightarrow>
      contents (put q x) = (if length (contents q) < capacity q then contents q @ [x] else contents q)"
    and inv_get: "inv q \<Longrightarrow> inv (snd (get q))"
    and capacity_get: "inv q \<Longrightarrow> capacity (snd (get q)) = capacity q"
    and fst_get: "inv q \<Longrightarrow> contents q \<noteq> [] \<Longrightarrow> fst (get q) = hd (contents q)"
    and contents_get: "inv q \<Longrightarrow> contents (snd (get q)) = tl (contents q)"
begin

lemma inv_put_all: "inv q \<Longrightarrow> inv (foldl put q xs) \<and> capacity (foldl put q xs) = capacity q"
  by (induction xs arbitrary: q) (simp_all add: inv_put capacity_put)

lemma contents_put_all: "inv q \<Longrightarrow> contents (foldl put q xs) = take (capacity q) (contents q @ xs)"
proof (induction xs arbitrary: q)
  case Nil
  then show ?case by (simp add: contents_bounded)
next
  case (Cons x xs)
  then show ?case
    using contents_bounded [OF Cons.prems]
    by (auto simp: inv_put capacity_put contents_put take_Cons')
qed

fun get_many :: "nat \<Rightarrow> 'q \<Rightarrow> 'a list \<times> 'q" where
  "get_many 0 q = ([], q)"
| "get_many (Suc n) q =
     (let (x, q1) = get q; (xs, q2) = get_many n q1 in (x # xs, q2))"

lemma get_many_spec:
  "inv q \<Longrightarrow> n \<le> length (contents q) \<Longrightarrow>
   fst (get_many n q) = take n (contents q) \<and>
   contents (snd (get_many n q)) = drop n (contents q) \<and> inv (snd (get_many n q))"
proof (induction n arbitrary: q)
  case 0
  then show ?case by simp
next
  case (Suc n)
  obtain x q1 where g: "get q = (x, q1)" by fastforce
  obtain ys q2 where r: "get_many n q1 = (ys, q2)" by fastforce
  from Suc.prems have ne: "contents q \<noteq> []" by auto
  have q1: "inv q1" "contents q1 = tl (contents q)" "x = hd (contents q)"
    using inv_get [OF Suc.prems(1)] contents_get [OF Suc.prems(1)]
      fst_get [OF Suc.prems(1) ne] g by simp_all
  moreover have "n \<le> length (contents q1)" using Suc.prems(2) q1(2) by simp
  ultimately have "ys = take n (contents q1) \<and> contents q2 = drop n (contents q1) \<and> inv q2"
    using Suc.IH [of q1] r by simp
  with g r q1 ne show ?case by (cases "contents q") simp_all
qed

lemma fifo_order:
  assumes "inv q" and "contents q = []" and "length xs \<le> capacity q"
  shows "fst (get_many (length xs) (foldl put q xs)) = xs"
  using get_many_spec [of "foldl put q xs" "length xs"] inv_put_all [OF assms(1)]
    contents_put_all [OF assms(1)] assms(2,3) by simp

end

end
