(* ===== verification/Ps2.thy ===== *)
theory Ps2
  imports Fifo
begin

unbundle bit_operations_syntax

text \<open>
  The PS/2 keyboard and mouse of hw/ps2.c: the byte queue each device answers through,
  the keyboard and mouse command interpreters, the mouse packet encoder and its send
  loop, reset and initialisation. A call-back of the device (the interrupt line of the
  controller, the led state of the console, the wake-up request) is an entry of the
  device's log \<open>outs\<close>, oldest first, so that a client can replay the calls in order.

  Lemmas: the queue implements the bounded FIFO of theory Fifo; every operation keeps
  the ring invariant, only appends to the log, and leaves the interrupt level equal to
  ``bytes are waiting''; the mouse loop ends and sends the whole accumulated movement.
\<close>

subsection \<open>State\<close>

abbreviation (input) PS2_QUEUE_SIZE :: nat where
  "PS2_QUEUE_SIZE \<equiv> 256"

record PS2Queue =
  data :: "u8 list"
  rptr :: nat
  wptr :: nat
  count :: nat

datatype ps2_out = Update_irq bool | Put_ledstate int | Wakeup_request

record PS2State =
  queue :: PS2Queue
  write_cmd :: int
  outs :: "ps2_out list"

record PS2KbdState =
  kbd_common :: PS2State
  scan_enabled :: bool
  translate :: bool
  scancode_set :: int
  ledstate :: int

record PS2MouseState =
  mouse_common :: PS2State
  mouse_status :: u8
  mouse_resolution :: u8
  mouse_sample_rate :: u8
  mouse_wrap :: bool
  mouse_type :: u8
  mouse_detect_state :: u8
  mouse_dx :: int
  mouse_dy :: int
  mouse_dz :: int
  mouse_buttons :: u8

definition ps2_raw_keycode :: "int list" where
  "ps2_raw_keycode =
   [0, 118,  22,  30,  38,  37,  46,  54,  61,  62,  70,  69,  78,  85, 102,  13,
    21,  29,  36,  45,  44,  53,  60,  67,  68,  77,  84,  91,  90,  20,  28,  27,
    35,  43,  52,  51,  59,  66,  75,  76,  82,  14,  18,  93,  26,  34,  33,  42,
    50,  49,  58,  65,  73,  74,  89, 124,  17,  41,  88,   5,   6,   4,  12,   3,
    11,   2,  10,   1,   9, 119, 126, 108, 117, 125, 123, 107, 115, 116, 121, 105,
   114, 122, 112, 113, 127,  96,  97, 120,   7,  15,  23,  31,  39,  47,  55,  63,
    71,  79,  86,  94,   8,  16,  24,  32,  40,  48,  56,  64,  72,  80,  87, 111,
    19,  25,  57,  81,  83,  92,  95,  98,  99, 100, 101, 103, 104, 106, 109, 110]"

definition ps2_raw_keycode_set3 :: "int list" where
  "ps2_raw_keycode_set3 =
   [0,   8,  22,  30,  38,  37,  46,  54,  61,  62,  70,  69,  78,  85, 102,  13,
    21,  29,  36,  45,  44,  53,  60,  67,  68,  77,  84,  91,  90,  17,  28,  27,
    35,  43,  52,  51,  59,  66,  75,  76,  82,  14,  18,  92,  26,  34,  33,  42,
    50,  49,  58,  65,  73,  74,  89, 126,  25,  41,  20,   7,  15,  23,  31,  39,
    47,   2,  63,  71,  79, 118,  95, 108, 117, 125, 132, 107, 115, 116, 124, 105,
   114, 122, 112, 113, 127,  96,  97,  86,  94,  15,  23,  31,  39,  47,  55,  63,
    71,  79,  86,  94,   8,  16,  24,  32,  40,  48,  56,  64,  72,  80,  87, 111,
    19,  25,  57,  81,  83,  92,  95,  98,  99, 100, 101, 103, 104, 106, 109, 110]"

subsection \<open>The byte queue\<close>

definition ps2_out :: "ps2_out \<Rightarrow> PS2State \<Rightarrow> PS2State" where
  "ps2_out e s = s\<lparr>outs := outs s @ [e]\<rparr>"

definition ps2_queue :: "PS2State \<Rightarrow> int \<Rightarrow> PS2State" where
  "ps2_queue s b =
     (let q = queue s in
      if PS2_QUEUE_SIZE \<le> count q then s
      else
        let q1 = q\<lparr>data := (data q)[wptr q := word_of_int b]\<rparr>;
            q2 = q1\<lparr>wptr := (if Suc (wptr q1) = PS2_QUEUE_SIZE then 0 else Suc (wptr q1))\<rparr>;
            q3 = q2\<lparr>count := Suc (count q2)\<rparr>
        in ps2_out (Update_irq True) (s\<lparr>queue := q3\<rparr>))"

definition ps2_read_data :: "PS2State \<Rightarrow> u8 \<times> PS2State" where
  "ps2_read_data s =
     (let q = queue s in
      if count q = 0 then
        let index = (if rptr q = 0 then PS2_QUEUE_SIZE - 1 else rptr q - 1)
        in (data q ! index, s)
      else
        let val = data q ! rptr q;
            q1 = q\<lparr>rptr := (if Suc (rptr q) = PS2_QUEUE_SIZE then 0 else Suc (rptr q))\<rparr>;
            q2 = q1\<lparr>count := count q1 - 1\<rparr>;
            s1 = ps2_out (Update_irq False) (s\<lparr>queue := q2\<rparr>)
        in (val, ps2_out (Update_irq (count q2 \<noteq> 0)) s1))"

definition ps2_common_reset :: "PS2State \<Rightarrow> PS2State" where
  "ps2_common_reset s =
     (let s1 = s\<lparr>write_cmd := -1\<rparr>;
          s2 = s1\<lparr>queue := (queue s1)\<lparr>rptr := 0, wptr := 0, count := 0\<rparr>\<rparr>
      in ps2_out (Update_irq False) s2)"

subsection \<open>Keyboard\<close>

definition kbd_queue_byte :: "int \<Rightarrow> PS2KbdState \<Rightarrow> PS2KbdState" where
  "kbd_queue_byte b s = s\<lparr>kbd_common := ps2_queue (kbd_common s) b\<rparr>"

definition kbd_set_write_cmd :: "int \<Rightarrow> PS2KbdState \<Rightarrow> PS2KbdState" where
  "kbd_set_write_cmd v s = s\<lparr>kbd_common := (kbd_common s)\<lparr>write_cmd := v\<rparr>\<rparr>"

definition kbd_out :: "ps2_out \<Rightarrow> PS2KbdState \<Rightarrow> PS2KbdState" where
  "kbd_out e s = s\<lparr>kbd_common := ps2_out e (kbd_common s)\<rparr>"

definition ps2_put_keycode :: "PS2KbdState \<Rightarrow> int \<Rightarrow> PS2KbdState" where
  "ps2_put_keycode s0 keycode =
     (let s = kbd_out Wakeup_request s0 in
      if \<not> translate s \<and> keycode < 0xe0 \<and> scancode_set s > 1 then
        let s1 = (if keycode AND 0x80 \<noteq> 0 then kbd_queue_byte 0xf0 s else s);
            keycode1 =
              (if scancode_set s1 = 2 then ps2_raw_keycode ! nat (keycode AND 0x7f)
               else if scancode_set s1 = 3 then ps2_raw_keycode_set3 ! nat (keycode AND 0x7f)
               else keycode)
        in kbd_queue_byte keycode1 s1
      else kbd_queue_byte keycode s)"

definition ps2_set_ledstate :: "PS2KbdState \<Rightarrow> int \<Rightarrow> PS2KbdState" where
  "ps2_set_ledstate s led = kbd_out (Put_ledstate led) (s\<lparr>ledstate := led\<rparr>)"

definition ps2_reset_keyboard :: "PS2KbdState \<Rightarrow> PS2KbdState" where
  "ps2_reset_keyboard s = ps2_set_ledstate (s\<lparr>scan_enabled := True, scancode_set := 2\<rparr>) 0"

definition ps2_keyboard_command :: "PS2KbdState \<Rightarrow> int \<Rightarrow> PS2KbdState" where
  "ps2_keyboard_command s val =
     (if val = 0x00 then kbd_queue_byte 0xFA s
      else if val = 0x05 then kbd_queue_byte 0xFE s
      else if val = 0xF2 then
        (let s1 = kbd_queue_byte 0xAB (kbd_queue_byte 0xFA s)
         in if translate s1 then kbd_queue_byte 0x41 s1 else kbd_queue_byte 0x83 s1)
      else if val = 0xEE then kbd_queue_byte 0xEE s
      else if val = 0xF4 then kbd_queue_byte 0xFA (s\<lparr>scan_enabled := True\<rparr>)
      else if val = 0xF0 \<or> val = 0xED \<or> val = 0xF3 then kbd_queue_byte 0xFA (kbd_set_write_cmd val s)
      else if val = 0xF5 then kbd_queue_byte 0xFA ((ps2_reset_keyboard s)\<lparr>scan_enabled := False\<rparr>)
      else if val = 0xF6 then kbd_queue_byte 0xFA ((ps2_reset_keyboard s)\<lparr>scan_enabled := True\<rparr>)
      else if val = 0xFF then kbd_queue_byte 0xAA (kbd_queue_byte 0xFA (ps2_reset_keyboard s))
      else kbd_queue_byte 0xFA s)"

definition ps2_write_keyboard :: "PS2KbdState \<Rightarrow> int \<Rightarrow> PS2KbdState" where
  "ps2_write_keyboard s val =
     (let cmd = write_cmd (kbd_common s) in
      if cmd = 0xF0 then
        kbd_set_write_cmd (-1)
          (if val = 0 then
             (if scancode_set s = 1 then ps2_put_keycode s 0x43
              else if scancode_set s = 2 then ps2_put_keycode s 0x41
              else if scancode_set s = 3 then ps2_put_keycode s 0x3f
              else s)
           else kbd_queue_byte 0xFA (if val \<ge> 1 \<and> val \<le> 3 then s\<lparr>scancode_set := val\<rparr> else s))
      else if cmd = 0xED then
        kbd_set_write_cmd (-1) (kbd_queue_byte 0xFA (ps2_set_ledstate s val))
      else if cmd = 0xF3 then
        kbd_set_write_cmd (-1) (kbd_queue_byte 0xFA s)
      else ps2_keyboard_command s val)"

definition ps2_keyboard_set_translation :: "PS2KbdState \<Rightarrow> bool \<Rightarrow> PS2KbdState" where
  "ps2_keyboard_set_translation s mode = s\<lparr>translate := mode\<rparr>"

definition ps2_kbd_reset :: "PS2KbdState \<Rightarrow> PS2KbdState" where
  "ps2_kbd_reset s =
     (s\<lparr>kbd_common := ps2_common_reset (kbd_common s)\<rparr>)
       \<lparr>scan_enabled := False, translate := False, scancode_set := 0\<rparr>"

subsection \<open>Mouse\<close>

definition mouse_queue_byte :: "int \<Rightarrow> PS2MouseState \<Rightarrow> PS2MouseState" where
  "mouse_queue_byte b s = s\<lparr>mouse_common := ps2_queue (mouse_common s) b\<rparr>"

definition mouse_set_write_cmd :: "int \<Rightarrow> PS2MouseState \<Rightarrow> PS2MouseState" where
  "mouse_set_write_cmd v s = s\<lparr>mouse_common := (mouse_common s)\<lparr>write_cmd := v\<rparr>\<rparr>"

definition clamp :: "int \<Rightarrow> int \<Rightarrow> int" where
  "clamp m d = (if d > m then m else if d < - m then - m else d)"

definition ps2_mouse_dz1 :: "PS2MouseState \<Rightarrow> int" where
  "ps2_mouse_dz1 s =
     (if mouse_type s = 3 then clamp 127 (mouse_dz s)
      else if mouse_type s = 4 then clamp 7 (mouse_dz s)
      else mouse_dz s)"

definition ps2_mouse_send_packet :: "PS2MouseState \<Rightarrow> PS2MouseState" where
  "ps2_mouse_send_packet s =
     (let dx1 = clamp 127 (mouse_dx s);
          dy1 = clamp 127 (mouse_dy s);
          dz1 = ps2_mouse_dz1 s;
          b = 0x08 OR push_bit 4 (c_bool (dx1 < 0)) OR push_bit 5 (c_bool (dy1 < 0))
                OR (uint (mouse_buttons s) AND 0x07);
          s1 = mouse_queue_byte b s;
          s2 = mouse_queue_byte (dx1 AND 0xff) s1;
          s3 = mouse_queue_byte (dy1 AND 0xff) s2;
          s4 = (if mouse_type s = 3 then mouse_queue_byte (dz1 AND 0xff) s3
                else if mouse_type s = 4 then
                  mouse_queue_byte ((dz1 AND 0x0f) OR push_bit 1 (uint (mouse_buttons s) AND 0x18)) s3
                else s3)
      in s4\<lparr>mouse_dx := mouse_dx s - dx1, mouse_dy := mouse_dy s - dy1, mouse_dz := mouse_dz s - dz1\<rparr>)"

text \<open>The \<^theory_text>\<open>for(;;)\<close> loop of the event handler: a packet, then stop when nothing is left.\<close>

definition ps2_mouse_left :: "PS2MouseState \<Rightarrow> nat" where
  "ps2_mouse_left s = nat (\<bar>mouse_dx s\<bar> + \<bar>mouse_dy s\<bar> + \<bar>mouse_dz s\<bar>)"

lemma clamp_shrinks: "0 < m \<Longrightarrow> d - clamp m d \<noteq> 0 \<Longrightarrow> \<bar>d - clamp m d\<bar> < \<bar>d\<bar>"
  by (auto simp: clamp_def split: if_splits)

lemma clamp_le: "0 < m \<Longrightarrow> \<bar>d - clamp m d\<bar> \<le> \<bar>d\<bar>"
  by (auto simp: clamp_def)

lemma send_packet_deltas [simp]:
  "mouse_dx (ps2_mouse_send_packet s) = mouse_dx s - clamp 127 (mouse_dx s)"
  "mouse_dy (ps2_mouse_send_packet s) = mouse_dy s - clamp 127 (mouse_dy s)"
  "mouse_dz (ps2_mouse_send_packet s) = mouse_dz s - ps2_mouse_dz1 s"
  by (simp_all add: ps2_mouse_send_packet_def Let_def)

lemma dz1_le: "\<bar>mouse_dz s - ps2_mouse_dz1 s\<bar> \<le> \<bar>mouse_dz s\<bar>"
  by (auto simp: ps2_mouse_dz1_def clamp_le)

lemma dz1_shrinks: "mouse_dz s - ps2_mouse_dz1 s \<noteq> 0 \<Longrightarrow> \<bar>mouse_dz s - ps2_mouse_dz1 s\<bar> < \<bar>mouse_dz s\<bar>"
  by (auto simp: ps2_mouse_dz1_def clamp_shrinks split: if_splits)

lemma send_packet_left:
  assumes "ps2_mouse_left (ps2_mouse_send_packet s) \<noteq> 0"
  shows "ps2_mouse_left (ps2_mouse_send_packet s) < ps2_mouse_left s"
proof -
  note le = clamp_le [of 127 "mouse_dx s"] clamp_le [of 127 "mouse_dy s"] dz1_le [of s]
  from assms consider "mouse_dx s - clamp 127 (mouse_dx s) \<noteq> 0"
    | "mouse_dy s - clamp 127 (mouse_dy s) \<noteq> 0" | "mouse_dz s - ps2_mouse_dz1 s \<noteq> 0"
    by (fastforce simp: ps2_mouse_left_def)
  then have "\<bar>mouse_dx s - clamp 127 (mouse_dx s)\<bar> + \<bar>mouse_dy s - clamp 127 (mouse_dy s)\<bar>
      + \<bar>mouse_dz s - ps2_mouse_dz1 s\<bar> < \<bar>mouse_dx s\<bar> + \<bar>mouse_dy s\<bar> + \<bar>mouse_dz s\<bar>"
    using le clamp_shrinks [of 127 "mouse_dx s"] clamp_shrinks [of 127 "mouse_dy s"]
      dz1_shrinks [of s]
    by cases linarith+
  then show ?thesis by (simp add: ps2_mouse_left_def)
qed

function ps2_mouse_send_all :: "PS2MouseState \<Rightarrow> PS2MouseState" where
  "ps2_mouse_send_all s =
     (let s1 = ps2_mouse_send_packet s in
      if mouse_dx s1 = 0 \<and> mouse_dy s1 = 0 \<and> mouse_dz s1 = 0 then s1
      else ps2_mouse_send_all s1)"
  by pat_completeness auto
termination
proof (relation "measure ps2_mouse_left", goal_cases)
  case 1
  show ?case by simp
next
  case (2 s s1)
  then have "ps2_mouse_left (ps2_mouse_send_packet s) \<noteq> 0"
    by (auto simp: ps2_mouse_left_def)
  then show ?case using send_packet_left [of s] 2(1) by simp
qed

declare ps2_mouse_send_all.simps [simp del]

definition mouse_out :: "ps2_out \<Rightarrow> PS2MouseState \<Rightarrow> PS2MouseState" where
  "mouse_out e s = s\<lparr>mouse_common := ps2_out e (mouse_common s)\<rparr>"

definition ps2_mouse_event :: "PS2MouseState \<Rightarrow> int \<Rightarrow> int \<Rightarrow> int \<Rightarrow> int \<Rightarrow> PS2MouseState" where
  "ps2_mouse_event s dx dy dz buttons_state =
     (if mouse_status s AND 0x20 = 0 then s
      else
        let s1 = s\<lparr>mouse_dx := c_int (mouse_dx s + dx), mouse_dy := c_int (mouse_dy s - dy),
                   mouse_dz := c_int (mouse_dz s + dz)\<rparr>
        in
        if mouse_dx s1 = 0 \<and> mouse_dy s1 = 0 \<and> mouse_dz s1 = 0
           \<and> uint (mouse_buttons s1) = buttons_state then s1
        else
          let s2 = s1\<lparr>mouse_buttons := word_of_int buttons_state\<rparr>;
              s3 = (if buttons_state \<noteq> 0 then mouse_out Wakeup_request s2 else s2)
          in
          if mouse_status s3 AND 0x40 = 0 \<and> count (queue (mouse_common s3)) < PS2_QUEUE_SIZE - 16
          then ps2_mouse_send_all s3
          else s3)"

definition ps2_mouse_fake_event :: "PS2MouseState \<Rightarrow> PS2MouseState" where
  "ps2_mouse_fake_event s = ps2_mouse_event s 1 0 0 0"

definition ps2_mouse_command :: "PS2MouseState \<Rightarrow> int \<Rightarrow> PS2MouseState" where
  "ps2_mouse_command s val =
     (if val = 0xE6 then mouse_queue_byte 0xFA (s\<lparr>mouse_status := mouse_status s AND NOT 0x10\<rparr>)
      else if val = 0xE7 then mouse_queue_byte 0xFA (s\<lparr>mouse_status := mouse_status s OR 0x10\<rparr>)
      else if val = 0xEA then mouse_queue_byte 0xFA (s\<lparr>mouse_status := mouse_status s AND NOT 0x40\<rparr>)
      else if val = 0xEE then mouse_queue_byte 0xFA (s\<lparr>mouse_wrap := True\<rparr>)
      else if val = 0xF0 then mouse_queue_byte 0xFA (s\<lparr>mouse_status := mouse_status s OR 0x40\<rparr>)
      else if val = 0xF2 then
        (let s1 = mouse_queue_byte 0xFA s in mouse_queue_byte (uint (mouse_type s1)) s1)
      else if val = 0xE8 \<or> val = 0xF3 then mouse_queue_byte 0xFA (mouse_set_write_cmd val s)
      else if val = 0xE9 then
        (let s1 = mouse_queue_byte 0xFA s;
             s2 = mouse_queue_byte (uint (mouse_status s1)) s1;
             s3 = mouse_queue_byte (uint (mouse_resolution s2)) s2
         in mouse_queue_byte (uint (mouse_sample_rate s3)) s3)
      else if val = 0xEB then ps2_mouse_send_packet (mouse_queue_byte 0xFA s)
      else if val = 0xF4 then mouse_queue_byte 0xFA (s\<lparr>mouse_status := mouse_status s OR 0x20\<rparr>)
      else if val = 0xF5 then mouse_queue_byte 0xFA (s\<lparr>mouse_status := mouse_status s AND NOT 0x20\<rparr>)
      else if val = 0xF6 then
        mouse_queue_byte 0xFA (s\<lparr>mouse_sample_rate := 100, mouse_resolution := 2, mouse_status := 0\<rparr>)
      else if val = 0xFF then
        (let s1 = s\<lparr>mouse_sample_rate := 100, mouse_resolution := 2, mouse_status := 0, mouse_type := 0\<rparr>;
             s2 = mouse_queue_byte 0xaa (mouse_queue_byte 0xFA s1)
         in mouse_queue_byte (uint (mouse_type s2)) s2)
      else s)"

definition ps2_mouse_set_sample :: "PS2MouseState \<Rightarrow> int \<Rightarrow> PS2MouseState" where
  "ps2_mouse_set_sample s val =
     (let s1 = s\<lparr>mouse_sample_rate := word_of_int val\<rparr>;
          s2 = (if mouse_detect_state s1 = 1 then
                  s1\<lparr>mouse_detect_state := (if val = 100 then 2 else if val = 200 then 3 else 0)\<rparr>
                else if mouse_detect_state s1 = 2 then
                  (if val = 80 then s1\<lparr>mouse_type := 3\<rparr> else s1)\<lparr>mouse_detect_state := 0\<rparr>
                else if mouse_detect_state s1 = 3 then
                  (if val = 80 then s1\<lparr>mouse_type := 4\<rparr> else s1)\<lparr>mouse_detect_state := 0\<rparr>
                else if val = 200 then s1\<lparr>mouse_detect_state := 1\<rparr>
                else s1)
      in mouse_set_write_cmd (-1) (mouse_queue_byte 0xFA s2))"

definition ps2_write_mouse :: "PS2MouseState \<Rightarrow> int \<Rightarrow> PS2MouseState" where
  "ps2_write_mouse s val =
     (let cmd = write_cmd (mouse_common s) in
      if cmd = 0xF3 then ps2_mouse_set_sample s val
      else if cmd = 0xE8 then
        mouse_set_write_cmd (-1) (mouse_queue_byte 0xFA (s\<lparr>mouse_resolution := word_of_int val\<rparr>))
      else if mouse_wrap s \<and> val = 0xEC then mouse_queue_byte 0xFA (s\<lparr>mouse_wrap := False\<rparr>)
      else if mouse_wrap s \<and> val \<noteq> 0xFF then mouse_queue_byte val s
      else ps2_mouse_command s val)"

definition ps2_mouse_reset :: "PS2MouseState \<Rightarrow> PS2MouseState" where
  "ps2_mouse_reset s =
     (s\<lparr>mouse_common := ps2_common_reset (mouse_common s)\<rparr>)
       \<lparr>mouse_status := 0, mouse_resolution := 0, mouse_sample_rate := 0, mouse_wrap := False,
        mouse_type := 0, mouse_detect_state := 0, mouse_dx := 0, mouse_dy := 0, mouse_dz := 0,
        mouse_buttons := 0\<rparr>"

subsection \<open>Initialisation and loading\<close>

definition ps2_zero :: PS2State where
  "ps2_zero = \<lparr>queue = \<lparr>data = replicate PS2_QUEUE_SIZE 0, rptr = 0, wptr = 0, count = 0\<rparr>,
     write_cmd = 0, outs = []\<rparr>"

definition ps2_kbd_init :: PS2KbdState where
  "ps2_kbd_init = \<lparr>kbd_common = ps2_zero, scan_enabled = False, translate = False,
     scancode_set = 2, ledstate = 0\<rparr>"

definition ps2_mouse_init :: PS2MouseState where
  "ps2_mouse_init = \<lparr>mouse_common = ps2_zero, mouse_status = 0, mouse_resolution = 0,
     mouse_sample_rate = 0, mouse_wrap = False, mouse_type = 0, mouse_detect_state = 0,
     mouse_dx = 0, mouse_dy = 0, mouse_dz = 0, mouse_buttons = 0\<rparr>"

definition ps2_kbd_post_load :: "PS2KbdState \<Rightarrow> int \<Rightarrow> PS2KbdState" where
  "ps2_kbd_post_load s version_id = (if version_id = 2 then s\<lparr>scancode_set := 2\<rparr> else s)"

definition ps2_kbd_ledstate_post_load :: "PS2KbdState \<Rightarrow> PS2KbdState" where
  "ps2_kbd_ledstate_post_load s = kbd_out (Put_ledstate (ledstate s)) s"

subsection \<open>The queue implements the bounded FIFO\<close>

text \<open>The interrupt level a log leaves: the last one driven, low before the first.\<close>

fun irq_step :: "bool \<Rightarrow> ps2_out \<Rightarrow> bool" where
  "irq_step l (Update_irq b) = b"
| "irq_step l (Put_ledstate v) = l"
| "irq_step l Wakeup_request = l"

definition irq_level :: "ps2_out list \<Rightarrow> bool" where
  "irq_level es = foldl irq_step False es"

lemma irq_level_Nil [simp]: "irq_level [] = False"
  by (simp add: irq_level_def)

lemma irq_level_append [simp]: "irq_level (es @ fs) = foldl irq_step (irq_level es) fs"
  by (simp add: irq_level_def)

definition ps2_ring_ok :: "PS2Queue \<Rightarrow> bool" where
  "ps2_ring_ok q \<longleftrightarrow> length (data q) = PS2_QUEUE_SIZE \<and> rptr q < PS2_QUEUE_SIZE
     \<and> count q \<le> PS2_QUEUE_SIZE \<and> wptr q = (rptr q + count q) mod PS2_QUEUE_SIZE"

definition ps2_inv :: "PS2State \<Rightarrow> bool" where
  "ps2_inv s \<longleftrightarrow> ps2_ring_ok (queue s) \<and> irq_level (outs s) = (count (queue s) \<noteq> 0)"

definition ps2_contents :: "PS2State \<Rightarrow> u8 list" where
  "ps2_contents s = ring (data (queue s)) (rptr (queue s)) (count (queue s))"

lemma length_ps2_contents [simp]: "length (ps2_contents s) = count (queue s)"
  by (simp add: ps2_contents_def)

lemma ps2_out_simps [simp]:
  "queue (ps2_out e s) = queue s"
  "outs (ps2_out e s) = outs s @ [e]"
  "write_cmd (ps2_out e s) = write_cmd s"
  by (simp_all add: ps2_out_def)

lemma ps2_queue_full: "PS2_QUEUE_SIZE \<le> count (queue s) \<Longrightarrow> ps2_queue s b = s"
  by (simp add: ps2_queue_def)

lemma ps2_queue_room:
  assumes "ps2_inv s" and "count (queue s) < PS2_QUEUE_SIZE"
  shows "ps2_inv (ps2_queue s b)"
    and "ps2_contents (ps2_queue s b) = ps2_contents s @ [word_of_int b]"
    and "outs (ps2_queue s b) = outs s @ [Update_irq True]"
proof -
  let ?q = "queue s"
  have ok: "length (data ?q) = 256" "rptr ?q < 256" "wptr ?q = (rptr ?q + count ?q) mod 256"
    using assms(1) by (simp_all add: ps2_inv_def ps2_ring_ok_def)
  show "ps2_inv (ps2_queue s b)"
    using assms ok by (simp add: ps2_inv_def ps2_ring_ok_def ps2_queue_def Let_def mod_Suc)
  show "ps2_contents (ps2_queue s b) = ps2_contents s @ [word_of_int b]"
    using assms ok by (simp add: ps2_contents_def ps2_queue_def Let_def ring_snoc)
  show "outs (ps2_queue s b) = outs s @ [Update_irq True]"
    using assms(2) by (simp add: ps2_queue_def Let_def)
qed

lemma ps2_inv_queue: "ps2_inv s \<Longrightarrow> ps2_inv (ps2_queue s b)"
  by (cases "count (queue s) < PS2_QUEUE_SIZE") (simp_all add: ps2_queue_room ps2_queue_full)

lemma ps2_contents_queue:
  assumes "ps2_inv s"
  shows "ps2_contents (ps2_queue s b) =
    (if count (queue s) < PS2_QUEUE_SIZE then ps2_contents s @ [word_of_int b] else ps2_contents s)"
  using assms by (simp add: ps2_queue_room ps2_queue_full)

lemma ps2_read_nonempty:
  assumes "ps2_inv s" and "count (queue s) \<noteq> 0"
  shows "fst (ps2_read_data s) = hd (ps2_contents s)"
    and "ps2_contents (snd (ps2_read_data s)) = tl (ps2_contents s)"
    and "ps2_inv (snd (ps2_read_data s))"
    and "outs (snd (ps2_read_data s)) = outs s @ [Update_irq False, Update_irq (count (queue s) \<noteq> 1)]"
proof -
  let ?q = "queue s"
  have ok: "length (data ?q) = 256" "rptr ?q < 256" "wptr ?q = (rptr ?q + count ?q) mod 256"
    "count ?q \<le> 256"
    using assms(1) by (simp_all add: ps2_inv_def ps2_ring_ok_def)
  have r: "(if Suc (rptr ?q) = 256 then 0 else Suc (rptr ?q)) = Suc (rptr ?q) mod 256"
    using ok(2) by simp
  have c: "ps2_contents s = data ?q ! rptr ?q # ring (data ?q) (Suc (rptr ?q) mod 256) (count ?q - 1)"
    using ok assms(2) by (simp add: ps2_contents_def ring_hd)
  show "fst (ps2_read_data s) = hd (ps2_contents s)"
    using c assms(2) by (simp add: ps2_read_data_def Let_def)
  show "ps2_contents (snd (ps2_read_data s)) = tl (ps2_contents s)"
    unfolding c using assms(2) r by (simp add: ps2_read_data_def Let_def ps2_contents_def)
  obtain c where c1: "count ?q = Suc c" using assms(2) by (cases "count ?q") auto
  have "(Suc (rptr ?q) mod 256 + c) mod 256 = Suc (rptr ?q + c) mod 256"
    by (rule mod_Suc_wrap)
  then show "ps2_inv (snd (ps2_read_data s))"
    using ok r c1 unfolding ps2_inv_def ps2_ring_ok_def ps2_read_data_def Let_def
    by simp
  show "outs (snd (ps2_read_data s)) = outs s @ [Update_irq False, Update_irq (count (queue s) \<noteq> 1)]"
    using assms(2) by (simp add: ps2_read_data_def Let_def) linarith
qed

lemma ps2_read_empty:
  "count (queue s) = 0 \<Longrightarrow> ps2_read_data s = (data (queue s) ! ((rptr (queue s) + 255) mod 256), s)"
  if "ps2_inv s"
  using that by (auto simp: ps2_read_data_def Let_def ps2_inv_def ps2_ring_ok_def mod_if)

lemma ps2_inv_read: "ps2_inv s \<Longrightarrow> ps2_inv (snd (ps2_read_data s))"
  by (cases "count (queue s) = 0") (simp_all add: ps2_read_nonempty ps2_read_empty)

interpretation ps2q: bounded_fifo ps2_inv ps2_contents "\<lambda>_. PS2_QUEUE_SIZE"
  "\<lambda>s b. ps2_queue s (uint b)" ps2_read_data
proof (unfold_locales, goal_cases)
  case (1 q)
  then show ?case by (simp add: ps2_inv_def ps2_ring_ok_def)
next
  case (2 q x)
  then show ?case by (rule ps2_inv_queue)
next
  case (4 q x)
  then show ?case by (simp add: ps2_contents_queue)
next
  case (5 q)
  then show ?case by (rule ps2_inv_read)
next
  case (7 q)
  then show ?case by (simp add: ps2_read_nonempty ps2_contents_def)
next
  case (8 q)
  then show ?case
  proof (cases "count (queue q) = 0")
    case True
    with 8 show ?thesis by (simp add: ps2_read_empty ps2_contents_def)
  next
    case False
    with 8 show ?thesis by (rule ps2_read_nonempty)
  qed
qed simp_all

subsection \<open>Steps of a device: the invariant is kept, the log only grows\<close>

definition ps2_step :: "PS2State \<Rightarrow> PS2State \<Rightarrow> bool" where
  "ps2_step s t \<longleftrightarrow> (ps2_inv s \<longrightarrow> ps2_inv t) \<and> (\<exists>es. outs t = outs s @ es)"

named_theorems ps2_steps

lemma ps2_step_refl [ps2_steps]: "ps2_step s s"
  by (simp add: ps2_step_def)

lemma ps2_step_trans: "ps2_step s t \<Longrightarrow> ps2_step t u \<Longrightarrow> ps2_step s u"
  by (auto simp: ps2_step_def)

lemma ps2_step_write_cmd [ps2_steps]: "ps2_step s t \<Longrightarrow> ps2_step s (t\<lparr>write_cmd := v\<rparr>)"
  by (auto simp: ps2_step_def ps2_inv_def)

lemma outs_queue: "\<exists>es. outs (ps2_queue s b) = outs s @ es"
  by (simp add: ps2_queue_def Let_def)

lemma outs_read: "\<exists>es. outs (snd (ps2_read_data s)) = outs s @ es"
  by (simp add: ps2_read_data_def Let_def)

lemma ps2_stepI:
  "(ps2_inv t \<Longrightarrow> ps2_inv u) \<Longrightarrow> (\<exists>es. outs u = outs t @ es) \<Longrightarrow> ps2_step s t \<Longrightarrow> ps2_step s u"
  by (auto simp: ps2_step_def)

lemma ps2_step_queue [ps2_steps]: "ps2_step s t \<Longrightarrow> ps2_step s (ps2_queue t b)"
  by (rule ps2_stepI [OF ps2_inv_queue outs_queue])

lemma ps2_step_read [ps2_steps]: "ps2_step s t \<Longrightarrow> ps2_step s (snd (ps2_read_data t))"
  by (rule ps2_stepI [OF ps2_inv_read outs_read])

lemma ps2_step_ledstate [ps2_steps]: "ps2_step s t \<Longrightarrow> ps2_step s (ps2_out (Put_ledstate v) t)"
  by (auto simp: ps2_step_def ps2_inv_def)

lemma ps2_step_wakeup [ps2_steps]: "ps2_step s t \<Longrightarrow> ps2_step s (ps2_out Wakeup_request t)"
  by (auto simp: ps2_step_def ps2_inv_def)

lemma ps2_step_reset [ps2_steps]: "ps2_step s t \<Longrightarrow> ps2_step s (ps2_common_reset t)"
  by (auto simp: ps2_step_def ps2_inv_def ps2_ring_ok_def ps2_common_reset_def Let_def)

lemma kbd_common_simps [simp]:
  "kbd_common (kbd_queue_byte b s) = ps2_queue (kbd_common s) b"
  "kbd_common (kbd_set_write_cmd v s) = (kbd_common s)\<lparr>write_cmd := v\<rparr>"
  "kbd_common (kbd_out e s) = ps2_out e (kbd_common s)"
  "kbd_common (ps2_set_ledstate s v) = ps2_out (Put_ledstate v) (kbd_common s)"
  "kbd_common (ps2_reset_keyboard s) = ps2_out (Put_ledstate 0) (kbd_common s)"
  by (simp_all add: kbd_queue_byte_def kbd_set_write_cmd_def kbd_out_def ps2_set_ledstate_def
      ps2_reset_keyboard_def)

lemma mouse_common_simps [simp]:
  "mouse_common (mouse_queue_byte b s) = ps2_queue (mouse_common s) b"
  "mouse_common (mouse_set_write_cmd v s) = (mouse_common s)\<lparr>write_cmd := v\<rparr>"
  "mouse_common (mouse_out e s) = ps2_out e (mouse_common s)"
  by (simp_all add: mouse_queue_byte_def mouse_set_write_cmd_def mouse_out_def)

lemma ps2_put_keycode_step [ps2_steps]:
  "ps2_step t (kbd_common s) \<Longrightarrow> ps2_step t (kbd_common (ps2_put_keycode s k))"
  by (simp add: ps2_put_keycode_def Let_def ps2_steps)

lemma ps2_write_keyboard_step [ps2_steps]:
  "ps2_step t (kbd_common s) \<Longrightarrow> ps2_step t (kbd_common (ps2_write_keyboard s v))"
  by (simp add: ps2_write_keyboard_def ps2_keyboard_command_def Let_def ps2_steps)

lemma mouse_send_packet_step [ps2_steps]:
  "ps2_step t (mouse_common s) \<Longrightarrow> ps2_step t (mouse_common (ps2_mouse_send_packet s))"
  by (simp add: ps2_mouse_send_packet_def Let_def ps2_steps)

lemma mouse_send_all_step [ps2_steps]:
  "ps2_step t (mouse_common s) \<Longrightarrow> ps2_step t (mouse_common (ps2_mouse_send_all s))"
proof (induction s rule: ps2_mouse_send_all.induct)
  case (1 s)
  have p: "ps2_step t (mouse_common (ps2_mouse_send_packet s))"
    by (rule mouse_send_packet_step) (rule "1.prems")
  show ?case
    using p "1.IH" [OF refl] by (subst ps2_mouse_send_all.simps) (simp add: Let_def)
qed

lemma ps2_mouse_event_step [ps2_steps]:
  "ps2_step t (mouse_common s) \<Longrightarrow> ps2_step t (mouse_common (ps2_mouse_event s dx dy dz b))"
  by (simp add: ps2_mouse_event_def Let_def ps2_steps)

lemma ps2_write_mouse_step [ps2_steps]:
  "ps2_step t (mouse_common s) \<Longrightarrow> ps2_step t (mouse_common (ps2_write_mouse s v))"
  by (simp add: ps2_write_mouse_def ps2_mouse_command_def ps2_mouse_set_sample_def Let_def ps2_steps)

text \<open>What the controller and the console may do to a device, as data.\<close>

datatype kbd_op =
    Kbd_keycode int | Kbd_write int | Kbd_translation bool | Kbd_reset | Kbd_read | Kbd_put int
  | Kbd_post_load int | Kbd_led_post_load

datatype mouse_op =
    Mouse_event int int int int | Mouse_fake | Mouse_write int | Mouse_reset | Mouse_read
  | Mouse_put int

fun kbd_apply :: "kbd_op \<Rightarrow> PS2KbdState \<Rightarrow> PS2KbdState" where
  "kbd_apply (Kbd_keycode k) s = ps2_put_keycode s k"
| "kbd_apply (Kbd_write v) s = ps2_write_keyboard s v"
| "kbd_apply (Kbd_translation m) s = ps2_keyboard_set_translation s m"
| "kbd_apply Kbd_reset s = ps2_kbd_reset s"
| "kbd_apply Kbd_read s = s\<lparr>kbd_common := snd (ps2_read_data (kbd_common s))\<rparr>"
| "kbd_apply (Kbd_put b) s = kbd_queue_byte b s"
| "kbd_apply (Kbd_post_load v) s = ps2_kbd_post_load s v"
| "kbd_apply Kbd_led_post_load s = ps2_kbd_ledstate_post_load s"

fun mouse_apply :: "mouse_op \<Rightarrow> PS2MouseState \<Rightarrow> PS2MouseState" where
  "mouse_apply (Mouse_event dx dy dz b) s = ps2_mouse_event s dx dy dz b"
| "mouse_apply Mouse_fake s = ps2_mouse_fake_event s"
| "mouse_apply (Mouse_write v) s = ps2_write_mouse s v"
| "mouse_apply Mouse_reset s = ps2_mouse_reset s"
| "mouse_apply Mouse_read s = s\<lparr>mouse_common := snd (ps2_read_data (mouse_common s))\<rparr>"
| "mouse_apply (Mouse_put b) s = mouse_queue_byte b s"

lemma kbd_apply_step: "ps2_step (kbd_common s) (kbd_common (kbd_apply x s))"
  by (cases x) (simp_all add: ps2_steps ps2_keyboard_set_translation_def ps2_kbd_reset_def
      ps2_kbd_post_load_def ps2_kbd_ledstate_post_load_def)

lemma mouse_apply_step: "ps2_step (mouse_common s) (mouse_common (mouse_apply x s))"
  by (cases x) (simp_all add: ps2_steps ps2_mouse_fake_event_def ps2_mouse_reset_def)

subsection \<open>The interface of a device: any run of its operations\<close>

locale ps2_device =
  fixes common :: "'d \<Rightarrow> PS2State"
    and perform :: "'op \<Rightarrow> 'd \<Rightarrow> 'd"
  assumes perform_step: "ps2_step (common d) (common (perform x d))"
begin

definition run :: "'d \<Rightarrow> 'op list \<Rightarrow> 'd" where
  "run d xs = foldl (\<lambda>d x. perform x d) d xs"

lemma run_step: "ps2_step (common d) (common (run d xs))"
proof (induction xs arbitrary: d)
  case Nil
  then show ?case by (simp add: run_def ps2_step_refl)
next
  case (Cons x xs)
  from perform_step [of d x] Cons.IH [of "perform x d"] show ?case
    by (simp add: run_def ps2_step_trans)
qed

lemma run_inv: "ps2_inv (common d) \<Longrightarrow> ps2_inv (common (run d xs))"
  using run_step [of d xs] by (simp add: ps2_step_def)

lemma run_level: "ps2_inv (common d) \<Longrightarrow>
    irq_level (outs (common (run d xs))) \<longleftrightarrow> ps2_contents (common (run d xs)) \<noteq> []"
  using run_inv [of d xs] by (simp add: ps2_inv_def ps2_contents_def)

text \<open>A call's own part of the log ends at the level of the device it leaves.\<close>

lemma perform_calls:
  assumes "ps2_inv (common d)"
  shows "foldl irq_step (ps2_contents (common d) \<noteq> [])
      (drop (length (outs (common d))) (outs (common (perform x d))))
    = (ps2_contents (common (perform x d)) \<noteq> [])"
proof -
  obtain es where es: "outs (common (perform x d)) = outs (common d) @ es"
    using perform_step [of d x] by (auto simp: ps2_step_def)
  have "ps2_inv (common (perform x d))"
    using perform_step [of d x] assms by (simp add: ps2_step_def)
  with assms es show ?thesis by (simp add: ps2_inv_def ps2_contents_def)
qed

end

interpretation keyboard: ps2_device kbd_common kbd_apply
  by unfold_locales (rule kbd_apply_step)

interpretation mouse: ps2_device mouse_common mouse_apply
  by unfold_locales (rule mouse_apply_step)

lemma ps2_inv_zero: "ps2_inv ps2_zero"
  by (simp add: ps2_inv_def ps2_ring_ok_def ps2_zero_def)

subsection \<open>Mouse packets\<close>

text \<open>The bytes one packet queues.\<close>

definition ps2_packet :: "PS2MouseState \<Rightarrow> int list" where
  "ps2_packet s =
     (let dx1 = clamp 127 (mouse_dx s);
          dy1 = clamp 127 (mouse_dy s);
          dz1 = ps2_mouse_dz1 s
      in [0x08 OR push_bit 4 (c_bool (dx1 < 0)) OR push_bit 5 (c_bool (dy1 < 0))
            OR (uint (mouse_buttons s) AND 0x07), dx1 AND 0xff, dy1 AND 0xff]
         @ (if mouse_type s = 3 then [dz1 AND 0xff]
            else if mouse_type s = 4 then
              [(dz1 AND 0x0f) OR push_bit 1 (uint (mouse_buttons s) AND 0x18)]
            else []))"

text \<open>How a driver reads a packet back: 9-bit two's complement deltas, and the wheel byte.\<close>

definition packet_dx :: "u8 list \<Rightarrow> int" where
  "packet_dx p = uint (p ! 1) - (if bit (p ! 0) 4 then 256 else 0)"

definition packet_dy :: "u8 list \<Rightarrow> int" where
  "packet_dy p = uint (p ! 2) - (if bit (p ! 0) 5 then 256 else 0)"

definition packet_dz :: "u8 \<Rightarrow> u8 list \<Rightarrow> int" where
  "packet_dz ty p = (if ty = 3 then sint (p ! 3) else if ty = 4 then signed_take_bit 3 (uint (p ! 3)) else 0)"

definition packet_size :: "u8 \<Rightarrow> nat" where
  "packet_size ty = (if ty = 3 \<or> ty = 4 then 4 else 3)"

definition packet_bytes :: "PS2MouseState \<Rightarrow> u8 list" where
  "packet_bytes s = map word_of_int (ps2_packet s)"

lemma ps2_queue_word: "ps2_queue s (uint (word_of_int b :: u8)) = ps2_queue s b"
  by (simp add: ps2_queue_def Let_def)

lemma ps2_queue_list:
  assumes "ps2_inv s"
  shows "ps2_inv (foldl ps2_queue s bs)"
    and "ps2_contents (foldl ps2_queue s bs) = take 256 (ps2_contents s @ map word_of_int bs)"
proof -
  have eq: "foldl (\<lambda>s b. ps2_queue s (uint b)) s (map word_of_int bs :: u8 list) = foldl ps2_queue s bs"
    by (simp only: foldl_map ps2_queue_word)
  show "ps2_inv (foldl ps2_queue s bs)"
    using ps2q.inv_put_all [OF assms, of "map word_of_int bs"] eq by simp
  show "ps2_contents (foldl ps2_queue s bs) = take 256 (ps2_contents s @ map word_of_int bs)"
    using ps2q.contents_put_all [OF assms, of "map word_of_int bs"] eq by simp
qed

lemma send_packet_common: "mouse_common (ps2_mouse_send_packet s) = foldl ps2_queue (mouse_common s) (ps2_packet s)"
  by (simp add: ps2_mouse_send_packet_def ps2_packet_def Let_def)

lemma send_packet_frame [simp]:
  "mouse_type (ps2_mouse_send_packet s) = mouse_type s"
  "mouse_buttons (ps2_mouse_send_packet s) = mouse_buttons s"
  "mouse_status (ps2_mouse_send_packet s) = mouse_status s"
  by (simp_all add: ps2_mouse_send_packet_def Let_def mouse_queue_byte_def)

lemma clamp_bounds: "0 \<le> m \<Longrightarrow> - m \<le> clamp m d \<and> clamp m d \<le> m"
  by (auto simp: clamp_def)

lemma mask_255: "(d :: int) AND 255 = d mod 256"
  using take_bit_eq_mask [of 8 d] by (simp add: take_bit_eq_mod mask_eq_exp_minus_1)

lemma packet_header_bits:
  "bit (0x08 OR push_bit 4 (c_bool p) OR push_bit 5 (c_bool q) OR (x AND 0x07) :: int) 4 = p"
  "bit (0x08 OR push_bit 4 (c_bool p) OR push_bit 5 (c_bool q) OR (x AND 0x07) :: int) 5 = q"
  by (cases p; cases q; simp add: bit_simps)+

lemma decode_byte:
  fixes c :: int
  assumes "- 127 \<le> c \<and> c \<le> 127"
  shows "c mod 256 - (if c < 0 then 256 else 0) = c"
  using assms mod_pos_pos_trivial [of c 256] mod_pos_pos_trivial [of "c + 256" 256]
  by (cases "c < 0") simp_all

lemma packet_bytes_header:
  "bit (packet_bytes s ! 0) 4 = (clamp 127 (mouse_dx s) < 0)"
  "bit (packet_bytes s ! 0) 5 = (clamp 127 (mouse_dy s) < 0)"
  unfolding packet_bytes_def ps2_packet_def Let_def
  by (simp_all only: append_Cons list.map nth_Cons_0 bit_word_of_int_iff packet_header_bits) simp_all

lemma packet_bytes_dx: "packet_dx (packet_bytes s) = clamp 127 (mouse_dx s)"
proof -
  have "uint (packet_bytes s ! 1) = clamp 127 (mouse_dx s) mod 256"
    by (simp add: packet_bytes_def ps2_packet_def Let_def mask_255 uint_word_of_int)
  with decode_byte [OF clamp_bounds [of 127 "mouse_dx s"]] show ?thesis
    by (simp add: packet_dx_def packet_bytes_header)
qed

lemma packet_bytes_dy: "packet_dy (packet_bytes s) = clamp 127 (mouse_dy s)"
proof -
  have "uint (packet_bytes s ! 2) = clamp 127 (mouse_dy s) mod 256"
    by (simp add: packet_bytes_def ps2_packet_def Let_def mask_255 uint_word_of_int)
  with decode_byte [OF clamp_bounds [of 127 "mouse_dy s"]] show ?thesis
    by (simp add: packet_dy_def packet_bytes_header)
qed

lemma take_bit_word_of_int8: "take_bit 8 (uint (word_of_int z :: u8)) = take_bit 8 z"
  by (simp add: uint_word_of_int take_bit_eq_mod)

lemma nibble_of_dz: "take_bit 4 ((d AND 0x0f) OR push_bit 1 (x AND 0x18)) = take_bit 4 (d :: int)"
proof (rule bit_eqI)
  fix n :: nat
  have "n < 4 \<Longrightarrow> n = 0 \<or> n = 1 \<or> n = 2 \<or> n = 3" by arith
  then show "bit (take_bit 4 ((d AND 0x0f) OR push_bit 1 (x AND 0x18))) n = bit (take_bit 4 d) n"
    by (cases "n < 4") (auto simp: bit_take_bit_iff bit_or_iff bit_and_iff bit_push_bit_iff)
qed

lemma take_bit_4_u8: "take_bit 4 (uint (word_of_int z :: u8)) = take_bit 4 z"
  by (simp add: uint_word_of_int take_bit_eq_mod mod_mod_cancel)

lemma packet_bytes_dz:
  assumes "mouse_type s = 3 \<or> mouse_type s = 4"
  shows "packet_dz (mouse_type s) (packet_bytes s) = ps2_mouse_dz1 s"
proof (cases "mouse_type s = 3")
  case True
  have "- 127 \<le> clamp 127 (mouse_dz s) \<and> clamp 127 (mouse_dz s) \<le> 127"
    by (rule clamp_bounds) simp
  then have "signed_take_bit 7 (clamp 127 (mouse_dz s)) = clamp 127 (mouse_dz s)"
    by (intro signed_take_bit_int_eq_self) simp_all
  moreover have "sint (packet_bytes s ! 3) = signed_take_bit 7 (clamp 127 (mouse_dz s))"
    using True
    by (simp add: packet_bytes_def ps2_packet_def Let_def ps2_mouse_dz1_def sint_uint
        uint_word_of_int mask_255)
      (simp add: signed_take_bit_eq_iff_take_bit_eq take_bit_eq_mod)
  ultimately show ?thesis using True by (simp add: packet_dz_def ps2_mouse_dz1_def)
next
  case False
  with assms have t: "mouse_type s = 4" by simp
  have "- 7 \<le> clamp 7 (mouse_dz s) \<and> clamp 7 (mouse_dz s) \<le> 7"
    by (rule clamp_bounds) simp
  then have "signed_take_bit 3 (clamp 7 (mouse_dz s)) = clamp 7 (mouse_dz s)"
    by (intro signed_take_bit_int_eq_self) simp_all
  moreover have "signed_take_bit 3 (uint (packet_bytes s ! 3)) = signed_take_bit 3 (clamp 7 (mouse_dz s))"
    using t nibble_of_dz
    by (simp add: packet_bytes_def ps2_packet_def Let_def ps2_mouse_dz1_def
        signed_take_bit_eq_iff_take_bit_eq take_bit_4_u8)
  ultimately show ?thesis using t by (simp add: packet_dz_def ps2_mouse_dz1_def)
qed

lemma packet_bytes_length: "length (packet_bytes s) = packet_size (mouse_type s)"
  by (simp add: packet_bytes_def ps2_packet_def Let_def packet_size_def)

lemma send_all_frame [simp]:
  "mouse_type (ps2_mouse_send_all s) = mouse_type s"
  "mouse_buttons (ps2_mouse_send_all s) = mouse_buttons s"
proof (induction s rule: ps2_mouse_send_all.induct)
  case (1 s)
  {
    case 1
    show ?case using "1.IH"(1) by (subst ps2_mouse_send_all.simps) (simp add: Let_def)
  next
    case 2
    show ?case using "1.IH"(2) by (subst ps2_mouse_send_all.simps) (simp add: Let_def)
  }
qed

lemma send_all_zero:
  "mouse_dx (ps2_mouse_send_all s) = 0 \<and> mouse_dy (ps2_mouse_send_all s) = 0 \<and> mouse_dz (ps2_mouse_send_all s) = 0"
proof (induction s rule: ps2_mouse_send_all.induct)
  case (1 s)
  show ?case using "1.IH" by (subst (1 2 3) ps2_mouse_send_all.simps) (simp add: Let_def)
qed

lemma send_all_packets:
  assumes "ps2_inv (mouse_common s)"
  shows "\<exists>ps. ps2_contents (mouse_common (ps2_mouse_send_all s))
      = take 256 (ps2_contents (mouse_common s) @ concat ps)
    \<and> ps \<noteq> [] \<and> (\<forall>p\<in>set ps. length p = packet_size (mouse_type s))
    \<and> sum_list (map packet_dx ps) = mouse_dx s \<and> sum_list (map packet_dy ps) = mouse_dy s
    \<and> (mouse_type s = 3 \<or> mouse_type s = 4 \<longrightarrow>
         sum_list (map (packet_dz (mouse_type s)) ps) = mouse_dz s)"
  using assms
proof (induction s rule: ps2_mouse_send_all.induct)
  case (1 s)
  let ?s1 = "ps2_mouse_send_packet s" and ?p = "packet_bytes s"
  have inv1: "ps2_inv (mouse_common ?s1)"
    using "1.prems" mouse_send_packet_step [OF ps2_step_refl] by (auto simp: ps2_step_def)
  have c1: "ps2_contents (mouse_common ?s1) = take 256 (ps2_contents (mouse_common s) @ ?p)"
    using "1.prems" by (simp add: send_packet_common ps2_queue_list packet_bytes_def)
  note p = packet_bytes_length [of s] packet_bytes_dx [of s] packet_bytes_dy [of s] packet_bytes_dz [of s]
  show ?case
  proof (cases "mouse_dx ?s1 = 0 \<and> mouse_dy ?s1 = 0 \<and> mouse_dz ?s1 = 0")
    case True
    then have "ps2_mouse_send_all s = ?s1"
      by (subst ps2_mouse_send_all.simps) (simp add: Let_def)
    with True c1 p show ?thesis by (intro exI [of _ "[?p]"]) auto
  next
    case False
    then have e: "ps2_mouse_send_all s = ps2_mouse_send_all ?s1"
      by (subst ps2_mouse_send_all.simps) (auto simp: Let_def)
    from "1.IH" [OF refl False inv1] obtain ps where ps:
      "ps2_contents (mouse_common (ps2_mouse_send_all ?s1))
        = take 256 (ps2_contents (mouse_common ?s1) @ concat ps)"
      "ps \<noteq> []" "\<forall>p\<in>set ps. length p = packet_size (mouse_type s)"
      "sum_list (map packet_dx ps) = mouse_dx ?s1" "sum_list (map packet_dy ps) = mouse_dy ?s1"
      "mouse_type s = 3 \<or> mouse_type s = 4 \<longrightarrow>
         sum_list (map (packet_dz (mouse_type s)) ps) = mouse_dz ?s1"
      by auto
    have "take 256 (take 256 (ps2_contents (mouse_common s) @ ?p) @ concat ps)
        = take 256 (ps2_contents (mouse_common s) @ concat (?p # ps))"
      by (simp add: min_def)
    with e c1 p ps show ?thesis by (intro exI [of _ "?p # ps"]) auto
  qed
qed

subsection \<open>Properties\<close>

lemma mouse_event_packets:
  assumes "ps2_inv (mouse_common s)" and "mouse_status s AND 0x20 \<noteq> 0"
    and "mouse_status s AND 0x40 = 0" and "count (queue (mouse_common s)) < 240"
    and "X = c_int (mouse_dx s + dx)" and "Y = c_int (mouse_dy s - dy)" and "Z = c_int (mouse_dz s + dz)"
    and "(X, Y, Z, uint (mouse_buttons s)) \<noteq> (0, 0, 0, b)"
    and "s' = ps2_mouse_event s dx dy dz b"
  shows "\<exists>ps. ps2_contents (mouse_common s') = take 256 (ps2_contents (mouse_common s) @ concat ps)
    \<and> ps \<noteq> [] \<and> (\<forall>p\<in>set ps. length p = packet_size (mouse_type s))
    \<and> sum_list (map packet_dx ps) = X \<and> sum_list (map packet_dy ps) = Y
    \<and> (mouse_type s = 3 \<or> mouse_type s = 4 \<longrightarrow> sum_list (map (packet_dz (mouse_type s)) ps) = Z)
    \<and> mouse_dx s' = 0 \<and> mouse_dy s' = 0 \<and> mouse_dz s' = 0"
proof -
  let ?s2 = "s\<lparr>mouse_dx := X, mouse_dy := Y, mouse_dz := Z, mouse_buttons := word_of_int b\<rparr>"
  let ?s3 = "if b \<noteq> 0 then mouse_out Wakeup_request ?s2 else ?s2"
  have s': "s' = ps2_mouse_send_all ?s3"
    using assms(2-9) by (auto simp: ps2_mouse_event_def Let_def mouse_out_def)
  have "ps2_step (mouse_common s) (mouse_common ?s3)"
    by (simp add: ps2_steps)
  then have inv: "ps2_inv (mouse_common ?s3)"
    using assms(1) by (simp add: ps2_step_def)
  have f: "mouse_dx ?s3 = X" "mouse_dy ?s3 = Y" "mouse_dz ?s3 = Z" "mouse_type ?s3 = mouse_type s"
    "ps2_contents (mouse_common ?s3) = ps2_contents (mouse_common s)"
    by (simp_all add: mouse_out_def ps2_contents_def)
  from send_all_packets [OF inv] show ?thesis
    using send_all_zero [of ?s3] unfolding s' f by blast
qed

text \<open>C2: [ps2_mouse_movement] When the mouse is enabled, in stream mode and the queue has its
  required room, an event that changes something ends the send loop with no movement left, and the
  bytes it queues (up to the queue's end) are whole packets whose decoded movements add up to
  exactly the accumulated movement in each axis (the wheel axis for the wheel mice; the plain mouse
  drops the wheel's). The room the code asks for does not exclude that the last packets are cut.\<close>

theorem ps2_mouse_movement:
  assumes "ps2_inv (mouse_common s)" and "mouse_status s AND 0x20 \<noteq> 0"
    and "mouse_status s AND 0x40 = 0" and "count (queue (mouse_common s)) < 240"
    and "X = c_int (mouse_dx s + dx)" and "Y = c_int (mouse_dy s - dy)" and "Z = c_int (mouse_dz s + dz)"
    and "(X, Y, Z, uint (mouse_buttons s)) \<noteq> (0, 0, 0, b)"
    and "s' = ps2_mouse_event s dx dy dz b"
  shows "\<exists>ps. ps2_contents (mouse_common s') = take 256 (ps2_contents (mouse_common s) @ concat ps)
    \<and> ps \<noteq> [] \<and> (\<forall>p\<in>set ps. length p = packet_size (mouse_type s))
    \<and> sum_list (map packet_dx ps) = X \<and> sum_list (map packet_dy ps) = Y
    \<and> (mouse_type s = 3 \<or> mouse_type s = 4 \<longrightarrow> sum_list (map (packet_dz (mouse_type s)) ps) = Z)
    \<and> mouse_dx s' = 0 \<and> mouse_dy s' = 0 \<and> mouse_dz s' = 0"
  using assms by (rule mouse_event_packets)

definition ps2_demo_mouse :: PS2MouseState where
  "ps2_demo_mouse = ps2_mouse_init\<lparr>mouse_status := 0x20, mouse_type := 4\<rparr>"

lemma ps2_demo_mouse_ok:
  "ps2_inv (mouse_common ps2_demo_mouse)" "mouse_status ps2_demo_mouse AND 0x20 \<noteq> 0"
  "mouse_status ps2_demo_mouse AND 0x40 = 0" "count (queue (mouse_common ps2_demo_mouse)) < 240"
  "mouse_dx ps2_demo_mouse = 0" "mouse_dy ps2_demo_mouse = 0" "mouse_dz ps2_demo_mouse = 0"
  "mouse_buttons ps2_demo_mouse = 0" "mouse_type ps2_demo_mouse = 4"
  "ps2_contents (mouse_common ps2_demo_mouse) = []"
  using ps2_inv_zero
  by (simp_all add: ps2_demo_mouse_def ps2_mouse_init_def) (simp_all add: ps2_zero_def ps2_contents_def)

theorem ps2_mouse_movement_witness:
  "\<exists>ps. ps2_contents (mouse_common (ps2_mouse_event ps2_demo_mouse 300 5 (-9) 1)) = take 256 (concat ps)
    \<and> (\<forall>p\<in>set ps. length p = 4) \<and> sum_list (map packet_dx ps) = 300
    \<and> sum_list (map packet_dy ps) = -5 \<and> sum_list (map (packet_dz 4) ps) = -9"
proof -
  have c: "c_int 300 = 300" "c_int (-5) = -5" "c_int (-9) = -9" by (simp_all add: c_int_id)
  show ?thesis
    using ps2_mouse_movement [OF ps2_demo_mouse_ok(1-4), of 300 300 "-5" 5 "-9" "-9" 1, OF _ _ _ _ refl]
    by (auto simp: ps2_demo_mouse_ok c packet_size_def)
qed

fun ps2_read_many :: "nat \<Rightarrow> PS2State \<Rightarrow> u8 list \<times> PS2State" where
  "ps2_read_many 0 s = ([], s)"
| "ps2_read_many (Suc n) s =
     (let (x, s1) = ps2_read_data s; (xs, s2) = ps2_read_many n s1 in (x # xs, s2))"

lemma ps2_read_many_eq: "ps2_read_many n s = ps2q.get_many n s"
  by (induction n arbitrary: s) (simp_all add: Let_def split: prod.splits)

text \<open>[ps2_queue_order] Bytes queued on a well-formed device queue that has room for them are
  read back in the order they were queued, after what was already waiting, and the queue is then
  empty.\<close>

theorem ps2_queue_order:
  assumes "ps2_inv s" and "count (queue s) + length bs \<le> PS2_QUEUE_SIZE"
  shows "fst (ps2_read_many (count (queue s) + length bs) (foldl ps2_queue s bs))
      = ps2_contents s @ map word_of_int bs
    \<and> ps2_contents (snd (ps2_read_many (count (queue s) + length bs) (foldl ps2_queue s bs))) = []"
proof -
  have c: "ps2_contents (foldl ps2_queue s bs) = ps2_contents s @ map word_of_int bs"
    using assms by (simp add: ps2_queue_list)
  then show ?thesis
    using ps2q.get_many_spec [OF ps2_queue_list(1) [OF assms(1), of bs], of "count (queue s) + length bs"]
    by (simp add: ps2_read_many_eq)
qed

theorem ps2_queue_order_witness:
  "fst (ps2_read_many 3 (foldl ps2_queue ps2_zero [0xFA, 0xAA, 0x100])) = [0xFA, 0xAA, 0]"
  using ps2_queue_order [OF ps2_inv_zero, of "[0xFA, 0xAA, 0x100]"]
  by (simp add: ps2_contents_def) (simp add: ps2_zero_def numeral_3_eq_3)

text \<open>[ps2_irq_level] After any run of keyboard operations and any run of mouse operations from
  power-on, the ring invariant of the queue holds and the interrupt line was last driven high
  exactly when bytes are waiting.\<close>

theorem ps2_irq_level:
  "ps2_inv (kbd_common (foldl (\<lambda>d x. kbd_apply x d) ps2_kbd_init ks)) \<and>
   (irq_level (outs (kbd_common (foldl (\<lambda>d x. kbd_apply x d) ps2_kbd_init ks))) \<longleftrightarrow>
      ps2_contents (kbd_common (foldl (\<lambda>d x. kbd_apply x d) ps2_kbd_init ks)) \<noteq> []) \<and>
   ps2_inv (mouse_common (foldl (\<lambda>d x. mouse_apply x d) ps2_mouse_init ms)) \<and>
   (irq_level (outs (mouse_common (foldl (\<lambda>d x. mouse_apply x d) ps2_mouse_init ms))) \<longleftrightarrow>
      ps2_contents (mouse_common (foldl (\<lambda>d x. mouse_apply x d) ps2_mouse_init ms)) \<noteq> [])"
proof -
  have k: "ps2_inv (kbd_common ps2_kbd_init)" and m: "ps2_inv (mouse_common ps2_mouse_init)"
    using ps2_inv_zero by (simp_all add: ps2_kbd_init_def ps2_mouse_init_def)
  show ?thesis
    using keyboard.run_inv [OF k, of ks] keyboard.run_level [OF k, of ks]
      mouse.run_inv [OF m, of ms] mouse.run_level [OF m, of ms]
    by (simp add: keyboard.run_def mouse.run_def)
qed

lemma write_cmd_queue [simp]: "write_cmd (ps2_queue s b) = write_cmd s"
  by (simp add: ps2_queue_def Let_def)

lemma mouse_queue_byte_frame [simp]:
  "mouse_type (mouse_queue_byte b s) = mouse_type s"
  "mouse_wrap (mouse_queue_byte b s) = mouse_wrap s"
  "mouse_detect_state (mouse_queue_byte b s) = mouse_detect_state s"
  "mouse_sample_rate (mouse_queue_byte b s) = mouse_sample_rate s"
  by (simp_all add: mouse_queue_byte_def)

lemma mouse_set_write_cmd_frame [simp]:
  "mouse_type (mouse_set_write_cmd b s) = mouse_type s"
  "mouse_wrap (mouse_set_write_cmd b s) = mouse_wrap s"
  "mouse_detect_state (mouse_set_write_cmd b s) = mouse_detect_state s"
  "mouse_sample_rate (mouse_set_write_cmd b s) = mouse_sample_rate s"
  by (simp_all add: mouse_set_write_cmd_def)

definition mouse_idle :: "PS2MouseState \<Rightarrow> bool" where
  "mouse_idle s \<longleftrightarrow> write_cmd (mouse_common s) = -1 \<and> \<not> mouse_wrap s"

lemma write_mouse_sample:
  assumes "mouse_idle s"
  shows "mouse_idle (ps2_write_mouse (ps2_write_mouse s 0xF3) v)"
    and "mouse_sample_rate (ps2_write_mouse (ps2_write_mouse s 0xF3) v) = word_of_int v"
    and "mouse_detect_state (ps2_write_mouse (ps2_write_mouse s 0xF3) v) =
      (if mouse_detect_state s = 1 then (if v = 100 then 2 else if v = 200 then 3 else 0)
       else if mouse_detect_state s = 2 \<or> mouse_detect_state s = 3 then 0
       else if v = 200 then 1 else mouse_detect_state s)"
    and "mouse_type (ps2_write_mouse (ps2_write_mouse s 0xF3) v) =
      (if v = 80 \<and> mouse_detect_state s = 2 then 3 else if v = 80 \<and> mouse_detect_state s = 3 then 4
       else mouse_type s)"
proof -
  have "ps2_write_mouse s 0xF3 = mouse_queue_byte 0xFA (mouse_set_write_cmd 0xF3 s)"
    using assms by (simp add: mouse_idle_def ps2_write_mouse_def ps2_mouse_command_def)
  then have e: "ps2_write_mouse (ps2_write_mouse s 0xF3) v =
      ps2_mouse_set_sample (mouse_queue_byte 0xFA (mouse_set_write_cmd 0xF3 s)) v"
    by (simp add: ps2_write_mouse_def)
  show "mouse_idle (ps2_write_mouse (ps2_write_mouse s 0xF3) v)"
    "mouse_sample_rate (ps2_write_mouse (ps2_write_mouse s 0xF3) v) = word_of_int v"
    "mouse_detect_state (ps2_write_mouse (ps2_write_mouse s 0xF3) v) =
      (if mouse_detect_state s = 1 then (if v = 100 then 2 else if v = 200 then 3 else 0)
       else if mouse_detect_state s = 2 \<or> mouse_detect_state s = 3 then 0
       else if v = 200 then 1 else mouse_detect_state s)"
    "mouse_type (ps2_write_mouse (ps2_write_mouse s 0xF3) v) =
      (if v = 80 \<and> mouse_detect_state s = 2 then 3 else if v = 80 \<and> mouse_detect_state s = 3 then 4
       else mouse_type s)"
    using assms unfolding e by (simp_all add: ps2_mouse_set_sample_def Let_def mouse_idle_def)
qed

text \<open>[ps2_wheel_detection] The sample-rate sequence 200, 100, 80 turns a mouse that is not in
  the middle of a command into an IMPS/2 wheel mouse (type 3), and 200, 200, 80 into a five-button
  IMEX mouse (type 4); both leave the detector and the command register ready for the next command.\<close>

theorem ps2_wheel_detection:
  assumes "write_cmd (mouse_common s) = -1" and "\<not> mouse_wrap s" and "mouse_detect_state s = 0"
  defines "imps \<equiv> foldl ps2_write_mouse s [0xF3, 200, 0xF3, 100, 0xF3, 80]"
    and "imex \<equiv> foldl ps2_write_mouse s [0xF3, 200, 0xF3, 200, 0xF3, 80]"
  shows "mouse_type imps = 3 \<and> mouse_detect_state imps = 0 \<and> write_cmd (mouse_common imps) = -1 \<and>
    mouse_type imex = 4 \<and> mouse_detect_state imex = 0 \<and> write_cmd (mouse_common imex) = -1 \<and>
    mouse_sample_rate imps = 80 \<and> mouse_sample_rate imex = 80"
proof -
  have "mouse_idle s" using assms(1,2) by (simp add: mouse_idle_def)
  then have "mouse_idle imps \<and> mouse_type imps = 3 \<and> mouse_detect_state imps = 0 \<and> mouse_sample_rate imps = 80"
    "mouse_idle imex \<and> mouse_type imex = 4 \<and> mouse_detect_state imex = 0 \<and> mouse_sample_rate imex = 80"
    unfolding imps_def imex_def using assms(3) by (simp_all add: write_mouse_sample)
  then show ?thesis by (simp add: mouse_idle_def)
qed

theorem ps2_wheel_detection_witness:
  "mouse_type (foldl ps2_write_mouse (ps2_mouse_reset ps2_mouse_init) [0xF3, 200, 0xF3, 100, 0xF3, 80]) = 3"
proof -
  have "write_cmd (mouse_common (ps2_mouse_reset ps2_mouse_init)) = -1"
    "\<not> mouse_wrap (ps2_mouse_reset ps2_mouse_init)" "mouse_detect_state (ps2_mouse_reset ps2_mouse_init) = 0"
    by (simp_all add: ps2_mouse_reset_def ps2_common_reset_def Let_def)
  from ps2_wheel_detection [OF this] show ?thesis by simp
qed

lemma sum_packet_dx_le: "sum_list (map packet_dx ps) \<le> 255 * int (length ps)"
proof (induction ps)
  case Nil
  then show ?case by simp
next
  case (Cons p ps)
  have "uint (p ! 1) < 256" using uint_lt2p [of "p ! 1"] by simp
  then have "packet_dx p \<le> 255" by (simp add: packet_dx_def)
  with Cons show ?case by simp
qed

lemma length_concat_same: "\<forall>p\<in>set ps. length p = n \<Longrightarrow> length (concat ps) = n * length ps"
  by (induction ps) simp_all

text \<open>[ps2_mouse_overflow] The room the event handler asks for is not enough for a large
  movement: from an empty queue, a movement of 100000 units fills the 256-byte queue with 3-byte
  packets, the last of which is cut after its first byte.\<close>

theorem ps2_mouse_overflow:
  "length (ps2_contents (mouse_common (ps2_mouse_event (ps2_mouse_init\<lparr>mouse_status := 0x20\<rparr>) 100000 0 0 0))) = 256"
proof -
  let ?s = "ps2_mouse_init\<lparr>mouse_status := 0x20\<rparr>"
  have h: "ps2_inv (mouse_common ?s)" "mouse_status ?s AND 0x20 \<noteq> 0" "mouse_status ?s AND 0x40 = 0"
    "count (queue (mouse_common ?s)) < 240"
    using ps2_inv_zero by (simp_all add: ps2_mouse_init_def) (simp add: ps2_zero_def)
  have c: "c_int 100000 = 100000" by (simp add: c_int_id)
  have z: "mouse_dx ps2_mouse_init = 0" "mouse_dy ps2_mouse_init = 0" "mouse_dz ps2_mouse_init = 0"
    "mouse_buttons ps2_mouse_init = 0" "mouse_type ps2_mouse_init = 0"
    "ps2_contents (mouse_common ps2_mouse_init) = []" "count (queue (mouse_common ps2_mouse_init)) = 0"
    by (simp_all add: ps2_mouse_init_def ps2_contents_def) (simp_all add: ps2_zero_def)
  obtain ps where ps: "ps2_contents (mouse_common (ps2_mouse_event ?s 100000 0 0 0)) = take 256 (concat ps)"
    "\<forall>p\<in>set ps. length p = 3" "sum_list (map packet_dx ps) = 100000"
    using mouse_event_packets [OF h, of 100000 100000 0 0 0 0 0, OF _ _ _ _ refl]
    by (auto simp: z c packet_size_def)
  have "100000 \<le> 255 * int (length ps)"
    using sum_packet_dx_le [of ps] ps(3) by simp
  then have "256 \<le> length (concat ps)"
    using length_concat_same [OF ps(2)] by simp
  with ps(1) show ?thesis by simp
qed

end
