(* ===== verification/Pckbd.thy ===== *)
theory Pckbd
  imports Ps2
begin

unbundle bit_operations_syntax

text \<open>
  The i8042 keyboard controller of hw/pckbd.c: status, mode and output port registers, the
  controller commands of port 0x64, the data port 0x60, the interrupt lines of the keyboard
  and the mouse, the A20 gate and the reset line. The controller owns the two devices of
  theory Ps2; a device call is made with \<open>call_kbd\<close> or \<open>call_mouse\<close>, which run the operation
  and then replay the interrupt updates it made, in order.

  Lemmas: after any run of port accesses, input events and resets, the status register and
  both interrupt lines say exactly which device has data waiting.
\<close>

subsection \<open>State\<close>

datatype kbc_out = Irq_kbd bool | Irq_mouse bool | A20 bool | System_reset

record KBDState =
  k_write_cmd :: u8
  k_status :: u8
  k_mode :: u8
  k_outport :: u8
  k_pending :: u8
  k_kbd :: PS2KbdState
  k_mouse :: PS2MouseState
  k_a20_out :: bool
  k_mask :: u64
  k_outs :: "kbc_out list"

definition kbc_out :: "kbc_out \<Rightarrow> KBDState \<Rightarrow> KBDState" where
  "kbc_out e s = s\<lparr>k_outs := k_outs s @ [e]\<rparr>"

subsection \<open>Interrupts\<close>

definition kbd_update_irq :: "KBDState \<Rightarrow> KBDState" where
  "kbd_update_irq s =
     (let s1 = s\<lparr>k_status := k_status s AND NOT (0x01 OR 0x20),
                 k_outport := k_outport s AND NOT (0x10 OR 0x20)\<rparr>;
          (s2, irq_kbd_level, irq_mouse_level) =
            (if k_pending s1 \<noteq> 0 then
               let t = s1\<lparr>k_status := k_status s1 OR 0x01, k_outport := k_outport s1 OR 0x10\<rparr>
               in if k_pending t = 2 then
                    (t\<lparr>k_status := k_status t OR 0x20, k_outport := k_outport t OR 0x20\<rparr>,
                     False, k_mode t AND 0x02 \<noteq> 0)
                  else (t, k_mode t AND 0x01 \<noteq> 0 \<and> k_mode t AND 0x10 = 0, False)
             else (s1, False, False))
      in kbc_out (Irq_mouse irq_mouse_level) (kbc_out (Irq_kbd irq_kbd_level) s2))"

definition kbd_update_kbd_irq :: "KBDState \<Rightarrow> bool \<Rightarrow> KBDState" where
  "kbd_update_kbd_irq s level =
     kbd_update_irq (s\<lparr>k_pending := (if level then k_pending s OR 1 else k_pending s AND NOT 1)\<rparr>)"

definition kbd_update_aux_irq :: "KBDState \<Rightarrow> bool \<Rightarrow> KBDState" where
  "kbd_update_aux_irq s level =
     kbd_update_irq (s\<lparr>k_pending := (if level then k_pending s OR 2 else k_pending s AND NOT 2)\<rparr>)"

subsection \<open>Calls into the devices\<close>

fun replay_kbd :: "KBDState \<Rightarrow> ps2_out \<Rightarrow> KBDState" where
  "replay_kbd s (Update_irq l) = kbd_update_kbd_irq s l"
| "replay_kbd s (Put_ledstate v) = s"
| "replay_kbd s Wakeup_request = s"

fun replay_aux :: "KBDState \<Rightarrow> ps2_out \<Rightarrow> KBDState" where
  "replay_aux s (Update_irq l) = kbd_update_aux_irq s l"
| "replay_aux s (Put_ledstate v) = s"
| "replay_aux s Wakeup_request = s"

definition call_kbd :: "kbd_op \<Rightarrow> KBDState \<Rightarrow> KBDState" where
  "call_kbd x s =
     (let d = kbd_apply x (k_kbd s);
          es = drop (length (outs (kbd_common (k_kbd s)))) (outs (kbd_common d))
      in foldl replay_kbd (s\<lparr>k_kbd := d\<rparr>) es)"

definition call_mouse :: "mouse_op \<Rightarrow> KBDState \<Rightarrow> KBDState" where
  "call_mouse x s =
     (let d = mouse_apply x (k_mouse s);
          es = drop (length (outs (mouse_common (k_mouse s)))) (outs (mouse_common d))
      in foldl replay_aux (s\<lparr>k_mouse := d\<rparr>) es)"

definition kbd_queue :: "KBDState \<Rightarrow> int \<Rightarrow> bool \<Rightarrow> KBDState" where
  "kbd_queue s b aux = (if aux then call_mouse (Mouse_put b) s else call_kbd (Kbd_put b) s)"

subsection \<open>The ports\<close>

definition kbd_read_status :: "KBDState \<Rightarrow> u32" where
  "kbd_read_status s = ucast (k_status s)"

definition outport_write :: "KBDState \<Rightarrow> u32 \<Rightarrow> KBDState" where
  "outport_write s val =
     (let s1 = s\<lparr>k_outport := ucast val\<rparr>;
          s2 = (if k_a20_out s1 then kbc_out (A20 (bit val 1)) s1 else s1)
      in if val AND 1 = 0 then kbc_out System_reset s2 else s2)"

text \<open>The pulse commands 0xF0 to 0xFF: an even one resets the machine, an odd one does nothing.\<close>

definition kbd_pulse_command :: "u32 \<Rightarrow> u32" where
  "kbd_pulse_command val =
     (if val AND 0xF0 = 0xF0 then (if val AND 1 = 0 then 0xFE else 0xFF) else val)"

definition kbd_write_command :: "KBDState \<Rightarrow> u32 \<Rightarrow> KBDState" where
  "kbd_write_command s val0 =
     (let val = kbd_pulse_command val0 in
      if val = 0x20 then kbd_queue s (uint (k_mode s)) False
      else if val = 0x60 \<or> val = 0xD2 \<or> val = 0xD3 \<or> val = 0xD4 \<or> val = 0xD1 then s\<lparr>k_write_cmd := ucast val\<rparr>
      else if val = 0xA7 then s\<lparr>k_mode := k_mode s OR 0x20\<rparr>
      else if val = 0xA8 then s\<lparr>k_mode := k_mode s AND NOT 0x20\<rparr>
      else if val = 0xA9 then kbd_queue s 0x00 False
      else if val = 0xAA then kbd_queue (s\<lparr>k_status := k_status s OR 0x04\<rparr>) 0x55 False
      else if val = 0xAB then kbd_queue s 0x00 False
      else if val = 0xAD then kbd_update_irq (s\<lparr>k_mode := k_mode s OR 0x10\<rparr>)
      else if val = 0xAE then kbd_update_irq (s\<lparr>k_mode := k_mode s AND NOT 0x10\<rparr>)
      else if val = 0xC0 then kbd_queue s 0x00 False
      else if val = 0xD0 then kbd_queue s (uint (k_outport s)) False
      else if val = 0xDF then
        (let s1 = (if k_a20_out s then kbc_out (A20 True) s else s)
         in s1\<lparr>k_outport := k_outport s1 OR 0x02\<rparr>)
      else if val = 0xDD then
        (let s1 = (if k_a20_out s then kbc_out (A20 False) s else s)
         in s1\<lparr>k_outport := k_outport s1 AND NOT 0x02\<rparr>)
      else if val = 0xFE then kbc_out System_reset s
      else s)"

definition kbd_read_data :: "KBDState \<Rightarrow> u32 \<times> KBDState" where
  "kbd_read_data s =
     (if k_pending s = 2
      then (ucast (fst (ps2_read_data (mouse_common (k_mouse s)))), call_mouse Mouse_read s)
      else (ucast (fst (ps2_read_data (kbd_common (k_kbd s)))), call_kbd Kbd_read s))"

definition kbd_write_data :: "KBDState \<Rightarrow> u32 \<Rightarrow> KBDState" where
  "kbd_write_data s val =
     (let cmd = k_write_cmd s;
          s1 =
            (if cmd = 0 then call_kbd (Kbd_write (sint val)) s
             else if cmd = 0x60 then
               (let t = s\<lparr>k_mode := ucast val\<rparr>
                in kbd_update_irq (call_kbd (Kbd_translation (k_mode t AND 0x40 \<noteq> 0)) t))
             else if cmd = 0xD2 then kbd_queue s (sint val) False
             else if cmd = 0xD3 then kbd_queue s (sint val) True
             else if cmd = 0xD1 then outport_write s val
             else if cmd = 0xD4 then call_mouse (Mouse_write (sint val)) s
             else s)
      in s1\<lparr>k_write_cmd := 0\<rparr>)"

definition kbd_reset :: "KBDState \<Rightarrow> KBDState" where
  "kbd_reset s = s\<lparr>k_mode := 0x01 OR 0x02, k_status := 0x08 OR 0x10, k_outport := 0x01 OR 0x02\<rparr>"

definition kbd_mm_readb :: "KBDState \<Rightarrow> u64 \<Rightarrow> u32 \<times> KBDState" where
  "kbd_mm_readb s addr =
     (if addr AND k_mask s \<noteq> 0 then (kbd_read_status s AND 0xff, s)
      else (let (v, s1) = kbd_read_data s in (v AND 0xff, s1)))"

definition kbd_mm_writeb :: "KBDState \<Rightarrow> u64 \<Rightarrow> u32 \<Rightarrow> KBDState" where
  "kbd_mm_writeb s addr val =
     (if addr AND k_mask s \<noteq> 0 then kbd_write_command s (val AND 0xff)
      else kbd_write_data s (val AND 0xff))"

subsection \<open>Construction and the other entry points\<close>

text \<open>A zeroed state with the two devices created; the memory-mapped variant also sets the mask.\<close>

definition i8042_initfn :: KBDState where
  "i8042_initfn = \<lparr>k_write_cmd = 0, k_status = 0, k_mode = 0, k_outport = 0, k_pending = 0,
     k_kbd = ps2_kbd_init, k_mouse = ps2_mouse_init, k_a20_out = False, k_mask = 0, k_outs = []\<rparr>"

definition i8042_mm_init :: "u64 \<Rightarrow> KBDState" where
  "i8042_mm_init m = i8042_initfn\<lparr>k_mask := m\<rparr>"

definition i8042_isa_mouse_fake_event :: "KBDState \<Rightarrow> KBDState" where
  "i8042_isa_mouse_fake_event s = call_mouse Mouse_fake s"

definition i8042_setup_a20_line :: "KBDState \<Rightarrow> KBDState" where
  "i8042_setup_a20_line s = s\<lparr>k_a20_out := True\<rparr>"

text \<open>
  A machine reset runs the reset handlers in the order they were registered: the two
  devices (registered when they are created), then the controller.
\<close>

definition kbc_system_reset :: "KBDState \<Rightarrow> KBDState" where
  "kbc_system_reset s = kbd_reset (call_mouse Mouse_reset (call_kbd Kbd_reset s))"

datatype kbc_op =
    Write_command u32 | Write_data u32 | Read_data | Key_event int | Pointer_event int int int int
  | Fake_event | Setup_a20 | Machine_reset

fun kbc_apply :: "KBDState \<Rightarrow> kbc_op \<Rightarrow> KBDState" where
  "kbc_apply s (Write_command v) = kbd_write_command s v"
| "kbc_apply s (Write_data v) = kbd_write_data s v"
| "kbc_apply s Read_data = snd (kbd_read_data s)"
| "kbc_apply s (Key_event k) = call_kbd (Kbd_keycode k) s"
| "kbc_apply s (Pointer_event dx dy dz b) = call_mouse (Mouse_event dx dy dz b) s"
| "kbc_apply s Fake_event = i8042_isa_mouse_fake_event s"
| "kbc_apply s Setup_a20 = i8042_setup_a20_line s"
| "kbc_apply s Machine_reset = kbc_system_reset s"

subsection \<open>The registers agree with the devices\<close>

fun kbd_line_step :: "bool \<Rightarrow> kbc_out \<Rightarrow> bool" where
  "kbd_line_step l (Irq_kbd b) = b"
| "kbd_line_step l e = l"

fun mouse_line_step :: "bool \<Rightarrow> kbc_out \<Rightarrow> bool" where
  "mouse_line_step l (Irq_mouse b) = b"
| "mouse_line_step l e = l"

definition kbd_line :: "KBDState \<Rightarrow> bool" where
  "kbd_line s = foldl kbd_line_step False (k_outs s)"

definition mouse_line :: "KBDState \<Rightarrow> bool" where
  "mouse_line s = foldl mouse_line_step False (k_outs s)"

definition kbd_waiting :: "KBDState \<Rightarrow> bool" where
  "kbd_waiting s \<longleftrightarrow> ps2_contents (kbd_common (k_kbd s)) \<noteq> []"

definition mouse_waiting :: "KBDState \<Rightarrow> bool" where
  "mouse_waiting s \<longleftrightarrow> ps2_contents (mouse_common (k_mouse s)) \<noteq> []"

definition pending_of :: "bool \<Rightarrow> bool \<Rightarrow> u8" where
  "pending_of k m = (if k then 1 else 0) OR (if m then 2 else 0)"

lemma pending_of_simps [simp]:
  "pending_of False False = 0" "pending_of True False = 1"
  "pending_of False True = 2" "pending_of True True = 3"
  by (simp_all add: pending_of_def)

text \<open>Status bits and lines as functions of who has data and of the mode.\<close>

definition kbc_shown :: "bool \<Rightarrow> bool \<Rightarrow> KBDState \<Rightarrow> bool" where
  "kbc_shown k m s \<longleftrightarrow>
     k_pending s = pending_of k m \<and> bit (k_status s) 0 = (k \<or> m) \<and> bit (k_status s) 5 = (m \<and> \<not> k) \<and>
     kbd_line s = (k \<and> bit (k_mode s) 0 \<and> \<not> bit (k_mode s) 4) \<and>
     mouse_line s = (m \<and> \<not> k \<and> bit (k_mode s) 1)"

lemma u8_bit_tests:
  "(x :: u8) AND 1 = 0 \<longleftrightarrow> \<not> bit x 0" "x AND 2 = 0 \<longleftrightarrow> \<not> bit x 1" "x AND 0x10 = 0 \<longleftrightarrow> \<not> bit x 4"
  using and_exp_eq_0_iff_not_bit [of x 0] and_exp_eq_0_iff_not_bit [of x 1]
    and_exp_eq_0_iff_not_bit [of x 4] by simp_all

lemma kbd_line_out [simp]:
  "kbd_line (kbc_out (Irq_kbd b) s) = b" "kbd_line (kbc_out (Irq_mouse b) s) = kbd_line s"
  "kbd_line (kbc_out (A20 b) s) = kbd_line s" "kbd_line (kbc_out System_reset s) = kbd_line s"
  "mouse_line (kbc_out (Irq_mouse b) s) = b" "mouse_line (kbc_out (Irq_kbd b) s) = mouse_line s"
  "mouse_line (kbc_out (A20 b) s) = mouse_line s" "mouse_line (kbc_out System_reset s) = mouse_line s"
  by (simp_all add: kbd_line_def mouse_line_def kbc_out_def)

lemma kbc_out_frame [simp]:
  "k_write_cmd (kbc_out e s) = k_write_cmd s" "k_status (kbc_out e s) = k_status s"
  "k_mode (kbc_out e s) = k_mode s" "k_outport (kbc_out e s) = k_outport s"
  "k_pending (kbc_out e s) = k_pending s" "k_kbd (kbc_out e s) = k_kbd s"
  "k_mouse (kbc_out e s) = k_mouse s" "k_a20_out (kbc_out e s) = k_a20_out s"
  by (simp_all add: kbc_out_def)

lemma kbd_update_irq_frame [simp]:
  "k_write_cmd (kbd_update_irq s) = k_write_cmd s" "k_mode (kbd_update_irq s) = k_mode s"
  "k_pending (kbd_update_irq s) = k_pending s" "k_kbd (kbd_update_irq s) = k_kbd s"
  "k_mouse (kbd_update_irq s) = k_mouse s" "k_a20_out (kbd_update_irq s) = k_a20_out s"
  by (simp_all add: kbd_update_irq_def Let_def)

lemma kbd_update_irq_shown:
  assumes "k_pending s = pending_of k m"
  shows "kbc_shown k m (kbd_update_irq s)"
  using assms
  by (cases k; cases m)
    (simp_all add: kbc_shown_def kbd_update_irq_def Let_def u8_bit_tests bit_simps)

lemma replay_kbd_shown:
  "kbc_shown k m s \<Longrightarrow> kbc_shown (irq_step k e) m (replay_kbd s e)"
  by (cases e)
    (auto simp: kbd_update_kbd_irq_def intro!: kbd_update_irq_shown, auto simp: kbc_shown_def pending_of_def)

lemma replay_aux_shown:
  "kbc_shown k m s \<Longrightarrow> kbc_shown k (irq_step m e) (replay_aux s e)"
  by (cases e)
    (auto simp: kbd_update_aux_irq_def intro!: kbd_update_irq_shown, auto simp: kbc_shown_def pending_of_def)

lemma replay_all_shown:
  "kbc_shown k m s \<Longrightarrow> kbc_shown (foldl irq_step k es) m (foldl replay_kbd s es)"
  "kbc_shown k m s \<Longrightarrow> kbc_shown k (foldl irq_step m es) (foldl replay_aux s es)"
  by (induction es arbitrary: s k m) (simp_all add: replay_kbd_shown replay_aux_shown)

lemma replay_step_frame [simp]:
  "k_kbd (replay_kbd s e) = k_kbd s" "k_mouse (replay_kbd s e) = k_mouse s"
  "k_mode (replay_kbd s e) = k_mode s" "k_write_cmd (replay_kbd s e) = k_write_cmd s"
  "k_kbd (replay_aux s e) = k_kbd s" "k_mouse (replay_aux s e) = k_mouse s"
  "k_mode (replay_aux s e) = k_mode s" "k_write_cmd (replay_aux s e) = k_write_cmd s"
  by (cases e; simp add: kbd_update_kbd_irq_def kbd_update_aux_irq_def)+

lemma replay_frame [simp]:
  "k_kbd (foldl replay_kbd s es) = k_kbd s" "k_mouse (foldl replay_kbd s es) = k_mouse s"
  "k_mode (foldl replay_kbd s es) = k_mode s" "k_write_cmd (foldl replay_kbd s es) = k_write_cmd s"
  "k_kbd (foldl replay_aux s es) = k_kbd s" "k_mouse (foldl replay_aux s es) = k_mouse s"
  "k_mode (foldl replay_aux s es) = k_mode s" "k_write_cmd (foldl replay_aux s es) = k_write_cmd s"
  by (induction es arbitrary: s) simp_all

definition kbc_inv :: "KBDState \<Rightarrow> bool" where
  "kbc_inv s \<longleftrightarrow> ps2_inv (kbd_common (k_kbd s)) \<and> ps2_inv (mouse_common (k_mouse s)) \<and>
     kbc_shown (kbd_waiting s) (mouse_waiting s) s"

lemma call_kbd_frame [simp]:
  "k_kbd (call_kbd x s) = kbd_apply x (k_kbd s)" "k_mouse (call_kbd x s) = k_mouse s"
  "k_mode (call_kbd x s) = k_mode s" "k_write_cmd (call_kbd x s) = k_write_cmd s"
  by (simp_all add: call_kbd_def Let_def)

lemma call_mouse_frame [simp]:
  "k_mouse (call_mouse x s) = mouse_apply x (k_mouse s)" "k_kbd (call_mouse x s) = k_kbd s"
  "k_mode (call_mouse x s) = k_mode s" "k_write_cmd (call_mouse x s) = k_write_cmd s"
  by (simp_all add: call_mouse_def Let_def)

lemma call_kbd_inv:
  assumes "kbc_inv s"
  shows "kbc_inv (call_kbd x s)"
proof -
  let ?d = "k_kbd s" and ?d' = "kbd_apply x (k_kbd s)"
  let ?es = "drop (length (outs (kbd_common ?d))) (outs (kbd_common ?d'))"
  have i: "ps2_inv (kbd_common ?d)" using assms by (simp add: kbc_inv_def)
  have i': "ps2_inv (kbd_common ?d')" using keyboard.run_inv [OF i, of "[x]"] by (simp add: keyboard.run_def)
  have "kbc_shown (kbd_waiting s) (mouse_waiting s) (s\<lparr>k_kbd := ?d'\<rparr>)"
    using assms by (simp add: kbc_inv_def kbc_shown_def kbd_line_def mouse_line_def)
  from replay_all_shown(1) [OF this, of ?es]
  have "kbc_shown (ps2_contents (kbd_common ?d') \<noteq> []) (mouse_waiting s) (call_kbd x s)"
    using keyboard.perform_calls [OF i, of x] by (simp add: call_kbd_def Let_def kbd_waiting_def)
  then show ?thesis using assms i' by (simp add: kbc_inv_def kbd_waiting_def mouse_waiting_def)
qed

lemma call_mouse_inv:
  assumes "kbc_inv s"
  shows "kbc_inv (call_mouse x s)"
proof -
  let ?d = "k_mouse s" and ?d' = "mouse_apply x (k_mouse s)"
  let ?es = "drop (length (outs (mouse_common ?d))) (outs (mouse_common ?d'))"
  have i: "ps2_inv (mouse_common ?d)" using assms by (simp add: kbc_inv_def)
  have i': "ps2_inv (mouse_common ?d')" using mouse.run_inv [OF i, of "[x]"] by (simp add: mouse.run_def)
  have "kbc_shown (kbd_waiting s) (mouse_waiting s) (s\<lparr>k_mouse := ?d'\<rparr>)"
    using assms by (simp add: kbc_inv_def kbc_shown_def kbd_line_def mouse_line_def)
  from replay_all_shown(2) [OF this, of ?es]
  have "kbc_shown (kbd_waiting s) (ps2_contents (mouse_common ?d') \<noteq> []) (call_mouse x s)"
    using mouse.perform_calls [OF i, of x] by (simp add: call_mouse_def Let_def mouse_waiting_def)
  then show ?thesis using assms i' by (simp add: kbc_inv_def kbd_waiting_def mouse_waiting_def)
qed

lemma kbd_queue_inv: "kbc_inv s \<Longrightarrow> kbc_inv (kbd_queue s b aux)"
  by (simp add: kbd_queue_def call_kbd_inv call_mouse_inv)

lemma kbc_inv_update_irq:
  assumes "kbc_inv s" and "k_pending t = k_pending s" "k_kbd t = k_kbd s" "k_mouse t = k_mouse s"
  shows "kbc_inv (kbd_update_irq t)"
  using assms kbd_update_irq_shown [of t "kbd_waiting s" "mouse_waiting s"]
  by (simp add: kbc_inv_def kbc_shown_def kbd_waiting_def mouse_waiting_def)

lemma kbc_lines_frame [simp]:
  "kbd_line (s\<lparr>k_write_cmd := a\<rparr>) = kbd_line s" "mouse_line (s\<lparr>k_write_cmd := a\<rparr>) = mouse_line s"
  "kbd_line (s\<lparr>k_mode := a\<rparr>) = kbd_line s" "mouse_line (s\<lparr>k_mode := a\<rparr>) = mouse_line s"
  "kbd_line (s\<lparr>k_status := a\<rparr>) = kbd_line s" "mouse_line (s\<lparr>k_status := a\<rparr>) = mouse_line s"
  "kbd_line (s\<lparr>k_outport := a\<rparr>) = kbd_line s" "mouse_line (s\<lparr>k_outport := a\<rparr>) = mouse_line s"
  "kbd_line (s\<lparr>k_a20_out := b\<rparr>) = kbd_line s" "mouse_line (s\<lparr>k_a20_out := b\<rparr>) = mouse_line s"
  by (simp_all add: kbd_line_def mouse_line_def)

lemma kbc_inv_fields [simp]:
  "kbc_inv (s\<lparr>k_write_cmd := a\<rparr>) = kbc_inv s" "kbc_inv (s\<lparr>k_outport := a\<rparr>) = kbc_inv s"
  "kbc_inv (s\<lparr>k_a20_out := b\<rparr>) = kbc_inv s" "kbc_inv (kbc_out (A20 b) s) = kbc_inv s"
  "kbc_inv (kbc_out System_reset s) = kbc_inv s"
  by (simp_all add: kbc_inv_def kbc_shown_def kbd_waiting_def mouse_waiting_def)

lemma kbc_inv_bits:
  assumes "kbc_inv s"
  shows "kbc_inv (s\<lparr>k_mode := k_mode s OR 0x20\<rparr>)" "kbc_inv (s\<lparr>k_mode := k_mode s AND NOT 0x20\<rparr>)"
    "kbc_inv (s\<lparr>k_status := k_status s OR 0x04\<rparr>)"
  using assms by (simp_all add: kbc_inv_def kbc_shown_def kbd_waiting_def mouse_waiting_def bit_simps)

lemma kbc_inv_if: "(c \<Longrightarrow> kbc_inv a) \<Longrightarrow> (\<not> c \<Longrightarrow> kbc_inv b) \<Longrightarrow> kbc_inv (if c then a else b)"
  by simp

lemma kbd_write_command_inv:
  assumes "kbc_inv s"
  shows "kbc_inv (kbd_write_command s v)"
  unfolding kbd_write_command_def Let_def
  by (intro kbc_inv_if kbd_queue_inv kbc_inv_bits assms kbc_inv_update_irq [OF assms])
    (simp_all add: assms)

lemma outport_write_inv:
  assumes "kbc_inv s"
  shows "kbc_inv (outport_write s v)"
  using assms by (simp add: outport_write_def Let_def)

lemma kbd_write_data_inv:
  assumes "kbc_inv s"
  shows "kbc_inv (kbd_write_data s v)"
proof -
  have "k_pending (call_kbd (Kbd_translation b) (s\<lparr>k_mode := m\<rparr>)) = k_pending s"
    "k_kbd (call_kbd (Kbd_translation b) (s\<lparr>k_mode := m\<rparr>)) = ps2_keyboard_set_translation (k_kbd s) b" for b m
    by (simp_all add: call_kbd_def Let_def ps2_keyboard_set_translation_def)
  then have tr: "kbc_inv (kbd_update_irq (call_kbd (Kbd_translation b) (s\<lparr>k_mode := m\<rparr>)))" for b m
    using assms kbd_update_irq_shown
    by (simp add: kbc_inv_def kbc_shown_def kbd_waiting_def mouse_waiting_def
        ps2_keyboard_set_translation_def)
  show ?thesis
    unfolding kbd_write_data_def Let_def
    using assms tr by (auto intro!: call_kbd_inv call_mouse_inv kbd_queue_inv outport_write_inv)
qed

lemma kbc_system_reset_inv:
  assumes "kbc_inv s"
  shows "kbc_inv (kbc_system_reset s)"
proof -
  let ?t = "call_mouse Mouse_reset (call_kbd Kbd_reset s)"
  have i: "kbc_inv ?t" using assms by (simp add: call_kbd_inv call_mouse_inv)
  have "\<not> kbd_waiting ?t" "\<not> mouse_waiting ?t"
    by (simp_all add: kbd_waiting_def mouse_waiting_def ps2_contents_def ps2_kbd_reset_def
        ps2_mouse_reset_def ps2_common_reset_def Let_def)
  then show ?thesis using i
    by (simp add: kbc_system_reset_def kbd_reset_def kbc_inv_def kbc_shown_def kbd_waiting_def
        mouse_waiting_def kbd_line_def mouse_line_def)
qed

lemma kbc_apply_inv: "kbc_inv s \<Longrightarrow> kbc_inv (kbc_apply s x)"
  by (cases x)
    (simp_all add: kbd_write_command_inv kbd_write_data_inv kbd_read_data_def call_kbd_inv
      call_mouse_inv i8042_isa_mouse_fake_event_def kbc_system_reset_inv i8042_setup_a20_line_def)

lemma i8042_initfn_inv: "kbc_inv i8042_initfn"
  using ps2_inv_zero
  by (simp add: i8042_initfn_def kbc_inv_def kbc_shown_def kbd_waiting_def mouse_waiting_def
      kbd_line_def mouse_line_def ps2_kbd_init_def ps2_mouse_init_def)
    (simp add: ps2_contents_def ps2_zero_def)

lemma kbc_run_inv: "kbc_inv s \<Longrightarrow> kbc_inv (foldl kbc_apply s xs)"
  by (induction xs arbitrary: s) (simp_all add: kbc_apply_inv)

subsection \<open>Properties\<close>

text \<open>C5: [kbc_registers] After any sequence of port accesses, key and pointer events and machine
  resets from power-on, the status register's output-buffer bit is set exactly when a device has
  data, its mouse bit exactly when only the mouse has, and the two interrupt lines were last driven
  to what the data and the mode register call for.\<close>

theorem kbc_registers:
  fixes xs :: "kbc_op list"
  defines "s \<equiv> foldl kbc_apply i8042_initfn xs"
  shows "bit (kbd_read_status s) 0 = (kbd_waiting s \<or> mouse_waiting s) \<and>
    bit (kbd_read_status s) 5 = (mouse_waiting s \<and> \<not> kbd_waiting s) \<and>
    kbd_line s = (kbd_waiting s \<and> bit (k_mode s) 0 \<and> \<not> bit (k_mode s) 4) \<and>
    mouse_line s = (mouse_waiting s \<and> \<not> kbd_waiting s \<and> bit (k_mode s) 1)"
  using kbc_run_inv [OF i8042_initfn_inv, of xs]
  by (simp add: s_def kbc_inv_def kbc_shown_def kbd_read_status_def bit_ucast_iff)

text \<open>[kbd_read_data_order] A read of the data port takes the oldest keyboard byte when there is
  one, else the oldest mouse byte, and removes that byte only.\<close>

theorem kbd_read_data_order:
  assumes "kbc_inv s" and "kbd_waiting s \<or> mouse_waiting s"
  shows "kbd_read_data s =
    (if kbd_waiting s
     then (ucast (hd (ps2_contents (kbd_common (k_kbd s)))), call_kbd Kbd_read s)
     else (ucast (hd (ps2_contents (mouse_common (k_mouse s)))), call_mouse Mouse_read s)) \<and>
    ps2_contents (kbd_common (k_kbd (snd (kbd_read_data s)))) =
      (if kbd_waiting s then tl (ps2_contents (kbd_common (k_kbd s))) else []) \<and>
    ps2_contents (mouse_common (k_mouse (snd (kbd_read_data s)))) =
      (if kbd_waiting s then id else tl) (ps2_contents (mouse_common (k_mouse s)))"
proof -
  have p: "(k_pending s = 2) = (\<not> kbd_waiting s)"
    using assms by (auto simp: kbc_inv_def kbc_shown_def pending_of_def)
  show ?thesis
  proof (cases "kbd_waiting s")
    case True
    moreover from True have "count (queue (kbd_common (k_kbd s))) \<noteq> 0"
      by (simp add: kbd_waiting_def ps2_contents_def)
    ultimately show ?thesis
      using assms(1) p by (simp add: kbd_read_data_def kbc_inv_def ps2_read_nonempty)
  next
    case False
    moreover from False assms(2) have "count (queue (mouse_common (k_mouse s))) \<noteq> 0"
      by (simp add: mouse_waiting_def ps2_contents_def)
    ultimately show ?thesis
      using assms(1) p by (simp add: kbd_read_data_def kbc_inv_def ps2_read_nonempty kbd_waiting_def)
  qed
qed

lemma kbd_waiting_queue:
  assumes "kbc_inv s" and "\<not> kbd_waiting s"
  shows "ps2_contents (kbd_common (k_kbd (kbd_queue s b False))) = [word_of_int b]"
proof -
  have "count (queue (kbd_common (k_kbd s))) = 0" and e: "ps2_contents (kbd_common (k_kbd s)) = []"
    using assms(2) by (simp_all add: kbd_waiting_def ps2_contents_def)
  then show ?thesis
    using assms(1) by (simp add: kbd_queue_def kbc_inv_def ps2_contents_queue e)
qed

lemma i8042_initfn_idle: "\<not> kbd_waiting i8042_initfn" "\<not> mouse_waiting i8042_initfn"
  by (simp_all add: i8042_initfn_def kbd_waiting_def mouse_waiting_def ps2_kbd_init_def
      ps2_mouse_init_def ps2_contents_def ps2_zero_def)

theorem kbd_read_data_order_witness:
  "fst (kbd_read_data (kbd_queue i8042_initfn 0x55 False)) = 0x55"
proof -
  let ?s = "kbd_queue i8042_initfn 0x55 False"
  note c = kbd_waiting_queue [OF i8042_initfn_inv i8042_initfn_idle(1), of "0x55"]
  then have w: "kbd_waiting ?s" by (simp add: kbd_waiting_def)
  have i: "kbc_inv ?s" by (rule kbd_queue_inv) (rule i8042_initfn_inv)
  show ?thesis using kbd_read_data_order [OF i disjI1 [OF w]] c w by simp
qed

text \<open>[kbd_read_data_edge] Reading a keyboard byte while more are waiting (keyboard interrupt on)
  drives the keyboard line low and then high again, so an edge-triggered interrupt controller sees a
  new request; if mouse data is waiting too, the mouse line is raised for the moment in between.\<close>

theorem kbd_read_data_edge:
  assumes "kbc_inv s" and "2 \<le> length (ps2_contents (kbd_common (k_kbd s)))"
    and "bit (k_mode s) 0" and "\<not> bit (k_mode s) 4"
  shows "k_outs (snd (kbd_read_data s)) = k_outs s @
    [Irq_kbd False, Irq_mouse (mouse_waiting s \<and> bit (k_mode s) 1), Irq_kbd True, Irq_mouse False]"
proof -
  let ?d = "kbd_common (k_kbd s)"
  have c: "count (queue ?d) \<noteq> 0" "count (queue ?d) \<noteq> 1" using assms(2) by simp_all
  have w: "kbd_waiting s" using c(1) by (simp add: kbd_waiting_def ps2_contents_def)
  have p: "k_pending s = pending_of True (mouse_waiting s)"
    using assms(1) w by (simp add: kbc_inv_def kbc_shown_def)
  have "k_pending s \<noteq> 2" using p by (cases "mouse_waiting s") simp_all
  moreover have "outs (kbd_common (kbd_apply Kbd_read (k_kbd s))) = outs ?d @ [Update_irq False, Update_irq True]"
    using assms(1) c by (simp add: kbc_inv_def ps2_read_nonempty)
  ultimately show ?thesis
    using p assms(3,4)
    by (cases "mouse_waiting s")
      (simp_all add: kbd_read_data_def call_kbd_def Let_def kbd_update_kbd_irq_def kbd_update_irq_def
        u8_bit_tests kbc_out_def del: kbd_apply.simps)
qed

lemma ucast_u8_u32: "ucast (ucast (v :: u8) :: u32) = v"
  by (rule bit_eqI) (auto simp: bit_ucast_iff dest: bit_imp_le_length)

theorem kbd_read_data_edge_witness:
  "\<exists>s. k_outs (snd (kbd_read_data s)) =
     k_outs s @ [Irq_kbd False, Irq_mouse False, Irq_kbd True, Irq_mouse False]"
proof -
  let ?a = "kbd_reset i8042_initfn"
  let ?b = "kbd_queue ?a 1 False"
  let ?c = "kbd_queue ?b 2 False"
  have i0: "kbc_inv ?a"
    using i8042_initfn_inv i8042_initfn_idle
    by (simp add: kbc_inv_def kbc_shown_def kbd_reset_def kbd_waiting_def mouse_waiting_def
        kbd_line_def mouse_line_def)
  have n0: "\<not> kbd_waiting ?a" "\<not> mouse_waiting ?a"
    using i8042_initfn_idle by (simp_all add: kbd_reset_def kbd_waiting_def mouse_waiting_def)
  have i1: "kbc_inv ?b" and i: "kbc_inv ?c" by (intro kbd_queue_inv i0)+
  have c1: "ps2_contents (kbd_common (k_kbd ?b)) = [1]"
    using kbd_waiting_queue [OF i0 n0(1), of 1] by simp
  then have "count (queue (kbd_common (k_kbd ?b))) = 1"
    using length_ps2_contents [of "kbd_common (k_kbd ?b)"] by simp
  then have c: "ps2_contents (kbd_common (k_kbd ?c)) = [1, 2]"
    using i1 c1 by (subst kbd_queue_def) (simp add: kbc_inv_def ps2_contents_queue)
  have m: "k_mode ?c = 3" by (simp add: kbd_queue_def kbd_reset_def)
  have "\<not> mouse_waiting ?c" using n0(2) by (simp add: kbd_queue_def mouse_waiting_def)
  with kbd_read_data_edge [OF i] c m show ?thesis by fastforce
qed

text \<open>[kbd_mode_roundtrip] A mode byte written with the write-mode command is what the read-mode
  command then returns through the data port, when no keyboard byte was waiting.\<close>

theorem kbd_mode_roundtrip:
  fixes v :: u8
  assumes "kbc_inv s" and "\<not> kbd_waiting s"
  shows "fst (kbd_read_data (kbd_write_command (kbd_write_data (kbd_write_command s 0x60) (ucast v)) 0x20))
    = ucast v"
proof -
  let ?s1 = "kbd_write_command s 0x60"
  let ?s2 = "kbd_write_data ?s1 (ucast v)"
  let ?s3 = "kbd_write_command ?s2 0x20"
  have s1: "?s1 = s\<lparr>k_write_cmd := 0x60\<rparr>"
    by (simp add: kbd_write_command_def kbd_pulse_command_def)
  have i2: "kbc_inv ?s2" by (intro kbd_write_data_inv kbd_write_command_inv assms(1))
  have m2: "k_mode ?s2 = v"
    by (simp add: s1 kbd_write_data_def Let_def ucast_u8_u32)
  have n2: "\<not> kbd_waiting ?s2"
    using assms(2) by (simp add: s1 kbd_write_data_def Let_def kbd_waiting_def
        ps2_keyboard_set_translation_def)
  have s3: "?s3 = kbd_queue ?s2 (uint v) False"
    using m2 by (simp add: kbd_write_command_def [of ?s2] kbd_pulse_command_def)
  have i3: "kbc_inv ?s3" by (intro kbd_write_command_inv i2)
  have c3: "ps2_contents (kbd_common (k_kbd ?s3)) = [v]"
    unfolding s3 using kbd_waiting_queue [OF i2 n2, of "uint v"] by simp
  then have "count (queue (kbd_common (k_kbd ?s3))) \<noteq> 0"
    using length_ps2_contents [of "kbd_common (k_kbd ?s3)"] by simp
  moreover have "k_pending ?s3 \<noteq> 2"
    using i3 c3 by (cases "mouse_waiting ?s3") (simp_all add: kbc_inv_def kbc_shown_def kbd_waiting_def)
  ultimately show ?thesis
    using i3 c3 by (simp add: kbd_read_data_def kbc_inv_def ps2_read_nonempty)
qed

theorem kbd_mode_roundtrip_witness:
  "fst (kbd_read_data (kbd_write_command (kbd_write_data (kbd_write_command i8042_initfn 0x60) 0x65) 0x20))
    = 0x65"
  using kbd_mode_roundtrip [OF i8042_initfn_inv i8042_initfn_idle(1), of "0x65"] by simp

end
