(* ===== verification/Launcher.thy ===== *)
theory Launcher
  imports Prelude
begin

text \<open>
  The virtual machine launcher of the Android application, jni/limbo/vm-executor-jni.c: the native
  half of the Java class VMExecutor. It turns the fields of the Java object into the command line of
  the emulator, loads the emulator's shared library, calls its entry point and forwards the control
  requests (stop, save, change a device, ...) to it.

  A C string is a list of characters without the terminating NUL, a pointer to one is a
  \<open>string option\<close> whose \<open>None\<close> is NULL. The three things that go wrong in the C code without a
  diagnostic are values of the model: dereferencing NULL, writing a string past the 1024 bytes of its
  buffer, and indexing past the argument vector. The dynamic linker and the emulator library are
  outside this file: whether a library opens, which symbols it has and what its state functions
  return are the fields of \<open>dl_env\<close>, an argument of every operation; the calls made through
  it are appended to a log.\<close>

type_synonym jint = "32 word"

datatype fault = Null_deref | String_overflow | Argv_overflow

section \<open>The Java object\<close>

record VMExecutor =
  vm_cpu :: "string option"
  vm_machine_type :: "string option"
  vm_memory :: jint
  vm_cpuNum :: jint
  vm_disableacpi :: jint
  vm_disablehpet :: jint
  vm_usbmouse :: jint
  vm_enableqmp :: jint
  vm_enablevnc :: jint
  vm_vnc_allow_external :: jint
  vm_hda_img_path :: "string option"
  vm_hdb_img_path :: "string option"
  vm_cd_iso_path :: "string option"
  vm_fda_img_path :: "string option"
  vm_fdb_img_path :: "string option"
  vm_bootdevice :: "string option"
  vm_net_cfg :: "string option"
  vm_nic_driver :: "string option"
  vm_libqemu :: "string option"
  vm_vga_type :: "string option"
  vm_hd_cache :: "string option"
  vm_sound_card :: "string option"
  vm_snapshot_name :: "string option"
  vm_vnc_passwd :: "string option"
  vm_base_dir :: "string option"
  vm_dns_addr :: "string option"
  vm_kernel :: "string option"
  vm_arch :: "string option"
  vm_append :: "string option"
  vm_initrd :: "string option"
  vm_aiomaxthreads :: jint
  vm_restart :: jint
  vm_qemu_dev :: "string option"
  vm_qemu_dev_value :: "string option"

section \<open>C strings\<close>

abbreviation (input) MAX_STRING_LEN :: nat where
  "MAX_STRING_LEN \<equiv> 1024"

abbreviation (input) MSG_BUFSIZE :: nat where
  "MSG_BUFSIZE \<equiv> 1024"

text \<open>The text \<open>sprintf\<close> writes for the directives \<open>%d\<close> and \<open>%s\<close> (a NULL string prints as
  ``(null)'' in the C library of Android).\<close>

definition fmt_d :: "jint \<Rightarrow> string" where
  "fmt_d v = (if sint v < 0 then CHR ''-'' # dec_nat (nat (- sint v)) else dec_nat (nat (sint v)))"

definition fmt_s :: "string option \<Rightarrow> string" where
  "fmt_s p = (case p of None \<Rightarrow> ''(null)'' | Some x \<Rightarrow> x)"

definition fits :: "nat \<Rightarrow> string \<Rightarrow> bool" where
  "fits n x \<longleftrightarrow> length x < n"

definition is_set :: "string option \<Rightarrow> bool" where
  "is_set p \<longleftrightarrow> p \<noteq> None \<and> p \<noteq> Some ''''"

definition is_arm :: "string \<Rightarrow> bool" where
  "is_arm a \<longleftrightarrow> take 3 a = ''arm''"

section \<open>Counting the arguments\<close>

text \<open>The number of argument slots the code allocates. The architecture is looked at first when a
  display type is set or no sound card is, and always by the last test, so a NULL there is a fault
  whatever the other fields hold.\<close>

definition start_params :: "VMExecutor \<Rightarrow> fault + nat" where
  "start_params c =
     (case vm_arch c of
        None \<Rightarrow> Inl Null_deref
      | Some arch \<Rightarrow> Inr (4
          + (if vm_cpu c \<noteq> None \<and> vm_cpu c \<noteq> Some ''Default'' then 2 else 0)
          + (if vm_hda_img_path c \<noteq> None then 2 else 0)
          + (if vm_hdb_img_path c \<noteq> None then 2 else 0)
          + 2 + 2 + 2
          + (if vm_net_cfg c \<noteq> None then 2 else 0)
          + (if vm_nic_driver c \<noteq> None then 2 else 0)
          + (if vm_bootdevice c \<noteq> None then 2 else 0)
          + (if vm_vga_type c \<noteq> None \<and> \<not> is_arm arch then 2 else 0)
          + (if vm_sound_card c \<noteq> None \<or> is_arm arch then 2 else 0)
          + (if vm_disableacpi c \<noteq> 0 then 1 else 0)
          + (if vm_disablehpet c \<noteq> 0 then 1 else 0)
          + (if vm_usbmouse c \<noteq> 0 then 3 else 0)
          + (if is_set (vm_snapshot_name c) then 2 else 0)
          + (if vm_enableqmp c \<noteq> 0 then 1 else 0)
          + (if vm_enablevnc c \<noteq> 0 then 2 else 2)
          + 2 + 2 + 2
          + (if is_arm arch
             then (if is_set (vm_kernel c) then 2 else 0) + (if is_set (vm_initrd c) then 2 else 0)
                + (if is_set (vm_append c) then 2 else 0)
             else 0)))"

section \<open>Filling the argument vector\<close>

text \<open>The allocated vector: each slot is an uninitialised buffer, a string, or NULL. The code fills it
  front to back; \<open>Push p\<close> copies the string at \<open>p\<close> to the next slot, \<open>Test p\<close> is a string
  comparison that reads \<open>p\<close>.\<close>

datatype arg = Uninit | Arg string | Nul

record argv =
  slots :: "arg list"
  param :: nat

datatype emit = Push "string option" | Test "string option"

fun emit_one :: "emit \<Rightarrow> argv \<Rightarrow> fault + argv" where
  "emit_one (Push p) v =
     (if length (slots v) \<le> param v then Inl Argv_overflow
      else case p of
        None \<Rightarrow> Inl Null_deref
      | Some x \<Rightarrow> if fits MAX_STRING_LEN x
                  then Inr (v\<lparr>slots := (slots v)[param v := Arg x], param := param v + 1\<rparr>)
                  else Inl String_overflow)"
| "emit_one (Test p) v = (if p = None then Inl Null_deref else Inr v)"

fun emit_all :: "emit list \<Rightarrow> argv \<Rightarrow> fault + argv" where
  "emit_all [] v = Inr v"
| "emit_all (e # es) v = (case emit_one e v of Inl f \<Rightarrow> Inl f | Inr v1 \<Rightarrow> emit_all es v1)"

definition opt_args :: "string \<Rightarrow> string option \<Rightarrow> emit list" where
  "opt_args flag p = [Push (Some flag), Push p]"

definition args_boot_image :: "VMExecutor \<Rightarrow> string \<Rightarrow> emit list" where
  "args_boot_image c arch =
     Push (vm_libqemu c) #
     (if is_arm arch
      then (if is_set (vm_kernel c) then opt_args ''-kernel'' (vm_kernel c) else [])
         @ (if is_set (vm_initrd c) then opt_args ''-initrd'' (vm_initrd c) else [])
         @ (if is_set (vm_append c) then opt_args ''-append'' (vm_append c) else [])
      else [])"

definition args_machine :: "VMExecutor \<Rightarrow> emit list" where
  "args_machine c =
     (case vm_cpu c of
        None \<Rightarrow> []
      | Some cpu \<Rightarrow> if take 7 cpu \<noteq> ''Default'' then opt_args ''-cpu'' (Some cpu) else [])
     @ opt_args ''-m'' (Some (fmt_d (vm_memory c)))
     @ opt_args ''-L'' (vm_base_dir c)"

definition args_drives :: "VMExecutor \<Rightarrow> emit list" where
  "args_drives c =
     (if vm_hda_img_path c \<noteq> None then opt_args ''-hda'' (vm_hda_img_path c) else [])
     @ (if vm_hdb_img_path c \<noteq> None then opt_args ''-hdb'' (vm_hdb_img_path c) else [])
     @ (if vm_cd_iso_path c \<noteq> None then opt_args ''-cdrom'' (vm_cd_iso_path c)
        else opt_args ''-drive'' (Some ''index=2,media=cdrom''))
     @ (if vm_fda_img_path c \<noteq> None then opt_args ''-fda'' (vm_fda_img_path c)
        else opt_args ''-drive'' (Some ''index=0,if=floppy''))
     @ (if vm_fdb_img_path c \<noteq> None then opt_args ''-fdb'' (vm_fdb_img_path c)
        else opt_args ''-drive'' (Some ''index=1,if=floppy''))"

definition args_display_boot :: "VMExecutor \<Rightarrow> string \<Rightarrow> emit list" where
  "args_display_boot c arch =
     (if vm_vga_type c \<noteq> None \<and> \<not> is_arm arch then opt_args ''-vga'' (vm_vga_type c) else [])
     @ (if vm_bootdevice c \<noteq> None then opt_args ''-boot'' (vm_bootdevice c) else [])"

definition net_arg :: "string \<Rightarrow> string" where
  "net_arg net =
     (if net = ''user'' then net
      else if net = ''tap'' then ''tap,vlan=0,ifname=tap0,script=no''
      else ''none'')"

definition args_nic :: "VMExecutor \<Rightarrow> string \<Rightarrow> string \<Rightarrow> emit list" where
  "args_nic c arch nic =
     Push (Some ''-net'') #
     (if is_arm arch then [Push (Some ''nic'')]
      else Test (vm_net_cfg c) #
        (if vm_net_cfg c = Some ''user'' then [Push (Some (''nic,model='' @ nic))]
         else if vm_net_cfg c = Some ''tap'' then [Push (Some (''nic,vlan=0,model='' @ nic))]
         else []))"

definition args_net :: "VMExecutor \<Rightarrow> string \<Rightarrow> emit list" where
  "args_net c arch =
     (case vm_net_cfg c of None \<Rightarrow> [] | Some net \<Rightarrow> opt_args ''-net'' (Some (net_arg net)))
     @ (case vm_nic_driver c of None \<Rightarrow> [] | Some nic \<Rightarrow> args_nic c arch nic)"

definition args_sound :: "VMExecutor \<Rightarrow> string \<Rightarrow> emit list" where
  "args_sound c arch =
     (if vm_sound_card c \<noteq> None \<and> vm_sound_card c \<noteq> Some ''None''
      then opt_args ''-soundhw'' (vm_sound_card c) else [])
     @ (if is_arm arch then opt_args ''-soundhw'' (Some ''all'') else [])"

definition args_flags :: "VMExecutor \<Rightarrow> emit list" where
  "args_flags c =
     (if is_set (vm_snapshot_name c) then opt_args ''-loadvm'' (vm_snapshot_name c) else [])
     @ (if vm_usbmouse c \<noteq> 0
        then [Push (Some ''-usb''), Push (Some ''-usbdevice''), Push (Some ''tablet'')] else [])
     @ (if vm_disableacpi c \<noteq> 0 then [Push (Some ''-no-acpi'')] else [])
     @ (if vm_disablehpet c \<noteq> 0 then [Push (Some ''-no-hpet'')] else [])
     @ (if vm_enableqmp c \<noteq> 0 then [Push (Some ''-qmp tcp:0:4444,server'')] else [])"

definition args_tail :: "VMExecutor \<Rightarrow> emit list" where
  "args_tail c =
     (if vm_enablevnc c \<noteq> 0
      then opt_args ''-vnc'' (Some (if vm_vnc_allow_external c \<noteq> 0 then '':1,password'' else ''localhost:1''))
      else opt_args ''-k'' (Some ''en-us''))
     @ opt_args ''-smp'' (Some (''sockets='' @ fmt_d (vm_cpuNum c) @ '',cores=1'' @ '',threads=1''))
     @ opt_args ''-M'' (vm_machine_type c)"

definition start_emits :: "VMExecutor \<Rightarrow> string \<Rightarrow> emit list" where
  "start_emits c arch =
     args_boot_image c arch @ args_machine c @ args_drives c @ args_display_boot c arch
     @ args_net c arch @ args_sound c arch @ args_flags c @ args_tail c"

text \<open>The numbers are formatted into buffers of \<open>MAX_STRING_LEN\<close> bytes, the slots are allocated, filled
  and closed with a NULL; the argument count passed on is one less than the slots allocated.\<close>

definition start_argv :: "VMExecutor \<Rightarrow> fault + (nat \<times> arg list)" where
  "start_argv c =
     (case start_params c of
        Inl f \<Rightarrow> Inl f
      | Inr params \<Rightarrow>
          if \<not> fits MAX_STRING_LEN (fmt_d (vm_memory c)) \<or> \<not> fits MAX_STRING_LEN (fmt_d (vm_cpuNum c))
          then Inl String_overflow
          else case emit_all (start_emits c (the (vm_arch c))) \<lparr>slots = replicate params Uninit, param = 0\<rparr> of
              Inl f \<Rightarrow> Inl f
            | Inr v \<Rightarrow> if params \<le> param v then Inl Argv_overflow
                        else Inr (params - 1, (slots v)[param v := Nul]))"


section \<open>Lemmas: the argument vector\<close>

fun pushed :: "emit list \<Rightarrow> string list" where
  "pushed [] = []"
| "pushed (Push (Some x) # es) = x # pushed es"
| "pushed (Push None # es) = pushed es"
| "pushed (Test p # es) = pushed es"

fun emit_ok :: "emit \<Rightarrow> bool" where
  "emit_ok (Push p) = (case p of None \<Rightarrow> False | Some x \<Rightarrow> fits MAX_STRING_LEN x)"
| "emit_ok (Test p) = (p \<noteq> None)"

lemma pushed_append [simp]: "pushed (xs @ ys) = pushed xs @ pushed ys"
  by (induction xs rule: pushed.induct) simp_all

lemma emit_all_append:
  "emit_all (xs @ ys) v = (case emit_all xs v of Inl f \<Rightarrow> Inl f | Inr v1 \<Rightarrow> emit_all ys v1)"
  by (induction xs arbitrary: v) (simp_all split: sum.splits)

lemma emit_all_room:
  assumes "list_all emit_ok es" and "param v + length (pushed es) \<le> length (slots v)"
  shows "emit_all es v = Inr (v\<lparr>slots := take (param v) (slots v) @ map Arg (pushed es)
      @ drop (param v + length (pushed es)) (slots v), param := param v + length (pushed es)\<rparr>)"
  using assms
proof (induction es arbitrary: v)
  case Nil
  then show ?case by simp
next
  case (Cons e es)
  show ?case
  proof (cases e)
    case (Push p)
    with Cons.prems obtain x where x: "p = Some x" "fits MAX_STRING_LEN x"
      by (auto split: option.splits)
    from Cons.prems(2) Push x have "param v < length (slots v)" by simp
    then have "take (Suc (param v)) ((slots v)[param v := Arg x]) = take (param v) (slots v) @ [Arg x]"
      by (simp add: take_Suc_conv_app_nth)
    then show ?thesis using Cons.prems Push x Cons.IH by simp
  next
    case (Test p)
    then show ?thesis using Cons by auto
  qed
qed

lemma emit_all_full:
  assumes "list_all emit_ok es" and "param v \<le> length (slots v)"
    and "length (slots v) < param v + length (pushed es)"
  shows "emit_all es v = Inl Argv_overflow"
  using assms
proof (induction es arbitrary: v)
  case (Cons e es)
  then show ?case
    by (cases e) (auto split: option.splits)
qed simp

lemma length_fmt_d: "length (fmt_d v) \<le> 11"
proof -
  have r: "- (2 ^ 31) \<le> sint v" "sint v < 2 ^ 31" using sint_greater_eq [of v] sint_less [of v] by simp_all
  have "length (dec_nat (nat (- sint v))) \<le> 10" "length (dec_nat (nat (sint v))) \<le> 10"
    using r by (auto intro!: length_dec_nat)
  then show ?thesis by (simp add: fmt_d_def)
qed

lemma fits_fmt_d [simp]: "fits MAX_STRING_LEN (fmt_d v)"
  using length_fmt_d [of v] by (simp add: fits_def)

text \<open>What filling the vector comes to when every string is there and fits: the slots hold the pushed
  strings, a NULL, and whatever slots were counted but not used; or there were too few slots.\<close>

lemma start_argv_cases:
  assumes "vm_arch c = Some arch" and "start_params c = Inr params"
    and "list_all emit_ok (start_emits c arch)"
  shows "start_argv c =
    (if length (pushed (start_emits c arch)) < params
     then Inr (params - 1, map Arg (pushed (start_emits c arch)) @
        Nul # replicate (params - 1 - length (pushed (start_emits c arch))) Uninit)
     else Inl Argv_overflow)"
proof -
  let ?n = "length (pushed (start_emits c arch))"
  have d: "?n < params \<Longrightarrow> drop ?n (replicate params Uninit) = Uninit # replicate (params - 1 - ?n) Uninit"
    by (cases "params - ?n") auto
  show ?thesis
  proof (cases "?n \<le> params")
    case True
    then show ?thesis
      using assms d by (auto simp: start_argv_def emit_all_room list_update_append)
  next
    case False
    then show ?thesis using assms by (simp add: start_argv_def emit_all_full)
  qed
qed


section \<open>Counted against used\<close>

text \<open>Where the counting and the filling code disagree: the slots used and not counted, and the slots
  counted and not used.\<close>

definition args_uncounted :: "VMExecutor \<Rightarrow> string \<Rightarrow> nat" where
  "args_uncounted c arch =
     (if is_arm arch \<and> vm_sound_card c \<noteq> None \<and> vm_sound_card c \<noteq> Some ''None'' then 2 else 0)"

definition args_unused :: "VMExecutor \<Rightarrow> string \<Rightarrow> nat" where
  "args_unused c arch =
     (case vm_cpu c of None \<Rightarrow> 0
      | Some cpu \<Rightarrow> if take 7 cpu = ''Default'' \<and> cpu \<noteq> ''Default'' then 2 else 0)
     + (if \<not> is_arm arch \<and> vm_sound_card c = Some ''None'' then 2 else 0)
     + (if \<not> is_arm arch \<and> vm_nic_driver c \<noteq> None
          \<and> vm_net_cfg c \<noteq> Some ''user'' \<and> vm_net_cfg c \<noteq> Some ''tap'' then 1 else 0)"

lemma pushed_Cons:
  "pushed (e # es) = (case e of Push (Some x) \<Rightarrow> x # pushed es | _ \<Rightarrow> pushed es)"
  by (cases e) (simp_all split: option.splits)

lemmas args_defs = args_boot_image_def args_machine_def args_drives_def args_display_boot_def
  args_net_def args_nic_def args_sound_def args_flags_def args_tail_def opt_args_def

lemma length_args_boot_image:
  "list_all emit_ok (args_boot_image c arch) \<Longrightarrow> length (pushed (args_boot_image c arch)) =
     1 + (if is_arm arch
          then (if is_set (vm_kernel c) then 2 else 0) + (if is_set (vm_initrd c) then 2 else 0)
             + (if is_set (vm_append c) then 2 else 0) else 0)"
  by (auto simp: args_defs split: option.splits)

lemma length_args_machine:
  "list_all emit_ok (args_machine c) \<Longrightarrow> length (pushed (args_machine c)) =
     4 + (case vm_cpu c of None \<Rightarrow> 0 | Some cpu \<Rightarrow> if take 7 cpu \<noteq> ''Default'' then 2 else 0)"
  by (auto simp: args_defs split: option.splits)

lemma length_args_drives:
  "length (pushed (args_drives c)) =
     6 + (if vm_hda_img_path c \<noteq> None then 2 else 0) + (if vm_hdb_img_path c \<noteq> None then 2 else 0)"
  by (auto simp: args_defs)

lemma length_args_display_boot:
  "length (pushed (args_display_boot c arch)) =
     (if vm_vga_type c \<noteq> None \<and> \<not> is_arm arch then 2 else 0) + (if vm_bootdevice c \<noteq> None then 2 else 0)"
  by (auto simp: args_defs)

lemma length_args_net:
  "length (pushed (args_net c arch)) + (if \<not> is_arm arch \<and> vm_nic_driver c \<noteq> None
          \<and> vm_net_cfg c \<noteq> Some ''user'' \<and> vm_net_cfg c \<noteq> Some ''tap'' then 1 else 0) =
     (if vm_net_cfg c \<noteq> None then 2 else 0) + (if vm_nic_driver c \<noteq> None then 2 else 0)"
  by (auto simp: args_defs split: option.splits)

lemma length_args_sound:
  "length (pushed (args_sound c arch)) =
     (if vm_sound_card c \<noteq> None \<and> vm_sound_card c \<noteq> Some ''None'' then 2 else 0)
     + (if is_arm arch then 2 else 0)"
  by (auto simp: args_defs)

lemma length_args_flags:
  "length (pushed (args_flags c)) = (if is_set (vm_snapshot_name c) then 2 else 0)
     + (if vm_usbmouse c \<noteq> 0 then 3 else 0) + (if vm_disableacpi c \<noteq> 0 then 1 else 0)
     + (if vm_disablehpet c \<noteq> 0 then 1 else 0) + (if vm_enableqmp c \<noteq> 0 then 1 else 0)"
  by (auto simp: args_defs is_set_def)

lemma length_args_tail:
  "list_all emit_ok (args_tail c) \<Longrightarrow> length (pushed (args_tail c)) = 6"
  by (auto simp: args_defs split: option.splits)

lemma cpu_counted:
  "(case p of None \<Rightarrow> 0 | Some cpu \<Rightarrow> if take 7 cpu \<noteq> ''Default'' then 2 else 0)
   + (case p of None \<Rightarrow> 0 | Some cpu \<Rightarrow> if take 7 cpu = ''Default'' \<and> cpu \<noteq> ''Default'' then 2 else 0)
   = (if p \<noteq> None \<and> p \<noteq> Some ''Default'' then 2 else (0::nat))"
  by (auto split: option.splits)

lemma sound_counted:
  "(if p \<noteq> None \<and> p \<noteq> Some ''None'' then 2 else 0) + (if arm then 2 else 0)
   + (if \<not> arm \<and> p = Some ''None'' then 2 else (0::nat))
   = (if p \<noteq> None \<or> arm then 2 else 0) + (if arm \<and> p \<noteq> None \<and> p \<noteq> Some ''None'' then 2 else 0)"
  by auto

lemma start_params_pushed:
  assumes "vm_arch c = Some arch" and "list_all emit_ok (start_emits c arch)"
  shows "\<exists>params. start_params c = Inr params \<and>
    params + args_uncounted c arch = length (pushed (start_emits c arch)) + 1 + args_unused c arch"
proof -
  have ok: "list_all emit_ok (args_boot_image c arch)" "list_all emit_ok (args_machine c)"
    "list_all emit_ok (args_tail c)"
    using assms(2) by (simp_all add: start_emits_def)
  note s = sound_counted [of "vm_sound_card c" "is_arm arch"] and p = cpu_counted [of "vm_cpu c"]
    and n = length_args_net [of c arch]
  show ?thesis
    unfolding start_params_def assms(1) option.case start_emits_def pushed_append length_append
      length_args_boot_image [OF ok(1)] length_args_machine [OF ok(2)] length_args_drives
      length_args_display_boot length_args_sound length_args_flags length_args_tail [OF ok(3)]
      args_unused_def args_uncounted_def p [symmetric] if_cancel
    by (intro exI conjI) (rule refl, use n s in linarith)
qed


section \<open>The contract: a table of options\<close>

fun opts :: "(string \<times> string option) list \<Rightarrow> string list" where
  "opts [] = []"
| "opts ((flag, None) # os) = opts os"
| "opts ((flag, Some x) # os) = flag # x # opts os"

definition when_set :: "string option \<Rightarrow> string option" where
  "when_set p = (if is_set p then p else None)"

definition drive :: "string \<Rightarrow> string option \<Rightarrow> string \<Rightarrow> string list" where
  "drive flag p dflt = opts (case p of Some x \<Rightarrow> [(flag, Some x)] | None \<Rightarrow> [(''-drive'', Some dflt)])"

definition nic_arg :: "string \<Rightarrow> string option \<Rightarrow> string \<Rightarrow> string" where
  "nic_arg arch net nic =
     (if is_arm arch then ''nic'' else if net = Some ''user'' then ''nic,model='' @ nic
      else ''nic,vlan=0,model='' @ nic)"

text \<open>The command line a machine description stands for.\<close>

definition command_line :: "VMExecutor \<Rightarrow> string list" where
  "command_line c = (let arch = the (vm_arch c) in
     the (vm_libqemu c) #
     opts (if is_arm arch then [(''-kernel'', when_set (vm_kernel c)), (''-initrd'', when_set (vm_initrd c)),
                                (''-append'', when_set (vm_append c))] else [])
     @ opts [(''-cpu'', if vm_cpu c = Some ''Default'' then None else vm_cpu c),
             (''-m'', Some (fmt_d (vm_memory c))), (''-L'', vm_base_dir c),
             (''-hda'', vm_hda_img_path c), (''-hdb'', vm_hdb_img_path c)]
     @ drive ''-cdrom'' (vm_cd_iso_path c) ''index=2,media=cdrom''
     @ drive ''-fda'' (vm_fda_img_path c) ''index=0,if=floppy''
     @ drive ''-fdb'' (vm_fdb_img_path c) ''index=1,if=floppy''
     @ opts [(''-vga'', if is_arm arch then None else vm_vga_type c), (''-boot'', vm_bootdevice c),
             (''-net'', map_option net_arg (vm_net_cfg c)),
             (''-net'', map_option (nic_arg arch (vm_net_cfg c)) (vm_nic_driver c)),
             (''-soundhw'', if is_arm arch then Some ''all'' else vm_sound_card c),
             (''-loadvm'', when_set (vm_snapshot_name c))]
     @ (if vm_usbmouse c \<noteq> 0 then [''-usb'', ''-usbdevice'', ''tablet''] else [])
     @ (if vm_disableacpi c \<noteq> 0 then [''-no-acpi''] else [])
     @ (if vm_disablehpet c \<noteq> 0 then [''-no-hpet''] else [])
     @ (if vm_enableqmp c \<noteq> 0 then [''-qmp tcp:0:4444,server''] else [])
     @ opts [if vm_enablevnc c \<noteq> 0
             then (''-vnc'', Some (if vm_vnc_allow_external c \<noteq> 0 then '':1,password'' else ''localhost:1''))
             else (''-k'', Some ''en-us''),
             (''-smp'', Some (''sockets='' @ fmt_d (vm_cpuNum c) @ '',cores=1,threads=1'')),
             (''-M'', vm_machine_type c)])"

text \<open>The machine descriptions the launcher handles: the required fields are there, every text leaves
  room for the longest prefix put before it, and no field has one of the values on which the two
  halves of the code disagree.\<close>

definition short :: "string option \<Rightarrow> bool" where
  "short p \<longleftrightarrow> (case p of None \<Rightarrow> True | Some x \<Rightarrow> length x < 1000)"

definition launch_texts :: "VMExecutor \<Rightarrow> bool" where
  "launch_texts c \<longleftrightarrow> vm_arch c \<noteq> None \<and> vm_libqemu c \<noteq> None \<and> vm_base_dir c \<noteq> None \<and> vm_machine_type c \<noteq> None
     \<and> list_all short [vm_libqemu c, vm_base_dir c, vm_machine_type c, vm_kernel c, vm_initrd c, vm_append c,
          vm_cpu c, vm_hda_img_path c, vm_hdb_img_path c, vm_cd_iso_path c, vm_fda_img_path c,
          vm_fdb_img_path c, vm_vga_type c, vm_bootdevice c, vm_nic_driver c, vm_sound_card c,
          vm_snapshot_name c]
     \<and> (vm_nic_driver c \<noteq> None \<longrightarrow> vm_net_cfg c \<noteq> None)"

definition launch_ok :: "VMExecutor \<Rightarrow> bool" where
  "launch_ok c \<longleftrightarrow> launch_texts c
     \<and> (case vm_cpu c of None \<Rightarrow> True | Some cpu \<Rightarrow> take 7 cpu = ''Default'' \<longrightarrow> cpu = ''Default'')
     \<and> (if is_arm (the (vm_arch c)) then vm_sound_card c = None \<or> vm_sound_card c = Some ''None''
        else vm_sound_card c \<noteq> Some ''None''
          \<and> (vm_nic_driver c \<noteq> None \<longrightarrow> vm_net_cfg c = Some ''user'' \<or> vm_net_cfg c = Some ''tap''))"

lemma emit_ok_short [simp]: "p \<noteq> None \<Longrightarrow> short p \<Longrightarrow> emit_ok (Push p)"
  by (auto simp: short_def fits_def)

lemma fits_literal: "length x < 1000 \<Longrightarrow> fits MAX_STRING_LEN x"
  by (simp add: fits_def)

lemma list_all_if: "(b \<Longrightarrow> list_all P xs) \<Longrightarrow> (\<not> b \<Longrightarrow> list_all P ys) \<Longrightarrow> list_all P (if b then xs else ys)"
  by simp

lemma list_all_append': "list_all P xs \<Longrightarrow> list_all P ys \<Longrightarrow> list_all P (xs @ ys)"
  by simp

lemma emit_ok_opt_args:
  "length flag < 1000 \<Longrightarrow> p \<noteq> None \<Longrightarrow> short p \<Longrightarrow> list_all emit_ok (opt_args flag p)"
  by (auto simp: opt_args_def fits_def short_def)

lemmas emit_ok_intros = list_all_if list_all_append' emit_ok_opt_args

lemma is_set_not_None: "is_set p \<Longrightarrow> p \<noteq> None"
  by (simp add: is_set_def)

lemma net_arg_length: "length (net_arg net) \<le> 36"
  by (simp add: net_arg_def)

lemma start_emits_ok:
  assumes "launch_texts c" and "vm_arch c = Some arch"
  shows "list_all emit_ok (start_emits c arch)"
proof -
  note t = assms(1) [unfolded launch_texts_def list.pred_inject]
  have num: "length (fmt_d v) < 100" for v using length_fmt_d [of v] by simp
  have s: "short (Some x)" if "length x < 1000" for x using that by (simp add: short_def)
  have "list_all emit_ok (args_boot_image c arch)"
  proof -
    have "emit_ok (Push (vm_libqemu c))" by (rule emit_ok_short) (use t in blast)+
    then show ?thesis
      unfolding args_boot_image_def list.pred_inject
      by (intro conjI emit_ok_intros is_set_not_None) (use t in simp_all)
  qed
  moreover have "list_all emit_ok (args_machine c)"
  proof -
    have "list_all emit_ok (case vm_cpu c of None \<Rightarrow> []
        | Some cpu \<Rightarrow> if take 7 cpu \<noteq> ''Default'' then opt_args ''-cpu'' (Some cpu) else [])"
      using t by (cases "vm_cpu c") (simp_all add: emit_ok_opt_args)
    then show ?thesis
      unfolding args_machine_def
      by (intro emit_ok_intros s) (use t num in \<open>simp_all add: less_trans [OF num]\<close>)
  qed
  moreover have "list_all emit_ok (args_drives c)"
    unfolding args_drives_def by (intro emit_ok_intros s) (use t in simp_all)
  moreover have "list_all emit_ok (args_display_boot c arch)"
    unfolding args_display_boot_def by (intro emit_ok_intros) (use t in simp_all)
  moreover have "list_all emit_ok (args_net c arch)"
  proof -
    have "list_all emit_ok (args_nic c arch nic)" if "vm_nic_driver c = Some nic" for nic
    proof -
      have "length nic < 1000" "vm_net_cfg c \<noteq> None" using t that by (simp_all add: short_def)
      then show ?thesis by (simp add: args_nic_def fits_def)
    qed
    moreover have "list_all emit_ok (opt_args ''-net'' (Some (net_arg net)))" for net
      by (intro emit_ok_opt_args s) (use net_arg_length [of net] in simp_all)
    ultimately show ?thesis by (auto simp: args_net_def split: option.split)
  qed
  moreover have "list_all emit_ok (args_sound c arch)"
    unfolding args_sound_def by (intro emit_ok_intros s) (use t in simp_all)
  moreover have "list_all emit_ok (args_flags c)"
    unfolding args_flags_def
    by (intro emit_ok_intros is_set_not_None) (use t in \<open>simp_all add: fits_def\<close>)
  moreover have "list_all emit_ok (args_tail c)"
    unfolding args_tail_def
    by (intro emit_ok_intros s) (use t in \<open>simp_all add: less_trans [OF num]\<close>)
  ultimately show ?thesis by (simp add: start_emits_def)
qed

lemma pushed_command_line:
  assumes "launch_ok c" and "vm_arch c = Some arch"
  shows "pushed (start_emits c arch) = command_line c"
proof -
  note d = opt_args_def
  have boot: "pushed (args_boot_image c arch) = the (vm_libqemu c) # opts (if is_arm arch
      then [(''-kernel'', when_set (vm_kernel c)), (''-initrd'', when_set (vm_initrd c)),
            (''-append'', when_set (vm_append c))] else [])"
    using assms by (auto simp: args_boot_image_def d launch_ok_def launch_texts_def when_set_def is_set_def)
  have machine: "pushed (args_machine c) = opts [(''-cpu'', if vm_cpu c = Some ''Default'' then None else vm_cpu c),
      (''-m'', Some (fmt_d (vm_memory c))), (''-L'', vm_base_dir c)]"
    using assms by (auto simp: args_machine_def d launch_ok_def launch_texts_def split: option.splits)
  have drives: "pushed (args_drives c) = opts [(''-hda'', vm_hda_img_path c), (''-hdb'', vm_hdb_img_path c)]
     @ drive ''-cdrom'' (vm_cd_iso_path c) ''index=2,media=cdrom''
     @ drive ''-fda'' (vm_fda_img_path c) ''index=0,if=floppy''
     @ drive ''-fdb'' (vm_fdb_img_path c) ''index=1,if=floppy''"
    by (auto simp: args_drives_def d drive_def)
  have net: "pushed (args_net c arch) = opts [(''-net'', map_option net_arg (vm_net_cfg c)),
      (''-net'', map_option (nic_arg arch (vm_net_cfg c)) (vm_nic_driver c))]"
    using assms by (auto simp: args_net_def args_nic_def nic_arg_def d launch_ok_def split: option.splits if_splits)
  have sound: "pushed (args_sound c arch) = opts [(''-soundhw'', if is_arm arch then Some ''all'' else vm_sound_card c)]"
    using assms by (auto simp: args_sound_def d launch_ok_def split: if_splits)
  have display: "pushed (args_display_boot c arch) =
      opts [(''-vga'', if is_arm arch then None else vm_vga_type c), (''-boot'', vm_bootdevice c)]"
    by (auto simp: args_display_boot_def d)
  have flags: "pushed (args_flags c) = opts [(''-loadvm'', when_set (vm_snapshot_name c))]
     @ (if vm_usbmouse c \<noteq> 0 then [''-usb'', ''-usbdevice'', ''tablet''] else [])
     @ (if vm_disableacpi c \<noteq> 0 then [''-no-acpi''] else [])
     @ (if vm_disablehpet c \<noteq> 0 then [''-no-hpet''] else [])
     @ (if vm_enableqmp c \<noteq> 0 then [''-qmp tcp:0:4444,server''] else [])"
    by (auto simp: args_flags_def d when_set_def is_set_def)
  have tail: "pushed (args_tail c) = opts [if vm_enablevnc c \<noteq> 0
             then (''-vnc'', Some (if vm_vnc_allow_external c \<noteq> 0 then '':1,password'' else ''localhost:1''))
             else (''-k'', Some ''en-us''),
             (''-smp'', Some (''sockets='' @ fmt_d (vm_cpuNum c) @ '',cores=1,threads=1'')),
             (''-M'', vm_machine_type c)]"
    using assms by (auto simp: args_tail_def d launch_ok_def launch_texts_def)
  have opts_append: "opts (xs @ ys) = opts xs @ opts ys" for xs ys
    by (induction xs rule: opts.induct) simp_all
  then have opts_append2: "opts xs @ opts ys @ zs = opts (xs @ ys) @ zs" for xs ys zs
    by simp
  show ?thesis
    unfolding start_emits_def pushed_append boot machine drives display net sound flags tail
      command_line_def assms(2) option.sel Let_def
    by (simp only: opts_append [symmetric] opts_append2 append_assoc append_Cons append_Nil)
qed

section \<open>Properties\<close>

text \<open>C9: [start_argv_exact] When every text field the launcher copies is there and fits its slot, the
  outcome is decided by the two counts alone: if no more slots are used than counted, the emulator
  gets the pushed strings in order, a NULL, and then one uninitialised buffer for every slot that was
  counted and not used, with the argument count including those; otherwise the code indexes past the
  end of the vector.\<close>

theorem start_argv_exact:
  assumes "vm_arch c = Some arch" and "list_all emit_ok (start_emits c arch)"
  shows "start_argv c =
    (if args_uncounted c arch \<le> args_unused c arch
     then Inr (length (pushed (start_emits c arch)) + (args_unused c arch - args_uncounted c arch),
               map Arg (pushed (start_emits c arch))
               @ Nul # replicate (args_unused c arch - args_uncounted c arch) Uninit)
     else Inl Argv_overflow)"
proof -
  obtain params where p: "start_params c = Inr params"
    and n: "params + args_uncounted c arch = length (pushed (start_emits c arch)) + 1 + args_unused c arch"
    using start_params_pushed [OF assms] by blast
  show ?thesis
  proof (cases "args_uncounted c arch \<le> args_unused c arch")
    case True
    then obtain k where k: "args_unused c arch = args_uncounted c arch + k" using le_Suc_ex by blast
    with n have "params = length (pushed (start_emits c arch)) + 1 + k" by linarith
    with k show ?thesis by (simp add: start_argv_cases [OF assms(1) p assms(2)])
  next
    case False
    with n show ?thesis by (simp add: start_argv_cases [OF assms(1) p assms(2)])
  qed
qed

definition demo_vm :: "string \<Rightarrow> string option \<Rightarrow> VMExecutor" where
  "demo_vm arch sound = \<lparr>vm_cpu = Some ''Default'', vm_machine_type = Some ''pc'', vm_memory = 256, vm_cpuNum = 1,
     vm_disableacpi = 1, vm_disablehpet = 0, vm_usbmouse = 1, vm_enableqmp = 0, vm_enablevnc = 1,
     vm_vnc_allow_external = 0, vm_hda_img_path = Some ''/sdcard/hda.img'', vm_hdb_img_path = None,
     vm_cd_iso_path = Some ''/sdcard/cd.iso'', vm_fda_img_path = None, vm_fdb_img_path = None,
     vm_bootdevice = Some ''c'', vm_net_cfg = Some ''user'', vm_nic_driver = Some ''ne2k_pci'',
     vm_libqemu = Some ''libqemu.so'', vm_vga_type = Some ''std'', vm_hd_cache = None,
     vm_sound_card = sound, vm_snapshot_name = Some '''', vm_vnc_passwd = None,
     vm_base_dir = Some ''/sdcard/limbo'', vm_dns_addr = Some ''8.8.8.8'', vm_kernel = None, vm_arch = Some arch,
     vm_append = Some '''', vm_initrd = None, vm_aiomaxthreads = 1, vm_restart = 0, vm_qemu_dev = None,
     vm_qemu_dev_value = None\<rparr>"

lemma demo_vm_texts [simp]:
  assumes "short sound"
  shows "launch_texts (demo_vm arch sound)" and "vm_arch (demo_vm arch sound) = Some arch"
  using assms by (simp_all add: launch_texts_def demo_vm_def short_def)

text \<open>A sound card named None on a PC: two slots are counted and not used.\<close>

theorem start_argv_exact_witness:
  "start_argv (demo_vm ''x86'' (Some ''None'')) =
     Inr (length (pushed (start_emits (demo_vm ''x86'' (Some ''None'')) ''x86'')) + 2,
          map Arg (pushed (start_emits (demo_vm ''x86'' (Some ''None'')) ''x86'')) @ [Nul, Uninit, Uninit])"
proof -
  let ?c = "demo_vm ''x86'' (Some ''None'')"
  have s: "short (Some ''None'')" by (simp add: short_def)
  then have "list_all emit_ok (start_emits ?c ''x86'')" by (intro start_emits_ok) simp_all
  moreover have "args_unused ?c ''x86'' = 2" "args_uncounted ?c ''x86'' = 0"
    by (simp_all add: args_unused_def args_uncounted_def demo_vm_def is_arm_def)
  ultimately show ?thesis
    using start_argv_exact [of ?c "''x86''"] s by (simp add: numeral_2_eq_2)
qed

text \<open>C1: [start_command_line] For the machine descriptions the launcher handles, the argument vector is
  the table of options of the description, each flag followed by its value, closed by a NULL, and
  the argument count is its length: no text or vector overflow, no NULL dereference.\<close>

theorem start_command_line:
  assumes "launch_ok c"
  shows "start_argv c = Inr (length (command_line c), map Arg (command_line c) @ [Nul])"
proof -
  obtain arch where a: "vm_arch c = Some arch" and t: "launch_texts c"
    using assms by (auto simp: launch_ok_def launch_texts_def)
  have "args_unused c arch = 0" "args_uncounted c arch = 0"
    using assms a
    by (auto simp: args_unused_def args_uncounted_def launch_ok_def split: option.splits if_splits)
  moreover obtain params where p: "start_params c = Inr params"
    and n: "params + args_uncounted c arch = length (pushed (start_emits c arch)) + 1 + args_unused c arch"
    using start_params_pushed [OF a start_emits_ok [OF t a]] by blast
  ultimately show ?thesis
    using start_argv_cases [OF a p start_emits_ok [OF t a]] pushed_command_line [OF assms a] by simp
qed

theorem start_command_line_witness:
  "start_argv (demo_vm ''x86'' None) =
     Inr (31, map Arg (command_line (demo_vm ''x86'' None)) @ [Nul])"
proof -
  have "launch_ok (demo_vm ''x86'' None)"
    by (simp add: launch_ok_def short_def) (simp add: demo_vm_def is_arm_def)
  moreover have "length (command_line (demo_vm ''x86'' None)) = 31"
    by (simp add: command_line_def demo_vm_def drive_def when_set_def is_set_def is_arm_def)
  ultimately show ?thesis using start_command_line [of "demo_vm ''x86'' None"] by simp
qed

text \<open>[start_arm_sound] An ARM machine with a sound card does not start: two options are appended
  that were not counted, and the launcher writes past the end of the argument vector.\<close>

theorem start_arm_sound:
  assumes "launch_texts c" and "vm_arch c = Some arch" and "is_arm arch"
    and "vm_sound_card c = Some sc" and "sc \<noteq> ''None''"
    and "vm_cpu c = Some ''Default'' \<or> vm_cpu c = None"
  shows "start_argv c = Inl Argv_overflow"
proof -
  have u: "args_unused c arch = 0" "args_uncounted c arch = 2"
    using assms by (auto simp: args_unused_def args_uncounted_def)
  obtain params where p: "start_params c = Inr params"
    and n: "params + args_uncounted c arch = length (pushed (start_emits c arch)) + 1 + args_unused c arch"
    using start_params_pushed [OF assms(2) start_emits_ok [OF assms(1,2)]] by blast
  show ?thesis
    using start_argv_cases [OF assms(2) p start_emits_ok [OF assms(1,2)]] n u by simp
qed

theorem start_arm_sound_witness:
  "start_argv (demo_vm ''arm'' (Some ''sb16'')) = Inl Argv_overflow"
proof -
  have "short (Some ''sb16'')" by (simp add: short_def)
  then show ?thesis
    by (intro start_arm_sound [of _ "''arm''" "''sb16''"]) (simp_all, simp_all add: demo_vm_def is_arm_def)
qed

end
