(* ===== verification/VmControl.thy ===== *)
theory VmControl
  imports Launcher
begin

text \<open>
  The life cycle of the virtual machine in jni/limbo/vm-executor-jni.c: the static variables
  \<open>started\<close> and \<open>handle\<close>, the native methods of the Java class that use them, and their
  interleaving. The methods run in the threads of their callers and nothing synchronises them, so
  \<open>start\<close> is modelled in steps: the test of \<open>started\<close>, its setting, the loading of the library, the
  calls up to \<open>qemu_start\<close>, which does not return while the machine runs, and what follows its
  return; \<open>stop\<close> is the call of \<open>stop_vm\<close> and the setting of \<open>started\<close>. The steps of other requests may
  come in between. The calls of the emulator before \<open>qemu_start\<close> neither read nor write \<open>started\<close> and are taken with it
  in one step. The other methods do not write \<open>started\<close> and are one step each.\<close>

section \<open>The state and what is outside it\<close>

datatype qcall =
    Dl_open "string option" | Dl_close nat
  | Set_aio_max_threads jint | Set_dns_addr "string option" | Qemu_start nat "arg list"
  | Toggle_full_screen | Do_savevm "string option" | Vnc_change_pwd "string option"
  | Change_dev "string option" "string option" | Eject_dev "string option"
  | Get_save_state | Get_state | Stop_vm bool

record launcher =
  l_started :: jint
  l_handle :: "nat option"
  l_calls :: "qcall list"

definition launcher_init :: launcher where
  "launcher_init = \<lparr>l_started = 0, l_handle = None, l_calls = []\<rparr>"

text \<open>What the dynamic linker and the loaded emulator answer.\<close>

record dl_env =
  dl_open :: "string option \<Rightarrow> nat option"
  dl_sym :: "nat \<Rightarrow> string \<Rightarrow> bool"
  dl_error :: string
  q_save_state :: int
  q_state :: int

datatype result = Returned string | In_qemu | Faulted fault | Exited

definition call :: "qcall \<Rightarrow> launcher \<Rightarrow> launcher" where
  "call q s = s\<lparr>l_calls := l_calls s @ [q]\<rparr>"

section \<open>The native methods\<close>

definition loadLib :: "dl_env \<Rightarrow> string option \<Rightarrow> launcher \<Rightarrow> fault + launcher" where
  "loadLib env path s =
     (if fits MAX_STRING_LEN (''Loading lib: '' @ fmt_s path)
      then Inr (call (Dl_open path) s\<lparr>l_handle := dl_open env path\<rparr>)
      else Inl String_overflow)"

definition vm_togglefullscreen :: "dl_env \<Rightarrow> launcher \<Rightarrow> result \<times> launcher" where
  "vm_togglefullscreen env s =
     (case l_handle s of
        None \<Rightarrow> (Returned ''VM not running'', s)
      | Some h \<Rightarrow>
          if \<not> dl_sym env h ''toggleFullScreen'' then (Returned '''', s)
          else (Returned ''Full Screen'', call Toggle_full_screen s))"

definition vm_save :: "dl_env \<Rightarrow> VMExecutor \<Rightarrow> launcher \<Rightarrow> result \<times> launcher" where
  "vm_save env c s =
     (case l_handle s of
        None \<Rightarrow> (Returned ''VM not running'', s)
      | Some h \<Rightarrow>
          if \<not> dl_sym env h ''and_do_savevm'' then (Returned '''', s)
          else (Returned ''VM State Saved'', call (Do_savevm (vm_snapshot_name c)) s))"

definition vm_vncchangepassword :: "dl_env \<Rightarrow> VMExecutor \<Rightarrow> launcher \<Rightarrow> result \<times> launcher" where
  "vm_vncchangepassword env c s =
     (case l_handle s of
        None \<Rightarrow> (Returned ''VM not running'', s)
      | Some h \<Rightarrow>
          if \<not> dl_sym env h ''vnc_change_pwd'' then (Returned '''', s)
          else (Returned ''VNC Password Changed'', call (Vnc_change_pwd (vm_vnc_passwd c)) s))"

definition dns_with_lib :: "dl_env \<Rightarrow> VMExecutor \<Rightarrow> launcher \<Rightarrow> result \<times> launcher" where
  "dns_with_lib env c s =
     (case l_handle s of
        None \<Rightarrow>
          (let msg = ''Java_com_max2idea_android_limbo_jni_VMExecutor_dnschangeaddr: Error opening lib: ''
                 @ fmt_s (vm_libqemu c) @ '' :'' @ dl_error env
           in (if fits (MSG_BUFSIZE + 1) msg then Returned msg else Faulted String_overflow, s))
      | Some h \<Rightarrow>
          if \<not> dl_sym env h ''set_dns_addr_str'' then (Returned '''', s)
          else (Returned '''', call (Set_dns_addr (vm_dns_addr c)) s))"

definition vm_dnschangeaddr :: "dl_env \<Rightarrow> VMExecutor \<Rightarrow> launcher \<Rightarrow> result \<times> launcher" where
  "vm_dnschangeaddr env c s =
     (if l_handle s = None
      then (case loadLib env (vm_libqemu c) s of
              Inl f \<Rightarrow> (Faulted f, s)
            | Inr s1 \<Rightarrow> dns_with_lib env c s1)
      else dns_with_lib env c s)"

definition vm_changedev :: "dl_env \<Rightarrow> VMExecutor \<Rightarrow> launcher \<Rightarrow> result \<times> launcher" where
  "vm_changedev env c s =
     (case l_handle s of
        None \<Rightarrow> (Returned ''VM not running'', s)
      | Some h \<Rightarrow>
          if \<not> dl_sym env h ''change_dev'' then (Returned '''', s)
          else (let s1 = call (Change_dev (vm_qemu_dev c) (vm_qemu_dev_value c)) s;
                    msg = ''Device '' @ fmt_s (vm_qemu_dev c) @ '' changed to: '' @ fmt_s (vm_qemu_dev_value c)
                in (if fits (MSG_BUFSIZE + 1) msg then Returned msg else Faulted String_overflow, s1)))"

definition vm_ejectdev :: "dl_env \<Rightarrow> VMExecutor \<Rightarrow> launcher \<Rightarrow> result \<times> launcher" where
  "vm_ejectdev env c s =
     (case l_handle s of
        None \<Rightarrow> (Returned ''VM not running'', s)
      | Some h \<Rightarrow>
          if \<not> dl_sym env h ''eject_dev'' then (Returned '''', s)
          else (let s1 = call (Eject_dev (vm_qemu_dev c)) s;
                    msg = ''Device '' @ fmt_s (vm_qemu_dev c) @ '' ejected''
                in (if fits (MSG_BUFSIZE + 1) msg then Returned msg else Faulted String_overflow, s1)))"

definition vm_getsavestate :: "dl_env \<Rightarrow> launcher \<Rightarrow> result \<times> launcher" where
  "vm_getsavestate env s =
     (case l_handle s of
        None \<Rightarrow> (Returned ''VM not running'', s)
      | Some h \<Rightarrow>
          if \<not> dl_sym env h ''get_save_state'' then (Returned '''', s)
          else (Returned (if q_save_state env \<noteq> 0 then ''SAVING'' else ''DONE''), call Get_save_state s))"

definition vm_getstate :: "dl_env \<Rightarrow> launcher \<Rightarrow> result \<times> launcher" where
  "vm_getstate env s =
     (case l_handle s of
        None \<Rightarrow> (Returned ''VM not running'', s)
      | Some h \<Rightarrow>
          if \<not> dl_sym env h ''get_state'' then (Returned '''', s)
          else (Returned (if q_state env \<noteq> 0 then ''RUNNING'' else ''READY''), call Get_state s))"

definition stop_call :: "dl_env \<Rightarrow> VMExecutor \<Rightarrow> launcher \<Rightarrow> string + launcher" where
  "stop_call env c s =
     (case l_handle s of
        None \<Rightarrow> Inl ''VM not running''
      | Some h \<Rightarrow> if \<not> dl_sym env h ''stop_vm'' then Inl '''' else Inr (call (Stop_vm (vm_restart c = 0)) s))"

definition stop_mark :: "jint \<Rightarrow> launcher \<Rightarrow> launcher" where
  "stop_mark restart s = s\<lparr>l_started := restart\<rparr>"

definition vm_stop :: "dl_env \<Rightarrow> VMExecutor \<Rightarrow> launcher \<Rightarrow> result \<times> launcher" where
  "vm_stop env c s =
     (case stop_call env c s of
        Inl msg \<Rightarrow> (Returned msg, s)
      | Inr s1 \<Rightarrow> (Returned (if vm_restart c \<noteq> 0 then ''VM Restart Request'' else ''VM Stop Request''),
                   stop_mark (vm_restart c) s1))"

text \<open>\<open>start\<close> with the argument vector built: the library is loaded unless it already is, and three
  symbols are looked up and called in turn.\<close>

definition start_with_lib :: "dl_env \<Rightarrow> VMExecutor \<Rightarrow> nat \<Rightarrow> arg list \<Rightarrow> launcher \<Rightarrow> result \<times> launcher" where
  "start_with_lib env c argc args s =
     (case l_handle s of
        None \<Rightarrow>
          (let msg = ''Error opening lib: '' @ fmt_s (vm_libqemu c) @ '' :'' @ dl_error env
           in (if fits (MSG_BUFSIZE + 1) msg then Returned msg else Faulted String_overflow, s))
      | Some h \<Rightarrow>
          if \<not> dl_sym env h ''setAIOMaxThreads'' then (Returned '''', s)
          else (let s1 = call (Set_aio_max_threads (vm_aiomaxthreads c)) s
                in if \<not> dl_sym env h ''set_dns_addr_str'' then (Returned '''', s1)
                   else (let s2 = call (Set_dns_addr (vm_dns_addr c)) s1
                         in if \<not> dl_sym env h ''qemu_start''
                            then (Returned '''', call (Dl_close h) s2\<lparr>l_handle := None\<rparr>)
                            else (In_qemu, call (Qemu_start argc args) s2))))"

text \<open>The steps before: the test, with the argument vector the caller then builds for itself, the setting
  of the flag, and the test of the handle with the loading.\<close>

definition start_check :: "VMExecutor \<Rightarrow> launcher \<Rightarrow> result + nat \<times> arg list" where
  "start_check c s =
     (if l_started s \<noteq> 0 then Inl (Returned ''VM Already started'')
      else case start_argv c of Inl f \<Rightarrow> Inl (Faulted f) | Inr a \<Rightarrow> Inr a)"

definition start_mark :: "launcher \<Rightarrow> launcher" where
  "start_mark s = s\<lparr>l_started := 1\<rparr>"

definition start_open :: "dl_env \<Rightarrow> VMExecutor \<Rightarrow> launcher \<Rightarrow> fault + launcher" where
  "start_open env c s = (if l_handle s = None then loadLib env (vm_libqemu c) s else Inr s)"

text \<open>The request when no other comes in between.\<close>

definition vm_start :: "dl_env \<Rightarrow> VMExecutor \<Rightarrow> launcher \<Rightarrow> result \<times> launcher" where
  "vm_start env c s =
     (case start_check c s of
        Inl r \<Rightarrow> (r, s)
      | Inr (argc, args) \<Rightarrow>
          (case start_open env c (start_mark s) of
             Inl f \<Rightarrow> (Faulted f, start_mark s)
           | Inr s1 \<Rightarrow> start_with_lib env c argc args s1))"

text \<open>After \<open>qemu_start\<close> has returned the library is closed and the process ends.\<close>

definition vm_start_return :: "VMExecutor \<Rightarrow> launcher \<Rightarrow> result \<times> launcher" where
  "vm_start_return c s =
     (if fits (MSG_BUFSIZE + 1) (''Closing lib: '' @ fmt_s (vm_libqemu c))
      then (case l_handle s of
              None \<Rightarrow> (Faulted Null_deref, s)
            | Some h \<Rightarrow> (Exited, call (Dl_close h) s\<lparr>l_handle := None\<rparr>))
      else (Faulted String_overflow, s))"

section \<open>Sessions\<close>

datatype jni_op =
    Togglefullscreen | Save VMExecutor | Vncchangepassword VMExecutor | Dnschangeaddr VMExecutor
  | Changedev VMExecutor | Ejectdev VMExecutor | Getsavestate | Getstate | Stop VMExecutor
  | Start VMExecutor

fun jni_apply :: "dl_env \<Rightarrow> jni_op \<Rightarrow> launcher \<Rightarrow> result \<times> launcher" where
  "jni_apply env Togglefullscreen s = vm_togglefullscreen env s"
| "jni_apply env (Save c) s = vm_save env c s"
| "jni_apply env (Vncchangepassword c) s = vm_vncchangepassword env c s"
| "jni_apply env (Dnschangeaddr c) s = vm_dnschangeaddr env c s"
| "jni_apply env (Changedev c) s = vm_changedev env c s"
| "jni_apply env (Ejectdev c) s = vm_ejectdev env c s"
| "jni_apply env Getsavestate s = vm_getsavestate env s"
| "jni_apply env Getstate s = vm_getstate env s"
| "jni_apply env (Stop c) s = vm_stop env c s"
| "jni_apply env (Start c) s = vm_start env c s"

text \<open>A session is the launcher's state, the start requests between two of their steps, the stop requests
  that have called \<open>stop_vm\<close> and not yet set the flag, the machine descriptions of the threads inside
  \<open>qemu_start\<close>, and whether the process has ended. \<open>races\<close> counts the start requests that passed the test
  while another one had passed it and not yet set the flag. Every step may meet its own answers of
  the linker and the emulator.\<close>

datatype stage = Checked | Marked | Opened

type_synonym starter = "VMExecutor \<times> nat \<times> arg list \<times> stage"

record session =
  ses :: launcher
  starting :: "starter list"
  stopping :: "jint list"
  inside :: "VMExecutor list"
  races :: nat
  over :: bool

definition session_init :: session where
  "session_init = \<lparr>ses = launcher_init, starting = [], stopping = [], inside = [], races = 0, over = False\<rparr>"

definition at_stage :: "stage \<Rightarrow> starter list \<Rightarrow> nat" where
  "at_stage g xs = length (filter (\<lambda>(_, _, _, h). h = g) xs)"

inductive session_step :: "session \<Rightarrow> session \<Rightarrow> bool" where
  request: "\<not> over x \<Longrightarrow> (\<forall>c. op \<noteq> Start c \<and> op \<noteq> Stop c) \<Longrightarrow> jni_apply env op (ses x) = (Returned m, s) \<Longrightarrow>
    session_step x (x\<lparr>ses := s\<rparr>)"
| fault: "\<not> over x \<Longrightarrow> (\<forall>c. op \<noteq> Start c \<and> op \<noteq> Stop c) \<Longrightarrow> jni_apply env op (ses x) = (Faulted f, s) \<Longrightarrow>
    session_step x (x\<lparr>ses := s, over := True\<rparr>)"
| stop_calls: "\<not> over x \<Longrightarrow> stop_call env c (ses x) = Inr s \<Longrightarrow>
    session_step x (x\<lparr>ses := s, stopping := vm_restart c # stopping x\<rparr>)"
| stop_marks: "\<not> over x \<Longrightarrow> r \<in> set (stopping x) \<Longrightarrow>
    session_step x (x\<lparr>ses := stop_mark r (ses x), stopping := remove1 r (stopping x)\<rparr>)"
| start_passes: "\<not> over x \<Longrightarrow> start_check c (ses x) = Inr (argc, args) \<Longrightarrow>
    session_step x (x\<lparr>starting := (c, argc, args, Checked) # starting x,
      races := races x + (if at_stage Checked (starting x) = 0 then 0 else 1)\<rparr>)"
| start_faults: "\<not> over x \<Longrightarrow> start_check c (ses x) = Inl (Faulted f) \<Longrightarrow> session_step x (x\<lparr>over := True\<rparr>)"
| start_marks: "\<not> over x \<Longrightarrow> (c, argc, args, Checked) \<in> set (starting x) \<Longrightarrow>
    session_step x (x\<lparr>ses := start_mark (ses x),
      starting := (c, argc, args, Marked) # remove1 (c, argc, args, Checked) (starting x)\<rparr>)"
| start_opens: "\<not> over x \<Longrightarrow> (c, argc, args, Marked) \<in> set (starting x) \<Longrightarrow> start_open env c (ses x) = Inr s \<Longrightarrow>
    session_step x (x\<lparr>ses := s, starting := (c, argc, args, Opened) # remove1 (c, argc, args, Marked) (starting x)\<rparr>)"
| open_faults: "\<not> over x \<Longrightarrow> (c, argc, args, Marked) \<in> set (starting x) \<Longrightarrow> start_open env c (ses x) = Inl f \<Longrightarrow>
    session_step x (x\<lparr>over := True\<rparr>)"
| start_enters: "\<not> over x \<Longrightarrow> (c, argc, args, Opened) \<in> set (starting x) \<Longrightarrow>
    start_with_lib env c argc args (ses x) = (In_qemu, s) \<Longrightarrow>
    session_step x (x\<lparr>ses := s, starting := remove1 (c, argc, args, Opened) (starting x), inside := c # inside x\<rparr>)"
| start_fails: "\<not> over x \<Longrightarrow> (c, argc, args, Opened) \<in> set (starting x) \<Longrightarrow>
    start_with_lib env c argc args (ses x) = (Returned m, s) \<Longrightarrow>
    session_step x (x\<lparr>ses := s, starting := remove1 (c, argc, args, Opened) (starting x)\<rparr>)"
| enter_faults: "\<not> over x \<Longrightarrow> (c, argc, args, Opened) \<in> set (starting x) \<Longrightarrow>
    start_with_lib env c argc args (ses x) = (Faulted f, s) \<Longrightarrow> session_step x (x\<lparr>ses := s, over := True\<rparr>)"
| qemu_returns: "\<not> over x \<Longrightarrow> c \<in> set (inside x) \<Longrightarrow> vm_start_return c (ses x) = (r, s) \<Longrightarrow>
    session_step x (x\<lparr>ses := s, inside := remove1 c (inside x), over := True\<rparr>)"

inductive_cases session_stepE: "session_step x y"

section \<open>Lemmas\<close>

definition starts :: "qcall list \<Rightarrow> nat" where
  "starts qs = length (filter (\<lambda>q. case q of Qemu_start _ _ \<Rightarrow> True | _ \<Rightarrow> False) qs)"

definition stops :: "qcall list \<Rightarrow> nat" where
  "stops qs = length (filter (\<lambda>q. q = Stop_vm True) qs)"

lemma starts_simps [simp]:
  "starts [] = 0" "starts (xs @ ys) = starts xs + starts ys"
  "starts (q # qs) = (case q of Qemu_start _ _ \<Rightarrow> 1 | _ \<Rightarrow> 0) + starts qs"
  by (simp_all add: starts_def split: qcall.split)

lemma stops_simps [simp]:
  "stops [] = 0" "stops (xs @ ys) = stops xs + stops ys"
  "stops (q # qs) = (if q = Stop_vm True then 1 else 0) + stops qs"
  by (simp_all add: stops_def)

lemma call_simps [simp]:
  "l_started (call q s) = l_started s" "l_handle (call q s) = l_handle s"
  "l_calls (call q s) = l_calls s @ [q]"
  by (simp_all add: call_def)

lemmas vm_defs = vm_togglefullscreen_def vm_save_def vm_vncchangepassword_def vm_changedev_def
  vm_ejectdev_def vm_getsavestate_def vm_getstate_def Let_def

lemmas start_defs = vm_start_def start_check_def start_mark_def start_open_def

text \<open>What the steps do to the flag and to the numbers of starts and of stops without restart.\<close>

definition tally :: "launcher \<Rightarrow> jint \<times> nat \<times> nat" where
  "tally s = (l_started s, starts (l_calls s), stops (l_calls s))"

lemma tally_call: "starts [q] = 0 \<Longrightarrow> stops [q] = 0 \<Longrightarrow> tally (call q s) = tally s"
  by (simp add: tally_def)

lemma tally_handle [simp]: "tally (s\<lparr>l_handle := h\<rparr>) = tally s" "tally (call q s\<lparr>l_handle := h\<rparr>) = tally (call q s)"
  by (simp_all add: tally_def)

lemma loadLib_tally: "loadLib env p s = Inr s1 \<Longrightarrow> tally s1 = tally s"
  by (auto simp: loadLib_def tally_call split: if_splits)

lemma start_open_tally: "start_open env c s = Inr s1 \<Longrightarrow> tally s1 = tally s"
  by (auto simp: start_open_def loadLib_tally split: if_splits)

lemma start_with_lib_tally:
  "start_with_lib env c argc args s = (r, s1) \<Longrightarrow>
     tally s1 = (l_started s, starts (l_calls s) + (if r = In_qemu then 1 else 0), stops (l_calls s))"
  by (auto simp: start_with_lib_def tally_def Let_def split: option.splits if_splits)

lemma stop_call_tally:
  "stop_call env c s = Inr s1 \<Longrightarrow>
     tally s1 = (l_started s, starts (l_calls s), stops (l_calls s) + (if vm_restart c = 0 then 1 else 0))"
  by (auto simp: stop_call_def tally_def split: option.splits if_splits)

lemma dns_tally: "tally (snd (vm_dnschangeaddr env c s)) = tally s"
proof -
  have d: "tally (snd (dns_with_lib env c t)) = tally t" for t
    by (auto simp: dns_with_lib_def Let_def tally_call split: option.split)
  then show ?thesis by (auto simp: vm_dnschangeaddr_def d dest: loadLib_tally split: sum.split)
qed

lemma request_tally:
  assumes "\<forall>c. op \<noteq> Start c \<and> op \<noteq> Stop c" and "jni_apply env op s = (r, s1)"
  shows "tally s1 = tally s"
proof -
  have "tally (snd (jni_apply env op s)) = tally s"
    using assms(1) by (cases op) (auto simp: vm_defs dns_tally tally_call split: option.split)
  with assms(2) show ?thesis by simp
qed

lemma return_tally: "vm_start_return c s = (r, s1) \<Longrightarrow> tally s1 = tally s"
  by (auto simp: vm_start_return_def tally_call split: option.splits if_splits)

section \<open>Who has paid for a start\<close>

lemma at_stage_simps [simp]:
  "at_stage g [] = 0" "at_stage g ((c, n, as, h) # xs) = (if h = g then 1 else 0) + at_stage g xs"
  by (simp_all add: at_stage_def)

lemma at_stage_remove:
  "(c, n, as, h) \<in> set xs \<Longrightarrow> at_stage g xs = at_stage g (remove1 (c, n, as, h) xs) + (if h = g then 1 else 0)"
  by (induction xs) (auto simp: at_stage_def)

text \<open>Every request that has passed the test and every start of the emulator is paid for: by the one start
  there may be, by a stop that has cleared the flag, or by a race.\<close>

definition starts_paid :: "session \<Rightarrow> bool" where
  "starts_paid x \<longleftrightarrow>
     starts (l_calls (ses x)) + at_stage Checked (starting x) + at_stage Marked (starting x) + at_stage Opened (starting x)
       + (if l_started (ses x) = 0 \<and> at_stage Checked (starting x) = 0 then 1 else 0) + count_list (stopping x) 0
     \<le> 1 + stops (l_calls (ses x)) + races x"

lemma count_list_remove1: "r \<in> set xs \<Longrightarrow> count_list xs y = count_list (remove1 r xs) y + (if r = y then 1 else 0)"
  by (induction xs) auto

lemma one_pays: "(d::nat) = c + (if P then 1 else 0) \<Longrightarrow> (if P \<and> Q then 1 else 0) + c \<le> d"
  by auto

lemma step_paid:
  assumes "session_step x y" and p: "starts_paid x"
  shows "starts_paid y"
  using assms(1)
proof cases
  case (request op env m s)
  with p request_tally [OF request(3,4)] show ?thesis by (simp add: starts_paid_def tally_def)
next
  case (fault op env f s)
  with p request_tally [OF fault(3,4)] show ?thesis by (simp add: starts_paid_def tally_def)
next
  case (stop_calls env c s)
  with p stop_call_tally [OF stop_calls(3)] show ?thesis by (simp add: starts_paid_def tally_def)
next
  case (stop_marks r)
  then have y: "l_started (ses y) = r" "l_calls (ses y) = l_calls (ses x)" "starting y = starting x"
      "races y = races x" "stopping y = remove1 r (stopping x)"
    by (simp_all add: stop_mark_def)
  have "(if r = 0 \<and> at_stage Checked (starting x) = 0 then 1 else 0) + count_list (remove1 r (stopping x)) 0
      \<le> count_list (stopping x) 0"
    by (rule one_pays [OF count_list_remove1 [OF stop_marks(3), of 0]])
  then show ?thesis using p unfolding starts_paid_def y by linarith
next
  case (start_passes c argc args)
  then have "l_started (ses x) = 0" by (simp add: start_check_def split: if_splits)
  with p start_passes show ?thesis by (simp add: starts_paid_def split: if_splits)
next
  case (start_faults c f)
  with p show ?thesis by (simp add: starts_paid_def)
next
  case (start_marks c argc args)
  with p show ?thesis
    by (simp add: starts_paid_def start_mark_def at_stage_remove [OF start_marks(3), of Checked]
        at_stage_remove [OF start_marks(3), of Marked] at_stage_remove [OF start_marks(3), of Opened])
next
  case (start_opens c argc args env s)
  with p start_open_tally [OF start_opens(4)] show ?thesis
    by (simp add: starts_paid_def tally_def at_stage_remove [OF start_opens(3), of Checked]
        at_stage_remove [OF start_opens(3), of Marked] at_stage_remove [OF start_opens(3), of Opened])
next
  case (open_faults c argc args env f)
  with p show ?thesis by (simp add: starts_paid_def)
next
  case (start_enters c argc args env s)
  with p start_with_lib_tally [OF start_enters(4)] show ?thesis
    by (simp add: starts_paid_def tally_def at_stage_remove [OF start_enters(3), of Checked]
        at_stage_remove [OF start_enters(3), of Marked] at_stage_remove [OF start_enters(3), of Opened])
next
  case (start_fails c argc args env m s)
  with p start_with_lib_tally [OF start_fails(4)] show ?thesis
    by (simp add: starts_paid_def tally_def at_stage_remove [OF start_fails(3), of Checked]
        at_stage_remove [OF start_fails(3), of Marked] at_stage_remove [OF start_fails(3), of Opened])
next
  case (enter_faults c argc args env f s)
  with p start_with_lib_tally [OF enter_faults(4)] show ?thesis by (simp add: starts_paid_def tally_def)
next
  case (qemu_returns c r s)
  with p return_tally [OF qemu_returns(4)] show ?thesis by (simp add: starts_paid_def tally_def)
qed

lemma step_inside:
  assumes "session_step x y" and p: "length (inside x) \<le> starts (l_calls (ses x))"
  shows "length (inside y) \<le> starts (l_calls (ses y))"
  using assms
  by cases (auto simp: tally_def length_remove1 stop_mark_def start_mark_def
      dest!: request_tally start_open_tally start_with_lib_tally stop_call_tally return_tally)

lemma session_paid:
  assumes "session_step\<^sup>*\<^sup>* session_init x"
  shows "starts_paid x \<and> length (inside x) \<le> starts (l_calls (ses x))"
  using assms
proof (induction rule: rtranclp_induct)
  case base
  show ?case by (simp add: session_init_def launcher_init_def starts_paid_def)
next
  case (step y z)
  then show ?case using step_paid step_inside by blast
qed

section \<open>Properties\<close>

text \<open>C13: [launcher_single_start] However the steps of the requests interleave, the emulator has been
  started at most once more often than a stop without restart was asked for, plus once for every
  start request that passed the test of the flag while another one was between that test and the
  setting of the flag; as many machines run at once at most as were started.\<close>

theorem launcher_single_start:
  assumes "session_step\<^sup>*\<^sup>* session_init x"
  shows "starts (l_calls (ses x)) \<le> 1 + stops (l_calls (ses x)) + races x \<and>
    length (inside x) \<le> starts (l_calls (ses x))"
  using session_paid [OF assms] by (auto simp: starts_paid_def)

text \<open>A linker that finds everything, and the session after one successful start.\<close>

definition demo_env :: dl_env where
  "demo_env = \<lparr>dl_open = (\<lambda>_. Some 1), dl_sym = (\<lambda>_ _. True), dl_error = '''', q_save_state = 0, q_state = 1\<rparr>"

lemma demo_launch_ok: "launch_ok (demo_vm ''x86'' None)"
  by (simp add: launch_ok_def short_def) (simp add: demo_vm_def is_arm_def)

lemma demo_start_argv: "\<exists>n as. start_argv (demo_vm ''x86'' None) = Inr (n, as)"
proof -
  have t: "launch_texts (demo_vm ''x86'' None)" by (simp add: short_def)
  have a: "vm_arch (demo_vm ''x86'' None) = Some ''x86''" by (simp add: short_def)
  obtain p where p: "start_params (demo_vm ''x86'' None) = Inr p"
    and n: "p + args_uncounted (demo_vm ''x86'' None) ''x86'' =
      length (pushed (start_emits (demo_vm ''x86'' None) ''x86'')) + 1 + args_unused (demo_vm ''x86'' None) ''x86''"
    using start_params_pushed [OF a start_emits_ok [OF t a]] by blast
  have "args_uncounted (demo_vm ''x86'' None) ''x86'' = 0"
    by (simp add: args_uncounted_def is_arm_def)
  with n start_argv_cases [OF a p start_emits_ok [OF t a]] show ?thesis by auto
qed

lemma demo_lib: "vm_libqemu (demo_vm ''x86'' None) = Some ''libqemu.so''"
  by (simp add: demo_vm_def)

text \<open>The steps of a start by themselves: where the library answers, each of them can be taken.\<close>

abbreviation demo_vm86 :: VMExecutor where
  "demo_vm86 \<equiv> demo_vm ''x86'' None"

lemma demo_open:
  assumes "l_handle s = None \<or> l_handle s = Some 1"
  shows "\<exists>s1. start_open demo_env demo_vm86 s = Inr s1 \<and> l_started s1 = l_started s \<and> l_handle s1 = Some 1 \<and>
    stops (l_calls s1) = stops (l_calls s)"
  using assms by (auto simp: start_open_def demo_env_def loadLib_def demo_lib fmt_s_def fits_def)

lemma demo_enter:
  assumes "l_handle s = Some 1"
  shows "\<exists>s1. start_with_lib demo_env demo_vm86 argc args s = (In_qemu, s1) \<and> l_started s1 = l_started s \<and> l_handle s1 = Some 1 \<and>
    stops (l_calls s1) = stops (l_calls s)"
  using assms by (simp add: start_with_lib_def demo_env_def Let_def)

definition demo_ready :: "session \<Rightarrow> bool" where
  "demo_ready x \<longleftrightarrow> \<not> over x \<and> (l_handle (ses x) = None \<or> l_handle (ses x) = Some 1)"

lemma demo_ready_init: "demo_ready session_init"
  by (simp add: demo_ready_def session_init_def launcher_init_def)

lemma demo_pass:
  assumes x: "demo_ready x" and f: "l_started (ses x) = 0"
  shows "\<exists>n as y. session_step x y \<and> demo_ready y \<and> ses y = ses x \<and>
    starting y = (demo_vm86, n, as, Checked) # starting x \<and> stopping y = stopping x \<and> inside y = inside x"
proof -
  obtain n as where "start_argv demo_vm86 = Inr (n, as)" using demo_start_argv by blast
  then have c: "start_check demo_vm86 (ses x) = Inr (n, as)" using f by (simp add: start_check_def)
  let ?y = "x\<lparr>starting := (demo_vm86, n, as, Checked) # starting x,
      races := races x + (if at_stage Checked (starting x) = 0 then 0 else 1)\<rparr>"
  have "session_step x ?y"
    using x c by (intro start_passes) (simp_all add: demo_ready_def)
  with x show ?thesis by (intro exI [of _ n] exI [of _ as] exI [of _ ?y]) (simp add: demo_ready_def)
qed

lemma demo_finish:
  assumes x: "demo_ready x" and m: "(demo_vm86, n, as, Checked) \<in> set (starting x)"
  shows "\<exists>y. session_step\<^sup>*\<^sup>* x y \<and> demo_ready y \<and> l_handle (ses y) = Some 1 \<and> l_started (ses y) = 1 \<and>
    starting y = remove1 (demo_vm86, n, as, Checked) (starting x) \<and> stopping y = stopping x \<and>
    inside y = demo_vm86 # inside x \<and> stops (l_calls (ses y)) = stops (l_calls (ses x))"
proof -
  let ?rest = "remove1 (demo_vm86, n, as, Checked) (starting x)"
  let ?x1 = "x\<lparr>ses := start_mark (ses x), starting := (demo_vm86, n, as, Marked) # ?rest\<rparr>"
  have 1: "session_step x ?x1" using x m by (intro start_marks) (simp_all add: demo_ready_def)
  obtain s2 where s2: "start_open demo_env demo_vm86 (start_mark (ses x)) = Inr s2" "l_started s2 = 1" "l_handle s2 = Some 1"
      "stops (l_calls s2) = stops (l_calls (ses x))"
    using demo_open [of "start_mark (ses x)"] x by (auto simp: demo_ready_def start_mark_def)
  let ?x2 = "?x1\<lparr>ses := s2, starting := (demo_vm86, n, as, Opened) # ?rest\<rparr>"
  have 2: "session_step ?x1 ?x2"
    using start_opens [of ?x1 demo_vm86 n as demo_env s2] x s2 by (simp add: demo_ready_def)
  obtain s3 where s3: "start_with_lib demo_env demo_vm86 n as s2 = (In_qemu, s3)" "l_started s3 = 1" "l_handle s3 = Some 1"
      "stops (l_calls s3) = stops (l_calls s2)"
    using demo_enter [of s2] s2 by auto
  let ?x3 = "?x2\<lparr>ses := s3, starting := ?rest, inside := demo_vm86 # inside x\<rparr>"
  have 3: "session_step ?x2 ?x3"
    using start_enters [of ?x2 demo_vm86 n as demo_env s3] x s3 by (simp add: demo_ready_def)
  from 1 2 3 have "session_step\<^sup>*\<^sup>* x ?x3"
    by (meson rtranclp.rtrancl_into_rtrancl rtranclp.rtrancl_refl)
  with x s2 s3 show ?thesis by (intro exI [of _ ?x3]) (simp add: demo_ready_def)
qed

lemma demo_run:
  assumes "demo_ready x" and "l_started (ses x) = 0"
  shows "\<exists>y. session_step\<^sup>*\<^sup>* x y \<and> demo_ready y \<and> l_handle (ses y) = Some 1 \<and> starting y = starting x \<and>
    stopping y = stopping x \<and> inside y = demo_vm86 # inside x"
proof -
  obtain n as y where y: "session_step x y" "demo_ready y"
    "starting y = (demo_vm86, n, as, Checked) # starting x" "stopping y = stopping x" "inside y = inside x"
    using demo_pass [OF assms] by blast
  with demo_finish [of y n as] show ?thesis
    by (auto intro: converse_rtranclp_into_rtranclp)
qed

theorem launcher_single_start_witness:
  "\<exists>x::session. starts (l_calls (ses x)) \<le> 1 + stops (l_calls (ses x)) + races x \<and>
     length (inside x) \<le> starts (l_calls (ses x)) \<and> inside x = [demo_vm86]"
proof -
  obtain x where x: "session_step\<^sup>*\<^sup>* session_init x" "inside x = [demo_vm86]"
    using demo_run [OF demo_ready_init] by (auto simp: session_init_def launcher_init_def)
  with launcher_single_start [OF x(1)] show ?thesis by (intro exI [of _ x]) simp
qed

text \<open>[launcher_second_machine] A stop request only asks: it clears the started flag at once, so a
  start that comes before the first machine has shut down enters the emulator a second time in the
  same process, with no two start requests under way at a time.\<close>

theorem launcher_second_machine:
  "\<exists>x. session_step\<^sup>*\<^sup>* session_init x \<and> \<not> over x \<and> length (inside x) = 2"
proof -
  obtain x1 where x1: "session_step\<^sup>*\<^sup>* session_init x1" "demo_ready x1" "l_handle (ses x1) = Some 1"
    "stopping x1 = []" "inside x1 = [demo_vm86]"
    using demo_run [OF demo_ready_init] by (auto simp: session_init_def launcher_init_def)
  obtain s2 where s2: "stop_call demo_env demo_vm86 (ses x1) = Inr s2" "l_handle s2 = Some 1"
    using x1(3) by (simp add: stop_call_def demo_env_def)
  let ?x2 = "x1\<lparr>ses := s2, stopping := [0]\<rparr>"
  let ?x3 = "?x2\<lparr>ses := stop_mark 0 s2, stopping := []\<rparr>"
  have r: "vm_restart demo_vm86 = 0" by (simp add: demo_vm_def)
  have "session_step x1 ?x2"
    using stop_calls [of x1 demo_env demo_vm86 s2] x1 s2 r by (simp add: demo_ready_def)
  moreover have "session_step ?x2 ?x3"
    using stop_marks [of ?x2 0] x1 by (simp add: demo_ready_def)
  moreover obtain x4 where "session_step\<^sup>*\<^sup>* ?x3 x4" "demo_ready x4" "inside x4 = [demo_vm86, demo_vm86]"
    using demo_run [of ?x3] x1 s2 by (auto simp: demo_ready_def stop_mark_def)
  ultimately show ?thesis using x1(1)
    by (intro exI [of _ x4]) (auto simp: demo_ready_def intro: rtranclp_trans converse_rtranclp_into_rtranclp)
qed

text \<open>[launcher_start_race] The test of the flag and its setting are apart, with the reading of all the
  fields in between, and nothing makes the second request wait: two start requests that both pass
  the test enter the emulator twice, with no stop requested.\<close>

theorem launcher_start_race:
  "\<exists>x. session_step\<^sup>*\<^sup>* session_init x \<and> \<not> over x \<and> length (inside x) = 2 \<and> stops (l_calls (ses x)) = 0"
proof -
  obtain n1 as1 x1 where x1: "session_step session_init x1" "demo_ready x1" "ses x1 = launcher_init"
        "starting x1 = [(demo_vm86, n1, as1, Checked)]" "stopping x1 = []" "inside x1 = []"
    using demo_pass [OF demo_ready_init] by (auto simp: session_init_def launcher_init_def)
  obtain n2 as2 x2 where x2: "session_step x1 x2" "demo_ready x2" "ses x2 = ses x1"
    "starting x2 = [(demo_vm86, n2, as2, Checked), (demo_vm86, n1, as1, Checked)]" "stopping x2 = []" "inside x2 = []"
    using demo_pass [OF x1(2)] x1 by (auto simp: launcher_init_def)
  obtain x3 where x3: "session_step\<^sup>*\<^sup>* x2 x3" "demo_ready x3"
    "starting x3 = [(demo_vm86, n1, as1, Checked)]" "inside x3 = [demo_vm86]"
    "stops (l_calls (ses x3)) = stops (l_calls (ses x2))"
    using demo_finish [OF x2(2), of n2 as2] x2 by auto
  obtain x4 where x4: "session_step\<^sup>*\<^sup>* x3 x4" "demo_ready x4" "inside x4 = [demo_vm86, demo_vm86]"
    "stops (l_calls (ses x4)) = stops (l_calls (ses x3))"
    using demo_finish [OF x3(2), of n1 as1] x3 by auto
  have "session_step\<^sup>*\<^sup>* session_init x4"
    using x1(1) x2(1) x3(1) x4(1) by (meson converse_rtranclp_into_rtranclp rtranclp_trans)
  moreover have "stops (l_calls (ses x4)) = 0"
    using x1(3) x2(3) x3(5) x4(4) by (simp add: launcher_init_def)
  ultimately show ?thesis using x4 by (intro exI [of _ x4]) (simp add: demo_ready_def)
qed

text \<open>[launcher_failed_load] When the emulator library does not open, the start reports it but leaves
  the started flag set: whatever other requests follow (short of a DNS change, which loads the
  library itself), nothing changes any more and every later start is refused as already started.\<close>

theorem launcher_failed_load:
  assumes "l_started s = 0" and "l_handle s = None" and "start_argv c = Inr (argc, args)"
    and "dl_open env (vm_libqemu c) = None"
    and "fits MAX_STRING_LEN (''Loading lib: '' @ fmt_s (vm_libqemu c))"
    and "s1 = snd (vm_start env c s)"
    and "\<forall>(e, op)\<in>set later. \<forall>d. op \<noteq> Dnschangeaddr d"
  shows "foldl (\<lambda>t (e, op). snd (jni_apply e op t)) s1 later = s1 \<and>
    vm_start env' c' s1 = (Returned ''VM Already started'', s1)"
proof -
  have s1: "l_started s1 \<noteq> 0" "l_handle s1 = None"
    using assms(1-6) by (simp_all add: start_defs loadLib_def start_with_lib_def Let_def)
  have "jni_apply e op s1 = (fst (jni_apply e op s1), s1)" if "\<forall>d. op \<noteq> Dnschangeaddr d" for e op
    using s1 that by (cases op) (simp_all add: vm_defs vm_stop_def stop_call_def start_defs)
  then have one: "snd (jni_apply e op s1) = s1" if "\<forall>d. op \<noteq> Dnschangeaddr d" for e op
    using that by (metis snd_conv)
  from assms(7) have "foldl (\<lambda>t (e, op). snd (jni_apply e op t)) s1 later = s1"
    by (induction later) (auto simp: one)
  then show ?thesis using s1 by (simp add: start_defs)
qed

theorem launcher_failed_load_witness:
  "\<exists>s1. s1 = snd (vm_start (demo_env\<lparr>dl_open := \<lambda>_. None\<rparr>) (demo_vm ''x86'' None) launcher_init) \<and>
     vm_start demo_env (demo_vm ''x86'' None) s1 = (Returned ''VM Already started'', s1)"
proof -
  obtain n as where a: "start_argv (demo_vm ''x86'' None) = Inr (n, as)" using demo_start_argv by blast
  show ?thesis
    using launcher_failed_load [of launcher_init, OF _ _ a, of "demo_env\<lparr>dl_open := \<lambda>_. None\<rparr>" _ "[]"]
    by (simp add: launcher_init_def demo_lib fmt_s_def fits_def)
qed

end
