(* ===== verification/ImageCreator.thy ===== *)
theory ImageCreator
  imports VmControl
begin

text \<open>
  The disk image creator, jni/limbo/image-creator-jni.c: builds the command line of qemu-img from the
  fields of the Java object ImageCreator, loads its library and calls its entry point, which returns
  when the image has been written. The argument vector and the faults are those of theory Launcher.\<close>

record ImageCreator =
  ic_filename :: "string option"
  ic_lib_path :: "string option"
  ic_memory :: jint
  ic_prealloc :: jint

record img_creator =
  ic_started :: jint
  ic_handle :: "nat option"
  ic_calls :: "qcall list"

datatype img_result = Img_message string | Img_null | Img_fault fault

definition img_params :: "ImageCreator \<Rightarrow> nat" where
  "img_params c = 7 + (if ic_prealloc c \<noteq> 0 then 2 else 0)"

definition img_emits :: "ImageCreator \<Rightarrow> emit list" where
  "img_emits c =
     [Push (Some ''libqemu-img''), Push (Some ''create''), Push (Some ''-f''), Push (Some ''qcow2''),
      Push (ic_filename c), Push (Some (fmt_d (ic_memory c) @ ''M''))]
     @ (if ic_prealloc c \<noteq> 0 then [Push (Some ''-o''), Push (Some ''preallocation=metadata'')] else [])"

definition img_argv :: "ImageCreator \<Rightarrow> fault + (nat \<times> arg list)" where
  "img_argv c =
     (case emit_all (img_emits c) \<lparr>slots = replicate (img_params c) Uninit, param = 0\<rparr> of
        Inl f \<Rightarrow> Inl f
      | Inr v \<Rightarrow> if img_params c \<le> param v then Inl Argv_overflow
                  else Inr (img_params c - 1, (slots v)[param v := Nul]))"

definition img_call :: "qcall \<Rightarrow> img_creator \<Rightarrow> img_creator" where
  "img_call q s = s\<lparr>ic_calls := ic_calls s @ [q]\<rparr>"

definition img_with_lib :: "dl_env \<Rightarrow> ImageCreator \<Rightarrow> nat \<Rightarrow> arg list \<Rightarrow> img_creator \<Rightarrow> img_result \<times> img_creator" where
  "img_with_lib env c argc args s =
     (case ic_handle s of
        None \<Rightarrow>
          (let msg = ''Error opening lib: '' @ fmt_s (ic_lib_path c) @ '' :'' @ dl_error env
           in (if fits (MSG_BUFSIZE + 1) msg then Img_message msg else Img_fault String_overflow, s))
      | Some h \<Rightarrow>
          if \<not> dl_sym env h ''qemu_img_start''
          then (Img_message (''Loading lib: '' @ fmt_s (ic_lib_path c)), img_call (Dl_close h) s\<lparr>ic_handle := None\<rparr>)
          else (Img_null, img_call (Qemu_start argc args) s))"

definition img_start :: "dl_env \<Rightarrow> ImageCreator \<Rightarrow> img_creator \<Rightarrow> img_result \<times> img_creator" where
  "img_start env c s =
     (case img_argv c of
        Inl f \<Rightarrow> (Img_fault f, s)
      | Inr (argc, args) \<Rightarrow>
          (let s1 = s\<lparr>ic_started := 1\<rparr> in
           if \<not> fits (MSG_BUFSIZE + 1) (''Loading lib: '' @ fmt_s (ic_lib_path c))
           then (Img_fault String_overflow, s1)
           else img_with_lib env c argc args
                  (img_call (Dl_open (ic_lib_path c)) s1\<lparr>ic_handle := dl_open env (ic_lib_path c)\<rparr>)))"

lemma drop_replicate_last: "drop n (x # replicate n x) = [x]"
  by (induction n) auto

text \<open>[img_start_creates] With a file name that fits and a library that opens, qemu-img is called once,
  with the arguments ``create -f qcow2 FILE SIZE'' followed by the preallocation option exactly when
  it was asked for, and the vector is closed by a NULL at the argument count.\<close>

theorem img_start_creates:
  assumes "ic_filename c = Some file" and "fits MAX_STRING_LEN file"
    and "ic_lib_path c = Some lib" and "length lib < 1000"
    and "dl_open env (Some lib) = Some h" and "dl_sym env h ''qemu_img_start''"
  defines "args \<equiv> [''libqemu-img'', ''create'', ''-f'', ''qcow2'', file, fmt_d (ic_memory c) @ ''M'']
    @ (if ic_prealloc c \<noteq> 0 then [''-o'', ''preallocation=metadata''] else [])"
  shows "fst (img_start env c s) = Img_null \<and>
    ic_calls (snd (img_start env c s)) = ic_calls s @
      [Dl_open (Some lib), Qemu_start (length args) (map Arg args @ [Nul])]"
proof -
  have l: "length (fmt_d (ic_memory c)) \<le> 11" by (rule length_fmt_d)
  have ok: "list_all emit_ok (img_emits c)"
    using assms l by (simp add: img_emits_def fits_def)
  have p: "pushed (img_emits c) = args"
    using assms(1) by (simp add: img_emits_def args_def)
  have n: "img_params c = Suc (length args)" by (simp add: img_params_def args_def)
  have "img_argv c = Inr (length args, map Arg args @ [Nul])"
    using ok n by (simp add: img_argv_def emit_all_room p list_update_append drop_replicate_last)
  then show ?thesis
    using assms by (simp add: img_start_def img_with_lib_def img_call_def Let_def fmt_s_def fits_def)
qed

theorem img_start_creates_witness:
  "fst (img_start demo_env \<lparr>ic_filename = Some ''disk.img'', ic_lib_path = Some ''libqemu-img.so'', ic_memory = 64,
      ic_prealloc = 1\<rparr> \<lparr>ic_started = 0, ic_handle = None, ic_calls = []\<rparr>) = Img_null"
  using img_start_creates [of "\<lparr>ic_filename = Some ''disk.img'', ic_lib_path = Some ''libqemu-img.so'', ic_memory = 64,
      ic_prealloc = 1\<rparr>" "''disk.img''" "''libqemu-img.so''" demo_env 1]
  by (simp add: demo_env_def fits_def)

end
