(* ===== verification/I8259.thy ===== *)
theory I8259
  imports Prelude
begin

text \<open>
  The pair of 8259 interrupt controllers of a PC, hw/i8259.c and hw/i8259_common.c: the registers of a
  chip, priority resolution, the interrupt lines, acknowledgement, the command words, and the cascade
  of the second chip into line 2 of the first. The output of the master is the interrupt line of the
  processor. An interrupt number is a \<open>nat\<close> below 8, \<open>None\<close> is the code's -1; the fatal
  \<open>hw_error\<close> of an unsupported mode is the result \<open>None\<close> of a port write.\<close>

section \<open>State\<close>

record PICCommonState =
  p_last_irr :: u8
  p_irr :: u8
  p_imr :: u8
  p_isr :: u8
  p_priority_add :: u8
  p_irq_base :: u8
  p_read_reg_select :: u8
  p_poll :: u8
  p_special_mask :: u8
  p_init_state :: u8
  p_auto_eoi :: u8
  p_rotate_on_auto_eoi :: u8
  p_special_fully_nested_mode :: u8
  p_init4 :: u8
  p_single_mode :: u8
  p_elcr :: u8
  p_elcr_mask :: u8
  p_master :: bool

datatype chip = Master | Slave

record i8259 =
  pic_m :: PICCommonState
  pic_s :: PICCommonState
  int_line :: bool

fun chip_of :: "chip \<Rightarrow> i8259 \<Rightarrow> PICCommonState" where
  "chip_of Master p = pic_m p"
| "chip_of Slave p = pic_s p"

fun with_chip :: "chip \<Rightarrow> (PICCommonState \<Rightarrow> PICCommonState) \<Rightarrow> i8259 \<Rightarrow> i8259" where
  "with_chip Master f p = p\<lparr>pic_m := f (pic_m p)\<rparr>"
| "with_chip Slave f p = p\<lparr>pic_s := f (pic_s p)\<rparr>"

section \<open>Priorities\<close>

text \<open>The search loop; for a mask of zero it would not end, and the caller does not enter it.\<close>

definition priority_line :: "u8 \<Rightarrow> nat \<Rightarrow> nat" where
  "priority_line add p = (p + unat add) mod 8"

partial_function (option) priority_loop :: "u8 \<Rightarrow> u8 \<Rightarrow> nat \<Rightarrow> nat option" where
  "priority_loop add m p =
     (if m AND push_bit (priority_line add p) 1 = 0 then priority_loop add m (Suc p) else Some p)"

definition get_priority :: "PICCommonState \<Rightarrow> u8 \<Rightarrow> nat" where
  "get_priority s m = (if m = 0 then 8 else the (priority_loop (p_priority_add s) m 0))"

definition pic_requests :: "PICCommonState \<Rightarrow> u8" where
  "pic_requests s = p_irr s AND NOT (p_imr s)"

definition pic_in_service :: "PICCommonState \<Rightarrow> u8" where
  "pic_in_service s =
     (let m = p_isr s;
          m1 = (if p_special_mask s \<noteq> 0 then m AND NOT (p_imr s) else m)
      in if p_special_fully_nested_mode s \<noteq> 0 \<and> p_master s then m1 AND NOT (push_bit 2 1) else m1)"

definition pic_get_irq :: "PICCommonState \<Rightarrow> nat option" where
  "pic_get_irq s =
     (let priority = get_priority s (pic_requests s)
      in if priority = 8 then None
         else if priority < get_priority s (pic_in_service s)
              then Some (priority_line (p_priority_add s) priority)
              else None)"

section \<open>Lines, acknowledgement, reset\<close>

text \<open>The latch part of \<open>pic_set_irq\<close>: level- and edge-triggered inputs.\<close>

definition pic_latch :: "nat \<Rightarrow> bool \<Rightarrow> PICCommonState \<Rightarrow> PICCommonState" where
  "pic_latch irq level s =
     (let m = push_bit irq 1 in
      if p_elcr s AND m \<noteq> 0
      then (if level then s\<lparr>p_irr := p_irr s OR m, p_last_irr := p_last_irr s OR m\<rparr>
            else s\<lparr>p_irr := p_irr s AND NOT m, p_last_irr := p_last_irr s AND NOT m\<rparr>)
      else (if level
            then s\<lparr>p_irr := if p_last_irr s AND m = 0 then p_irr s OR m else p_irr s,
                   p_last_irr := p_last_irr s OR m\<rparr>
            else s\<lparr>p_last_irr := p_last_irr s AND NOT m\<rparr>))"

text \<open>Driving the output: the master's is the processor's line, the slave's is line 2 of the master,
  whose own output is then driven in turn.\<close>

definition drive_int :: "i8259 \<Rightarrow> i8259" where
  "drive_int p = p\<lparr>int_line := pic_get_irq (pic_m p) \<noteq> None\<rparr>"

fun pic_update_irq :: "chip \<Rightarrow> i8259 \<Rightarrow> i8259" where
  "pic_update_irq Master p = drive_int p"
| "pic_update_irq Slave p = drive_int (with_chip Master (pic_latch 2 (pic_get_irq (pic_s p) \<noteq> None)) p)"

definition pic_set_irq :: "chip \<Rightarrow> nat \<Rightarrow> bool \<Rightarrow> i8259 \<Rightarrow> i8259" where
  "pic_set_irq c irq level p = pic_update_irq c (with_chip c (pic_latch irq level) p)"

definition pic_ack :: "nat \<Rightarrow> PICCommonState \<Rightarrow> PICCommonState" where
  "pic_ack irq s =
     (let m = push_bit irq 1;
          s1 = (if p_auto_eoi s \<noteq> 0
                then (if p_rotate_on_auto_eoi s \<noteq> 0
                      then s\<lparr>p_priority_add := word_of_nat (irq + 1) AND 7\<rparr> else s)
                else s\<lparr>p_isr := p_isr s OR m\<rparr>)
      in if p_elcr s1 AND m = 0 then s1\<lparr>p_irr := p_irr s1 AND NOT m\<rparr> else s1)"

definition pic_intack :: "chip \<Rightarrow> nat \<Rightarrow> i8259 \<Rightarrow> i8259" where
  "pic_intack c irq p = pic_update_irq c (with_chip c (pic_ack irq) p)"

definition pic_read_irq :: "i8259 \<Rightarrow> nat \<times> i8259" where
  "pic_read_irq p =
     (case pic_get_irq (pic_m p) of
        None \<Rightarrow> (unat (p_irq_base (pic_m p)) + 7, p)
      | Some irq \<Rightarrow>
          if irq = 2
          then (case pic_get_irq (pic_s p) of
                  None \<Rightarrow> (unat (p_irq_base (pic_s p)) + 7, pic_intack Master 2 p)
                | Some irq2 \<Rightarrow> (let p1 = pic_intack Slave irq2 p
                               in (unat (p_irq_base (pic_s p1)) + irq2, pic_intack Master 2 p1)))
          else (unat (p_irq_base (pic_m p)) + irq, pic_intack Master irq p))"

definition pic_reset_common :: "PICCommonState \<Rightarrow> PICCommonState" where
  "pic_reset_common s = s\<lparr>p_last_irr := 0, p_irr := p_irr s AND p_elcr s, p_imr := 0, p_isr := 0,
     p_priority_add := 0, p_irq_base := 0, p_read_reg_select := 0, p_poll := 0, p_special_mask := 0,
     p_init_state := 0, p_auto_eoi := 0, p_rotate_on_auto_eoi := 0, p_special_fully_nested_mode := 0,
     p_init4 := 0, p_single_mode := 0\<rparr>"

definition pic_init_reset :: "chip \<Rightarrow> i8259 \<Rightarrow> i8259" where
  "pic_init_reset c p = pic_update_irq c (with_chip c pic_reset_common p)"

definition pic_reset :: "chip \<Rightarrow> i8259 \<Rightarrow> i8259" where
  "pic_reset c p = pic_init_reset c (with_chip c (\<lambda>s. s\<lparr>p_elcr := 0\<rparr>) p)"

section \<open>The ports\<close>

text \<open>Initialisation command word 1: the chip is reset and waits for the other words; a request for
  level-triggered mode stops the emulator.\<close>

definition pic_icw1 :: "chip \<Rightarrow> u32 \<Rightarrow> i8259 \<Rightarrow> i8259 option" where
  "pic_icw1 c val p =
     (let p1 = with_chip c (\<lambda>s. s\<lparr>p_init_state := 1, p_init4 := ucast (val AND 1),
                 p_single_mode := ucast (val AND 2)\<rparr>) (pic_init_reset c p)
      in if val AND 8 \<noteq> 0 then None else Some p1)"

definition pic_ocw3 :: "u32 \<Rightarrow> PICCommonState \<Rightarrow> PICCommonState" where
  "pic_ocw3 val s =
     (let s1 = (if val AND 4 \<noteq> 0 then s\<lparr>p_poll := 1\<rparr> else s);
          s2 = (if val AND 2 \<noteq> 0 then s1\<lparr>p_read_reg_select := ucast (val AND 1)\<rparr> else s1)
      in if val AND 0x40 \<noteq> 0 then s2\<lparr>p_special_mask := ucast (drop_bit 5 val AND 1)\<rparr> else s2)"

definition clear_isr :: "nat \<Rightarrow> PICCommonState \<Rightarrow> PICCommonState" where
  "clear_isr irq s = s\<lparr>p_isr := p_isr s AND NOT (push_bit irq 1)\<rparr>"

definition rotate_to :: "nat \<Rightarrow> PICCommonState \<Rightarrow> PICCommonState" where
  "rotate_to irq s = s\<lparr>p_priority_add := word_of_nat (irq + 1) AND 7\<rparr>"

definition pic_ocw2 :: "chip \<Rightarrow> u32 \<Rightarrow> i8259 \<Rightarrow> i8259" where
  "pic_ocw2 c val p =
     (let cmd = drop_bit 5 val; s = chip_of c p; low = unat (val AND 7) in
      if cmd = 0 \<or> cmd = 4
      then with_chip c (\<lambda>s. s\<lparr>p_rotate_on_auto_eoi := ucast (drop_bit 2 cmd)\<rparr>) p
      else if cmd = 1 \<or> cmd = 5
      then (let priority = get_priority s (p_isr s) in
            if priority \<noteq> 8
            then (let irq = priority_line (p_priority_add s) priority;
                      p1 = with_chip c (clear_isr irq) p
                  in pic_update_irq c (if cmd = 5 then with_chip c (rotate_to irq) p1 else p1))
            else p)
      else if cmd = 3 then pic_update_irq c (with_chip c (clear_isr low) p)
      else if cmd = 6
      then pic_update_irq c (with_chip c (\<lambda>s. s\<lparr>p_priority_add := ucast ((val + 1) AND 7)\<rparr>) p)
      else if cmd = 7 then pic_update_irq c (with_chip c (rotate_to low) (with_chip c (clear_isr low) p))
      else p)"

definition pic_data_write :: "chip \<Rightarrow> u32 \<Rightarrow> i8259 \<Rightarrow> i8259" where
  "pic_data_write c val p =
     (let s = chip_of c p in
      if p_init_state s = 0 then pic_update_irq c (with_chip c (\<lambda>s. s\<lparr>p_imr := ucast val\<rparr>) p)
      else if p_init_state s = 1
      then with_chip c (\<lambda>s. s\<lparr>p_irq_base := ucast (val AND 0xf8),
             p_init_state := if p_single_mode s \<noteq> 0 then (if p_init4 s \<noteq> 0 then 3 else 0) else 2\<rparr>) p
      else if p_init_state s = 2
      then with_chip c (\<lambda>s. s\<lparr>p_init_state := if p_init4 s \<noteq> 0 then 3 else 0\<rparr>) p
      else if p_init_state s = 3
      then with_chip c (\<lambda>s. s\<lparr>p_special_fully_nested_mode := ucast (drop_bit 4 val AND 1),
             p_auto_eoi := ucast (drop_bit 1 val AND 1), p_init_state := 0\<rparr>) p
      else p)"

definition pic_ioport_write :: "chip \<Rightarrow> u32 \<Rightarrow> u32 \<Rightarrow> i8259 \<Rightarrow> i8259 option" where
  "pic_ioport_write c addr val p =
     (if addr = 0
      then (if val AND 0x10 \<noteq> 0 then pic_icw1 c val p
            else if val AND 8 \<noteq> 0 then Some (with_chip c (pic_ocw3 val) p)
            else Some (pic_ocw2 c val p))
      else Some (pic_data_write c val p))"

definition pic_ioport_read :: "chip \<Rightarrow> u32 \<Rightarrow> i8259 \<Rightarrow> u8 \<times> i8259" where
  "pic_ioport_read c addr p =
     (let s = chip_of c p in
      if p_poll s \<noteq> 0
      then (let (ret, p1) = (case pic_get_irq s of
                               Some irq \<Rightarrow> (word_of_nat irq OR 0x80, pic_intack c irq p)
                             | None \<Rightarrow> (0, p))
            in (ret, with_chip c (\<lambda>s. s\<lparr>p_poll := 0\<rparr>) p1))
      else (if addr = 0 then (if p_read_reg_select s \<noteq> 0 then p_isr s else p_irr s) else p_imr s, p))"

definition pic_get_output :: "i8259 \<Rightarrow> bool" where
  "pic_get_output p \<longleftrightarrow> pic_get_irq (pic_m p) \<noteq> None"

definition elcr_ioport_write :: "chip \<Rightarrow> u64 \<Rightarrow> i8259 \<Rightarrow> i8259" where
  "elcr_ioport_write c val p = with_chip c (\<lambda>s. s\<lparr>p_elcr := ucast (val AND ucast (p_elcr_mask s))\<rparr>) p"

definition elcr_ioport_read :: "chip \<Rightarrow> i8259 \<Rightarrow> u8" where
  "elcr_ioport_read c p = p_elcr (chip_of c p)"

definition i8259_init_chip :: "bool \<Rightarrow> PICCommonState" where
  "i8259_init_chip master = \<lparr>p_last_irr = 0, p_irr = 0, p_imr = 0, p_isr = 0, p_priority_add = 0,
     p_irq_base = 0, p_read_reg_select = 0, p_poll = 0, p_special_mask = 0, p_init_state = 0,
     p_auto_eoi = 0, p_rotate_on_auto_eoi = 0, p_special_fully_nested_mode = 0, p_init4 = 0,
     p_single_mode = 0, p_elcr = 0, p_elcr_mask = (if master then 0xf8 else 0xde), p_master = master\<rparr>"

definition i8259_init :: i8259 where
  "i8259_init = \<lparr>pic_m = i8259_init_chip True, pic_s = i8259_init_chip False, int_line = False\<rparr>"

text \<open>The array of input lines handed to the machine: 0 to 7 are the master's, 8 to 15 the slave's.\<close>

definition isa_irq :: "nat \<Rightarrow> bool \<Rightarrow> i8259 \<Rightarrow> i8259" where
  "isa_irq n level p = (if n < 8 then pic_set_irq Master n level p else pic_set_irq Slave (n - 8) level p)"

section \<open>Lemmas: priority resolution\<close>

lemma mask_test [simp]: "((x :: u8) AND 2 ^ n = 0) = (\<not> bit x n)"
  by (rule and_exp_eq_0_iff_not_bit)

definition rank :: "PICCommonState \<Rightarrow> nat \<Rightarrow> nat" where
  "rank s n = (n + (8 - unat (p_priority_add s) mod 8)) mod 8"

lemma priority_line_less [simp]: "priority_line add p < 8"
  by (simp add: priority_line_def)

lemma rank_less [simp]: "rank s n < 8"
  by (simp add: rank_def)

lemma mod_8_shift: "n + (8 - a mod 8) + a = n + 8 * (a div 8 + 1)" for n a :: nat
proof -
  have "r < 8 \<Longrightarrow> n + (8 - r) + (8 * q + r) = n + 8 * (q + 1)" for q r :: nat
    by simp
  from this [of "a mod 8" "a div 8"] show ?thesis by simp
qed

lemma line_rank:
  assumes "n < 8"
  shows "priority_line (p_priority_add s) (rank s n) = n"
proof -
  let ?a = "unat (p_priority_add s)"
  have "priority_line (p_priority_add s) (rank s n) = (n + (8 - ?a mod 8) + ?a) mod 8"
    by (simp only: priority_line_def rank_def mod_add_left_eq)
  also have "\<dots> = n" unfolding mod_8_shift mod_mult_self2 using assms by simp
  finally show ?thesis .
qed

lemma rank_line:
  assumes "p < 8"
  shows "rank s (priority_line (p_priority_add s) p) = p"
proof -
  let ?a = "unat (p_priority_add s)"
  have "rank s (priority_line (p_priority_add s) p) = (p + ?a + (8 - ?a mod 8)) mod 8"
    by (simp only: priority_line_def rank_def mod_add_left_eq)
  also have "p + ?a + (8 - ?a mod 8) = p + 8 * (?a div 8 + 1)"
    using mod_8_shift [of p ?a] by linarith
  finally show ?thesis unfolding mod_mult_self2 using assms by simp
qed

lemma priority_loop_found:
  assumes "bit m (priority_line add (p + d))" and "\<forall>j<d. \<not> bit m (priority_line add (p + j))"
  shows "priority_loop add m p = Some (p + d)"
  using assms
proof (induction d arbitrary: p)
  case 0
  then show ?case by (subst priority_loop.simps) simp
next
  case (Suc d)
  then have "\<not> bit m (priority_line add p)" by auto
  moreover have "priority_loop add m (Suc p) = Some (Suc p + d)"
    using Suc.prems by (intro Suc.IH) auto
  ultimately show ?case by (subst priority_loop.simps) simp
qed

lemma u8_nonzero_bit:
  assumes "(m :: u8) \<noteq> 0"
  shows "\<exists>n<8. bit m n"
proof (rule ccontr)
  assume "\<not> ?thesis"
  then have "m = 0" by (intro bit_eqI) (auto dest: bit_imp_le_length)
  with assms show False by simp
qed

lemma priority_loop_total:
  fixes s :: PICCommonState
  assumes "m \<noteq> 0"
  obtains p where "priority_loop (p_priority_add s) m 0 = Some p" and "p < 8"
    and "bit m (priority_line (p_priority_add s) p)"
    and "\<forall>q<p. \<not> bit m (priority_line (p_priority_add s) q)"
proof -
  let ?hit = "\<lambda>p. bit m (priority_line (p_priority_add s) p)"
  obtain n where n: "n < 8" "bit m n" using u8_nonzero_bit [OF assms] by blast
  then have h: "?hit (rank s n)" by (simp add: line_rank)
  then obtain p where hit: "?hit p" and none: "\<forall>q<p. \<not> ?hit q"
    using exists_least_iff [of ?hit] by blast
  have "\<not> rank s n < p" using none h by blast
  then have less: "p < 8" using rank_less [of s n] by linarith
  have "priority_loop (p_priority_add s) m 0 = Some p"
    using priority_loop_found [of m "p_priority_add s" 0 p] hit none by simp
  then show thesis using less hit none by (rule that)
qed

text \<open>The priority of a mask, as a bound: it is above \<open>p\<close> when no line of rank up to \<open>p\<close> is set.\<close>

lemma get_priority_bound:
  assumes "p < 8"
  shows "p < get_priority s m \<longleftrightarrow> (\<forall>n<8. bit m n \<longrightarrow> p < rank s n)"
proof (cases "m = 0")
  case True
  then show ?thesis using assms by (simp add: get_priority_def)
next
  case False
  then obtain r where r: "priority_loop (p_priority_add s) m 0 = Some r" "r < 8"
    "bit m (priority_line (p_priority_add s) r)" "\<forall>q<r. \<not> bit m (priority_line (p_priority_add s) q)"
    by (rule priority_loop_total [of m s])
  have "p < r \<longleftrightarrow> (\<forall>n<8. bit m n \<longrightarrow> p < rank s n)"
  proof
    assume "p < r"
    then show "\<forall>n<8. bit m n \<longrightarrow> p < rank s n"
      using r(4) by (metis less_le_trans line_rank not_le_imp_less)
  next
    assume "\<forall>n<8. bit m n \<longrightarrow> p < rank s n"
    then show "p < r" using r(2,3) by (metis priority_line_less rank_line)
  qed
  with False r(1) show ?thesis by (simp add: get_priority_def)
qed

lemma get_priority_le: "get_priority s m \<le> 8"
proof (cases "m = 0")
  case False
  then show ?thesis by (rule priority_loop_total [of m s]) (use False in \<open>simp add: get_priority_def\<close>)
qed (simp add: get_priority_def)

lemma get_priority_hit:
  assumes "get_priority s m < 8"
  shows "bit m (priority_line (p_priority_add s) (get_priority s m))"
proof -
  have m: "m \<noteq> 0" using assms by (auto simp: get_priority_def)
  then show ?thesis by (rule priority_loop_total [of m s]) (use m in \<open>simp add: get_priority_def\<close>)
qed

lemma pic_get_irq_Some:
  "pic_get_irq s = Some n \<longleftrightarrow> n < 8 \<and> bit (pic_requests s) n
     \<and> (\<forall>k<8. bit (pic_requests s) k \<longrightarrow> rank s n \<le> rank s k)
     \<and> (\<forall>k<8. bit (pic_in_service s) k \<longrightarrow> rank s n < rank s k)"
  (is "?l \<longleftrightarrow> ?r")
proof
  let ?p = "get_priority s (pic_requests s)"
  assume ?l
  then have p: "?p < 8" "?p < get_priority s (pic_in_service s)"
    and n: "n = priority_line (p_priority_add s) ?p"
    using get_priority_le [of s "pic_requests s"]
    by (auto simp: pic_get_irq_def Let_def split: if_splits)
  have rn: "rank s n = ?p" using n p(1) by (simp add: rank_line)
  have "rank s n \<le> rank s k" if "k < 8" "bit (pic_requests s) k" for k
    using that get_priority_bound [of "rank s k" s "pic_requests s"] rn by force
  moreover have "rank s n < rank s k" if "k < 8" "bit (pic_in_service s) k" for k
    using get_priority_bound [OF p(1)] p(2) that rn by simp
  moreover have "n < 8" using n by simp
  moreover have "bit (pic_requests s) n" using get_priority_hit [OF p(1)] n by simp
  ultimately show ?r by blast
next
  let ?p = "get_priority s (pic_requests s)"
  assume r: ?r
  have ge: "rank s n \<le> ?p"
  proof (rule ccontr)
    assume "\<not> rank s n \<le> ?p"
    then have lt: "?p < rank s n" by simp
    then have p8: "?p < 8" using rank_less less_trans by blast
    have "rank s n \<le> rank s (priority_line (p_priority_add s) ?p)"
      using r get_priority_hit [OF p8] by simp
    with lt p8 show False by (simp add: rank_line)
  qed
  moreover have "\<not> rank s n < ?p" using r get_priority_bound [of "rank s n" s] by (meson less_irrefl rank_less)
  ultimately have p: "?p = rank s n" by simp
  moreover have "rank s n < get_priority s (pic_in_service s)"
    using r get_priority_bound [of "rank s n" s] by simp
  moreover have "rank s n \<noteq> 8" using rank_less [of s n] by linarith
  ultimately show ?l using r by (simp add: pic_get_irq_def line_rank)
qed

lemma pic_get_irq_less: "pic_get_irq s = Some n \<Longrightarrow> n < 8"
  by (simp add: pic_get_irq_Some)

section \<open>Lemmas: the output line\<close>

datatype pic_op =
    Set_irq chip nat bool | Read_irq | Port_write chip u32 u32 | Port_read chip u32
  | Elcr_write chip u64 | Chip_reset chip

fun pic_apply :: "pic_op \<Rightarrow> i8259 \<Rightarrow> i8259 option" where
  "pic_apply (Set_irq c irq level) p = Some (pic_set_irq c irq level p)"
| "pic_apply Read_irq p = Some (snd (pic_read_irq p))"
| "pic_apply (Port_write c addr val) p = pic_ioport_write c addr val p"
| "pic_apply (Port_read c addr) p = Some (snd (pic_ioport_read c addr p))"
| "pic_apply (Elcr_write c val) p = Some (elcr_ioport_write c val p)"
| "pic_apply (Chip_reset c) p = Some (pic_reset c p)"

text \<open>The two kinds of writes that change which interrupt the master wants without driving its output:
  the special mask bit of operation command word 3, and initialisation command word 4.\<close>

fun pic_silent :: "pic_op \<Rightarrow> i8259 \<Rightarrow> bool" where
  "pic_silent (Port_write Master addr val) p =
     (if addr = 0 then val AND 0x10 = 0 \<and> val AND 8 \<noteq> 0 \<and> val AND 0x40 \<noteq> 0
      else p_init_state (pic_m p) = 3)"
| "pic_silent _ p = False"

inductive pic_reach :: "i8259 \<Rightarrow> bool" where
  init: "pic_reach i8259_init"
| step: "pic_reach p \<Longrightarrow> \<not> pic_silent op p \<Longrightarrow> pic_apply op p = Some q \<Longrightarrow> pic_reach q"

named_theorems line_simps

lemma drive_int_line [simp, line_simps]: "int_line (drive_int p) = pic_get_output (drive_int p)"
  by (simp add: drive_int_def pic_get_output_def)

lemma update_line [simp, line_simps]: "int_line (pic_update_irq c p) = pic_get_output (pic_update_irq c p)"
  by (cases c) simp_all

lemma with_chip_line [simp, line_simps]: "int_line (with_chip c f p) = int_line p"
  by (cases c) simp_all

lemma with_chip_output:
  assumes "\<And>s. pic_get_irq (f s) = pic_get_irq s"
  shows "pic_get_output (with_chip c f p) = pic_get_output p"
  using assms by (cases c) (simp_all add: pic_get_output_def)

lemma pic_get_irq_cong:
  assumes "p_irr t = p_irr s" "p_imr t = p_imr s" "p_isr t = p_isr s" "p_priority_add t = p_priority_add s"
    "p_special_mask t = p_special_mask s" "p_master t = p_master s"
    "p_special_fully_nested_mode t = p_special_fully_nested_mode s"
  shows "pic_get_irq t = pic_get_irq s"
  using assms by (simp add: pic_get_irq_def get_priority_def pic_requests_def pic_in_service_def Let_def)

lemma intack_line [simp, line_simps]: "int_line (pic_intack c irq p) = pic_get_output (pic_intack c irq p)"
  by (simp add: pic_intack_def)

lemma pic_read_irq_line:
  "int_line p = pic_get_output p \<Longrightarrow> int_line (snd (pic_read_irq p)) = pic_get_output (snd (pic_read_irq p))"
  by (auto simp: pic_read_irq_def Let_def split: option.split)

lemma slave_output [simp]: "pic_get_output (with_chip Slave f p) = pic_get_output p"
  by (simp add: pic_get_output_def)

lemma pic_ioport_read_line:
  assumes "int_line p = pic_get_output p"
  shows "int_line (snd (pic_ioport_read c addr p)) = pic_get_output (snd (pic_ioport_read c addr p))"
proof -
  have "pic_get_output (with_chip c (\<lambda>s. s\<lparr>p_poll := 0\<rparr>) q) = pic_get_output q" for q
    by (rule with_chip_output) (rule pic_get_irq_cong, simp_all)
  then show ?thesis
    using assms by (auto simp: pic_ioport_read_def Let_def split: option.split)
qed

lemma pic_ocw3_output:
  "val AND 0x40 = 0 \<Longrightarrow> pic_get_output (with_chip c (pic_ocw3 val) p) = pic_get_output p"
  by (rule with_chip_output, rule pic_get_irq_cong) (simp_all add: pic_ocw3_def Let_def)

lemma pic_ocw2_line:
  assumes "int_line p = pic_get_output p"
  shows "int_line (pic_ocw2 c val p) = pic_get_output (pic_ocw2 c val p)"
proof -
  have "pic_get_output (with_chip c (\<lambda>s. s\<lparr>p_rotate_on_auto_eoi := v\<rparr>) p) = pic_get_output p" for v
    by (rule with_chip_output) (rule pic_get_irq_cong, simp_all)
  with assms show ?thesis by (simp add: pic_ocw2_def Let_def)
qed

lemma pic_data_write_line:
  assumes "int_line p = pic_get_output p" and "c = Slave \<or> p_init_state (pic_m p) \<noteq> 3"
  shows "int_line (pic_data_write c val p) = pic_get_output (pic_data_write c val p)"
proof -
  have b: "pic_get_output (with_chip c (\<lambda>s. s\<lparr>p_irq_base := v, p_init_state := f s\<rparr>) p) = pic_get_output p" for v f
    by (rule with_chip_output) (rule pic_get_irq_cong, simp_all)
  have i: "pic_get_output (with_chip c (\<lambda>s. s\<lparr>p_init_state := f s\<rparr>) p) = pic_get_output p" for f
    by (rule with_chip_output) (rule pic_get_irq_cong, simp_all)
  show ?thesis
    using assms b i by (cases c) (auto simp: pic_data_write_def Let_def simp del: with_chip.simps)
qed

lemma pic_icw1_line:
  assumes "pic_icw1 c val p = Some q"
  shows "int_line q = pic_get_output q"
proof -
  have "pic_get_output (with_chip c (\<lambda>s. s\<lparr>p_init_state := a, p_init4 := b, p_single_mode := d\<rparr>) r)
      = pic_get_output r" for a b d r
    by (rule with_chip_output) (rule pic_get_irq_cong, simp_all)
  with assms show ?thesis
    by (auto simp: pic_icw1_def Let_def pic_init_reset_def split: if_splits)
qed

lemma pic_apply_line:
  assumes "int_line p = pic_get_output p" and "\<not> pic_silent op p" and "pic_apply op p = Some q"
  shows "int_line q = pic_get_output q"
proof (cases op)
  case (Port_write c addr val)
  show ?thesis
  proof (cases "addr = 0")
    case True
    show ?thesis
    proof (cases "val AND 0x10 = 0 \<and> val AND 8 \<noteq> 0")
      case t: True
      then have "c = Slave \<or> val AND 0x40 = 0" using assms(2) Port_write True by (cases c) auto
      then show ?thesis
        using assms t True Port_write by (auto simp: pic_ioport_write_def pic_ocw3_output simp del: with_chip.simps)
    next
      case False
      then show ?thesis
        using assms True Port_write pic_icw1_line
        by (auto simp: pic_ioport_write_def pic_ocw2_line split: if_splits)
    qed
  next
    case False
    then have "c = Slave \<or> p_init_state (pic_m p) \<noteq> 3" using assms(2) Port_write by (cases c) auto
    with assms False Port_write show ?thesis by (auto simp: pic_ioport_write_def pic_data_write_line)
  qed
next
  case (Elcr_write c val)
  have "pic_get_output (with_chip c (\<lambda>s. s\<lparr>p_elcr := f s\<rparr>) p) = pic_get_output p" for f
    by (rule with_chip_output) (rule pic_get_irq_cong, simp_all)
  with Elcr_write assms show ?thesis by (auto simp: elcr_ioport_write_def)
qed (use assms in \<open>auto simp: pic_set_irq_def pic_read_irq_line pic_ioport_read_line pic_reset_def pic_init_reset_def\<close>)

lemma pic_m_simps [simp]:
  "pic_m (drive_int p) = pic_m p" "pic_s (drive_int p) = pic_s p"
  "pic_m (pic_set_irq Master n level p) = pic_latch n level (pic_m p)"
  "pic_m (pic_intack Master n p) = pic_ack n (pic_m p)" "pic_s (pic_intack Master n p) = pic_s p"
  "pic_s (pic_intack Slave n p) = pic_ack n (pic_s p)"
  by (simp_all add: drive_int_def pic_set_irq_def pic_intack_def)

section \<open>Properties\<close>

text \<open>C4: [pic_line_coherent] In every state the pair reaches without a special-mask or ICW4 write to the
  master, the processor's interrupt line is high exactly when the master has an interrupt to give:
  what an acknowledge cycle then returns is a real request, never the spurious one.\<close>

theorem pic_line_coherent:
  assumes "pic_reach p"
  shows "int_line p \<longleftrightarrow> (\<exists>n<8. pic_get_irq (pic_m p) = Some n)"
  using assms
proof (induction rule: pic_reach.induct)
  case init
  show ?case by (simp add: i8259_init_def i8259_init_chip_def pic_get_irq_def get_priority_def pic_requests_def)
next
  case (step p op q)
  have "pic_get_output r \<longleftrightarrow> (\<exists>n<8. pic_get_irq (pic_m r) = Some n)" for r
    using pic_get_irq_less by (auto simp: pic_get_output_def)
  with step pic_apply_line show ?case by blast
qed

theorem pic_line_coherent_witness:
  "int_line (isa_irq 3 True i8259_init) \<longleftrightarrow> (\<exists>n<8. pic_get_irq (pic_m (isa_irq 3 True i8259_init)) = Some n)"
  by (rule pic_line_coherent, rule pic_reach.step [OF pic_reach.init, of "Set_irq Master 3 True"])
    (simp_all add: isa_irq_def)

text \<open>C15: [pic_priority] The interrupt a chip wants is the requested, unmasked line of highest priority
  (in the current rotation), and only if every line counted as in service has a lower one; the
  search for it always ends.\<close>

theorem pic_priority:
  "(pic_get_irq s = Some n \<longleftrightarrow> n < 8 \<and> bit (p_irr s) n \<and> \<not> bit (p_imr s) n
     \<and> (\<forall>k<8. bit (p_irr s) k \<and> \<not> bit (p_imr s) k \<longrightarrow> rank s n \<le> rank s k)
     \<and> (\<forall>k<8. bit (pic_in_service s) k \<longrightarrow> rank s n < rank s k)) \<and>
   (m \<noteq> 0 \<longrightarrow> (\<exists>p<8. priority_loop (p_priority_add s) m 0 = Some p))"
proof -
  have b: "bit (pic_requests s) k \<longleftrightarrow> bit (p_irr s) k \<and> \<not> bit (p_imr s) k" if "k < 8" for k
    using that by (simp add: pic_requests_def bit_and_iff bit_not_iff)
  have "m \<noteq> 0 \<longrightarrow> (\<exists>p<8. priority_loop (p_priority_add s) m 0 = Some p)"
    using priority_loop_total [of m s] by metis
  then show ?thesis using b by (auto simp: pic_get_irq_Some)
qed

theorem pic_priority_witness:
  "pic_get_irq (i8259_init_chip True\<lparr>p_irr := 0x28, p_isr := 0x40\<rparr>) = Some 3"
proof -
  have b: "bit (0x28 :: u8) n \<longleftrightarrow> n = 3 \<or> n = 5" "bit (0x40 :: u8) n \<longleftrightarrow> n = 6" if "n < 8" for n
    using that by (auto simp: less_Suc_eq numeral_eq_Suc bit_Suc)
  show ?thesis
    using pic_priority [of "i8259_init_chip True\<lparr>p_irr := 0x28, p_isr := 0x40\<rparr>" 3 1] b
    by (simp add: i8259_init_chip_def pic_in_service_def rank_def)
qed

text \<open>[pic_special_mask_missed] Setting the special mask mode can make a blocked interrupt eligible,
  but the write does not drive the output: a reachable state where the master wants line 5 and
  the processor's interrupt line is low.\<close>

theorem pic_special_mask_missed:
  "\<exists>p q. pic_reach p \<and> pic_ioport_write Master 0 0x68 p = Some q \<and>
     pic_get_irq (pic_m q) = Some 5 \<and> \<not> int_line q"
proof -
  let ?a = "pic_set_irq Master 4 True i8259_init"
  let ?b = "snd (pic_read_irq ?a)"
  let ?c = "pic_set_irq Master 5 True ?b"
  let ?d = "pic_data_write Master 16 ?c"
  note eval = get_priority_def priority_loop.simps priority_line_def pic_requests_def pic_in_service_def Let_def
  have a: "pic_m ?a = i8259_init_chip True\<lparr>p_irr := 16, p_last_irr := 16\<rparr>"
    by (simp add: pic_latch_def i8259_init_def i8259_init_chip_def)
  have ia: "pic_get_irq (pic_m ?a) = Some 4"
    unfolding a by (simp add: pic_get_irq_def eval i8259_init_chip_def)
  have "pic_m ?b = pic_ack 4 (pic_m ?a)" using ia by (simp add: pic_read_irq_def del: pic_m_simps(3))
  then have b: "pic_m ?b = i8259_init_chip True\<lparr>p_irr := 0, p_last_irr := 16, p_isr := 16\<rparr>"
    unfolding a by (simp add: pic_ack_def i8259_init_chip_def)
  have "pic_m ?c = pic_latch 5 True (pic_m ?b)" by simp
  then have c: "pic_m ?c = i8259_init_chip True\<lparr>p_irr := 32, p_last_irr := 48, p_isr := 16\<rparr>"
    unfolding b by (simp add: pic_latch_def i8259_init_chip_def)
  have i0: "p_init_state (pic_m ?c) = 0" unfolding c by (simp add: i8259_init_chip_def)
  then have "?d = drive_int (?c\<lparr>pic_m := pic_m ?c\<lparr>p_imr := 16\<rparr>\<rparr>)"
    by (simp add: pic_data_write_def del: pic_m_simps(3))
  then have d: "pic_m ?d = i8259_init_chip True\<lparr>p_irr := 32, p_last_irr := 48, p_isr := 16, p_imr := 16\<rparr>"
    and l: "int_line ?d = pic_get_output ?d"
    unfolding c by (simp_all add: i8259_init_chip_def)
  have id: "\<not> int_line ?d"
    unfolding l pic_get_output_def d by (simp add: i8259_init_chip_def pic_get_irq_def eval)
  have "pic_reach ?a"
    by (rule pic_reach.step [OF pic_reach.init, of "Set_irq Master 4 True"]) simp_all
  then have "pic_reach ?b" by (rule pic_reach.step [of _ Read_irq]) simp_all
  then have "pic_reach ?c" by (rule pic_reach.step [of _ "Set_irq Master 5 True"]) simp_all
  then have "pic_reach ?d"
    by (rule pic_reach.step [of _ "Port_write Master 1 16"])
      (use i0 in \<open>simp_all add: pic_ioport_write_def del: pic_m_simps(3)\<close>)
  moreover have "pic_ioport_write Master 0 0x68 ?d = Some (with_chip Master (pic_ocw3 0x68) ?d)"
    by (simp add: pic_ioport_write_def)
  moreover have "pic_get_irq (pic_m (with_chip Master (pic_ocw3 0x68) ?d)) = Some 5"
  proof -
    have "pic_m (with_chip Master (pic_ocw3 0x68) ?d) = pic_ocw3 0x68 (pic_m ?d)" by simp
    then show ?thesis
      unfolding d by (simp add: pic_ocw3_def i8259_init_chip_def pic_get_irq_def eval)
  qed
  ultimately show ?thesis using id by (meson with_chip_line)
qed

lemma pic_ack_fields [simp]:
  assumes "p_auto_eoi s = 0"
  shows "p_isr (pic_ack irq s) = p_isr s OR push_bit irq 1"
    and "p_priority_add (pic_ack irq s) = p_priority_add s"
    and "p_special_mask (pic_ack irq s) = p_special_mask s"
    and "p_special_fully_nested_mode (pic_ack irq s) = p_special_fully_nested_mode s"
  using assms by (simp_all add: pic_ack_def Let_def)

text \<open>The highest priority among the lines in service, once one above all of them is acknowledged.\<close>

lemma get_priority_top:
  assumes "n < 8" and "bit m n" and "\<forall>k<8. bit m k \<and> k \<noteq> n \<longrightarrow> rank s n < rank s k"
  shows "get_priority s m = rank s n"
proof -
  have "\<not> rank s n < get_priority s m"
    using get_priority_bound [of "rank s n" s m] assms(1,2) by auto
  moreover have "\<not> get_priority s m < rank s n"
  proof
    assume lt: "get_priority s m < rank s n"
    then have p: "get_priority s m < 8" using rank_less [of s n] by linarith
    let ?k = "priority_line (p_priority_add s) (get_priority s m)"
    have "rank s ?k = get_priority s m" using p by (rule rank_line)
    with lt assms(3) get_priority_hit [OF p] show False
      by (metis less_asym less_irrefl priority_line_less)
  qed
  ultimately show ?thesis by simp
qed

text \<open>C17: [pic_ack_eoi] For a line of the master other than the cascade, with automatic end of interrupt,
  special mask and special fully nested mode off: acknowledging gives its vector, marks it in service
  and lets only lines of higher priority interrupt; the non-specific end-of-interrupt command that
  follows takes exactly that mark back.\<close>

theorem pic_ack_eoi:
  fixes p :: i8259
  assumes "pic_get_irq (pic_m p) = Some irq" and "irq \<noteq> 2" and "p_auto_eoi (pic_m p) = 0"
    and "p_special_mask (pic_m p) = 0" and "p_special_fully_nested_mode (pic_m p) = 0"
  defines "p1 \<equiv> snd (pic_read_irq p)"
  shows "fst (pic_read_irq p) = unat (p_irq_base (pic_m p)) + irq \<and>
    p_isr (pic_m p1) = p_isr (pic_m p) OR push_bit irq 1 \<and>
    (\<forall>n. pic_get_irq (pic_m p1) = Some n \<longrightarrow> rank (pic_m p) n < rank (pic_m p) irq) \<and>
    (\<exists>p2. pic_ioport_write Master 0 0x20 p1 = Some p2 \<and> p_isr (pic_m p2) = p_isr (pic_m p))"
proof -
  let ?s = "pic_m p" and ?s1 = "pic_ack irq (pic_m p)"
  note want = assms(1) [unfolded pic_get_irq_Some]
  have serv: "pic_in_service ?s = p_isr ?s" "pic_in_service ?s1 = p_isr ?s1"
    using assms(3-5) by (simp_all add: pic_in_service_def)
  have rank1: "rank ?s1 n = rank ?s n" for n using assms(3) by (simp add: rank_def)
  have p1: "pic_m p1 = ?s1" and vec: "fst (pic_read_irq p) = unat (p_irq_base ?s) + irq"
    using assms(1,2) by (simp_all add: p1_def pic_read_irq_def)
  have isr1: "bit (p_isr ?s1) k \<longleftrightarrow> bit (p_isr ?s) k \<or> k = irq" if "k < 8" for k
    using assms(3) that by (simp add: bit_or_iff push_bit_of_1 bit_exp_iff)
  have new: "\<not> bit (p_isr ?s) irq" using want serv by auto
  have top: "get_priority ?s1 (p_isr ?s1) = rank ?s irq"
    using get_priority_top [of irq "p_isr ?s1" ?s1] want isr1 rank1 serv by auto
  have irq8: "irq < 8" using want by simp
  have line: "priority_line (p_priority_add ?s1) (rank ?s irq) = irq"
    using line_rank [OF irq8, of ?s] assms(3) by simp
  have restored: "p_isr ?s1 AND NOT (push_bit irq 1) = p_isr ?s"
    using new assms(3) by (intro bit_eqI) (auto simp: bit_simps)
  have nested: "rank ?s n < rank ?s irq" if "pic_get_irq ?s1 = Some n" for n
    using that [unfolded pic_get_irq_Some] isr1 [OF irq8] irq8 serv rank1 by simp
  have "pic_ioport_write Master 0 0x20 p1 = Some (drive_int (with_chip Master (clear_isr irq) p1))"
    using line less_imp_neq [OF rank_less [of ?s irq]]
    by (simp add: pic_ioport_write_def pic_ocw2_def p1 top Let_def del: with_chip.simps)
  moreover have "p_isr (pic_m (drive_int (with_chip Master (clear_isr irq) p1))) = p_isr ?s"
    by (simp add: p1 clear_isr_def del: pic_ack_fields) (rule restored [unfolded push_bit_of_1])
  ultimately show ?thesis using p1 vec nested assms(3) by auto
qed

theorem pic_ack_eoi_witness:
  "\<exists>p. p_isr (pic_m p) = 0x40 \<and> (\<exists>p2. pic_ioport_write Master 0 0x20 (snd (pic_read_irq p)) = Some p2 \<and>
     p_isr (pic_m p2) = 0x40)"
proof -
  let ?p = "i8259_init\<lparr>pic_m := i8259_init_chip True\<lparr>p_irr := 0x20, p_isr := 0x40\<rparr>\<rparr>"
  have "pic_get_irq (pic_m ?p) = Some 5"
    by (simp add: pic_get_irq_def get_priority_def priority_loop.simps priority_line_def pic_requests_def
        pic_in_service_def Let_def i8259_init_chip_def)
  from pic_ack_eoi [OF this] show ?thesis
    by (intro exI [of _ ?p]) (simp add: i8259_init_chip_def)
qed

text \<open>[pic_init_sequence] The four initialisation words (edge-triggered, cascaded, with ICW4) reset a
  chip, set the base of its vectors and its modes, and leave it in normal operation with every
  line enabled; the request latch of edge lines is cleared and the trigger register kept.\<close>

theorem pic_init_sequence:
  assumes "pic_ioport_write c 0 0x11 p = Some p1" and "pic_ioport_write c 1 base p1 = Some p2"
    and "pic_ioport_write c 1 icw3 p2 = Some p3" and "pic_ioport_write c 1 icw4 p3 = Some p4"
  shows "chip_of c p4 = (pic_reset_common (chip_of c p))\<lparr>p_init4 := 1, p_irq_base := ucast (base AND 0xf8),
    p_special_fully_nested_mode := ucast (drop_bit 4 icw4 AND 1), p_auto_eoi := ucast (drop_bit 1 icw4 AND 1)\<rparr>"
proof -
  have chip: "chip_of c (with_chip c f q) = f (chip_of c q)" for f q by (cases c) simp_all
  have upd: "chip_of c (pic_update_irq c q) = chip_of c q" for q by (cases c) simp_all
  have 1: "chip_of c p1 = (pic_reset_common (chip_of c p))\<lparr>p_init_state := 1, p_init4 := 1, p_single_mode := 0\<rparr>"
    using assms(1) by (auto simp: pic_ioport_write_def pic_icw1_def Let_def chip pic_init_reset_def upd)
  have 2: "chip_of c p2 = (chip_of c p1)\<lparr>p_irq_base := ucast (base AND 0xf8), p_init_state := 2\<rparr>"
    using assms(2) 1 by (auto simp: pic_ioport_write_def pic_data_write_def Let_def chip)
  have 3: "chip_of c p3 = (chip_of c p2)\<lparr>p_init_state := 3\<rparr>"
    using assms(3) 1 2 by (auto simp: pic_ioport_write_def pic_data_write_def Let_def chip)
  have "chip_of c p4 = (chip_of c p3)\<lparr>p_special_fully_nested_mode := ucast (drop_bit 4 icw4 AND 1),
      p_auto_eoi := ucast (drop_bit 1 icw4 AND 1), p_init_state := 0\<rparr>"
    using assms(4) 1 2 3 by (auto simp: pic_ioport_write_def pic_data_write_def Let_def chip)
  then show ?thesis by (simp add: 1 2 3 pic_reset_common_def)
qed

theorem pic_init_sequence_witness:
  "\<exists>p4 :: i8259. p_irq_base (pic_s p4) = 0x70 \<and> p_init_state (pic_s p4) = 0 \<and> p_auto_eoi (pic_s p4) = 0"
proof -
  obtain p1 where 1: "pic_ioport_write Slave 0 0x11 i8259_init = Some p1"
    by (simp add: pic_ioport_write_def pic_icw1_def Let_def)
  obtain p2 where 2: "pic_ioport_write Slave 1 0x70 p1 = Some p2" by (simp add: pic_ioport_write_def)
  obtain p3 where 3: "pic_ioport_write Slave 1 2 p2 = Some p3" by (simp add: pic_ioport_write_def)
  obtain p4 where 4: "pic_ioport_write Slave 1 1 p3 = Some p4" by (simp add: pic_ioport_write_def)
  show ?thesis
    using pic_init_sequence [OF 1 2 3 4] by (intro exI [of _ p4]) (simp add: pic_reset_common_def)
qed

end
