(* ===== verification/FlatView.thy ===== *)
theory FlatView
  imports Prelude
begin

text \<open>
  The flattened map of an address space, memory.c: address ranges, the list of disjoint ranges a
  topology is rendered into, the loop that fills the gaps of such a list with one more region, the
  merging of adjacent ranges, the comparison of an old and a new map that tells the listeners what
  changed, and the lookup of an address. \<open>Int128\<close> values are unbounded integers: each
  alias on a path of the tree moves a base by less than \<open>2 ^ 65\<close>, so the numbers the code computes stay far
  below \<open>2 ^ 126\<close>, where the two agree; where the code asserts that a number is one of 64 bits, the
  operation answers \<open>None\<close> if it is not. A memory region is named by a number. A view is
  the list of its ranges; the loops over an array index are recursions over the list from that index
  on, and an insertion at the index puts the new range in front of the rest.\<close>

section \<open>Address ranges\<close>

record AddrRange =
  ar_start :: int
  ar_size :: int

definition addrrange_make :: "int \<Rightarrow> int \<Rightarrow> AddrRange" where
  "addrrange_make start n = \<lparr>ar_start = start, ar_size = n\<rparr>"

definition addrrange_equal :: "AddrRange \<Rightarrow> AddrRange \<Rightarrow> bool" where
  "addrrange_equal r1 r2 \<longleftrightarrow> ar_start r1 = ar_start r2 \<and> ar_size r1 = ar_size r2"

definition addrrange_end :: "AddrRange \<Rightarrow> int" where
  "addrrange_end r = ar_start r + ar_size r"

definition addrrange_shift :: "AddrRange \<Rightarrow> int \<Rightarrow> AddrRange" where
  "addrrange_shift r delta = r\<lparr>ar_start := ar_start r + delta\<rparr>"

definition addrrange_contains :: "AddrRange \<Rightarrow> int \<Rightarrow> bool" where
  "addrrange_contains r addr \<longleftrightarrow> addr \<ge> ar_start r \<and> addr < addrrange_end r"

definition addrrange_intersects :: "AddrRange \<Rightarrow> AddrRange \<Rightarrow> bool" where
  "addrrange_intersects r1 r2 \<longleftrightarrow> addrrange_contains r1 (ar_start r2) \<or> addrrange_contains r2 (ar_start r1)"

definition addrrange_intersection :: "AddrRange \<Rightarrow> AddrRange \<Rightarrow> AddrRange" where
  "addrrange_intersection r1 r2 =
     (let start = max (ar_start r1) (ar_start r2);
          stop = min (addrrange_end r1) (addrrange_end r2)
      in addrrange_make start (stop - start))"

section \<open>Ranges of the flat view\<close>

record FlatRange =
  fr_mr :: nat
  fr_offset_in_region :: int
  fr_addr :: AddrRange
  fr_dirty_log_mask :: u8
  fr_readable :: bool
  fr_readonly :: bool

type_synonym FlatView = "FlatRange list"

definition flatrange_equal :: "FlatRange \<Rightarrow> FlatRange \<Rightarrow> bool" where
  "flatrange_equal a b \<longleftrightarrow> fr_mr a = fr_mr b \<and> addrrange_equal (fr_addr a) (fr_addr b)
     \<and> fr_offset_in_region a = fr_offset_in_region b
     \<and> fr_readable a = fr_readable b \<and> fr_readonly a = fr_readonly b"

definition can_merge :: "FlatRange \<Rightarrow> FlatRange \<Rightarrow> bool" where
  "can_merge r1 r2 \<longleftrightarrow> addrrange_end (fr_addr r1) = ar_start (fr_addr r2) \<and> fr_mr r1 = fr_mr r2
     \<and> fr_offset_in_region r1 + ar_size (fr_addr r1) = fr_offset_in_region r2
     \<and> fr_dirty_log_mask r1 = fr_dirty_log_mask r2
     \<and> fr_readable r1 = fr_readable r2 \<and> fr_readonly r1 = fr_readonly r2"

text \<open>The inner loop of the merge: \<open>a\<close> is the range that grows, \<open>p\<close> the range before the one
  looked at, as it was before the merge.\<close>

definition grow :: "FlatRange \<Rightarrow> int \<Rightarrow> FlatRange" where
  "grow a n = a\<lparr>fr_addr := (fr_addr a)\<lparr>ar_size := ar_size (fr_addr a) + n\<rparr>\<rparr>"

fun merge_from :: "FlatRange \<Rightarrow> FlatRange \<Rightarrow> FlatView \<Rightarrow> FlatView" where
  "merge_from a p [] = [a]"
| "merge_from a p (y # ys) =
     (if can_merge p y then merge_from (grow a (ar_size (fr_addr y))) y ys
      else a # merge_from y y ys)"

fun flatview_simplify :: "FlatView \<Rightarrow> FlatView" where
  "flatview_simplify [] = []"
| "flatview_simplify (x # xs) = merge_from x x xs"

text \<open>\<open>int128_get64\<close> asserts that the high half of its argument is zero; on integers, that it is a
  64-bit number. \<open>None\<close> is the failed assertion.\<close>

definition get64 :: "int \<Rightarrow> int option" where
  "get64 v = (if 0 \<le> v \<and> v < 2 ^ 64 then Some v else None)"

text \<open>The last part of \<open>render_memory_region\<close>: a region goes into the gaps that the ranges already there
  leave between \<open>base\<close> and \<open>base + remain\<close>. \<open>mk off base n\<close> is the range put at \<open>base\<close>. What the new range
  moves on by is \<open>now\<close> before the range \<open>r\<close> and \<open>over\<close> across it, 0 where the code takes no step; each
  step goes through \<open>int128_get64\<close>.\<close>

fun fill_gaps :: "(int \<Rightarrow> int \<Rightarrow> int \<Rightarrow> FlatRange) \<Rightarrow> FlatView \<Rightarrow> int \<Rightarrow> int \<Rightarrow> int \<Rightarrow> FlatView option" where
  "fill_gaps mk [] base remain off = Some (if remain \<noteq> 0 then [mk off base remain] else [])"
| "fill_gaps mk (r # rs) base remain off =
     (if remain = 0 then Some (r # rs)
      else if base \<ge> addrrange_end (fr_addr r) then map_option ((#) r) (fill_gaps mk rs base remain off)
      else
        (let now = (if base < ar_start (fr_addr r) then min remain (ar_start (fr_addr r) - base) else 0);
             new = (if base < ar_start (fr_addr r) then [mk off base now] else []);
             base1 = base + now; remain1 = remain - now;
             over = (if base1 = ar_start (fr_addr r) then min remain1 (ar_size (fr_addr r)) else 0)
         in case (get64 now, get64 over) of
              (Some n, Some k) \<Rightarrow>
                map_option (\<lambda>w. new @ r # w) (fill_gaps mk rs (base1 + over) (remain1 - over) (off + n + k))
            | _ \<Rightarrow> None))"

section \<open>Telling the listeners\<close>

datatype topology_event =
    Region_del FlatRange | Region_add FlatRange | Region_nop FlatRange
  | Log_stop FlatRange | Log_start FlatRange

text \<open>The section handed to the listeners holds the start and the size of the range as 64-bit numbers.
  It is built where there is a listener to be told.\<close>

definition update_region :: "(FlatRange \<Rightarrow> topology_event) \<Rightarrow> FlatRange \<Rightarrow> topology_event list option" where
  "update_region callback fr =
     (case (get64 (ar_size (fr_addr fr)), get64 (ar_start (fr_addr fr))) of
        (Some _, Some _) \<Rightarrow> Some [callback fr]
      | _ \<Rightarrow> None)"

definition and_then :: "'a list option \<Rightarrow> 'a list option \<Rightarrow> 'a list option" where
  "and_then a b = (case a of None \<Rightarrow> None | Some xs \<Rightarrow> map_option ((@) xs) b)"

definition both_events :: "bool \<Rightarrow> FlatRange \<Rightarrow> FlatRange \<Rightarrow> topology_event list option" where
  "both_events adding frold frnew =
     (if adding
      then and_then (update_region Region_nop frnew)
        (if fr_dirty_log_mask frold \<noteq> 0 \<and> fr_dirty_log_mask frnew = 0 then update_region Log_stop frnew
         else if fr_dirty_log_mask frnew \<noteq> 0 \<and> fr_dirty_log_mask frold = 0 then update_region Log_start frnew
         else Some [])
      else Some [])"

fun topology_pass :: "bool \<Rightarrow> FlatView \<Rightarrow> FlatView \<Rightarrow> topology_event list option" where
  "topology_pass adding [] [] = Some []"
| "topology_pass adding (o1 # olds) [] =
     and_then (if adding then Some [] else update_region Region_del o1) (topology_pass adding olds [])"
| "topology_pass adding [] (n1 # news) =
     and_then (if adding then update_region Region_add n1 else Some []) (topology_pass adding [] news)"
| "topology_pass adding (o1 # olds) (n1 # news) =
     (if ar_start (fr_addr o1) < ar_start (fr_addr n1)
         \<or> ar_start (fr_addr o1) = ar_start (fr_addr n1) \<and> \<not> flatrange_equal o1 n1
      then and_then (if adding then Some [] else update_region Region_del o1) (topology_pass adding olds (n1 # news))
      else if flatrange_equal o1 n1
      then and_then (both_events adding o1 n1) (topology_pass adding olds news)
      else and_then (if adding then update_region Region_add n1 else Some []) (topology_pass adding (o1 # olds) news))"

section \<open>Looking an address up\<close>

definition cmp_flatrange_addr :: "AddrRange \<Rightarrow> FlatRange \<Rightarrow> int" where
  "cmp_flatrange_addr addr fr =
     (if addrrange_end addr \<le> ar_start (fr_addr fr) then -1
      else if ar_start addr \<ge> addrrange_end (fr_addr fr) then 1 else 0)"

text \<open>The C library's \<open>bsearch\<close> on the sub-array of \<open>lim\<close> elements from \<open>base\<close>.\<close>

function bsearch :: "('a \<Rightarrow> int) \<Rightarrow> 'a list \<Rightarrow> nat \<Rightarrow> nat \<Rightarrow> nat option" where
  "bsearch cmp xs base lim =
     (if lim = 0 then None
      else (let p = base + lim div 2; c = cmp (xs ! p) in
            if c = 0 then Some p
            else if c > 0 then bsearch cmp xs (p + 1) ((lim - 1) div 2)
            else bsearch cmp xs base (lim div 2)))"
  by pat_completeness auto
termination by (relation "measure (\<lambda>(_, _, _, lim). lim)") auto

declare bsearch.simps [simp del]

definition address_space_lookup :: "FlatView \<Rightarrow> AddrRange \<Rightarrow> nat option" where
  "address_space_lookup view addr = bsearch (cmp_flatrange_addr addr) view 0 (length view)"

text \<open>Stepping back to the first range that meets the query.\<close>

fun step_back :: "FlatView \<Rightarrow> AddrRange \<Rightarrow> nat \<Rightarrow> nat" where
  "step_back view rg 0 = 0"
| "step_back view rg (Suc i) =
     (if addrrange_intersects (fr_addr (view ! i)) rg then step_back view rg i else Suc i)"

text \<open>The three numbers of the section go through \<open>int128_get64\<close>; for a query of 64-bit address and size
  and a view inside the 64-bit space they pass it (\<open>section_fits\<close> below).\<close>

record MemoryRegionSection =
  sec_mr :: "nat option"
  sec_offset_within_region :: int
  sec_size :: int
  sec_offset_within_address_space :: int
  sec_readonly :: bool

definition memory_region_find :: "FlatView \<Rightarrow> int \<Rightarrow> int \<Rightarrow> MemoryRegionSection" where
  "memory_region_find view addr n =
     (let rg = addrrange_make addr n in
      case address_space_lookup view rg of
        None \<Rightarrow> \<lparr>sec_mr = None, sec_offset_within_region = 0, sec_size = 0,
                 sec_offset_within_address_space = 0, sec_readonly = False\<rparr>
      | Some i \<Rightarrow>
          (let fr = view ! step_back view rg i; part = addrrange_intersection rg (fr_addr fr)
           in \<lparr>sec_mr = Some (fr_mr fr),
               sec_offset_within_region = fr_offset_in_region fr + (ar_start part - ar_start (fr_addr fr)),
               sec_size = ar_size part, sec_offset_within_address_space = ar_start part,
               sec_readonly = fr_readonly fr\<rparr>))"

section \<open>What a view means\<close>

abbreviation fstart :: "FlatRange \<Rightarrow> int" where
  "fstart r \<equiv> ar_start (fr_addr r)"

abbreviation fend :: "FlatRange \<Rightarrow> int" where
  "fend r \<equiv> addrrange_end (fr_addr r)"

text \<open>What an access at an address of a range finds: the region, the offset in it, and the attributes.\<close>

definition fr_at :: "FlatRange \<Rightarrow> int \<Rightarrow> nat \<times> int \<times> u8 \<times> bool \<times> bool" where
  "fr_at r x = (fr_mr r, fr_offset_in_region r + (x - fstart r), fr_dirty_log_mask r, fr_readable r, fr_readonly r)"

fun view_at :: "FlatView \<Rightarrow> int \<Rightarrow> (nat \<times> int \<times> u8 \<times> bool \<times> bool) option" where
  "view_at [] x = None"
| "view_at (r # rs) x = (if addrrange_contains (fr_addr r) x then Some (fr_at r x) else view_at rs x)"

text \<open>Sorted, disjoint, and no range empty.\<close>

definition flat_ok :: "FlatView \<Rightarrow> bool" where
  "flat_ok v \<longleftrightarrow> sorted_wrt (\<lambda>a b. fend a \<le> fstart b) v \<and> (\<forall>r\<in>set v. 0 < ar_size (fr_addr r))"

lemmas range_defs = addrrange_end_def addrrange_contains_def addrrange_intersects_def addrrange_make_def

lemma flat_ok_Nil [simp]: "flat_ok []"
  by (simp add: flat_ok_def)

lemma flat_ok_Cons [simp]:
  "flat_ok (r # rs) \<longleftrightarrow> (\<forall>s\<in>set rs. fend r \<le> fstart s) \<and> 0 < ar_size (fr_addr r) \<and> flat_ok rs"
  by (auto simp: flat_ok_def)

lemma view_at_None: "view_at v x = None \<longleftrightarrow> (\<forall>r\<in>set v. \<not> addrrange_contains (fr_addr r) x)"
  by (induction v) auto

lemma view_at_above: "\<forall>r\<in>set v. b \<le> fstart r \<Longrightarrow> x < b \<Longrightarrow> view_at v x = None"
  by (auto simp: view_at_None addrrange_contains_def)

section \<open>Filling the gaps\<close>

text \<open>What the loop makes when no assertion fails.\<close>

fun gaps_filled :: "(int \<Rightarrow> int \<Rightarrow> int \<Rightarrow> FlatRange) \<Rightarrow> FlatView \<Rightarrow> int \<Rightarrow> int \<Rightarrow> int \<Rightarrow> FlatView" where
  "gaps_filled mk [] base remain off = (if remain \<noteq> 0 then [mk off base remain] else [])"
| "gaps_filled mk (r # rs) base remain off =
     (if remain = 0 then r # rs
      else if base \<ge> addrrange_end (fr_addr r) then r # gaps_filled mk rs base remain off
      else
        (let now = (if base < ar_start (fr_addr r) then min remain (ar_start (fr_addr r) - base) else 0);
             new = (if base < ar_start (fr_addr r) then [mk off base now] else []);
             base1 = base + now; off1 = off + now; remain1 = remain - now;
             over = (if base1 = ar_start (fr_addr r) then min remain1 (ar_size (fr_addr r)) else 0)
         in new @ r # gaps_filled mk rs (base1 + over) (remain1 - over) (off1 + over)))"

lemma get64_Some: "get64 v = Some w \<longleftrightarrow> w = v \<and> 0 \<le> v \<and> v < 2 ^ 64"
  by (auto simp: get64_def)

lemma fill_gaps_result: "fill_gaps mk v base remain off = Some w \<Longrightarrow> w = gaps_filled mk v base remain off"
proof (induction v arbitrary: base remain off w)
  case (Cons r rs)
  consider "remain = 0" | "remain \<noteq> 0" "fend r \<le> base" | "remain \<noteq> 0" "\<not> fend r \<le> base" by blast
  then show ?case
  proof cases
    case 3
    let ?now = "if base < fstart r then min remain (fstart r - base) else 0"
    let ?over = "if base + ?now = fstart r then min (remain - ?now) (ar_size (fr_addr r)) else 0"
    obtain n k u where "get64 ?now = Some n" "get64 ?over = Some k"
      and u: "fill_gaps mk rs (base + ?now + ?over) (remain - ?now - ?over) (off + n + k) = Some u"
      and w: "w = (if base < fstart r then [mk off base ?now] else []) @ r # u"
      using Cons.prems 3 unfolding fill_gaps.simps Let_def
      by (simp only: if_False split: option.splits) (auto split: option.splits)
    then have "n = ?now" "k = ?over" by (simp_all only: get64_Some)
    with Cons.IH [OF u] w 3 show ?thesis by (simp only: gaps_filled.simps if_False Let_def)
  qed (use Cons in auto)
qed (simp split: if_splits)

definition sized :: "FlatView \<Rightarrow> bool" where
  "sized v \<longleftrightarrow> (\<forall>r\<in>set v. 0 \<le> ar_size (fr_addr r))"

text \<open>A new range of less than the whole 64-bit space fails no assertion.\<close>

lemma fill_gaps_enough:
  assumes mk: "\<And>p b n. ar_size (fr_addr (mk p b n)) = n"
  shows "sized v \<Longrightarrow> 0 \<le> remain \<Longrightarrow> remain < 2 ^ 64 \<Longrightarrow>
    \<exists>w. fill_gaps mk v base remain off = Some w \<and> sized w"
proof (induction v arbitrary: base remain off)
  case (Cons r rs)
  consider "remain = 0" | "remain \<noteq> 0" "fend r \<le> base" | "remain \<noteq> 0" "\<not> fend r \<le> base" by blast
  then show ?case
  proof cases
    case 2
    with Cons show ?thesis by (fastforce simp: sized_def)
  next
    case 3
    let ?now = "if base < fstart r then min remain (fstart r - base) else 0"
    let ?over = "if base + ?now = fstart r then min (remain - ?now) (ar_size (fr_addr r)) else 0"
    have n: "0 \<le> ?now" "?now \<le> remain" using Cons.prems(2) by auto
    moreover have k: "0 \<le> ?over" "?over \<le> remain - ?now" using n Cons.prems by (auto simp: sized_def)
    ultimately have g: "get64 ?now = Some ?now" "get64 ?over = Some ?over"
      using Cons.prems(3) unfolding get64_Some by (auto simp del: if_split)
    obtain u where "fill_gaps mk rs (base + ?now + ?over) (remain - ?now - ?over) (off + ?now + ?over) = Some u" "sized u"
      using Cons.IH [of "remain - ?now - ?over"] n k Cons.prems by (fastforce simp: sized_def)
    then show ?thesis
      using 3 Cons.prems n g by (simp only: fill_gaps.simps if_False Let_def prod.case option.case) (auto simp: sized_def mk)
  qed (use Cons in auto)
qed (simp add: sized_def mk)

text \<open>The code looks only at where a range starts: it is right when no range already there reaches
  across the start of the new one.\<close>

definition no_straddle :: "FlatView \<Rightarrow> int \<Rightarrow> bool" where
  "no_straddle v b \<longleftrightarrow> (\<forall>r\<in>set v. \<not> (fstart r < b \<and> b < fend r))"

definition makes_ranges :: "(int \<Rightarrow> int \<Rightarrow> int \<Rightarrow> FlatRange) \<Rightarrow> bool" where
  "makes_ranges mk \<longleftrightarrow> (\<exists>mr d ra ro. \<forall>off b n. mk off b n = \<lparr>fr_mr = mr, fr_offset_in_region = off,
     fr_addr = addrrange_make b n, fr_dirty_log_mask = d, fr_readable = ra, fr_readonly = ro\<rparr>)"

lemma makes_ranges_fields:
  assumes "makes_ranges mk"
  shows "fstart (mk off b n) = b" "fend (mk off b n) = b + n" "ar_size (fr_addr (mk off b n)) = n"
    "fr_at (mk off b n) x = fr_at (mk (off + d) (b + d) m) x"
  using assms by (auto simp: makes_ranges_def range_defs fr_at_def)

lemma gaps_filled_none [simp]: "gaps_filled mk v base 0 off = v"
  by (cases v) simp_all

text \<open>One step of the loop, with the end \<open>stop\<close> of the new range and the difference \<open>c\<close> of offset
  and address as the quantities that stay fixed.\<close>

lemma gaps_filled_step:
  assumes "base \<le> fstart r" and "0 < ar_size (fr_addr r)" and "base < stop"
  shows "gaps_filled mk (r # rs) base (stop - base) (c + base) =
    (if stop \<le> fstart r then mk (c + base) base (stop - base) # r # rs
     else (if base < fstart r then [mk (c + base) base (fstart r - base)] else []) @
       (if stop \<le> fend r then r # rs
        else r # gaps_filled mk rs (fend r) (stop - fend r) (c + fend r)))"
proof -
  have e: "fend r = fstart r + ar_size (fr_addr r)" by (simp add: addrrange_end_def)
  show ?thesis
  proof (cases "stop \<le> fstart r")
    case True
    then show ?thesis using assms e by (auto simp: Let_def min_def)
  next
    case False
    then have now: "min (stop - base) (fstart r - base) = fstart r - base" by simp
    have over: "min (stop - fstart r) (ar_size (fr_addr r)) =
        (if stop \<le> fend r then stop - fstart r else ar_size (fr_addr r))"
      using e by simp
    show ?thesis
    proof (cases "base < fstart r")
      case True
      then show ?thesis
        using False assms e now over by (simp add: Let_def algebra_simps)
    next
      case False2: False
      then have "base = fstart r" using assms(1) by simp
      then show ?thesis
        using False assms e over by (simp add: Let_def algebra_simps)
    qed
  qed
qed

definition gap_at :: "(int \<Rightarrow> int \<Rightarrow> int \<Rightarrow> FlatRange) \<Rightarrow> int \<Rightarrow> int \<Rightarrow> nat \<times> int \<times> u8 \<times> bool \<times> bool" where
  "gap_at mk c x = fr_at (mk c 0 0) x"

lemma gap_at_mk: "makes_ranges mk \<Longrightarrow> fr_at (mk (c + b) b n) x = gap_at mk c x"
  by (auto simp: gap_at_def makes_ranges_def range_defs fr_at_def)

lemma mk_contains: "makes_ranges mk \<Longrightarrow> addrrange_contains (fr_addr (mk off b n)) x \<longleftrightarrow> b \<le> x \<and> x < b + n"
  by (auto simp: makes_ranges_def range_defs)

definition fills :: "(int \<Rightarrow> int \<Rightarrow> int \<Rightarrow> FlatRange) \<Rightarrow> int \<Rightarrow> FlatView \<Rightarrow> int \<Rightarrow> int \<Rightarrow> FlatView \<Rightarrow> bool" where
  "fills mk c v base stop w \<longleftrightarrow> flat_ok w
     \<and> (\<forall>r\<in>set w. r \<in> set v \<or> base \<le> fstart r \<and> fend r \<le> stop)
     \<and> (\<forall>x. view_at w x = (case view_at v x of Some y \<Rightarrow> Some y
            | None \<Rightarrow> if base \<le> x \<and> x < stop then Some (gap_at mk c x) else None))"

lemma fills_same: "flat_ok v \<Longrightarrow> stop \<le> base \<Longrightarrow> fills mk c v base stop v"
  by (auto simp: fills_def split: option.split)

lemma fills_cover:
  assumes "flat_ok (r # rs)" and "fstart r \<le> base" and "stop \<le> fend r"
  shows "fills mk c (r # rs) base stop (r # rs)"
  using assms by (auto simp: fills_def addrrange_contains_def split: option.split)

text \<open>A range \<open>[base, m)\<close> put in front of a view that begins at or after \<open>m\<close>.\<close>

lemma fills_front:
  assumes mk: "makes_ranges mk" and w: "fills mk c v m stop w" and "base < m" "m \<le> stop"
    and v: "\<forall>r\<in>set v. m \<le> fstart r"
  shows "fills mk c v base stop (mk (c + base) base (m - base) # w)"
proof -
  have low: "view_at v x = None" if "x < m" for x using v that by (rule view_at_above)
  have wlow: "\<forall>r\<in>set w. m \<le> fstart r" using w v by (auto simp: fills_def)
  show ?thesis
    using w assms(3,4) wlow low
    by (auto simp: fills_def makes_ranges_fields(1-3) [OF mk] mk_contains [OF mk] gap_at_mk [OF mk]
        split: option.split)
qed

lemma fills_behind:
  assumes w: "fills mk c rs (fend r) stop w" and r: "flat_ok (r # rs)"
    and "fstart r \<le> base" "base \<le> fend r"
  shows "fills mk c (r # rs) base stop (r # w)"
proof -
  have wlow: "\<forall>s\<in>set w. fend r \<le> fstart s" using w r by (auto simp: fills_def)
  have low: "view_at rs x = None" if "x < fend r" for x using r that by (intro view_at_above) auto
  show ?thesis
    using w r assms(3,4) wlow low
    by (auto simp: fills_def addrrange_contains_def split: option.split)
qed

lemma fills_skip:
  assumes w: "fills mk c rs base stop w" and r: "flat_ok (r # rs)" and "fend r \<le> base"
  shows "fills mk c (r # rs) base stop (r # w)"
  using assms by (auto simp: fills_def addrrange_contains_def split: option.split)

lemma gaps_filled_fills:
  assumes mk: "makes_ranges mk"
  shows "flat_ok v \<Longrightarrow> base \<le> stop \<Longrightarrow> no_straddle v base \<Longrightarrow>
    fills mk c v base stop (gaps_filled mk v base (stop - base) (c + base))"
proof (induction v arbitrary: base)
  case Nil
  have "fills mk c [] base stop [mk (c + base) base (stop - base)]" if "base < stop"
    by (rule fills_front [OF mk fills_same]) (use that in simp_all)
  with Nil show ?case by (cases "base = stop") (simp_all add: fills_same)
next
  case (Cons r rs)
  have size: "0 < ar_size (fr_addr r)" and rs: "flat_ok rs" using Cons.prems by simp_all
  then have lt: "fstart r < fend r" by (simp add: addrrange_end_def)
  show ?case
  proof (cases "base = stop")
    case True
    then show ?thesis using Cons.prems by (simp add: fills_same del: flat_ok_Cons)
  next
    case False
    then have bs: "base < stop" using Cons.prems by simp
    show ?thesis
    proof (cases "fend r \<le> base")
      case True
      have "fills mk c rs base stop (gaps_filled mk rs base (stop - base) (c + base))"
        using Cons.prems rs by (intro Cons.IH) (auto simp: no_straddle_def)
      with True False Cons.prems show ?thesis by (simp add: fills_skip)
    next
      case e: False
      then have b: "base \<le> fstart r" using Cons.prems(3) by (auto simp: no_straddle_def)
      let ?rest = "if stop \<le> fend r then r # rs else r # gaps_filled mk rs (fend r) (stop - fend r) (c + fend r)"
      have rest: "fills mk c (r # rs) (fstart r) stop ?rest"
      proof (cases "stop \<le> fend r")
        case True
        then show ?thesis using Cons.prems(1) by (simp add: fills_cover del: flat_ok_Cons)
      next
        case False
        have "no_straddle rs (fend r)" using Cons.prems(1) by (fastforce simp: no_straddle_def)
        then have "fills mk c rs (fend r) stop (gaps_filled mk rs (fend r) (stop - fend r) (c + fend r))"
          using False rs by (intro Cons.IH) auto
        then show ?thesis using False Cons.prems(1) lt by (simp add: fills_behind del: flat_ok_Cons)
      qed
      have above: "\<forall>s\<in>set (r # rs). fstart r \<le> fstart s"
        using Cons.prems(1) lt by fastforce
      show ?thesis
      proof (cases "stop \<le> fstart r")
        case True
        then have "\<forall>s\<in>set (r # rs). stop \<le> fstart s" using above by fastforce
        from fills_front [OF mk fills_same bs _ this] Cons.prems(1) True b size bs show ?thesis
          by (simp add: gaps_filled_step del: flat_ok_Cons gaps_filled.simps)
      next
        case False
        show ?thesis
        proof (cases "base < fstart r")
          case True
          from fills_front [OF mk rest True _ above] False b size bs True show ?thesis
            by (simp add: gaps_filled_step del: flat_ok_Cons gaps_filled.simps)
        next
          case n: False
          then have "base = fstart r" using b by simp
          with rest False size bs show ?thesis
            by (simp add: gaps_filled_step del: flat_ok_Cons gaps_filled.simps)
        qed
      qed
    qed
  qed
qed

section \<open>Merging\<close>

text \<open>The range that has grown so far stands for the same addresses as the ranges it swallowed.\<close>

definition merged :: "FlatRange \<Rightarrow> FlatRange \<Rightarrow> bool" where
  "merged a p \<longleftrightarrow> fend a = fend p \<and> fstart a \<le> fstart p \<and> fr_mr a = fr_mr p
     \<and> fr_offset_in_region a - fstart a = fr_offset_in_region p - fstart p
     \<and> fr_dirty_log_mask a = fr_dirty_log_mask p \<and> fr_readable a = fr_readable p \<and> fr_readonly a = fr_readonly p"

lemma merged_refl [simp]: "merged a a"
  by (simp add: merged_def)

lemma grow_fields [simp]:
  "fstart (grow a n) = fstart a" "fend (grow a n) = fend a + n" "ar_size (fr_addr (grow a n)) = ar_size (fr_addr a) + n"
  "fr_at (grow a n) x = fr_at a x" "fr_mr (grow a n) = fr_mr a" "fr_dirty_log_mask (grow a n) = fr_dirty_log_mask a"
  "fr_readable (grow a n) = fr_readable a" "fr_readonly (grow a n) = fr_readonly a"
  "fr_offset_in_region (grow a n) = fr_offset_in_region a"
  by (simp_all add: grow_def addrrange_end_def fr_at_def)

lemma merged_can_merge: "merged a p \<Longrightarrow> can_merge a y \<longleftrightarrow> can_merge p y"
  by (auto simp: merged_def can_merge_def addrrange_end_def)

lemma merged_grow:
  assumes "merged a p" and "can_merge p y" and "fstart p \<le> fend p"
  shows "merged (grow a (ar_size (fr_addr y))) y"
  using assms by (auto simp: merged_def can_merge_def addrrange_end_def)

lemma merged_at: "merged a p \<Longrightarrow> can_merge p y \<Longrightarrow> fr_at a x = fr_at y x"
  by (auto simp: merged_def can_merge_def addrrange_end_def fr_at_def)

lemma merge_from_ok:
  assumes "flat_ok (a # ys)" and "merged a p" and "fstart p \<le> fend p"
  shows "flat_ok (merge_from a p ys) \<and> (\<forall>s\<in>set (merge_from a p ys). fstart a \<le> fstart s)
    \<and> view_at (merge_from a p ys) = view_at (a # ys)"
  using assms
proof (induction a p ys rule: merge_from.induct)
  case (1 a p)
  then show ?case by simp
next
  case (2 a p y ys)
  have y: "fstart y \<le> fend y" using 2(3) by (simp add: addrrange_end_def)
  show ?case
  proof (cases "can_merge p y")
    case True
    let ?g = "grow a (ar_size (fr_addr y))"
    have e: "fend a = fstart y" using True 2(4) by (simp add: merged_def can_merge_def)
    then have ok: "flat_ok (?g # ys)" using 2(3) by (auto simp: addrrange_end_def)
    note ih = 2(1) [OF True ok merged_grow [OF 2(4) True 2(5)] y]
    have "view_at (?g # ys) x = view_at (a # y # ys) x" for x
      using e merged_at [OF 2(4) True, of x] 2(3) by (auto simp: addrrange_contains_def addrrange_end_def)
    then have "view_at (?g # ys) = view_at (a # y # ys)" by (rule ext)
    with ih True show ?thesis by simp
  next
    case False
    have "flat_ok (y # ys)" using 2(3) by simp
    note ih = 2(2) [OF False this merged_refl y]
    have le: "fend a \<le> fstart y" "fstart a \<le> fend a" using 2(3) by (auto simp: addrrange_end_def)
    have "view_at (a # merge_from y y ys) x = view_at (a # y # ys) x" for x using ih by simp
    with ih False 2(3) le show ?thesis by fastforce
  qed
qed

fun no_merges :: "FlatView \<Rightarrow> bool" where
  "no_merges (x # y # ys) \<longleftrightarrow> \<not> can_merge x y \<and> no_merges (y # ys)"
| "no_merges _ \<longleftrightarrow> True"

lemma merge_from_done:
  assumes "flat_ok (a # ys)" and "merged a p" and "fstart p \<le> fend p"
  shows "no_merges (merge_from a p ys) \<and>
    (\<exists>b bs. merge_from a p ys = b # bs \<and> (\<forall>z. fend z = fstart a \<longrightarrow> can_merge z b = can_merge z a))"
  using assms
proof (induction a p ys rule: merge_from.induct)
  case (1 a p)
  then show ?case by simp
next
  case (2 a p y ys)
  have y: "fstart y \<le> fend y" using 2(3) by (simp add: addrrange_end_def)
  show ?case
  proof (cases "can_merge p y")
    case True
    let ?g = "grow a (ar_size (fr_addr y))"
    have "fend a = fstart y" using True 2(4) by (simp add: merged_def can_merge_def)
    then have ok: "flat_ok (?g # ys)" using 2(3) by (auto simp: addrrange_end_def)
    have "can_merge z ?g = can_merge z a" for z by (simp add: can_merge_def)
    with 2(1) [OF True ok merged_grow [OF 2(4) True 2(5)] y] True show ?thesis by auto
  next
    case False
    have "flat_ok (y # ys)" using 2(3) by simp
    note ih = 2(2) [OF False this merged_refl y]
    then obtain b bs where b: "merge_from y y ys = b # bs" "\<forall>z. fend z = fstart y \<longrightarrow> can_merge z b = can_merge z y"
      by blast
    have "\<not> can_merge a b"
    proof
      assume "can_merge a b"
      show False
      proof (cases "fend a = fstart y")
        case True
        with \<open>can_merge a b\<close> b(2) False merged_can_merge [OF 2(4)] show False by blast
      next
        case ne: False
        have "fstart y \<le> fstart b" using merge_from_ok [OF \<open>flat_ok (y # ys)\<close> merged_refl y] b(1) by simp
        moreover have "fend a < fstart y" using ne 2(3) by auto
        ultimately show False using \<open>can_merge a b\<close> by (simp add: can_merge_def)
      qed
    qed
    with ih b(1) False show ?thesis by simp
  qed
qed

lemma flatview_simplify_ok:
  assumes "flat_ok v"
  shows "flat_ok (flatview_simplify v)" and "view_at (flatview_simplify v) = view_at v"
    and "no_merges (flatview_simplify v)"
proof -
  have "flat_ok (flatview_simplify v) \<and> view_at (flatview_simplify v) = view_at v
      \<and> no_merges (flatview_simplify v)"
  proof (cases v)
    case (Cons x xs)
    with assms have ok: "flat_ok (x # xs)" by simp
    then have le: "fstart x \<le> fend x" by (simp add: addrrange_end_def)
    from merge_from_ok [OF ok merged_refl le] merge_from_done [OF ok merged_refl le] Cons
    show ?thesis by (simp only: flatview_simplify.simps)
  qed simp
  then show "flat_ok (flatview_simplify v)" "view_at (flatview_simplify v) = view_at v"
    "no_merges (flatview_simplify v)" by blast+
qed

section \<open>What the listeners are told\<close>

text \<open>The events of the passes when no assertion fails.\<close>

definition both_diff :: "bool \<Rightarrow> FlatRange \<Rightarrow> FlatRange \<Rightarrow> topology_event list" where
  "both_diff adding frold frnew =
     (if adding
      then Region_nop frnew #
        (if fr_dirty_log_mask frold \<noteq> 0 \<and> fr_dirty_log_mask frnew = 0 then [Log_stop frnew]
         else if fr_dirty_log_mask frnew \<noteq> 0 \<and> fr_dirty_log_mask frold = 0 then [Log_start frnew]
         else [])
      else [])"

fun topology_diff :: "bool \<Rightarrow> FlatView \<Rightarrow> FlatView \<Rightarrow> topology_event list" where
  "topology_diff adding [] [] = []"
| "topology_diff adding (o1 # olds) [] =
     (if adding then [] else [Region_del o1]) @ topology_diff adding olds []"
| "topology_diff adding [] (n1 # news) =
     (if adding then [Region_add n1] else []) @ topology_diff adding [] news"
| "topology_diff adding (o1 # olds) (n1 # news) =
     (if ar_start (fr_addr o1) < ar_start (fr_addr n1)
         \<or> ar_start (fr_addr o1) = ar_start (fr_addr n1) \<and> \<not> flatrange_equal o1 n1
      then (if adding then [] else [Region_del o1]) @ topology_diff adding olds (n1 # news)
      else if flatrange_equal o1 n1
      then both_diff adding o1 n1 @ topology_diff adding olds news
      else (if adding then [Region_add n1] else []) @ topology_diff adding (o1 # olds) news)"

text \<open>A range the listeners can be told of: start and size are 64-bit numbers.\<close>

definition fits64 :: "FlatRange \<Rightarrow> bool" where
  "fits64 r \<longleftrightarrow> 0 \<le> fstart r \<and> fstart r < 2 ^ 64 \<and> 0 \<le> ar_size (fr_addr r) \<and> ar_size (fr_addr r) < 2 ^ 64"

fun event_range :: "topology_event \<Rightarrow> FlatRange" where
  "event_range (Region_del r) = r"
| "event_range (Region_add r) = r"
| "event_range (Region_nop r) = r"
| "event_range (Log_stop r) = r"
| "event_range (Log_start r) = r"

definition told_ok :: "topology_event list \<Rightarrow> topology_event list option" where
  "told_ok es = (if \<forall>e\<in>set es. fits64 (event_range e) then Some es else None)"

lemma told_ok_append: "told_ok (xs @ ys) = and_then (told_ok xs) (told_ok ys)"
  by (auto simp: told_ok_def and_then_def)

lemma told_ok_Nil: "told_ok [] = Some []"
  by (simp add: told_ok_def)

lemma update_region_ok:
  "update_region Region_del r = told_ok [Region_del r]" "update_region Region_add r = told_ok [Region_add r]"
  "update_region Region_nop r = told_ok [Region_nop r]" "update_region Log_stop r = told_ok [Log_stop r]"
  "update_region Log_start r = told_ok [Log_start r]"
  by (auto simp: update_region_def told_ok_def fits64_def get64_def)

lemma both_events_ok: "both_events ad a b = told_ok (both_diff ad a b)"
proof -
  have c: "told_ok (x # xs) = and_then (told_ok [x]) (told_ok xs)" for x xs
    using told_ok_append [of "[x]" xs] by simp
  show ?thesis
    by (simp add: both_events_def both_diff_def update_region_ok told_ok_Nil c [of _ "[_]"])
      (simp add: and_then_def told_ok_def)
qed

lemma topology_pass_ok: "topology_pass ad olds news = told_ok (topology_diff ad olds news)"
proof (induction ad olds news rule: topology_pass.induct)
  case (4 ad o1 olds n1 news)
  let ?before = "fstart o1 < fstart n1 \<or> fstart o1 = fstart n1 \<and> \<not> flatrange_equal o1 n1"
  consider ?before | "\<not> ?before" "flatrange_equal o1 n1" | "\<not> ?before" "\<not> flatrange_equal o1 n1" by blast
  then show ?case
    by cases (simp_all add: 4 told_ok_append both_events_ok update_region_ok told_ok_Nil)
qed (simp_all add: told_ok_append update_region_ok told_ok_Nil)

text \<open>Two ranges are the same to the listeners when they differ in the dirty log mask at most.\<close>

definition fr_key :: "FlatRange \<Rightarrow> FlatRange" where
  "fr_key r = r\<lparr>fr_dirty_log_mask := 0\<rparr>"

lemma flatrange_equal_key: "flatrange_equal a b \<longleftrightarrow> fr_key a = fr_key b"
  by (cases a; cases b; cases "fr_addr a"; cases "fr_addr b")
    (auto simp: flatrange_equal_def fr_key_def addrrange_equal_def)

lemma fr_key_start: "fr_key a = fr_key b \<Longrightarrow> fstart a = fstart b"
  by (drule arg_cong [where f = "\<lambda>r. fstart r"]) (simp add: fr_key_def)

definition dels :: "topology_event list \<Rightarrow> FlatView" where
  "dels es = concat (map (\<lambda>e. case e of Region_del r \<Rightarrow> [r] | _ \<Rightarrow> []) es)"

definition adds :: "topology_event list \<Rightarrow> FlatView" where
  "adds es = concat (map (\<lambda>e. case e of Region_add r \<Rightarrow> [r] | _ \<Rightarrow> []) es)"

lemma event_simps [simp]:
  "dels [] = []" "adds [] = []" "dels (xs @ ys) = dels xs @ dels ys" "adds (xs @ ys) = adds xs @ adds ys"
  "dels (Region_del r # es) = r # dels es" "adds (Region_del r # es) = adds es"
  "dels (Region_add r # es) = dels es" "adds (Region_add r # es) = r # adds es"
  "dels (both_diff ad a b) = []" "adds (both_diff ad a b) = []"
  by (auto simp: dels_def adds_def both_diff_def split: topology_event.splits if_splits)

abbreviation news_of :: "FlatView \<Rightarrow> FlatView \<Rightarrow> FlatView" where
  "news_of xs ys \<equiv> filter (\<lambda>r. fr_key r \<notin> fr_key ` set ys) xs"

lemma news_of_skip: "\<forall>x\<in>set xs. fr_key x \<noteq> fr_key y \<Longrightarrow> news_of xs (y # ys) = news_of xs ys"
  by (induction xs) auto

lemma flat_ok_starts:
  "flat_ok (x # xs) \<Longrightarrow> \<forall>y\<in>set xs. fstart x < fstart y"
  by (fastforce simp: addrrange_end_def)

lemma key_absent:
  assumes "flat_ok (n # ns)" and "fstart x < fstart n \<or> fstart x = fstart n \<and> \<not> flatrange_equal x n"
  shows "\<forall>y\<in>set (n # ns). fr_key y \<noteq> fr_key x"
proof
  fix y
  assume y: "y \<in> set (n # ns)"
  show "fr_key y \<noteq> fr_key x"
  proof
    assume k: "fr_key y = fr_key x"
    then have e: "fstart y = fstart x" by (rule fr_key_start)
    show False
    proof (cases "y = n")
      case True
      with k e assms(2) show False by (simp add: flatrange_equal_key)
    next
      case False
      then have "fstart n < fstart y" using y flat_ok_starts [OF assms(1)] by simp
      with e assms(2) show False by linarith
    qed
  qed
qed

lemma topology_diff_events:
  assumes "flat_ok olds" and "flat_ok news"
  shows "dels (topology_diff ad olds news) = (if ad then [] else news_of olds news) \<and>
    adds (topology_diff ad olds news) = (if ad then news_of news olds else [])"
  using assms
proof (induction ad olds news rule: topology_diff.induct)
  case (4 ad o1 olds n1 news)
  note so = flat_ok_starts [OF 4(4)] and sn = flat_ok_starts [OF 4(5)]
  have ok: "flat_ok olds" "flat_ok news" using 4(4,5) by simp_all
  consider (before) "fstart o1 < fstart n1 \<or> fstart o1 = fstart n1 \<and> \<not> flatrange_equal o1 n1"
    | (same) "flatrange_equal o1 n1"
    | (after) "fstart n1 < fstart o1" "\<not> flatrange_equal o1 n1"
    by linarith
  then show ?case
  proof cases
    case before
    have ne: "\<forall>y\<in>set (n1 # news). fr_key y \<noteq> fr_key o1"
      using 4(5) before by (rule key_absent)
    then have "fr_key o1 \<notin> fr_key ` set (n1 # news)" by (metis imageE)
    then have o: "news_of (o1 # olds) (n1 # news) = o1 # news_of olds (n1 # news)"
      by (simp only: filter.simps if_True not_False_eq_True)
    have e: "topology_diff ad (o1 # olds) (n1 # news) =
        (if ad then [] else [Region_del o1]) @ topology_diff ad olds (n1 # news)"
      by (simp only: topology_diff.simps before if_True)
    show ?thesis
      unfolding e o news_of_skip [OF ne] event_simps(3,4)
      using 4(1) [OF before ok(1) 4(5)] by (cases ad) (simp_all only: if_True if_False event_simps append_Nil append_Cons simp_thms)
  next
    case same
    then have k: "fr_key o1 = fr_key n1" by (simp add: flatrange_equal_key)
    then have st: "fstart o1 = fstart n1" by (rule fr_key_start)
    then have nb: "\<not> (fstart o1 < fstart n1 \<or> fstart o1 = fstart n1 \<and> \<not> flatrange_equal o1 n1)"
      using same by simp
    have s1: "\<forall>y\<in>set olds. fr_key y \<noteq> fr_key n1" using so st fr_key_start by (metis less_irrefl)
    have s2: "\<forall>y\<in>set news. fr_key y \<noteq> fr_key o1" using sn st fr_key_start by (metis less_irrefl)
    have o: "news_of (o1 # olds) (n1 # news) = news_of olds news"
      using k news_of_skip [OF s1, of news] by (simp only: filter.simps) simp
    have n: "news_of (n1 # news) (o1 # olds) = news_of news olds"
      using k news_of_skip [OF s2, of olds] by (simp only: filter.simps) simp
    have e: "topology_diff ad (o1 # olds) (n1 # news) = both_diff ad o1 n1 @ topology_diff ad olds news"
      by (subst topology_diff.simps(4), subst if_not_P [OF nb], subst if_P [OF same]) (rule refl)
    show ?thesis
      unfolding e o n event_simps(3,4,9,10) append_Nil using 4(2) [OF nb same ok] .
  next
    case after
    have ne: "\<forall>y\<in>set (o1 # olds). fr_key y \<noteq> fr_key n1"
      using 4(4) after(1) by (intro key_absent) simp_all
    then have "fr_key n1 \<notin> fr_key ` set (o1 # olds)" by (metis imageE)
    then have n: "news_of (n1 # news) (o1 # olds) = n1 # news_of news (o1 # olds)"
      by (simp only: filter.simps if_True not_False_eq_True)
    have nb: "\<not> (fstart o1 < fstart n1 \<or> fstart o1 = fstart n1 \<and> \<not> flatrange_equal o1 n1)"
      using after(1) by simp
    have e: "topology_diff ad (o1 # olds) (n1 # news) =
        (if ad then [Region_add n1] else []) @ topology_diff ad (o1 # olds) news"
      by (subst topology_diff.simps(4), subst if_not_P [OF nb], subst if_not_P [OF after(2)]) (rule refl)
    show ?thesis
      unfolding e n news_of_skip [OF ne] event_simps(3,4)
      using 4(3) [OF nb after(2) 4(4) ok(2)]
      by (cases ad) (simp_all only: if_True if_False event_simps append_Nil append_Cons simp_thms)
  qed
qed auto

text \<open>The ranges that stay: told again, and of logging only when it is switched on or off as a whole.\<close>

definition kept :: "FlatView \<Rightarrow> FlatView \<Rightarrow> (FlatRange \<times> FlatRange) set" where
  "kept olds news = {(a, b). a \<in> set olds \<and> b \<in> set news \<and> flatrange_equal a b}"

definition kept_events :: "FlatView \<Rightarrow> FlatView \<Rightarrow> topology_event set" where
  "kept_events olds news = (\<Union>(a, b)\<in>kept olds news. set (both_diff True a b))"

lemma kept_simps:
  "kept [] news = {}" "kept olds [] = {}"
  "\<forall>y\<in>set news. fr_key y \<noteq> fr_key x \<Longrightarrow> kept (x # olds) news = kept olds news"
  "\<forall>y\<in>set olds. fr_key y \<noteq> fr_key x \<Longrightarrow> kept olds (x # news) = kept olds news"
  by (auto simp: kept_def flatrange_equal_key)

lemma topology_diff_kept:
  assumes "flat_ok olds" and "flat_ok news"
  shows "set (topology_diff ad olds news) =
    Region_del ` set (dels (topology_diff ad olds news)) \<union> Region_add ` set (adds (topology_diff ad olds news)) \<union>
    (if ad then kept_events olds news else {})"
  using assms
proof (induction ad olds news rule: topology_diff.induct)
  case (4 ad o1 olds n1 news)
  note so = flat_ok_starts [OF 4(4)] and sn = flat_ok_starts [OF 4(5)]
  have ok: "flat_ok olds" "flat_ok news" using 4(4,5) by simp_all
  consider (before) "fstart o1 < fstart n1 \<or> fstart o1 = fstart n1 \<and> \<not> flatrange_equal o1 n1"
    | (same) "flatrange_equal o1 n1"
    | (after) "fstart n1 < fstart o1" "\<not> flatrange_equal o1 n1"
    by linarith
  then show ?case
  proof cases
    case before
    have "kept (o1 # olds) (n1 # news) = kept olds (n1 # news)"
      by (rule kept_simps(3) [OF key_absent [OF 4(5) before]])
    with 4(1) [OF before ok(1) 4(5)] before show ?thesis by (auto simp: kept_events_def)
  next
    case same
    then have k: "fr_key o1 = fr_key n1" by (simp add: flatrange_equal_key)
    then have st: "fstart o1 = fstart n1" by (rule fr_key_start)
    then have nb: "\<not> (fstart o1 < fstart n1 \<or> fstart o1 = fstart n1 \<and> \<not> flatrange_equal o1 n1)"
      using same by simp
    have s1: "\<forall>y\<in>set olds. fr_key y \<noteq> fr_key n1" using so st fr_key_start by (metis less_irrefl)
    have s2: "\<forall>y\<in>set news. fr_key y \<noteq> fr_key o1" using sn st fr_key_start by (metis less_irrefl)
    have "kept (o1 # olds) (n1 # news) = insert (o1, n1) (kept olds news)"
      using same s1 s2 k by (auto simp: kept_def flatrange_equal_key)
    moreover have "both_diff False o1 n1 = []" by (simp add: both_diff_def)
    ultimately show ?thesis
      using 4(2) [OF nb same ok] nb same by (cases ad) (auto simp: kept_events_def)
  next
    case after
    have ne: "\<forall>y\<in>set (o1 # olds). fr_key y \<noteq> fr_key n1"
      using 4(4) after(1) by (intro key_absent) simp_all
    have nb: "\<not> (fstart o1 < fstart n1 \<or> fstart o1 = fstart n1 \<and> \<not> flatrange_equal o1 n1)"
      using after(1) by simp
    have "kept (o1 # olds) (n1 # news) = kept (o1 # olds) news"
      by (rule kept_simps(4) [OF ne])
    with 4(3) [OF nb after(2) 4(4) ok(2)] nb after(2) show ?thesis by (auto simp: kept_events_def)
  qed
qed (auto simp: kept_events_def kept_simps(1,2))

lemma kept_event:
  "Log_start r \<in> kept_events olds news \<longleftrightarrow>
     r \<in> set news \<and> fr_dirty_log_mask r \<noteq> 0 \<and> (\<exists>a\<in>set olds. flatrange_equal a r \<and> fr_dirty_log_mask a = 0)"
  "Log_stop r \<in> kept_events olds news \<longleftrightarrow>
     r \<in> set news \<and> fr_dirty_log_mask r = 0 \<and> (\<exists>a\<in>set olds. flatrange_equal a r \<and> fr_dirty_log_mask a \<noteq> 0)"
  "Region_nop r \<in> kept_events olds news \<longleftrightarrow> r \<in> set news \<and> (\<exists>a\<in>set olds. flatrange_equal a r)"
  by (force simp: kept_events_def kept_def both_diff_def split: if_splits)+

section \<open>Lookup\<close>

lemma bsearch_correct:
  assumes "base + lim \<le> length xs"
    and "\<And>i j. i \<le> j \<Longrightarrow> j < length xs \<Longrightarrow> cmp (xs ! j) \<le> cmp (xs ! i)"
  shows "case bsearch cmp xs base lim of
      Some p \<Rightarrow> p < length xs \<and> cmp (xs ! p) = 0
    | None \<Rightarrow> \<forall>i. base \<le> i \<and> i < base + lim \<longrightarrow> cmp (xs ! i) \<noteq> 0"
  using assms
proof (induction cmp xs base lim rule: bsearch.induct)
  case (1 cmp xs base lim)
  let ?p = "base + lim div 2"
  note mono = 1(4)
  show ?case
  proof (cases "lim = 0")
    case True
    then show ?thesis by (simp add: bsearch.simps)
  next
    case False
    then have p: "?p < length xs" using 1(3) by linarith
    consider (eq) "cmp (xs ! ?p) = 0" | (gt) "0 < cmp (xs ! ?p)" | (lt) "cmp (xs ! ?p) < 0" by linarith
    then show ?thesis
    proof cases
      case eq
      then show ?thesis using False p by (simp add: bsearch.simps [of cmp xs base lim])
    next
      case gt
      have len: "?p + 1 + (lim - 1) div 2 = base + lim" using False by linarith
      have low: "cmp (xs ! i) \<noteq> 0" if "i \<le> ?p" for i using mono [OF that p] gt by linarith
      have e: "bsearch cmp xs base lim = bsearch cmp xs (?p + 1) ((lim - 1) div 2)"
        using False gt by (subst bsearch.simps) (simp add: Let_def)
      have ih: "case bsearch cmp xs (?p + 1) ((lim - 1) div 2) of
          Some p \<Rightarrow> p < length xs \<and> cmp (xs ! p) = 0
        | None \<Rightarrow> \<forall>i. ?p + 1 \<le> i \<and> i < ?p + 1 + (lim - 1) div 2 \<longrightarrow> cmp (xs ! i) \<noteq> 0"
        using 1(1) [OF False refl refl] gt len 1(3) mono by simp
      show ?thesis
      proof (cases "bsearch cmp xs (?p + 1) ((lim - 1) div 2)")
        case None
        with ih len have "\<forall>i. ?p + 1 \<le> i \<and> i < base + lim \<longrightarrow> cmp (xs ! i) \<noteq> 0" by simp
        with low have "\<forall>i. base \<le> i \<and> i < base + lim \<longrightarrow> cmp (xs ! i) \<noteq> 0"
          by (metis Suc_eq_plus1 not_less_eq_eq)
        with e None show ?thesis by simp
      qed (use ih e in simp)
    next
      case lt
      have high: "cmp (xs ! i) \<noteq> 0" if "?p \<le> i" "i < base + lim" for i
        using mono [OF that(1)] that(2) lt 1(3) by fastforce
      have e: "bsearch cmp xs base lim = bsearch cmp xs base (lim div 2)"
        using False lt by (subst bsearch.simps) (simp add: Let_def)
      have ih: "case bsearch cmp xs base (lim div 2) of
          Some p \<Rightarrow> p < length xs \<and> cmp (xs ! p) = 0
        | None \<Rightarrow> \<forall>i. base \<le> i \<and> i < ?p \<longrightarrow> cmp (xs ! i) \<noteq> 0"
        using 1(2) [OF False refl refl] lt 1(3) mono by simp
      show ?thesis
      proof (cases "bsearch cmp xs base (lim div 2)")
        case None
        with ih have "\<forall>i. base \<le> i \<and> i < ?p \<longrightarrow> cmp (xs ! i) \<noteq> 0" by simp
        with high have "\<forall>i. base \<le> i \<and> i < base + lim \<longrightarrow> cmp (xs ! i) \<noteq> 0" by (metis not_less)
        with e None show ?thesis by simp
      qed (use ih e in simp)
    qed
  qed
qed

lemma flat_ok_nth:
  assumes "flat_ok v" and "i < j" and "j < length v"
  shows "fend (v ! i) \<le> fstart (v ! j)" and "fstart (v ! i) < fend (v ! i)" and "fstart (v ! j) < fend (v ! j)"
  using assms sorted_wrt_nth_less [of "\<lambda>a b. fend a \<le> fstart b" v i j]
  by (auto simp: flat_ok_def addrrange_end_def)

lemma cmp_zero:
  assumes "0 < ar_size a" and "0 < ar_size (fr_addr r)"
  shows "cmp_flatrange_addr a r = 0 \<longleftrightarrow> addrrange_intersects (fr_addr r) a"
  using assms by (auto simp: cmp_flatrange_addr_def range_defs)

lemma cmp_mono:
  assumes "flat_ok v" and "0 < ar_size a" and "i \<le> j" and "j < length v"
  shows "cmp_flatrange_addr a (v ! j) \<le> cmp_flatrange_addr a (v ! i)"
proof (cases "i = j")
  case False
  then have "i < j" using assms(3) by simp
  from flat_ok_nth [OF assms(1) this assms(4)] assms(2) show ?thesis
    by (auto simp: cmp_flatrange_addr_def addrrange_end_def)
qed simp

lemma step_back_first:
  assumes "i < length v" and "addrrange_intersects (fr_addr (v ! i)) a"
    and "\<And>k j. k \<le> j \<Longrightarrow> j \<le> i \<Longrightarrow> addrrange_intersects (fr_addr (v ! k)) a \<Longrightarrow> addrrange_intersects (fr_addr (v ! j)) a"
  shows "step_back v a i \<le> i \<and> addrrange_intersects (fr_addr (v ! step_back v a i)) a
    \<and> (\<forall>k < step_back v a i. \<not> addrrange_intersects (fr_addr (v ! k)) a)"
  using assms
proof (induction i)
  case 0
  then show ?case by simp
next
  case (Suc i)
  show ?case
  proof (cases "addrrange_intersects (fr_addr (v ! i)) a")
    case True
    then have "step_back v a i \<le> i \<and> addrrange_intersects (fr_addr (v ! step_back v a i)) a
        \<and> (\<forall>k < step_back v a i. \<not> addrrange_intersects (fr_addr (v ! k)) a)"
      using Suc.prems by (intro Suc.IH) auto
    with True show ?thesis by simp
  next
    case False
    have "\<not> addrrange_intersects (fr_addr (v ! k)) a" if "k < Suc i" for k
      using Suc.prems(3) [of k i] that False by auto
    with False Suc.prems(2) show ?thesis by simp
  qed
qed

definition section_of :: "FlatRange \<Rightarrow> AddrRange \<Rightarrow> MemoryRegionSection" where
  "section_of fr q = \<lparr>sec_mr = Some (fr_mr fr),
     sec_offset_within_region = fr_offset_in_region fr + (max (ar_start q) (fstart fr) - fstart fr),
     sec_size = min (addrrange_end q) (fend fr) - max (ar_start q) (fstart fr),
     sec_offset_within_address_space = max (ar_start q) (fstart fr), sec_readonly = fr_readonly fr\<rparr>"

lemma memory_region_find_first:
  fixes addr n :: int
  assumes ok: "flat_ok v" and n: "0 < n"
  defines "q \<equiv> addrrange_make addr n"
  shows "memory_region_find v addr n =
    (case find (\<lambda>r. addrrange_intersects (fr_addr r) q) v of
       None \<Rightarrow> \<lparr>sec_mr = None, sec_offset_within_region = 0, sec_size = 0,
               sec_offset_within_address_space = 0, sec_readonly = False\<rparr>
     | Some r \<Rightarrow> section_of r q)"
proof -
  have q: "0 < ar_size q" using n by (simp add: q_def addrrange_make_def)
  let ?P = "\<lambda>r. addrrange_intersects (fr_addr r) q"
  have z: "cmp_flatrange_addr q (v ! i) = 0 \<longleftrightarrow> ?P (v ! i)" if "i < length v" for i
    using ok that by (intro cmp_zero [OF q]) (simp add: flat_ok_def)
  note search = bsearch_correct [of 0 "length v" v "cmp_flatrange_addr q", OF _ cmp_mono [OF ok q], simplified]
  show ?thesis
  proof (cases "address_space_lookup v q")
    case None
    then have "\<forall>i<length v. \<not> ?P (v ! i)" using search z by (simp add: address_space_lookup_def)
    then have "find ?P v = None" by (metis find_None_iff in_set_conv_nth)
    with None show ?thesis by (simp add: memory_region_find_def q_def)
  next
    case (Some i)
    then have hit: "i < length v" "cmp_flatrange_addr q (v ! i) = 0"
      using search by (simp_all add: address_space_lookup_def)
    then have i: "i < length v" "?P (v ! i)" using z by blast+
    have up: "?P (v ! j)" if "k \<le> j" "j \<le> i" "?P (v ! k)" for k j
    proof -
      have "cmp_flatrange_addr q (v ! j) \<le> 0" "0 \<le> cmp_flatrange_addr q (v ! j)"
        using cmp_mono [OF ok q that(1)] cmp_mono [OF ok q that(2) i(1)] that i z [of k] z [of i] by auto
      then show ?thesis using z [of j] that(2) i(1) by simp
    qed
    let ?f = "step_back v q i"
    have "?f \<le> i \<and> ?P (v ! ?f) \<and> (\<forall>k < ?f. \<not> ?P (v ! k))"
      by (rule step_back_first [OF i]) (rule up)
    then have f: "?f \<le> i" "?P (v ! ?f)" "\<forall>k < ?f. \<not> ?P (v ! k)" by blast+
    then have "find ?P v = Some (v ! ?f)" using i(1) by (auto simp: find_Some_iff intro!: exI [of _ ?f])
    with Some show ?thesis
      by (simp add: memory_region_find_def q_def section_of_def addrrange_intersection_def addrrange_make_def Let_def)
  qed
qed

lemma section_fits:
  assumes "addrrange_intersects (fr_addr r) q" and "0 < ar_size q" "0 < ar_size (fr_addr r)"
    and "ar_size q < 2 ^ 64" "0 \<le> fstart r" "fend r \<le> 2 ^ 64"
  shows "get64 (sec_size (section_of r q)) \<noteq> None" "get64 (sec_offset_within_address_space (section_of r q)) \<noteq> None"
    "get64 (max (ar_start q) (fstart r) - fstart r) \<noteq> None"
  using assms by (auto simp: section_of_def get64_def range_defs)

section \<open>Properties\<close>

definition demo_range :: "nat \<Rightarrow> int \<Rightarrow> int \<Rightarrow> FlatRange" where
  "demo_range mr start n = \<lparr>fr_mr = mr, fr_offset_in_region = start, fr_addr = addrrange_make start n,
     fr_dirty_log_mask = 0, fr_readable = True, fr_readonly = False\<rparr>"

lemma demo_view: "flat_ok [demo_range 1 0 10, demo_range 1 10 5, demo_range 2 20 5]"
  by (simp add: demo_range_def range_defs)

text \<open>C22: [flatview_simplify_same] Merging adjacent ranges changes nothing an access can see, keeps the
  view sorted and disjoint, and leaves no two neighbours that could still be merged.\<close>

theorem flatview_simplify_same:
  assumes "flat_ok v"
  shows "flat_ok (flatview_simplify v) \<and> view_at (flatview_simplify v) = view_at v \<and>
    no_merges (flatview_simplify v)"
  using flatview_simplify_ok [OF assms] by blast

theorem flatview_simplify_same_witness:
  "view_at (flatview_simplify [demo_range 1 0 10, demo_range 1 10 5, demo_range 2 20 5]) 12 =
     Some (1, 12, 0, True, False)"
  using flatview_simplify_same [OF demo_view]
  by (simp add: demo_range_def range_defs fr_at_def)

text \<open>C24: [topology_update_events] When the map of an address space is replaced and the assertions on the
  64-bit starts and sizes of the ranges told of hold, the listeners are told to delete exactly the
  old ranges that the new map does not have up to the dirty log mask, then to add exactly the new
  ranges that the old map does not have up to that mask, in address order; what they hold after that
  is the new map up to the masks. A range that stays is told of again, and of its mask only that
  logging starts or stops: a change from one non-zero mask to another is told to nobody. The
  assertions hold when every range of both maps has a 64-bit start and size.\<close>

theorem topology_update_events:
  assumes "flat_ok olds" and "flat_ok news"
  shows "case (topology_pass False olds news, topology_pass True olds news) of
      (Some del, Some add) \<Rightarrow>
        dels (del @ add) = news_of olds news \<and> adds (del @ add) = news_of news olds \<and>
        adds del = [] \<and> dels add = [] \<and>
        (fr_key ` set olds - fr_key ` set (dels (del @ add))) \<union> fr_key ` set (adds (del @ add)) = fr_key ` set news \<and>
        set del = Region_del ` set (dels del) \<and>
        (\<forall>r. Region_nop r \<in> set add \<longleftrightarrow> r \<in> set news \<and> (\<exists>a\<in>set olds. flatrange_equal a r)) \<and>
        (\<forall>r. Log_start r \<in> set add \<longleftrightarrow> r \<in> set news \<and> fr_dirty_log_mask r \<noteq> 0 \<and>
           (\<exists>a\<in>set olds. flatrange_equal a r \<and> fr_dirty_log_mask a = 0)) \<and>
        (\<forall>r. Log_stop r \<in> set add \<longleftrightarrow> r \<in> set news \<and> fr_dirty_log_mask r = 0 \<and>
           (\<exists>a\<in>set olds. flatrange_equal a r \<and> fr_dirty_log_mask a \<noteq> 0))
    | _ \<Rightarrow> \<exists>r\<in>set olds \<union> set news. \<not> fits64 r"
proof -
  let ?del = "topology_diff False olds news" and ?add = "topology_diff True olds news"
  have d: "dels ?del = news_of olds news" "adds ?del = []" "dels ?add = []" "adds ?add = news_of news olds"
    using topology_diff_events [OF assms, of False] topology_diff_events [OF assms, of True] by simp_all
  have k: "fr_key ` set (news_of xs ys) = fr_key ` set xs - fr_key ` set ys" for xs ys by auto
  have del: "set ?del = Region_del ` set (news_of olds news)"
    using topology_diff_kept [OF assms, of False] unfolding d by simp
  have add: "set ?add = Region_add ` set (news_of news olds) \<union> kept_events olds news"
    using topology_diff_kept [OF assms, of True] unfolding d by simp
  have ends: "event_range ` set (?del @ ?add) \<subseteq> set olds \<union> set news"
    unfolding set_append del add by (auto simp: kept_events_def kept_def both_diff_def split: if_splits)
  have nop: "Region_nop r \<notin> Region_add ` X" "Log_start r \<notin> Region_add ` X" "Log_stop r \<notin> Region_add ` X" for r X
    by auto
  show ?thesis
  proof (cases "\<forall>e\<in>set (?del @ ?add). fits64 (event_range e)")
    case True
    then have "topology_pass False olds news = Some ?del" "topology_pass True olds news = Some ?add"
      by (auto simp: topology_pass_ok told_ok_def)
    moreover have "fr_key ` set olds - fr_key ` set (news_of olds news) \<union> fr_key ` set (news_of news olds) = fr_key ` set news"
      unfolding k by blast
    ultimately show ?thesis
      by (simp only: prod.case option.case event_simps(3,4) d append_Nil append_Nil2 del add Un_iff nop kept_event
          simp_thms)
  next
    case False
    then obtain e where "e \<in> set (?del @ ?add)" "\<not> fits64 (event_range e)" by blast
    then have "\<exists>r\<in>set olds \<union> set news. \<not> fits64 r" using ends by blast
    moreover have "topology_pass False olds news = None \<or> topology_pass True olds news = None"
      using False by (auto simp: topology_pass_ok told_ok_def)
    ultimately show ?thesis by (auto split: option.split)
  qed
qed

theorem topology_update_events_witness:
  "\<exists>del add. topology_pass False [demo_range 1 0 10] [demo_range 1 0 10, demo_range 2 20 5] = Some del \<and>
     topology_pass True [demo_range 1 0 10] [demo_range 1 0 10, demo_range 2 20 5] = Some add \<and>
     dels (del @ add) = [] \<and> adds (del @ add) = [demo_range 2 20 5] \<and> Region_nop (demo_range 1 0 10) \<in> set add"
proof -
  let ?olds = "[demo_range 1 0 10]" and ?news = "[demo_range 1 0 10, demo_range 2 20 5]"
  have "flat_ok ?olds" "flat_ok ?news"
    by (simp_all add: demo_range_def range_defs)
  note t = topology_update_events [OF this]
  have "fits64 (demo_range 1 0 10)" "fits64 (demo_range 2 20 5)"
    by (simp_all add: fits64_def demo_range_def range_defs)
  with t obtain del add where p: "topology_pass False ?olds ?news = Some del" "topology_pass True ?olds ?news = Some add"
    by (auto split: option.splits)
  have ne: "fr_key (demo_range 1 0 10) \<noteq> fr_key (demo_range 2 20 5)"
    by (simp add: demo_range_def fr_key_def)
  have "dels (del @ add) = news_of ?olds ?news" "adds (del @ add) = news_of ?news ?olds"
    "Region_nop (demo_range 1 0 10) \<in> set add \<longleftrightarrow> (\<exists>a\<in>set ?olds. flatrange_equal a (demo_range 1 0 10))"
    using t unfolding p prod.case option.case by (simp_all only: set_simps insert_iff simp_thms)
  with p ne show ?thesis
    by (intro exI [of _ del] exI [of _ add]) (simp add: flatrange_equal_key eq_commute del: event_simps(3,4))
qed

text \<open>C25: [memory_region_find_spec] The binary search and the steps back find the first range of the
  view that meets the query, and the section returned is their intersection; with no such range the
  result has no region.\<close>

theorem memory_region_find_spec:
  fixes addr n :: int
  assumes "flat_ok v" and "0 < n"
  shows "memory_region_find v addr n =
    (case find (\<lambda>r. addrrange_intersects (fr_addr r) (addrrange_make addr n)) v of
       None \<Rightarrow> \<lparr>sec_mr = None, sec_offset_within_region = 0, sec_size = 0,
               sec_offset_within_address_space = 0, sec_readonly = False\<rparr>
     | Some r \<Rightarrow> section_of r (addrrange_make addr n))"
  using assms by (rule memory_region_find_first)

theorem memory_region_find_spec_witness:
  "sec_mr (memory_region_find [demo_range 1 0 10, demo_range 1 10 5, demo_range 2 20 5] 12 20) = Some 1"
  using memory_region_find_spec [OF demo_view, of 20 12]
  by (simp add: demo_range_def range_defs section_of_def)

end
