(* ===== verification/Ioeventfd.thy ===== *)
theory Ioeventfd
  imports FlatView "HOL-Library.Multiset" "HOL-Library.Product_Lexorder"
begin

text \<open>
  I/O event file descriptors of the memory API (\<^verbatim>\<open>memory.c\<close>): their order, the sorted list a region
  keeps, the list of an address space built from its flat view, and what the listeners are told when that
  list changes.
\<close>

record MemoryRegionIoeventfd =
  ie_addr :: AddrRange
  ie_match_data :: bool
  ie_data :: u64
  ie_fd :: int

definition memory_region_ioeventfd_before :: "MemoryRegionIoeventfd \<Rightarrow> MemoryRegionIoeventfd \<Rightarrow> bool" where
  "memory_region_ioeventfd_before a b =
     (if ar_start (ie_addr a) < ar_start (ie_addr b) then True
      else if ar_start (ie_addr a) > ar_start (ie_addr b) then False
      else if ar_size (ie_addr a) < ar_size (ie_addr b) then True
      else if ar_size (ie_addr a) > ar_size (ie_addr b) then False
      else if ie_match_data a < ie_match_data b then True
      else if ie_match_data a > ie_match_data b then False
      else if ie_match_data a \<and> ie_data a < ie_data b then True
      else if ie_match_data a \<and> ie_data a > ie_data b then False
      else if ie_fd a < ie_fd b then True
      else False)"

definition memory_region_ioeventfd_equal :: "MemoryRegionIoeventfd \<Rightarrow> MemoryRegionIoeventfd \<Rightarrow> bool" where
  "memory_region_ioeventfd_equal a b \<longleftrightarrow>
     \<not> memory_region_ioeventfd_before a b \<and> \<not> memory_region_ioeventfd_before b a"

definition make_ioeventfd :: "u64 \<Rightarrow> u32 \<Rightarrow> bool \<Rightarrow> u64 \<Rightarrow> int \<Rightarrow> MemoryRegionIoeventfd" where
  "make_ioeventfd addr n match_data data fd =
     \<lparr>ie_addr = addrrange_make (uint addr) (uint n), ie_match_data = match_data, ie_data = data, ie_fd = fd\<rparr>"

text \<open>The new descriptor goes before the first one that it is before.\<close>

fun insert_ioeventfd :: "MemoryRegionIoeventfd \<Rightarrow> MemoryRegionIoeventfd list \<Rightarrow> MemoryRegionIoeventfd list" where
  "insert_ioeventfd e [] = [e]"
| "insert_ioeventfd e (x # xs) =
     (if memory_region_ioeventfd_before e x then e # x # xs else x # insert_ioeventfd e xs)"

text \<open>The first equal one is taken out; the assertion is that there is one.\<close>

fun remove_ioeventfd :: "MemoryRegionIoeventfd \<Rightarrow> MemoryRegionIoeventfd list \<Rightarrow> MemoryRegionIoeventfd list option" where
  "remove_ioeventfd e [] = None"
| "remove_ioeventfd e (x # xs) =
     (if memory_region_ioeventfd_equal e x then Some xs else map_option (Cons x) (remove_ioeventfd e xs))"

datatype eventfd_event = Eventfd_del MemoryRegionIoeventfd | Eventfd_add MemoryRegionIoeventfd

text \<open>The section of a notification holds the start and the size of the descriptor as 64-bit numbers.\<close>

definition update_eventfd :: "(MemoryRegionIoeventfd \<Rightarrow> eventfd_event) \<Rightarrow> MemoryRegionIoeventfd \<Rightarrow> eventfd_event list option" where
  "update_eventfd callback fd =
     (case (get64 (ar_start (ie_addr fd)), get64 (ar_size (ie_addr fd))) of
        (Some _, Some _) \<Rightarrow> Some [callback fd]
      | _ \<Rightarrow> None)"

fun address_space_add_del_ioeventfds ::
  "MemoryRegionIoeventfd list \<Rightarrow> MemoryRegionIoeventfd list \<Rightarrow> eventfd_event list option" where
  "address_space_add_del_ioeventfds [] [] = Some []"
| "address_space_add_del_ioeventfds [] (o1 # olds) =
     and_then (update_eventfd Eventfd_del o1) (address_space_add_del_ioeventfds [] olds)"
| "address_space_add_del_ioeventfds (n1 # news) [] =
     and_then (update_eventfd Eventfd_add n1) (address_space_add_del_ioeventfds news [])"
| "address_space_add_del_ioeventfds (n1 # news) (o1 # olds) =
     (if memory_region_ioeventfd_before o1 n1
      then and_then (update_eventfd Eventfd_del o1) (address_space_add_del_ioeventfds (n1 # news) olds)
      else if memory_region_ioeventfd_before n1 o1
      then and_then (update_eventfd Eventfd_add n1) (address_space_add_del_ioeventfds news (o1 # olds))
      else address_space_add_del_ioeventfds news olds)"

text \<open>The descriptors of the regions of a view, at their addresses in the address space; \<open>fds\<close> gives the
  list of a region.\<close>

definition shifted_ioeventfd :: "FlatRange \<Rightarrow> MemoryRegionIoeventfd \<Rightarrow> MemoryRegionIoeventfd list" where
  "shifted_ioeventfd fr e =
     (let tmp = addrrange_shift (ie_addr e) (ar_start (fr_addr fr) - fr_offset_in_region fr) in
      if addrrange_intersects (fr_addr fr) tmp then [e\<lparr>ie_addr := tmp\<rparr>] else [])"

definition view_ioeventfds :: "(nat \<Rightarrow> MemoryRegionIoeventfd list) \<Rightarrow> FlatView \<Rightarrow> MemoryRegionIoeventfd list" where
  "view_ioeventfds fds view = concat (map (\<lambda>fr. concat (map (shifted_ioeventfd fr) (fds (fr_mr fr)))) view)"

section \<open>The order\<close>

definition ie_key :: "MemoryRegionIoeventfd \<Rightarrow> int \<times> int \<times> bool \<times> u64 \<times> int" where
  "ie_key e = (ar_start (ie_addr e), ar_size (ie_addr e), ie_match_data e,
     if ie_match_data e then ie_data e else 0, ie_fd e)"

lemma before_key: "memory_region_ioeventfd_before a b \<longleftrightarrow> ie_key a < ie_key b"
  by (cases "ie_match_data a"; cases "ie_match_data b")
    (auto simp: memory_region_ioeventfd_before_def ie_key_def)

lemma equal_key: "memory_region_ioeventfd_equal a b \<longleftrightarrow> ie_key a = ie_key b"
  by (auto simp: memory_region_ioeventfd_equal_def before_key)

definition ie_dels :: "eventfd_event list \<Rightarrow> (int \<times> int \<times> bool \<times> u64 \<times> int) multiset" where
  "ie_dels es = mset (concat (map (\<lambda>ev. case ev of Eventfd_del e \<Rightarrow> [ie_key e] | Eventfd_add e \<Rightarrow> []) es))"

definition ie_adds :: "eventfd_event list \<Rightarrow> (int \<times> int \<times> bool \<times> u64 \<times> int) multiset" where
  "ie_adds es = mset (concat (map (\<lambda>ev. case ev of Eventfd_del e \<Rightarrow> [] | Eventfd_add e \<Rightarrow> [ie_key e]) es))"

lemma ie_events_simps [simp]:
  "ie_dels [] = {#}" "ie_adds [] = {#}"
  "ie_dels (Eventfd_del e # es) = add_mset (ie_key e) (ie_dels es)" "ie_adds (Eventfd_del e # es) = ie_adds es"
  "ie_dels (Eventfd_add e # es) = ie_dels es" "ie_adds (Eventfd_add e # es) = add_mset (ie_key e) (ie_adds es)"
  by (simp_all add: ie_dels_def ie_adds_def)

abbreviation ie_keys :: "MemoryRegionIoeventfd list \<Rightarrow> (int \<times> int \<times> bool \<times> u64 \<times> int) multiset" where
  "ie_keys es \<equiv> mset (map ie_key es)"

text \<open>The notifications when no assertion fails, and when that is so.\<close>

fun ioeventfd_diff ::
  "MemoryRegionIoeventfd list \<Rightarrow> MemoryRegionIoeventfd list \<Rightarrow> eventfd_event list" where
  "ioeventfd_diff [] [] = []"
| "ioeventfd_diff [] (o1 # olds) = Eventfd_del o1 # ioeventfd_diff [] olds"
| "ioeventfd_diff (n1 # news) [] = Eventfd_add n1 # ioeventfd_diff news []"
| "ioeventfd_diff (n1 # news) (o1 # olds) =
     (if memory_region_ioeventfd_before o1 n1
      then Eventfd_del o1 # ioeventfd_diff (n1 # news) olds
      else if memory_region_ioeventfd_before n1 o1
      then Eventfd_add n1 # ioeventfd_diff news (o1 # olds)
      else ioeventfd_diff news olds)"

definition fd_fits64 :: "MemoryRegionIoeventfd \<Rightarrow> bool" where
  "fd_fits64 e \<longleftrightarrow> get64 (ar_start (ie_addr e)) \<noteq> None \<and> get64 (ar_size (ie_addr e)) \<noteq> None"

fun event_fd :: "eventfd_event \<Rightarrow> MemoryRegionIoeventfd" where
  "event_fd (Eventfd_del e) = e"
| "event_fd (Eventfd_add e) = e"

lemma add_del_result:
  "address_space_add_del_ioeventfds news olds =
     (if \<forall>e\<in>set (ioeventfd_diff news olds). fd_fits64 (event_fd e) then Some (ioeventfd_diff news olds) else None)"
  by (induction news olds rule: ioeventfd_diff.induct)
    (simp_all add: and_then_def update_eventfd_def fd_fits64_def split: option.split)

lemma ioeventfd_diff_events: "x \<in> set (ioeventfd_diff news olds) \<Longrightarrow> event_fd x \<in> set news \<union> set olds"
  by (induction news olds rule: ioeventfd_diff.induct) (auto split: if_splits)

lemma add_del_balance:
  "ie_keys olds + ie_adds (ioeventfd_diff news olds) = ie_keys news + ie_dels (ioeventfd_diff news olds)"
  by (induction news olds rule: ioeventfd_diff.induct) (auto simp: before_key)

lemma less_all_notin:
  assumes "sorted (x # xs)" and "k < (x :: 'a::linorder)"
  shows "k \<notin> set (x # xs)"
  using assms by auto

lemma add_del_minimal:
  assumes "sorted (map ie_key olds)" and "sorted (map ie_key news)"
  shows "ie_dels (ioeventfd_diff news olds) = ie_keys olds - ie_keys news \<and>
    ie_adds (ioeventfd_diff news olds) = ie_keys news - ie_keys olds"
  using assms
proof (induction news olds rule: ioeventfd_diff.induct)
  case (4 n1 news o1 olds)
  show ?case
  proof (cases "ie_key o1 < ie_key n1")
    case True
    have "ie_key o1 \<notin> set (map ie_key (n1 # news))"
      using less_all_notin [of "ie_key n1" "map ie_key news" "ie_key o1"] 4 True by simp
    then have "ie_key o1 \<notin># ie_keys (n1 # news)" by simp
    with 4 True show ?thesis by (simp add: before_key)
  next
    case F: False
    show ?thesis
    proof (cases "ie_key n1 < ie_key o1")
      case True
      have "ie_key n1 \<notin> set (map ie_key (o1 # olds))"
        using less_all_notin [of "ie_key o1" "map ie_key olds" "ie_key n1"] 4 True by simp
      then have "ie_key n1 \<notin># ie_keys (o1 # olds)" by simp
      with 4 True F show ?thesis by (simp add: before_key)
    next
      case False
      with F have "ie_key n1 = ie_key o1" by simp
      with 4 show ?thesis by (simp add: before_key)
    qed
  qed
qed simp_all

lemma insert_ioeventfd_sorted:
  assumes "sorted (map ie_key xs)"
  shows "sorted (map ie_key (insert_ioeventfd e xs)) \<and> mset (insert_ioeventfd e xs) = add_mset e (mset xs)"
  using assms
proof (induction xs)
  case (Cons x xs)
  then have "set (insert_ioeventfd e xs) = insert e (set xs)"
    by (metis set_mset_add_mset_insert set_mset_mset sorted_simps(2) list.simps(9))
  with Cons show ?case by (auto simp: before_key not_less)
qed simp

lemma remove_ioeventfd_spec:
  "remove_ioeventfd e xs = (if ie_key e \<in> set (map ie_key xs)
     then Some (takeWhile (\<lambda>x. ie_key x \<noteq> ie_key e) xs @ tl (dropWhile (\<lambda>x. ie_key x \<noteq> ie_key e) xs)) else None)"
  by (induction xs) (auto simp: equal_key)

section \<open>Properties\<close>

text \<open>[ioeventfd_update] A region's list of descriptors stays sorted when one is added; and the listeners
  are told of exactly the difference between the old and the new list of an address space: the old ones
  without the deleted and with the added are the new ones, and, for sorted lists, what is deleted is in
  the old list only and what is added in the new one only. An assertion fails only when a descriptor
  has a start or size that is no 64-bit number.\<close>

theorem ioeventfd_update:
  "(case address_space_add_del_ioeventfds news olds of
      None \<Rightarrow> \<exists>e\<in>set news \<union> set olds. \<not> fd_fits64 e
    | Some es \<Rightarrow>
        ie_keys olds + ie_adds es = ie_keys news + ie_dels es \<and>
        (sorted (map ie_key olds) \<and> sorted (map ie_key news) \<longrightarrow>
           ie_dels es = ie_keys olds - ie_keys news \<and> ie_adds es = ie_keys news - ie_keys olds)) \<and>
   (sorted (map ie_key olds) \<longrightarrow> sorted (map ie_key (insert_ioeventfd e olds)) \<and>
     mset (insert_ioeventfd e olds) = add_mset e (mset olds))"
proof (cases "\<forall>e\<in>set (ioeventfd_diff news olds). fd_fits64 (event_fd e)")
  case True
  then have "address_space_add_del_ioeventfds news olds = Some (ioeventfd_diff news olds)"
    by (simp add: add_del_result)
  with add_del_balance [of olds news] add_del_minimal [of olds news] insert_ioeventfd_sorted [of olds e]
  show ?thesis by simp
next
  case False
  then have "\<exists>e\<in>set news \<union> set olds. \<not> fd_fits64 e" using ioeventfd_diff_events by blast
  moreover have "address_space_add_del_ioeventfds news olds = None" using False by (simp add: add_del_result)
  ultimately show ?thesis using insert_ioeventfd_sorted [of olds e] by simp
qed

theorem ioeventfd_update_witness:
  "sorted (map ie_key (insert_ioeventfd (make_ioeventfd 8 2 False 0 3) [make_ioeventfd 4 2 True 1 5]))"
  using ioeventfd_update [of "[]" "[make_ioeventfd 4 2 True 1 5]" "make_ioeventfd 8 2 False 0 3"] by simp

end
