(* ===== verification/Int128.thy ===== *)
theory Int128
  imports FlatView
begin

text \<open>
  The 128-bit integers of int128.h: a low unsigned and a high signed half of 64 bits. The memory
  model computes with these numbers; the theory shows that the operations are those of the
  integers as long as no result leaves the 127-bit range, so that the theory of the memory map may use
  \<open>int\<close>. The signed high half wraps on overflow.\<close>

record Int128 =
  lo :: u64
  hi :: u64

definition int128_make64 :: "u64 \<Rightarrow> Int128" where
  "int128_make64 a = \<lparr>lo = a, hi = 0\<rparr>"

definition int128_zero :: Int128 where
  "int128_zero = int128_make64 0"

definition int128_one :: Int128 where
  "int128_one = int128_make64 1"

definition int128_2_64 :: Int128 where
  "int128_2_64 = \<lparr>lo = 0, hi = 1\<rparr>"

text \<open>\<open>int128_get64\<close> asserts that the high half is zero: \<open>None\<close> is the failed assertion.\<close>

definition int128_get64 :: "Int128 \<Rightarrow> u64 option" where
  "int128_get64 a = (if hi a \<noteq> 0 then None else Some (lo a))"

definition int128_add :: "Int128 \<Rightarrow> Int128 \<Rightarrow> Int128" where
  "int128_add a b =
     (let r = \<lparr>lo = lo a + lo b, hi = hi a + hi b\<rparr>
      in r\<lparr>hi := hi r + (if lo r < lo a \<or> lo r < lo b then 1 else 0)\<rparr>)"

definition int128_neg :: "Int128 \<Rightarrow> Int128" where
  "int128_neg a = int128_add \<lparr>lo = NOT (lo a), hi = NOT (hi a)\<rparr> int128_one"

definition int128_sub :: "Int128 \<Rightarrow> Int128 \<Rightarrow> Int128" where
  "int128_sub a b = int128_add a (int128_neg b)"

definition int128_nonneg :: "Int128 \<Rightarrow> bool" where
  "int128_nonneg a \<longleftrightarrow> 0 \<le> sint (hi a)"

definition int128_eq :: "Int128 \<Rightarrow> Int128 \<Rightarrow> bool" where
  "int128_eq a b \<longleftrightarrow> lo a = lo b \<and> hi a = hi b"

definition int128_ne :: "Int128 \<Rightarrow> Int128 \<Rightarrow> bool" where
  "int128_ne a b \<longleftrightarrow> \<not> int128_eq a b"

definition int128_ge :: "Int128 \<Rightarrow> Int128 \<Rightarrow> bool" where
  "int128_ge a b \<longleftrightarrow> int128_nonneg (int128_sub a b)"

definition int128_lt :: "Int128 \<Rightarrow> Int128 \<Rightarrow> bool" where
  "int128_lt a b \<longleftrightarrow> \<not> int128_ge a b"

definition int128_le :: "Int128 \<Rightarrow> Int128 \<Rightarrow> bool" where
  "int128_le a b \<longleftrightarrow> int128_ge b a"

definition int128_gt :: "Int128 \<Rightarrow> Int128 \<Rightarrow> bool" where
  "int128_gt a b \<longleftrightarrow> \<not> int128_le a b"

definition int128_nz :: "Int128 \<Rightarrow> bool" where
  "int128_nz a \<longleftrightarrow> lo a \<noteq> 0 \<or> hi a \<noteq> 0"

definition int128_min :: "Int128 \<Rightarrow> Int128 \<Rightarrow> Int128" where
  "int128_min a b = (if int128_le a b then a else b)"

definition int128_max :: "Int128 \<Rightarrow> Int128 \<Rightarrow> Int128" where
  "int128_max a b = (if int128_ge a b then a else b)"

section \<open>The number a pair stands for\<close>

definition int128_val :: "Int128 \<Rightarrow> int" where
  "int128_val a = sint (hi a) * 2 ^ 64 + uint (lo a)"

definition wrap128 :: "int \<Rightarrow> int" where
  "wrap128 x = signed_take_bit 127 x"

lemma int128_bounds:
  fixes s u :: int
  assumes "- (2 ^ 63) \<le> s" "s < 2 ^ 63" "0 \<le> u" "u < 2 ^ 64"
  shows "- (2 ^ 127) \<le> s * 2 ^ 64 + u" "s * 2 ^ 64 + u < 2 ^ 127" "0 \<le> s * 2 ^ 64 + u \<longleftrightarrow> 0 \<le> s"
  using assms by auto

lemma halves_bounds:
  "- (2 ^ 63) \<le> sint (h :: u64)" "sint (h :: u64) < 2 ^ 63" "0 \<le> uint (l :: u64)" "uint (l :: u64) < 2 ^ 64"
  using sint_greater_eq [of h] sint_less [of h] uint_lt2p [of l] by simp_all

lemma int128_val_bounds: "- (2 ^ 127) \<le> int128_val a" "int128_val a < 2 ^ 127"
  unfolding int128_val_def by (rule int128_bounds, rule halves_bounds, rule halves_bounds, rule halves_bounds, rule halves_bounds)+

lemma wrap128_id: "- (2 ^ 127) \<le> x \<Longrightarrow> x < 2 ^ 127 \<Longrightarrow> wrap128 x = x"
  unfolding wrap128_def by (rule signed_take_bit_int_eq_self) simp_all

lemma wrap128_mod: "wrap128 (x + 2 ^ 128 * k) = wrap128 x"
proof -
  have "take_bit 128 (x + 2 ^ 128 * k) = take_bit 128 x"
    by (simp add: take_bit_eq_mod)
  then show ?thesis
    unfolding wrap128_def using signed_take_bit_eq_iff_take_bit_eq [of 127 "x + 2 ^ 128 * k" x] by simp
qed

lemma wrap128_val [simp]: "wrap128 (int128_val a) = int128_val a"
  by (intro wrap128_id int128_val_bounds)

lemma wrap128_cong:
  assumes "x = y + 2 ^ 128 * k" and "- (2 ^ 127) \<le> x" "x < 2 ^ 127"
  shows "x = wrap128 y"
  using assms wrap128_mod [of y k] wrap128_id [of x] by simp

lemma u64_cong:
  assumes "(word_of_int x :: u64) = word_of_int y"
  shows "\<exists>k. x = y + 2 ^ 64 * k"
proof -
  have "x mod 2 ^ 64 = y mod 2 ^ 64"
    using assms by (simp add: word_of_int_eq_iff take_bit_eq_mod)
  then have "x = y + 2 ^ 64 * (x div 2 ^ 64 - y div 2 ^ 64)"
    using mult_div_mod_eq [of "2 ^ 64" x] mult_div_mod_eq [of "2 ^ 64" y]
    unfolding right_diff_distrib by linarith
  then show ?thesis by blast
qed

lemma of_int_sint_u64: "word_of_int (sint (x :: u64)) = x"
  by simp

lemma sint_hi: "\<exists>k. sint ((x :: u64) + y + z) = sint x + sint y + sint z + 2 ^ 64 * k"
  by (rule u64_cong) simp

lemma uint_lo: "uint ((x :: u64) + y) = uint x + uint y - (if x + y < x \<or> x + y < y then 2 ^ 64 else 0)"
proof -
  have b: "uint x < 2 ^ 64" "uint y < 2 ^ 64" "0 \<le> uint x" "0 \<le> uint y"
    using uint_lt2p [of x] uint_lt2p [of y] by simp_all
  have s: "uint (x + y) = (if uint x + uint y < 2 ^ 64 then uint x + uint y else uint x + uint y - 2 ^ 64)"
    by (simp add: uint_plus_if')
  show ?thesis unfolding word_less_def using s b by auto
qed

text \<open>Addition, negation and subtraction are those of the integers, up to the wrap at 128 bits.\<close>

lemma int128_val_add: "int128_val (int128_add a b) = wrap128 (int128_val a + int128_val b)"
proof -
  let ?c = "if lo a + lo b < lo a \<or> lo a + lo b < lo b then 1 else 0 :: u64"
  obtain k where k: "sint (hi a + hi b + ?c) = sint (hi a) + sint (hi b) + sint ?c + 2 ^ 64 * k"
    using sint_hi by blast
  have "int128_val (int128_add a b) = sint (hi a + hi b + ?c) * 2 ^ 64 + uint (lo a + lo b)"
    by (simp add: int128_val_def int128_add_def Let_def)
  also have "\<dots> = int128_val a + int128_val b + 2 ^ 128 * k"
    unfolding k uint_lo [of "lo a" "lo b"] int128_val_def by (simp add: algebra_simps)
  finally show ?thesis by (rule wrap128_cong) (rule int128_val_bounds)+
qed

lemma int128_val_not: "int128_val \<lparr>lo = NOT (lo a), hi = NOT (hi a)\<rparr> = - int128_val a - 1"
proof -
  have "uint (NOT (lo a)) = 2 ^ 64 - 1 - uint (lo a)"
    by (simp add: unsigned_not_eq take_bit_not_eq_mask_diff mask_eq_exp_minus_1 bintr_uint)
  moreover have "sint (NOT (hi a)) = - sint (hi a) - 1"
  proof -
    have "sint (NOT (hi a)) = signed_take_bit LENGTH(64) (NOT (sint (hi a)))" by (rule signed_not_eq)
    also have "\<dots> = NOT (sint (hi a))"
      using halves_bounds(1,2) [of "hi a"]
      by (intro signed_take_bit_int_eq_self) (simp_all add: not_int_def)
    finally show ?thesis by (simp add: not_int_def)
  qed
  ultimately show ?thesis by (simp add: int128_val_def algebra_simps)
qed

lemma wrap128_add: "wrap128 (wrap128 x + y) = wrap128 (x + y)"
proof -
  have "take_bit 128 (wrap128 x) = take_bit 128 x" by (simp add: wrap128_def take_bit_signed_take_bit)
  then have "take_bit 128 (wrap128 x + y) = take_bit 128 (x + y)"
    by (metis take_bit_add)
  then show ?thesis
    unfolding wrap128_def by (subst signed_take_bit_eq_iff_take_bit_eq) simp
qed

lemma int128_val_one: "int128_val int128_one = 1"
  by (simp add: int128_one_def int128_make64_def int128_val_def)

lemma int128_val_neg: "int128_val (int128_neg a) = wrap128 (- int128_val a)"
  by (simp add: int128_neg_def int128_val_add int128_val_not int128_val_one)

lemma int128_val_sub: "int128_val (int128_sub a b) = wrap128 (int128_val a - int128_val b)"
  using wrap128_add [of "- int128_val b" "int128_val a"]
  by (simp add: int128_sub_def int128_val_add int128_val_neg add.commute)

lemma int128_nonneg_val: "int128_nonneg a \<longleftrightarrow> 0 \<le> int128_val a"
  unfolding int128_nonneg_def int128_val_def
  by (rule sym) (rule int128_bounds(3), rule halves_bounds, rule halves_bounds, rule halves_bounds, rule halves_bounds)

lemma int128_val_eq: "int128_val a = int128_val b \<longleftrightarrow> lo a = lo b \<and> hi a = hi b"
proof
  assume e: "int128_val a = int128_val b"
  have h: "int128_val x div 2 ^ 64 = sint (hi x)" and l: "int128_val x mod 2 ^ 64 = uint (lo x)" for x :: Int128
    using halves_bounds(3,4) [of "lo x"] by (simp_all add: int128_val_def)
  have "sint (hi a) = sint (hi b)" "uint (lo a) = uint (lo b)" using h [of a] h [of b] l [of a] l [of b] e by simp_all
  then show "lo a = lo b \<and> hi a = hi b" by (metis signed_word_eqI word_uint_eq_iff)
qed (simp add: int128_val_def)

text \<open>The assertion is that the number is one of 64 bits.\<close>

lemma int128_get64_val: "map_option uint (int128_get64 a) = get64 (int128_val a)"
proof -
  have b: "0 \<le> uint (lo a)" "uint (lo a) < 2 ^ 64" by (rule halves_bounds)+
  have h: "int128_val a div 2 ^ 64 = sint (hi a)" using b by (simp add: int128_val_def)
  show ?thesis
  proof (cases "hi a = 0")
    case True
    then show ?thesis using b by (simp add: int128_get64_def int128_val_def get64_def)
  next
    case False
    then have "sint (hi a) \<noteq> 0" by (metis signed_word_eqI signed_0)
    then have "\<not> (0 \<le> int128_val a \<and> int128_val a < 2 ^ 64)" unfolding h [symmetric] by auto
    then show ?thesis using False by (simp add: int128_get64_def get64_def)
  qed
qed

section \<open>Property\<close>

text \<open>[int128_arithmetic] The pair arithmetic is integer arithmetic: on numbers below \<open>2 ^ 126\<close> in
  absolute value the sum and the difference are exact, the comparisons, minimum and maximum are
  those of the integers, a number survives the way through 64 bits, and the assertion of \<open>int128_get64\<close>
  is that of \<open>get64\<close> on the integer.\<close>

theorem int128_arithmetic:
  assumes "\<bar>int128_val a\<bar> < 2 ^ 126" and "\<bar>int128_val b\<bar> < 2 ^ 126"
  shows "int128_val (int128_add a b) = int128_val a + int128_val b \<and>
    int128_val (int128_sub a b) = int128_val a - int128_val b \<and>
    int128_val (int128_neg a) = - int128_val a \<and>
    (int128_ge a b \<longleftrightarrow> int128_val b \<le> int128_val a) \<and>
    (int128_lt a b \<longleftrightarrow> int128_val a < int128_val b) \<and>
    (int128_eq a b \<longleftrightarrow> int128_val a = int128_val b) \<and>
    int128_val (int128_min a b) = min (int128_val a) (int128_val b) \<and>
    int128_val (int128_max a b) = max (int128_val a) (int128_val b) \<and>
    int128_get64 (int128_make64 w) = Some w \<and> map_option uint (int128_get64 a) = get64 (int128_val a)"
proof -
  have small: "wrap128 x = x" if "\<bar>x\<bar> < 2 * 2 ^ 126" for x
    by (rule wrap128_id) (use that in \<open>simp_all add: abs_less_iff\<close>)
  have add: "int128_val (int128_add a b) = int128_val a + int128_val b"
    unfolding int128_val_add by (rule small) (use assms in \<open>simp add: abs_less_iff\<close>)
  have sub: "int128_val (int128_sub x y) = int128_val x - int128_val y"
    if "\<bar>int128_val x\<bar> < 2 ^ 126" "\<bar>int128_val y\<bar> < 2 ^ 126" for x y
    unfolding int128_val_sub by (rule small) (use that in \<open>simp add: abs_less_iff\<close>)
  have neg: "int128_val (int128_neg a) = - int128_val a"
    unfolding int128_val_neg by (rule small) (use assms in \<open>simp add: abs_less_iff\<close>)
  have ge: "int128_ge x y \<longleftrightarrow> int128_val y \<le> int128_val x"
    if "\<bar>int128_val x\<bar> < 2 ^ 126" "\<bar>int128_val y\<bar> < 2 ^ 126" for x y
    unfolding int128_ge_def int128_nonneg_val sub [OF that] by linarith
  have eq: "int128_eq a b \<longleftrightarrow> int128_val a = int128_val b"
    by (simp add: int128_eq_def int128_val_eq)
  show ?thesis
    using add sub [OF assms] neg ge [OF assms] ge [OF assms(2,1)] eq int128_get64_val [of a]
    by (auto simp: int128_lt_def int128_le_def int128_min_def int128_max_def int128_get64_def int128_make64_def)
qed

theorem int128_arithmetic_witness:
  "int128_val (int128_sub int128_zero int128_2_64) = - (2 ^ 64)"
proof -
  have "int128_val int128_zero = 0" "int128_val int128_2_64 = 2 ^ 64"
    by (simp_all add: int128_zero_def int128_make64_def int128_2_64_def int128_val_def)
  then show ?thesis using int128_arithmetic [of int128_zero int128_2_64] by simp
qed

end
