(* ===== verification/MemoryMap.thy ===== *)
theory MemoryMap
  imports Ioeventfd
begin

text \<open>
  The memory topology, memory.c: the tree of memory regions with aliases, its rendering into the flat
  view of an address space, the operations that change the tree, and the transactions that delay the
  update of the address spaces. A store maps region names to regions; the C pointers are names. The
  rendering follows subregions and aliases, so it takes a depth bound and answers \<open>None\<close> when the bound
  is exceeded; with a rank that decreases along subregions and aliases, any bound above the rank of
  the root is enough (\<open>render_enough\<close>). An assertion of the C code that fails is the answer \<open>None\<close>
  of the operation.\<close>

section \<open>Regions\<close>

record MemoryRegion =
  mr_parent :: "nat option"
  mr_size :: int
  mr_addr :: u64
  mr_ram :: bool
  mr_terminates :: bool
  mr_readable :: bool
  mr_readonly :: bool
  mr_enabled :: bool
  mr_rom_device :: bool
  mr_alias :: "nat option"
  mr_alias_offset :: u64
  mr_priority :: u32
  mr_may_overlap :: bool
  mr_subregions :: "nat list"
  mr_dirty_log_mask :: u8
  mr_ioeventfds :: "MemoryRegionIoeventfd list"

type_synonym store = "nat \<Rightarrow> MemoryRegion"

definition memory_region_init :: "u64 \<Rightarrow> MemoryRegion" where
  "memory_region_init n = \<lparr>mr_parent = None, mr_size = (if n = - 1 then 2 ^ 64 else uint n), mr_addr = 0,
     mr_ram = False, mr_terminates = False, mr_readable = True, mr_readonly = False, mr_enabled = True,
     mr_rom_device = False, mr_alias = None, mr_alias_offset = 0, mr_priority = 0, mr_may_overlap = False,
     mr_subregions = [], mr_dirty_log_mask = 0, mr_ioeventfds = []\<rparr>"

definition memory_region_init_io :: "u64 \<Rightarrow> MemoryRegion" where
  "memory_region_init_io n = (memory_region_init n)\<lparr>mr_terminates := True\<rparr>"

definition memory_region_init_ram :: "u64 \<Rightarrow> MemoryRegion" where
  "memory_region_init_ram n = (memory_region_init n)\<lparr>mr_ram := True, mr_terminates := True\<rparr>"

definition memory_region_init_alias :: "nat \<Rightarrow> u64 \<Rightarrow> u64 \<Rightarrow> MemoryRegion" where
  "memory_region_init_alias orig off n = (memory_region_init n)\<lparr>mr_alias := Some orig, mr_alias_offset := off\<rparr>"

definition memory_region_init_rom_device :: "u64 \<Rightarrow> MemoryRegion" where
  "memory_region_init_rom_device n = (memory_region_init n)\<lparr>mr_terminates := True, mr_rom_device := True\<rparr>"

definition memory_region_size :: "MemoryRegion \<Rightarrow> u64" where
  "memory_region_size mr = (if mr_size mr = 2 ^ 64 then - 1 else word_of_int (mr_size mr))"

definition memory_region_is_rom :: "MemoryRegion \<Rightarrow> bool" where
  "memory_region_is_rom mr \<longleftrightarrow> mr_ram mr \<and> mr_readonly mr"

section \<open>Rendering\<close>

definition region_range :: "nat \<Rightarrow> MemoryRegion \<Rightarrow> bool \<Rightarrow> int \<Rightarrow> int \<Rightarrow> int \<Rightarrow> FlatRange" where
  "region_range mid mr readonly off base n = \<lparr>fr_mr = mid, fr_offset_in_region = off,
     fr_addr = addrrange_make base n, fr_dirty_log_mask = mr_dirty_log_mask mr,
     fr_readable = mr_readable mr, fr_readonly = readonly\<rparr>"

fun render_memory_region :: "nat \<Rightarrow> store \<Rightarrow> FlatView \<Rightarrow> nat \<Rightarrow> int \<Rightarrow> AddrRange \<Rightarrow> bool \<Rightarrow> FlatView option" where
  "render_memory_region 0 st view mid base clip readonly = None"
| "render_memory_region (Suc n) st view mid base clip readonly =
     (let mr = st mid in
      if \<not> mr_enabled mr then Some view
      else
        (let base1 = base + uint (mr_addr mr);
             ro = (readonly \<or> mr_readonly mr);
             tmp = addrrange_make base1 (mr_size mr)
         in if \<not> addrrange_intersects tmp clip then Some view
            else
              (let clip1 = addrrange_intersection tmp clip in
               case mr_alias mr of
                 Some a \<Rightarrow>
                   render_memory_region n st view a
                     (base1 - uint (mr_addr (st a)) - uint (mr_alias_offset mr)) clip1 ro
               | None \<Rightarrow>
                   (case foldl (\<lambda>v s. case v of None \<Rightarrow> None
                                   | Some w \<Rightarrow> render_memory_region n st w s base1 clip1 ro)
                           (Some view) (mr_subregions mr) of
                      None \<Rightarrow> None
                    | Some w \<Rightarrow>
                        if \<not> mr_terminates mr then Some w
                        else (case get64 (ar_start clip1 - base1) of
                                None \<Rightarrow> None
                              | Some off \<Rightarrow>
                                  fill_gaps (region_range mid mr ro) w (ar_start clip1) (ar_size clip1) off)))))"

definition generate_memory_topology :: "nat \<Rightarrow> store \<Rightarrow> nat \<Rightarrow> FlatView option" where
  "generate_memory_topology n st root =
     map_option flatview_simplify (render_memory_region n st [] root 0 (addrrange_make 0 (2 ^ 64)) False)"

section \<open>Address spaces and transactions\<close>

datatype mem_event = Begin_update | Commit_update | Topology bool topology_event | Eventfd bool eventfd_event

text \<open>The global state: the regions, the two address spaces (memory and I/O) with their root and current
  map and event descriptors, the transaction depth, the pending flag, and what the listeners have been told.\<close>

record memory =
  regions :: store
  mem_root :: "nat option"
  io_root :: "nat option"
  mem_map :: FlatView
  io_map :: FlatView
  mem_ioeventfds :: "MemoryRegionIoeventfd list"
  io_ioeventfds :: "MemoryRegionIoeventfd list"
  transaction_depth :: nat
  update_pending :: bool
  told :: "mem_event list"

definition tell :: "mem_event list \<Rightarrow> memory \<Rightarrow> memory" where
  "tell es m = m\<lparr>told := told m @ es\<rparr>"

definition topology_events :: "bool \<Rightarrow> FlatView \<Rightarrow> FlatView \<Rightarrow> mem_event list option" where
  "topology_events io olds news =
     map_option (map (Topology io)) (and_then (topology_pass False olds news) (topology_pass True olds news))"

definition eventfd_events :: "bool \<Rightarrow> MemoryRegionIoeventfd list \<Rightarrow> MemoryRegionIoeventfd list \<Rightarrow> mem_event list option" where
  "eventfd_events io news olds = map_option (map (Eventfd io)) (address_space_add_del_ioeventfds news olds)"

definition address_space_ioeventfds :: "store \<Rightarrow> FlatView \<Rightarrow> MemoryRegionIoeventfd list" where
  "address_space_ioeventfds st view = view_ioeventfds (\<lambda>mid. mr_ioeventfds (st mid)) view"

definition update_memory_space :: "nat \<Rightarrow> memory \<Rightarrow> memory option" where
  "update_memory_space n m =
     (case mem_root m of
        None \<Rightarrow> Some m
      | Some root \<Rightarrow>
          (case generate_memory_topology n (regions m) root of
             None \<Rightarrow> None
           | Some v \<Rightarrow>
               (let fds = address_space_ioeventfds (regions m) v in
                map_option (\<lambda>es. tell es m\<lparr>mem_map := v, mem_ioeventfds := fds\<rparr>)
                  (and_then (topology_events False (mem_map m) v) (eventfd_events False fds (mem_ioeventfds m))))))"

definition update_io_space :: "nat \<Rightarrow> memory \<Rightarrow> memory option" where
  "update_io_space n m =
     (case io_root m of
        None \<Rightarrow> Some m
      | Some root \<Rightarrow>
          (case generate_memory_topology n (regions m) root of
             None \<Rightarrow> None
           | Some v \<Rightarrow>
               (let fds = address_space_ioeventfds (regions m) v in
                map_option (\<lambda>es. tell es m\<lparr>io_map := v, io_ioeventfds := fds\<rparr>)
                  (and_then (topology_events True (io_map m) v) (eventfd_events True fds (io_ioeventfds m))))))"

definition update_spaces :: "nat \<Rightarrow> memory \<Rightarrow> memory option" where
  "update_spaces n m =
     (case update_memory_space n (tell [Begin_update] m) of
        None \<Rightarrow> None
      | Some m1 \<Rightarrow>
          map_option (\<lambda>m2. tell [Commit_update] m2\<lparr>update_pending := False\<rparr>) (update_io_space n m1))"

definition memory_region_update_topology :: "nat \<Rightarrow> nat option \<Rightarrow> memory \<Rightarrow> memory option" where
  "memory_region_update_topology n mr m =
     (let live = (case mr of None \<Rightarrow> True | Some mid \<Rightarrow> mr_enabled (regions m mid)) in
      if transaction_depth m \<noteq> 0 then Some (m\<lparr>update_pending := (update_pending m \<or> live)\<rparr>)
      else if \<not> live then Some m
      else update_spaces n m)"

definition memory_region_transaction_begin :: "memory \<Rightarrow> memory" where
  "memory_region_transaction_begin m = m\<lparr>transaction_depth := transaction_depth m + 1\<rparr>"

definition memory_region_transaction_commit :: "nat \<Rightarrow> memory \<Rightarrow> memory option" where
  "memory_region_transaction_commit n m =
     (if transaction_depth m = 0 then None
      else (let m1 = m\<lparr>transaction_depth := transaction_depth m - 1\<rparr> in
            if transaction_depth m1 = 0 \<and> update_pending m1
            then memory_region_update_topology n None m1 else Some m1))"

section \<open>Changing the tree\<close>

definition set_region :: "nat \<Rightarrow> (MemoryRegion \<Rightarrow> MemoryRegion) \<Rightarrow> memory \<Rightarrow> memory" where
  "set_region mid f m = m\<lparr>regions := (regions m)(mid := f (regions m mid))\<rparr>"

text \<open>A subregion goes in front of the first one that does not have a higher priority.\<close>

fun insert_priority :: "store \<Rightarrow> nat \<Rightarrow> nat list \<Rightarrow> nat list" where
  "insert_priority st s [] = [s]"
| "insert_priority st s (x # xs) =
     (if mr_priority (st s) \<ge> mr_priority (st x) then s # x # xs else x # insert_priority st s xs)"

definition memory_region_add_subregion_common :: "nat \<Rightarrow> nat \<Rightarrow> u64 \<Rightarrow> nat \<Rightarrow> memory \<Rightarrow> memory option" where
  "memory_region_add_subregion_common n mr offset sub m =
     (if mr_parent (regions m sub) \<noteq> None then None
      else (let m1 = set_region sub (\<lambda>r. r\<lparr>mr_parent := Some mr, mr_addr := offset\<rparr>) m;
                m2 = set_region mr (\<lambda>r. r\<lparr>mr_subregions := insert_priority (regions m1) sub (mr_subregions r)\<rparr>) m1
            in memory_region_update_topology n (Some mr) m2))"

definition memory_region_add_subregion :: "nat \<Rightarrow> nat \<Rightarrow> u64 \<Rightarrow> nat \<Rightarrow> memory \<Rightarrow> memory option" where
  "memory_region_add_subregion n mr offset sub m =
     memory_region_add_subregion_common n mr offset sub
       (set_region sub (\<lambda>r. r\<lparr>mr_may_overlap := False, mr_priority := 0\<rparr>) m)"

definition memory_region_add_subregion_overlap :: "nat \<Rightarrow> nat \<Rightarrow> u64 \<Rightarrow> nat \<Rightarrow> u32 \<Rightarrow> memory \<Rightarrow> memory option" where
  "memory_region_add_subregion_overlap n mr offset sub priority m =
     memory_region_add_subregion_common n mr offset sub
       (set_region sub (\<lambda>r. r\<lparr>mr_may_overlap := True, mr_priority := priority\<rparr>) m)"

definition memory_region_del_subregion :: "nat \<Rightarrow> nat \<Rightarrow> nat \<Rightarrow> memory \<Rightarrow> memory option" where
  "memory_region_del_subregion n mr sub m =
     (if mr_parent (regions m sub) \<noteq> Some mr then None
      else memory_region_update_topology n (Some mr)
             (set_region mr (\<lambda>r. r\<lparr>mr_subregions := remove1 sub (mr_subregions r)\<rparr>)
               (set_region sub (\<lambda>r. r\<lparr>mr_parent := None\<rparr>) m)))"

definition memory_region_set_enabled :: "nat \<Rightarrow> nat \<Rightarrow> bool \<Rightarrow> memory \<Rightarrow> memory option" where
  "memory_region_set_enabled n mr enabled m =
     (if enabled = mr_enabled (regions m mr) then Some m
      else memory_region_update_topology n None (set_region mr (\<lambda>r. r\<lparr>mr_enabled := enabled\<rparr>) m))"

definition memory_region_set_address :: "nat \<Rightarrow> nat \<Rightarrow> u64 \<Rightarrow> memory \<Rightarrow> memory option" where
  "memory_region_set_address n mr addr m =
     (let r = regions m mr in
      case (if addr = mr_addr r then None else mr_parent r) of
        None \<Rightarrow> Some (set_region mr (\<lambda>r. r\<lparr>mr_addr := addr\<rparr>) m)
      | Some parent \<Rightarrow>
          (case memory_region_del_subregion n parent mr (memory_region_transaction_begin m) of
             None \<Rightarrow> None
           | Some m1 \<Rightarrow>
               (case (if mr_may_overlap r
                      then memory_region_add_subregion_overlap n parent addr mr (mr_priority r) m1
                      else memory_region_add_subregion n parent addr mr m1) of
                  None \<Rightarrow> None
                | Some m2 \<Rightarrow> memory_region_transaction_commit n m2)))"

definition memory_region_set_alias_offset :: "nat \<Rightarrow> nat \<Rightarrow> u64 \<Rightarrow> memory \<Rightarrow> memory option" where
  "memory_region_set_alias_offset n mr offset m =
     (let r = regions m mr; m1 = set_region mr (\<lambda>r. r\<lparr>mr_alias_offset := offset\<rparr>) m in
      if mr_alias r = None then None
      else if offset = mr_alias_offset r \<or> mr_parent r = None then Some m1
      else memory_region_update_topology n (Some mr) m1)"

definition memory_region_set_readonly :: "nat \<Rightarrow> nat \<Rightarrow> bool \<Rightarrow> memory \<Rightarrow> memory option" where
  "memory_region_set_readonly n mr readonly m =
     (if mr_readonly (regions m mr) \<noteq> readonly
      then memory_region_update_topology n (Some mr) (set_region mr (\<lambda>r. r\<lparr>mr_readonly := readonly\<rparr>) m)
      else Some m)"

definition memory_region_rom_device_set_readable :: "nat \<Rightarrow> nat \<Rightarrow> bool \<Rightarrow> memory \<Rightarrow> memory option" where
  "memory_region_rom_device_set_readable n mr readable m =
     (if mr_readable (regions m mr) \<noteq> readable
      then memory_region_update_topology n (Some mr) (set_region mr (\<lambda>r. r\<lparr>mr_readable := readable\<rparr>) m)
      else Some m)"

definition memory_region_set_log :: "nat \<Rightarrow> nat \<Rightarrow> bool \<Rightarrow> nat \<Rightarrow> memory \<Rightarrow> memory option" where
  "memory_region_set_log n mr log client m =
     (let bit1 = push_bit client 1 in
      memory_region_update_topology n (Some mr)
        (set_region mr (\<lambda>r. r\<lparr>mr_dirty_log_mask := (mr_dirty_log_mask r AND NOT bit1) OR (if log then bit1 else 0)\<rparr>) m))"

definition memory_region_add_eventfd :: "nat \<Rightarrow> nat \<Rightarrow> MemoryRegionIoeventfd \<Rightarrow> memory \<Rightarrow> memory option" where
  "memory_region_add_eventfd n mr mrfd m =
     memory_region_update_topology n (Some mr)
       (set_region mr (\<lambda>r. r\<lparr>mr_ioeventfds := insert_ioeventfd mrfd (mr_ioeventfds r)\<rparr>) m)"

definition memory_region_del_eventfd :: "nat \<Rightarrow> nat \<Rightarrow> MemoryRegionIoeventfd \<Rightarrow> memory \<Rightarrow> memory option" where
  "memory_region_del_eventfd n mr mrfd m =
     (case remove_ioeventfd mrfd (mr_ioeventfds (regions m mr)) of
        None \<Rightarrow> None
      | Some fds \<Rightarrow> memory_region_update_topology n (Some mr) (set_region mr (\<lambda>r. r\<lparr>mr_ioeventfds := fds\<rparr>) m))"

definition set_system_memory_map :: "nat \<Rightarrow> nat \<Rightarrow> memory \<Rightarrow> memory option" where
  "set_system_memory_map n mr m = memory_region_update_topology n None (m\<lparr>mem_root := Some mr\<rparr>)"

definition set_system_io_map :: "nat \<Rightarrow> nat \<Rightarrow> memory \<Rightarrow> memory option" where
  "set_system_io_map n mr m = memory_region_update_topology n None (m\<lparr>io_root := Some mr\<rparr>)"

section \<open>What a topology means\<close>

fun first_some :: "('a \<Rightarrow> 'b option) \<Rightarrow> 'a list \<Rightarrow> 'b option" where
  "first_some f [] = None"
| "first_some f (s # ss) = (case f s of Some y \<Rightarrow> Some y | None \<Rightarrow> first_some f ss)"

text \<open>What an access at address \<open>x\<close> finds when the region is mapped at \<open>base\<close>: nothing outside the region
  or when it is disabled; for an alias, what the aliased region has there; else the first subregion,
  in priority order, that has something there; else the region itself, if it is not a pure container.\<close>

fun region_at :: "nat \<Rightarrow> store \<Rightarrow> nat \<Rightarrow> int \<Rightarrow> bool \<Rightarrow> int \<Rightarrow> (nat \<times> int \<times> u8 \<times> bool \<times> bool) option" where
  "region_at 0 st mid base readonly x = None"
| "region_at (Suc n) st mid base readonly x =
     (let mr = st mid; base1 = base + uint (mr_addr mr); ro = (readonly \<or> mr_readonly mr) in
      if \<not> mr_enabled mr \<or> x < base1 \<or> base1 + mr_size mr \<le> x then None
      else case mr_alias mr of
          Some a \<Rightarrow> region_at n st a (base1 - uint (mr_addr (st a)) - uint (mr_alias_offset mr)) ro x
        | None \<Rightarrow>
            (case first_some (\<lambda>s. region_at n st s base1 ro x) (mr_subregions mr) of
               Some y \<Rightarrow> Some y
             | None \<Rightarrow> if mr_terminates mr
                       then Some (mid, x - base1, mr_dirty_log_mask mr, mr_readable mr, ro) else None))"

text \<open>Topologies in which siblings do not overlap.\<close>

definition apart :: "store \<Rightarrow> nat \<Rightarrow> nat \<Rightarrow> bool" where
  "apart st s t \<longleftrightarrow> uint (mr_addr (st s)) + mr_size (st s) \<le> uint (mr_addr (st t))
     \<or> uint (mr_addr (st t)) + mr_size (st t) \<le> uint (mr_addr (st s))"

definition no_overlap :: "store \<Rightarrow> bool" where
  "no_overlap st \<longleftrightarrow> (\<forall>mid. 0 \<le> mr_size (st mid) \<and> sorted_wrt (apart st) (mr_subregions (st mid)))"

definition clear :: "FlatView \<Rightarrow> int \<Rightarrow> int \<Rightarrow> bool" where
  "clear v a b \<longleftrightarrow> (a < b \<longrightarrow> (\<forall>r\<in>set v. fend r \<le> a \<or> b \<le> fstart r))"

lemma clear_mono: "clear v a b \<Longrightarrow> a \<le> c \<Longrightarrow> d \<le> b \<Longrightarrow> clear v c d"
  by (fastforce simp: clear_def)

text \<open>The result of rendering something with content \<open>f\<close> into the window \<open>[a, b)\<close> of a view.\<close>

definition rendered :: "FlatView \<Rightarrow> int \<Rightarrow> int \<Rightarrow> (int \<Rightarrow> (nat \<times> int \<times> u8 \<times> bool \<times> bool) option) \<Rightarrow> FlatView \<Rightarrow> bool" where
  "rendered v a b f w \<longleftrightarrow> flat_ok w
     \<and> (\<forall>r\<in>set w. r \<in> set v \<or> a \<le> fstart r \<and> fend r \<le> b)
     \<and> (\<forall>x. view_at w x = (case view_at v x of Some y \<Rightarrow> Some y
            | None \<Rightarrow> if a \<le> x \<and> x < b then f x else None))"

lemma rendered_refl:
  "flat_ok v \<Longrightarrow> (\<And>x. a \<le> x \<Longrightarrow> x < b \<Longrightarrow> f x = None) \<Longrightarrow> rendered v a b f v"
  by (auto simp: rendered_def split: option.split)

lemma rendered_cong:
  "rendered v a b f w \<Longrightarrow> (\<And>x. a \<le> x \<Longrightarrow> x < b \<Longrightarrow> f x = g x) \<Longrightarrow> rendered v a b g w"
  by (auto simp: rendered_def split: option.split)

text \<open>A smaller window of the same view.\<close>

lemma rendered_widen:
  assumes "rendered v c d f w" and "a \<le> c" "d \<le> b"
    and "\<And>x. a \<le> x \<Longrightarrow> x < b \<Longrightarrow> x < c \<or> d \<le> x \<Longrightarrow> f x = None"
  shows "rendered v a b f w"
proof -
  have e: "(if c \<le> x \<and> x < d then f x else None) = (if a \<le> x \<and> x < b then f x else None)" for x
    using assms(2-4) by (cases "a \<le> x \<and> x < b"; cases "c \<le> x \<and> x < d") auto
  have s: "\<forall>r\<in>set w. r \<in> set v \<or> a \<le> fstart r \<and> fend r \<le> b"
    using assms(1-3) unfolding rendered_def by (meson order_trans)
  show ?thesis using assms(1) s unfolding rendered_def e by blast
qed

lemma rendered_flat: "rendered v a b f w \<Longrightarrow> flat_ok w"
  by (simp add: rendered_def)

text \<open>One region after another into the same window.\<close>

lemma rendered_seq:
  assumes "rendered v a b f w" and "rendered w a b g u"
  shows "rendered v a b (\<lambda>x. case f x of Some y \<Rightarrow> Some y | None \<Rightarrow> g x) u"
proof -
  have "\<forall>r\<in>set u. r \<in> set v \<or> a \<le> fstart r \<and> fend r \<le> b" using assms by (auto simp: rendered_def)
  then show ?thesis using assms by (auto simp: rendered_def split: option.splits)
qed

lemma fill_rendered:
  assumes "flat_ok v" and "a \<le> b" and "no_straddle v a"
  shows "rendered v a b (\<lambda>x. Some (mid, x - base, mr_dirty_log_mask mr, mr_readable mr, ro))
    (gaps_filled (region_range mid mr ro) v a (b - a) (a - base))"
proof -
  have mk: "makes_ranges (region_range mid mr ro)" by (auto simp: makes_ranges_def region_range_def)
  have "gap_at (region_range mid mr ro) (- base) x =
      (mid, x - base, mr_dirty_log_mask mr, mr_readable mr, ro)" for x
    by (simp add: gap_at_def fr_at_def region_range_def addrrange_make_def)
  with gaps_filled_fills [OF mk assms, of "- base"] show ?thesis
    by (auto simp: fills_def rendered_def split: option.split)
qed

lemma no_straddle_window:
  assumes "rendered v a b f w" and "clear v a b" and "a < b"
  shows "no_straddle w a"
  unfolding no_straddle_def
proof
  fix r assume "r \<in> set w"
  with assms(1) have "r \<in> set v \<or> a \<le> fstart r" by (auto simp: rendered_def)
  with assms(2,3) show "\<not> (fstart r < a \<and> a < fend r)" by (fastforce simp: clear_def)
qed

lemma foldl_None: "foldl (\<lambda>v s. case v of None \<Rightarrow> None | Some w \<Rightarrow> R w s) None ss = None"
  by (induction ss) simp_all

lemma fold_rendered:
  assumes step: "\<And>s v w. s \<in> set ss \<Longrightarrow> flat_ok v \<Longrightarrow> clear v (max a (A s)) (min b (B s)) \<Longrightarrow> R v s = Some w \<Longrightarrow>
      rendered v (max a (A s)) (min b (B s)) (f s) w"
    and out: "\<And>s x. x < A s \<or> B s \<le> x \<Longrightarrow> f s x = None"
    and ord: "sorted_wrt (\<lambda>s t. B s \<le> A t \<or> B t \<le> A s) ss"
    and v: "flat_ok v" "\<forall>s\<in>set ss. clear v (max a (A s)) (min b (B s))"
    and r: "foldl (\<lambda>v s. case v of None \<Rightarrow> None | Some w \<Rightarrow> R w s) (Some v) ss = Some w"
  shows "rendered v a b (\<lambda>x. first_some (\<lambda>s. f s x) ss) w"
  using step ord v r
proof (induction ss arbitrary: v)
  case Nil
  then show ?case by (simp add: rendered_refl)
next
  case (Cons s ss)
  obtain v1 where v1: "R v s = Some v1"
    using Cons.prems(5) by (cases "R v s") (simp_all add: foldl_None)
  have r1: "rendered v (max a (A s)) (min b (B s)) (f s) v1"
    using Cons.prems v1 by simp
  have none: "f s x = None" if "a \<le> x" "x < b" "x < max a (A s) \<or> min b (B s) \<le> x" for x
    using that by (intro out) auto
  have r2: "rendered v a b (f s) v1"
    by (rule rendered_widen [OF r1 max.cobounded1 min.cobounded1]) (rule none)
  have clear1: "clear v1 (max a (A t)) (min b (B t))" if t: "t \<in> set ss" for t
  proof -
    have ap: "B s \<le> A t \<or> B t \<le> A s" using Cons.prems(2) t by simp
    have cv: "clear v (max a (A t)) (min b (B t))" using Cons.prems(4) t by simp
    show ?thesis
      unfolding clear_def
    proof (intro impI ballI)
      fix r
      assume lt: "max a (A t) < min b (B t)" and "r \<in> set v1"
      with r1 have "r \<in> set v \<or> max a (A s) \<le> fstart r \<and> fend r \<le> min b (B s)"
        unfolding rendered_def by blast
      then show "fend r \<le> max a (A t) \<or> min b (B t) \<le> fstart r"
        using cv lt ap unfolding clear_def by fastforce
    qed
  qed
  have "rendered v1 a b (\<lambda>x. first_some (\<lambda>s. f s x) ss) w"
    using Cons.prems v1 clear1 rendered_flat [OF r2] by (intro Cons.IH) auto
  from rendered_seq [OF r2 this] show ?case by simp
qed

lemma region_at_outside:
  "x < base + uint (mr_addr (st mid)) \<or> base + uint (mr_addr (st mid)) + mr_size (st mid) \<le> x \<Longrightarrow>
    region_at n st mid base ro x = None"
  by (cases n) (auto simp: Let_def)

text \<open>One region, when everything under it is rendered correctly.\<close>

abbreviation win_lo :: "store \<Rightarrow> nat \<Rightarrow> int \<Rightarrow> AddrRange \<Rightarrow> int" where
  "win_lo st mid base clip \<equiv> max (ar_start clip) (base + uint (mr_addr (st mid)))"

abbreviation win_hi :: "store \<Rightarrow> nat \<Rightarrow> int \<Rightarrow> AddrRange \<Rightarrow> int" where
  "win_hi st mid base clip \<equiv> min (addrrange_end clip) (base + uint (mr_addr (st mid)) + mr_size (st mid))"

lemma intersects_window:
  assumes "0 \<le> mr_size (st mid)" and "0 \<le> ar_size clip"
  shows "win_lo st mid base clip < win_hi st mid base clip \<Longrightarrow>
      addrrange_intersects (addrrange_make (base + uint (mr_addr (st mid))) (mr_size (st mid))) clip"
    and "addrrange_intersects (addrrange_make (base + uint (mr_addr (st mid))) (mr_size (st mid))) clip \<Longrightarrow>
      win_lo st mid base clip \<le> win_hi st mid base clip"
    and "addrrange_intersection (addrrange_make (base + uint (mr_addr (st mid))) (mr_size (st mid))) clip =
      addrrange_make (win_lo st mid base clip) (win_hi st mid base clip - win_lo st mid base clip)"
  using assms by (auto simp: range_defs addrrange_intersection_def Let_def max.commute min.commute)

lemma render_correct:
  assumes "no_overlap st"
  shows "0 \<le> ar_size clip \<Longrightarrow> flat_ok view \<Longrightarrow>
    clear view (win_lo st mid base clip) (win_hi st mid base clip) \<Longrightarrow>
    render_memory_region n st view mid base clip ro = Some w \<Longrightarrow>
    rendered view (win_lo st mid base clip) (win_hi st mid base clip) (region_at n st mid base ro) w"
proof (induction n arbitrary: view mid base clip ro w)
  case 0
  then show ?case by simp
next
  case (Suc n)
  let ?mr = "st mid"
  let ?base = "base + uint (mr_addr ?mr)"
  let ?ro = "ro \<or> mr_readonly ?mr"
  let ?tmp = "addrrange_make ?base (mr_size ?mr)"
  let ?a = "win_lo st mid base clip" and ?b = "win_hi st mid base clip"
  have size: "0 \<le> mr_size ?mr" for mid using assms by (simp add: no_overlap_def)
  note win = intersects_window [of st mid clip base, OF size Suc.prems(1)]
  consider (off) "\<not> mr_enabled ?mr" | (miss) "mr_enabled ?mr" "\<not> addrrange_intersects ?tmp clip"
    | (hit) "mr_enabled ?mr" "addrrange_intersects ?tmp clip" by blast
  then show ?case
  proof cases
    case off
    then show ?thesis using Suc.prems(2,4) by (auto simp: Let_def intro: rendered_refl)
  next
    case miss
    then have "\<not> ?a < ?b" using win(1) by blast
    with miss show ?thesis using Suc.prems(2,4) by (auto simp: Let_def intro!: rendered_refl)
  next
    case hit
    note ab = win(2) [OF hit(2)]
    let ?clip = "addrrange_make ?a (?b - ?a)"
    have clip: "ar_start ?clip = ?a" "addrrange_end ?clip = ?b" "ar_size ?clip = ?b - ?a"
      by (simp_all add: range_defs)
    show ?thesis
    proof (cases "mr_alias ?mr")
      case al: (Some al)
      let ?bal = "?base - uint (mr_addr (st al)) - uint (mr_alias_offset ?mr)"
      have r: "render_memory_region n st view al ?bal ?clip ?ro = Some w"
        using Suc.prems(4) hit al by (simp add: Let_def win(3))
      have "clear view (win_lo st al ?bal ?clip) (win_hi st al ?bal ?clip)"
        using Suc.prems(3) by (rule clear_mono) (simp_all only: clip max.cobounded1 min.cobounded1)
      from Suc.IH [OF _ Suc.prems(2) this r] ab
      have "rendered view (win_lo st al ?bal ?clip) (win_hi st al ?bal ?clip) (region_at n st al ?bal ?ro) w"
        by (simp add: clip)
      then have "rendered view ?a ?b (region_at n st al ?bal ?ro) w"
        by (rule rendered_widen) (auto simp: clip intro: region_at_outside)
      then show ?thesis
        by (rule rendered_cong) (use hit al in \<open>simp add: Let_def\<close>)
    next
      case None
      let ?fold = "foldl (\<lambda>v s. case v of None \<Rightarrow> None | Some w \<Rightarrow> render_memory_region n st w s ?base ?clip ?ro)
        (Some view) (mr_subregions ?mr)"
      obtain u where u: "?fold = Some u"
        and w: "w = (if mr_terminates ?mr then gaps_filled (region_range mid ?mr ?ro) u ?a (?b - ?a) (?a - ?base) else u)"
        using Suc.prems(4) hit None
        by (auto simp: Let_def win(3) clip get64_Some split: option.splits if_splits dest!: fill_gaps_result)
      have subs: "rendered view ?a ?b (\<lambda>x. first_some (\<lambda>s. region_at n st s ?base ?ro x) (mr_subregions ?mr)) u"
      proof (rule fold_rendered [where A = "\<lambda>s. ?base + uint (mr_addr (st s))"
            and B = "\<lambda>s. ?base + uint (mr_addr (st s)) + mr_size (st s)"])
        show "sorted_wrt (\<lambda>s t. ?base + uint (mr_addr (st s)) + mr_size (st s) \<le> ?base + uint (mr_addr (st t))
            \<or> ?base + uint (mr_addr (st t)) + mr_size (st t) \<le> ?base + uint (mr_addr (st s))) (mr_subregions ?mr)"
        proof -
          have "apart st = (\<lambda>s t. ?base + uint (mr_addr (st s)) + mr_size (st s) \<le> ?base + uint (mr_addr (st t))
              \<or> ?base + uint (mr_addr (st t)) + mr_size (st t) \<le> ?base + uint (mr_addr (st s)))"
            by (simp add: apart_def fun_eq_iff)
          moreover have "sorted_wrt (apart st) (mr_subregions ?mr)" using assms by (simp add: no_overlap_def)
          ultimately show ?thesis by simp
        qed
        show "\<forall>s\<in>set (mr_subregions ?mr). clear view (max ?a (?base + uint (mr_addr (st s))))
            (min ?b (?base + uint (mr_addr (st s)) + mr_size (st s)))"
          by (rule ballI, rule clear_mono [OF Suc.prems(3) max.cobounded1 min.cobounded1])
        show "rendered v (max ?a (?base + uint (mr_addr (st s)))) (min ?b (?base + uint (mr_addr (st s)) + mr_size (st s)))
            (region_at n st s ?base ?ro) z"
          if "flat_ok v" "clear v (max ?a (?base + uint (mr_addr (st s)))) (min ?b (?base + uint (mr_addr (st s)) + mr_size (st s)))"
            "render_memory_region n st v s ?base ?clip ?ro = Some z" for s v z
          using Suc.IH [where clip = ?clip and view = v and mid = s and base = ?base and ro = ?ro and w = z]
            that ab by (simp add: clip)
      qed (use u Suc.prems(2) region_at_outside in auto)
      show ?thesis
      proof (cases "mr_terminates ?mr \<and> ?a < ?b")
        case True
        have "rendered u ?a ?b (\<lambda>x. Some (mid, x - ?base, mr_dirty_log_mask ?mr, mr_readable ?mr, ?ro)) w"
          using fill_rendered [OF rendered_flat [OF subs] ab no_straddle_window [OF subs Suc.prems(3)]] True w by simp
        from rendered_seq [OF subs this] show ?thesis
          by (rule rendered_cong) (use hit None True in \<open>simp add: Let_def split: option.split\<close>)
      next
        case False
        then have "w = u" using w ab by auto
        with subs show ?thesis
          by (auto elim!: rendered_cong simp: Let_def hit None split: option.split) (use False in auto)
      qed
    qed
  qed
qed

section \<open>The depth bound\<close>

definition ranked :: "store \<Rightarrow> (nat \<Rightarrow> nat) \<Rightarrow> bool" where
  "ranked st rk \<longleftrightarrow> (\<forall>mid. (\<forall>s\<in>set (mr_subregions (st mid)). rk s < rk mid)
     \<and> (\<forall>a. mr_alias (st mid) = Some a \<longrightarrow> rk a < rk mid))"

text \<open>No assertion fails when every region with an area of its own is smaller than the whole 64-bit space.\<close>

definition regions_fit :: "store \<Rightarrow> bool" where
  "regions_fit st \<longleftrightarrow> (\<forall>mid. 0 \<le> mr_size (st mid) \<and> (mr_terminates (st mid) \<longrightarrow> mr_size (st mid) < 2 ^ 64))"

lemma window_fits:
  assumes "addrrange_intersects (addrrange_make (base + uint (mr_addr (st mid))) (mr_size (st mid))) clip"
    and "0 \<le> ar_size clip" and "0 \<le> mr_size (st mid)" "mr_size (st mid) < 2 ^ 64"
  shows "0 \<le> win_lo st mid base clip - (base + uint (mr_addr (st mid)))"
    "win_lo st mid base clip - (base + uint (mr_addr (st mid))) < 2 ^ 64"
    "win_hi st mid base clip - win_lo st mid base clip < 2 ^ 64"
  using assms by (auto simp: range_defs)

lemma render_enough:
  assumes rk: "ranked st rk" and fit: "regions_fit st"
  shows "rk mid < n \<Longrightarrow> sized view \<Longrightarrow> 0 \<le> ar_size clip \<Longrightarrow>
    \<exists>w. render_memory_region n st view mid base clip ro = Some w \<and> sized w"
proof (induction n arbitrary: view mid base clip ro)
  case (Suc n)
  let ?mr = "st mid"
  let ?base = "base + uint (mr_addr ?mr)"
  let ?a = "win_lo st mid base clip" and ?b = "win_hi st mid base clip"
  let ?clip = "addrrange_make ?a (?b - ?a)"
  let ?ro = "ro \<or> mr_readonly ?mr"
  have size: "0 \<le> mr_size ?mr" using fit by (simp add: regions_fit_def)
  note win = intersects_window [of st mid clip base, OF size Suc.prems(3)]
  have clip: "ar_start ?clip = ?a" "ar_size ?clip = ?b - ?a" by (simp_all add: range_defs)
  have sub: "rk s < n" if "s \<in> set (mr_subregions ?mr)" for s
    using rk that Suc.prems by (fastforce simp: ranked_def)
  have al: "rk a < n" if "mr_alias ?mr = Some a" for a
    using rk that Suc.prems by (fastforce simp: ranked_def)
  have fold: "\<exists>w. foldl (\<lambda>v s. case v of None \<Rightarrow> None | Some w \<Rightarrow> render_memory_region n st w s b c r) (Some v) ss = Some w
      \<and> sized w" if "\<forall>s\<in>set ss. rk s < n" "sized v" "0 \<le> ar_size c" for ss v b c r
    using that
  proof (induction ss arbitrary: v)
    case (Cons s ss)
    then obtain w where "render_memory_region n st v s b c r = Some w" "sized w" using Suc.IH by fastforce
    with Cons show ?case by simp
  qed simp
  show ?case
  proof (cases "mr_enabled ?mr \<and> addrrange_intersects (addrrange_make ?base (mr_size ?mr)) clip")
    case False
    then show ?thesis using Suc.prems(2) by (auto simp: Let_def)
  next
    case hit: True
    then have ab: "0 \<le> ar_size ?clip" using win(2) clip by simp
    show ?thesis
    proof (cases "mr_alias ?mr")
      case (Some a)
      with Suc.IH [OF al [OF Some] Suc.prems(2) ab] hit show ?thesis by (simp add: Let_def win(3))
    next
      case None
      obtain w where w: "foldl (\<lambda>v s. case v of None \<Rightarrow> None
          | Some w \<Rightarrow> render_memory_region n st w s ?base ?clip ?ro) (Some view) (mr_subregions ?mr) = Some w" "sized w"
        using fold [OF _ Suc.prems(2) ab] sub by blast
      show ?thesis
      proof (cases "mr_terminates ?mr")
        case False
        with w hit None show ?thesis by (simp add: Let_def win(3))
      next
        case True
        then have "mr_size ?mr < 2 ^ 64" using fit by (simp add: regions_fit_def)
        note wf = window_fits [of base st mid, OF conjunct2 [OF hit] Suc.prems(3) size this]
        then have "get64 (?a - ?base) = Some (?a - ?base)" by (simp only: get64_Some simp_thms)
        moreover obtain u where "fill_gaps (region_range mid ?mr ?ro) w ?a (?b - ?a) (?a - ?base) = Some u" "sized u"
          using fill_gaps_enough [of "region_range mid ?mr ?ro" w "?b - ?a" ?a "?a - ?base"] w(2) ab clip wf(3)
          by (auto simp: region_range_def addrrange_make_def)
        ultimately show ?thesis using w hit None True by (simp add: Let_def win(3) clip)
      qed
    qed
  qed
qed simp

section \<open>Inside a transaction\<close>

datatype mem_op =
    Add_subregion nat u64 nat | Add_subregion_overlap nat u64 nat u32 | Del_subregion nat nat
  | Set_enabled nat bool | Set_address nat u64 | Set_alias_offset nat u64 | Set_readonly nat bool
  | Set_readable nat bool | Set_log nat bool nat | Set_memory_map nat | Set_io_map nat
  | Add_eventfd nat MemoryRegionIoeventfd | Del_eventfd nat MemoryRegionIoeventfd

fun mem_apply :: "nat \<Rightarrow> mem_op \<Rightarrow> memory \<Rightarrow> memory option" where
  "mem_apply n (Add_subregion mr off s) m = memory_region_add_subregion n mr off s m"
| "mem_apply n (Add_subregion_overlap mr off s p) m = memory_region_add_subregion_overlap n mr off s p m"
| "mem_apply n (Del_subregion mr s) m = memory_region_del_subregion n mr s m"
| "mem_apply n (Set_enabled mr b) m = memory_region_set_enabled n mr b m"
| "mem_apply n (Set_address mr a) m = memory_region_set_address n mr a m"
| "mem_apply n (Set_alias_offset mr a) m = memory_region_set_alias_offset n mr a m"
| "mem_apply n (Set_readonly mr b) m = memory_region_set_readonly n mr b m"
| "mem_apply n (Set_readable mr b) m = memory_region_rom_device_set_readable n mr b m"
| "mem_apply n (Set_log mr b c) m = memory_region_set_log n mr b c m"
| "mem_apply n (Set_memory_map mr) m = set_system_memory_map n mr m"
| "mem_apply n (Set_io_map mr) m = set_system_io_map n mr m"
| "mem_apply n (Add_eventfd mr e) m = memory_region_add_eventfd n mr e m"
| "mem_apply n (Del_eventfd mr e) m = memory_region_del_eventfd n mr e m"

definition quiet :: "memory \<Rightarrow> memory \<Rightarrow> bool" where
  "quiet m m1 \<longleftrightarrow> told m1 = told m \<and> mem_map m1 = mem_map m \<and> io_map m1 = io_map m
     \<and> mem_ioeventfds m1 = mem_ioeventfds m \<and> io_ioeventfds m1 = io_ioeventfds m
     \<and> transaction_depth m1 = transaction_depth m"

lemma quiet_refl [simp]: "quiet m m"
  by (simp add: quiet_def)

lemma quiet_trans: "quiet a b \<Longrightarrow> quiet b c \<Longrightarrow> quiet a c"
  by (simp add: quiet_def)

lemma quiet_set_region [simp]: "quiet m1 (set_region mid f m) \<longleftrightarrow> quiet m1 m"
  by (simp add: quiet_def set_region_def)

lemma quiet_fields [simp]:
  "quiet m1 (m\<lparr>mem_root := r\<rparr>) \<longleftrightarrow> quiet m1 m" "quiet m1 (m\<lparr>io_root := r\<rparr>) \<longleftrightarrow> quiet m1 m"
  "quiet m1 (m\<lparr>update_pending := b\<rparr>) \<longleftrightarrow> quiet m1 m"
  by (simp_all add: quiet_def)

lemma set_region_depth [simp]: "transaction_depth (set_region mid f m) = transaction_depth m"
  by (simp add: set_region_def)

lemma update_topology_quiet:
  "transaction_depth m \<noteq> 0 \<Longrightarrow> memory_region_update_topology n mr m = Some m1 \<Longrightarrow> quiet m m1"
  by (auto simp: memory_region_update_topology_def Let_def)

lemma update_topology_quiet_from:
  assumes "memory_region_update_topology n mr x = Some m1" and "quiet m x" and "transaction_depth m \<noteq> 0"
  shows "quiet m m1"
  using assms update_topology_quiet [of x n mr m1] quiet_trans by (auto simp: quiet_def)

lemma add_common_quiet:
  assumes "memory_region_add_subregion_common n mr off s x = Some m1" and "quiet m x" and "transaction_depth m \<noteq> 0"
  shows "quiet m m1"
  using assms by (auto simp: memory_region_add_subregion_common_def Let_def split: if_splits
      elim!: update_topology_quiet_from)

lemma add_quiet:
  "memory_region_add_subregion n mr off s x = Some m1 \<Longrightarrow> quiet m x \<Longrightarrow> transaction_depth m \<noteq> 0 \<Longrightarrow> quiet m m1"
  "memory_region_add_subregion_overlap n mr off s p x = Some m1 \<Longrightarrow> quiet m x \<Longrightarrow> transaction_depth m \<noteq> 0 \<Longrightarrow>
     quiet m m1"
  unfolding memory_region_add_subregion_def memory_region_add_subregion_overlap_def
  by (erule add_common_quiet, simp_all)+

lemma del_quiet:
  assumes "memory_region_del_subregion n mr s x = Some m1" and "quiet m x" and "transaction_depth m \<noteq> 0"
  shows "quiet m m1"
  using assms by (auto simp: memory_region_del_subregion_def split: if_splits elim!: update_topology_quiet_from)

lemma set_address_quiet:
  assumes "memory_region_set_address n mr addr m = Some m1" and d: "transaction_depth m \<noteq> 0"
  shows "quiet m m1"
proof (cases "if addr = mr_addr (regions m mr) then None else mr_parent (regions m mr)")
  case None
  then show ?thesis using assms(1) by (auto simp: memory_region_set_address_def Let_def)
next
  case (Some parent)
  let ?b = "memory_region_transaction_begin m"
  let ?r = "regions m mr"
  obtain m2 where m2: "memory_region_del_subregion n parent mr ?b = Some m2"
    using assms(1) Some by (auto simp: memory_region_set_address_def Let_def split: option.splits)
  obtain m3 where m3: "(if mr_may_overlap ?r
      then memory_region_add_subregion_overlap n parent addr mr (mr_priority ?r) m2
      else memory_region_add_subregion n parent addr mr m2) = Some m3"
    and c: "memory_region_transaction_commit n m3 = Some m1"
    using assms(1) Some m2 by (auto simp: memory_region_set_address_def Let_def split: option.splits)
  have b: "transaction_depth ?b \<noteq> 0" by (simp add: memory_region_transaction_begin_def)
  have q: "quiet ?b m2" by (rule del_quiet [OF m2 quiet_refl b])
  have "quiet ?b m3"
  proof (cases "mr_may_overlap ?r")
    case True
    with m3 have "memory_region_add_subregion_overlap n parent addr mr (mr_priority ?r) m2 = Some m3" by simp
    from add_quiet(2) [OF this q b] show ?thesis .
  next
    case False
    with m3 have "memory_region_add_subregion n parent addr mr m2 = Some m3" by simp
    from add_quiet(1) [OF this q b] show ?thesis .
  qed
  then show ?thesis
    using c d by (auto simp: memory_region_transaction_commit_def Let_def quiet_def
        memory_region_transaction_begin_def split: if_splits)
qed

lemma mem_apply_quiet:
  assumes "transaction_depth m \<noteq> 0" and "mem_apply n op m = Some m1"
  shows "quiet m m1"
  using assms
  by (cases op)
    (auto simp: memory_region_set_enabled_def memory_region_set_alias_offset_def memory_region_set_readonly_def
      memory_region_rom_device_set_readable_def memory_region_set_log_def set_system_memory_map_def
      set_system_io_map_def Let_def set_address_quiet memory_region_add_eventfd_def memory_region_del_eventfd_def
      split: if_splits option.splits
      elim!: update_topology_quiet_from add_quiet del_quiet)

section \<open>Properties\<close>

text \<open>C3: [topology_rendered] When siblings do not overlap and the tree has no cycle, rendering with a
  bound above the rank of the root gives a flat view that is sorted, disjoint and fully merged, and
  that at every address gives exactly what the tree resolves that address to, through containers,
  priorities and aliases; an assertion of the code fails only when some region with an area of its own
  takes the whole 64-bit space.\<close>

theorem topology_rendered:
  assumes "no_overlap st" and "ranked st rk" and "rk root < n"
  shows "case generate_memory_topology n st root of
      Some w \<Rightarrow> flat_ok w \<and> no_merges w \<and>
        (\<forall>x. view_at w x = (if 0 \<le> x \<and> x < 2 ^ 64 then region_at n st root 0 False x else None))
    | None \<Rightarrow> \<exists>mid. mr_terminates (st mid) \<and> 2 ^ 64 \<le> mr_size (st mid)"
proof (cases "render_memory_region n st [] root 0 (addrrange_make 0 (2 ^ 64)) False")
  case None
  have "\<not> regions_fit st"
    using render_enough [OF assms(2) _ assms(3), of "[]" "addrrange_make 0 (2 ^ 64)" 0 False] None
    by (auto simp: sized_def addrrange_make_def)
  then have "\<exists>mid. mr_terminates (st mid) \<and> 2 ^ 64 \<le> mr_size (st mid)"
    using assms(1) by (auto simp: regions_fit_def no_overlap_def not_less)
  with None show ?thesis by (simp add: generate_memory_topology_def)
next
  case v: (Some v)
  let ?all = "addrrange_make 0 (2 ^ 64)"
  have "rendered [] (win_lo st root 0 ?all) (win_hi st root 0 ?all) (region_at n st root 0 False) v"
    by (rule render_correct [OF assms(1) _ _ _ v]) (simp_all add: addrrange_make_def clear_def)
  moreover have "win_lo st root 0 ?all \<le> x \<and> x < win_hi st root 0 ?all \<longleftrightarrow> 0 \<le> x \<and> x < 2 ^ 64
      \<and> uint (mr_addr (st root)) \<le> x \<and> x < uint (mr_addr (st root)) + mr_size (st root)" for x
  proof -
    have "0 \<le> x" if "uint (mr_addr (st root)) \<le> x"
      by (rule order_trans [OF _ that]) simp
    then show ?thesis by (auto simp: range_defs max.bounded_iff min_less_iff_conj)
  qed
  moreover have "region_at n st root 0 False x = None"
    if "\<not> (uint (mr_addr (st root)) \<le> x \<and> x < uint (mr_addr (st root)) + mr_size (st root))" for x
    using that by (intro region_at_outside) auto
  ultimately have "flat_ok v" and at: "view_at v x =
      (if 0 \<le> x \<and> x < 2 ^ 64 then region_at n st root 0 False x else None)" for x
    by (auto simp: rendered_def)
  from flatview_simplify_ok [OF this(1)] at v show ?thesis
    by (simp add: generate_memory_topology_def)
qed

text \<open>A small machine: a container of the whole address space with memory at 0 and, through an alias,
  again at 64.\<close>

definition demo_store :: store where
  "demo_store = (\<lambda>_. memory_region_init 0)
     (0 := (memory_region_init (- 1))\<lparr>mr_subregions := [1, 2]\<rparr>,
      1 := (memory_region_init_ram 16)\<lparr>mr_parent := Some 0\<rparr>,
      2 := (memory_region_init_alias 1 4 8)\<lparr>mr_parent := Some 0, mr_addr := 64\<rparr>)"

lemma four: "(4 :: nat) = Suc (Suc (Suc (Suc 0)))"
  by simp

lemma two: "(2 :: nat) = Suc (Suc 0)"
  by simp

theorem topology_rendered_witness:
  "\<exists>w. generate_memory_topology 4 demo_store 0 = Some w \<and>
     view_at w 66 = Some (1, 6, 0, True, False) \<and> view_at w 80 = None"
proof -
  note d = demo_store_def memory_region_init_def memory_region_init_ram_def memory_region_init_alias_def
  have "no_overlap demo_store" by (simp add: no_overlap_def d apart_def)
  moreover have "ranked demo_store (\<lambda>m. if m = 0 then 2 else if m = 2 then 1 else 0)"
    by (simp add: ranked_def d)
  moreover have "mr_size (demo_store mid) < 2 ^ 64 \<or> \<not> mr_terminates (demo_store mid)" for mid by (simp add: d)
  ultimately obtain w where w: "generate_memory_topology 4 demo_store 0 = Some w"
    and at: "\<forall>x. view_at w x = (if 0 \<le> x \<and> x < 2 ^ 64 then region_at 4 demo_store 0 0 False x else None)"
    using topology_rendered [of demo_store _ 0 4] by (force split: option.splits)
  have "region_at 4 demo_store 0 0 False 66 = Some (1, 6, 0, True, False)"
    "region_at 4 demo_store 0 0 False 80 = None"
    by (subst four, simp add: d)+
  with w at show ?thesis by simp
qed

text \<open>[topology_overlap] With overlapping siblings the rendering is wrong when a region starts strictly
  inside one of higher priority: it is put into the view over the range that should hide it, and the
  ranges of the view are no longer disjoint.\<close>

theorem topology_overlap:
  "\<exists>st w. ranked st (\<lambda>m. if m = 0 then 1 else 0) \<and> mr_subregions (st 0) = [1, 2] \<and>
     mr_priority (st 2) < mr_priority (st 1) \<and>
     generate_memory_topology 2 st 0 = Some w \<and> \<not> flat_ok w \<and>
     (\<exists>r\<in>set w. fr_mr r = 2 \<and> addrrange_contains (fr_addr r) 7) \<and>
     region_at 2 st 0 0 False 7 = Some (1, 7, 0, True, False)"
proof -
  let ?st = "(\<lambda>_. memory_region_init 0)
     (0 := (memory_region_init (- 1))\<lparr>mr_subregions := [1, 2]\<rparr>,
      1 := (memory_region_init_ram 10)\<lparr>mr_parent := Some 0, mr_priority := 1, mr_may_overlap := True\<rparr>,
      2 := (memory_region_init_ram 15)\<lparr>mr_parent := Some 0, mr_addr := 5, mr_may_overlap := True\<rparr>) :: store"
  note d = memory_region_init_def memory_region_init_ram_def
  let ?w = "[region_range 1 (?st 1) False 0 0 10, region_range 2 (?st 2) False 0 5 15]"
  have "render_memory_region 2 ?st [] 0 0 (addrrange_make 0 (2 ^ 64)) False = Some ?w"
    by (subst two, simp add: d range_defs addrrange_intersection_def region_range_def get64_def Let_def)
  then have "generate_memory_topology 2 ?st 0 = Some ?w"
    by (simp add: generate_memory_topology_def can_merge_def region_range_def range_defs)
  moreover have "\<not> flat_ok ?w" by (simp add: region_range_def range_defs)
  moreover have "\<exists>r\<in>set ?w. fr_mr r = 2 \<and> addrrange_contains (fr_addr r) 7"
    by (simp add: region_range_def range_defs)
  moreover have "region_at 2 ?st 0 0 False 7 = Some (1, 7, 0, True, False)"
    by (subst two, simp add: d)
  moreover have "ranked ?st (\<lambda>m. if m = 0 then 1 else 0)" by (simp add: ranked_def d)
  moreover have "mr_subregions (?st 0) = [1, 2]" "mr_priority (?st 2) < mr_priority (?st 1)"
    by (simp_all add: d)
  ultimately show ?thesis by blast
qed

text \<open>[topology_whole_region] A region with an area of its own that takes the whole 64-bit space, with
  another such region in it, cannot be rendered: the size of the range it steps across is no 64-bit
  number and the assertion fails.\<close>

theorem topology_whole_region:
  "\<exists>st. no_overlap st \<and> ranked st (\<lambda>m. if m = 0 then 1 else 0) \<and> mr_subregions (st 0) = [1] \<and>
     mr_terminates (st 0) \<and> mr_size (st 0) = 2 ^ 64 \<and> mr_terminates (st 1) \<and> mr_size (st 1) = 2 ^ 64 \<and>
     generate_memory_topology 2 st 0 = None"
proof -
  let ?st = "(\<lambda>_. memory_region_init 0)
     (0 := (memory_region_init_io (- 1))\<lparr>mr_subregions := [1]\<rparr>,
      1 := (memory_region_init_ram (- 1))\<lparr>mr_parent := Some 0\<rparr>) :: store"
  note d = memory_region_init_def memory_region_init_ram_def memory_region_init_io_def
  have "generate_memory_topology 2 ?st 0 = None"
    unfolding generate_memory_topology_def
    by (subst two, simp add: d range_defs addrrange_intersection_def region_range_def get64_def Let_def)
  moreover have "no_overlap ?st" by (simp add: no_overlap_def d)
  moreover have "ranked ?st (\<lambda>m. if m = 0 then 1 else 0)" by (simp add: ranked_def d)
  moreover have "mr_subregions (?st 0) = [1]" "mr_terminates (?st 0)" "mr_size (?st 0) = 2 ^ 64"
    "mr_terminates (?st 1)" "mr_size (?st 1) = 2 ^ 64"
    by (simp_all add: d)
  ultimately show ?thesis by blast
qed

text \<open>[insert_priority_order] A subregion is put where its priority says: a list of subregions in
  descending priority stays so, and among equal priorities the newest one comes first.\<close>

theorem insert_priority_order:
  assumes "sorted_wrt (\<lambda>a b. mr_priority (st b) \<le> mr_priority (st a)) xs"
  shows "sorted_wrt (\<lambda>a b. mr_priority (st b) \<le> mr_priority (st a)) (insert_priority st s xs) \<and>
    (\<exists>ys zs. xs = ys @ zs \<and> insert_priority st s xs = ys @ s # zs \<and>
      (\<forall>y\<in>set ys. mr_priority (st s) < mr_priority (st y)) \<and>
      (\<forall>z\<in>set zs. mr_priority (st z) \<le> mr_priority (st s)))"
  using assms
proof (induction xs)
  case Nil
  then show ?case by simp
next
  case (Cons x xs)
  show ?case
  proof (cases "mr_priority (st s) \<ge> mr_priority (st x)")
    case True
    then have "\<forall>z\<in>set (x # xs). mr_priority (st z) \<le> mr_priority (st s)"
      using Cons.prems by (auto intro: order_trans)
    then have "x # xs = [] @ (x # xs) \<and> insert_priority st s (x # xs) = [] @ s # (x # xs) \<and>
        (\<forall>y\<in>set []. mr_priority (st s) < mr_priority (st y)) \<and>
        (\<forall>z\<in>set (x # xs). mr_priority (st z) \<le> mr_priority (st s))"
      using True by simp
    moreover from this Cons.prems
    have "sorted_wrt (\<lambda>a b. mr_priority (st b) \<le> mr_priority (st a)) (insert_priority st s (x # xs))"
      by simp
    ultimately show ?thesis by blast
  next
    case False
    obtain ys zs where s: "xs = ys @ zs" "insert_priority st s xs = ys @ s # zs"
      "\<forall>y\<in>set ys. mr_priority (st s) < mr_priority (st y)" "\<forall>z\<in>set zs. mr_priority (st z) \<le> mr_priority (st s)"
      and o: "sorted_wrt (\<lambda>a b. mr_priority (st b) \<le> mr_priority (st a)) (insert_priority st s xs)"
      using Cons.IH Cons.prems by auto
    have lt: "mr_priority (st s) < mr_priority (st x)" using False by simp
    then have "sorted_wrt (\<lambda>a b. mr_priority (st b) \<le> mr_priority (st a)) (x # insert_priority st s xs)"
      using o s(1,2) Cons.prems by (auto intro: less_imp_le)
    moreover have "x # xs = (x # ys) @ zs" "insert_priority st s (x # xs) = (x # ys) @ s # zs"
      "\<forall>y\<in>set (x # ys). mr_priority (st s) < mr_priority (st y)"
      using s lt False by simp_all
    ultimately show ?thesis using s(4) False by (metis insert_priority.simps(2))
  qed
qed

theorem insert_priority_order_witness:
  "sorted_wrt (\<lambda>a b. mr_priority (demo_store b) \<le> mr_priority (demo_store a)) (insert_priority demo_store 3 [1, 2])"
  using insert_priority_order [of demo_store "[1, 2]" 3]
  by (simp add: demo_store_def memory_region_init_def memory_region_init_ram_def memory_region_init_alias_def)

text \<open>[memory_transaction] Between the begin and the commit of a transaction no change of the tree
  reaches the listeners or the maps; the outermost commit of pending changes updates each address
  space once, from the tree as it is then, inside one begin and commit notification; \<open>es\<close> and \<open>fs\<close> are
  the differences of the two spaces, in the case that no assertion fails.\<close>

theorem memory_transaction:
  assumes "transaction_depth m \<noteq> 0"
  shows "(mem_apply n op m = Some m1 \<longrightarrow>
      told m1 = told m \<and> mem_map m1 = mem_map m \<and> io_map m1 = io_map m \<and>
      mem_ioeventfds m1 = mem_ioeventfds m \<and> io_ioeventfds m1 = io_ioeventfds m \<and> transaction_depth m1 = transaction_depth m) \<and>
    (transaction_depth m = 1 \<and> update_pending m \<and> mem_root m = Some r \<and> io_root m = Some i \<and>
       generate_memory_topology n (regions m) r = Some v \<and> generate_memory_topology n (regions m) i = Some w \<and>
       and_then (topology_events False (mem_map m) v)
         (eventfd_events False (address_space_ioeventfds (regions m) v) (mem_ioeventfds m)) = Some es \<and>
       and_then (topology_events True (io_map m) w)
         (eventfd_events True (address_space_ioeventfds (regions m) w) (io_ioeventfds m)) = Some fs \<longrightarrow>
     (\<exists>m2. memory_region_transaction_commit n m = Some m2 \<and> mem_map m2 = v \<and> io_map m2 = w \<and>
        \<not> update_pending m2 \<and>
        told m2 = told m @ [Begin_update] @ es @ fs @ [Commit_update]))"
  using mem_apply_quiet [OF assms, of n op m1]
  by (auto simp: quiet_def memory_region_transaction_commit_def memory_region_update_topology_def Let_def
      update_spaces_def update_memory_space_def update_io_space_def tell_def)

theorem memory_transaction_witness:
  "\<exists>m1. mem_apply 4 (Set_enabled 1 False) \<lparr>regions = demo_store, mem_root = Some 0, io_root = None, mem_map = [],
      io_map = [], mem_ioeventfds = [], io_ioeventfds = [], transaction_depth = 1, update_pending = False, told = []\<rparr> = Some m1 \<and> told m1 = []"
proof -
  let ?m = "\<lparr>regions = demo_store, mem_root = Some 0, io_root = None, mem_map = [],
      io_map = [], mem_ioeventfds = [], io_ioeventfds = [], transaction_depth = 1, update_pending = False, told = []\<rparr>"
  have "mr_enabled (demo_store 1)"
    by (simp add: demo_store_def memory_region_init_def memory_region_init_ram_def)
  then obtain m1 where "mem_apply 4 (Set_enabled 1 False) ?m = Some m1"
    by (simp add: memory_region_set_enabled_def memory_region_update_topology_def set_region_def Let_def)
  then show ?thesis using memory_transaction [of ?m 4 "Set_enabled 1 False" m1] by simp
qed

end
