(* ===== verification/Bytes.thy ===== *)
theory Bytes
  imports Prelude
begin

text \<open>
  Byte order: the byte swaps of \<^verbatim>\<open>bswap.h\<close> and its loads and stores in both byte orders, as the code
  writes them, with the bytes of a word as the common view of them. RAM is a function from addresses
  to bytes; a C \<open>int\<close> result is a 32-bit word.
\<close>

section \<open>Swaps\<close>

definition bswap16 :: "u16 \<Rightarrow> u16" where
  "bswap16 x = push_bit 8 (x AND 0x00ff) OR drop_bit 8 (x AND 0xff00)"

definition bswap32 :: "u32 \<Rightarrow> u32" where
  "bswap32 x = push_bit 24 (x AND 0x000000ff) OR push_bit 8 (x AND 0x0000ff00)
     OR drop_bit 8 (x AND 0x00ff0000) OR drop_bit 24 (x AND 0xff000000)"

definition bswap64 :: "u64 \<Rightarrow> u64" where
  "bswap64 x = push_bit 56 (x AND 0x00000000000000ff) OR push_bit 40 (x AND 0x000000000000ff00)
     OR push_bit 24 (x AND 0x0000000000ff0000) OR push_bit 8 (x AND 0x00000000ff000000)
     OR drop_bit 8 (x AND 0x000000ff00000000) OR drop_bit 24 (x AND 0x0000ff0000000000)
     OR drop_bit 40 (x AND 0x00ff000000000000) OR drop_bit 56 (x AND 0xff00000000000000)"

section \<open>Loads and stores\<close>

type_synonym ram = "u64 \<Rightarrow> u8"

definition ldub_p :: "ram \<Rightarrow> u64 \<Rightarrow> u32" where
  "ldub_p m p = ucast (m p)"

definition lduw_le_p :: "ram \<Rightarrow> u64 \<Rightarrow> u32" where
  "lduw_le_p m p = ucast (m p) OR push_bit 8 (ucast (m (p + 1)))"

definition ldl_le_p :: "ram \<Rightarrow> u64 \<Rightarrow> u32" where
  "ldl_le_p m p = ucast (m p) OR push_bit 8 (ucast (m (p + 1))) OR push_bit 16 (ucast (m (p + 2)))
     OR push_bit 24 (ucast (m (p + 3)))"

text \<open>The two halves are C ints kept in 32-bit unsigned variables.\<close>

definition ldq_le_p :: "ram \<Rightarrow> u64 \<Rightarrow> u64" where
  "ldq_le_p m p = (let v1 = ldl_le_p m p; v2 = ldl_le_p m (p + 4) in ucast v1 OR push_bit 32 (ucast v2))"

definition stb_p :: "ram \<Rightarrow> u64 \<Rightarrow> u32 \<Rightarrow> ram" where
  "stb_p m p v = m(p := ucast v)"

definition stw_le_p :: "ram \<Rightarrow> u64 \<Rightarrow> u32 \<Rightarrow> ram" where
  "stw_le_p m p v = m(p := ucast v, p + 1 := ucast (drop_bit 8 v))"

definition stl_le_p :: "ram \<Rightarrow> u64 \<Rightarrow> u32 \<Rightarrow> ram" where
  "stl_le_p m p v = m(p := ucast v, p + 1 := ucast (drop_bit 8 v), p + 2 := ucast (drop_bit 16 v),
     p + 3 := ucast (drop_bit 24 v))"

definition stq_le_p :: "ram \<Rightarrow> u64 \<Rightarrow> u64 \<Rightarrow> ram" where
  "stq_le_p m p v = stl_le_p (stl_le_p m p (ucast v)) (p + 4) (ucast (drop_bit 32 v))"

definition lduw_be_p :: "ram \<Rightarrow> u64 \<Rightarrow> u32" where
  "lduw_be_p m p = push_bit 8 (ucast (m p)) OR ucast (m (p + 1))"

definition ldl_be_p :: "ram \<Rightarrow> u64 \<Rightarrow> u32" where
  "ldl_be_p m p = push_bit 24 (ucast (m p)) OR push_bit 16 (ucast (m (p + 1))) OR push_bit 8 (ucast (m (p + 2)))
     OR ucast (m (p + 3))"

definition stw_be_p :: "ram \<Rightarrow> u64 \<Rightarrow> u32 \<Rightarrow> ram" where
  "stw_be_p m p v = m(p := ucast (drop_bit 8 v), p + 1 := ucast v)"

definition stl_be_p :: "ram \<Rightarrow> u64 \<Rightarrow> u32 \<Rightarrow> ram" where
  "stl_be_p m p v = m(p := ucast (drop_bit 24 v), p + 1 := ucast (drop_bit 16 v), p + 2 := ucast (drop_bit 8 v),
     p + 3 := ucast v)"

text \<open>The accesses in the byte order of the target, \<open>big\<close> for a big-endian one.\<close>

definition lduw_p :: "bool \<Rightarrow> ram \<Rightarrow> u64 \<Rightarrow> u32" where
  "lduw_p big = (if big then lduw_be_p else lduw_le_p)"

definition ldl_p :: "bool \<Rightarrow> ram \<Rightarrow> u64 \<Rightarrow> u32" where
  "ldl_p big = (if big then ldl_be_p else ldl_le_p)"

definition stw_p :: "bool \<Rightarrow> ram \<Rightarrow> u64 \<Rightarrow> u32 \<Rightarrow> ram" where
  "stw_p big = (if big then stw_be_p else stw_le_p)"

definition stl_p :: "bool \<Rightarrow> ram \<Rightarrow> u64 \<Rightarrow> u32 \<Rightarrow> ram" where
  "stl_p big = (if big then stl_be_p else stl_le_p)"

section \<open>The bytes of a word\<close>

definition byte :: "'a::len word \<Rightarrow> nat \<Rightarrow> u8" where
  "byte v j = ucast (drop_bit (8 * j) v)"

lemma bit_byte: "bit (byte v j) n \<longleftrightarrow> n < 8 \<and> bit v (8 * j + n)"
  by (auto simp: byte_def bit_ucast_iff bit_drop_bit_eq)

lemma byte_eqI:
  fixes v w :: "'a::len word"
  assumes "\<And>j. 8 * j < LENGTH('a) \<Longrightarrow> byte v j = byte w j"
  shows "v = w"
proof (rule bit_word_eqI)
  fix n assume n: "n < LENGTH('a)"
  have "8 * (n div 8) \<le> n" by simp
  with n have "byte v (n div 8) = byte w (n div 8)" by (intro assms) linarith
  then have "bit (byte v (n div 8)) (n mod 8) = bit (byte w (n div 8)) (n mod 8)" by simp
  then show "bit v n = bit w n" by (simp add: bit_byte)
qed

lemma byte_0 [simp]: "byte 0 j = 0"
  by (simp add: byte_def)

lemma byte_OR: "byte (a OR b) j = byte a j OR byte b j"
  by (rule bit_word_eqI) (simp add: bit_byte bit_or_iff)

lemma byte_AND: "byte (a AND b) j = byte a j AND byte b j"
  by (rule bit_word_eqI) (simp add: bit_byte bit_and_iff)

lemma byte_beyond: "LENGTH('a) \<le> 8 * j \<Longrightarrow> byte (v :: 'a::len word) j = 0"
  by (rule bit_word_eqI) (auto simp: bit_byte dest: bit_imp_le_length)

lemma byte_push:
  fixes v :: "'a::len word"
  assumes "8 * Suc j \<le> LENGTH('a)"
  shows "byte (push_bit (8 * i) v) j = (if i \<le> j then byte v (j - i) else 0)"
proof (rule bit_word_eqI)
  fix n assume "n < LENGTH(8)"
  then have n: "n < 8" by simp
  show "bit (byte (push_bit (8 * i) v) j) n = bit (if i \<le> j then byte v (j - i) else 0) n"
  proof (cases "i \<le> j")
    case True
    then show ?thesis using n assms by (simp add: bit_byte bit_push_bit_iff diff_mult_distrib2)
  next
    case False
    then have "\<not> 8 * i \<le> 8 * j + n" using n by linarith
    then show ?thesis using False by (simp add: bit_byte bit_push_bit_iff)
  qed
qed

lemma byte_drop:
  "byte (drop_bit (8 * i) v) j = byte v (i + j)"
  by (rule bit_word_eqI) (simp add: bit_byte bit_drop_bit_eq ac_simps)

lemma byte_ucast:
  fixes v :: "'a::len word"
  assumes "8 * Suc j \<le> LENGTH('b)"
  shows "byte (ucast v :: 'b::len word) j = byte v j"
  by (rule bit_word_eqI) (use assms in \<open>auto simp: bit_byte bit_ucast_iff\<close>)

lemma byte_u8: "byte (v :: u8) j = (if j = 0 then v else 0)"
  by (rule bit_word_eqI) (auto simp: bit_byte dest: bit_imp_le_length)

lemma byte_low: "byte v 0 = ucast v"
  by (simp add: byte_def)

lemmas byte_push_bits = byte_push [where i = 1, simplified] byte_push [where i = 2, simplified]
  byte_push [where i = 3, simplified] byte_push [where i = 4, simplified] byte_push [where i = 5, simplified]
  byte_push [where i = 7, simplified]

lemmas byte_drop_bits = byte_drop [where i = 1, simplified] byte_drop [where i = 2, simplified]
  byte_drop [where i = 3, simplified] byte_drop [where i = 4, simplified] byte_drop [where i = 5, simplified]
  byte_drop [where i = 7, simplified]

lemmas byte_simps = byte_OR byte_AND byte_push_bits byte_drop_bits byte_ucast byte_u8

lemma byte_full [simp]: "(v :: u8) AND 255 = v" "255 AND (v :: u8) = v"
proof -
  have full: "(255 :: u8) = - 1" by simp
  show "v AND 255 = v" "255 AND v = v" by (simp_all only: full and.right_neutral and.left_neutral)
qed

lemma byte_none: "(65280 :: u8) = 0" "(16711680 :: u8) = 0" "(4278190080 :: u8) = 0" "(65535 :: u8) = 255"
  by simp_all

lemma less_4: "j < 4 \<longleftrightarrow> j = 0 \<or> j = 1 \<or> j = 2 \<or> j = (3 :: nat)"
  by auto

lemma less_8: "j < 8 \<longleftrightarrow> j < 4 \<or> j = 4 \<or> j = 5 \<or> j = 6 \<or> j = (7 :: nat)"
  by auto

lemma byte_bswap32: "j < 4 \<Longrightarrow> byte (bswap32 x) j = byte x (3 - j)"
  by (auto simp: bswap32_def byte_simps less_4) (simp_all add: byte_def byte_none)

lemma byte_bswap64: "j < 8 \<Longrightarrow> byte (bswap64 x) j = byte x (7 - j)"
  by (auto simp: bswap64_def byte_simps less_8 less_4) (simp_all add: byte_def byte_none)

lemma byte_bswap16: "j < 2 \<Longrightarrow> byte (bswap16 x) j = byte x (1 - j)"
  by (auto simp: bswap16_def byte_simps less_2_cases_iff) (simp_all add: byte_def)

lemma byte_ldub: "byte (ldub_p m p) j = (if j = 0 then m p else 0)"
proof (cases "j < 4")
  case True
  then show ?thesis by (simp add: ldub_p_def byte_simps)
next
  case False
  then show ?thesis by (simp add: byte_beyond)
qed

lemma byte_lduw: "byte (lduw_le_p m p) j = (if j < 2 then m (p + of_nat j) else 0)"
proof (cases "j < 4")
  case True
  then show ?thesis by (auto simp: lduw_le_p_def byte_simps less_4)
next
  case False
  then show ?thesis by (simp add: byte_beyond)
qed

lemma byte_ldl: "byte (ldl_le_p m p) j = (if j < 4 then m (p + of_nat j) else 0)"
proof (cases "j < 4")
  case True
  then show ?thesis by (auto simp: ldl_le_p_def byte_simps less_4)
next
  case False
  then show ?thesis by (simp add: byte_beyond)
qed

lemma byte_ldq: "j < 8 \<Longrightarrow> byte (ldq_le_p m p) j = m (p + of_nat j)"
  by (auto simp: ldq_le_p_def Let_def byte_simps byte_ldl byte_beyond less_8 less_4 ac_simps)

lemma byte_of_drop: "ucast (drop_bit 8 v) = byte v 1" "ucast (drop_bit 16 v) = byte v 2"
  "ucast (drop_bit 24 v) = byte v 3" "ucast v = byte v 0"
  by (simp_all add: byte_def)

lemma stb_eq: "stb_p m p v = m(p := byte v 0)"
  by (simp add: stb_p_def byte_of_drop)

lemma stw_eq: "stw_le_p m p v = m(p := byte v 0, p + 1 := byte v 1)"
  by (simp only: stw_le_p_def byte_of_drop(1,2,3)) (simp only: byte_of_drop(4))

lemma stl_eq: "stl_le_p m p v = m(p := byte v 0, p + 1 := byte v 1, p + 2 := byte v 2, p + 3 := byte v 3)"
  by (simp only: stl_le_p_def byte_of_drop(1,2,3)) (simp only: byte_of_drop(4))

lemma byte_lduw_be: "byte (lduw_be_p m p) j = (if j < 2 then m (p + of_nat (1 - j)) else 0)"
proof (cases "j < 4")
  case True
  then show ?thesis by (auto simp: lduw_be_p_def byte_simps less_4)
next
  case False
  then show ?thesis by (simp add: byte_beyond)
qed

lemma byte_ldl_be: "byte (ldl_be_p m p) j = (if j < 4 then m (p + of_nat (3 - j)) else 0)"
proof (cases "j < 4")
  case True
  then show ?thesis by (auto simp: ldl_be_p_def byte_simps less_4)
next
  case False
  then show ?thesis by (simp add: byte_beyond)
qed

lemma stw_be_eq: "stw_be_p m p v = m(p := byte v 1, p + 1 := byte v 0)"
  by (simp only: stw_be_p_def byte_of_drop(1,2,3)) (simp only: byte_of_drop(4))

lemma stl_be_eq: "stl_be_p m p v = m(p := byte v 3, p + 1 := byte v 2, p + 2 := byte v 1, p + 3 := byte v 0)"
  by (simp only: stl_be_p_def byte_of_drop(1,2,3)) (simp only: byte_of_drop(4))

lemma bswap_twice:
  "bswap16 (bswap16 x) = x" "bswap32 (bswap32 y) = y" "bswap64 (bswap64 z) = z"
proof -
  show "bswap16 (bswap16 x) = x" by (rule byte_eqI) (auto simp: byte_bswap16)
  show "bswap32 (bswap32 y) = y" by (rule byte_eqI) (auto simp: byte_bswap32)
  show "bswap64 (bswap64 z) = z" by (rule byte_eqI) (auto simp: byte_bswap64)
qed

section \<open>Properties\<close>

text \<open>[bytes_roundtrip] Each byte swap undoes itself, and what a store of either byte order puts at an address,
  across the end of the address range too, the load of the same size gives back, cut to that size.\<close>

theorem bytes_roundtrip:
  "bswap16 (bswap16 x) = x \<and> bswap32 (bswap32 y) = y \<and> bswap64 (bswap64 z) = z \<and>
   ldub_p (stb_p m p y) p = y AND 0xff \<and>
   lduw_le_p (stw_le_p m p y) p = y AND 0xffff \<and>
   ldl_le_p (stl_le_p m p y) p = y \<and>
   ldq_le_p (stq_le_p m p z) p = z \<and>
   lduw_p big (stw_p big m p y) p = y AND 0xffff \<and>
   ldl_p big (stl_p big m p y) p = y"
proof (intro conjI)
  show "bswap16 (bswap16 x) = x" "bswap32 (bswap32 y) = y" "bswap64 (bswap64 z) = z"
    by (rule bswap_twice)+
  show "ldub_p (stb_p m p y) p = y AND 0xff"
    by (rule byte_eqI) (auto simp: byte_ldub stb_eq byte_AND less_4, simp_all add: byte_def)
  show w: "lduw_le_p (stw_le_p m p y) p = y AND 0xffff"
    by (rule byte_eqI) (auto simp: byte_lduw stw_eq byte_AND less_4, simp_all add: byte_def byte_none)
  show l: "ldl_le_p (stl_le_p m p y) p = y"
    by (rule byte_eqI) (auto simp: byte_ldl stl_eq less_4)
  have "lduw_be_p (stw_be_p m p y) p = y AND 0xffff"
    by (rule byte_eqI) (auto simp: byte_lduw_be stw_be_eq byte_AND less_4, simp_all add: byte_def byte_none)
  with w show "lduw_p big (stw_p big m p y) p = y AND 0xffff" by (simp add: lduw_p_def stw_p_def)
  have "ldl_be_p (stl_be_p m p y) p = y"
    by (rule byte_eqI) (auto simp: byte_ldl_be stl_be_eq less_4)
  with l show "ldl_p big (stl_p big m p y) p = y" by (simp add: ldl_p_def stl_p_def)
  show "ldq_le_p (stq_le_p m p z) p = z"
    by (rule byte_eqI) (auto simp: byte_ldq stq_le_p_def stl_eq less_8 less_4 byte_simps byte_drop_bits)
qed

end
