(* ===== verification/MemoryAccess.thy ===== *)
theory MemoryAccess
  imports Bytes "HOL-Library.Monad_Syntax"
begin

text \<open>
  What a guest access does to a device (\<^verbatim>\<open>memory.c\<close>): the check of the access, its splitting into the
  sizes the device implements, byte order, old style memory callbacks and old style port lists. The
  device is a state of type \<open>'d\<close>; its callbacks are functions on it and may abort (\<open>None\<close>). Access sizes
  are 1, 2, 4 or 8, as in C's callers; a shift count beyond the word, which C leaves undefined, does not
  arise for them. An assertion that fails, an \<open>abort\<close> and a call through a null pointer are \<open>None\<close>.
\<close>

section \<open>Devices\<close>

datatype device_endian = DEVICE_NATIVE_ENDIAN | DEVICE_BIG_ENDIAN | DEVICE_LITTLE_ENDIAN

record 'd MemoryRegionPortio =
  po_offset :: u32
  po_len :: u32
  po_size :: nat
  po_read :: "('d \<Rightarrow> u32 \<Rightarrow> u32 \<times> 'd) option"
  po_write :: "('d \<Rightarrow> u32 \<Rightarrow> u32 \<Rightarrow> 'd) option"

record 'd MemoryRegionOps =
  op_read :: "('d \<Rightarrow> u64 \<Rightarrow> nat \<Rightarrow> (u64 \<times> 'd) option) option"
  op_write :: "('d \<Rightarrow> u64 \<Rightarrow> u64 \<Rightarrow> nat \<Rightarrow> 'd option) option"
  op_endianness :: device_endian
  valid_min_access_size :: nat
  valid_max_access_size :: nat
  valid_unaligned :: bool
  valid_accepts :: "('d \<Rightarrow> u64 \<Rightarrow> nat \<Rightarrow> bool \<Rightarrow> bool) option"
  impl_min_access_size :: nat
  impl_max_access_size :: nat
  op_old_portio :: "'d MemoryRegionPortio list option"
  old_mmio_read :: "('d \<Rightarrow> u64 \<Rightarrow> u32 \<times> 'd) option list"
  old_mmio_write :: "('d \<Rightarrow> u64 \<Rightarrow> u32 \<Rightarrow> 'd) option list"

section \<open>Splitting an access\<close>

type_synonym 'd accessor = "'d \<Rightarrow> u64 \<Rightarrow> u64 \<Rightarrow> nat \<Rightarrow> nat \<Rightarrow> u64 \<Rightarrow> (u64 \<times> 'd) option"

definition memory_region_read_accessor :: "('d \<Rightarrow> u64 \<Rightarrow> nat \<Rightarrow> (u64 \<times> 'd) option) \<Rightarrow> 'd accessor" where
  "memory_region_read_accessor rd d addr value n shift mask1 =
     do { (tmp, d1) \<leftarrow> rd d addr n; Some (value OR push_bit shift (tmp AND mask1), d1) }"

definition memory_region_write_accessor :: "('d \<Rightarrow> u64 \<Rightarrow> u64 \<Rightarrow> nat \<Rightarrow> 'd option) \<Rightarrow> 'd accessor" where
  "memory_region_write_accessor wr d addr value n shift mask1 =
     do { let tmp = drop_bit shift value AND mask1; d1 \<leftarrow> wr d addr tmp n; Some (value, d1) }"

definition access_mask :: "nat \<Rightarrow> u64" where
  "access_mask n = drop_bit (64 - n * 8) (- 1)"

definition access_size :: "nat \<Rightarrow> nat \<Rightarrow> nat \<Rightarrow> nat" where
  "access_size n amin amax =
     (let amin1 = (if amin = 0 then 1 else amin); amax1 = (if amax = 0 then 4 else amax)
      in max (min n amax1) amin1)"

text \<open>The loop; the first argument bounds the number of turns.\<close>

fun access_loop :: "nat \<Rightarrow> 'd accessor \<Rightarrow> u64 \<Rightarrow> nat \<Rightarrow> nat \<Rightarrow> nat \<Rightarrow> u64 \<Rightarrow> 'd \<Rightarrow> (u64 \<times> 'd) option" where
  "access_loop 0 acc addr n asz i value d = None"
| "access_loop (Suc k) acc addr n asz i value d =
     (if i < n
      then do { (value1, d1) \<leftarrow> acc d (addr + of_nat i) value asz (i * 8) (access_mask asz);
                access_loop k acc addr n asz (i + asz) value1 d1 }
      else Some (value, d))"

definition access_with_adjusted_size ::
  "u64 \<Rightarrow> u64 \<Rightarrow> nat \<Rightarrow> nat \<Rightarrow> nat \<Rightarrow> 'd accessor \<Rightarrow> 'd \<Rightarrow> (u64 \<times> 'd) option" where
  "access_with_adjusted_size addr value n amin amax acc d =
     access_loop (Suc n) acc addr n (access_size n amin amax) 0 value d"

section \<open>Memory accesses\<close>

definition memory_region_access_valid :: "'d MemoryRegionOps \<Rightarrow> 'd \<Rightarrow> u64 \<Rightarrow> nat \<Rightarrow> bool \<Rightarrow> bool" where
  "memory_region_access_valid ops d addr n is_write =
     (if (case valid_accepts ops of None \<Rightarrow> False | Some f \<Rightarrow> \<not> f d addr n is_write) then False
      else if \<not> valid_unaligned ops \<and> addr AND of_nat (n - 1) \<noteq> 0 then False
      else if valid_max_access_size ops = 0 then True
      else if n > valid_max_access_size ops \<or> n < valid_min_access_size ops then False
      else True)"

definition bitops_ffsl :: "u64 \<Rightarrow> nat" where
  "bitops_ffsl w0 =
     (let s = (\<lambda>k (num, w :: u64). if w AND mask k = 0 then (num + k, drop_bit k w) else (num, w))
      in fst (s 1 (s 2 (s 4 (s 8 (s 16 (s 32 (0, w0))))))))"

text \<open>An old style callback of the table, by the size of the access.\<close>

definition old_mmio :: "'f option list \<Rightarrow> nat \<Rightarrow> 'f option" where
  "old_mmio fs n = (let i = bitops_ffsl (of_nat n) in if i < length fs then fs ! i else None)"

definition memory_region_dispatch_read1 :: "'d MemoryRegionOps \<Rightarrow> 'd \<Rightarrow> u64 \<Rightarrow> nat \<Rightarrow> (u64 \<times> 'd) option" where
  "memory_region_dispatch_read1 ops d addr n =
     (if \<not> memory_region_access_valid ops d addr n False then Some (0xffffffff, d)
      else case op_read ops of
        None \<Rightarrow>
          do { f \<leftarrow> old_mmio (old_mmio_read ops) n; let (v, d1) = f d addr; Some (ucast v, d1) }
      | Some rd \<Rightarrow>
          access_with_adjusted_size addr 0 n (impl_min_access_size ops) (impl_max_access_size ops)
            (memory_region_read_accessor rd) d)"

definition memory_region_wrong_endianness :: "bool \<Rightarrow> 'd MemoryRegionOps \<Rightarrow> bool" where
  "memory_region_wrong_endianness target_big ops =
     (if target_big then op_endianness ops = DEVICE_LITTLE_ENDIAN else op_endianness ops = DEVICE_BIG_ENDIAN)"

definition adjust_endianness :: "bool \<Rightarrow> 'd MemoryRegionOps \<Rightarrow> u64 \<Rightarrow> nat \<Rightarrow> u64 option" where
  "adjust_endianness target_big ops data n =
     (if memory_region_wrong_endianness target_big ops
      then if n = 1 then Some data
           else if n = 2 then Some (ucast (bswap16 (ucast data)))
           else if n = 4 then Some (ucast (bswap32 (ucast data)))
           else None
      else Some data)"

definition memory_region_dispatch_read :: "bool \<Rightarrow> 'd MemoryRegionOps \<Rightarrow> 'd \<Rightarrow> u64 \<Rightarrow> nat \<Rightarrow> (u64 \<times> 'd) option" where
  "memory_region_dispatch_read target_big ops d addr n =
     do { (ret, d1) \<leftarrow> memory_region_dispatch_read1 ops d addr n;
          ret1 \<leftarrow> adjust_endianness target_big ops ret n;
          Some (ret1, d1) }"

definition memory_region_dispatch_write :: "bool \<Rightarrow> 'd MemoryRegionOps \<Rightarrow> 'd \<Rightarrow> u64 \<Rightarrow> u64 \<Rightarrow> nat \<Rightarrow> 'd option" where
  "memory_region_dispatch_write target_big ops d addr data n =
     (if \<not> memory_region_access_valid ops d addr n True then Some d
      else do {
        data1 \<leftarrow> adjust_endianness target_big ops data n;
        case op_write ops of
          None \<Rightarrow> do { f \<leftarrow> old_mmio (old_mmio_write ops) n; Some (f d addr (ucast data1)) }
        | Some wr \<Rightarrow>
            map_option snd
              (access_with_adjusted_size addr data1 n (impl_min_access_size ops) (impl_max_access_size ops)
                (memory_region_write_accessor wr) d) })"

section \<open>Port accesses\<close>

text \<open>The port list ends at an entry of size 0.\<close>

fun find_portio :: "'d MemoryRegionPortio list \<Rightarrow> u64 \<Rightarrow> nat \<Rightarrow> bool \<Rightarrow> 'd MemoryRegionPortio option" where
  "find_portio [] offset width write = None"
| "find_portio (p # ps) offset width write =
     (if po_size p = 0 then None
      else if offset \<ge> ucast (po_offset p) \<and> offset < ucast (po_offset p + po_len p)
          \<and> width = po_size p \<and> (if write then po_write p \<noteq> None else po_read p \<noteq> None)
      then Some p
      else find_portio ps offset width write)"

text \<open>\<open>moff\<close> is the offset of the I/O range in the region. The two reads of a split word are made in the
  order of the bytes; C leaves the order of the operands open.\<close>

definition memory_region_iorange_read ::
  "'d MemoryRegionOps \<Rightarrow> u64 \<Rightarrow> 'd \<Rightarrow> u64 \<Rightarrow> nat \<Rightarrow> (u64 \<times> 'd) option" where
  "memory_region_iorange_read ops moff d offset0 width =
     (let offset = offset0 + moff in
      case op_old_portio ops of
        Some ps \<Rightarrow>
          (case find_portio ps (offset - moff) width False of
             Some p \<Rightarrow> do { f \<leftarrow> po_read p; let (v, d1) = f d (ucast offset); Some (ucast v, d1) }
           | None \<Rightarrow>
               if width = 2
               then do {
                 p \<leftarrow> find_portio ps (offset - moff) 1 False;
                 f \<leftarrow> po_read p;
                 let (lo, d1) = f d (ucast offset);
                 let (hi, d2) = f d1 (ucast (offset + 1));
                 Some (ucast (lo OR push_bit 8 hi), d2) }
               else Some (push_bit (width * 8) 1 - 1, d))
      | None \<Rightarrow>
          do { rd \<leftarrow> op_read ops;
               access_with_adjusted_size offset 0 width (impl_min_access_size ops) (impl_max_access_size ops)
                 (memory_region_read_accessor rd) d })"

definition memory_region_iorange_write ::
  "'d MemoryRegionOps \<Rightarrow> u64 \<Rightarrow> 'd \<Rightarrow> u64 \<Rightarrow> nat \<Rightarrow> u64 \<Rightarrow> 'd option" where
  "memory_region_iorange_write ops moff d offset0 width data =
     (let offset = offset0 + moff in
      case op_old_portio ops of
        Some ps \<Rightarrow>
          (case find_portio ps (offset - moff) width True of
             Some p \<Rightarrow> do { f \<leftarrow> po_write p; Some (f d (ucast offset) (ucast data)) }
           | None \<Rightarrow>
               if width = 2
               then do {
                 p \<leftarrow> find_portio ps (offset - moff) 1 False;
                 f \<leftarrow> po_write p;
                 let d1 = f d (ucast offset) (ucast (data AND 0xff));
                 Some (f d1 (ucast (offset + 1)) (ucast (drop_bit 8 data))) }
               else Some d)
      | None \<Rightarrow>
          do { wr \<leftarrow> op_write ops;
               map_option snd
                 (access_with_adjusted_size offset data width (impl_min_access_size ops) (impl_max_access_size ops)
                   (memory_region_write_accessor wr) d) })"

section \<open>RAM behind a sub-page\<close>

text \<open>The device that \<^verbatim>\<open>exec.c\<close> uses for RAM in a page shared with other regions; its loads and stores
  are in the byte order of the target.\<close>

definition subpage_ram_read :: "bool \<Rightarrow> ram \<Rightarrow> u64 \<Rightarrow> nat \<Rightarrow> (u64 \<times> ram) option" where
  "subpage_ram_read target_big m addr n =
     (if n = 1 then Some (scast (ldub_p m addr), m)
      else if n = 2 then Some (scast (lduw_p target_big m addr), m)
      else if n = 4 then Some (scast (ldl_p target_big m addr), m)
      else None)"

definition subpage_ram_write :: "bool \<Rightarrow> ram \<Rightarrow> u64 \<Rightarrow> u64 \<Rightarrow> nat \<Rightarrow> ram option" where
  "subpage_ram_write target_big m addr v n =
     (if n = 1 then Some (stb_p m addr (ucast v))
      else if n = 2 then Some (stw_p target_big m addr (ucast v))
      else if n = 4 then Some (stl_p target_big m addr (ucast v))
      else None)"

section \<open>The loop\<close>

lemma access_size_pos: "0 < access_size n amin amax"
  by (auto simp: access_size_def Let_def max_def)

text \<open>One access of the split, and all of them in turn.\<close>

definition one_access :: "'d accessor \<Rightarrow> u64 \<Rightarrow> nat \<Rightarrow> nat \<Rightarrow> (u64 \<times> 'd) option \<Rightarrow> (u64 \<times> 'd) option" where
  "one_access acc addr asz k r =
     Option.bind r (\<lambda>(value, d). acc d (addr + of_nat (k * asz)) value asz (k * asz * 8) (access_mask asz))"

lemma one_access_Some:
  "one_access acc addr asz k (Some (v, d)) = acc d (addr + of_nat (k * asz)) v asz (k * asz * 8) (access_mask asz)"
  by (simp add: one_access_def)

lemma access_loop_steps:
  assumes "0 < asz" and "i = k * asz" and "n - i < fuel"
  shows "access_loop fuel acc addr n asz i v d =
     fold (one_access acc addr asz) [k..<(n + asz - 1) div asz] (Some (v, d))"
  using assms
proof (induction fuel arbitrary: i k v d)
  case 0
  then show ?case by simp
next
  case (Suc fuel)
  have none: "fold (one_access acc addr asz) ks None = None" for ks
    by (induction ks) (simp_all add: one_access_def)
  show ?case
  proof (cases "i < n")
    case True
    then have "Suc k * asz \<le> n + asz - 1"
      using Suc.prems by simp
    then have "k < (n + asz - 1) div asz"
      using Suc.prems(1) by (metis Suc_le_eq div_le_mono nonzero_mult_div_cancel_right not_gr_zero)
    then have split: "[k..<(n + asz - 1) div asz] = k # [Suc k..<(n + asz - 1) div asz]"
      by (rule upt_conv_Cons)
    have "n - (i + asz) < fuel" using Suc.prems True by linarith
    then have IH: "access_loop fuel acc addr n asz (i + asz) v1 d1 =
        fold (one_access acc addr asz) [Suc k..<(n + asz - 1) div asz] (Some (v1, d1))" for v1 d1
      using Suc.prems by (intro Suc.IH) simp_all
    have "access_loop (Suc fuel) acc addr n asz i v d =
        fold (one_access acc addr asz) [Suc k..<(n + asz - 1) div asz] (one_access acc addr asz k (Some (v, d)))"
      using True
      by (cases "acc d (addr + of_nat i) v asz (i * 8) (access_mask asz)")
        (auto simp only: access_loop.simps if_True one_access_def Suc.prems(2) bind.simps prod.case none
          IH [unfolded Suc.prems(2)])
    then show ?thesis by (simp only: split fold.simps o_apply)
  next
    case False
    then have "n + asz - 1 < Suc k * asz" using Suc.prems by simp
    then have "(n + asz - 1) div asz \<le> k"
      using Suc.prems(1) by (simp add: less_Suc_eq_le div_less_iff_less_mult flip: less_Suc_eq_le)
    then show ?thesis using False by simp
  qed
qed

lemma access_split:
  "access_with_adjusted_size addr v n amin amax acc d =
     fold (one_access acc addr (access_size n amin amax))
       [0..<(n + access_size n amin amax - 1) div access_size n amin amax] (Some (v, d))"
  unfolding access_with_adjusted_size_def by (rule access_loop_steps) (simp_all add: access_size_pos)

lemma fold_total:
  assumes "\<And>x r. x \<in> set xs \<Longrightarrow> r \<noteq> None \<Longrightarrow> f x r \<noteq> None" and "r \<noteq> None"
  shows "fold f xs r \<noteq> None"
  using assms by (induction xs arbitrary: r) (fastforce, simp)

lemma byte_access_mask:
  assumes "asz \<le> 8" and "j < 8"
  shows "byte (access_mask asz) j = (if j < asz then 255 else 0)"
proof (rule bit_word_eqI)
  fix b assume "b < LENGTH(8)"
  then have b: "b < 8" by simp
  have full: "(255 :: u8) = - 1" by simp
  have "8 * j + b < 8 * asz \<longleftrightarrow> j < asz" "8 * j + b < 64" using b assms(2) by linarith+
  moreover have "bit (access_mask asz) k \<longleftrightarrow> k < 64 \<and> k < 8 * asz" for k
    using assms(1) by (auto simp: access_mask_def bit_simps)
  ultimately show "bit (byte (access_mask asz) j) b = bit (if j < asz then 255 else 0 :: u8) b"
    using b by (simp add: bit_byte full del: word_of_int_numeral)
qed

section \<open>Devices made of bytes\<close>

text \<open>A device whose accesses of 1, 2 and 4 bytes read and write consecutive bytes; \<open>ix n j\<close> is the place,
  among the \<open>n\<close> addresses, of byte \<open>j\<close> of the value.\<close>

locale byte_device =
  fixes rd :: "'d \<Rightarrow> u64 \<Rightarrow> nat \<Rightarrow> (u64 \<times> 'd) option"
    and wr :: "'d \<Rightarrow> u64 \<Rightarrow> u64 \<Rightarrow> nat \<Rightarrow> 'd option"
    and getb :: "'d \<Rightarrow> u64 \<Rightarrow> u8"
    and ix :: "nat \<Rightarrow> nat \<Rightarrow> nat"
  assumes reads: "n \<in> {1, 2, 4} \<Longrightarrow> \<exists>v. rd d a n = Some (v, d) \<and> (\<forall>j<n. byte v j = getb d (a + of_nat (ix n j)))"
    and writes: "n \<in> {1, 2, 4} \<Longrightarrow> \<exists>d1. wr d a v n = Some d1 \<and>
      (\<forall>x. getb d1 x = (if unat (x - a) < n then byte v (ix n (unat (x - a))) else getb d x))"
    and within: "j < n \<Longrightarrow> ix n j < n"
begin

lemma read_access:
  assumes "asz \<in> {1, 2, 4}" and "i + asz \<le> 8"
  shows "\<exists>v1. memory_region_read_accessor rd d (addr + of_nat i) v asz (i * 8) (access_mask asz) = Some (v1, d) \<and>
    (\<forall>j<8. byte v1 j = byte v j OR (if i \<le> j \<and> j < i + asz then getb d (addr + of_nat (i + ix asz (j - i))) else 0))"
proof -
  obtain t where t: "rd d (addr + of_nat i) asz = Some (t, d)"
    "\<forall>j<asz. byte t j = getb d (addr + of_nat i + of_nat (ix asz j))"
    using reads [OF assms(1)] by blast
  have m: "byte (access_mask asz) j = (if j < asz then 255 else 0)" if "j < 8" for j
    using that assms by (intro byte_access_mask) auto
  have "byte (v OR push_bit (i * 8) (t AND access_mask asz)) j =
      byte v j OR (if i \<le> j \<and> j < i + asz then getb d (addr + of_nat (i + ix asz (j - i))) else 0)" if "j < 8" for j
  proof (cases "i \<le> j")
    case True
    then show ?thesis
      using that t(2) by (auto simp: byte_OR byte_AND byte_push m add.assoc mult.commute [of i 8])
  next
    case False
    then show ?thesis using that by (simp add: byte_OR byte_AND byte_push mult.commute [of i 8])
  qed
  then show ?thesis by (simp add: memory_region_read_accessor_def t(1))
qed

end

text \<open>The place of byte \<open>j\<close> of a value that is split into parts of \<open>asz\<close> bytes.\<close>

definition part_place :: "(nat \<Rightarrow> nat \<Rightarrow> nat) \<Rightarrow> nat \<Rightarrow> nat \<Rightarrow> nat" where
  "part_place ix asz j = j div asz * asz + ix asz (j mod asz)"

lemma part_place_at:
  assumes "m * asz \<le> j" and "j < m * asz + asz"
  shows "part_place ix asz j = m * asz + ix asz (j - m * asz)"
proof -
  have "j div asz = m" by (rule div_nat_eqI) (use assms in \<open>simp_all add: mult.commute\<close>)
  then show ?thesis unfolding part_place_def by (simp add: modulo_nat_def)
qed

lemma part_place_twice:
  assumes "\<And>k. k < asz \<Longrightarrow> ix asz k < asz \<and> ix asz (ix asz k) = k" and "j < m * asz"
  shows "part_place ix asz j < m * asz" and "part_place ix asz (part_place ix asz j) = j"
proof -
  have p: "0 < asz" using assms(2) by (cases asz) auto
  then have k: "ix asz (j mod asz) < asz" "ix asz (ix asz (j mod asz)) = j mod asz" using assms(1) by simp_all
  have d: "j div asz < m" using assms(2) by (simp add: less_mult_imp_div_less)
  then have "Suc (j div asz) * asz \<le> m * asz" by (intro mult_le_mono1) simp
  then show "part_place ix asz j < m * asz" using k(1) by (simp add: part_place_def)
  have "part_place ix asz j div asz = j div asz" "part_place ix asz j mod asz = ix asz (j mod asz)"
    using k(1) by (simp_all add: part_place_def)
  then show "part_place ix asz (part_place ix asz j) = j"
    using k(2) by (simp add: part_place_def [of ix asz "part_place ix asz j"])
qed

context byte_device
begin

abbreviation place :: "nat \<Rightarrow> nat \<Rightarrow> nat" where
  "place \<equiv> part_place ix"

lemmas place_at = part_place_at [where ix = ix]

lemma read_all:
  assumes "asz \<in> {1, 2, 4}" and "m * asz \<le> 8"
  shows "\<exists>v1. fold (one_access (memory_region_read_accessor rd) addr asz) [0..<m] (Some (v, d)) = Some (v1, d) \<and>
    (\<forall>j<8. byte v1 j = byte v j OR (if j < m * asz then getb d (addr + of_nat (place asz j)) else 0))"
  using assms(2)
proof (induction m)
  case 0
  then show ?case by simp
next
  case (Suc m)
  then obtain v1 where v1: "fold (one_access (memory_region_read_accessor rd) addr asz) [0..<m] (Some (v, d)) = Some (v1, d)"
    "\<forall>j<8. byte v1 j = byte v j OR (if j < m * asz then getb d (addr + of_nat (place asz j)) else 0)" by auto
  obtain v2 where v2: "one_access (memory_region_read_accessor rd) addr asz m (Some (v1, d)) = Some (v2, d)"
    "\<forall>j<8. byte v2 j = byte v1 j OR
      (if m * asz \<le> j \<and> j < m * asz + asz then getb d (addr + of_nat (m * asz + ix asz (j - m * asz))) else 0)"
    using read_access [of asz "m * asz" d addr v1] assms(1) Suc.prems unfolding one_access_Some by auto
  have "byte v2 j = byte v j OR (if j < Suc m * asz then getb d (addr + of_nat (place asz j)) else 0)" if "j < 8" for j
  proof -
    consider "j < m * asz" | "m * asz \<le> j" "j < m * asz + asz" | "m * asz + asz \<le> j" by linarith
    then show ?thesis
    proof cases
      case 2
      with v1(2) v2(2) that show ?thesis by (simp add: place_at [OF 2])
    qed (use v1(2) v2(2) that in auto)
  qed
  then show ?case using v1(1) v2(1) by simp
qed

lemma write_all:
  assumes "asz \<in> {1, 2, 4}" and "m * asz \<le> 8"
  shows "\<exists>d1. fold (one_access (memory_region_write_accessor wr) addr asz) [0..<m] (Some (v, d)) = Some (v, d1) \<and>
    (\<forall>x. getb d1 x = (if unat (x - addr) < m * asz then byte v (place asz (unat (x - addr))) else getb d x))"
  using assms(2)
proof (induction m)
  case 0
  then show ?case by simp
next
  case (Suc m)
  then obtain d1 where d1: "fold (one_access (memory_region_write_accessor wr) addr asz) [0..<m] (Some (v, d)) = Some (v, d1)"
    "\<forall>x. getb d1 x = (if unat (x - addr) < m * asz then byte v (place asz (unat (x - addr))) else getb d x)" by auto
  let ?t = "drop_bit (m * asz * 8) v AND access_mask asz"
  have le: "m * asz + asz \<le> 8" using Suc.prems by simp
  have t: "byte ?t j = byte v (m * asz + j)" if "j < asz" for j
    using that le byte_drop [of "m * asz" v j] by (simp add: byte_AND byte_access_mask mult.commute [of "m * asz" 8])
  define w :: u64 where "w = of_nat (m * asz)"
  have small: "unat w = m * asz"
    unfolding w_def unsigned_of_nat of_nat_id by (rule take_bit_nat_eq_self) (use le in simp)
  obtain d2 where d2: "wr d1 (addr + w) ?t asz = Some d2"
    "\<forall>x. getb d2 x = (if unat (x - (addr + w)) < asz then byte ?t (ix asz (unat (x - (addr + w)))) else getb d1 x)"
    using writes [OF assms(1)] by blast
  have "getb d2 x = (if unat (x - addr) < Suc m * asz then byte v (place asz (unat (x - addr))) else getb d x)" for x
  proof (cases "m * asz \<le> unat (x - addr)")
    case True
    then have "unat (x - (addr + w)) = unat (x - addr) - m * asz"
      using small by (simp add: unat_sub word_le_nat_alt flip: diff_diff_add)
    then show ?thesis
      using True d1(2) d2(2) t [OF within [of "unat (x - addr) - m * asz" asz]] place_at [OF True] by auto
  next
    case False
    then have "unat (x - (addr + w)) = 2 ^ 64 + unat (x - addr) - m * asz"
      using small by (simp add: unat_sub_if' word_le_nat_alt flip: diff_diff_add)
    then show ?thesis using False le d1(2) d2(2) by auto
  qed
  moreover have "one_access (memory_region_write_accessor wr) addr asz m (Some (v, d1)) = Some (v, d2)"
    unfolding one_access_Some memory_region_write_accessor_def Let_def by (simp only: d2(1) [unfolded w_def]) simp
  ultimately show ?case using d1(1) by simp
qed

end

lemma byte_scast:
  assumes "8 * Suc j \<le> LENGTH('a)" and "LENGTH('a) \<le> LENGTH('b)"
  shows "byte (scast (v :: 'a::len word) :: 'b::len word) j = byte v j"
proof (rule bit_word_eqI)
  fix n assume n: "n < LENGTH(8)"
  then have "min (LENGTH('a) - Suc 0) (8 * j + n) = 8 * j + n" using assms(1) by simp
  then show "bit (byte (scast v :: 'b word) j) n = bit (byte v j) n"
    using n assms by (simp add: bit_byte bit_signed_iff)
qed

lemma small_offset:
  fixes x a :: u64
  assumes "j < 8"
  shows "unat (x - a) = j \<longleftrightarrow> x = a + of_nat j"
proof
  assume "unat (x - a) = j"
  then have "x - a = of_nat j" 
    using assms by (simp add: word_unat_eq_iff unsigned_of_nat take_bit_nat_eq_self)
  then show "x = a + of_nat j" by (simp add: diff_eq_eq ac_simps)
next
  assume "x = a + of_nat j"
  then show "unat (x - a) = j" using assms by (simp add: unsigned_of_nat take_bit_nat_eq_self)
qed

text \<open>The place of byte \<open>j\<close> in an access of \<open>n\<close> bytes: the lowest byte is first on a little-endian target,
  last on a big-endian one.\<close>

definition target_ix :: "bool \<Rightarrow> nat \<Rightarrow> nat \<Rightarrow> nat" where
  "target_ix big n j = (if big then n - 1 - j else j)"

lemma target_ix_twice: "k < n \<Longrightarrow> target_ix big n k < n \<and> target_ix big n (target_ix big n k) = k"
  by (auto simp: target_ix_def)

interpretation subram: byte_device "subpage_ram_read big" "subpage_ram_write big" "\<lambda>m. m" "target_ix big"
  for big
proof
  fix n :: nat and d :: ram and a
  assume "n \<in> {1, 2, 4}"
  then show "\<exists>v. subpage_ram_read big d a n = Some (v, d) \<and> (\<forall>j<n. byte v j = d (a + of_nat (target_ix big n j)))"
    by (cases big) (auto simp: subpage_ram_read_def lduw_p_def ldl_p_def target_ix_def byte_scast byte_ldub byte_lduw
        byte_ldl byte_lduw_be byte_ldl_be)
next
  fix n j :: nat
  assume "j < n"
  then show "target_ix big n j < n" by (auto simp: target_ix_def)
next
  fix n :: nat and d :: ram and a v :: u64
  assume "n \<in> {1, 2, 4}"
  moreover have "byte (ucast v :: u32) j = byte v j" if "j < 4" for j
    using that by (simp add: byte_ucast)
  moreover have "unat (x - a) < 4 \<longleftrightarrow> x = a \<or> x = a + 1 \<or> x = a + 2 \<or> x = a + 3"
    "unat (x - a) < 2 \<longleftrightarrow> x = a \<or> x = a + 1" "unat (x - a) < 1 \<longleftrightarrow> x = a" for x :: u64
    using small_offset [of 0 x a] small_offset [of 1 x a] small_offset [of 2 x a] small_offset [of 3 x a]
    by (simp_all add: less_4 less_2_cases_iff)
  ultimately show "\<exists>d1. subpage_ram_write big d a v n = Some d1 \<and>
      (\<forall>x. d1 x = (if unat (x - a) < n then byte v (target_ix big n (unat (x - a))) else d x))"
    by (cases big) (auto simp: subpage_ram_write_def stw_p_def stl_p_def target_ix_def stb_eq stw_eq stl_eq
        stw_be_eq stl_be_eq)
qed

lemma ram_split:
  assumes "access_size n amin amax \<in> {1, 2, 4}" and "access_size n amin amax dvd n" and "n \<le> 8"
  shows "(\<exists>v. access_with_adjusted_size addr 0 n amin amax (memory_region_read_accessor (subpage_ram_read big)) m = Some (v, m) \<and>
      (\<forall>j<8. byte v j = (if j < n then m (addr + of_nat (part_place (target_ix big) (access_size n amin amax) j)) else 0))) \<and>
    (\<exists>m1. access_with_adjusted_size addr data n amin amax (memory_region_write_accessor (subpage_ram_write big)) m = Some (data, m1) \<and>
      (\<forall>x. m1 x = (if unat (x - addr) < n
        then byte data (part_place (target_ix big) (access_size n amin amax) (unat (x - addr))) else m x)))"
proof -
  let ?asz = "access_size n amin amax"
  obtain k where k: "n = k * ?asz" using assms(2) by (metis dvd_def mult.commute)
  have "(n + ?asz - 1) div ?asz = k"
  proof (rule div_nat_eqI)
    show "?asz * k \<le> n + ?asz - 1" using k access_size_pos [of n amin amax] by (simp add: mult.commute)
    show "n + ?asz - 1 < ?asz * Suc k" using k access_size_pos [of n amin amax] by (simp add: mult.commute)
  qed
  then show ?thesis
    using subram.read_all [of ?asz k big addr 0 m] subram.write_all [of ?asz k big addr data m] assms(1,3) k
    by (simp only: access_split byte_0 or.left_neutral)
qed

section \<open>Properties\<close>

text \<open>[access_terminates] For a callback that returns, the splitting loop ends within the turns it is
  given: it makes one access for each step of the access size up to the size of the whole, in order of
  the address.\<close>

theorem access_terminates:
  assumes "\<And>d a v k s m. \<exists>r. acc d a v k s m = Some r"
  shows "\<exists>r. access_with_adjusted_size addr v n amin amax acc d = Some r \<and>
    fold (one_access acc addr (access_size n amin amax))
      [0..<(n + access_size n amin amax - 1) div access_size n amin amax] (Some (v, d)) = Some r"
proof -
  have "fold (one_access acc addr (access_size n amin amax))
      [0..<(n + access_size n amin amax - 1) div access_size n amin amax] (Some (v, d)) \<noteq> None"
  proof (rule fold_total)
    fix k and r :: "(u64 \<times> 'a) option"
    assume "r \<noteq> None"
    then obtain w e where r: "r = Some (w, e)" by auto
    show "one_access acc addr (access_size n amin amax) k r \<noteq> None"
      unfolding r one_access_Some using assms by (metis option.distinct(1))
  qed simp
  then show ?thesis by (simp add: access_split)
qed

theorem access_terminates_witness:
  "\<exists>r. access_with_adjusted_size 16 0 4 0 2 (\<lambda>d a v k s m. Some (v, a # d)) [] = Some r"
  using access_terminates [of "\<lambda>d a v k s m. Some (v, a # d)" 16 0 4 0 2 "[]"] by auto

text \<open>[ram_access_any_split] However the access to RAM is split, with steps of 1, 2 or 4 bytes that do
  not exceed it, a read gives the bytes from the address on and changes nothing, and a write puts the bytes of the
  value there and leaves every other byte; the parts are in the order of the addresses, each part in the
  byte order of the target.\<close>

theorem ram_access_any_split:
  assumes "access_size n amin amax \<in> {1, 2, 4}" and "access_size n amin amax dvd n" and "n \<le> 8"
  shows "(\<exists>v. access_with_adjusted_size addr 0 n amin amax (memory_region_read_accessor (subpage_ram_read big)) m = Some (v, m) \<and>
      (\<forall>j<8. byte v j = (if j < n then m (addr + of_nat (part_place (target_ix big) (access_size n amin amax) j)) else 0))) \<and>
    (\<exists>m1. access_with_adjusted_size addr data n amin amax (memory_region_write_accessor (subpage_ram_write big)) m = Some (data, m1) \<and>
      (\<forall>x. m1 x = (if unat (x - addr) < n
        then byte data (part_place (target_ix big) (access_size n amin amax) (unat (x - addr))) else m x)))"
  by (rule ram_split [OF assms])

theorem ram_access_any_split_witness:
  "\<exists>v. access_with_adjusted_size 16 0 8 0 0 (memory_region_read_accessor (subpage_ram_read False)) (\<lambda>a. ucast a) = Some (v, \<lambda>a. ucast a)
     \<and> byte v 5 = 21"
  using ram_access_any_split [of 8 0 0 16 False "\<lambda>a. ucast a" 0]
  by (auto simp: access_size_def part_place_def target_ix_def)

lemma adjust_twice:
  assumes "n \<in> {1, 2, 4}"
  shows "\<exists>d1. adjust_endianness big ops data n = Some d1 \<and>
    adjust_endianness big ops (take_bit (8 * n) d1) n = Some (take_bit (8 * n) data)"
proof (cases "memory_region_wrong_endianness big ops")
  case True
  have "ucast (ucast data :: u16) = take_bit 16 data" "ucast (ucast data :: u32) = take_bit 32 data"
    by (simp_all add: bit_eq_iff bit_simps)
  moreover have "ucast (take_bit 16 (ucast (w :: u16) :: u64)) = w" "ucast (take_bit 32 (ucast (x :: u32) :: u64)) = x" for w x
    by (simp_all add: bit_eq_iff bit_simps)
  ultimately show ?thesis
    using True assms by (auto simp: adjust_endianness_def bswap_twice)
next
  case False
  then show ?thesis by (simp add: adjust_endianness_def)
qed

lemma bytes_take_bit:
  assumes "\<And>j. j < 8 \<Longrightarrow> byte v j = (if j < n then byte d j else 0)"
  shows "(v :: u64) = take_bit (8 * n) d"
proof (rule byte_eqI)
  fix j assume "8 * j < LENGTH(64)"
  then have j: "j < 8" by simp
  have "byte (take_bit (8 * n) d) j = (if j < n then byte d j else 0)"
    by (rule bit_word_eqI) (auto simp: bit_byte bit_take_bit_iff)
  then show "byte v j = byte (take_bit (8 * n) d) j" using assms [OF j] by simp
qed

text \<open>C14: [mmio_roundtrip] For the RAM of a shared page: a guest write of 1, 2 or 4 bytes that is accepted and
  the read of the same size at the same address give back what was written, cut to the size, when the
  two are split into parts of 1, 2 or 4 bytes that are not larger than the access. This holds for either
  byte order of the target, and for any byte order declared for the device.\<close>

theorem mmio_roundtrip:
  assumes "op_read ops = Some (subpage_ram_read big)" and "op_write ops = Some (subpage_ram_write big)"
    and "memory_region_access_valid ops m addr n True" and "\<And>m1. memory_region_access_valid ops m1 addr n False"
    and "n \<in> {1, 2, 4}" and "access_size n (impl_min_access_size ops) (impl_max_access_size ops) \<in> {1, 2, 4}"
    and "access_size n (impl_min_access_size ops) (impl_max_access_size ops) \<le> n"
  shows "\<exists>m1. memory_region_dispatch_write big ops m addr data n = Some m1 \<and>
    memory_region_dispatch_read big ops m1 addr n = Some (take_bit (8 * n) data, m1)"
proof -
  let ?lo = "impl_min_access_size ops" and ?hi = "impl_max_access_size ops"
  let ?pl = "part_place (target_ix big) (access_size n ?lo ?hi)"
  have dv: "access_size n ?lo ?hi dvd n" "n \<le> 8" using assms(5,6,7) by auto
  then obtain k where k: "n = k * access_size n ?lo ?hi" by (metis dvd_def mult.commute)
  obtain d1 where d1: "adjust_endianness big ops data n = Some d1"
    "adjust_endianness big ops (take_bit (8 * n) d1) n = Some (take_bit (8 * n) data)"
    using adjust_twice [OF assms(5)] by blast
  obtain m1 where m1: "access_with_adjusted_size addr d1 n ?lo ?hi (memory_region_write_accessor (subpage_ram_write big)) m = Some (d1, m1)"
    "\<forall>x. m1 x = (if unat (x - addr) < n then byte d1 (?pl (unat (x - addr))) else m x)"
    using ram_split [OF assms(6) dv] by blast
  obtain v where v: "access_with_adjusted_size addr 0 n ?lo ?hi (memory_region_read_accessor (subpage_ram_read big)) m1 = Some (v, m1)"
    "\<forall>j<8. byte v j = (if j < n then m1 (addr + of_nat (?pl j)) else 0)"
    using ram_split [OF assms(6) dv] by blast
  have "m1 (addr + of_nat (?pl j)) = byte d1 j" if "j < n" for j
  proof -
    have "j < k * access_size n ?lo ?hi" using that k by simp
    note pl = part_place_twice [where ix = "target_ix big", OF target_ix_twice this, folded k]
    then show ?thesis
      using dv(2) m1(2) small_offset [of "?pl j" "addr + of_nat (?pl j)" addr] by simp
  qed
  then have "v = take_bit (8 * n) d1" using v(2) by (intro bytes_take_bit) auto
  then show ?thesis
    using assms(1-4) d1 m1(1) v(1)
    by (simp add: memory_region_dispatch_write_def memory_region_dispatch_read_def memory_region_dispatch_read1_def)
qed

theorem mmio_roundtrip_witness:
  "\<exists>m1. memory_region_dispatch_write True \<lparr>op_read = Some (subpage_ram_read True), op_write = Some (subpage_ram_write True),
      op_endianness = DEVICE_LITTLE_ENDIAN, valid_min_access_size = 1, valid_max_access_size = 4, valid_unaligned = False,
      valid_accepts = None, impl_min_access_size = 0, impl_max_access_size = 2, op_old_portio = None,
      old_mmio_read = [], old_mmio_write = []\<rparr> (\<lambda>_. 0) 8 0x12345678 4 = Some m1"
  using mmio_roundtrip [where ops = "\<lparr>op_read = Some (subpage_ram_read True), op_write = Some (subpage_ram_write True),
      op_endianness = DEVICE_LITTLE_ENDIAN, valid_min_access_size = 1, valid_max_access_size = 4, valid_unaligned = False,
      valid_accepts = None, impl_min_access_size = 0, impl_max_access_size = 2, op_old_portio = None,
      old_mmio_read = [], old_mmio_write = []\<rparr>" and m = "\<lambda>_. 0" and addr = 8 and n = 4
      and big = True and data = "0x12345678"]
  by (auto simp: memory_region_access_valid_def access_size_def)

text \<open>[portio_word_split] Where an old style port list has byte callbacks only, a word access is the two byte
  accesses, low byte first, provided the entry covers both ports and has a reader and a writer.\<close>

theorem portio_word_split:
  assumes "op_old_portio ops = Some ps"
    and "find_portio ps offset 2 True = None" and "find_portio ps offset 2 False = None"
    and "find_portio ps offset 1 True = Some p" and "find_portio ps (offset + 1) 1 True = Some p"
    and "find_portio ps offset 1 False = Some p" and "find_portio ps (offset + 1) 1 False = Some p"
  shows "memory_region_iorange_write ops moff d offset 2 data =
      Option.bind (memory_region_iorange_write ops moff d offset 1 (data AND 0xff))
        (\<lambda>d1. memory_region_iorange_write ops moff d1 (offset + 1) 1 (drop_bit 8 data)) \<and>
    memory_region_iorange_read ops moff d offset 2 =
      Option.bind (memory_region_iorange_read ops moff d offset 1)
        (\<lambda>(lo, d1). Option.bind (memory_region_iorange_read ops moff d1 (offset + 1) 1)
          (\<lambda>(hi, d2). Some (ucast (ucast lo OR push_bit 8 (ucast hi) :: u32), d2)))"
proof -
  have o: "offset + moff + 1 = offset + 1 + moff" by simp
  have "ucast (ucast (w :: u32) :: u64) = w" for w by (simp add: bit_eq_iff bit_simps)
  then show ?thesis
    using assms
    by (cases "po_write p"; cases "po_read p")
      (simp_all add: memory_region_iorange_write_def memory_region_iorange_read_def Let_def o ac_simps split_beta)
qed

definition demo_port :: "u32 list MemoryRegionPortio" where
  "demo_port = \<lparr>po_offset = 0, po_len = 4, po_size = 1, po_read = Some (\<lambda>d a. (a, d)), po_write = Some (\<lambda>d a v. v # d)\<rparr>"

definition demo_portio :: "u32 list MemoryRegionPortio \<Rightarrow> u32 list MemoryRegionOps" where
  "demo_portio p = \<lparr>op_read = None, op_write = None, op_endianness = DEVICE_NATIVE_ENDIAN, valid_min_access_size = 0,
     valid_max_access_size = 0, valid_unaligned = False, valid_accepts = None, impl_min_access_size = 0,
     impl_max_access_size = 0, op_old_portio = Some [p], old_mmio_read = [], old_mmio_write = []\<rparr>"

theorem portio_word_split_witness:
  "memory_region_iorange_write (demo_portio demo_port) 16 [] 2 2 0x1234 = Some [0x12, 0x34]"
  using portio_word_split [of "demo_portio demo_port" "[demo_port]" 2 demo_port 16 "[]" "0x1234"]
  by (simp add: demo_portio_def demo_port_def memory_region_iorange_write_def)

text \<open>[portio_write_needs_reader] The split of a word write looks for an entry with a byte reader: ports that
  can be written byte by byte but not read make it fail an assertion, although each byte write works.\<close>

theorem portio_write_needs_reader:
  assumes "op_old_portio ops = Some ps" and "find_portio ps offset 2 True = None"
    and "find_portio ps offset 1 True = Some p" and "po_write p = Some f" and "find_portio ps offset 1 False = None"
  shows "memory_region_iorange_write ops moff d offset 1 data = Some (f d (ucast (offset + moff)) (ucast data)) \<and>
    memory_region_iorange_write ops moff d offset 2 data = None"
  using assms by (simp add: memory_region_iorange_write_def Let_def)

theorem portio_write_needs_reader_witness:
  "memory_region_iorange_write (demo_portio (demo_port\<lparr>po_read := None\<rparr>)) 16 [] 2 2 0x1234 = None"
  using portio_write_needs_reader [of "demo_portio (demo_port\<lparr>po_read := None\<rparr>)" "[demo_port\<lparr>po_read := None\<rparr>]" 2
      "demo_port\<lparr>po_read := None\<rparr>" "\<lambda>d a v. v # d" 16 "[]" "0x1234"]
  by (simp add: demo_portio_def demo_port_def)

end
