(* ===== verification/Readline.thy ===== *)
theory Readline
  imports Prelude "HOL-Library.Monad_Syntax"
begin

text \<open>
  The line editor of the monitor (\<^verbatim>\<open>readline.c\<close>): the edited line with its cursor, the history, the
  completions, the escape sequences of the keys and the redrawing of the terminal line. The buffers are
  lists of bytes of the length of the C arrays; a write outside an array, and the use of a null history
  entry as a string, are \<open>None\<close>. The completion finder and the function that gets the finished
  line belong to the monitor and are parameters.
\<close>

section \<open>State\<close>

definition READLINE_CMD_BUF_SIZE :: nat where
  "READLINE_CMD_BUF_SIZE = 4095"

definition READLINE_MAX_CMDS :: nat where
  "READLINE_MAX_CMDS = 64"

definition READLINE_MAX_COMPLETIONS :: nat where
  "READLINE_MAX_COMPLETIONS = 256"

datatype esc_state = IS_NORM | IS_ESC | IS_CSI

text \<open>What goes to the terminal. \<open>Cursor_left\<close>, \<open>Cursor_right\<close> and \<open>Erase_right\<close> stand for the sequences
  \<open>ESC [ D\<close>, \<open>ESC [ C\<close> and \<open>ESC [ K\<close>.\<close>

datatype term_out = Text "u8 list" | Cursor_left | Cursor_right | Erase_right | Newline | Prompt "u8 list"

text \<open>The cursor and the size of the line are C ints that never get negative; \<open>hist_entry\<close> is -1 (\<open>None\<close>)
  or an index.\<close>

record ReadLineState =
  cmd_buf :: "u8 list"
  cmd_buf_index :: nat
  cmd_buf_size :: nat
  last_cmd_buf :: "u8 list"
  last_cmd_buf_index :: nat
  last_cmd_buf_size :: nat
  rl_esc_state :: esc_state
  esc_param :: int
  history :: "u8 list option list"
  hist_entry :: "nat option"
  completions :: "u8 list list"
  completion_index :: nat
  read_password :: bool
  rl_prompt :: "u8 list"
  screen :: "term_out list"

definition readline_init :: ReadLineState where
  "readline_init = \<lparr>cmd_buf = replicate (READLINE_CMD_BUF_SIZE + 1) 0, cmd_buf_index = 0, cmd_buf_size = 0,
     last_cmd_buf = replicate (READLINE_CMD_BUF_SIZE + 1) 0, last_cmd_buf_index = 0, last_cmd_buf_size = 0,
     rl_esc_state = IS_NORM, esc_param = 0, history = replicate READLINE_MAX_CMDS None, hist_entry = None,
     completions = [], completion_index = 0, read_password = False, rl_prompt = [], screen = []\<rparr>"

section \<open>C arrays and strings\<close>

definition memmove :: "'a list \<Rightarrow> nat \<Rightarrow> nat \<Rightarrow> nat \<Rightarrow> 'a list option" where
  "memmove xs dst src n =
     (if dst + n \<le> length xs \<and> src + n \<le> length xs
      then Some (take dst xs @ take n (drop src xs) @ drop (dst + n) xs) else None)"

definition store_at :: "'a list \<Rightarrow> nat \<Rightarrow> 'a \<Rightarrow> 'a list option" where
  "store_at xs i x = (if i < length xs then Some (xs[i := x]) else None)"

definition c_str :: "u8 list \<Rightarrow> u8 list" where
  "c_str xs = takeWhile (\<lambda>c. c \<noteq> 0) xs"

text \<open>\<open>pstrcpy\<close> into the whole buffer: as much as fits, then the terminating zero.\<close>

definition pstrcpy :: "u8 list \<Rightarrow> u8 list \<Rightarrow> u8 list" where
  "pstrcpy buf str = (let s = take (length buf - 1) (c_str str) in s @ [0] @ drop (length s + 1) buf)"

definition qemu_isspace :: "u8 \<Rightarrow> bool" where
  "qemu_isspace c \<longleftrightarrow> c = 32 \<or> 9 \<le> c \<and> c \<le> 13"

section \<open>Redrawing\<close>

definition emit :: "term_out list \<Rightarrow> ReadLineState \<Rightarrow> ReadLineState" where
  "emit ts rs = rs\<lparr>screen := screen rs @ ts\<rparr>"

definition readline_show_prompt :: "ReadLineState \<Rightarrow> ReadLineState" where
  "readline_show_prompt rs =
     (emit [Prompt (rl_prompt rs)] rs)\<lparr>last_cmd_buf_index := 0, last_cmd_buf_size := 0, rl_esc_state := IS_NORM\<rparr>"

definition redraw_line :: "ReadLineState \<Rightarrow> ReadLineState option" where
  "redraw_line rs =
     (if cmd_buf_size rs \<noteq> last_cmd_buf_size rs
         \<or> take (cmd_buf_size rs) (cmd_buf rs) \<noteq> take (cmd_buf_size rs) (last_cmd_buf rs)
      then do {
        buf \<leftarrow> store_at (cmd_buf rs) (cmd_buf_size rs) 0;
        let text = (if read_password rs then replicate (length (c_str buf)) 42 else c_str buf);
        last \<leftarrow> (if cmd_buf_size rs \<le> length (last_cmd_buf rs)
                 then Some (take (cmd_buf_size rs) buf @ drop (cmd_buf_size rs) (last_cmd_buf rs)) else None);
        Some (emit (replicate (last_cmd_buf_index rs) Cursor_left @ [Text text, Erase_right])
          (rs\<lparr>cmd_buf := buf, last_cmd_buf := last, last_cmd_buf_size := cmd_buf_size rs,
             last_cmd_buf_index := cmd_buf_size rs\<rparr>)) }
      else Some rs)"

definition move_cursor :: "ReadLineState \<Rightarrow> ReadLineState" where
  "move_cursor rs =
     (if cmd_buf_index rs \<noteq> last_cmd_buf_index rs
      then (emit (if cmd_buf_index rs > last_cmd_buf_index rs
                  then replicate (cmd_buf_index rs - last_cmd_buf_index rs) Cursor_right
                  else replicate (last_cmd_buf_index rs - cmd_buf_index rs) Cursor_left) rs)
             \<lparr>last_cmd_buf_index := cmd_buf_index rs\<rparr>
      else rs)"

definition readline_update :: "ReadLineState \<Rightarrow> ReadLineState option" where
  "readline_update rs = map_option move_cursor (redraw_line rs)"

section \<open>Editing\<close>

definition readline_insert_char :: "u8 \<Rightarrow> ReadLineState \<Rightarrow> ReadLineState option" where
  "readline_insert_char ch rs =
     (if cmd_buf_index rs < READLINE_CMD_BUF_SIZE
      then do {
        buf \<leftarrow> memmove (cmd_buf rs) (cmd_buf_index rs + 1) (cmd_buf_index rs) (cmd_buf_size rs - cmd_buf_index rs);
        buf1 \<leftarrow> store_at buf (cmd_buf_index rs) ch;
        Some (rs\<lparr>cmd_buf := buf1, cmd_buf_size := cmd_buf_size rs + 1, cmd_buf_index := cmd_buf_index rs + 1\<rparr>) }
      else Some rs)"

definition readline_backward_char :: "ReadLineState \<Rightarrow> ReadLineState" where
  "readline_backward_char rs = (if cmd_buf_index rs > 0 then rs\<lparr>cmd_buf_index := cmd_buf_index rs - 1\<rparr> else rs)"

definition readline_forward_char :: "ReadLineState \<Rightarrow> ReadLineState" where
  "readline_forward_char rs =
     (if cmd_buf_index rs < cmd_buf_size rs then rs\<lparr>cmd_buf_index := cmd_buf_index rs + 1\<rparr> else rs)"

definition readline_delete_char :: "ReadLineState \<Rightarrow> ReadLineState option" where
  "readline_delete_char rs =
     (if cmd_buf_index rs < cmd_buf_size rs
      then do {
        buf \<leftarrow> memmove (cmd_buf rs) (cmd_buf_index rs) (cmd_buf_index rs + 1) (cmd_buf_size rs - cmd_buf_index rs - 1);
        Some (rs\<lparr>cmd_buf := buf, cmd_buf_size := cmd_buf_size rs - 1\<rparr>) }
      else Some rs)"

definition readline_backspace :: "ReadLineState \<Rightarrow> ReadLineState option" where
  "readline_backspace rs =
     (if cmd_buf_index rs > 0 then readline_delete_char (readline_backward_char rs) else Some rs)"

text \<open>The two backward searches of \<open>readline_backword\<close>.\<close>

fun skip_spaces :: "u8 list \<Rightarrow> nat \<Rightarrow> nat" where
  "skip_spaces buf 0 = 0"
| "skip_spaces buf (Suc k) = (if \<not> qemu_isspace (buf ! Suc k) then Suc k else skip_spaces buf k)"

fun skip_word :: "u8 list \<Rightarrow> nat \<Rightarrow> nat" where
  "skip_word buf 0 = 0"
| "skip_word buf (Suc k) = (if qemu_isspace (buf ! Suc k) then Suc k + 1 else skip_word buf k)"

definition readline_backword :: "ReadLineState \<Rightarrow> ReadLineState option" where
  "readline_backword rs =
     (if cmd_buf_index rs = 0 \<or> cmd_buf_index rs > cmd_buf_size rs then Some rs
      else
        (let start = skip_word (cmd_buf rs) (skip_spaces (cmd_buf rs) (cmd_buf_index rs - 1)) in
         if start < cmd_buf_index rs
         then do {
           buf \<leftarrow> memmove (cmd_buf rs) start (cmd_buf_index rs) (cmd_buf_size rs - cmd_buf_index rs);
           Some (rs\<lparr>cmd_buf := buf, cmd_buf_size := cmd_buf_size rs - (cmd_buf_index rs - start),
                   cmd_buf_index := start\<rparr>) }
         else Some rs))"

definition readline_bol :: "ReadLineState \<Rightarrow> ReadLineState" where
  "readline_bol rs = rs\<lparr>cmd_buf_index := 0\<rparr>"

definition readline_eol :: "ReadLineState \<Rightarrow> ReadLineState" where
  "readline_eol rs = rs\<lparr>cmd_buf_index := cmd_buf_size rs\<rparr>"

section \<open>History\<close>

text \<open>The first empty slot at or after \<open>idx\<close>.\<close>

fun free_slot :: "u8 list option list \<Rightarrow> nat \<Rightarrow> nat" where
  "free_slot [] idx = idx"
| "free_slot (None # hs) idx = idx"
| "free_slot (Some e # hs) idx = free_slot hs (idx + 1)"

text \<open>The search for a line: the slot it is in, or the slot where the search ended.\<close>

fun hist_find :: "u8 list \<Rightarrow> u8 list option list \<Rightarrow> nat \<Rightarrow> nat \<times> bool" where
  "hist_find cmdline [] idx = (idx, False)"
| "hist_find cmdline (None # hs) idx = (idx, False)"
| "hist_find cmdline (Some e # hs) idx = (if e = cmdline then (idx, True) else hist_find cmdline hs (idx + 1))"

definition load_history :: "nat \<Rightarrow> ReadLineState \<Rightarrow> ReadLineState option" where
  "load_history i rs =
     (if i < length (history rs)
      then do { h \<leftarrow> history rs ! i;
                let buf = pstrcpy (cmd_buf rs) h;
                Some (rs\<lparr>hist_entry := Some i, cmd_buf := buf, cmd_buf_index := length (c_str buf),
                        cmd_buf_size := length (c_str buf)\<rparr>) }
      else None)"

definition readline_up_char :: "ReadLineState \<Rightarrow> ReadLineState option" where
  "readline_up_char rs =
     (if hist_entry rs = Some 0 then Some rs
      else (let i = (case hist_entry rs of None \<Rightarrow> free_slot (history rs) 0 | Some i \<Rightarrow> i) in
            if i > 0 then load_history (i - 1) rs else Some (rs\<lparr>hist_entry := None\<rparr>)))"

definition readline_down_char :: "ReadLineState \<Rightarrow> ReadLineState option" where
  "readline_down_char rs =
     (case hist_entry rs of
        None \<Rightarrow> Some rs
      | Some i \<Rightarrow>
          if i < READLINE_MAX_CMDS - 1 \<and> history rs ! (i + 1) \<noteq> None then load_history (i + 1) rs
          else Some (rs\<lparr>cmd_buf := (cmd_buf rs)[0 := 0], hist_entry := None, cmd_buf_index := 0, cmd_buf_size := 0\<rparr>))"

text \<open>An entry taken out of its slot, the later ones moved down; then its place at the end.\<close>

definition take_out :: "nat \<Rightarrow> u8 list option list \<Rightarrow> u8 list option list" where
  "take_out idx h = take idx h @ drop (idx + 1) h @ [None]"

definition hist_put :: "nat \<Rightarrow> u8 list option list \<Rightarrow> u8 list \<Rightarrow> u8 list option list" where
  "hist_put idx h e =
     (if idx = READLINE_MAX_CMDS then (drop 1 h @ [None])[READLINE_MAX_CMDS - 1 := Some e] else h[idx := Some e])"

definition readline_hist_add :: "u8 list \<Rightarrow> ReadLineState \<Rightarrow> ReadLineState option" where
  "readline_hist_add cmdline rs =
     (if cmdline = [] then Some rs
      else do {
        edited \<leftarrow> (case hist_entry rs of
                    None \<Rightarrow> Some None
                  | Some i \<Rightarrow> do { h \<leftarrow> (if i < length (history rs) then history rs ! i else None);
                                  Some (if h = cmdline then Some i else None) });
        let (idx, found) = (case edited of Some i \<Rightarrow> (i, True) | None \<Rightarrow> hist_find cmdline (history rs) 0);
        let h = (if found then take_out idx (history rs) else history rs);
        let slot = (if found then free_slot (drop idx h) idx else idx);
        Some (rs\<lparr>history := hist_put slot h cmdline, hist_entry := None\<rparr>) })"

definition readline_get_history :: "nat \<Rightarrow> ReadLineState \<Rightarrow> u8 list option" where
  "readline_get_history index rs = (if index \<ge> READLINE_MAX_CMDS then None else history rs ! index)"

section \<open>Completion\<close>

definition readline_add_completion :: "u8 list \<Rightarrow> ReadLineState \<Rightarrow> ReadLineState" where
  "readline_add_completion str rs =
     (if length (completions rs) < READLINE_MAX_COMPLETIONS then rs\<lparr>completions := completions rs @ [str]\<rparr> else rs)"

definition readline_set_completion_index :: "nat \<Rightarrow> ReadLineState \<Rightarrow> ReadLineState" where
  "readline_set_completion_index index rs = rs\<lparr>completion_index := index\<rparr>"

text \<open>The common prefix of two completions, cut at \<open>max_prefix\<close>: the loop over \<open>j\<close>.\<close>

function common_prefix :: "u8 list \<Rightarrow> u8 list \<Rightarrow> nat \<Rightarrow> nat \<Rightarrow> nat" where
  "common_prefix a b j max_prefix =
     (if j < max_prefix then if a ! j \<noteq> b ! j then j else common_prefix a b (j + 1) max_prefix else max_prefix)"
  by pat_completeness auto
termination by (relation "measure (\<lambda>(_, _, j, m). m - j)") auto

declare common_prefix.simps [simp del]

fun max_prefix_of :: "u8 list \<Rightarrow> u8 list list \<Rightarrow> nat \<Rightarrow> nat" where
  "max_prefix_of c0 [] m = m"
| "max_prefix_of c0 (c # cs) m = max_prefix_of c0 cs (common_prefix c c0 0 (min (length c) m))"

fun insert_chars :: "u8 list \<Rightarrow> ReadLineState \<Rightarrow> ReadLineState option" where
  "insert_chars [] rs = Some rs"
| "insert_chars (c # cs) rs = do { rs1 \<leftarrow> readline_insert_char c rs; insert_chars cs rs1 }"

text \<open>The list of completions in columns: padded texts, with a newline at the end of each row.\<close>

fun columns :: "nat \<Rightarrow> nat \<Rightarrow> nat \<Rightarrow> u8 list list \<Rightarrow> term_out list" where
  "columns width nb_cols j [] = []"
| "columns width nb_cols j (c # cs) =
     Text (c @ replicate (width - length c) 32) #
       (if j + 1 = nb_cols \<or> cs = [] then Newline # columns width nb_cols 0 cs
        else columns width nb_cols (j + 1) cs)"

text \<open>\<open>finder\<close> is the monitor's completion finder: it gets the line up to the cursor and calls the two
  functions above.\<close>

definition readline_completion :: "(u8 list \<Rightarrow> ReadLineState \<Rightarrow> ReadLineState) \<Rightarrow> ReadLineState \<Rightarrow> ReadLineState option" where
  "readline_completion finder rs0 =
     (let rs = finder (c_str (take (cmd_buf_index rs0) (cmd_buf rs0))) (rs0\<lparr>completions := []\<rparr>) in
      case completions rs of
        [] \<Rightarrow> Some rs
      | [c] \<Rightarrow>
          do { rs1 \<leftarrow> insert_chars (drop (completion_index rs) c) rs;
               if c \<noteq> [] \<and> last c \<noteq> 47 then readline_insert_char 32 rs1 else Some rs1 }
      | c0 # cs \<Rightarrow>
          (let max_prefix = max_prefix_of c0 cs (length c0);
               width0 = Max (set (map length (c0 # cs))) + 2;
               width = (if width0 < 10 then 10 else if width0 > 80 then 80 else width0)
           in do {
             rs1 \<leftarrow> insert_chars (drop (completion_index rs) (take max_prefix c0)) (emit [Newline] rs);
             Some (readline_show_prompt (emit (columns width (80 div width) 0 (c0 # cs)) rs1)) }))"

section \<open>Keys\<close>

text \<open>\<open>func\<close> is the function of the monitor that gets the finished line; it may use the operations of the
  editor.\<close>

definition readline_enter :: "(u8 list \<Rightarrow> ReadLineState \<Rightarrow> ReadLineState) \<Rightarrow> ReadLineState \<Rightarrow> ReadLineState option" where
  "readline_enter func rs =
     do { buf \<leftarrow> store_at (cmd_buf rs) (cmd_buf_size rs) 0;
          let rs1 = rs\<lparr>cmd_buf := buf\<rparr>;
          rs2 \<leftarrow> (if read_password rs then Some rs1 else readline_hist_add (c_str buf) rs1);
          Some (func (c_str buf)
            ((emit [Newline] rs2)\<lparr>cmd_buf_index := 0, cmd_buf_size := 0, last_cmd_buf_index := 0,
               last_cmd_buf_size := 0\<rparr>)) }"

definition handle_norm :: "(u8 list \<Rightarrow> ReadLineState \<Rightarrow> ReadLineState) \<Rightarrow> (u8 list \<Rightarrow> ReadLineState \<Rightarrow> ReadLineState)
    \<Rightarrow> u8 \<Rightarrow> ReadLineState \<Rightarrow> ReadLineState option" where
  "handle_norm finder func ch rs =
     (if ch = 1 then Some (readline_bol rs)
      else if ch = 4 then readline_delete_char rs
      else if ch = 5 then Some (readline_eol rs)
      else if ch = 9 then readline_completion finder rs
      else if ch = 10 \<or> ch = 13 then readline_enter func rs
      else if ch = 23 then readline_backword rs
      else if ch = 27 then Some (rs\<lparr>rl_esc_state := IS_ESC\<rparr>)
      else if ch = 127 \<or> ch = 8 then readline_backspace rs
      else if ch = 155 then Some (rs\<lparr>rl_esc_state := IS_CSI\<rparr>)
      else if ch \<ge> 32 then readline_insert_char ch rs
      else Some rs)"

definition handle_csi_tilde :: "ReadLineState \<Rightarrow> ReadLineState option" where
  "handle_csi_tilde rs =
     (if esc_param rs = 1 then Some (readline_bol rs)
      else if esc_param rs = 3 then readline_delete_char rs
      else if esc_param rs = 4 then Some (readline_eol rs)
      else Some rs)"

definition handle_csi :: "u8 \<Rightarrow> ReadLineState \<Rightarrow> ReadLineState option" where
  "handle_csi ch rs =
     (if 48 \<le> ch \<and> ch \<le> 57 then Some (rs\<lparr>esc_param := c_int (esc_param rs * 10 + (uint ch - 48))\<rparr>)
      else map_option (\<lambda>r. r\<lparr>rl_esc_state := IS_NORM\<rparr>)
        (if ch = 65 \<or> ch = 70 then readline_up_char rs
         else if ch = 66 \<or> ch = 69 then readline_down_char rs
         else if ch = 68 then Some (readline_backward_char rs)
         else if ch = 67 then Some (readline_forward_char rs)
         else if ch = 126 then handle_csi_tilde rs
         else Some rs))"

definition readline_handle_byte :: "(u8 list \<Rightarrow> ReadLineState \<Rightarrow> ReadLineState) \<Rightarrow> (u8 list \<Rightarrow> ReadLineState \<Rightarrow> ReadLineState)
    \<Rightarrow> u8 \<Rightarrow> ReadLineState \<Rightarrow> ReadLineState option" where
  "readline_handle_byte finder func ch rs =
     do { rs1 \<leftarrow> (case rl_esc_state rs of
                   IS_NORM \<Rightarrow> handle_norm finder func ch rs
                 | IS_ESC \<Rightarrow> Some (if ch = 91 then rs\<lparr>rl_esc_state := IS_CSI, esc_param := 0\<rparr>
                                  else rs\<lparr>rl_esc_state := IS_NORM\<rparr>)
                 | IS_CSI \<Rightarrow> handle_csi ch rs);
          readline_update rs1 }"

definition readline_restart :: "ReadLineState \<Rightarrow> ReadLineState" where
  "readline_restart rs = rs\<lparr>cmd_buf_index := 0, cmd_buf_size := 0\<rparr>"

definition readline_start :: "u8 list \<Rightarrow> bool \<Rightarrow> ReadLineState \<Rightarrow> ReadLineState" where
  "readline_start prompt1 pw rs =
     readline_restart (rs\<lparr>rl_prompt := take 255 (c_str prompt1), read_password := pw\<rparr>)"

end
