(* ===== verification/ReadlineText.thy ===== *)
theory ReadlineText
  imports Readline
begin

text \<open>
  What the operations of the line editor do to the text before and after the cursor, to the history as a
  list of lines, and to the terminal line.
\<close>

section \<open>The line as text before and after the cursor\<close>

definition holds :: "ReadLineState \<Rightarrow> u8 list \<Rightarrow> u8 list \<Rightarrow> bool" where
  "holds rs l r \<longleftrightarrow> (\<exists>rest. cmd_buf rs = l @ r @ rest) \<and> cmd_buf_index rs = length l
     \<and> cmd_buf_size rs = length l + length r \<and> length (cmd_buf rs) = 4096"

text \<open>What editing leaves as it is.\<close>

definition frame :: "ReadLineState \<Rightarrow> ReadLineState \<Rightarrow> bool" where
  "frame rs rs1 \<longleftrightarrow> screen rs1 = screen rs \<and> last_cmd_buf rs1 = last_cmd_buf rs
     \<and> last_cmd_buf_index rs1 = last_cmd_buf_index rs \<and> last_cmd_buf_size rs1 = last_cmd_buf_size rs
     \<and> read_password rs1 = read_password rs \<and> history rs1 = history rs \<and> hist_entry rs1 = hist_entry rs"

lemma frame_refl [simp]: "frame rs rs"
  by (simp add: frame_def)

lemma frame_trans: "frame rs rs1 \<Longrightarrow> frame rs1 rs2 \<Longrightarrow> frame rs rs2"
  by (simp add: frame_def)

lemmas rl_sizes = READLINE_CMD_BUF_SIZE_def READLINE_MAX_CMDS_def

lemma holds_length: "holds rs l r \<Longrightarrow> length l + length r \<le> 4096"
  by (auto simp: holds_def)

lemma insert_char_text:
  assumes "holds rs l r" and "length l < 4095" and "length l + length r < 4096"
  shows "\<exists>rs1. readline_insert_char c rs = Some rs1 \<and> holds rs1 (l @ [c]) r \<and> frame rs rs1
    \<and> rl_esc_state rs1 = rl_esc_state rs"
proof -
  obtain rest where b: "cmd_buf rs = l @ r @ rest" and i: "cmd_buf_index rs = length l"
    and n: "cmd_buf_size rs = length l + length r" and len: "length l + (length r + length rest) = 4096"
    using assms(1) by (auto simp: holds_def)
  obtain x ys where rest: "r @ rest = x # ys" using len assms(3) by (cases "r @ rest") auto
  have "take 1 (r @ rest) = [x]" unfolding rest by simp
  then have h: "take (Suc 0) r @ take (Suc 0 - length r) rest = [x]" by simp
  have "memmove (cmd_buf rs) (cmd_buf_index rs + 1) (cmd_buf_index rs) (cmd_buf_size rs - cmd_buf_index rs)
      = Some (l @ x # r @ drop 1 rest)"
    using len assms(3) by (simp add: memmove_def b i n h)
  then show ?thesis
    using assms(2) len assms(3) i n
    by (simp add: readline_insert_char_def rl_sizes store_at_def holds_def frame_def)
qed

lemma insert_char_full:
  assumes "holds rs l r"
  shows "4095 \<le> length l \<Longrightarrow> readline_insert_char c rs = Some rs"
    and "length l < 4095 \<Longrightarrow> length l + length r = 4096 \<Longrightarrow> readline_insert_char c rs = None"
  using assms by (auto simp: readline_insert_char_def holds_def memmove_def rl_sizes)

lemma backward_char_text:
  assumes "holds rs l r"
  shows "holds (readline_backward_char rs) (butlast l) (if l = [] then r else last l # r)"
    and "frame rs (readline_backward_char rs)"
proof -
  show "frame rs (readline_backward_char rs)" by (simp add: readline_backward_char_def frame_def)
  show "holds (readline_backward_char rs) (butlast l) (if l = [] then r else last l # r)"
    using assms by (cases l rule: rev_cases) (auto simp: holds_def readline_backward_char_def)
qed

lemma forward_char_text:
  assumes "holds rs l r"
  shows "holds (readline_forward_char rs) (l @ take 1 r) (drop 1 r)" and "frame rs (readline_forward_char rs)"
proof -
  show "frame rs (readline_forward_char rs)" by (simp add: readline_forward_char_def frame_def)
  show "holds (readline_forward_char rs) (l @ take 1 r) (drop 1 r)"
    using assms by (cases r) (auto simp: holds_def readline_forward_char_def)
qed

lemma delete_char_text:
  assumes "holds rs l r"
  shows "\<exists>rs1. readline_delete_char rs = Some rs1 \<and> holds rs1 l (drop 1 r) \<and> frame rs rs1
    \<and> rl_esc_state rs1 = rl_esc_state rs"
proof (cases r)
  case Nil
  then show ?thesis using assms by (auto simp: holds_def readline_delete_char_def)
next
  case (Cons x r1)
  obtain rest where b: "cmd_buf rs = l @ x # r1 @ rest" using assms Cons by (auto simp: holds_def)
  have "memmove (cmd_buf rs) (length l) (length l + 1) (length r1) =
      Some (l @ r1 @ drop (length r1) (x # r1 @ rest))"
    by (simp add: memmove_def b)
  then show ?thesis
    using assms Cons b by (auto simp: holds_def readline_delete_char_def frame_def)
qed

lemma bol_eol_text:
  assumes "holds rs l r"
  shows "holds (readline_bol rs) [] (l @ r)" "frame rs (readline_bol rs)"
    "holds (readline_eol rs) (l @ r) []" "frame rs (readline_eol rs)"
  using assms by (auto simp: holds_def readline_bol_def readline_eol_def frame_def)

subsection \<open>The word before the cursor\<close>

text \<open>The spaces before the cursor and the word before them go; a space left alone at the start of the line
  goes too.\<close>

definition kill_word :: "u8 list \<Rightarrow> u8 list" where
  "kill_word l = (let k = rev (dropWhile (\<lambda>c. \<not> qemu_isspace c) (dropWhile qemu_isspace (rev l)))
     in if length k \<le> 1 then [] else k)"

lemma rev_take_Suc: "k < length l \<Longrightarrow> rev (take (Suc k) l) = l ! k # rev (take k l)"
  by (simp add: take_Suc_conv_app_nth)

lemma skip_spaces_eq:
  "k < length l \<Longrightarrow> skip_spaces (l @ z) k = length (dropWhile qemu_isspace (rev (take (Suc k) l))) - 1"
proof (induction k)
  case 0
  then show ?case by (cases l) auto
next
  case (Suc k)
  then show ?case by (simp add: rev_take_Suc [of "Suc k"] nth_append)
qed

lemma skip_word_eq:
  "k < length l \<Longrightarrow> skip_word (l @ z) k =
     (let n = length (dropWhile (\<lambda>c. \<not> qemu_isspace c) (rev (take (Suc k) l))) in if n \<le> 1 then 0 else n)"
proof (induction k)
  case 0
  then show ?case by (cases l) auto
next
  case (Suc k)
  then show ?case by (simp add: rev_take_Suc [of "Suc k"] nth_append)
qed

lemma take_rev_dropWhile: "take (length (dropWhile P (rev l))) l = rev (dropWhile P (rev l))"
proof -
  have "l = rev (dropWhile P (rev l)) @ rev (takeWhile P (rev l))"
    by (metis rev_append rev_rev_ident takeWhile_dropWhile_id)
  then show ?thesis by (metis append_eq_conv_conj length_rev)
qed

lemma kill_word_start:
  assumes "l \<noteq> []"
  shows "skip_word (l @ z) (skip_spaces (l @ z) (length l - 1)) = length (kill_word l)"
proof -
  let ?D = "dropWhile qemu_isspace (rev l)"
  have s: "skip_spaces (l @ z) (length l - 1) = length ?D - 1"
    using assms skip_spaces_eq [of "length l - 1" l z] by simp
  show ?thesis
  proof (cases "?D = []")
    case True
    have "skip_spaces (l @ z) (length l - 1) = 0" using s by (simp only: True list.size)
    moreover have "kill_word l = []" unfolding kill_word_def True by simp
    ultimately show ?thesis by simp
  next
    case False
    have "length ?D \<le> length l" by (metis length_dropWhile_le length_rev)
    then have "length ?D - 1 < length l" using assms length_greater_0_conv [of l] by linarith
    moreover have "take (Suc (length ?D - 1)) l = rev ?D"
      using False by (simp add: take_rev_dropWhile)
    ultimately show ?thesis
      using skip_word_eq [of "length ?D - 1" l z] unfolding s by (simp add: kill_word_def Let_def)
  qed
qed

lemma kill_word_prefix: "\<exists>w. l = kill_word l @ w"
proof -
  have "\<exists>w. l = rev (dropWhile P (dropWhile Q (rev l))) @ w" for P Q
    by (metis (no_types) append.assoc rev_append rev_rev_ident takeWhile_dropWhile_id)
  then show ?thesis by (auto simp: kill_word_def Let_def)
qed

lemma backword_text:
  assumes "holds rs l r"
  shows "\<exists>rs1. readline_backword rs = Some rs1 \<and> holds rs1 (kill_word l) r \<and> frame rs rs1
    \<and> rl_esc_state rs1 = rl_esc_state rs"
proof (cases "l = []")
  case True
  then show ?thesis using assms by (auto simp: readline_backword_def holds_def kill_word_def)
next
  case False
  obtain w where w: "l = kill_word l @ w" using kill_word_prefix by blast
  let ?k = "kill_word l"
  obtain rest where b: "cmd_buf rs = l @ r @ rest" and i: "cmd_buf_index rs = length l"
    and n: "cmd_buf_size rs = length l + length r" and len: "length (cmd_buf rs) = 4096"
    using assms by (auto simp: holds_def)
  have st: "skip_word (cmd_buf rs) (skip_spaces (cmd_buf rs) (cmd_buf_index rs - 1)) = length ?k"
    unfolding b i by (rule kill_word_start [OF False])
  have lw: "length l = length ?k + length w" using w by (metis length_append)
  have tk: "take (length ?k) (l @ z) = ?k" for z using w by (metis append.assoc append_eq_conv_conj)
  have dl: "drop (length ?k + length w) (l @ r @ rest) = r @ rest" by (simp flip: lw)
  show ?thesis
  proof (cases "length ?k < length l")
    case True
    have "memmove (cmd_buf rs) (length ?k) (length l) (length r) =
        Some (?k @ r @ drop (length ?k + length r) (l @ r @ rest))"
      using lw tk [of "[]"] dl by (simp add: memmove_def b tk del: drop_append)
    moreover have "length (?k @ r @ drop (length ?k + length r) (l @ r @ rest)) = 4096"
      using len b lw by simp
    ultimately show ?thesis
      using True False i n lw st
      by (auto simp: readline_backword_def Let_def holds_def frame_def simp del: drop_append)
  next
    case F: False
    then have "?k = l" using w lw by simp
    then show ?thesis using assms F i n st by (auto simp: readline_backword_def Let_def)
  qed
qed

subsection \<open>The history as a list\<close>

definition hist_list :: "ReadLineState \<Rightarrow> u8 list list \<Rightarrow> bool" where
  "hist_list rs es \<longleftrightarrow> history rs = map Some es @ replicate (64 - length es) None \<and> length es \<le> 64
     \<and> distinct es \<and> (\<forall>e\<in>set es. e \<noteq> [] \<and> 0 \<notin> set e \<and> length e \<le> 4095)
     \<and> (\<forall>i. hist_entry rs = Some i \<longrightarrow> i < length es)"

text \<open>A new line goes to the end, an old one moves there, and the oldest makes room.\<close>

definition add_hist :: "u8 list \<Rightarrow> u8 list list \<Rightarrow> u8 list list" where
  "add_hist e es = (let es1 = remove1 e es in (if length es1 = 64 then tl es1 else es1) @ [e])"

definition sframe :: "ReadLineState \<Rightarrow> ReadLineState \<Rightarrow> bool" where
  "sframe rs rs1 \<longleftrightarrow> screen rs1 = screen rs \<and> last_cmd_buf rs1 = last_cmd_buf rs
     \<and> last_cmd_buf_index rs1 = last_cmd_buf_index rs \<and> last_cmd_buf_size rs1 = last_cmd_buf_size rs
     \<and> read_password rs1 = read_password rs"

lemma sframe_refl [simp]: "sframe rs rs"
  by (simp add: sframe_def)

lemma sframe_trans: "sframe rs rs1 \<Longrightarrow> sframe rs1 rs2 \<Longrightarrow> sframe rs rs2"
  by (simp add: sframe_def)

lemma frame_sframe: "frame rs rs1 \<Longrightarrow> sframe rs rs1"
  by (simp add: frame_def sframe_def)

lemma frame_hist: "frame rs rs1 \<Longrightarrow> hist_list rs1 es = hist_list rs es"
  by (simp add: frame_def hist_list_def)

lemma free_slot_list: "free_slot (map Some es @ replicate k None) i = i + length es"
  by (induction es arbitrary: i) (cases k; simp)+

lemma hist_find_absent: "e \<notin> set es \<Longrightarrow> hist_find e (map Some es @ replicate k None) i = (i + length es, False)"
  by (induction es arbitrary: i) (cases k; auto)+

lemma hist_find_present:
  "e \<notin> set us \<Longrightarrow> hist_find e (map Some us @ Some e # hs) i = (i + length us, True)"
  by (induction us arbitrary: i) auto

lemma hist_put_list:
  assumes "length es \<le> 64"
  shows "hist_put (length es) (map Some es @ replicate (64 - length es) None) e =
    (let es1 = (if length es = 64 then tl es else es) @ [e] in map Some es1 @ replicate (64 - length es1) None)"
proof (cases "length es = 64")
  case True
  then show ?thesis
    by (cases es) (simp_all add: hist_put_def rl_sizes list_update_append)
next
  case False
  then have "64 - length es = Suc (63 - length es)" using assms by simp
  then show ?thesis
    using False assms by (simp add: hist_put_def rl_sizes list_update_append)
qed

lemma hist_put_present:
  assumes "length us + length vs < 64"
  shows "(let h = take_out (length us) (map Some us @ Some e # map Some vs @ replicate (63 - (length us + length vs)) None)
     in hist_put (free_slot (drop (length us) h) (length us)) h e) =
     map Some (us @ vs @ [e]) @ replicate (63 - (length us + length vs)) None"
proof -
  have h: "take_out (length us) (map Some us @ Some e # map Some vs @ replicate (63 - (length us + length vs)) None)
      = map Some (us @ vs) @ replicate (64 - length (us @ vs)) None"
  proof -
    have "64 - length (us @ vs) = Suc (63 - (length us + length vs))" using assms by simp
    then show ?thesis by (simp only: take_out_def) (simp add: replicate_append_same)
  qed
  have "drop (length us) (map Some (us @ vs) @ replicate (64 - length (us @ vs)) None)
      = map Some vs @ replicate (64 - length (us @ vs)) None" by simp
  then show ?thesis
    using assms hist_put_list [of "us @ vs" e] unfolding h Let_def by (simp add: free_slot_list)
qed

lemma hist_add_list:
  assumes "hist_list rs es" and "e \<noteq> []" and "0 \<notin> set e" and "length e \<le> 4095"
  shows "\<exists>rs1. readline_hist_add e rs = Some rs1 \<and> hist_list rs1 (add_hist e es) \<and>
    rs1 = rs\<lparr>history := history rs1, hist_entry := None\<rparr>"
proof -
  have h: "history rs = map Some es @ replicate (64 - length es) None" and len: "length es \<le> 64"
    and d: "distinct es" and ok: "\<forall>e\<in>set es. e \<noteq> [] \<and> 0 \<notin> set e \<and> length e \<le> 4095"
    using assms(1) by (auto simp: hist_list_def)
  have ent: "history rs ! i = Some (es ! i) \<and> i < length (history rs)" if "hist_entry rs = Some i" for i
    using that assms(1) by (auto simp: hist_list_def nth_append)
  have ent_lt: "i < length es" if "hist_entry rs = Some i" for i
    using that assms(1) by (auto simp: hist_list_def)
  define edited where "edited = (case hist_entry rs of None \<Rightarrow> None | Some i \<Rightarrow> if es ! i = e then Some i else None)"
  have ed: "(case hist_entry rs of None \<Rightarrow> Some None
      | Some i \<Rightarrow> do { h \<leftarrow> (if i < length (history rs) then history rs ! i else None); Some (if h = e then Some i else None) })
      = Some edited"
    using ent by (auto simp: edited_def split: option.splits)
  show ?thesis
  proof (cases "e \<in> set es")
    case False
    then have "edited = None" using ent_lt by (auto simp: edited_def split: option.splits)
    moreover have "hist_find e (history rs) 0 = (length es, False)"
      unfolding h using hist_find_absent [OF False, of _ 0] by simp
    ultimately have "readline_hist_add e rs = Some (rs\<lparr>history := hist_put (length es) (history rs) e, hist_entry := None\<rparr>)"
      using assms(2) ed by (simp add: readline_hist_add_def)
    moreover have "distinct (tl es)" "set (tl es) \<subseteq> set es" using d by (cases es; auto)+
    ultimately show ?thesis
      using False assms(2-4) d ok len
      by (auto simp: hist_list_def add_hist_def h hist_put_list Let_def remove1_idem)
  next
    case True
    then obtain us vs where es: "es = us @ e # vs" and us: "e \<notin> set us" by (metis split_list_first)
    have vs: "e \<notin> set vs" using d es by simp
    have hh: "history rs = map Some us @ Some e # map Some vs @ replicate (63 - (length us + length vs)) None"
      unfolding h es by simp
    have "hist_find e (history rs) 0 = (length us, True)"
      unfolding hh using hist_find_present [OF us, of _ 0] by simp
    moreover have "i = length us" if "hist_entry rs = Some i" "es ! i = e" for i
      using that ent_lt d es by (metis length_append list.size(4) less_add_Suc1 nth_append_length nth_eq_iff_index_eq add_Suc_right)
    ultimately have f: "(case edited of Some i \<Rightarrow> (i, True) | None \<Rightarrow> hist_find e (history rs) 0) = (length us, True)"
      by (auto simp: edited_def split: option.splits)
    have "readline_hist_add e rs = Some (rs\<lparr>history := (let h = take_out (length us) (history rs)
        in hist_put (free_slot (drop (length us) h) (length us)) h e), hist_entry := None\<rparr>)"
      using assms(2) ed by (simp add: readline_hist_add_def f Let_def)
    moreover have "length us + length vs < 64" using len es by simp
    moreover have "add_hist e es = us @ vs @ [e]" using us len es by (simp add: add_hist_def remove1_append)
    ultimately show ?thesis
      using d ok es len vs us assms(2-4) by (auto simp: hist_list_def hh hist_put_present)
  qed
qed

lemma c_str_stop: "0 \<notin> set s \<Longrightarrow> c_str (s @ 0 # ys) = s"
  unfolding c_str_def by (induction s) auto

lemma c_str_id: "0 \<notin> set s \<Longrightarrow> c_str s = s"
  unfolding c_str_def by (induction s) auto

lemma load_history_text:
  assumes "hist_list rs es" and "i < length es" and "length (cmd_buf rs) = 4096"
  shows "\<exists>rs1. load_history i rs = Some rs1 \<and> holds rs1 (es ! i) [] \<and> sframe rs rs1 \<and> hist_list rs1 es
    \<and> 0 \<notin> set (es ! i) \<and> length (es ! i) \<le> 4095 \<and> rl_esc_state rs1 = rl_esc_state rs"
proof -
  let ?e = "es ! i"
  have e: "0 \<notin> set ?e" "length ?e \<le> 4095" using assms(1,2) by (auto simp: hist_list_def)
  have p: "pstrcpy (cmd_buf rs) ?e = ?e @ 0 # drop (length ?e + 1) (cmd_buf rs)"
    using e assms(3) by (simp add: pstrcpy_def c_str_id Let_def)
  have h: "history rs ! i = Some ?e" "i < length (history rs)"
    using assms(1,2) by (auto simp: hist_list_def nth_append)
  show ?thesis
    using assms e h
    by (auto simp: load_history_def p c_str_stop holds_def sframe_def hist_list_def)
qed

lemma up_char_text:
  assumes "hist_list rs es" and "holds rs l r" and "0 \<notin> set (l @ r)"
  shows "\<exists>rs1 l1 r1. readline_up_char rs = Some rs1 \<and> holds rs1 l1 r1 \<and> 0 \<notin> set (l1 @ r1) \<and> sframe rs rs1 \<and> hist_list rs1 es
    \<and> (length (l @ r) \<le> 4095 \<longrightarrow> length (l1 @ r1) \<le> 4095)"
proof -
  let ?i = "case hist_entry rs of None \<Rightarrow> free_slot (history rs) 0 | Some i \<Rightarrow> i"
  have len: "length (cmd_buf rs) = 4096" using assms(2) by (simp add: holds_def)
  have "?i \<le> length es"
    using assms(1) free_slot_list [of es _ 0] by (auto simp: hist_list_def split: option.splits)
  show ?thesis
  proof (cases "hist_entry rs = Some 0 \<or> ?i = 0")
    case True
    have "holds (rs\<lparr>hist_entry := None\<rparr>) l r" using assms(2) by (simp add: holds_def)
    moreover have "hist_list (rs\<lparr>hist_entry := None\<rparr>) es" using assms(1) by (simp add: hist_list_def)
    moreover have "sframe rs (rs\<lparr>hist_entry := None\<rparr>)" by (simp add: sframe_def)
    moreover have "readline_up_char rs = Some rs \<or> readline_up_char rs = Some (rs\<lparr>hist_entry := None\<rparr>)"
      using True by (auto simp: readline_up_char_def Let_def)
    ultimately show ?thesis using assms sframe_refl by blast
  next
    case False
    then have "?i - 1 < length es" using \<open>?i \<le> length es\<close> by linarith
    then obtain rs1 where "load_history (?i - 1) rs = Some rs1" "holds rs1 (es ! (?i - 1)) []" "sframe rs rs1"
      "hist_list rs1 es" "0 \<notin> set (es ! (?i - 1))" "length (es ! (?i - 1)) \<le> 4095"
      using load_history_text [OF assms(1) _ len] by blast
    moreover from this False have "readline_up_char rs = Some rs1"
      by (auto simp: readline_up_char_def Let_def)
    ultimately show ?thesis by (metis append_Nil2)
  qed
qed

lemma down_char_text:
  assumes "hist_list rs es" and "holds rs l r" and "0 \<notin> set (l @ r)"
  shows "\<exists>rs1 l1 r1. readline_down_char rs = Some rs1 \<and> holds rs1 l1 r1 \<and> 0 \<notin> set (l1 @ r1) \<and> sframe rs rs1 \<and> hist_list rs1 es
    \<and> (length (l @ r) \<le> 4095 \<longrightarrow> length (l1 @ r1) \<le> 4095)"
proof (cases "hist_entry rs")
  case None
  then show ?thesis using assms sframe_refl by (auto simp: readline_down_char_def)
next
  case (Some i)
  have len: "length (cmd_buf rs) = 4096" using assms(2) by (simp add: holds_def)
  show ?thesis
  proof (cases "i < READLINE_MAX_CMDS - 1 \<and> history rs ! (i + 1) \<noteq> None")
    case True
    have "i + 1 < length es"
    proof (rule ccontr)
      assume "\<not> i + 1 < length es"
      then have "history rs ! (i + 1) = None"
        using assms(1) True by (auto simp: hist_list_def nth_append rl_sizes)
      then show False using True by simp
    qed
    then obtain rs1 where "load_history (i + 1) rs = Some rs1" "holds rs1 (es ! (i + 1)) []" "sframe rs rs1"
      "hist_list rs1 es" "0 \<notin> set (es ! (i + 1))" "length (es ! (i + 1)) \<le> 4095"
      using load_history_text [OF assms(1) _ len] by blast
    moreover from this Some True have "readline_down_char rs = Some rs1"
      by (auto simp: readline_down_char_def)
    ultimately show ?thesis by (metis append_Nil2)
  next
    case False
    let ?rs = "rs\<lparr>cmd_buf := (cmd_buf rs)[0 := 0], hist_entry := None, cmd_buf_index := 0, cmd_buf_size := 0\<rparr>"
    have "readline_down_char rs = Some ?rs" using Some False by (auto simp: readline_down_char_def)
    moreover have "holds ?rs [] []" using len by (simp add: holds_def)
    moreover have "sframe rs ?rs" "hist_list ?rs es" using assms(1) by (auto simp: sframe_def hist_list_def)
    ultimately show ?thesis by (metis append_Nil list.size(3) empty_iff list.set(1) le0)
  qed
qed

subsection \<open>The line on the terminal\<close>

text \<open>The part of the terminal line that belongs to the edited text, and the cursor in it.\<close>

fun term_step :: "term_out \<Rightarrow> u8 list \<times> nat \<Rightarrow> u8 list \<times> nat" where
  "term_step (Text t) (cells, c) = (take c cells @ t @ drop (c + length t) cells, c + length t)"
| "term_step Cursor_left (cells, c) = (cells, c - 1)"
| "term_step Cursor_right (cells, c) = (cells, c + 1)"
| "term_step Erase_right (cells, c) = (take c cells, c)"
| "term_step Newline (cells, c) = ([], 0)"
| "term_step (Prompt p) (cells, c) = ([], 0)"

lemma term_step_clear [simp]: "term_step Newline s = ([], 0)" "term_step (Prompt p) s = ([], 0)"
  by (cases s; simp)+

definition terminal :: "term_out list \<Rightarrow> u8 list \<times> nat" where
  "terminal ts = fold term_step ts ([], 0)"

definition visible :: "bool \<Rightarrow> u8 list \<Rightarrow> u8 list" where
  "visible pw t = (if pw then replicate (length t) 42 else t)"

text \<open>The terminal shows the line as it was last drawn.\<close>

definition coherent :: "ReadLineState \<Rightarrow> bool" where
  "coherent rs \<longleftrightarrow> length (last_cmd_buf rs) = 4096 \<and> last_cmd_buf_index rs \<le> last_cmd_buf_size rs
     \<and> last_cmd_buf_size rs \<le> 4095
     \<and> terminal (screen rs) =
       (visible (read_password rs) (take (last_cmd_buf_size rs) (last_cmd_buf rs)), last_cmd_buf_index rs)"

lemma coherent_sframe: "sframe rs rs1 \<Longrightarrow> coherent rs1 = coherent rs"
  by (simp add: sframe_def coherent_def)

lemma length_visible [simp]: "length (visible pw t) = length t"
  by (simp add: visible_def)

lemma terminal_append: "terminal (xs @ ys) = fold term_step ys (terminal xs)"
  by (simp add: terminal_def)

lemma fold_left: "(term_step Cursor_left ^^ n) (cells, c) = (cells, c - n)"
  by (induction n arbitrary: c) simp_all

lemma fold_right: "(term_step Cursor_right ^^ n) (cells, c) = (cells, c + n)"
  by (induction n arbitrary: c) simp_all

lemma move_cursor_text:
  assumes "terminal (screen rs) = (cells, last_cmd_buf_index rs)"
  shows "terminal (screen (move_cursor rs)) = (cells, cmd_buf_index rs)"
  using assms by (auto simp: move_cursor_def emit_def terminal_append fold_left fold_right)

lemma move_cursor_fields [simp]:
  "cmd_buf (move_cursor rs) = cmd_buf rs" "cmd_buf_index (move_cursor rs) = cmd_buf_index rs"
  "cmd_buf_size (move_cursor rs) = cmd_buf_size rs" "last_cmd_buf (move_cursor rs) = last_cmd_buf rs"
  "last_cmd_buf_size (move_cursor rs) = last_cmd_buf_size rs" "last_cmd_buf_index (move_cursor rs) = cmd_buf_index rs"
  "read_password (move_cursor rs) = read_password rs" "history (move_cursor rs) = history rs"
  "hist_entry (move_cursor rs) = hist_entry rs" "rl_esc_state (move_cursor rs) = rl_esc_state rs"
  "esc_param (move_cursor rs) = esc_param rs"
  by (simp_all add: move_cursor_def emit_def)

text \<open>Nothing but the display changes.\<close>

definition redrawn :: "ReadLineState \<Rightarrow> ReadLineState \<Rightarrow> bool" where
  "redrawn rs rs1 \<longleftrightarrow> history rs1 = history rs \<and> hist_entry rs1 = hist_entry rs \<and> read_password rs1 = read_password rs
     \<and> rl_esc_state rs1 = rl_esc_state rs \<and> esc_param rs1 = esc_param rs"

lemma update_text:
  assumes "holds rs l r" and "0 \<notin> set (l @ r)" and "length (l @ r) \<le> 4095" and "coherent rs"
  shows "\<exists>rs1. readline_update rs = Some rs1 \<and> holds rs1 l r \<and> coherent rs1 \<and> redrawn rs rs1 \<and>
    terminal (screen rs1) = (visible (read_password rs) (l @ r), length l)"
proof -
  obtain rest where b: "cmd_buf rs = l @ r @ rest" and i: "cmd_buf_index rs = length l"
    and n: "cmd_buf_size rs = length l + length r" and len: "length l + (length r + length rest) = 4096"
    using assms(1) by (auto simp: holds_def)
  have t: "terminal (screen rs) = (visible (read_password rs) (take (last_cmd_buf_size rs) (last_cmd_buf rs)),
      last_cmd_buf_index rs)"
    and ll: "length (last_cmd_buf rs) = 4096" and li: "last_cmd_buf_index rs \<le> last_cmd_buf_size rs"
    using assms(4) by (auto simp: coherent_def)
  show ?thesis
  proof (cases "cmd_buf_size rs \<noteq> last_cmd_buf_size rs
      \<or> take (cmd_buf_size rs) (cmd_buf rs) \<noteq> take (cmd_buf_size rs) (last_cmd_buf rs)")
    case False
    then have same: "take (length l + length r) (last_cmd_buf rs) = l @ r" and ls: "last_cmd_buf_size rs = length l + length r"
      using n by (simp_all add: b)
    have "terminal (screen (move_cursor rs)) = (visible (read_password rs) (l @ r), cmd_buf_index rs)"
      using t by (intro move_cursor_text) (simp add: same ls)
    moreover have "readline_update rs = Some (move_cursor rs)"
      using False by (simp add: readline_update_def redraw_line_def)
    moreover have "holds (move_cursor rs) l r" "redrawn rs (move_cursor rs)"
      using assms(1) by (simp_all add: holds_def redrawn_def)
    moreover have "coherent (move_cursor rs)"
      using calculation(1) i ll ls assms(3) same by (simp add: coherent_def)
    ultimately show ?thesis using i by simp
  next
    case True
    obtain z rest1 where rest: "rest = z # rest1" using len assms(3) by (cases rest) auto
    let ?buf = "l @ r @ 0 # rest1"
    let ?rs = "emit (replicate (last_cmd_buf_index rs) Cursor_left @ [Text (visible (read_password rs) (l @ r)), Erase_right])
      (rs\<lparr>cmd_buf := ?buf, last_cmd_buf := (l @ r) @ drop (length l + length r) (last_cmd_buf rs),
        last_cmd_buf_size := length l + length r, last_cmd_buf_index := length l + length r\<rparr>)"
    have "store_at (cmd_buf rs) (cmd_buf_size rs) 0 = Some ?buf"
      by (simp add: store_at_def b n rest list_update_append)
    moreover have "c_str ?buf = l @ r" using c_str_stop [of "l @ r" rest1] assms(2) by simp
    ultimately have d: "redraw_line rs = Some ?rs"
      using True n ll assms(3) by (simp add: redraw_line_def visible_def)
    have "terminal (screen ?rs) = (visible (read_password rs) (l @ r), length l + length r)"
      using t li by (simp add: emit_def terminal_append fold_left)
    then have "terminal (screen (move_cursor ?rs)) = (visible (read_password rs) (l @ r), cmd_buf_index ?rs)"
      by (intro move_cursor_text) (simp add: emit_def)
    moreover have "readline_update rs = Some (move_cursor ?rs)" by (simp add: readline_update_def d)
    moreover have "holds (move_cursor ?rs) l r" using i n len by (simp add: holds_def emit_def rest)
    moreover have "coherent (move_cursor ?rs)"
      using calculation(1) i ll assms(3) by (simp add: coherent_def emit_def)
    moreover have "redrawn rs (move_cursor ?rs)" by (simp add: redrawn_def) (simp add: emit_def)
    ultimately show ?thesis using i by (simp add: emit_def)
  qed
qed

lemma update_full:
  assumes "holds rs l r" and "length (l @ r) = 4096" and "coherent rs"
  shows "readline_update rs = None"
  using assms by (auto simp: holds_def coherent_def readline_update_def redraw_line_def store_at_def)

lemma insert_chars_text:
  assumes "holds rs l r" and "0 \<notin> set (l @ r)" and "0 \<notin> set cs" and "insert_chars cs rs = Some rs1"
  shows "\<exists>l1. holds rs1 l1 r \<and> 0 \<notin> set (l1 @ r) \<and> frame rs rs1"
  using assms
proof (induction cs arbitrary: rs l)
  case Nil
  then show ?case using frame_refl by auto
next
  case (Cons c cs)
  have cases: "4095 \<le> length l \<or> length l < 4095 \<and> length l + length r < 4096
      \<or> length l < 4095 \<and> length l + length r = 4096"
    using holds_length [OF Cons.prems(1)] by linarith
  then show ?case
  proof (elim disjE conjE)
    assume "4095 \<le> length l"
    then show ?thesis using Cons insert_char_full(1) [OF Cons.prems(1)] by simp
  next
    assume "length l < 4095" "length l + length r < 4096"
    from insert_char_text [OF Cons.prems(1) this, of c]
    obtain rs2 where "readline_insert_char c rs = Some rs2" "holds rs2 (l @ [c]) r" "frame rs rs2" by blast
    then show ?thesis
      using Cons.IH [of rs2 "l @ [c]"] Cons.prems frame_trans by auto
  next
    assume "length l < 4095" "length l + length r = 4096"
    then show ?thesis using Cons.prems insert_char_full(2) [OF Cons.prems(1)] by simp
  qed
qed

end
