(* ===== verification/ReadlineKeys.thy ===== *)
theory ReadlineKeys
  imports ReadlineText
begin

text \<open>
  The line editor key by key: the edits the keys stand for, the invariant of the editor with its terminal,
  and the properties.
\<close>

subsection \<open>Keys as edits\<close>

text \<open>The editor as it should be: what a key makes of the text before and after the cursor.\<close>

definition edit_key :: "esc_state \<Rightarrow> int \<Rightarrow> u8 \<Rightarrow> u8 list \<Rightarrow> u8 list \<Rightarrow> u8 list \<times> u8 list" where
  "edit_key esc param ch l r =
     (case esc of
        IS_NORM \<Rightarrow>
          (if ch = 1 then ([], l @ r)
           else if ch = 4 then (l, drop 1 r)
           else if ch = 5 then (l @ r, [])
           else if ch = 23 then (kill_word l, r)
           else if ch = 127 \<or> ch = 8 then (butlast l, r)
           else if ch \<ge> 32 \<and> ch \<noteq> 155 then (l @ [ch], r)
           else (l, r))
      | IS_ESC \<Rightarrow> (l, r)
      | IS_CSI \<Rightarrow>
          (if ch = 68 then (butlast l, if l = [] then r else last l # r)
           else if ch = 67 then (l @ take 1 r, drop 1 r)
           else if ch = 126 then
             (if param = 1 then ([], l @ r) else if param = 3 then (l, drop 1 r)
              else if param = 4 then (l @ r, []) else (l, r))
           else (l, r)))"

text \<open>The keys that are left to the history, the completion and the end of the line.\<close>

definition special_key :: "esc_state \<Rightarrow> u8 \<Rightarrow> bool" where
  "special_key esc ch \<longleftrightarrow> esc = IS_NORM \<and> (ch = 9 \<or> ch = 10 \<or> ch = 13)
     \<or> esc = IS_CSI \<and> (ch = 65 \<or> ch = 66 \<or> ch = 69 \<or> ch = 70)"

definition handle_key where
  "handle_key finder func ch rs =
     (case rl_esc_state rs of
        IS_NORM \<Rightarrow> handle_norm finder func ch rs
      | IS_ESC \<Rightarrow> Some (if ch = 91 then rs\<lparr>rl_esc_state := IS_CSI, esc_param := 0\<rparr> else rs\<lparr>rl_esc_state := IS_NORM\<rparr>)
      | IS_CSI \<Rightarrow> handle_csi ch rs)"

lemma handle_byte_key: "readline_handle_byte finder func ch rs = Option.bind (handle_key finder func ch rs) readline_update"
  by (simp add: readline_handle_byte_def handle_key_def)

lemma backspace_text:
  assumes "holds rs l r"
  shows "\<exists>rs1. readline_backspace rs = Some rs1 \<and> holds rs1 (butlast l) r \<and> frame rs rs1"
proof (cases "l = []")
  case True
  then show ?thesis using assms by (auto simp: readline_backspace_def holds_def)
next
  case False
  then have "0 < cmd_buf_index rs" using assms by (simp add: holds_def)
  moreover obtain rs1 where "readline_delete_char (readline_backward_char rs) = Some rs1"
    "holds rs1 (butlast l) r" "frame (readline_backward_char rs) rs1"
    using delete_char_text [OF backward_char_text(1) [OF assms]] False by auto
  ultimately show ?thesis
    using backward_char_text(2) [OF assms] frame_trans by (auto simp: readline_backspace_def)
qed

lemma holds_esc [simp]: "holds (rs\<lparr>rl_esc_state := e\<rparr>) = holds rs" "holds (rs\<lparr>esc_param := p\<rparr>) = holds rs"
  by (auto simp: holds_def fun_eq_iff)

lemma frame_esc [simp]: "frame rs (rs1\<lparr>rl_esc_state := e\<rparr>) = frame rs rs1" "frame rs (rs1\<lparr>esc_param := p\<rparr>) = frame rs rs1"
  by (simp_all add: frame_def)

text \<open>Either the key is an edit, or it would insert past the buffer.\<close>

lemma edit_text:
  assumes "holds rs l r" and "\<not> special_key (rl_esc_state rs) ch"
    and "length (l @ r) < 4095 \<or> edit_key (rl_esc_state rs) (esc_param rs) ch l r \<noteq> (l @ [ch], r)"
  shows "\<exists>rs1. handle_key finder func ch rs = Some rs1 \<and> frame rs rs1 \<and>
    holds rs1 (fst (edit_key (rl_esc_state rs) (esc_param rs) ch l r)) (snd (edit_key (rl_esc_state rs) (esc_param rs) ch l r))"
proof (cases "rl_esc_state rs")
  case IS_NORM
  consider "ch = 1" | "ch = 4" | "ch = 5" | "ch = 23" | "ch = 27" | "ch = 127" | "ch = 8" | "ch = 155"
    | "ch \<notin> {1, 4, 5, 23, 27, 127, 8, 155}" by blast
  then show ?thesis
  proof cases
    case 2
    then show ?thesis using IS_NORM assms(2) delete_char_text [OF assms(1)]
      by (auto simp: handle_key_def handle_norm_def edit_key_def)
  next
    case 4
    then show ?thesis using IS_NORM backword_text [OF assms(1)]
      by (auto simp: handle_key_def handle_norm_def edit_key_def)
  next
    case 9
    show ?thesis
    proof (cases "ch \<ge> 32")
      case True
      then have "edit_key IS_NORM (esc_param rs) ch l r = (l @ [ch], r)" using 9 by (simp add: edit_key_def)
      moreover from this have "length l < 4095" "length l + length r < 4096" using assms(3) IS_NORM by auto
      ultimately show ?thesis
        using True 9 IS_NORM assms(2) insert_char_text [OF assms(1), of ch]
        by (auto simp: handle_key_def handle_norm_def special_key_def)
    next
      case False
      then show ?thesis
        using 9 IS_NORM assms(1,2) by (auto simp: handle_key_def handle_norm_def special_key_def edit_key_def)
    qed
  qed (use IS_NORM assms(1) bol_eol_text [OF assms(1)] backspace_text [OF assms(1)] in
      \<open>auto simp: handle_key_def handle_norm_def edit_key_def\<close>)
next
  case IS_ESC
  then show ?thesis using assms(1) by (simp add: handle_key_def edit_key_def)
next
  case IS_CSI
  show ?thesis
    using IS_CSI assms(1,2) bol_eol_text [OF assms(1)] delete_char_text [OF assms(1)]
      backward_char_text [OF assms(1)] forward_char_text [OF assms(1)]
    by (auto simp: handle_key_def handle_csi_def handle_csi_tilde_def edit_key_def special_key_def)
qed

subsection \<open>The editor's invariant\<close>

definition editor_ok :: "ReadLineState \<Rightarrow> u8 list list \<Rightarrow> u8 list \<Rightarrow> u8 list \<Rightarrow> bool" where
  "editor_ok rs es l r \<longleftrightarrow> holds rs l r \<and> 0 \<notin> set (l @ r) \<and> length (l @ r) \<le> 4095 \<and> hist_list rs es \<and> coherent rs"

text \<open>What the editor relies on in the monitor: the finder only sets the completions, and the function that
  gets a line leaves the editor in order.\<close>

definition finder_ok :: "(u8 list \<Rightarrow> ReadLineState \<Rightarrow> ReadLineState) \<Rightarrow> bool" where
  "finder_ok finder \<longleftrightarrow> (\<forall>c rs. \<exists>cs i. finder c rs = rs\<lparr>completions := cs, completion_index := i\<rparr> \<and> (\<forall>x\<in>set cs. 0 \<notin> set x))"

definition func_ok :: "(u8 list \<Rightarrow> ReadLineState \<Rightarrow> ReadLineState) \<Rightarrow> bool" where
  "func_ok func \<longleftrightarrow> (\<forall>line rs es l r. editor_ok rs es l r \<longrightarrow> (\<exists>es1 l1 r1. editor_ok (func line rs) es1 l1 r1))"

lemma show_prompt_ok: "editor_ok rs es l r \<Longrightarrow> editor_ok (readline_show_prompt (readline_restart rs)) es [] []"
  by (auto simp: editor_ok_def readline_show_prompt_def readline_restart_def emit_def holds_def hist_list_def
      coherent_def terminal_append visible_def)

lemma init_ok: "editor_ok readline_init [] [] []"
  by (simp add: editor_ok_def readline_init_def holds_def hist_list_def coherent_def terminal_def visible_def rl_sizes)

lemma if_member: "(c \<Longrightarrow> a \<in> S) \<Longrightarrow> (\<not> c \<Longrightarrow> b \<in> S) \<Longrightarrow> (if c then a else b) \<in> S"
  by simp

lemma space_gt_1 [simp]: "\<not> (32 :: u8) \<le> 1"
  by (simp add: word_le_nat_alt)

lemma edit_key_insert:
  "e = IS_NORM \<and> ch \<ge> 32 \<and> ch \<noteq> 155 \<and> ch \<noteq> 127 \<Longrightarrow> edit_key e p ch l r = (l @ [ch], r) \<and> ch \<noteq> 0"
  by (auto simp: edit_key_def)

lemma edit_key_kinds:
  assumes "\<not> (e = IS_NORM \<and> ch \<ge> 32 \<and> ch \<noteq> 155 \<and> ch \<noteq> 127)"
  shows "edit_key e p ch l r \<in> {([], l @ r), (l, drop 1 r), (l @ r, []), (kill_word l, r), (butlast l, r), (l, r),
     (butlast l, if l = [] then r else last l # r), (l @ take 1 r, drop 1 r)}"
proof (cases e)
  case IS_NORM
  then show ?thesis
    unfolding edit_key_def using assms by (simp only: esc_state.case) (intro if_member; simp)
next
  case IS_ESC
  then show ?thesis by (simp add: edit_key_def)
next
  case IS_CSI
  show ?thesis unfolding edit_key_def IS_CSI esc_state.case by (intro if_member; simp)
qed

lemma edit_key_shorter:
  assumes "x \<in> {([], l @ r), (l, drop 1 r), (l @ r, []), (kill_word l, r), (butlast l, r), (l, r),
     (butlast l, if l = [] then r else last l # r), (l @ take 1 r, drop 1 r)}"
  shows "length (fst x @ snd x) \<le> length (l @ r) \<and> set (fst x @ snd x) \<subseteq> set (l @ r)"
  using assms
proof (elim insertE emptyE, goal_cases)
  case 2
  then show ?case using set_drop_subset [of 1 r] by auto
next
  case 4
  obtain w where w: "l = kill_word l @ w" using kill_word_prefix by blast
  then have "set (kill_word l) \<subseteq> set l" by (metis set_append sup_ge1)
  moreover have "length (kill_word l) \<le> length l" using w by (metis length_append le_add1)
  ultimately show ?case using 4 by auto
next
  case 5
  then show ?case using in_set_butlastD [of _ l] by auto
next
  case 7
  then show ?case by (cases l rule: rev_cases) auto
next
  case 8
  then show ?case by (cases r) auto
qed auto

lemma edit_key_clean:
  assumes "0 \<notin> set (l @ r)"
  shows "0 \<notin> set (fst (edit_key e p ch l r) @ snd (edit_key e p ch l r))"
proof (cases "e = IS_NORM \<and> ch \<ge> 32 \<and> ch \<noteq> 155 \<and> ch \<noteq> 127")
  case True
  from edit_key_insert [OF this, of p l r] show ?thesis using assms by simp
next
  case False
  from edit_key_shorter [OF edit_key_kinds [OF False, of p l r]] show ?thesis using assms by blast
qed

lemma edit_key_length:
  "length (fst (edit_key e p ch l r) @ snd (edit_key e p ch l r)) \<le> Suc (length (l @ r))"
  "edit_key e p ch l r \<noteq> (l @ [ch], r) \<Longrightarrow> length (fst (edit_key e p ch l r) @ snd (edit_key e p ch l r)) \<le> length (l @ r)"
proof -
  have "edit_key e p ch l r = (l @ [ch], r) \<or>
      length (fst (edit_key e p ch l r) @ snd (edit_key e p ch l r)) \<le> length (l @ r)"
    using edit_key_kinds [of e ch p l r] edit_key_shorter edit_key_insert [of e ch p l r] by blast
  then show "length (fst (edit_key e p ch l r) @ snd (edit_key e p ch l r)) \<le> Suc (length (l @ r))"
    and "edit_key e p ch l r \<noteq> (l @ [ch], r) \<Longrightarrow> length (fst (edit_key e p ch l r) @ snd (edit_key e p ch l r)) \<le> length (l @ r)"
    by (metis (no_types) append.assoc append_Cons append_Nil eq_iff fst_conv le_SucI length_append length_Cons add_Suc_right snd_conv, metis)
qed

lemma edit_byte:
  assumes ok: "editor_ok rs es l r" and "\<not> special_key (rl_esc_state rs) ch"
    and "length (l @ r) < 4095 \<or> edit_key (rl_esc_state rs) (esc_param rs) ch l r \<noteq> (l @ [ch], r)"
    and e: "edit_key (rl_esc_state rs) (esc_param rs) ch l r = (l1, r1)"
  shows "\<exists>rs1. readline_handle_byte finder func ch rs = Some rs1 \<and> editor_ok rs1 es l1 r1 \<and>
    terminal (screen rs1) = (visible (read_password rs1) (l1 @ r1), length l1)"
proof -
  obtain rs1 where rs1: "handle_key finder func ch rs = Some rs1" "frame rs rs1" "holds rs1 l1 r1"
    using edit_text [of rs l r ch finder func] assms by (auto simp: editor_ok_def)
  have clean: "0 \<notin> set (l1 @ r1)"
    using edit_key_clean [of l r "rl_esc_state rs" "esc_param rs" ch] ok e by (simp add: editor_ok_def)
  have len: "length (l1 @ r1) \<le> 4095"
    using edit_key_length [of "rl_esc_state rs" "esc_param rs" ch l r] assms(3) ok e by (auto simp: editor_ok_def)
  have co: "coherent rs1"
    using ok rs1(2) by (simp add: editor_ok_def coherent_sframe [OF frame_sframe])
  obtain rs2 where "readline_update rs1 = Some rs2" "holds rs2 l1 r1" "coherent rs2" "redrawn rs1 rs2"
    "terminal (screen rs2) = (visible (read_password rs1) (l1 @ r1), length l1)"
    using update_text [OF rs1(3) clean len co] by blast
  moreover from this have "hist_list rs2 es"
    using ok frame_hist [OF rs1(2), of es] by (simp add: editor_ok_def hist_list_def redrawn_def)
  ultimately show ?thesis
    using rs1(1) clean len by (auto simp: handle_byte_key editor_ok_def redrawn_def)
qed

lemma line_end:
  assumes "editor_ok rs es l r" and "store_at (cmd_buf rs) (cmd_buf_size rs) 0 = Some buf"
  shows "c_str buf = l @ r \<and> length buf = 4096 \<and> holds (rs\<lparr>cmd_buf := buf\<rparr>) l r"
proof -
  obtain rest where b: "cmd_buf rs = l @ r @ rest" and n: "cmd_buf_size rs = length l + length r"
    and len: "length l + (length r + length rest) = 4096" "length l + length r \<le> 4095" and clean: "0 \<notin> set (l @ r)"
    and i: "cmd_buf_index rs = length l"
    using assms(1) by (auto simp: editor_ok_def holds_def)
  obtain z rest1 where rest: "rest = z # rest1" using len by (cases rest) auto
  have "buf = l @ r @ 0 # rest1"
    using assms(2) by (auto simp: store_at_def b n rest list_update_append split: if_splits)
  then show ?thesis using c_str_stop [of "l @ r" rest1] clean len i n by (simp add: rest holds_def)
qed

lemma insert_chars_result:
  assumes "holds rs l r" and "0 \<notin> set (l @ r)" and "0 \<notin> set cs" and "insert_chars cs rs = Some rs1"
    and "hist_list rs es" and "coherent rs"
  shows "\<exists>l1. holds rs1 l1 r \<and> 0 \<notin> set (l1 @ r) \<and> hist_list rs1 es \<and> coherent rs1"
  using insert_chars_text [OF assms(1-4)] assms(5,6) frame_hist coherent_sframe frame_sframe by blast

lemma completion_result:
  assumes "holds rs l r" and "0 \<notin> set (l @ r)" and "hist_list rs es" and "coherent rs" and "finder_ok finder"
    and "readline_completion finder rs = Some rs1"
  shows "\<exists>l1. holds rs1 l1 r \<and> 0 \<notin> set (l1 @ r) \<and> hist_list rs1 es \<and> coherent rs1"
proof -
  let ?cl = "c_str (take (cmd_buf_index rs) (cmd_buf rs))"
  obtain cs i where f: "finder ?cl (rs\<lparr>completions := []\<rparr>) = (rs\<lparr>completions := []\<rparr>)\<lparr>completions := cs, completion_index := i\<rparr>"
    and clean: "\<forall>x\<in>set cs. 0 \<notin> set x" using assms(5) by (metis finder_ok_def)
  define q where "q = rs\<lparr>completions := cs, completion_index := i\<rparr>"
  have q: "finder ?cl (rs\<lparr>completions := []\<rparr>) = q" by (simp add: f q_def)
  have hq: "holds q l r" "hist_list q es" "coherent q"
    using assms(1,3,4) by (simp_all add: q_def holds_def hist_list_def coherent_def)
  have qc: "completions q = cs" "completion_index q = i" by (simp_all add: q_def)
  note run = assms(6) [unfolded readline_completion_def q Let_def qc]
  show ?thesis
  proof (cases cs)
    case Nil
    then show ?thesis using run hq assms(2) by auto
  next
    case (Cons c0 cs1)
    show ?thesis
    proof (cases cs1)
      case Nil
      have c: "0 \<notin> set (drop i c0)" using clean Cons set_drop_subset [of i c0] by auto
      from run obtain q1 where q1: "insert_chars (drop i c0) q = Some q1"
        and rest: "(if c0 \<noteq> [] \<and> last c0 \<noteq> 47 then readline_insert_char 32 q1 else Some q1) = Some rs1"
        unfolding Cons Nil by (auto split: option.splits bind_splits)
      obtain l1 where l1: "holds q1 l1 r" "0 \<notin> set (l1 @ r)" "hist_list q1 es" "coherent q1"
        using insert_chars_result [OF hq(1) assms(2) c q1 hq(2,3)] by blast
      have "insert_chars [32] q1 = readline_insert_char 32 q1" by (cases "readline_insert_char 32 q1") simp_all
      then show ?thesis
        using rest l1 insert_chars_result [OF l1(1,2) _ _ l1(3,4), of "[32]" rs1] by (auto split: if_splits)
    next
      case (Cons c1 cs2)
      define mp where "mp = max_prefix_of c0 cs1 (length c0)"
      let ?q = "emit [Newline] q"
      have c: "0 \<notin> set (drop i (take mp c0))"
        using clean \<open>cs = c0 # cs1\<close> set_drop_subset [of i "take mp c0"] set_take_subset [of mp c0] by auto
      from run obtain q1 ts where q1: "insert_chars (drop i (take mp c0)) ?q = Some q1"
        and rs1: "rs1 = readline_show_prompt (emit ts q1)"
        unfolding \<open>cs = c0 # cs1\<close> Cons mp_def by (auto split: option.splits bind_splits)
      have hq1: "holds ?q l r" "hist_list ?q es" using hq by (simp_all add: emit_def holds_def hist_list_def)
      obtain l1 where l1: "holds q1 l1 r" "0 \<notin> set (l1 @ r)" "frame ?q q1"
        using insert_chars_text [OF hq1(1) assms(2) c q1] by blast
      have "hist_list q1 es" using frame_hist [OF l1(3), of es] hq1(2) by simp
      moreover have "length (last_cmd_buf q1) = 4096" using l1(3) hq(3) by (simp add: frame_def emit_def coherent_def)
      ultimately show ?thesis
        using l1(1,2) unfolding rs1
        by (intro exI [of _ l1])
          (simp add: readline_show_prompt_def emit_def holds_def hist_list_def coherent_def terminal_append visible_def)
    qed
  qed
qed

lemma enter_result:
  assumes "editor_ok rs es l r" and "func_ok func" and "readline_enter func rs = Some rs1"
  shows "\<exists>es1 l1 r1. editor_ok rs1 es1 l1 r1"
proof -
  obtain buf q where q: "(if read_password rs then Some (rs\<lparr>cmd_buf := buf\<rparr>)
        else readline_hist_add (c_str buf) (rs\<lparr>cmd_buf := buf\<rparr>)) = Some q"
    and b: "store_at (cmd_buf rs) (cmd_buf_size rs) 0 = Some buf"
    and rs1: "rs1 = func (c_str buf) ((emit [Newline] q)\<lparr>cmd_buf_index := 0, cmd_buf_size := 0,
        last_cmd_buf_index := 0, last_cmd_buf_size := 0\<rparr>)"
    using assms(3) unfolding readline_enter_def Let_def by (auto split: bind_splits)
  have line: "c_str buf = l @ r" "length buf = 4096" using line_end [OF assms(1) b] by auto
  have h0: "hist_list (rs\<lparr>cmd_buf := buf\<rparr>) es" using assms(1) by (simp add: editor_ok_def hist_list_def)
  have "\<exists>es1. hist_list q es1 \<and> cmd_buf q = buf \<and> last_cmd_buf q = last_cmd_buf rs"
  proof (cases "read_password rs \<or> l @ r = []")
    case True
    then show ?thesis using q h0 line by (auto simp: readline_hist_add_def split: if_splits)
  next
    case False
    show ?thesis
    proof -
      have "l @ r \<noteq> []" "0 \<notin> set (l @ r)" "length (l @ r) \<le> 4095"
        using False assms(1) by (auto simp: editor_ok_def)
      then obtain q1 where q1: "readline_hist_add (l @ r) (rs\<lparr>cmd_buf := buf\<rparr>) = Some q1"
        "hist_list q1 (add_hist (l @ r) es)" "q1 = rs\<lparr>cmd_buf := buf, history := history q1, hist_entry := None\<rparr>"
        using hist_add_list [OF h0, of "l @ r"] by auto
      have "q = q1" using q q1(1) False line by simp
      moreover have "cmd_buf q1 = buf" "last_cmd_buf q1 = last_cmd_buf rs" by (subst q1(3), simp)+
      ultimately show ?thesis using q1(2) by blast
    qed
  qed
  then obtain es1 where es1: "hist_list q es1" "cmd_buf q = buf" "last_cmd_buf q = last_cmd_buf rs" by blast
  have "editor_ok ((emit [Newline] q)\<lparr>cmd_buf_index := 0, cmd_buf_size := 0,
      last_cmd_buf_index := 0, last_cmd_buf_size := 0\<rparr>) es1 [] []"
    using es1 line(2) assms(1)
    by (simp add: editor_ok_def emit_def holds_def hist_list_def coherent_def terminal_append visible_def)
  then show ?thesis using assms(2) unfolding rs1 func_ok_def by blast
qed

lemma inserting_key:
  assumes "\<not> special_key (rl_esc_state rs) ch" and "edit_key (rl_esc_state rs) (esc_param rs) ch l r = (l @ [ch], r)"
  shows "rl_esc_state rs = IS_NORM \<and> ch \<noteq> 0 \<and> handle_key finder func ch rs = insert_chars [ch] rs"
proof -
  have a: "rl_esc_state rs = IS_NORM \<and> ch \<ge> 32 \<and> ch \<noteq> 155 \<and> ch \<noteq> 127"
  proof (rule ccontr)
    assume n: "\<not> ?thesis"
    from edit_key_shorter [OF edit_key_kinds [OF n, of "esc_param rs" l r]] show False by (simp add: assms(2))
  qed
  then have "handle_key finder func ch rs = readline_insert_char ch rs"
    by (auto simp: handle_key_def handle_norm_def)
  moreover have "insert_chars [ch] rs = readline_insert_char ch rs" by (cases "readline_insert_char ch rs") simp_all
  ultimately show ?thesis using a edit_key_insert [of IS_NORM ch] by auto
qed

lemma enter_returns:
  assumes "editor_ok rs es l r"
  shows "readline_enter func rs \<noteq> None"
proof -
  obtain buf where b: "store_at (cmd_buf rs) (cmd_buf_size rs) 0 = Some buf"
    using assms by (auto simp: editor_ok_def holds_def store_at_def)
  have h0: "hist_list (rs\<lparr>cmd_buf := buf\<rparr>) es" using assms(1) by (simp add: editor_ok_def hist_list_def)
  have "readline_hist_add (c_str buf) (rs\<lparr>cmd_buf := buf\<rparr>) \<noteq> None"
  proof (cases "l @ r = []")
    case True
    then show ?thesis using line_end [OF assms b] by (simp add: readline_hist_add_def)
  next
    case False
    then show ?thesis
      using line_end [OF assms b] assms hist_add_list [OF h0, of "l @ r"] by (auto simp: editor_ok_def)
  qed
  then show ?thesis by (auto simp: readline_enter_def b Let_def split: bind_splits)
qed

lemma hist_list_esc [simp]: "hist_list (rs\<lparr>rl_esc_state := e\<rparr>) = hist_list rs"
  by (simp add: hist_list_def fun_eq_iff)

lemma coherent_esc [simp]: "coherent (rs\<lparr>rl_esc_state := e\<rparr>) = coherent rs"
  by (simp add: coherent_def)

lemma history_key:
  assumes "editor_ok rs es l r" and "rl_esc_state rs = IS_CSI" and "special_key IS_CSI ch"
  shows "\<exists>q l1 r1. handle_key finder func ch rs = Some q \<and> holds q l1 r1 \<and> 0 \<notin> set (l1 @ r1) \<and>
    length (l1 @ r1) \<le> 4095 \<and> hist_list q es \<and> coherent q"
proof -
  have h: "holds rs l r" "0 \<notin> set (l @ r)" "hist_list rs es" "coherent rs" "length (l @ r) \<le> 4095"
    using assms(1) by (simp_all add: editor_ok_def)
  obtain q l1 r1 where q: "(if ch = 65 \<or> ch = 70 then readline_up_char rs else readline_down_char rs) = Some q"
    "holds q l1 r1" "0 \<notin> set (l1 @ r1)" "sframe rs q" "hist_list q es" "length (l1 @ r1) \<le> 4095"
    using up_char_text [OF h(3,1,2)] down_char_text [OF h(3,1,2)] h(5) by (cases "ch = 65 \<or> ch = 70") auto
  have "handle_key finder func ch rs = Some (q\<lparr>rl_esc_state := IS_NORM\<rparr>)"
    using q(1) assms(2,3) by (auto simp: handle_key_def handle_csi_def special_key_def split: if_splits)
  moreover have "coherent q" using h(4) coherent_sframe [OF q(4)] by simp
  ultimately show ?thesis using q(2,3,5,6) by auto
qed

text \<open>What any key leads to: nothing, a write outside the buffer, or an editor in order but for its display.\<close>

lemma any_key_result:
  assumes ok: "editor_ok rs es l r" and "finder_ok finder" and "func_ok func"
    and run: "handle_key finder func ch rs = Some rs1"
  shows "\<exists>es1 l1 r1. holds rs1 l1 r1 \<and> 0 \<notin> set (l1 @ r1) \<and> hist_list rs1 es1 \<and> coherent rs1"
proof -
  have h: "holds rs l r" "0 \<notin> set (l @ r)" "hist_list rs es" "coherent rs"
    using ok by (simp_all add: editor_ok_def)
  let ?e = "edit_key (rl_esc_state rs) (esc_param rs) ch l r"
  consider "\<not> special_key (rl_esc_state rs) ch" "length (l @ r) < 4095 \<or> ?e \<noteq> (l @ [ch], r)"
    | "\<not> special_key (rl_esc_state rs) ch" "length (l @ r) = 4095" "?e = (l @ [ch], r)"
    | "rl_esc_state rs = IS_NORM" "ch = 9" | "rl_esc_state rs = IS_NORM" "ch = 10 \<or> ch = 13"
    | "rl_esc_state rs = IS_CSI" "special_key IS_CSI ch"
    using ok by (fastforce simp: editor_ok_def special_key_def)
  then show ?thesis
  proof cases
    case 1
    then obtain rs2 where "handle_key finder func ch rs = Some rs2" "frame rs rs2" "holds rs2 (fst ?e) (snd ?e)"
      using edit_text [OF h(1) 1, of finder func] by blast
    then show ?thesis
      using run edit_key_clean [OF h(2)] frame_hist [of rs rs2 es] h(3,4) coherent_sframe [OF frame_sframe, of rs rs2]
      by (metis option.inject)
  next
    case 2
    then have ch: "rl_esc_state rs = IS_NORM" "ch \<noteq> 0" "handle_key finder func ch rs = insert_chars [ch] rs"
      using inserting_key [of rs ch l r finder func] by auto
    then show ?thesis using insert_chars_result [OF h(1,2) _ _ h(3,4), of "[ch]" rs1] run by auto
  next
    case 3
    then show ?thesis
      using completion_result [OF h assms(2), of rs1] run by (auto simp: handle_key_def handle_norm_def)
  next
    case 4
    show ?thesis
    proof -
      have "readline_enter func rs = Some rs1" using 4 run by (auto simp: handle_key_def handle_norm_def)
      from enter_result [OF ok assms(3) this] show ?thesis unfolding editor_ok_def by blast
    qed
  next
    case 5
    then show ?thesis
      using run history_key [OF ok 5, of finder func] by auto
  qed
qed

lemma key_answers:
  assumes ok: "editor_ok rs es l r" and "finder_ok finder" and "func_ok func"
    and room: "length (l @ r) < 4095 \<and> (rl_esc_state rs = IS_NORM \<longrightarrow> ch \<noteq> 9)"
  shows "readline_handle_byte finder func ch rs \<noteq> None"
proof (cases "special_key (rl_esc_state rs) ch")
  case False
  then show ?thesis
    using edit_byte [OF ok False _ prod.collapse [symmetric], of finder func] room by blast
next
  case True
  have h: "holds rs l r" "0 \<notin> set (l @ r)" "hist_list rs es" "coherent rs" "length (l @ r) \<le> 4095"
    using ok by (simp_all add: editor_ok_def)
  show ?thesis
  proof (cases "rl_esc_state rs = IS_NORM")
    case norm: True
    then have "handle_key finder func ch rs = readline_enter func rs"
      using True room by (auto simp: special_key_def handle_key_def handle_norm_def)
    moreover obtain q where q: "readline_enter func rs = Some q" using enter_returns [OF ok, of func] by auto
    moreover obtain es1 l1 r1 where "editor_ok q es1 l1 r1" using enter_result [OF ok assms(3) q] by blast
    then have "readline_update q \<noteq> None" using update_text [of q l1 r1] by (auto simp: editor_ok_def)
    ultimately show ?thesis by (simp add: handle_byte_key)
  next
    case False
    then have csi: "rl_esc_state rs = IS_CSI" using True by (simp add: special_key_def)
    obtain q l1 r1 where q: "handle_key finder func ch rs = Some q" "holds q l1 r1" "0 \<notin> set (l1 @ r1)"
      "length (l1 @ r1) \<le> 4095" "coherent q"
      using history_key [OF ok csi, of ch finder func] True csi by auto
    have "readline_update q \<noteq> None" using update_text [OF q(2-5)] by auto
    then show ?thesis by (simp add: handle_byte_key q(1))
  qed
qed

subsection \<open>Sequences of keys\<close>

lemma edit_byte_room:
  assumes "editor_ok rs es l r" and "\<not> special_key (rl_esc_state rs) ch"
    and "edit_key (rl_esc_state rs) (esc_param rs) ch l r = (l1, r1)" and "length (l1 @ r1) \<le> length (l @ r)"
  shows "\<exists>rs1. readline_handle_byte finder func ch rs = Some rs1 \<and> editor_ok rs1 es l1 r1"
proof -
  have "length (l @ r) < 4095 \<or> edit_key (rl_esc_state rs) (esc_param rs) ch l r \<noteq> (l @ [ch], r)"
    using assms(3,4) by auto
  from edit_byte [OF assms(1,2) this assms(3), of finder func] show ?thesis by blast
qed

definition type_keys where
  "type_keys finder func ks r = fold (\<lambda>ch r. Option.bind r (readline_handle_byte finder func ch)) ks r"

lemma update_esc: "readline_update q = Some rs \<Longrightarrow> rl_esc_state rs = rl_esc_state q"
  by (auto simp: readline_update_def redraw_line_def emit_def split: if_splits bind_splits)

lemma handle_esc:
  "readline_handle_byte finder func ch rs = Some rs1 \<Longrightarrow> handle_key finder func ch rs = Some q \<Longrightarrow>
     rl_esc_state rs1 = rl_esc_state q"
  by (simp add: handle_byte_key update_esc)

lemma type_char:
  assumes "editor_ok rs es l r" and "rl_esc_state rs = IS_NORM" and "length (l @ r) < 4095"
    and "32 \<le> ch" and "ch \<noteq> 127" and "ch \<noteq> 155"
  shows "\<exists>rs1. readline_handle_byte finder func ch rs = Some rs1 \<and> editor_ok rs1 es (l @ [ch]) r \<and> rl_esc_state rs1 = IS_NORM"
proof -
  have key: "edit_key (rl_esc_state rs) (esc_param rs) ch l r = (l @ [ch], r)"
    using edit_key_insert [of IS_NORM ch] assms by simp
  have ns: "\<not> special_key (rl_esc_state rs) ch" using assms(2,4) by (auto simp: special_key_def)
  obtain rs1 where rs1: "readline_handle_byte finder func ch rs = Some rs1" "editor_ok rs1 es (l @ [ch]) r"
    using edit_byte [OF assms(1) ns _ key, of finder func] assms(3) by blast
  have ins: "handle_key finder func ch rs = insert_chars [ch] rs" using inserting_key [OF ns key] by simp
  obtain q where "readline_insert_char ch rs = Some q" "rl_esc_state q = rl_esc_state rs"
    using insert_char_text [of rs l r ch] assms(1,3) by (auto simp: editor_ok_def)
  then show ?thesis using rs1 ins assms(2) handle_esc [OF rs1(1)] by auto
qed

lemma type_many:
  assumes "editor_ok rs es l []" and "rl_esc_state rs = IS_NORM" and "length l + n \<le> 4095"
  shows "\<exists>rs1. type_keys finder func (replicate n 97) (Some rs) = Some rs1 \<and> editor_ok rs1 es (l @ replicate n 97) [] \<and>
    rl_esc_state rs1 = IS_NORM"
  using assms
proof (induction n arbitrary: rs l)
  case 0
  then show ?case by (simp add: type_keys_def)
next
  case (Suc n)
  obtain rs1 where rs1: "readline_handle_byte finder func 97 rs = Some rs1" "editor_ok rs1 es (l @ [97]) []"
    "rl_esc_state rs1 = IS_NORM"
    using type_char [OF Suc.prems(1,2), of 97 finder func] Suc.prems(3) by auto
  from Suc.IH [OF rs1(2,3)] Suc.prems(3) show ?case
    by (simp add: type_keys_def rs1(1) del: fold_replicate)
qed

lemma cursor_left_keys:
  assumes "editor_ok rs es (l @ [c]) r" and "rl_esc_state rs = IS_NORM"
  shows "\<exists>rs1. type_keys finder func [27, 91, 68] (Some rs) = Some rs1 \<and> editor_ok rs1 es l (c # r) \<and> rl_esc_state rs1 = IS_NORM"
proof -
  have k: "edit_key (rl_esc_state rs) (esc_param rs) 27 (l @ [c]) r = (l @ [c], r)"
    using assms(2) by (simp add: edit_key_def)
  obtain a where a: "readline_handle_byte finder func 27 rs = Some a" "editor_ok a es (l @ [c]) r"
    using edit_byte_room [OF assms(1) _ k, of finder func] assms(2) by (auto simp: special_key_def)
  have ea: "rl_esc_state a = IS_ESC"
    using handle_esc [OF a(1)] assms(2) by (simp add: handle_key_def handle_norm_def)
  have k: "edit_key (rl_esc_state a) (esc_param a) 91 (l @ [c]) r = (l @ [c], r)"
    using ea by (simp add: edit_key_def)
  obtain b where b: "readline_handle_byte finder func 91 a = Some b" "editor_ok b es (l @ [c]) r"
    using edit_byte_room [OF a(2) _ k, of finder func] ea by (auto simp: special_key_def)
  have eb: "rl_esc_state b = IS_CSI"
    using handle_esc [OF b(1)] ea by (simp add: handle_key_def)
  have k: "edit_key (rl_esc_state b) (esc_param b) 68 (l @ [c]) r = (l, c # r)"
    using eb by (simp add: edit_key_def)
  obtain d where d: "readline_handle_byte finder func 68 b = Some d" "editor_ok d es l (c # r)"
    using edit_byte_room [OF b(2) _ k, of finder func] eb by (auto simp: special_key_def)
  have ed: "rl_esc_state d = IS_NORM"
    using handle_esc [OF d(1)] eb by (simp add: handle_key_def handle_csi_def)
  show ?thesis using a(1) b(1) d ed by (simp add: type_keys_def)
qed

lemma full_line_insert:
  assumes "editor_ok rs es l r" and "rl_esc_state rs = IS_NORM" and "length (l @ r) = 4095" and "length l < 4095"
    and "32 \<le> ch" and "ch \<noteq> 127" and "ch \<noteq> 155"
  shows "readline_handle_byte finder func ch rs = None"
proof -
  have "handle_key finder func ch rs = readline_insert_char ch rs"
    using assms(2,5-7) by (auto simp: handle_key_def handle_norm_def)
  moreover obtain q where q: "readline_insert_char ch rs = Some q" "holds q (l @ [ch]) r" "frame rs q"
    using insert_char_text [of rs l r ch] assms by (auto simp: editor_ok_def)
  moreover have "coherent q" using assms(1) coherent_sframe [OF frame_sframe [OF q(3)]] by (simp add: editor_ok_def)
  ultimately show ?thesis using update_full [OF q(2)] assms(3) by (simp add: handle_byte_key)
qed

lemma enter_line:
  assumes "editor_ok rs es l r" and "\<not> read_password rs" and "l @ r \<noteq> []"
  shows "\<exists>q. readline_enter func rs = Some (func (l @ r) q) \<and> editor_ok q (add_hist (l @ r) es) [] [] \<and> hist_entry q = None"
proof -
  obtain buf where b: "store_at (cmd_buf rs) (cmd_buf_size rs) 0 = Some buf"
    using assms(1) by (auto simp: editor_ok_def holds_def store_at_def)
  have line: "c_str buf = l @ r" "length buf = 4096" using line_end [OF assms(1) b] by auto
  have h0: "hist_list (rs\<lparr>cmd_buf := buf\<rparr>) es" using assms(1) by (simp add: editor_ok_def hist_list_def)
  have "0 \<notin> set (l @ r)" "length (l @ r) \<le> 4095" using assms(1) by (simp_all add: editor_ok_def)
  then obtain q where q: "readline_hist_add (l @ r) (rs\<lparr>cmd_buf := buf\<rparr>) = Some q"
    "hist_list q (add_hist (l @ r) es)" "q = rs\<lparr>cmd_buf := buf, history := history q, hist_entry := None\<rparr>"
    using hist_add_list [OF h0 assms(3)] by auto
  have f: "cmd_buf q = buf" "last_cmd_buf q = last_cmd_buf rs" "hist_entry q = None" by (subst q(3), simp)+
  let ?q = "(emit [Newline] q)\<lparr>cmd_buf_index := 0, cmd_buf_size := 0, last_cmd_buf_index := 0, last_cmd_buf_size := 0\<rparr>"
  have "editor_ok ?q (add_hist (l @ r) es) [] []"
    using q(2) f line(2) assms(1)
    by (simp add: editor_ok_def emit_def holds_def hist_list_def coherent_def terminal_append visible_def)
  moreover have "hist_entry ?q = None" using f(3) by (simp add: emit_def)
  moreover have "readline_enter func rs = Some (func (l @ r) ?q)"
    using b q(1) assms(2) line(1) by (simp add: readline_enter_def)
  ultimately show ?thesis by blast
qed

text \<open>A password, and an empty line, are not entered into the history.\<close>

lemma enter_kept:
  assumes "editor_ok rs es l r" and "read_password rs \<or> l @ r = []"
  shows "\<exists>q. readline_enter func rs = Some (func (l @ r) q) \<and> editor_ok q es [] [] \<and> history q = history rs
    \<and> hist_entry q = hist_entry rs"
proof -
  obtain buf where b: "store_at (cmd_buf rs) (cmd_buf_size rs) 0 = Some buf"
    using assms(1) by (auto simp: editor_ok_def holds_def store_at_def)
  have line: "c_str buf = l @ r" "length buf = 4096" using line_end [OF assms(1) b] by auto
  let ?q = "(emit [Newline] (rs\<lparr>cmd_buf := buf\<rparr>))\<lparr>cmd_buf_index := 0, cmd_buf_size := 0, last_cmd_buf_index := 0,
    last_cmd_buf_size := 0\<rparr>"
  have "editor_ok ?q es [] []"
    using line(2) assms(1)
    by (simp add: editor_ok_def emit_def holds_def hist_list_def coherent_def terminal_append visible_def)
  moreover have "history ?q = history rs" "hist_entry ?q = hist_entry rs" by (simp_all add: emit_def)
  moreover have "readline_enter func rs = Some (func (l @ r) ?q)"
    using b assms(2) line(1) by (auto simp: readline_enter_def readline_hist_add_def Let_def)
  ultimately show ?thesis by blast
qed

lemma update_password: "readline_update q = Some rs \<Longrightarrow> read_password rs = read_password q"
  by (auto simp: readline_update_def redraw_line_def emit_def split: if_splits bind_splits)

text \<open>A key that is no edit of the monitor's keeps the password mode.\<close>

lemma handle_password:
  assumes "readline_handle_byte (\<lambda>c q. q) (\<lambda>c q. q) ch rs = Some rs1" and "rl_esc_state rs = IS_NORM" and "ch \<ge> 32"
  shows "read_password rs1 = read_password rs"
  using assms
  by (auto simp: handle_byte_key handle_key_def handle_norm_def readline_insert_char_def readline_backspace_def
      readline_delete_char_def readline_backward_char_def split: bind_splits if_splits dest!: update_password)

section \<open>Properties\<close>

text \<open>[readline_edits] As long as the line has room, every editing key does to the text before and after
  the cursor what the editor as it should be does, keeps the editor in order, and leaves the terminal
  showing the line (stars for a password) with its cursor where the editor's is.\<close>

theorem readline_edits:
  assumes "editor_ok rs es l r" and "\<not> special_key (rl_esc_state rs) ch" and "length (l @ r) < 4095"
    and "edit_key (rl_esc_state rs) (esc_param rs) ch l r = (l1, r1)"
  shows "\<exists>rs1. readline_handle_byte finder func ch rs = Some rs1 \<and> editor_ok rs1 es l1 r1 \<and>
    terminal (screen rs1) = (visible (read_password rs1) (l1 @ r1), length l1)"
  using edit_byte [OF assms(1,2) _ assms(4)] assms(3) by blast

theorem readline_edits_witness:
  "\<exists>rs1. readline_handle_byte (\<lambda>c q. q) (\<lambda>c q. q) 105 readline_init = Some rs1 \<and> editor_ok rs1 [] [105] [] \<and>
     terminal (screen rs1) = (visible (read_password rs1) [105], 1)"
proof -
  have "edit_key (rl_esc_state readline_init) (esc_param readline_init) 105 [] [] = ([105], [])"
    by (simp add: edit_key_def readline_init_def)
  from readline_edits [OF init_ok _ _ this, of "\<lambda>c q. q" "\<lambda>c q. q"] show ?thesis
    by (simp add: special_key_def readline_init_def)
qed

text \<open>C10: [readline_screen] Whatever key comes, an answer of the editor leaves it in order, with the terminal
  showing its line and its cursor; and it does answer when the line has room and the key is not the
  completion.\<close>

theorem readline_screen:
  assumes "editor_ok rs es l r" and "finder_ok finder" and "func_ok func"
  shows "(readline_handle_byte finder func ch rs = Some rs1 \<longrightarrow>
      (\<exists>es1 l1 r1. editor_ok rs1 es1 l1 r1 \<and> terminal (screen rs1) = (visible (read_password rs1) (l1 @ r1), length l1))) \<and>
    (length (l @ r) < 4095 \<and> (rl_esc_state rs = IS_NORM \<longrightarrow> ch \<noteq> 9) \<longrightarrow> readline_handle_byte finder func ch rs \<noteq> None)"
proof (intro conjI impI)
  assume run: "readline_handle_byte finder func ch rs = Some rs1"
  then obtain q where q: "handle_key finder func ch rs = Some q" "readline_update q = Some rs1"
    by (auto simp: handle_byte_key split: bind_splits)
  obtain es1 l1 r1 where h: "holds q l1 r1" "0 \<notin> set (l1 @ r1)" "hist_list q es1" "coherent q"
    using any_key_result [OF assms q(1)] by blast
  have "length (l1 @ r1) \<le> 4095"
    using update_full [OF h(1) _ h(4)] q(2) holds_length [OF h(1)] by (cases "length (l1 @ r1) = 4096") auto
  from update_text [OF h(1,2) this h(4)] q(2) this h
  show "\<exists>es1 l1 r1. editor_ok rs1 es1 l1 r1 \<and> terminal (screen rs1) = (visible (read_password rs1) (l1 @ r1), length l1)"
    by (intro exI [of _ es1] exI [of _ l1] exI [of _ r1])
      (auto simp: editor_ok_def redrawn_def hist_list_def)
next
  assume room: "length (l @ r) < 4095 \<and> (rl_esc_state rs = IS_NORM \<longrightarrow> ch \<noteq> 9)"
  show "readline_handle_byte finder func ch rs \<noteq> None"
    using assms room by (rule key_answers)
qed

theorem readline_screen_witness:
  "\<exists>rs1. readline_handle_byte (\<lambda>c q. q\<lparr>completions := [], completion_index := 0\<rparr>)
     (\<lambda>c q. readline_show_prompt (readline_restart q)) 13 readline_init = Some rs1"
proof -
  have "finder_ok (\<lambda>c q. q\<lparr>completions := [], completion_index := 0\<rparr>)" by (auto simp: finder_ok_def)
  moreover have "func_ok (\<lambda>c q. readline_show_prompt (readline_restart q))"
    using show_prompt_ok unfolding func_ok_def by blast
  ultimately show ?thesis using readline_screen [OF init_ok, of _ _ 13] by fastforce
qed

text \<open>[readline_overflow] The guard of the insertion looks at the cursor, not at the size of the line: 4095
  characters, one step to the left and one more character make the editor write outside its buffer.\<close>

theorem readline_overflow:
  "\<exists>rs. type_keys finder func (replicate READLINE_CMD_BUF_SIZE 97 @ [27, 91, 68]) (Some readline_init) = Some rs \<and>
     editor_ok rs [] (replicate (READLINE_CMD_BUF_SIZE - 1) 97) [97] \<and> readline_handle_byte finder func 97 rs = None"
proof -
  obtain m where m: "READLINE_CMD_BUF_SIZE = Suc m" "Suc m = 4095" by (simp add: READLINE_CMD_BUF_SIZE_def)
  have le: "length ([] :: u8 list) + Suc m \<le> 4095" using m(2) by simp
  have e: "[] @ replicate (Suc m) (97 :: u8) = replicate m 97 @ [97]" by (simp add: replicate_append_same)
  have "rl_esc_state readline_init = IS_NORM" by (simp add: readline_init_def)
  from type_many [OF init_ok this le, of finder func] obtain a where a: "type_keys finder func (replicate (Suc m) 97) (Some readline_init) = Some a"
    "editor_ok a [] (replicate m 97 @ [97]) []" "rl_esc_state a = IS_NORM"
    unfolding e by blast
  obtain b where b: "type_keys finder func [27, 91, 68] (Some a) = Some b" "editor_ok b [] (replicate m 97) [97]"
    "rl_esc_state b = IS_NORM"
    using cursor_left_keys [OF a(2,3)] by blast
  have "readline_handle_byte finder func 97 b = None"
    using full_line_insert [OF b(2,3)] m(2) by simp
  then show ?thesis using a(1) b unfolding m(1) by (auto simp: type_keys_def)
qed

text \<open>C32: [readline_history] Entering a line hands it to the monitor. A line that is not empty, entered while no
  password is read, is then at the end of the history, once, where the first step back finds it again,
  and the history holds at most 64 different lines; an empty line or a password leaves the history as
  it was.\<close>

theorem readline_history:
  assumes "editor_ok rs es l r"
  shows "\<exists>q. readline_enter func rs = Some (func (l @ r) q) \<and>
    (if read_password rs \<or> l @ r = []
     then editor_ok q es [] [] \<and> history q = history rs \<and> hist_entry q = hist_entry rs
     else editor_ok q (add_hist (l @ r) es) [] [] \<and>
       (\<exists>q1. readline_up_char q = Some q1 \<and> holds q1 (l @ r) []) \<and>
       length (add_hist (l @ r) es) \<le> 64 \<and> distinct (add_hist (l @ r) es))"
proof (cases "read_password rs \<or> l @ r = []")
  case True
  with enter_kept [OF assms True] show ?thesis by auto
next
  case False
  then obtain q where q: "readline_enter func rs = Some (func (l @ r) q)" "editor_ok q (add_hist (l @ r) es) [] []"
    "hist_entry q = None"
    using enter_line [OF assms, of func] by blast
  have h: "hist_list q (add_hist (l @ r) es)" "length (cmd_buf q) = 4096" using q(2) by (simp_all add: editor_ok_def holds_def)
  then have len: "length (add_hist (l @ r) es) \<le> 64" "distinct (add_hist (l @ r) es)" by (simp_all add: hist_list_def)
  have last: "add_hist (l @ r) es \<noteq> []" "add_hist (l @ r) es ! (length (add_hist (l @ r) es) - 1) = l @ r"
    by (simp_all add: add_hist_def Let_def nth_append)
  then have "length (add_hist (l @ r) es) - 1 < length (add_hist (l @ r) es)" by (cases "add_hist (l @ r) es") simp_all
  from load_history_text [OF h(1) this h(2)] obtain q1
    where q1: "load_history (length (add_hist (l @ r) es) - 1) q = Some q1" "holds q1 (l @ r) []"
    unfolding last(2) by blast
  have "free_slot (history q) 0 = length (add_hist (l @ r) es)"
    using h(1) free_slot_list [of "add_hist (l @ r) es" _ 0] by (simp add: hist_list_def)
  then have "readline_up_char q = Some q1"
    using q(3) q1(1) last(1) by (simp add: readline_up_char_def)
  with q(1,2) q1(2) len show ?thesis unfolding if_not_P [OF False] by blast
qed

theorem readline_history_witness:
  "\<exists>rs q. type_keys (\<lambda>c q. q) (\<lambda>c q. q) [108, 115] (Some readline_init) = Some rs \<and>
     readline_enter (\<lambda>c q. q) rs = Some q \<and> editor_ok q [[108, 115]] [] []"
proof -
  let ?f = "\<lambda>(c :: u8 list) (q :: ReadLineState). q"
  obtain a where a: "readline_handle_byte ?f ?f 108 readline_init = Some a" "editor_ok a [] [108] []" "rl_esc_state a = IS_NORM"
    using type_char [OF init_ok, of 108 ?f ?f] by (auto simp: readline_init_def)
  obtain b where b: "readline_handle_byte ?f ?f 115 a = Some b" "editor_ok b [] [108, 115] []" "rl_esc_state b = IS_NORM"
    using type_char [OF a(2,3), of 115 ?f ?f] by auto
  have "read_password b = False"
    using handle_password [OF a(1)] handle_password [OF b(1)] a(3) by (simp add: readline_init_def)
  then show ?thesis
    using readline_history [OF b(2), of ?f] a(1) b(1) by (force simp: type_keys_def add_hist_def)
qed

end
