(* ===== verification/I8254.thy ===== *)
theory I8254
  imports Prelude "HOL-Library.Monad_Syntax"
begin

text \<open>
  The programmable interval timer (\<^verbatim>\<open>hw/i8254.c\<close>, \<^verbatim>\<open>hw/i8254_common.c\<close>) and the scaling of clock values
  it uses. Clock values are nanoseconds in 64-bit words, as in C; \<open>now\<close> is what the virtual clock shows when
  the operation runs. A channel with a timer carries the time it is armed for and the level of its line.
  An access outside the array of channels is \<open>None\<close>.
\<close>

section \<open>Scaling\<close>

text \<open>\<open>a * b / c\<close> with a 96-bit intermediate result, in two 32-bit halves.\<close>

definition muldiv64 :: "u64 \<Rightarrow> u32 \<Rightarrow> u32 \<Rightarrow> u64" where
  "muldiv64 a b c =
     (let low = (ucast a :: u32); high = (ucast (drop_bit 32 a) :: u32);
          rl = (ucast low :: u64) * ucast b;
          rh = (ucast high :: u64) * ucast b + drop_bit 32 rl;
          res_high = (ucast (rh div ucast c) :: u32);
          res_low = (ucast ((push_bit 32 (rh mod ucast c) + (rl AND 0xffffffff)) div ucast c) :: u32)
      in push_bit 32 (ucast res_high) OR ucast res_low)"

definition PIT_FREQ :: u32 where
  "PIT_FREQ = 1193182"

definition get_ticks_per_sec :: u32 where
  "get_ticks_per_sec = 1000000000"

section \<open>State\<close>

definition RW_STATE_LSB :: u8 where "RW_STATE_LSB = 1"
definition RW_STATE_MSB :: u8 where "RW_STATE_MSB = 2"
definition RW_STATE_WORD0 :: u8 where "RW_STATE_WORD0 = 3"
definition RW_STATE_WORD1 :: u8 where "RW_STATE_WORD1 = 4"

text \<open>\<open>irq_timer\<close> is \<open>None\<close> for a channel without a timer, \<open>Some None\<close> for one that is not armed; \<open>irq\<close> is the level
  the channel last drove its line to.\<close>

record PITChannelState =
  pit_count :: int
  latched_count :: u16
  count_latched :: u8
  status_latched :: u8
  pit_status :: u8
  read_state :: u8
  write_state :: u8
  write_latch :: u8
  rw_mode :: u8
  pit_mode :: u8
  bcd :: u8
  gate :: u8
  count_load_time :: u64
  next_transition_time :: u64
  irq_timer :: "u64 option option"
  irq :: bool
  irq_disabled :: bool

record PITChannelInfo =
  info_gate :: u8
  info_mode :: u8
  info_initial_count :: int
  info_out :: bool

text \<open>The three channels.\<close>

type_synonym PITCommonState = "PITChannelState list"

section \<open>The counter\<close>

definition pit_ticks :: "PITChannelState \<Rightarrow> u64 \<Rightarrow> u64" where
  "pit_ticks s now = muldiv64 (now - count_load_time s) PIT_FREQ get_ticks_per_sec"

definition pit_get_count :: "PITChannelState \<Rightarrow> u64 \<Rightarrow> int" where
  "pit_get_count s now =
     (let d = pit_ticks s now; count = (word_of_int (pit_count s) :: u64) in
      if pit_mode s = 0 \<or> pit_mode s = 1 \<or> pit_mode s = 4 \<or> pit_mode s = 5 then uint ((count - d) AND 0xffff)
      else if pit_mode s = 3 then uint (count - (2 * d) mod count)
      else uint (count - d mod count))"

definition pit_get_out :: "PITChannelState \<Rightarrow> u64 \<Rightarrow> bool" where
  "pit_get_out s now =
     (let d = pit_ticks s now; count = (word_of_int (pit_count s) :: u64) in
      if pit_mode s = 1 then d < count
      else if pit_mode s = 2 then d mod count = 0 \<and> d \<noteq> 0
      else if pit_mode s = 3 then d mod count < word_of_int ((pit_count s + 1) div 2)
      else if pit_mode s = 4 \<or> pit_mode s = 5 then d = count
      else d \<ge> count)"

text \<open>The tick of the next transition, if there is one.\<close>

definition pit_next_tick :: "PITChannelState \<Rightarrow> u64 \<Rightarrow> u64 option" where
  "pit_next_tick s d =
     (let count = (word_of_int (pit_count s) :: u64) in
      if pit_mode s = 2 then
        (let base = (d div count) * count in
         if d - base = 0 \<and> d \<noteq> 0 then Some (base + count) else Some (base + count + 1))
      else if pit_mode s = 3 then
        (let base = (d div count) * count; period2 = (word_of_int ((pit_count s + 1) div 2) :: u64) in
         if d - base < period2 then Some (base + period2) else Some (base + count))
      else if pit_mode s = 4 \<or> pit_mode s = 5 then
        (if d < count then Some count else if d = count then Some (count + 1) else None)
      else (if d < count then Some count else None))"

text \<open>The time it is due at; all ones (-1) if no transition will occur.\<close>

definition pit_get_next_transition_time :: "PITChannelState \<Rightarrow> u64 \<Rightarrow> u64" where
  "pit_get_next_transition_time s now =
     (case pit_next_tick s (pit_ticks s now) of
        None \<Rightarrow> - 1
      | Some tick \<Rightarrow>
          (let next_time = count_load_time s + muldiv64 tick get_ticks_per_sec PIT_FREQ in
           if next_time \<le> now then now + 1 else next_time))"

section \<open>The interrupt line\<close>

definition pit_irq_timer_update :: "u64 \<Rightarrow> PITChannelState \<Rightarrow> PITChannelState" where
  "pit_irq_timer_update current_time s =
     (if irq_timer s = None \<or> irq_disabled s then s
      else
        (let expire_time = pit_get_next_transition_time s current_time; irq_level = pit_get_out s current_time in
         s\<lparr>irq := irq_level, next_transition_time := expire_time,
           irq_timer := Some (if expire_time \<noteq> - 1 then Some expire_time else None)\<rparr>))"

definition pit_irq_timer :: "PITChannelState \<Rightarrow> PITChannelState" where
  "pit_irq_timer s = pit_irq_timer_update (next_transition_time s) s"

section \<open>Programming\<close>

definition restart_counting :: "u64 \<Rightarrow> PITChannelState \<Rightarrow> PITChannelState" where
  "restart_counting now s = pit_irq_timer_update now (s\<lparr>count_load_time := now\<rparr>)"

definition pit_set_channel_gate :: "u64 \<Rightarrow> u8 \<Rightarrow> PITChannelState \<Rightarrow> PITChannelState" where
  "pit_set_channel_gate now val sc =
     (let s = (if pit_mode sc = 1 \<or> pit_mode sc = 5 then if gate sc < val then restart_counting now sc else sc
               else if pit_mode sc = 2 \<or> pit_mode sc = 3 then if gate sc < val then restart_counting now sc else sc
               else sc)
      in s\<lparr>gate := val\<rparr>)"

definition pit_load_count :: "u64 \<Rightarrow> int \<Rightarrow> PITChannelState \<Rightarrow> PITChannelState" where
  "pit_load_count now val0 s =
     (let val = (if val0 = 0 then 0x10000 else val0) in
      pit_irq_timer_update now (s\<lparr>count_load_time := now, pit_count := val\<rparr>))"

definition pit_latch_count :: "u64 \<Rightarrow> PITChannelState \<Rightarrow> PITChannelState" where
  "pit_latch_count now s =
     (if count_latched s = 0
      then s\<lparr>latched_count := word_of_int (pit_get_count s now), count_latched := rw_mode s\<rparr> else s)"

definition pit_status_byte :: "u64 \<Rightarrow> PITChannelState \<Rightarrow> u8" where
  "pit_status_byte now s =
     push_bit 7 (if pit_get_out s now then 1 else 0) OR push_bit 4 (rw_mode s) OR push_bit 1 (pit_mode s) OR bcd s"

text \<open>The read back command for one of the channels.\<close>

definition read_back :: "u64 \<Rightarrow> u32 \<Rightarrow> nat \<Rightarrow> PITChannelState \<Rightarrow> PITChannelState" where
  "read_back now val channel s =
     (if val AND push_bit channel 2 \<noteq> 0
      then
        (let s1 = (if val AND 0x20 = 0 then pit_latch_count now s else s) in
         if val AND 0x10 = 0 \<and> status_latched s1 = 0
         then s1\<lparr>pit_status := pit_status_byte now s1, status_latched := 1\<rparr> else s1)
      else s)"

definition control_word :: "u64 \<Rightarrow> u32 \<Rightarrow> PITChannelState \<Rightarrow> PITChannelState" where
  "control_word now val s =
     (let access = drop_bit 4 val AND 3 in
      if access = 0 then pit_latch_count now s
      else s\<lparr>rw_mode := ucast access, read_state := ucast access, write_state := ucast access,
             pit_mode := ucast (drop_bit 1 val AND 7), bcd := ucast (val AND 1)\<rparr>)"

definition count_write :: "u64 \<Rightarrow> u32 \<Rightarrow> PITChannelState \<Rightarrow> PITChannelState" where
  "count_write now val s =
     (if write_state s = RW_STATE_MSB then pit_load_count now (sint (push_bit 8 val)) s
      else if write_state s = RW_STATE_WORD0 then s\<lparr>write_latch := ucast val, write_state := RW_STATE_WORD1\<rparr>
      else if write_state s = RW_STATE_WORD1
      then (pit_load_count now (sint (ucast (write_latch s) OR push_bit 8 val)) s)\<lparr>write_state := RW_STATE_WORD0\<rparr>
      else pit_load_count now (sint val) s)"

definition on_channel :: "nat \<Rightarrow> (PITChannelState \<Rightarrow> PITChannelState) \<Rightarrow> PITCommonState \<Rightarrow> PITCommonState option" where
  "on_channel i f pit = (if i < length pit then Some (pit[i := f (pit ! i)]) else None)"

definition pit_ioport_write :: "u64 \<Rightarrow> u32 \<Rightarrow> u32 \<Rightarrow> PITCommonState \<Rightarrow> PITCommonState option" where
  "pit_ioport_write now addr0 val pit =
     (let addr = addr0 AND 3 in
      if addr = 3 then
        (let channel = unat (drop_bit 6 val) in
         if channel = 3
         then do { p0 \<leftarrow> on_channel 0 (read_back now val 0) pit; p1 \<leftarrow> on_channel 1 (read_back now val 1) p0;
                   on_channel 2 (read_back now val 2) p1 }
         else on_channel channel (control_word now val) pit)
      else on_channel (unat addr) (count_write now val) pit)"

text \<open>One read of a channel: the byte, and the channel after it.\<close>

definition channel_read :: "u64 \<Rightarrow> PITChannelState \<Rightarrow> int \<times> PITChannelState" where
  "channel_read now s =
     (if status_latched s \<noteq> 0 then (uint (pit_status s), s\<lparr>status_latched := 0\<rparr>)
      else if count_latched s \<noteq> 0
      then if count_latched s = RW_STATE_MSB then (uint (drop_bit 8 (latched_count s)), s\<lparr>count_latched := 0\<rparr>)
           else if count_latched s = RW_STATE_WORD0
           then (uint (latched_count s AND 0xff), s\<lparr>count_latched := RW_STATE_MSB\<rparr>)
           else (uint (latched_count s AND 0xff), s\<lparr>count_latched := 0\<rparr>)
      else
        (let count = pit_get_count s now in
         if read_state s = RW_STATE_MSB then ((count div 256) mod 256, s)
         else if read_state s = RW_STATE_WORD0 then (count mod 256, s\<lparr>read_state := RW_STATE_WORD1\<rparr>)
         else if read_state s = RW_STATE_WORD1 then ((count div 256) mod 256, s\<lparr>read_state := RW_STATE_WORD0\<rparr>)
         else (count mod 256, s)))"

definition pit_ioport_read :: "u64 \<Rightarrow> u32 \<Rightarrow> PITCommonState \<Rightarrow> (int \<times> PITCommonState) option" where
  "pit_ioport_read now addr0 pit =
     (let i = unat (addr0 AND 3) in
      if i < length pit then (let (v, s) = channel_read now (pit ! i) in Some (v, pit[i := s])) else None)"

section \<open>Reset and control\<close>

definition reset_channel :: "u64 \<Rightarrow> nat \<Rightarrow> PITChannelState \<Rightarrow> PITChannelState" where
  "reset_channel now i s0 =
     (let s = s0\<lparr>pit_mode := 3, gate := (if i \<noteq> 2 then 1 else 0), count_load_time := now, pit_count := 0x10000\<rparr> in
      if i = 0 \<and> \<not> irq_disabled s then s\<lparr>next_transition_time := pit_get_next_transition_time s now\<rparr> else s)"

definition pit_reset_common :: "u64 \<Rightarrow> PITCommonState \<Rightarrow> PITCommonState option" where
  "pit_reset_common now pit =
     do { p0 \<leftarrow> on_channel 0 (reset_channel now 0) pit; p1 \<leftarrow> on_channel 1 (reset_channel now 1) p0;
          on_channel 2 (reset_channel now 2) p1 }"

definition pit_reset :: "u64 \<Rightarrow> PITCommonState \<Rightarrow> PITCommonState option" where
  "pit_reset now pit =
     do { p \<leftarrow> pit_reset_common now pit;
          on_channel 0 (\<lambda>s. if \<not> irq_disabled s then s\<lparr>irq_timer := Some (Some (next_transition_time s))\<rparr> else s) p }"

definition pit_irq_control :: "u64 \<Rightarrow> bool \<Rightarrow> PITCommonState \<Rightarrow> PITCommonState option" where
  "pit_irq_control now enable pit =
     on_channel 0 (\<lambda>s. if enable then pit_irq_timer_update now (s\<lparr>irq_disabled := False\<rparr>)
                       else s\<lparr>irq_disabled := True, irq_timer := Some None\<rparr>) pit"

definition pit_post_load :: "PITCommonState \<Rightarrow> PITCommonState option" where
  "pit_post_load pit =
     on_channel 0 (\<lambda>s. s\<lparr>irq_timer := Some (if next_transition_time s \<noteq> - 1 then Some (next_transition_time s) else None)\<rparr>) pit"

definition pit_get_channel_info_common :: "u64 \<Rightarrow> PITChannelState \<Rightarrow> PITChannelInfo" where
  "pit_get_channel_info_common now sc =
     \<lparr>info_gate = gate sc, info_mode = pit_mode sc, info_initial_count = pit_count sc, info_out = pit_get_out sc now\<rparr>"

text \<open>A fresh device is all zero; its first channel gets a timer that is not armed.\<close>

definition pit_zero_channel :: PITChannelState where
  "pit_zero_channel = \<lparr>pit_count = 0, latched_count = 0, count_latched = 0, status_latched = 0, pit_status = 0,
     read_state = 0, write_state = 0, write_latch = 0, rw_mode = 0, pit_mode = 0, bcd = 0, gate = 0,
     count_load_time = 0, next_transition_time = 0, irq_timer = None, irq = False, irq_disabled = False\<rparr>"

definition pit_initfn :: PITCommonState where
  "pit_initfn = [pit_zero_channel\<lparr>irq_timer := Some None\<rparr>, pit_zero_channel, pit_zero_channel]"

end
