(* ===== verification/I8254Time.thy ===== *)
theory I8254Time
  imports I8254
begin

text \<open>
  The timer's arithmetic on natural numbers: the scaling is exact, the output and the next transition are
  functions of the tick, and the state keeps its ranges. The properties follow from these.
\<close>

section \<open>The scaling is exact\<close>

lemma half_product: "(x :: nat) < 2 ^ 32 \<Longrightarrow> y < 2 ^ 32 \<Longrightarrow> x * y \<le> (2 ^ 32 - 1) * (2 ^ 32 - 1)"
  by (intro mult_mono) auto

lemma muldiv_split:
  fixes A B C :: nat
  assumes "0 < C" and rl: "rl = A mod 2 ^ 32 * B" and rh: "rh = A div 2 ^ 32 * B + rl div 2 ^ 32"
  shows "A * B div C = rh div C * 2 ^ 32 + (rh mod C * 2 ^ 32 + rl mod 2 ^ 32) div C"
proof -
  have g: "(x * k + y) * b = x * b * k + y * b" for x k y b :: nat by (simp add: algebra_simps)
  have "A * B = (A div 2 ^ 32 * 2 ^ 32 + A mod 2 ^ 32) * B" by simp
  also have "\<dots> = A div 2 ^ 32 * B * 2 ^ 32 + rl" unfolding rl by (rule g)
  also have "\<dots> = A div 2 ^ 32 * B * 2 ^ 32 + (rl div 2 ^ 32 * 2 ^ 32 + rl mod 2 ^ 32)" by simp
  also have "\<dots> = rh * 2 ^ 32 + rl mod 2 ^ 32" unfolding rh by (simp only: distrib_right add.assoc)
  also have "\<dots> = rh div C * 2 ^ 32 * C + (rh mod C * 2 ^ 32 + rl mod 2 ^ 32)"
  proof -
    have "rh = rh div C * C + rh mod C" by simp
    then have "rh * 2 ^ 32 = (rh div C * C + rh mod C) * 2 ^ 32" by simp
    then show ?thesis by (simp only: g add.assoc)
  qed
  finally show ?thesis using assms(1) by (simp only: div_mult_self3 add.commute mult.commute) simp
qed

lemma unat_halves:
  "unat (ucast (ucast (a :: u64) :: u32) :: u64) = unat a mod 2 ^ 32"
  "unat (ucast (ucast (drop_bit 32 a) :: u32) :: u64) = unat a div 2 ^ 32"
  "unat (ucast (b :: u32) :: u64) = unat b"
proof -
  have a: "unat a < 2 ^ 64" using unsigned_less [of a] by simp
  then have "unat a div 2 ^ 32 < 2 ^ 32" by (simp add: less_mult_imp_div_less)
  then show "unat (ucast (ucast (drop_bit 32 a) :: u32) :: u64) = unat a div 2 ^ 32"
    by (simp add: unsigned_ucast_eq unsigned_drop_bit_eq take_bit_eq_mod drop_bit_eq_div unat_mod unat_div)
  show "unat (ucast (ucast (a :: u64) :: u32) :: u64) = unat a mod 2 ^ 32"
    by (simp add: unsigned_ucast_eq take_bit_eq_mod unat_mod)
  show "unat (ucast (b :: u32) :: u64) = unat b"
    by (simp add: unsigned_ucast_eq take_bit_nat_eq_self order.strict_trans [OF unsigned_less])
qed

lemma unat_low_half: "unat ((rl :: u64) AND 0xffffffff) = unat rl mod 2 ^ 32"
proof -
  have "(0xffffffff :: u64) = mask 32" by (simp add: mask_eq_exp_minus_1)
  then have "rl AND 0xffffffff = take_bit 32 rl" by (simp add: take_bit_eq_mask)
  then show ?thesis by (simp add: unsigned_take_bit_eq take_bit_eq_mod unat_mod)
qed

lemma unat_join: "unat (push_bit 32 (ucast (h :: u32)) OR ucast (l :: u32) :: u64) = unat h * 2 ^ 32 + unat l"
proof -
  have "push_bit 32 (ucast h) OR ucast l = (push_bit 32 (ucast h) + ucast l :: u64)"
    by (rule disjunctive_add [symmetric]) (auto simp: bit_simps dest: bit_imp_le_length)
  moreover have "unat (push_bit 32 (ucast h) :: u64) = unat h * 2 ^ 32"
  proof -
    have "unat (push_bit 32 (ucast h) :: u64) = unat h * 2 ^ 32 mod 2 ^ 64"
      by (simp add: push_bit_eq_mult unat_word_ariths(2) unat_halves(3))
    moreover have "unat h < 2 ^ 32" using unsigned_less [of h] by simp
    ultimately show ?thesis by simp
  qed
  moreover have "unat h < 2 ^ 32" "unat l < 2 ^ 32" using unsigned_less [of h] unsigned_less [of l] by simp_all
  ultimately show ?thesis by (simp add: unat_word_ariths(1) unat_halves(3))
qed

lemma join_mod: "(l :: nat) < 4294967296 \<Longrightarrow> q mod 4294967296 * 4294967296 + l = (q * 4294967296 + l) mod 18446744073709551616"
proof -
  assume l: "l < 4294967296"
  define x y where "x = q div 4294967296" and "y = q mod 4294967296"
  then have "q = x * 4294967296 + y" by simp
  then have "q * 4294967296 + l = x * 18446744073709551616 + (y * 4294967296 + l)" by simp
  then have "q * 4294967296 + l = q div 4294967296 * 18446744073709551616 + (q mod 4294967296 * 4294967296 + l)"
    unfolding x_def y_def .
  moreover have "q mod 4294967296 * 4294967296 + l < 18446744073709551616" using l by simp
  ultimately show ?thesis by (metis mod_less mod_mult_self3)
qed

lemma muldiv64_nat:
  assumes "c \<noteq> 0"
  shows "unat (muldiv64 a b c) = (unat a * unat b div unat c) mod 2 ^ 64"
proof -
  define A B C where "A = unat a" and "B = unat b" and "C = unat c"
  define rl where "rl = (ucast (ucast a :: u32) :: u64) * ucast b"
  define rh where "rh = (ucast (ucast (drop_bit 32 a) :: u32) :: u64) * ucast b + drop_bit 32 rl"
  have lt: "B < 2 ^ 32" "C < 2 ^ 32" "A < 2 ^ 64" using unsigned_less [of a] unsigned_less [of b] unsigned_less [of c]
    by (simp_all add: A_def B_def C_def)
  have C0: "0 < C" using assms by (simp add: C_def unat_gt_0)
  have "A mod 2 ^ 32 < 2 ^ 32" by simp
  from half_product [OF this lt(1)] have "A mod 2 ^ 32 * B < 2 ^ 64" by simp
  then have url: "unat rl = A mod 2 ^ 32 * B"
    unfolding rl_def unat_word_ariths(2) unat_halves(1) A_def B_def
    unfolding unat_halves(3) by simp
  have "A div 2 ^ 32 < 2 ^ 32" using lt(3) by (simp add: less_mult_imp_div_less)
  from half_product [OF this lt(1)] have hb: "A div 2 ^ 32 * B \<le> (2 ^ 32 - 1) * (2 ^ 32 - 1)" .
  moreover have "unat rl div 2 ^ 32 < 2 ^ 32" using unsigned_less [of rl, where ?'a = nat] by (simp add: less_mult_imp_div_less)
  ultimately have "A div 2 ^ 32 * B + unat rl div 2 ^ 32 < 2 ^ 64" "A div 2 ^ 32 * B < 2 ^ 64" by simp_all
  then have urh: "unat rh = A div 2 ^ 32 * B + unat rl div 2 ^ 32"
    unfolding rh_def unat_word_ariths(1,2) unat_halves(2) A_def B_def
    unfolding unat_halves(3) unat_drop_bit_eq drop_bit_eq_div by (simp add: unat_div)
  have r: "unat rh mod C < C" "unat rl mod 2 ^ 32 < 2 ^ 32" using C0 by simp_all
  have low: "(unat rh mod C * 2 ^ 32 + unat rl mod 2 ^ 32) div C < 2 ^ 32"
    by (rule less_mult_imp_div_less) (use r in \<open>simp add: mult.commute\<close>, linarith?)
  have "unat rh mod C * 2 ^ 32 + unat rl mod 2 ^ 32 < 2 ^ 64" using r lt(2) by simp
  then have lw: "unat (push_bit 32 (rh mod ucast c) + (rl AND 0xffffffff)) =
      unat rh mod C * 2 ^ 32 + unat rl mod 2 ^ 32"
    unfolding unat_word_ariths(1) unat_low_half push_bit_eq_mult unat_word_ariths(2) unat_mod unat_halves(3) C_def [symmetric]
    by simp
  have "push_bit 32 (ucast (ucast (rh div ucast c) :: u32)) OR ucast (ucast ((push_bit 32 (rh mod ucast c) + (rl AND 0xffffffff)) div ucast c) :: u32) = muldiv64 a b c"
    by (simp only: muldiv64_def Let_def rl_def rh_def)
  then have "unat (muldiv64 a b c) = unat (ucast (rh div ucast c) :: u32) * 2 ^ 32 +
      unat (ucast ((push_bit 32 (rh mod ucast c) + (rl AND 0xffffffff)) div ucast c) :: u32)"
    by (metis unat_join)
  moreover have "unat (ucast w :: u32) = unat w mod 2 ^ 32" for w :: u64
    by (simp add: unsigned_ucast_eq take_bit_eq_mod unat_mod)
  ultimately have "unat (muldiv64 a b c) = unat rh div C mod 2 ^ 32 * 2 ^ 32 +
      (unat rh mod C * 2 ^ 32 + unat rl mod 2 ^ 32) div C"
    using low by (simp only: lw unat_div unat_halves(3) C_def [symmetric] mod_less)
  moreover have "A * B div C = unat rh div C * 2 ^ 32 + (unat rh mod C * 2 ^ 32 + unat rl mod 2 ^ 32) div C"
    by (rule muldiv_split [OF C0 url urh])
  ultimately show ?thesis
    using low by (simp only: A_def [symmetric] B_def [symmetric] C_def [symmetric]) (simp add: join_mod)
qed

section \<open>Ticks\<close>

definition ticks_of :: "nat \<Rightarrow> nat" where
  "ticks_of ns = ns * 1193182 div 1000000000"

definition time_of :: "nat \<Rightarrow> nat" where
  "time_of tick = tick * 1000000000 div 1193182"

lemma ticks_before: "t < time_of x \<Longrightarrow> ticks_of t < x"
  unfolding ticks_of_def time_of_def by (simp add: div_less_iff_less_mult less_eq_div_iff_mult_less_eq flip: Suc_le_eq)

lemma ticks_after: "time_of x < t \<Longrightarrow> x \<le> ticks_of t"
  unfolding ticks_of_def time_of_def by (simp add: div_less_iff_less_mult less_eq_div_iff_mult_less_eq)

lemma ticks_at: "x - 1 \<le> ticks_of (time_of x) \<and> ticks_of (time_of x) \<le> x \<and> ticks_of (time_of x + 1) = x"
proof -
  define q r where "q = x * 1000000000 div 1193182" and "r = x * 1000000000 mod 1193182"
  have x: "x * 1000000000 = q * 1193182 + r" by (simp only: q_def r_def div_mult_mod_eq)
  have r: "r < 1193182" by (simp add: r_def)
  have "x - 1 \<le> q * 1193182 div 1000000000" using x r by (subst less_eq_div_iff_mult_less_eq) simp_all
  moreover have "q * 1193182 div 1000000000 < Suc x" using x by (subst div_less_iff_less_mult) simp_all
  moreover have "(q + 1) * 1193182 div 1000000000 < Suc x" using x by (subst div_less_iff_less_mult) simp_all
  moreover have "x \<le> (q + 1) * 1193182 div 1000000000" using x r by (subst less_eq_div_iff_mult_less_eq) simp_all
  ultimately show ?thesis
    unfolding ticks_of_def time_of_def q_def [symmetric] by linarith
qed

lemma ticks_of_mono: "s \<le> t \<Longrightarrow> ticks_of s \<le> ticks_of t"
  by (simp add: ticks_of_def div_le_mono)

text \<open>The output as a function of the tick, and the tick of its next change.\<close>

definition out_at :: "u8 \<Rightarrow> nat \<Rightarrow> nat \<Rightarrow> bool" where
  "out_at m c d =
     (if m = 1 then d < c else if m = 2 then d mod c = 0 \<and> d \<noteq> 0
      else if m = 3 then d mod c < (c + 1) div 2 else if m = 4 \<or> m = 5 then d = c else c \<le> d)"

definition next_at :: "u8 \<Rightarrow> nat \<Rightarrow> nat \<Rightarrow> nat option" where
  "next_at m c d =
     (if m = 2 then (let base = d div c * c in if d = base \<and> d \<noteq> 0 then Some (base + c) else Some (base + c + 1))
      else if m = 3 then
        (let base = d div c * c in if d - base < (c + 1) div 2 then Some (base + (c + 1) div 2) else Some (base + c))
      else if m = 4 \<or> m = 5 then (if d < c then Some c else if d = c then Some (c + 1) else None)
      else (if d < c then Some c else None))"

lemma next_at_change:
  assumes "next_at m c d = Some x" and "m \<noteq> 2" and "m = 3 \<longrightarrow> 2 \<le> c"
  shows "d < x \<and> x \<le> d + c + 1 \<and> out_at m c x \<noteq> out_at m c d \<and>
    (\<forall>y. d \<le> y \<and> y < x \<longrightarrow> out_at m c y = out_at m c d \<and> next_at m c y = Some x)"
proof (cases "m = 3")
  case False
  then show ?thesis using assms(1,2) by (auto simp: next_at_def out_at_def split: if_splits)
next
  case True
  define q r where "q = d div c" and "r = d mod c"
  have d: "d = q * c + r" "r < c" using assms(3) True by (simp_all add: q_def r_def)
  let ?p = "(c + 1) div 2"
  have p: "0 < ?p" "?p < c" using assms(3) True by auto
  have at: "y = q * c + (y - q * c) \<and> y div c = q \<and> y mod c = y - q * c" if "q * c \<le> y" "y < q * c + c" for y
  proof -
    obtain k where k: "y = q * c + k" using \<open>q * c \<le> y\<close> by (metis le_iff_add)
    then have "k < c" using that(2) by simp
    with k show ?thesis by simp
  qed
  show ?thesis
  proof (cases "r < ?p")
    case lt: True
    then have x: "x = q * c + ?p" using assms(1) True d at [of d] by (auto simp: next_at_def Let_def)
    show ?thesis
      using True d lt p at unfolding x
      by (auto simp: out_at_def next_at_def Let_def)
  next
    case ge: False
    then have x: "x = q * c + c" using assms(1) True d at [of d] by (auto simp: next_at_def Let_def)
    show ?thesis
      using True d ge p at unfolding x
      by (auto simp: out_at_def next_at_def Let_def)
  qed
qed

lemma next_at_none:
  assumes "next_at m c d = None" and "d \<le> y"
  shows "out_at m c y = out_at m c d"
  using assms by (auto simp: next_at_def out_at_def Let_def split: if_splits)

section \<open>The channel in ticks\<close>

definition count_ok :: "PITChannelState \<Rightarrow> bool" where
  "count_ok s \<longleftrightarrow> 1 \<le> pit_count s \<and> pit_count s \<le> 65536"

lemma count_word:
  assumes "count_ok s"
  shows "unat (word_of_int (pit_count s) :: u64) = nat (pit_count s)"
    "unat (word_of_int ((pit_count s + 1) div 2) :: u64) = (nat (pit_count s) + 1) div 2"
    "1 \<le> nat (pit_count s)" "nat (pit_count s) \<le> 65536"
proof -
  have c: "1 \<le> pit_count s" "pit_count s \<le> 65536" using assms by (simp_all add: count_ok_def)
  show "1 \<le> nat (pit_count s)" "nat (pit_count s) \<le> 65536" using c by simp_all
  show "unat (word_of_int (pit_count s) :: u64) = nat (pit_count s)"
    using c by (simp add: unsigned_of_int take_bit_int_eq_self)
  have "0 \<le> (pit_count s + 1) div 2" "(pit_count s + 1) div 2 < 2 ^ 64" using c by simp_all
  then have "unat (word_of_int ((pit_count s + 1) div 2) :: u64) = nat ((pit_count s + 1) div 2)"
    by (simp add: unsigned_of_int take_bit_int_eq_self)
  also have "\<dots> = (nat (pit_count s) + 1) div 2" using c by (simp add: nat_div_distrib nat_add_distrib)
  finally show "unat (word_of_int ((pit_count s + 1) div 2) :: u64) = (nat (pit_count s) + 1) div 2" .
qed

lemma unat_pit_ticks: "unat (pit_ticks s now) = ticks_of (unat (now - count_load_time s))"
proof -
  let ?e = "unat (now - count_load_time s)"
  have "?e < 2 ^ 64" using unsigned_less [of "now - count_load_time s", where ?'a = nat] by simp
  then have "?e * 1193182 div 1000000000 < 2 ^ 64" by (subst div_less_iff_less_mult) simp_all
  then show ?thesis
    by (simp add: pit_ticks_def muldiv64_nat get_ticks_per_sec_def PIT_FREQ_def ticks_of_def)
qed

lemma out_nat:
  assumes "count_ok s"
  shows "pit_get_out s now = out_at (pit_mode s) (nat (pit_count s)) (ticks_of (unat (now - count_load_time s)))"
  using count_word [OF assms]
  by (simp add: pit_get_out_def out_at_def Let_def word_less_nat_alt word_le_nat_alt unat_mod unat_pit_ticks
      word_unat_eq_iff)

lemma next_tick_nat:
  assumes "count_ok s" and "unat d + 70000 < 2 ^ 64"
  shows "map_option unat (pit_next_tick s d) = next_at (pit_mode s) (nat (pit_count s)) (unat d)"
proof -
  let ?c = "word_of_int (pit_count s) :: u64" and ?p = "word_of_int ((pit_count s + 1) div 2) :: u64"
  note c = count_word [OF assms(1)]
  let ?n = "nat (pit_count s)"
  have le: "unat d div ?n * ?n \<le> unat d" by simp
  have base: "unat ((d div ?c) * ?c) = unat d div ?n * ?n"
    using le assms(2) by (simp add: unat_word_ariths(2) unat_div c(1) del: div_times_less_eq_dividend)
  have diff: "unat (d - (d div ?c) * ?c) = unat d - unat d div ?n * ?n"
    using le by (subst unat_sub) (simp_all add: word_le_nat_alt base)
  have add: "unat ((d div ?c) * ?c + w) = unat d div ?n * ?n + unat w" if "unat w \<le> 65537" for w
  proof -
    have "unat d div ?n * ?n + unat w < 2 ^ 64" using le assms(2) that by linarith
    then show ?thesis by (simp add: unat_word_ariths(1) base)
  qed
  have p: "(?n + 1) div 2 \<le> 65537" using c(4) by simp
  have one: "unat (?c + 1) = ?n + 1" using c by (simp add: unat_word_ariths(1))
  have add1: "unat ((d div ?c) * ?c + ?c + 1) = unat d div ?n * ?n + ?n + 1"
    using add [of "?c + 1"] one c(4) by (simp add: add.assoc)
  have z: "(d - (d div ?c) * ?c = 0) = (unat d = unat d div ?n * ?n)"
  proof -
    have "unat d - unat d div ?n * ?n = 0 \<longleftrightarrow> unat d = unat d div ?n * ?n" using le by linarith
    then show ?thesis by (simp only: word_unat_eq_iff diff unat_0)
  qed
  have z0: "(d \<noteq> 0) = (unat d \<noteq> 0)" by (simp add: word_unat_eq_iff)
  show ?thesis
    using add [of ?c] add [of ?p] add1 one c p le
    by (simp only: pit_next_tick_def next_at_def Let_def z z0 if_distrib [of "map_option unat"] option.map
        word_less_nat_alt diff word_unat_eq_iff) (auto simp del: div_times_less_eq_dividend)
qed

text \<open>The clock and the tick of the next transition.\<close>

definition elapsed :: "PITChannelState \<Rightarrow> u64 \<Rightarrow> nat" where
  "elapsed s now = unat (now - count_load_time s)"

abbreviation chan_next :: "PITChannelState \<Rightarrow> nat \<Rightarrow> nat option" where
  "chan_next s d \<equiv> next_at (pit_mode s) (nat (pit_count s)) d"

abbreviation chan_out :: "PITChannelState \<Rightarrow> nat \<Rightarrow> bool" where
  "chan_out s d \<equiv> out_at (pit_mode s) (nat (pit_count s)) d"

lemma elapsed_nat: "count_load_time s \<le> now \<Longrightarrow> elapsed s now = unat now - unat (count_load_time s)"
  by (simp add: elapsed_def unat_sub)

lemma ticks_of_le: "ticks_of e \<le> e"
  unfolding ticks_of_def by (rule order_trans [of _ "e * 1000000000 div 1000000000"]) (intro div_le_mono, simp_all)

lemma time_of_bound:
  assumes "x \<le> ticks_of e + 65537"
  shows "time_of x \<le> e + 55000000"
proof -
  have "ticks_of e * 1000000000 \<le> e * 1193182" unfolding ticks_of_def by simp
  then have "x * 1000000000 < (e + 55000000 + 1) * 1193182" using assms by simp
  then have "time_of x < e + 55000000 + 1" unfolding time_of_def by (subst div_less_iff_less_mult) simp_all
  then show ?thesis by simp
qed

lemma next_time_nat:
  assumes "count_ok s" and "count_load_time s \<le> now" and "unat now < 2 ^ 63"
  shows "(case chan_next s (ticks_of (elapsed s now)) of
      None \<Rightarrow> pit_get_next_transition_time s now = - 1
    | Some x \<Rightarrow> x \<le> ticks_of (elapsed s now) + 65537 \<longrightarrow>
        unat (pit_get_next_transition_time s now) =
          (if unat (count_load_time s) + time_of x \<le> unat now then unat now + 1 else unat (count_load_time s) + time_of x))"
proof -
  let ?d = "pit_ticks s now"
  have d: "unat ?d = ticks_of (elapsed s now)" by (simp add: unat_pit_ticks elapsed_def)
  have e: "elapsed s now \<le> unat now" using elapsed_nat [OF assms(2)] by simp
  then have dl: "unat ?d + 70000 < 2 ^ 64" using ticks_of_le [of "elapsed s now"] assms(3) d by simp
  note nx = next_tick_nat [OF assms(1) dl, unfolded d]
  show ?thesis
  proof (cases "pit_next_tick s ?d")
    case None
    then show ?thesis using nx by (auto simp: pit_get_next_transition_time_def)
  next
    case (Some t)
    then have x: "chan_next s (ticks_of (elapsed s now)) = Some (unat t)" using nx by auto
    show ?thesis
    proof (simp only: x option.case, rule impI)
      assume le: "unat t \<le> ticks_of (elapsed s now) + 65537"
      have tm: "time_of (unat t) \<le> elapsed s now + 55000000" by (rule time_of_bound [OF le])
      have ld: "unat (count_load_time s) \<le> unat now" using assms(2) by (simp add: word_le_nat_alt)
      have "unat (muldiv64 t get_ticks_per_sec PIT_FREQ) = time_of (unat t) mod 2 ^ 64"
        by (simp add: muldiv64_nat get_ticks_per_sec_def PIT_FREQ_def time_of_def)
      also have "\<dots> = time_of (unat t)" using tm e assms(3) by simp
      finally have m: "unat (muldiv64 t get_ticks_per_sec PIT_FREQ) = time_of (unat t)" .
      have sum: "unat (count_load_time s) + time_of (unat t) < 2 ^ 64"
        using tm assms(3) ld elapsed_nat [OF assms(2)] by simp
      then have n: "unat (count_load_time s + muldiv64 t get_ticks_per_sec PIT_FREQ) = unat (count_load_time s) + time_of (unat t)"
        by (simp add: unat_word_ariths(1) m)
      have one: "unat (now + 1) = unat now + 1" using assms(3) by (simp add: unat_word_ariths(1))
      show "unat (pit_get_next_transition_time s now) =
          (if unat (count_load_time s) + time_of (unat t) \<le> unat now then unat now + 1
           else unat (count_load_time s) + time_of (unat t))"
        by (simp add: pit_get_next_transition_time_def Some Let_def word_le_nat_alt n one)
    qed
  qed
qed

lemma chan_step:
  assumes ok: "count_ok s" "pit_mode s \<noteq> 2" "pit_mode s = 3 \<longrightarrow> 2 \<le> pit_count s"
    and nx: "chan_next s (ticks_of (elapsed s now)) = Some x"
  shows "ticks_of (elapsed s now) < x \<and> x \<le> ticks_of (elapsed s now) + 65537 \<and> elapsed s now \<le> time_of x \<and>
    chan_out s x \<noteq> pit_get_out s now \<and>
    (\<forall>y. ticks_of (elapsed s now) \<le> y \<and> y < x \<longrightarrow> chan_out s y = pit_get_out s now \<and> chan_next s y = Some x)"
proof -
  have "pit_mode s = 3 \<longrightarrow> 2 \<le> nat (pit_count s)" using nat_mono [of 2 "pit_count s"] ok(3) by simp
  note c = next_at_change [OF nx ok(2) this]
  moreover have "x \<le> ticks_of (elapsed s now) + 65537" using c count_word(4) [OF ok(1)] by simp
  moreover have "elapsed s now \<le> time_of x" using c ticks_after [of x "elapsed s now"] by (meson not_le)
  moreover have "pit_get_out s now = chan_out s (ticks_of (elapsed s now))"
    by (simp add: out_nat [OF ok(1)] elapsed_def)
  ultimately show ?thesis by metis
qed

section \<open>The state and its invariant\<close>

definition chan_wf :: "PITChannelState \<Rightarrow> bool" where
  "chan_wf s \<longleftrightarrow> count_ok s \<and> pit_mode s \<le> 7 \<and> rw_mode s \<le> 3 \<and> count_latched s \<le> 3 \<and> status_latched s \<le> 1
     \<and> read_state s \<le> 4 \<and> write_state s \<le> 4 \<and> bcd s \<le> 1 \<and> gate s \<le> 1"

definition pit_wf :: "PITCommonState \<Rightarrow> bool" where
  "pit_wf p \<longleftrightarrow> length p = 3 \<and> (\<forall>s\<in>set p. chan_wf s)"

datatype pit_op =
    Pit_write u32 u32 | Pit_read u32 | Pit_fire | Pit_gate nat u8 | Pit_irq_control bool | Pit_reset

text \<open>Ports take bytes, the fourth port is not readable, and a gate is 0 or 1.\<close>

fun pit_op_ok :: "pit_op \<Rightarrow> bool" where
  "pit_op_ok (Pit_write addr val) = (val < 256)"
| "pit_op_ok (Pit_read addr) = (addr AND 3 \<noteq> 3)"
| "pit_op_ok Pit_fire = True"
| "pit_op_ok (Pit_gate i val) = (i < 3 \<and> val \<le> 1)"
| "pit_op_ok (Pit_irq_control b) = True"
| "pit_op_ok Pit_reset = True"

fun pit_apply :: "u64 \<Rightarrow> pit_op \<Rightarrow> PITCommonState \<Rightarrow> PITCommonState option" where
  "pit_apply now (Pit_write addr val) p = pit_ioport_write now addr val p"
| "pit_apply now (Pit_read addr) p = map_option snd (pit_ioport_read now addr p)"
| "pit_apply now Pit_fire p = on_channel 0 pit_irq_timer p"
| "pit_apply now (Pit_gate i val) p = on_channel i (pit_set_channel_gate now val) p"
| "pit_apply now (Pit_irq_control b) p = pit_irq_control now b p"
| "pit_apply now Pit_reset p = pit_reset now p"

lemma timer_update_fields [simp]:
  "pit_count (pit_irq_timer_update t s) = pit_count s" "pit_mode (pit_irq_timer_update t s) = pit_mode s"
  "rw_mode (pit_irq_timer_update t s) = rw_mode s" "count_latched (pit_irq_timer_update t s) = count_latched s"
  "status_latched (pit_irq_timer_update t s) = status_latched s" "read_state (pit_irq_timer_update t s) = read_state s"
  "write_state (pit_irq_timer_update t s) = write_state s" "bcd (pit_irq_timer_update t s) = bcd s"
  "gate (pit_irq_timer_update t s) = gate s"
  by (simp_all add: pit_irq_timer_update_def Let_def)

lemma timer_update_wf [simp]: "chan_wf (pit_irq_timer_update t s) = chan_wf s"
  by (simp add: chan_wf_def count_ok_def)

lemma load_count_wf:
  "chan_wf s \<Longrightarrow> 0 \<le> v \<Longrightarrow> v < 65536 \<Longrightarrow> chan_wf (pit_load_count now v s)"
  by (simp add: pit_load_count_def chan_wf_def count_ok_def)

lemma on_channel_wf:
  assumes "pit_wf p" and "i < 3" and "\<And>s. chan_wf s \<Longrightarrow> chan_wf (f s)"
  shows "\<exists>q. on_channel i f p = Some q \<and> pit_wf q"
  using assms by (auto simp: on_channel_def pit_wf_def dest!: set_mp [OF set_update_subset_insert])

lemma sint_16:
  assumes "w < 65536"
  shows "0 \<le> sint (w :: u32) \<and> sint w < 65536"
proof -
  have "uint w < 65536" using assms by (simp add: word_less_def)
  moreover have "- (2 ^ 31) \<le> uint w" by (rule order_trans [of _ 0]) simp_all
  ultimately have "sint w = uint w" by (simp add: sint_uint signed_take_bit_int_eq_self)
  then show ?thesis using \<open>uint w < 65536\<close> by simp
qed

lemma take_bit_16: "(w :: u32) < 65536 \<longleftrightarrow> take_bit 16 w = w"
  by (simp add: word_less_nat_alt word_unat_eq_iff unsigned_take_bit_eq take_bit_nat_eq_self_iff)

lemma byte_shift: "(val :: u32) < 256 \<Longrightarrow> push_bit 8 val < 65536 \<and> val < 65536"
  by (simp add: push_bit_eq_mult word_less_nat_alt unat_word_ariths(2))

lemma byte_pair:
  assumes "(val :: u32) < 256"
  shows "ucast (w :: u8) OR push_bit 8 val < 65536"
proof -
  have "take_bit 16 (push_bit 8 val) = push_bit 8 val" using byte_shift [OF assms] take_bit_16 by blast
  moreover have "take_bit 16 (ucast w :: u32) = ucast w"
    by (simp add: bit_eq_iff bit_simps) (auto dest: bit_imp_le_length)
  ultimately show ?thesis by (simp add: take_bit_16 take_bit_or)
qed

lemma count_write_wf:
  assumes "chan_wf s" and "val < 256"
  shows "chan_wf (count_write now val s)"
proof -
  have ws: "chan_wf (q\<lparr>write_state := v\<rparr>)" if "chan_wf q" "v \<le> 4" for q v
    using that by (simp add: chan_wf_def count_ok_def)
  have "chan_wf (s\<lparr>write_latch := x, write_state := RW_STATE_WORD1\<rparr>)" for x
    using assms(1) by (simp add: chan_wf_def count_ok_def RW_STATE_WORD1_def)
  moreover have "chan_wf (pit_load_count now (sint (ucast (write_latch s) OR push_bit 8 val)) s)"
    "chan_wf (pit_load_count now (sint (push_bit 8 val)) s)" "chan_wf (pit_load_count now (sint val) s)"
    using sint_16 byte_shift [OF assms(2)] byte_pair [OF assms(2)] by (simp_all add: load_count_wf [OF assms(1)])
  ultimately show ?thesis
    by (simp add: count_write_def ws RW_STATE_WORD0_def)
qed

lemma latch_wf: "chan_wf s \<Longrightarrow> chan_wf (pit_latch_count now s)"
  by (simp add: pit_latch_count_def chan_wf_def count_ok_def)

lemma read_back_wf: "chan_wf s \<Longrightarrow> chan_wf (read_back now val i s)"
  using latch_wf [of s now] by (auto simp: read_back_def Let_def chan_wf_def count_ok_def)

lemma control_word_wf:
  assumes "chan_wf s"
  shows "chan_wf (control_word now val s)"
proof -
  have a: "ucast (w AND 3) \<le> (3 :: u8)" "ucast (w AND 7) \<le> (7 :: u8)" "ucast (w AND 1) \<le> (1 :: u8)" for w :: u32
  proof -
    have m: "w AND 3 = take_bit 2 w" "w AND 7 = take_bit 3 w" "w AND 1 = take_bit 1 w"
      using take_bit_eq_mask [of _ w] by (simp_all add: mask_eq_exp_minus_1)
    have b: "unat (take_bit n w) < 2 ^ n" for n by (simp add: unsigned_take_bit_eq)
    have "unat (take_bit 2 w) < 4" "unat (take_bit 3 w) < 8" "unat (take_bit 1 w) < 2"
      using b [of 2] b [of 3] b [of 1] by (simp_all del: take_bit_Suc_0)
    then show "ucast (w AND 3) \<le> (3 :: u8)" "ucast (w AND 7) \<le> (7 :: u8)" "ucast (w AND 1) \<le> (1 :: u8)"
      unfolding m word_le_nat_alt unsigned_ucast_eq by (simp_all add: take_bit_nat_eq_self)
  qed
  have "ucast (w AND 3) \<le> (4 :: u8)" for w :: u32 using order_trans [OF a(1)] by simp
  with a show ?thesis
    using assms latch_wf [of s now] by (auto simp: control_word_def Let_def chan_wf_def count_ok_def)
qed

lemma channel_read_wf: "chan_wf s \<Longrightarrow> chan_wf (snd (channel_read now s))"
  by (auto simp: channel_read_def Let_def chan_wf_def count_ok_def RW_STATE_LSB_def RW_STATE_MSB_def RW_STATE_WORD0_def
      RW_STATE_WORD1_def)

lemma reset_channel_wf:
  "chan_wf s \<Longrightarrow> chan_wf (reset_channel now i s)"
  by (auto simp: reset_channel_def Let_def chan_wf_def count_ok_def)

lemma wf_three:
  assumes "pit_wf p" and "\<And>i s. chan_wf s \<Longrightarrow> chan_wf (f i s)"
  shows "\<exists>q. (do { p0 \<leftarrow> on_channel 0 (f (0 :: nat)) p; p1 \<leftarrow> on_channel 1 (f 1) p0; on_channel 2 (f 2) p1 }) = Some q \<and> pit_wf q"
proof -
  obtain p0 where p0: "on_channel 0 (f 0) p = Some p0" "pit_wf p0"
    using on_channel_wf [OF assms(1), of 0 "f 0"] assms(2) by auto
  obtain p1 where p1: "on_channel 1 (f 1) p0 = Some p1" "pit_wf p1"
    using on_channel_wf [OF p0(2), of 1 "f 1"] assms(2) by auto
  obtain p2 where "on_channel 2 (f 2) p1 = Some p2" "pit_wf p2"
    using on_channel_wf [OF p1(2), of 2 "f 2"] assms(2) by auto
  then show ?thesis using p0(1) p1(1) by simp
qed

lemma small_port:
  assumes "addr AND 3 \<noteq> (3 :: u32)"
  shows "unat (addr AND 3) < 3"
proof -
  have "addr AND 3 = take_bit 2 addr" using take_bit_eq_mask [of 2 addr] by (simp add: mask_eq_exp_minus_1)
  moreover have "unat (take_bit 2 addr) < 2 ^ 2" by (simp only: unsigned_take_bit_eq take_bit_nat_less_exp)
  ultimately have "unat (addr AND 3) < 4" by simp
  moreover have "unat (addr AND 3) \<noteq> 3" using assms by (simp add: word_unat_eq_iff)
  ultimately show ?thesis by simp
qed

lemma pit_apply_wf:
  assumes "pit_wf p" and "pit_op_ok op"
  shows "\<exists>q. pit_apply now op p = Some q \<and> pit_wf q"
proof (cases op)
  case (Pit_write addr val)
  then have v: "val < 256" using assms(2) by simp
  have three: "\<exists>q. (do { p0 \<leftarrow> on_channel 0 (f 0) p; p1 \<leftarrow> on_channel 1 (f 1) p0; on_channel 2 (f 2) p1 }) = Some q \<and> pit_wf q"
    if "\<And>i s. chan_wf s \<Longrightarrow> chan_wf (f i s)" for f :: "nat \<Rightarrow> PITChannelState \<Rightarrow> PITChannelState"
    by (rule wf_three [OF assms(1) that])
  have "unat (drop_bit 6 val) < 4"
    using v by (simp add: unat_drop_bit_eq drop_bit_eq_div word_less_nat_alt unat_div less_mult_imp_div_less)
  then have ch: "unat (drop_bit 6 val) \<noteq> 3 \<Longrightarrow> unat (drop_bit 6 val) < 3" by simp
  have ad: "unat (addr AND 3) < 3" if "addr AND 3 \<noteq> 3" by (rule small_port [OF that])
  show ?thesis
    using three [of "read_back now val"] read_back_wf on_channel_wf [OF assms(1) ch, of "control_word now val"]
      control_word_wf on_channel_wf [OF assms(1) ad, of "count_write now val"] count_write_wf [OF _ v]
    unfolding Pit_write pit_apply.simps pit_ioport_write_def Let_def by (simp split: if_split)
next
  case (Pit_read addr)
  then have "unat (addr AND 3) < 3" using assms(2) small_port by simp
  then show ?thesis
    using assms(1) channel_read_wf [of "p ! unat (addr AND 3)" now] Pit_read
    by (auto simp: pit_ioport_read_def Let_def pit_wf_def split_beta dest!: set_mp [OF set_update_subset_insert])
next
  case Pit_fire
  then show ?thesis using on_channel_wf [OF assms(1), of 0 pit_irq_timer] by (simp add: pit_irq_timer_def)
next
  case (Pit_gate i val)
  have "chan_wf (pit_set_channel_gate now val s)" if "chan_wf s" for s
    using that assms(2) Pit_gate
    by (auto simp: pit_set_channel_gate_def restart_counting_def Let_def chan_wf_def count_ok_def)
  then show ?thesis using on_channel_wf [OF assms(1), of i] assms(2) Pit_gate by simp
next
  case (Pit_irq_control b)
  have "chan_wf (s\<lparr>irq_disabled := x, irq_timer := y\<rparr>) = chan_wf s" "chan_wf (s\<lparr>irq_disabled := x\<rparr>) = chan_wf s" for s x y
    by (simp_all add: chan_wf_def count_ok_def)
  then show ?thesis
    using on_channel_wf [OF assms(1), of 0] Pit_irq_control by (simp add: pit_irq_control_def)
next
  case Pit_reset
  obtain q where q: "pit_reset_common now p = Some q" "pit_wf q"
    using wf_three [OF assms(1), of "reset_channel now"] reset_channel_wf unfolding pit_reset_common_def by blast
  have "chan_wf (s\<lparr>irq_timer := y\<rparr>) = chan_wf s" for s y by (simp add: chan_wf_def count_ok_def)
  then show ?thesis
    using on_channel_wf [OF q(2), of 0] Pit_reset q(1) by (simp add: pit_reset_def)
qed

lemma on_channel_3:
  "on_channel 0 f [a, b, c] = Some [f a, b, c]" "on_channel (Suc 0) f [a, b, c] = Some [a, f b, c]"
  "on_channel 2 f [a, b, c] = Some [a, b, f c]"
  by (simp_all add: on_channel_def numeral_2_eq_2)

lemma pit_init_wf: "\<exists>p. pit_reset now pit_initfn = Some p \<and> pit_wf p"
  by (simp add: pit_reset_def pit_reset_common_def pit_initfn_def on_channel_3 pit_wf_def reset_channel_def
      pit_zero_channel_def Let_def chan_wf_def count_ok_def)

section \<open>Properties\<close>

text \<open>C6: [pit_transition] In every mode but 2, the time computed for the next transition is the right one: until
  then the output does not change, and the interrupt timer sees the new output when it fires then or, the
  clock having been rounded down, when it fires again one nanosecond later; if no time is given, the output
  stays as it is.\<close>

theorem pit_transition:
  assumes ok: "count_ok s" "pit_mode s \<noteq> 2" "pit_mode s = 3 \<longrightarrow> 2 \<le> pit_count s"
    and now: "count_load_time s \<le> now" "unat now < 2 ^ 62"
  shows "(pit_get_next_transition_time s now = - 1 \<longrightarrow> (\<forall>u \<ge> now. pit_get_out s u = pit_get_out s now)) \<and>
    (pit_get_next_transition_time s now \<noteq> - 1 \<longrightarrow> now < pit_get_next_transition_time s now \<and>
      (\<forall>u. now \<le> u \<and> u < pit_get_next_transition_time s now \<longrightarrow> pit_get_out s u = pit_get_out s now) \<and>
      (pit_get_out s (pit_get_next_transition_time s now) \<noteq> pit_get_out s now \<or>
       pit_get_next_transition_time s (pit_get_next_transition_time s now) = pit_get_next_transition_time s now + 1 \<and>
       pit_get_out s (pit_get_next_transition_time s now + 1) \<noteq> pit_get_out s now))"
proof -
  let ?t = "pit_get_next_transition_time s now"
  let ?L = "unat (count_load_time s)" and ?e = "elapsed s now"
  have n63: "unat now < 2 ^ 63" using now(2) by simp
  have L: "?L \<le> unat now" "?e = unat now - ?L" using now(1) elapsed_nat [OF now(1)] by (simp_all add: word_le_nat_alt)
  have out: "pit_get_out s u = chan_out s (ticks_of (elapsed s u))" for u
    by (simp add: out_nat [OF ok(1)] elapsed_def)
  have el: "elapsed s u = unat u - ?L" if "now \<le> u" for u
    using elapsed_nat [of s u] order_trans [OF now(1) that] by simp
  have mono: "ticks_of ?e \<le> ticks_of (elapsed s u)" if "now \<le> u" for u
    using el [OF that] L that by (intro ticks_of_mono) (simp add: word_le_nat_alt diff_le_mono)
  show ?thesis
  proof (cases "chan_next s (ticks_of ?e)")
    case None
    then have "?t = - 1" using next_time_nat [OF ok(1) now(1) n63] by simp
    moreover have "pit_get_out s u = pit_get_out s now" if "now \<le> u" for u
      using next_at_none [OF None mono [OF that]] by (simp add: out)
    ultimately show ?thesis by blast
  next
    case (Some x)
    note c = chan_step [OF ok Some]
    have t: "unat ?t = (if ?L + time_of x \<le> unat now then unat now + 1 else ?L + time_of x)"
      using next_time_nat [OF ok(1) now(1) n63] Some c by simp
    have tb: "time_of x \<le> ?e + 55000000" using c by (intro time_of_bound) simp
    have t62: "unat ?t < 2 ^ 63" using t tb now(2) L by (simp split: if_splits)
    have now_t: "now < ?t" using t by (simp add: word_less_nat_alt split: if_splits)
    have ne: "?t \<noteq> - 1"
    proof
      assume "?t = - 1"
      then have "unat ?t = 2 ^ 64 - 1" by (simp add: unsigned_minus_1_eq_mask mask_eq_exp_minus_1)
      then show False using t62 by simp
    qed
    have t1: "unat (?t + 1) = unat ?t + 1" using t62 by (simp add: unat_word_ariths(1))
    have same: "pit_get_out s u = pit_get_out s now" if "now \<le> u" "ticks_of (elapsed s u) < x" for u
      using c mono [OF that(1)] that(2) out [of u] by simp
    show ?thesis
    proof (cases "?L + time_of x \<le> unat now")
      case True
      then have e: "?e = time_of x" "unat ?t = unat now + 1" using c t L by auto
      have "ticks_of (elapsed s ?t) = x"
        using el [of ?t] now_t e L ticks_at [of x] by (simp add: Suc_diff_le)
      then have "pit_get_out s ?t \<noteq> pit_get_out s now" using c out [of ?t] by simp
      moreover have "u = now" if "now \<le> u" "u < ?t" for u
        using that e(2) by (simp add: word_le_nat_alt word_less_nat_alt word_unat_eq_iff)
      ultimately show ?thesis using ne now_t by blast
    next
      case False
      then have ut: "unat ?t = ?L + time_of x" using t by simp
      have et: "elapsed s ?t = time_of x" using el [of ?t] now_t ut by simp
      have "elapsed s u < time_of x" if "now \<le> u" "u < ?t" for u
        using el [OF that(1)] that ut L by (simp add: word_less_nat_alt word_le_nat_alt)
      then have until: "\<forall>u. now \<le> u \<and> u < ?t \<longrightarrow> pit_get_out s u = pit_get_out s now"
        using same ticks_before by blast
      have "ticks_of (elapsed s ?t) = x \<or> ticks_of (elapsed s ?t) = x - 1"
        using ticks_at [of x] et by auto
      then show ?thesis
      proof
        assume "ticks_of (elapsed s ?t) = x"
        then have "pit_get_out s ?t \<noteq> pit_get_out s now" using c out [of ?t] by simp
        then show ?thesis using ne now_t until by blast
      next
        assume d: "ticks_of (elapsed s ?t) = x - 1"
        have "ticks_of ?e < x" using c by blast
        then have "ticks_of ?e \<le> x - 1" "x - 1 < x" by linarith+
        then have nx: "chan_next s (ticks_of (elapsed s ?t)) = Some x" using c d by simp
        have le: "count_load_time s \<le> ?t" using now(1) now_t by simp
        have "unat (pit_get_next_transition_time s ?t) = unat ?t + 1"
          using next_time_nat [OF ok(1) le t62] nx d ut by simp
        then have "pit_get_next_transition_time s ?t = ?t + 1" using t1 by (simp add: word_unat_eq_iff)
        moreover have "elapsed s (?t + 1) = time_of x + 1"
          using el [of "?t + 1"] now_t t1 ut by (simp add: word_le_nat_alt word_less_nat_alt)
        then have "pit_get_out s (?t + 1) \<noteq> pit_get_out s now"
          using c out [of "?t + 1"] ticks_at [of x] by simp
        ultimately show ?thesis using ne now_t until by blast
      qed
    qed
  qed
qed

theorem pit_transition_witness:
  "pit_get_next_transition_time (pit_zero_channel\<lparr>pit_mode := 3, pit_count := 0x10000\<rparr>) 0 = 27462700 \<and>
   pit_get_out (pit_zero_channel\<lparr>pit_mode := 3, pit_count := 0x10000\<rparr>) 1000
     = pit_get_out (pit_zero_channel\<lparr>pit_mode := 3, pit_count := 0x10000\<rparr>) 0"
proof -
  let ?s = "pit_zero_channel\<lparr>pit_mode := 3, pit_count := 0x10000\<rparr>"
  have n: "pit_get_next_transition_time ?s 0 = 27462700"
    by code_simp
  have ok: "count_ok ?s" "pit_mode ?s \<noteq> 2" "pit_mode ?s = 3 \<longrightarrow> 2 \<le> pit_count ?s" "count_load_time ?s \<le> 0"
    "unat (0 :: u64) < 2 ^ 62"
    by (simp_all add: count_ok_def pit_zero_channel_def)
  have "pit_get_next_transition_time ?s 0 \<noteq> - 1" unfolding n by simp
  then have "\<forall>u. 0 \<le> u \<and> u < pit_get_next_transition_time ?s 0 \<longrightarrow> pit_get_out ?s u = pit_get_out ?s 0"
    using pit_transition [OF ok] by blast
  then have "(0 :: u64) \<le> 1000 \<and> (1000 :: u64) < 27462700 \<longrightarrow> pit_get_out ?s 1000 = pit_get_out ?s 0"
    unfolding n by blast
  moreover have "(0 :: u64) \<le> 1000 \<and> (1000 :: u64) < 27462700" by simp
  ultimately show ?thesis using n by blast
qed

text \<open>[pit_lost_tick] In mode 2 the output is high for one tick, and the time computed is one tick past it: the
  timer sees the pulse only because the clock value is rounded down. Where the rounding is exact, here
  the tenth period of a count of 59659, the pulse comes and goes between two firings and the interrupt
  line stays low.\<close>

theorem pit_lost_tick:
  "\<exists>s now u. count_ok s \<and> pit_mode s = 2 \<and> irq_timer s \<noteq> None \<and> \<not> irq_disabled s \<and>
     now < u \<and> u < pit_get_next_transition_time s now \<and> pit_get_out s u \<and>
     \<not> irq (pit_irq_timer_update now s) \<and> \<not> irq (pit_irq_timer (pit_irq_timer_update now s))"
proof -
  let ?s = "pit_zero_channel\<lparr>pit_mode := 2, pit_count := 59659, irq_timer := Some None\<rparr>"
  have "count_ok ?s \<and> pit_mode ?s = 2 \<and> irq_timer ?s \<noteq> None \<and> \<not> irq_disabled ?s"
    by (simp add: count_ok_def pit_zero_channel_def)
  moreover have "(499998325 :: u64) < 499999163" by simp
  moreover have n: "pit_get_next_transition_time ?s 499998325 = 500000000" by code_simp
  moreover have "(499999163 :: u64) < 500000000" by simp
  moreover have "pit_get_out ?s 499999163" by code_simp
  moreover have "\<not> irq (pit_irq_timer_update 499998325 ?s)" by code_simp
  moreover have "\<not> irq (pit_irq_timer (pit_irq_timer_update 499998325 ?s))" by code_simp
  ultimately show ?thesis by metis
qed

text \<open>C34: [pit_state_typed] The device after its reset is well formed, and every operation it can be given is
  carried out and keeps it so: the counts stay from 1 to 65536, so that no division is by zero, and the
  mode, access and latch states stay within their ranges.\<close>

theorem pit_state_typed:
  "(\<exists>p. pit_reset now pit_initfn = Some p \<and> pit_wf p) \<and>
   (pit_wf p \<and> pit_op_ok op \<longrightarrow> (\<exists>q. pit_apply now op p = Some q \<and> pit_wf q))"
  using pit_init_wf pit_apply_wf by blast

theorem pit_state_typed_witness:
  "\<exists>p q. pit_reset 5 pit_initfn = Some p \<and> pit_apply 7 (Pit_write 3 0x34) p = Some q \<and> pit_wf q"
proof -
  obtain p where p: "pit_reset 5 pit_initfn = Some p" "pit_wf p"
    using pit_state_typed [of 5 "[]" Pit_fire] by blast
  then show ?thesis using pit_state_typed [of 7 p "Pit_write 3 0x34"] by auto
qed

text \<open>[muldiv64_exact] The scaling in two halves is the integer quotient of the product, cut to 64 bits.\<close>

theorem muldiv64_exact:
  assumes "c \<noteq> 0"
  shows "muldiv64 a b c = word_of_nat (unat a * unat b div unat c)"
  using muldiv64_nat [OF assms, of a b] by (simp add: word_unat_eq_iff unsigned_of_nat take_bit_eq_mod)

theorem muldiv64_exact_witness: "muldiv64 999999999999 1193182 1000000000 = 1193181999"
  using muldiv64_exact [of 1000000000 999999999999 1193182] by simp

end
