(* ===== verification/Qdict.thy ===== *)
theory Qdict
  imports Prelude
begin

text \<open>
  The dictionaries of \<^verbatim>\<open>qdict.c\<close>: a table of 512 buckets, each a list of entries, with the hash function of the
  code. An entry is named by its key, which no other entry of the table has (\<open>qdict_ok\<close>). The lemmas are stated
  once for any dictionary that keeps the laws of the locale \<open>dictionary\<close>; the table is shown to be one.
\<close>

section \<open>The table\<close>

abbreviation (input) QDICT_BUCKET_MAX :: nat where
  "QDICT_BUCKET_MAX \<equiv> 512"

datatype 'v QDict = QDict (qd_size: nat) (qd_table: "(string \<times> 'v) list list")

definition qdict_new :: "'v QDict" where
  "qdict_new = QDict 0 (replicate QDICT_BUCKET_MAX [])"

definition tdb_hash :: "string \<Rightarrow> u32" where
  "tdb_hash name =
     (let value = foldl (\<lambda>value (i, c). value + push_bit (i * 5 mod 24) (of_char c))
                    (0x238F13AF * of_nat (length name)) (enumerate 0 name)
      in 1103515243 * value + 12345)"

definition qdict_bucket :: "string \<Rightarrow> nat" where
  "qdict_bucket key = unat (tdb_hash key) mod QDICT_BUCKET_MAX"

definition qdict_find :: "'v QDict \<Rightarrow> string \<Rightarrow> nat \<Rightarrow> (string \<times> 'v) option" where
  "qdict_find d key b = find (\<lambda>e. fst e = key) (qd_table d ! b)"

definition qdict_put :: "string \<Rightarrow> 'v \<Rightarrow> 'v QDict \<Rightarrow> 'v QDict" where
  "qdict_put key value d =
     (let b = qdict_bucket key; es = qd_table d ! b in
      case qdict_find d key b of
        Some e \<Rightarrow> QDict (qd_size d) ((qd_table d)[b := map (\<lambda>e. if fst e = key then (key, value) else e) es])
      | None \<Rightarrow> QDict (qd_size d + 1) ((qd_table d)[b := (key, value) # es]))"

definition qdict_get :: "'v QDict \<Rightarrow> string \<Rightarrow> 'v option" where
  "qdict_get d key = map_option snd (qdict_find d key (qdict_bucket key))"

definition qdict_haskey :: "'v QDict \<Rightarrow> string \<Rightarrow> bool" where
  "qdict_haskey d key = (qdict_find d key (qdict_bucket key) \<noteq> None)"

definition qdict_size :: "'v QDict \<Rightarrow> nat" where
  "qdict_size d = qd_size d"

definition qdict_del :: "string \<Rightarrow> 'v QDict \<Rightarrow> 'v QDict" where
  "qdict_del key d =
     (let b = qdict_bucket key in
      case qdict_find d key b of
        Some e \<Rightarrow> QDict (qd_size d - 1) ((qd_table d)[b := filter (\<lambda>e. fst e \<noteq> key) (qd_table d ! b)])
      | None \<Rightarrow> d)"

text \<open>The entries in the order \<open>qdict_iter\<close> visits them.\<close>

definition qdict_entries :: "'v QDict \<Rightarrow> (string \<times> 'v) list" where
  "qdict_entries d = concat (qd_table d)"

text \<open>Stepping through the entries; the cursor is the entry.\<close>

definition qdict_next_entry :: "'v QDict \<Rightarrow> nat \<Rightarrow> (string \<times> 'v) option" where
  "qdict_next_entry d first_bucket =
     (case find (\<lambda>es. es \<noteq> []) (drop first_bucket (qd_table d)) of None \<Rightarrow> None | Some es \<Rightarrow> Some (hd es))"

definition qdict_first :: "'v QDict \<Rightarrow> (string \<times> 'v) option" where
  "qdict_first d = qdict_next_entry d 0"

definition qdict_next :: "'v QDict \<Rightarrow> string \<times> 'v \<Rightarrow> (string \<times> 'v) option" where
  "qdict_next d entry =
     (let b = qdict_bucket (fst entry) in
      case tl (dropWhile (\<lambda>e. fst e \<noteq> fst entry) (qd_table d ! b)) of
        [] \<Rightarrow> qdict_next_entry d (b + 1)
      | e # es \<Rightarrow> Some e)"

section \<open>What a dictionary promises\<close>

locale dictionary =
  fixes ok :: "'d \<Rightarrow> bool"
    and new :: 'd
    and put :: "string \<Rightarrow> 'v \<Rightarrow> 'd \<Rightarrow> 'd"
    and del :: "string \<Rightarrow> 'd \<Rightarrow> 'd"
    and get :: "'d \<Rightarrow> string \<Rightarrow> 'v option"
    and entries :: "'d \<Rightarrow> (string \<times> 'v) list"
  assumes ok_new: "ok new"
    and get_new: "get new = Map.empty"
    and ok_put: "ok d \<Longrightarrow> ok (put k v d)"
    and get_put: "ok d \<Longrightarrow> get (put k v d) = (get d)(k \<mapsto> v)"
    and ok_del: "ok d \<Longrightarrow> ok (del k d)"
    and get_del: "ok d \<Longrightarrow> get (del k d) = (get d)(k := None)"
    and entries_get: "ok d \<Longrightarrow> map_of (entries d) = get d"
    and entries_distinct: "ok d \<Longrightarrow> distinct (map fst (entries d))"
begin

definition put_all :: "(string \<times> 'v) list \<Rightarrow> 'd \<Rightarrow> 'd" where
  "put_all es d = foldl (\<lambda>d (k, v). put k v d) d es"

lemma put_all_simps [simp]: "put_all [] d = d" "put_all ((k, v) # es) d = put_all es (put k v d)"
  by (simp_all add: put_all_def)

lemma ok_put_all: "ok d \<Longrightarrow> ok (put_all es d)"
  by (induction es arbitrary: d) (auto simp: ok_put)

lemma get_put_all: "ok d \<Longrightarrow> get (put_all es d) = get d ++ map_of (rev es)"
  by (induction es arbitrary: d) (auto simp: ok_put get_put fun_eq_iff map_add_def split: option.splits)

lemma map_of_rev:
  "distinct (map fst es) \<Longrightarrow> map_of (rev es) = map_of es"
  by (subst map_of_inject_set) (simp_all add: rev_map [symmetric])

text \<open>Entering the entries of one dictionary into a new one, in any order, gives the same dictionary.\<close>

lemma get_put_all_new:
  assumes "distinct (map fst es)"
  shows "get (put_all es new) = map_of es"
  using assms by (simp add: get_put_all ok_new get_new map_of_rev)

lemma length_entries:
  assumes "ok d"
  shows "length (entries d) = Finite_Set.card (dom (get d))"
proof -
  have "dom (get d) = fst ` set (entries d)"
    using entries_get [OF assms] by (metis dom_map_of_conv_image_fst)
  then show ?thesis
    using entries_distinct [OF assms] by (metis distinct_card length_map list.set_map)
qed

end

section \<open>The table is a dictionary\<close>

definition bucket_ok :: "nat \<Rightarrow> (string \<times> 'v) list \<Rightarrow> bool" where
  "bucket_ok b es \<longleftrightarrow> distinct (map fst es) \<and> (\<forall>e \<in> set es. qdict_bucket (fst e) = b)"

definition qdict_ok :: "'v QDict \<Rightarrow> bool" where
  "qdict_ok d \<longleftrightarrow> length (qd_table d) = QDICT_BUCKET_MAX \<and> qd_size d = length (qdict_entries d) \<and>
     (\<forall>b < QDICT_BUCKET_MAX. bucket_ok b (qd_table d ! b))"

lemma bucket_less [simp]: "qdict_bucket k < QDICT_BUCKET_MAX"
  by (simp add: qdict_bucket_def)

lemma find_map_of: "map_option snd (find (\<lambda>e. fst e = k) es) = map_of es k"
  by (induction es) auto

lemma qdict_get_map_of: "qdict_get d k = map_of (qd_table d ! qdict_bucket k) k"
  by (simp add: qdict_get_def qdict_find_def find_map_of)

lemma table_entries:
  assumes "\<forall>b < length tab. bucket_ok (n + b) (tab ! b)"
  shows "distinct (map fst (concat tab)) \<and> (\<forall>e \<in> set (concat tab). n \<le> qdict_bucket (fst e)) \<and>
    map_of (concat tab) k =
      (if n \<le> qdict_bucket k \<and> qdict_bucket k < n + length tab then map_of (tab ! (qdict_bucket k - n)) k else None)"
  using assms
proof (induction tab arbitrary: n)
  case (Cons es tab)
  have "\<forall>b < length tab. bucket_ok (Suc n + b) (tab ! b)"
    using Cons.prems [rule_format, of "Suc b" for b] by simp
  from Cons.IH [OF this] have IH: "distinct (map fst (concat tab))" "\<forall>e \<in> set (concat tab). Suc n \<le> qdict_bucket (fst e)"
    "map_of (concat tab) k = (if Suc n \<le> qdict_bucket k \<and> qdict_bucket k < Suc n + length tab
       then map_of (tab ! (qdict_bucket k - Suc n)) k else None)" by blast+
  have es: "distinct (map fst es)" "\<forall>e \<in> set es. qdict_bucket (fst e) = n"
    using Cons.prems [rule_format, of 0] by (simp_all add: bucket_ok_def)
  have at: "qdict_bucket k = n" if "map_of es k = Some v" for v
    using es(2) map_of_SomeD [OF that] by auto
  have "map_of es k = None" if "qdict_bucket k \<noteq> n" using at that by (cases "map_of es k") auto
  moreover have "map_of (concat tab) k = None" if "qdict_bucket k = n" using IH(3) that by simp
  ultimately have "map_of (concat (es # tab)) k = (if n \<le> qdict_bucket k \<and> qdict_bucket k < n + length (es # tab)
      then map_of ((es # tab) ! (qdict_bucket k - n)) k else None)"
    using IH(3) by (cases "qdict_bucket k = n") (auto simp: map_add_def nth_Cons' Suc_diff_le split: option.splits)
  moreover have "set (map fst es) \<inter> set (map fst (concat tab)) = {}"
    using IH(2) es(2) by fastforce
  then have "distinct (map fst (concat (es # tab)))" using IH(1) es(1) by (simp only: concat.simps map_append distinct_append)
  moreover have "\<forall>e \<in> set (concat (es # tab)). n \<le> qdict_bucket (fst e)" using IH(2) es(2) by fastforce
  ultimately show ?case by blast
qed auto

lemma qdict_entries_facts:
  assumes "qdict_ok d"
  shows "distinct (map fst (qdict_entries d))" "map_of (qdict_entries d) = qdict_get d"
  using assms table_entries [of "qd_table d" 0]
  by (simp_all add: qdict_ok_def qdict_entries_def qdict_get_map_of fun_eq_iff)

lemma length_concat_update:
  "b < length tab \<Longrightarrow> length (concat (tab[b := es])) + length (tab ! b) = length (concat tab) + length es"
proof (induction tab arbitrary: b)
  case (Cons x tab)
  then show ?case by (cases b) (simp_all del: length_concat)
qed simp

lemma qdict_ok_update:
  assumes "qdict_ok d" and "b < 512" and "bucket_ok b es" and "n + length (qd_table d ! b) = qd_size d + length es"
  shows "qdict_ok (QDict n ((qd_table d)[b := es]))"
proof -
  have d: "length (qd_table d) = 512" "qd_size d = length (concat (qd_table d))"
    "\<forall>b < 512. bucket_ok b (qd_table d ! b)"
    using assms(1) by (simp_all add: qdict_ok_def qdict_entries_def)
  have "length (concat ((qd_table d)[b := es])) = n"
    using length_concat_update [of b "qd_table d" es] assms(2,4) d(1,2) by simp
  moreover have "bucket_ok c ((qd_table d)[b := es] ! c)" if "c < 512" for c
    using that d(1,3) assms(2,3) by (cases "c = b") simp_all
  ultimately show ?thesis using d(1) by (simp add: qdict_ok_def qdict_entries_def del: length_concat)
qed

definition replace_entry :: "string \<Rightarrow> 'v \<Rightarrow> (string \<times> 'v) list \<Rightarrow> (string \<times> 'v) list" where
  "replace_entry k v es = map (\<lambda>e. if fst e = k then (k, v) else e) es"

lemma replace_entry_keys: "map fst (replace_entry k v es) = map fst es"
  by (induction es) (auto simp: replace_entry_def)

lemma replace_entry_at:
  "map_of (replace_entry k v es) q = (if q = k \<and> k \<in> fst ` set es then Some v else map_of es q)"
proof (induction es)
  case (Cons e es)
  have "map_of es k = None" if "k \<notin> fst ` set es" using that by (simp add: map_of_eq_None_iff)
  with Cons show ?case by (cases e) (auto simp: replace_entry_def, force)
qed (simp add: replace_entry_def)

lemma bucket_ok_keys: "map fst es = map fst fs \<Longrightarrow> bucket_ok b es = bucket_ok b fs"
  for es fs :: "(string \<times> 'v) list"
proof -
  assume k: "map fst es = map fst fs"
  have "bucket_ok b xs \<longleftrightarrow> distinct (map fst xs) \<and> set (map fst xs) \<subseteq> {q. qdict_bucket q = b}" for xs :: "(string \<times> 'v) list"
    by (auto simp: bucket_ok_def)
  then show ?thesis using k by metis
qed

lemma find_None_key: "find (\<lambda>e. fst e = k) es = None \<longleftrightarrow> k \<notin> fst ` set es"
  by (force simp: find_None_iff)

text \<open>Both operations change the bucket of the key and nothing else.\<close>

lemma qdict_put_eq:
  "qdict_put k v d =
    (let b = qdict_bucket k; es = qd_table d ! b in
     if k \<in> fst ` set es then QDict (qd_size d) ((qd_table d)[b := replace_entry k v es])
     else QDict (qd_size d + 1) ((qd_table d)[b := (k, v) # es]))"
  using find_None_key [of k "qd_table d ! qdict_bucket k"]
  by (cases "find (\<lambda>e. fst e = k) (qd_table d ! qdict_bucket k)")
    (simp_all add: qdict_put_def qdict_find_def Let_def replace_entry_def)

lemma qdict_del_eq:
  "qdict_del k d =
    (let b = qdict_bucket k; es = qd_table d ! b in
     if k \<in> fst ` set es then QDict (qd_size d - 1) ((qd_table d)[b := filter (\<lambda>e. fst e \<noteq> k) es]) else d)"
  using find_None_key [of k "qd_table d ! qdict_bucket k"]
  by (cases "find (\<lambda>e. fst e = k) (qd_table d ! qdict_bucket k)")
    (simp_all add: qdict_del_def qdict_find_def Let_def)

lemma length_filter_key:
  "distinct (map fst es) \<Longrightarrow> k \<in> fst ` set es \<Longrightarrow> Suc (length (filter (\<lambda>e. fst e \<noteq> k) es)) = length es"
proof (induction es)
  case (Cons e es)
  have "filter (\<lambda>e. fst e \<noteq> k) es = es" if "k \<notin> fst ` set es"
    using that by (force simp: filter_id_conv)
  with Cons show ?case by (cases "fst e = k") auto
qed simp

lemma qdict_ok_bucket: "qdict_ok d \<Longrightarrow> bucket_ok (qdict_bucket k) (qd_table d ! qdict_bucket k)"
  by (simp add: qdict_ok_def)

lemma qdict_put_ok: "qdict_ok d \<Longrightarrow> qdict_ok (qdict_put k v d)"
  using qdict_ok_bucket [of d k] bucket_ok_keys [OF replace_entry_keys, of "qdict_bucket k" k v "qd_table d ! qdict_bucket k"]
    replace_entry_keys [THEN map_eq_imp_length_eq, of k v "qd_table d ! qdict_bucket k"]
  by (auto simp: qdict_put_eq Let_def intro!: qdict_ok_update) (auto simp: bucket_ok_def)

lemma bucket_le_size: "qdict_ok d \<Longrightarrow> b < 512 \<Longrightarrow> length (qd_table d ! b) \<le> qd_size d"
  using length_concat_update [of b "qd_table d" "[]"] by (simp add: qdict_ok_def qdict_entries_def)

lemma qdict_del_ok:
  assumes "qdict_ok d"
  shows "qdict_ok (qdict_del k d)"
proof (cases "k \<in> fst ` set (qd_table d ! qdict_bucket k)")
  case True
  let ?es = "qd_table d ! qdict_bucket k"
  have b: "bucket_ok (qdict_bucket k) ?es" using assms by (rule qdict_ok_bucket)
  then have "bucket_ok (qdict_bucket k) (filter (\<lambda>e. fst e \<noteq> k) ?es)"
    by (auto simp: bucket_ok_def distinct_map intro: inj_on_subset)
  moreover have "qd_size d - 1 + length ?es = qd_size d + length (filter (\<lambda>e. fst e \<noteq> k) ?es)"
    using length_filter_key [of ?es k] b True bucket_le_size [OF assms, of "qdict_bucket k"]
    by (simp add: bucket_ok_def)
  ultimately show ?thesis using True assms by (simp add: qdict_del_eq Let_def qdict_ok_update)
qed (simp add: qdict_del_eq Let_def assms)

lemma qdict_get_update:
  assumes "qdict_ok d" and "map_of es q = v" and "b = qdict_bucket k" and "\<And>q. q \<noteq> k \<Longrightarrow> map_of es q = map_of (qd_table d ! b) q"
  shows "qdict_get (QDict n ((qd_table d)[b := es])) = (qdict_get d)(k := map_of es k)"
proof
  fix q
  have "length (qd_table d) = 512" using assms(1) by (simp add: qdict_ok_def)
  then show "qdict_get (QDict n ((qd_table d)[b := es])) q = ((qdict_get d)(k := map_of es k)) q"
    using assms(3,4) by (cases "qdict_bucket q = b") (auto simp: qdict_get_map_of)
qed

lemma map_of_filter_key: "map_of (filter (\<lambda>e. fst e \<noteq> k) es) q = (if q = k then None else map_of es q)"
  by (induction es) auto

lemma qdict_get_put: "qdict_ok d \<Longrightarrow> qdict_get (qdict_put k v d) = (qdict_get d)(k \<mapsto> v)"
  by (simp add: qdict_put_eq Let_def) (simp add: qdict_get_update replace_entry_at)

lemma qdict_get_del: "qdict_ok d \<Longrightarrow> qdict_get (qdict_del k d) = (qdict_get d)(k := None)"
proof (cases "k \<in> fst ` set (qd_table d ! qdict_bucket k)")
  case False
  then have "qdict_get d k = None" by (auto simp: qdict_get_map_of map_of_eq_None_iff)
  with False show "qdict_ok d \<Longrightarrow> ?thesis" by (auto simp: qdict_del_eq Let_def)
qed (simp add: qdict_del_eq Let_def qdict_get_update map_of_filter_key)

lemma qdict_new_ok: "qdict_ok qdict_new"
  by (simp add: qdict_ok_def qdict_new_def qdict_entries_def bucket_ok_def)

lemma qdict_get_new: "qdict_get qdict_new = Map.empty"
  by (simp add: fun_eq_iff qdict_get_map_of qdict_new_def)

interpretation qd: dictionary qdict_ok qdict_new qdict_put qdict_del qdict_get qdict_entries
  by unfold_locales
    (simp_all add: qdict_new_ok qdict_get_new qdict_put_ok qdict_get_put qdict_del_ok qdict_get_del qdict_entries_facts)

section \<open>Stepping through the entries\<close>

definition next_opt :: "'a list \<Rightarrow> 'a option" where
  "next_opt xs = (case xs of [] \<Rightarrow> None | x # _ \<Rightarrow> Some x)"

lemma next_opt_simps [simp]: "next_opt [] = None" "next_opt (x # xs) = Some x"
  by (simp_all add: next_opt_def)

lemma next_opt_append: "next_opt (xs @ ys) = (if xs = [] then next_opt ys else Some (hd xs))"
  by (cases xs) simp_all

lemma next_nonempty:
  "(case find (\<lambda>es. es \<noteq> []) ess of None \<Rightarrow> None | Some es \<Rightarrow> Some (hd es)) = next_opt (concat ess)"
  by (induction ess) (simp_all add: next_opt_append)

lemma qdict_next_entry_eq: "qdict_next_entry d b = next_opt (concat (drop b (qd_table d)))"
  by (simp add: qdict_next_entry_def next_nonempty)

text \<open>The entry \<open>e\<close> stands in the table, and the entries \<open>rest\<close> after it.\<close>

definition stands :: "'v QDict \<Rightarrow> string \<times> 'v \<Rightarrow> (string \<times> 'v) list \<Rightarrow> bool" where
  "stands d e rest \<longleftrightarrow> (\<exists>b xs ys. b < length (qd_table d) \<and> qd_table d ! b = xs @ e # ys \<and>
     rest = ys @ concat (drop (Suc b) (qd_table d)))"

lemma stands_drop:
  "concat (drop b (qd_table d)) = e # rest \<Longrightarrow> stands d e rest"
proof (induction "length (qd_table d) - b" arbitrary: b)
  case (Suc n)
  then have b: "b < length (qd_table d)" by simp
  then have d: "drop b (qd_table d) = qd_table d ! b # drop (Suc b) (qd_table d)" by (simp add: Cons_nth_drop_Suc)
  show ?case
  proof (cases "qd_table d ! b")
    case Nil
    with d Suc(2,3) show ?thesis by (intro Suc(1) [of "Suc b"]) simp_all
  next
    case (Cons e1 ys)
    with d Suc(3) have "e1 = e" "rest = ys @ concat (drop (Suc b) (qd_table d))" by simp_all
    with b Cons show ?thesis unfolding stands_def by (intro exI [of _ b] exI [of _ "[]"] exI [of _ ys]) simp
  qed
qed simp

lemma qdict_next_stands:
  assumes "qdict_ok d" and "stands d e rest"
  shows "qdict_next d e = next_opt rest"
proof -
  from assms(2) obtain b xs ys where b: "b < length (qd_table d)" and e: "qd_table d ! b = xs @ e # ys"
    and rest: "rest = ys @ concat (drop (Suc b) (qd_table d))" by (auto simp: stands_def)
  have "bucket_ok b (qd_table d ! b)" using assms(1) b by (simp add: qdict_ok_def)
  with e have bucket: "qdict_bucket (fst e) = b" and "\<forall>x \<in> set xs. fst x \<noteq> fst e"
    by (auto simp: bucket_ok_def image_iff)
  then have "dropWhile (\<lambda>x. fst x \<noteq> fst e) (xs @ e # ys) = e # ys" by (subst dropWhile_append2) auto
  with bucket e rest show ?thesis
    by (cases ys) (simp_all add: qdict_next_def qdict_next_entry_eq)
qed

lemma stands_next:
  assumes "stands d e (e1 # rest)"
  shows "stands d e1 rest"
proof -
  from assms obtain b xs ys where b: "b < length (qd_table d)" and e: "qd_table d ! b = xs @ e # ys"
    and rest: "e1 # rest = ys @ concat (drop (Suc b) (qd_table d))" by (auto simp: stands_def)
  show ?thesis
  proof (cases ys)
    case Nil
    with rest show ?thesis by (intro stands_drop [of "Suc b"]) simp
  next
    case (Cons y zs)
    with rest e b show ?thesis unfolding stands_def
      by (intro exI [of _ b] exI [of _ "xs @ [e]"] exI [of _ zs]) simp
  qed
qed

text \<open>The loop over the entries, for at most \<open>n\<close> of them.\<close>

fun qdict_steps :: "nat \<Rightarrow> 'v QDict \<Rightarrow> (string \<times> 'v) option \<Rightarrow> (string \<times> 'v) list" where
  "qdict_steps 0 d c = []"
| "qdict_steps (Suc n) d None = []"
| "qdict_steps (Suc n) d (Some e) = e # qdict_steps n d (qdict_next d e)"

lemma qdict_steps_stands:
  assumes "qdict_ok d"
  shows "stands d e rest \<Longrightarrow> length rest < n \<Longrightarrow> qdict_steps n d (Some e) = e # rest"
proof (induction n arbitrary: e rest)
  case (Suc n)
  have step: "qdict_next d e = next_opt rest" by (rule qdict_next_stands [OF assms Suc.prems(1)])
  show ?case
  proof (cases rest)
    case Nil
    then show ?thesis using step by (cases n) simp_all
  next
    case (Cons e1 rest1)
    then have "qdict_steps n d (Some e1) = e1 # rest1"
      using Suc.prems stands_next [of d e e1 rest1] by (intro Suc.IH) simp_all
    then show ?thesis using step Cons by simp
  qed
qed simp

lemma qdict_steps_all:
  assumes "qdict_ok d"
  shows "qdict_steps (Suc (qdict_size d)) d (qdict_first d) = qdict_entries d"
proof (cases "qdict_entries d")
  case Nil
  then show ?thesis
    by (simp add: qdict_first_def qdict_next_entry_eq qdict_entries_def del: concat_eq_Nil_conv)
next
  case (Cons e rest)
  then have "stands d e rest" by (intro stands_drop [of 0]) (simp add: qdict_entries_def)
  moreover have "qdict_first d = Some e"
    using Cons by (simp add: qdict_first_def qdict_next_entry_eq qdict_entries_def)
  moreover have "length rest < Suc (qdict_size d)"
    using assms Cons by (simp add: qdict_ok_def qdict_size_def)
  ultimately show ?thesis using qdict_steps_stands [OF assms] Cons by (simp del: qdict_steps.simps)
qed

section \<open>Runs\<close>

datatype 'v qdict_op = Put string 'v | Del string

fun qdict_apply :: "'v QDict \<Rightarrow> 'v qdict_op \<Rightarrow> 'v QDict" where
  "qdict_apply d (Put k v) = qdict_put k v d"
| "qdict_apply d (Del k) = qdict_del k d"

fun dict_apply :: "(string \<rightharpoonup> 'v) \<Rightarrow> 'v qdict_op \<Rightarrow> (string \<rightharpoonup> 'v)" where
  "dict_apply m (Put k v) = m(k \<mapsto> v)"
| "dict_apply m (Del k) = m(k := None)"

lemma qdict_run:
  "qdict_ok d \<Longrightarrow> qdict_ok (foldl qdict_apply d xs) \<and>
    qdict_get (foldl qdict_apply d xs) = foldl dict_apply (qdict_get d) xs"
proof (induction xs arbitrary: d)
  case (Cons x xs)
  then show ?case
    by (cases x) (simp_all add: qd.ok_put qdict_get_put qd.ok_del qdict_get_del fun_upd_def)
qed simp

text \<open>C33: [qdict_map] After any puts and deletions a dictionary is the map they build: lookups, its size, and the
  entries an iteration visits, by the callback or entry by entry, each exactly once.\<close>

theorem qdict_map:
  fixes xs :: "'v qdict_op list"
  defines "d \<equiv> foldl qdict_apply qdict_new xs" and "m \<equiv> foldl dict_apply Map.empty xs"
  shows "qdict_get d = m \<and> (\<forall>k. qdict_haskey d k = (k \<in> dom m)) \<and> qdict_size d = Finite_Set.card (dom m) \<and>
    map_of (qdict_entries d) = m \<and> distinct (map fst (qdict_entries d)) \<and>
    qdict_steps (Suc (qdict_size d)) d (qdict_first d) = qdict_entries d"
proof -
  have ok: "qdict_ok d" and get: "qdict_get d = m"
    using qdict_run [OF qd.ok_new, of xs] by (simp_all add: d_def m_def qd.get_new)
  have "qdict_haskey d k = (qdict_get d k \<noteq> None)" for k
    by (simp add: qdict_haskey_def qdict_get_def)
  moreover have "qdict_size d = length (qdict_entries d)"
    using ok by (simp add: qdict_ok_def qdict_size_def)
  ultimately show ?thesis
    using get qd.length_entries [OF ok] qd.entries_get [OF ok] qd.entries_distinct [OF ok] qdict_steps_all [OF ok]
    by (simp add: dom_def)
qed

end
