(* ===== verification/JsonLexer.thy ===== *)
theory JsonLexer
  imports Prelude
begin

text \<open>
  The reader of the control protocol's messages, first half: the table-driven lexer of \<^verbatim>\<open>json-lexer.c\<close> and the
  splitting of the token stream into messages of \<^verbatim>\<open>json-streamer.c\<close>. A character is its byte value where the code
  indexes with it. The calls back, of the streamer for a token and of the client for a message, are lists of
  what they are called with, oldest first. A token, a dictionary of four fixed keys in C, is a record.
\<close>

section \<open>The lexer\<close>

datatype json_lexer_state =
    IN_ERROR | IN_DQ_UCODE3 | IN_DQ_UCODE2 | IN_DQ_UCODE1 | IN_DQ_UCODE0 | IN_DQ_STRING_ESCAPE | IN_DQ_STRING
  | IN_SQ_UCODE3 | IN_SQ_UCODE2 | IN_SQ_UCODE1 | IN_SQ_UCODE0 | IN_SQ_STRING_ESCAPE | IN_SQ_STRING
  | IN_ZERO | IN_DIGITS | IN_DIGIT | IN_EXP_E | IN_MANTISSA | IN_MANTISSA_DIGITS | IN_NONZERO_NUMBER
  | IN_NEG_NONZERO_NUMBER | IN_KEYWORD | IN_ESCAPE | IN_ESCAPE_L | IN_ESCAPE_LL | IN_ESCAPE_I | IN_ESCAPE_I6
  | IN_ESCAPE_I64 | IN_WHITESPACE | IN_START

datatype JSONTokenType =
    JSON_OPERATOR | JSON_INTEGER | JSON_FLOAT | JSON_KEYWORD | JSON_STRING | JSON_ESCAPE | JSON_SKIP | JSON_ERROR

text \<open>The codes of the table: C numbers states and token types apart and mixes them in one integer.\<close>

datatype lexer_code = State json_lexer_state | Token JSONTokenType

abbreviation byte :: "char \<Rightarrow> nat" where
  "byte c \<equiv> of_char c"

abbreviation (input) is_ch :: "nat \<Rightarrow> char \<Rightarrow> bool" where
  "is_ch k c \<equiv> k = byte c"

definition digit_ch :: "nat \<Rightarrow> bool" where
  "digit_ch k \<longleftrightarrow> byte CHR ''0'' \<le> k \<and> k \<le> byte CHR ''9''"

definition digit19_ch :: "nat \<Rightarrow> bool" where
  "digit19_ch k \<longleftrightarrow> byte CHR ''1'' \<le> k \<and> k \<le> byte CHR ''9''"

definition lower_ch :: "nat \<Rightarrow> bool" where
  "lower_ch k \<longleftrightarrow> byte CHR ''a'' \<le> k \<and> k \<le> byte CHR ''z''"

definition hex_ch :: "nat \<Rightarrow> bool" where
  "hex_ch k \<longleftrightarrow> digit_ch k \<or> byte CHR ''a'' \<le> k \<and> k \<le> byte CHR ''f'' \<or> byte CHR ''A'' \<le> k \<and> k \<le> byte CHR ''F''"

definition space_ch :: "nat \<Rightarrow> bool" where
  "space_ch k \<longleftrightarrow> is_ch k CHR '' '' \<or> is_ch k CHR 0x09 \<or> is_ch k CHR 0x0D \<or> is_ch k CHR 0x0A"

definition text_ch :: "nat \<Rightarrow> bool" where
  "text_ch k \<longleftrightarrow> 1 \<le> k \<and> k \<le> 0xBF \<or> 0xC2 \<le> k \<and> k \<le> 0xF4"

definition ucode :: "json_lexer_state \<Rightarrow> nat \<Rightarrow> lexer_code" where
  "ucode next k = State (if hex_ch k then next else IN_ERROR)"

text \<open>A row that uses \<open>TERMINAL\<close> ends the token at every character below 128 without an entry of its own.\<close>

definition terminal :: "JSONTokenType \<Rightarrow> nat \<Rightarrow> lexer_code" where
  "terminal ty k = (if k \<le> 0x7F then Token ty else State IN_ERROR)"

fun json_lexer :: "json_lexer_state \<Rightarrow> nat \<Rightarrow> lexer_code" where
  "json_lexer IN_ERROR k = State IN_ERROR"
| "json_lexer IN_DQ_UCODE3 k = ucode IN_DQ_STRING k"
| "json_lexer IN_DQ_UCODE2 k = ucode IN_DQ_UCODE3 k"
| "json_lexer IN_DQ_UCODE1 k = ucode IN_DQ_UCODE2 k"
| "json_lexer IN_DQ_UCODE0 k = ucode IN_DQ_UCODE1 k"
| "json_lexer IN_DQ_STRING_ESCAPE k =
     (if k \<in> byte ` {CHR ''b'', CHR ''f'', CHR ''n'', CHR ''r'', CHR ''t'', CHR ''/'', CHR 0x5C, CHR 0x27, CHR 0x22}
      then State IN_DQ_STRING
      else if is_ch k CHR ''u'' then State IN_DQ_UCODE0 else State IN_ERROR)"
| "json_lexer IN_DQ_STRING k =
     (if is_ch k CHR 0x22 then Token JSON_STRING
      else if is_ch k CHR 0x5C then State IN_DQ_STRING_ESCAPE
      else if text_ch k then State IN_DQ_STRING else State IN_ERROR)"
| "json_lexer IN_SQ_UCODE3 k = ucode IN_SQ_STRING k"
| "json_lexer IN_SQ_UCODE2 k = ucode IN_SQ_UCODE3 k"
| "json_lexer IN_SQ_UCODE1 k = ucode IN_SQ_UCODE2 k"
| "json_lexer IN_SQ_UCODE0 k = ucode IN_SQ_UCODE1 k"
| "json_lexer IN_SQ_STRING_ESCAPE k =
     (if k \<in> byte ` {CHR ''b'', CHR ''f'', CHR ''n'', CHR ''r'', CHR ''t'', CHR 0x27, CHR 0x22} then State IN_SQ_STRING
      else if k \<in> byte ` {CHR ''/'', CHR 0x5C} then State IN_DQ_STRING
      else if is_ch k CHR ''u'' then State IN_SQ_UCODE0 else State IN_ERROR)"
| "json_lexer IN_SQ_STRING k =
     (if is_ch k CHR 0x27 then Token JSON_STRING
      else if is_ch k CHR 0x5C then State IN_SQ_STRING_ESCAPE
      else if text_ch k then State IN_SQ_STRING else State IN_ERROR)"
| "json_lexer IN_ZERO k =
     (if digit_ch k then State IN_ERROR
      else if is_ch k CHR ''.'' then State IN_MANTISSA else terminal JSON_INTEGER k)"
| "json_lexer IN_DIGITS k = (if digit_ch k then State IN_DIGITS else terminal JSON_FLOAT k)"
| "json_lexer IN_DIGIT k = State (if digit_ch k then IN_DIGITS else IN_ERROR)"
| "json_lexer IN_EXP_E k =
     State (if is_ch k CHR ''-'' \<or> is_ch k CHR ''+'' then IN_DIGIT else if digit_ch k then IN_DIGITS else IN_ERROR)"
| "json_lexer IN_MANTISSA_DIGITS k =
     (if digit_ch k then State IN_MANTISSA_DIGITS
      else if is_ch k CHR ''e'' \<or> is_ch k CHR ''E'' then State IN_EXP_E else terminal JSON_FLOAT k)"
| "json_lexer IN_MANTISSA k = State (if digit_ch k then IN_MANTISSA_DIGITS else IN_ERROR)"
| "json_lexer IN_NONZERO_NUMBER k =
     (if digit_ch k then State IN_NONZERO_NUMBER
      else if is_ch k CHR ''e'' \<or> is_ch k CHR ''E'' then State IN_EXP_E
      else if is_ch k CHR ''.'' then State IN_MANTISSA else terminal JSON_INTEGER k)"
| "json_lexer IN_NEG_NONZERO_NUMBER k =
     State (if is_ch k CHR ''0'' then IN_ZERO else if digit19_ch k then IN_NONZERO_NUMBER else IN_ERROR)"
| "json_lexer IN_KEYWORD k = (if lower_ch k then State IN_KEYWORD else terminal JSON_KEYWORD k)"
| "json_lexer IN_WHITESPACE k = (if space_ch k then State IN_WHITESPACE else terminal JSON_SKIP k)"
| "json_lexer IN_ESCAPE_LL k = (if is_ch k CHR ''d'' then Token JSON_ESCAPE else State IN_ERROR)"
| "json_lexer IN_ESCAPE_L k =
     (if is_ch k CHR ''d'' then Token JSON_ESCAPE
      else if is_ch k CHR ''l'' then State IN_ESCAPE_LL else State IN_ERROR)"
| "json_lexer IN_ESCAPE_I64 k = (if is_ch k CHR ''d'' then Token JSON_ESCAPE else State IN_ERROR)"
| "json_lexer IN_ESCAPE_I6 k = State (if is_ch k CHR ''4'' then IN_ESCAPE_I64 else IN_ERROR)"
| "json_lexer IN_ESCAPE_I k = State (if is_ch k CHR ''6'' then IN_ESCAPE_I6 else IN_ERROR)"
| "json_lexer IN_ESCAPE k =
     (if k \<in> byte ` {CHR ''d'', CHR ''i'', CHR ''p'', CHR ''s'', CHR ''f''} then Token JSON_ESCAPE
      else if is_ch k CHR ''l'' then State IN_ESCAPE_L
      else if is_ch k CHR ''I'' then State IN_ESCAPE_I else State IN_ERROR)"
| "json_lexer IN_START k =
     (if is_ch k CHR 0x22 then State IN_DQ_STRING
      else if is_ch k CHR 0x27 then State IN_SQ_STRING
      else if is_ch k CHR ''0'' then State IN_ZERO
      else if digit19_ch k then State IN_NONZERO_NUMBER
      else if is_ch k CHR ''-'' then State IN_NEG_NONZERO_NUMBER
      else if k \<in> byte ` {CHR 0x7B, CHR 0x7D, CHR ''['', CHR '']'', CHR '','', CHR '':''} then Token JSON_OPERATOR
      else if lower_ch k then State IN_KEYWORD
      else if is_ch k CHR ''%'' then State IN_ESCAPE
      else if space_ch k then State IN_WHITESPACE
      else State IN_ERROR)"

record JSONLexer =
  lx_state :: json_lexer_state
  lx_token :: string
  lx_x :: int
  lx_y :: int

record JSONToken =
  tk_type :: lexer_code
  tk_text :: string
  tk_x :: int
  tk_y :: int

abbreviation (input) MAX_TOKEN_SIZE :: nat where
  "MAX_TOKEN_SIZE \<equiv> 67108864"

definition json_lexer_init :: JSONLexer where
  "json_lexer_init = \<lparr>lx_state = IN_START, lx_token = [], lx_x = 0, lx_y = 0\<rparr>"

definition lexer_emit :: "lexer_code \<Rightarrow> JSONLexer \<Rightarrow> JSONToken" where
  "lexer_emit ty lx = \<lparr>tk_type = ty, tk_text = lx_token lx, tk_x = lx_x lx, tk_y = lx_y lx\<rparr>"

definition lexer_restart :: "JSONLexer \<Rightarrow> JSONLexer" where
  "lexer_restart lx = lx\<lparr>lx_state := IN_START, lx_token := []\<rparr>"

definition TERMINAL_NEEDED_LOOKAHEAD :: "json_lexer_state \<Rightarrow> lexer_code \<Rightarrow> bool" where
  "TERMINAL_NEEDED_LOOKAHEAD old code \<longleftrightarrow> json_lexer old 0 = code"

text \<open>The loop over one character: when the table ended the token before it, it is looked at again in the state
  the next token starts in.\<close>

function lexer_turns :: "char \<Rightarrow> bool \<Rightarrow> JSONLexer \<Rightarrow> JSONLexer \<times> JSONToken list" where
  "lexer_turns c flush lx =
     (let code = json_lexer (lx_state lx) (byte c);
          consumed = (\<not> TERMINAL_NEEDED_LOOKAHEAD (lx_state lx) code);
          lx1 = (if consumed then lx\<lparr>lx_token := lx_token lx @ [c]\<rparr> else lx)
      in if code = State IN_ERROR then (lexer_restart lx1, [lexer_emit (Token JSON_ERROR) lx1])
         else
           (let (lx2, out) = (case code of
                  State s \<Rightarrow> (lx1\<lparr>lx_state := s\<rparr>, [])
                | Token ty \<Rightarrow> (lexer_restart lx1, if ty = JSON_SKIP then [] else [lexer_emit (Token ty) lx1]))
            in if consumed \<or> flush then (lx2, out)
               else (let (lx3, out1) = lexer_turns c flush lx2 in (lx3, out @ out1))))"
  by pat_completeness auto

lemma first_column: "json_lexer s 0 = State t \<Longrightarrow> t = IN_ERROR"
  by (cases s) (simp_all add: ucode_def terminal_def digit_ch_def digit19_ch_def hex_ch_def space_ch_def text_ch_def
      lower_ch_def)

lemma first_column_start: "json_lexer IN_START 0 = State IN_ERROR"
  by (simp add: digit_ch_def digit19_ch_def space_ch_def lower_ch_def)

termination lexer_turns
proof (relation "measure (\<lambda>(c, flush, lx). if lx_state lx = IN_START then 0 else 1)", goal_cases)
  case (2 c flush lx code consumed lx1 p lx2 out)
  from 2 have same: "json_lexer (lx_state lx) 0 = code" and ne: "code \<noteq> State IN_ERROR"
    by (simp_all add: TERMINAL_NEEDED_LOOKAHEAD_def)
  with first_column obtain ty where code: "code = Token ty" by (cases code) auto
  with same first_column_start have "lx_state lx \<noteq> IN_START" by auto
  moreover have "lx_state lx2 = IN_START" using 2(5,6) code by (auto simp: lexer_restart_def)
  ultimately show ?case by simp
qed simp

declare lexer_turns.simps [simp del]

definition json_lexer_feed_char :: "char \<Rightarrow> bool \<Rightarrow> JSONLexer \<Rightarrow> JSONLexer \<times> JSONToken list" where
  "json_lexer_feed_char c flush lx =
     (let lx0 = (if c = CHR 0x0A then lx\<lparr>lx_x := 0, lx_y := c_int (lx_y lx + 1)\<rparr> else lx\<lparr>lx_x := c_int (lx_x lx + 1)\<rparr>);
          (lx1, out) = lexer_turns c flush lx0
      in if length (lx_token lx1) > MAX_TOKEN_SIZE
         then (lexer_restart lx1, out @ [lexer_emit (State (lx_state lx1)) lx1])
         else (lx1, out))"

fun json_lexer_feed :: "string \<Rightarrow> JSONLexer \<Rightarrow> JSONLexer \<times> JSONToken list" where
  "json_lexer_feed [] lx = (lx, [])"
| "json_lexer_feed (c # cs) lx =
     (let (lx1, out) = json_lexer_feed_char c False lx; (lx2, out1) = json_lexer_feed cs lx1 in (lx2, out @ out1))"

definition json_lexer_flush :: "JSONLexer \<Rightarrow> JSONLexer \<times> JSONToken list" where
  "json_lexer_flush lx = (if lx_state lx = IN_START then (lx, []) else json_lexer_feed_char CHR 0x00 True lx)"

section \<open>The streamer\<close>

record JSONMessageParser =
  jp_lexer :: JSONLexer
  brace_count :: int
  bracket_count :: int
  jp_tokens :: "JSONToken list"
  token_size :: nat

abbreviation (input) MAX_NESTING :: int where
  "MAX_NESTING \<equiv> 1024"

definition json_message_parser_init :: JSONMessageParser where
  "json_message_parser_init =
     \<lparr>jp_lexer = json_lexer_init, brace_count = 0, bracket_count = 0, jp_tokens = [], token_size = 0\<rparr>"

definition count_operator :: "JSONToken \<Rightarrow> JSONMessageParser \<Rightarrow> JSONMessageParser" where
  "count_operator t p =
     (if tk_type t = Token JSON_OPERATOR
      then case tk_text t of
          [] \<Rightarrow> p
        | c # _ \<Rightarrow>
            (if c = CHR 0x7B then p\<lparr>brace_count := brace_count p + 1\<rparr>
             else if c = CHR 0x7D then p\<lparr>brace_count := brace_count p - 1\<rparr>
             else if c = CHR ''['' then p\<lparr>bracket_count := bracket_count p + 1\<rparr>
             else if c = CHR '']'' then p\<lparr>bracket_count := bracket_count p - 1\<rparr>
             else p)
      else p)"

text \<open>A message is the list of its tokens; \<open>None\<close> is the null list that tells the client of bad input.\<close>

definition message_emit :: "JSONToken list option \<Rightarrow> JSONMessageParser \<Rightarrow> JSONMessageParser \<times> JSONToken list option list" where
  "message_emit m p = (p\<lparr>brace_count := 0, bracket_count := 0, jp_tokens := [], token_size := 0\<rparr>, [m])"

definition json_message_process_token ::
  "JSONToken \<Rightarrow> JSONMessageParser \<Rightarrow> JSONMessageParser \<times> JSONToken list option list" where
  "json_message_process_token t p0 =
     (let p1 = count_operator t p0;
          p = p1\<lparr>token_size := token_size p1 + length (tk_text t), jp_tokens := jp_tokens p1 @ [t]\<rparr>
      in if tk_type t = Token JSON_ERROR then message_emit None p
         else if brace_count p < 0 \<or> bracket_count p < 0 \<or> brace_count p = 0 \<and> bracket_count p = 0
         then message_emit (Some (jp_tokens p)) p
         else if token_size p > MAX_TOKEN_SIZE \<or> bracket_count p > MAX_NESTING \<or> brace_count p > MAX_NESTING
         then message_emit (Some (jp_tokens p)) p
         else (p, []))"

fun process_tokens :: "JSONToken list \<Rightarrow> JSONMessageParser \<Rightarrow> JSONMessageParser \<times> JSONToken list option list" where
  "process_tokens [] p = (p, [])"
| "process_tokens (t # ts) p =
     (let (p1, ms) = json_message_process_token t p; (p2, ms1) = process_tokens ts p1 in (p2, ms @ ms1))"

definition json_message_parser_feed ::
  "string \<Rightarrow> JSONMessageParser \<Rightarrow> JSONMessageParser \<times> JSONToken list option list" where
  "json_message_parser_feed buf p =
     (let (lx, ts) = json_lexer_feed buf (jp_lexer p) in process_tokens ts (p\<lparr>jp_lexer := lx\<rparr>))"

definition json_message_parser_flush :: "JSONMessageParser \<Rightarrow> JSONMessageParser \<times> JSONToken list option list" where
  "json_message_parser_flush p =
     (let (lx, ts) = json_lexer_flush (jp_lexer p) in process_tokens ts (p\<lparr>jp_lexer := lx\<rparr>))"

section \<open>The lexer without positions\<close>

definition tk_key :: "JSONToken \<Rightarrow> lexer_code \<times> string" where
  "tk_key t = (tk_type t, tk_text t)"

definition lx_core :: "JSONLexer \<Rightarrow> json_lexer_state \<times> string" where
  "lx_core lx = (lx_state lx, lx_token lx)"

lemma tk_key_emit [simp]: "tk_key (lexer_emit ty lx) = (ty, lx_token lx)"
  by (simp add: tk_key_def lexer_emit_def)

lemma lx_core_restart [simp]: "lx_core (lexer_restart lx) = (IN_START, [])"
  by (simp add: lx_core_def lexer_restart_def)

text \<open>What one character does, in the state a token starts in and in any other.\<close>

definition lex_start :: "char \<Rightarrow> (json_lexer_state \<times> string) \<times> (lexer_code \<times> string) list" where
  "lex_start c =
     (case json_lexer IN_START (byte c) of
        State s \<Rightarrow> if s = IN_ERROR then ((IN_START, []), [(Token JSON_ERROR, [])]) else ((s, [c]), [])
      | Token ty \<Rightarrow> ((IN_START, []), [(Token ty, [c])]))"

fun lex_char :: "json_lexer_state \<times> string \<Rightarrow> char \<Rightarrow> bool \<Rightarrow> (json_lexer_state \<times> string) \<times> (lexer_code \<times> string) list" where
  "lex_char (s, tok) c flush =
     (case json_lexer s (byte c) of
        State t \<Rightarrow>
          if t = IN_ERROR
          then ((IN_START, []), [(Token JSON_ERROR, if json_lexer s 0 = State IN_ERROR then tok else tok @ [c])])
          else ((t, tok @ [c]), [])
      | Token ty \<Rightarrow>
          if json_lexer s 0 = Token ty
          then (let out = (if ty = JSON_SKIP then [] else [(Token ty, tok)]) in
                if flush then ((IN_START, []), out)
                else (let (st, out1) = lex_start c in (st, out @ out1)))
          else ((IN_START, []), if ty = JSON_SKIP then [] else [(Token ty, tok @ [c])]))"

lemma start_no_skip: "json_lexer IN_START k \<noteq> Token JSON_SKIP"
  by simp

lemma turns_start:
  assumes "lx_core lx = (IN_START, [])" and "lexer_turns c False lx = (lx1, out)"
  shows "(lx_core lx1, map tk_key out) = lex_start c"
proof -
  have s: "lx_state lx = IN_START" "lx_token lx = []" using assms(1) by (simp_all add: lx_core_def)
  show ?thesis
  proof (cases "json_lexer IN_START (byte c)")
    case (State t)
    have "TERMINAL_NEEDED_LOOKAHEAD IN_START (State t) \<longleftrightarrow> t = IN_ERROR"
      by (auto simp: TERMINAL_NEEDED_LOOKAHEAD_def first_column_start simp del: json_lexer.simps)
    with State s assms(2) show ?thesis
      by (subst (asm) lexer_turns.simps)
        (auto simp: Let_def lex_start_def lx_core_def lexer_restart_def simp del: json_lexer.simps split: if_splits)
  next
    case (Token ty)
    have "\<not> TERMINAL_NEEDED_LOOKAHEAD IN_START (Token ty)"
      by (auto simp: TERMINAL_NEEDED_LOOKAHEAD_def first_column_start simp del: json_lexer.simps)
    with Token s assms(2) start_no_skip [of "byte c"] show ?thesis
      by (subst (asm) lexer_turns.simps)
        (auto simp: Let_def lex_start_def simp del: json_lexer.simps split: if_splits)
  qed
qed

lemma turns_core:
  assumes "lexer_turns c flush lx = (lx1, out)"
  shows "(lx_core lx1, map tk_key out) = lex_char (lx_core lx) c flush"
proof (cases "json_lexer (lx_state lx) (byte c)")
  case (State t)
  have "TERMINAL_NEEDED_LOOKAHEAD (lx_state lx) (State t) \<longleftrightarrow> t = IN_ERROR \<and> json_lexer (lx_state lx) 0 = State IN_ERROR"
    using first_column [of "lx_state lx" t] by (auto simp: TERMINAL_NEEDED_LOOKAHEAD_def)
  with State assms show ?thesis
    by (subst (asm) lexer_turns.simps)
      (auto simp: Let_def lx_core_def lexer_restart_def simp del: json_lexer.simps split: if_splits)
next
  case (Token ty)
  show ?thesis
  proof (cases "json_lexer (lx_state lx) 0 = Token ty \<and> \<not> flush")
    case False
    with Token assms show ?thesis
      by (subst (asm) lexer_turns.simps)
        (auto simp: Let_def TERMINAL_NEEDED_LOOKAHEAD_def lx_core_def lexer_restart_def simp del: json_lexer.simps
          split: if_splits)
  next
    case True
    obtain lx2 out2 where t: "lexer_turns c False (lexer_restart lx) = (lx2, out2)" by fastforce
    from turns_start [OF _ t] have "lex_start c = (lx_core lx2, map tk_key out2)" by simp
    with Token True assms t show ?thesis
      by (subst (asm) lexer_turns.simps)
        (auto simp: Let_def TERMINAL_NEEDED_LOOKAHEAD_def lx_core_def simp del: json_lexer.simps split: if_splits)
  qed
qed

lemma feed_char_core:
  assumes "json_lexer_feed_char c flush lx = (lx1, out)" and "length (snd (fst (lex_char (lx_core lx) c flush))) \<le> MAX_TOKEN_SIZE"
  shows "(lx_core lx1, map tk_key out) = lex_char (lx_core lx) c flush"
proof -
  let ?lx = "if c = CHR 0x0A then lx\<lparr>lx_x := 0, lx_y := c_int (lx_y lx + 1)\<rparr> else lx\<lparr>lx_x := c_int (lx_x lx + 1)\<rparr>"
  obtain lx2 out2 where t: "lexer_turns c flush ?lx = (lx2, out2)" by fastforce
  have "lx_core ?lx = lx_core lx" by (simp add: lx_core_def)
  with turns_core [OF t] have core: "(lx_core lx2, map tk_key out2) = lex_char (lx_core lx) c flush" by simp
  then have "length (lx_token lx2) \<le> MAX_TOKEN_SIZE" using assms(2) by (metis fst_conv snd_conv lx_core_def)
  with assms(1) t have "lx1 = lx2" "out = out2" by (simp_all add: json_lexer_feed_char_def Let_def)
  with core show ?thesis by simp
qed

section \<open>Memory is bounded\<close>

text \<open>A settled lexer holds at most \<open>MAX_TOKEN_SIZE\<close> bytes, and no token it hands on is more than one byte longer.\<close>

lemma lex_char_length:
  "length (snd (fst (lex_char (s, tok) c flush))) \<le> Suc (length tok)"
  "(ty, x) \<in> set (snd (lex_char (s, tok) c flush)) \<Longrightarrow> length x \<le> Suc (length tok)"
  by (auto simp: lex_start_def Let_def simp del: json_lexer.simps split: lexer_code.splits if_splits prod.splits)

lemma turns_length:
  assumes "lexer_turns c flush lx = (lx1, out)"
  shows "length (lx_token lx1) \<le> Suc (length (lx_token lx))" "t \<in> set out \<Longrightarrow> length (tk_text t) \<le> Suc (length (lx_token lx))"
proof -
  have core: "lex_char (lx_state lx, lx_token lx) c flush = ((lx_state lx1, lx_token lx1), map tk_key out)"
    using turns_core [OF assms] by (simp add: lx_core_def)
  show "length (lx_token lx1) \<le> Suc (length (lx_token lx))"
    using lex_char_length(1) [of "lx_state lx" "lx_token lx" c flush] core by simp
  show "length (tk_text t) \<le> Suc (length (lx_token lx))" if "t \<in> set out"
    using that lex_char_length(2) [of "tk_type t" "tk_text t" "lx_state lx" "lx_token lx" c flush] core
    by (metis image_eqI image_set snd_conv tk_key_def)
qed

lemma feed_char_length:
  assumes "json_lexer_feed_char c flush lx = (lx1, out)" and "length (lx_token lx) \<le> MAX_TOKEN_SIZE"
  shows "length (lx_token lx1) \<le> MAX_TOKEN_SIZE" "t \<in> set out \<Longrightarrow> length (tk_text t) \<le> Suc MAX_TOKEN_SIZE"
proof -
  let ?lx = "if c = CHR 0x0A then lx\<lparr>lx_x := 0, lx_y := c_int (lx_y lx + 1)\<rparr> else lx\<lparr>lx_x := c_int (lx_x lx + 1)\<rparr>"
  obtain lx2 out2 where t: "lexer_turns c flush ?lx = (lx2, out2)" by fastforce
  have "lx_token ?lx = lx_token lx" by simp
  then have "length (lx_token lx2) \<le> Suc MAX_TOKEN_SIZE" using turns_length(1) [OF t] assms(2) by simp
  moreover have "length (tk_text u) \<le> Suc MAX_TOKEN_SIZE" if "u \<in> set out2" for u
    using turns_length(2) [OF t that] \<open>lx_token ?lx = lx_token lx\<close> assms(2) by simp
  ultimately
  show "length (lx_token lx1) \<le> MAX_TOKEN_SIZE"
    "t \<in> set out \<Longrightarrow> length (tk_text t) \<le> Suc MAX_TOKEN_SIZE"
    using assms(1) t by (auto simp: json_lexer_feed_char_def Let_def lexer_restart_def lexer_emit_def split: if_splits)
qed

lemma feed_length:
  assumes "json_lexer_feed cs lx = (lx1, out)" and "length (lx_token lx) \<le> MAX_TOKEN_SIZE"
  shows "length (lx_token lx1) \<le> MAX_TOKEN_SIZE \<and> (\<forall>t \<in> set out. length (tk_text t) \<le> Suc MAX_TOKEN_SIZE)"
  using assms
proof (induction cs arbitrary: lx lx1 out)
  case (Cons c cs)
  obtain lx2 out2 where c: "json_lexer_feed_char c False lx = (lx2, out2)" by fastforce
  obtain lx3 out3 where cs: "json_lexer_feed cs lx2 = (lx3, out3)" by fastforce
  from c cs Cons.prems(1) have "lx1 = lx3" "out = out2 @ out3" by simp_all
  with feed_char_length [OF c Cons.prems(2)] Cons.IH [OF cs] show ?case by auto
qed simp

definition text_length :: "JSONToken list \<Rightarrow> nat" where
  "text_length ts = sum_list (map (length \<circ> tk_text) ts)"

lemma text_length_simps [simp]:
  "text_length [] = 0" "text_length (t # ts) = length (tk_text t) + text_length ts"
  "text_length (ts @ us) = text_length ts + text_length us"
  by (simp_all add: text_length_def)

definition streamer_ok :: "JSONMessageParser \<Rightarrow> bool" where
  "streamer_ok p \<longleftrightarrow> token_size p = text_length (jp_tokens p) \<and> token_size p \<le> MAX_TOKEN_SIZE \<and>
     0 \<le> brace_count p \<and> brace_count p \<le> MAX_NESTING \<and> 0 \<le> bracket_count p \<and> bracket_count p \<le> MAX_NESTING \<and>
     (jp_tokens p = [] \<longleftrightarrow> brace_count p = 0 \<and> bracket_count p = 0)"

definition message_ok :: "JSONToken list option \<Rightarrow> bool" where
  "message_ok m = (case m of None \<Rightarrow> True | Some ts \<Rightarrow> ts \<noteq> [] \<and> text_length ts \<le> 2 * MAX_TOKEN_SIZE + 1)"

lemma count_operator_frame [simp]:
  "jp_lexer (count_operator t p) = jp_lexer p" "jp_tokens (count_operator t p) = jp_tokens p"
  "token_size (count_operator t p) = token_size p"
  by (simp_all add: count_operator_def split: list.split)

lemma process_token_ok:
  assumes "json_message_process_token t p = (p1, ms)" and "streamer_ok p" and "length (tk_text t) \<le> Suc MAX_TOKEN_SIZE"
  shows "streamer_ok p1 \<and> jp_lexer p1 = jp_lexer p \<and> (\<forall>m \<in> set ms. message_ok m)"
  using assms
  by (auto simp: json_message_process_token_def Let_def message_emit_def streamer_ok_def message_ok_def
      split: if_splits)

lemma process_tokens_ok:
  assumes "process_tokens ts p = (p1, ms)" and "streamer_ok p" and "\<forall>t \<in> set ts. length (tk_text t) \<le> Suc MAX_TOKEN_SIZE"
  shows "streamer_ok p1 \<and> jp_lexer p1 = jp_lexer p \<and> (\<forall>m \<in> set ms. message_ok m)"
  using assms
proof (induction ts arbitrary: p p1 ms)
  case (Cons t ts)
  obtain p2 ms2 where t: "json_message_process_token t p = (p2, ms2)" by fastforce
  obtain p3 ms3 where ts: "process_tokens ts p2 = (p3, ms3)" by fastforce
  from t ts Cons.prems(1) have "p1 = p3" "ms = ms2 @ ms3" by simp_all
  with process_token_ok [OF t Cons.prems(2)] Cons.prems(3) Cons.IH [OF ts] show ?case by auto
qed simp

text \<open>Any number of buffers read one after the other.\<close>

fun feed_all :: "string list \<Rightarrow> JSONMessageParser \<Rightarrow> JSONMessageParser \<times> JSONToken list option list" where
  "feed_all [] p = (p, [])"
| "feed_all (b # bs) p =
     (let (p1, ms) = json_message_parser_feed b p; (p2, ms1) = feed_all bs p1 in (p2, ms @ ms1))"

lemma parser_feed_ok:
  assumes "json_message_parser_feed b p = (p1, ms)" and "streamer_ok p" and "length (lx_token (jp_lexer p)) \<le> MAX_TOKEN_SIZE"
  shows "streamer_ok p1 \<and> length (lx_token (jp_lexer p1)) \<le> MAX_TOKEN_SIZE \<and> (\<forall>m \<in> set ms. message_ok m)"
proof -
  obtain lx ts where l: "json_lexer_feed b (jp_lexer p) = (lx, ts)" by fastforce
  have "streamer_ok (p\<lparr>jp_lexer := lx\<rparr>)" using assms(2) by (simp add: streamer_ok_def)
  with feed_length [OF l assms(3)] process_tokens_ok [of ts "p\<lparr>jp_lexer := lx\<rparr>" p1 ms] assms(1) l
  show ?thesis by (simp add: json_message_parser_feed_def)
qed

lemma feed_all_ok:
  assumes "feed_all bs p = (p1, ms)" and "streamer_ok p" and "length (lx_token (jp_lexer p)) \<le> MAX_TOKEN_SIZE"
  shows "streamer_ok p1 \<and> length (lx_token (jp_lexer p1)) \<le> MAX_TOKEN_SIZE \<and> (\<forall>m \<in> set ms. message_ok m)"
  using assms
proof (induction bs arbitrary: p p1 ms)
  case (Cons b bs)
  obtain p2 ms2 where b: "json_message_parser_feed b p = (p2, ms2)" by fastforce
  obtain p3 ms3 where bs: "feed_all bs p2 = (p3, ms3)" by fastforce
  from b bs Cons.prems(1) have "p1 = p3" "ms = ms2 @ ms3" by simp_all
  with parser_feed_ok [OF b Cons.prems(2,3)] Cons.IH [OF bs] show ?case by auto
qed simp

text \<open>C28: [json_stream_bounded] Whatever a client sends, in whatever pieces, the reader holds a token of at most 64 MB and
  a message of at most 64 MB with at most 1024 open braces and 1024 open brackets, and a message handed on is not
  empty and holds at most 128 MB of text and a byte.\<close>

theorem json_stream_bounded:
  fixes bs :: "string list"
  defines "p \<equiv> fst (feed_all bs json_message_parser_init)" and "ms \<equiv> snd (feed_all bs json_message_parser_init)"
  shows "length (lx_token (jp_lexer p)) \<le> 64 * 2 ^ 20 \<and> text_length (jp_tokens p) \<le> 64 * 2 ^ 20 \<and>
    0 \<le> brace_count p \<and> brace_count p \<le> 1024 \<and> 0 \<le> bracket_count p \<and> bracket_count p \<le> 1024 \<and>
    list_all (\<lambda>m. case m of None \<Rightarrow> True | Some ts \<Rightarrow> ts \<noteq> [] \<and> text_length ts \<le> 128 * 2 ^ 20 + 1) ms"
proof -
  have "feed_all bs json_message_parser_init = (p, ms)" by (simp add: p_def ms_def)
  then have "streamer_ok p \<and> length (lx_token (jp_lexer p)) \<le> MAX_TOKEN_SIZE \<and> (\<forall>m \<in> set ms. message_ok m)"
    by (rule feed_all_ok) (simp_all add: json_message_parser_init_def json_lexer_init_def streamer_ok_def)
  then show ?thesis
    by (auto simp: streamer_ok_def list_all_iff message_ok_def split: option.splits)
qed

section \<open>Resynchronisation\<close>

text \<open>The byte 255 is in no row of the table.\<close>

lemma no_entry_255: "json_lexer s 255 = State IN_ERROR"
  by (cases s) (simp_all add: ucode_def terminal_def digit_ch_def digit19_ch_def hex_ch_def space_ch_def text_ch_def
      lower_ch_def)

text \<open>[json_resync] A byte 255 ends whatever the client sent before it: the reader reports bad input once and is as
  it was at the start, except for the position it counts.\<close>

theorem json_resync:
  "\<exists>x y. json_message_parser_feed [CHR 0xFF] p =
     (json_message_parser_init\<lparr>jp_lexer := json_lexer_init\<lparr>lx_x := x, lx_y := y\<rparr>\<rparr>, [None])"
proof -
  let ?lx = "jp_lexer p\<lparr>lx_x := c_int (lx_x (jp_lexer p) + 1)\<rparr>"
  have code: "json_lexer (lx_state ?lx) (byte CHR 0xFF) = State IN_ERROR" using no_entry_255 by simp
  have "\<exists>lx. lexer_turns CHR 0xFF False ?lx = (lexer_restart ?lx, [lexer_emit (Token JSON_ERROR) lx])"
    using code by (subst lexer_turns.simps) (auto simp: Let_def lexer_restart_def simp del: json_lexer.simps)
  then obtain lx where "lexer_turns CHR 0xFF False ?lx = (lexer_restart ?lx, [lexer_emit (Token JSON_ERROR) lx])" ..
  then have "json_lexer_feed_char CHR 0xFF False (jp_lexer p) = (lexer_restart ?lx, [lexer_emit (Token JSON_ERROR) lx])"
    by (simp add: json_lexer_feed_char_def Let_def lexer_restart_def)
  then show ?thesis
    by (intro exI [of _ "lx_x ?lx"] exI [of _ "lx_y ?lx"])
      (simp add: json_message_parser_feed_def json_message_process_token_def message_emit_def Let_def lexer_emit_def
        count_operator_def lexer_restart_def json_message_parser_init_def json_lexer_init_def)
qed

section \<open>Quotes\<close>

text \<open>[json_single_quoted] In a string in single quotes a backslash escaped by a backslash puts the lexer into a string
  in double quotes: the closing single quote is taken as text, and no token comes of it. In double quotes the
  same string is a token.\<close>

theorem json_single_quoted:
  "lx_state (fst (json_lexer_feed [CHR 0x27, CHR 0x5C, CHR 0x5C, CHR 0x27] json_lexer_init)) = IN_DQ_STRING \<and>
   snd (json_lexer_feed [CHR 0x27, CHR 0x5C, CHR 0x5C, CHR 0x27] json_lexer_init) = [] \<and>
   map tk_key (snd (json_lexer_feed [CHR 0x22, CHR 0x5C, CHR 0x5C, CHR 0x22] json_lexer_init)) =
     [(Token JSON_STRING, [CHR 0x22, CHR 0x5C, CHR 0x5C, CHR 0x22])]"
  by (simp add: json_lexer_feed_char_def lexer_turns.simps json_lexer_init_def TERMINAL_NEEDED_LOOKAHEAD_def
      lexer_restart_def digit_ch_def digit19_ch_def space_ch_def lower_ch_def text_ch_def)

end
