(* ===== verification/JsonParser.thy ===== *)
theory JsonParser
  imports JsonLexer Qdict "HOL-Library.Monad_Syntax"
begin

text \<open>
  The reader of the control protocol's messages, second half: the recursive parser of \<^verbatim>\<open>json-parser.c\<close> from the
  tokens of a message to an object, with the objects of \<^verbatim>\<open>qint.c\<close>, \<^verbatim>\<open>qstring.c\<close>, \<^verbatim>\<open>qlist.c\<close>, \<^verbatim>\<open>qbool.c\<close> and \<^verbatim>\<open>qfloat.c\<close>. The parser's
  argument list is null, as it is for messages read from a client; a list that is copied, popped and thrown away or
  kept is passed on as a value. A result carries the last parse error. The recursion has a depth bound, which
  \<open>parse_fuel\<close> is shown to satisfy; the outermost \<open>None\<close> says that it was exceeded. The value of a floating point
  literal is what the C library's \<open>strtod\<close> says, a parameter; a double is its 64 bits.
\<close>

section \<open>Objects\<close>

datatype QObject =
    QInt "64 word" | QString string | QDict_obj "QObject QDict" | QList "QObject list" | QFloat "64 word" | QBool int | QError

text \<open>A C string appended to a string.\<close>

definition c_text :: "string \<Rightarrow> string" where
  "c_text s = takeWhile (\<lambda>c. c \<noteq> CHR 0x00) s"

definition qstring_append :: "string \<Rightarrow> string \<Rightarrow> string" where
  "qstring_append str s = str @ c_text s"

definition chr8 :: "16 word \<Rightarrow> char" where
  "chr8 w = char_of (unat w)"

section \<open>Literals\<close>

definition wchar_to_utf8 :: "16 word \<Rightarrow> string" where
  "wchar_to_utf8 wchar =
     (if wchar \<le> 0x007F then [chr8 (wchar AND 0x7F), CHR 0x00]
      else if wchar \<le> 0x07FF
      then [chr8 (0xC0 OR (drop_bit 6 wchar AND 0x1F)), chr8 (0x80 OR (wchar AND 0x3F)), CHR 0x00]
      else [chr8 (0xE0 OR (drop_bit 12 wchar AND 0x0F)), chr8 (0x80 OR (drop_bit 6 wchar AND 0x3F)),
            chr8 (0x80 OR (wchar AND 0x3F)), CHR 0x00])"

definition hex2decimal :: "char \<Rightarrow> int" where
  "hex2decimal c =
     (if digit_ch (byte c) then int (byte c) - 48
      else if byte CHR ''a'' \<le> byte c \<and> byte c \<le> byte CHR ''f'' then 10 + (int (byte c) - 97)
      else if byte CHR ''A'' \<le> byte c \<and> byte c \<le> byte CHR ''F'' then 10 + (int (byte c) - 65)
      else - 1)"

text \<open>The loop over the four digits, with the number of digits still to come.\<close>

fun hex_digits :: "nat \<Rightarrow> string \<Rightarrow> 16 word \<Rightarrow> (16 word \<times> string) option" where
  "hex_digits 0 ptr w = Some (w, ptr)"
| "hex_digits (Suc k) [] w = None"
| "hex_digits (Suc k) (c # ptr) w =
     (if hex_ch (byte c) then hex_digits k ptr (w OR word_of_int (hex2decimal c * 2 ^ (k * 4))) else None)"

lemma hex_digits_length: "hex_digits k ptr w = Some (v, rest) \<Longrightarrow> length rest \<le> length ptr"
  by (induction k ptr w rule: hex_digits.induct) (auto split: if_splits)

definition escaped_char :: "char \<Rightarrow> char option" where
  "escaped_char c =
     (if c = CHR 0x22 \<or> c = CHR 0x27 \<or> c = CHR 0x5C \<or> c = CHR ''/'' then Some c
      else if c = CHR ''b'' then Some CHR 0x08
      else if c = CHR ''f'' then Some CHR 0x0C
      else if c = CHR ''n'' then Some CHR 0x0A
      else if c = CHR ''r'' then Some CHR 0x0D
      else if c = CHR ''t'' then Some CHR 0x09
      else None)"

function unescape :: "bool \<Rightarrow> string \<Rightarrow> string \<Rightarrow> string + string" where
  "unescape double_quote [] str = Inr str"
| "unescape double_quote (c # ptr) str =
     (if c = CHR 0x00 \<or> double_quote \<and> c = CHR 0x22 \<or> \<not> double_quote \<and> c = CHR 0x27 then Inr str
      else if c = CHR 0x5C then
        (case ptr of
           [] \<Rightarrow> Inl ''invalid escape sequence in string''
         | e # rest \<Rightarrow>
             (case escaped_char e of
                Some x \<Rightarrow> unescape double_quote rest (qstring_append str [x])
              | None \<Rightarrow>
                  if e = CHR ''u''
                  then (case hex_digits 4 rest 0 of
                          None \<Rightarrow> Inl ''invalid hex escape sequence in string''
                        | Some (w, rest1) \<Rightarrow> unescape double_quote rest1 (qstring_append str (wchar_to_utf8 w)))
                  else Inl ''invalid escape sequence in string''))
      else unescape double_quote ptr (qstring_append str [c]))"
  by pat_completeness auto
termination by (relation "measure (\<lambda>(_, ptr, _). length ptr)") (auto dest: hex_digits_length)

definition qstring_from_escaped_str :: "string \<Rightarrow> string + string" where
  "qstring_from_escaped_str ptr = (case ptr of [] \<Rightarrow> Inr [] | c # rest \<Rightarrow> unescape (c = CHR 0x22) rest [])"

text \<open>\<open>strtoll\<close> in base 10, which stops at the ends of its range.\<close>

definition digits_val :: "string \<Rightarrow> int" where
  "digits_val s = foldl (\<lambda>a c. a * 10 + (int (byte c) - 48)) 0 (takeWhile (\<lambda>c. digit_ch (byte c)) s)"

definition strtoll :: "string \<Rightarrow> 64 word" where
  "strtoll s0 =
     (let s = dropWhile (\<lambda>c. space_ch (byte c) \<or> c = CHR 0x0B \<or> c = CHR 0x0C) s0;
          v = (case s of
                 [] \<Rightarrow> 0
               | c # r \<Rightarrow> if c = CHR ''-'' then - digits_val r else if c = CHR ''+'' then digits_val r else digits_val s)
      in word_of_int (max (- (2 ^ 63)) (min (2 ^ 63 - 1) v)))"

section \<open>The parser\<close>

definition token_is_operator :: "JSONToken \<Rightarrow> char \<Rightarrow> bool" where
  "token_is_operator t op \<longleftrightarrow> tk_type t = Token JSON_OPERATOR \<and> tk_text t = [op]"

definition token_is_keyword :: "JSONToken \<Rightarrow> string \<Rightarrow> bool" where
  "token_is_keyword t k \<longleftrightarrow> tk_type t = Token JSON_KEYWORD \<and> tk_text t = k"

definition parse_error :: "string \<Rightarrow> string option" where
  "parse_error msg = Some (take 1023 msg)"

type_synonym 'a parsed = "'a option \<times> JSONToken list \<times> string option"

definition parse_keyword :: "JSONToken list \<Rightarrow> string option \<Rightarrow> QObject parsed" where
  "parse_keyword tokens err =
     (case tokens of
        [] \<Rightarrow> (None, tokens, err)
      | token # working \<Rightarrow>
          if tk_type token \<noteq> Token JSON_KEYWORD then (None, tokens, err)
          else if token_is_keyword token ''true'' then (Some (QBool 1), working, err)
          else if token_is_keyword token ''false'' then (Some (QBool 0), working, err)
          else (None, tokens, parse_error (''invalid keyword `'' @ tk_text token @ [CHR 0x27])))"

text \<open>Without arguments there is nothing an escape could stand for.\<close>

definition parse_escape :: "JSONToken list \<Rightarrow> string option \<Rightarrow> QObject parsed" where
  "parse_escape tokens err = (None, tokens, err)"

text \<open>A string that cannot be read is a null object, and its token is taken all the same.\<close>

definition parse_literal :: "(string \<Rightarrow> 64 word) \<Rightarrow> JSONToken list \<Rightarrow> string option \<Rightarrow> QObject parsed" where
  "parse_literal strtod tokens err =
     (case tokens of
        [] \<Rightarrow> (None, tokens, err)
      | token # working \<Rightarrow>
          if tk_type token = Token JSON_STRING
          then (case qstring_from_escaped_str (tk_text token) of
                  Inl msg \<Rightarrow> (None, working, parse_error msg)
                | Inr s \<Rightarrow> (Some (QString s), working, err))
          else if tk_type token = Token JSON_INTEGER then (Some (QInt (strtoll (tk_text token))), working, err)
          else if tk_type token = Token JSON_FLOAT then (Some (QFloat (strtod (tk_text token))), working, err)
          else (None, tokens, err))"

text \<open>The parsers of the parts take the parser of the values inside as an argument. The pairs of a dictionary and the
  items of a list are read by loops that take the first one before the loop and the others in it; the function
  reads one and goes on, for at most \<open>n\<close> turns. On failure the caller keeps its own tokens.\<close>

type_synonym value_parser = "JSONToken list \<Rightarrow> string option \<Rightarrow> QObject parsed option"

definition parse_pair ::
  "value_parser \<Rightarrow> QObject QDict \<Rightarrow> JSONToken list \<Rightarrow> string option \<Rightarrow> QObject QDict parsed option" where
  "parse_pair parse dict tokens err =
     (if tokens = [] then Some (None, tokens, parse_error ''premature EOI'')
      else do { (key, working, err1) \<leftarrow> parse tokens err;
        case key of
          Some (QString k) \<Rightarrow>
            (case working of
               [] \<Rightarrow> Some (None, tokens, parse_error ''premature EOI'')
             | token # working1 \<Rightarrow>
                 if \<not> token_is_operator token CHR '':'' then Some (None, tokens, parse_error ''missing : in object pair'')
                 else do { (val, working2, err2) \<leftarrow> parse working1 err1;
                           case val of
                             None \<Rightarrow> Some (None, tokens, parse_error ''Missing value in dict'')
                           | Some v \<Rightarrow> Some (Some (qdict_put k v dict), working2, err2) })
        | _ \<Rightarrow> Some (None, tokens, parse_error ''key is not a string in object'') })"

primrec parse_pairs ::
  "nat \<Rightarrow> value_parser \<Rightarrow> QObject QDict \<Rightarrow> JSONToken list \<Rightarrow> string option \<Rightarrow> QObject QDict parsed option" where
  "parse_pairs 0 parse dict tokens err = None"
| "parse_pairs (Suc n) parse dict tokens err =
     do { (dict1, working, err1) \<leftarrow> parse_pair parse dict tokens err;
          case dict1 of
            None \<Rightarrow> Some (None, tokens, err1)
          | Some d \<Rightarrow>
              (case working of
                 [] \<Rightarrow> Some (None, tokens, parse_error ''premature EOI'')
               | token # working1 \<Rightarrow>
                   if token_is_operator token CHR 0x7D then Some (Some d, working1, err1)
                   else if \<not> token_is_operator token CHR '','' then Some (None, tokens, parse_error ''expected separator in dict'')
                   else parse_pairs n parse d working1 err1) }"

primrec parse_items ::
  "nat \<Rightarrow> value_parser \<Rightarrow> QObject list \<Rightarrow> JSONToken list \<Rightarrow> string option \<Rightarrow> QObject list parsed option" where
  "parse_items 0 parse list tokens err = None"
| "parse_items (Suc n) parse list tokens err =
     do { (obj, working, err1) \<leftarrow> parse tokens err;
          case obj of
            None \<Rightarrow> Some (None, tokens, parse_error ''expecting value'')
          | Some v \<Rightarrow>
              (case working of
                 [] \<Rightarrow> Some (None, tokens, parse_error ''premature EOI'')
               | token # working1 \<Rightarrow>
                   if token_is_operator token CHR '']'' then Some (Some (list @ [v]), working1, err1)
                   else if \<not> token_is_operator token CHR '','' then Some (None, tokens, parse_error ''expected separator in list'')
                   else parse_items n parse (list @ [v]) working1 err1) }"

definition parse_object :: "value_parser \<Rightarrow> value_parser" where
  "parse_object parse tokens err =
     (case tokens of
        [] \<Rightarrow> Some (None, tokens, err)
      | token # working \<Rightarrow>
          if \<not> token_is_operator token CHR 0x7B then Some (None, tokens, err)
          else (case working of
              [] \<Rightarrow> Some (None, tokens, parse_error ''premature EOI'')
            | peek # working1 \<Rightarrow>
                if token_is_operator peek CHR 0x7D then Some (Some (QDict_obj qdict_new), working1, err)
                else do { (dict, working2, err1) \<leftarrow> parse_pairs (length working) parse qdict_new working err;
                          case dict of
                            None \<Rightarrow> Some (None, tokens, err1)
                          | Some d \<Rightarrow> Some (Some (QDict_obj d), working2, err1) }))"

definition parse_array :: "value_parser \<Rightarrow> value_parser" where
  "parse_array parse tokens err =
     (case tokens of
        [] \<Rightarrow> Some (None, tokens, err)
      | token # working \<Rightarrow>
          if \<not> token_is_operator token CHR ''['' then Some (None, tokens, err)
          else (case working of
              [] \<Rightarrow> Some (None, tokens, parse_error ''premature EOI'')
            | peek # working1 \<Rightarrow>
                if token_is_operator peek CHR '']'' then Some (Some (QList []), working1, err)
                else do { (list, working2, err1) \<leftarrow> parse_items (length working) parse [] working err;
                          case list of
                            None \<Rightarrow> Some (None, tokens, err1)
                          | Some l \<Rightarrow> Some (Some (QList l), working2, err1) }))"

primrec parse_value :: "nat \<Rightarrow> (string \<Rightarrow> 64 word) \<Rightarrow> value_parser" where
  "parse_value 0 strtod = (\<lambda>tokens err. None)"
| "parse_value (Suc n) strtod = (\<lambda>tokens err.
     do { (obj1, tokens1, err1) \<leftarrow> parse_object (parse_value n strtod) tokens err;
          if obj1 \<noteq> None then Some (obj1, tokens1, err1)
          else do { (obj2, tokens2, err2) \<leftarrow> parse_array (parse_value n strtod) tokens1 err1;
            if obj2 \<noteq> None then Some (obj2, tokens2, err2)
            else (let (obj3, tokens3, err3) = parse_escape tokens2 err2 in
              if obj3 \<noteq> None then Some (obj3, tokens3, err3)
              else (let (obj4, tokens4, err4) = parse_keyword tokens3 err3 in
                if obj4 \<noteq> None then Some (obj4, tokens4, err4)
                else Some (parse_literal strtod tokens4 err4))) } })"

definition parse_fuel :: "JSONToken list \<Rightarrow> nat" where
  "parse_fuel tokens = Suc (length tokens)"

text \<open>The object and the error; no tokens at all is a null list.\<close>

definition json_parser_parse_err ::
  "(string \<Rightarrow> 64 word) \<Rightarrow> JSONToken list option \<Rightarrow> (QObject option \<times> string option) option" where
  "json_parser_parse_err strtod tokens =
     (case tokens of
        None \<Rightarrow> Some (None, None)
      | Some ts \<Rightarrow> do { (obj, working, err) \<leftarrow> parse_value (parse_fuel ts) strtod ts None; Some (obj, err) })"

section \<open>The grammar\<close>

text \<open>A message is what the grammar derives for an object: tokens are compared without their positions. The pairs of a
  dictionary are entered in their order, so that of a key given twice the last value counts.\<close>

type_synonym key_token = "lexer_code \<times> string"

abbreviation operator :: "char \<Rightarrow> key_token" where
  "operator c \<equiv> (Token JSON_OPERATOR, [c])"

inductive derives :: "(string \<Rightarrow> 64 word) \<Rightarrow> QObject \<Rightarrow> key_token list \<Rightarrow> bool"
  and members :: "(string \<Rightarrow> 64 word) \<Rightarrow> (string \<times> QObject) list \<Rightarrow> key_token list \<Rightarrow> bool"
  and elements :: "(string \<Rightarrow> 64 word) \<Rightarrow> QObject list \<Rightarrow> key_token list \<Rightarrow> bool"
  for strtod
where
  Int: "derives strtod (QInt (strtoll x)) [(Token JSON_INTEGER, x)]"
| Float: "derives strtod (QFloat (strtod x)) [(Token JSON_FLOAT, x)]"
| Str: "qstring_from_escaped_str x = Inr s \<Longrightarrow> derives strtod (QString s) [(Token JSON_STRING, x)]"
| True: "derives strtod (QBool 1) [(Token JSON_KEYWORD, ''true'')]"
| False: "derives strtod (QBool 0) [(Token JSON_KEYWORD, ''false'')]"
| Empty_dict: "derives strtod (QDict_obj qdict_new) [operator CHR 0x7B, operator CHR 0x7D]"
| Dict: "members strtod kvs us \<Longrightarrow>
    derives strtod (QDict_obj (qd.put_all kvs qdict_new)) (operator CHR 0x7B # us @ [operator CHR 0x7D])"
| Empty_list: "derives strtod (QList []) [operator CHR ''['', operator CHR '']'']"
| List: "elements strtod vs us \<Longrightarrow> derives strtod (QList vs) (operator CHR ''['' # us @ [operator CHR '']''])"
| Member: "derives strtod (QString k) ks \<Longrightarrow> derives strtod v vs \<Longrightarrow>
    members strtod [(k, v)] (ks @ operator CHR '':'' # vs)"
| Members: "derives strtod (QString k) ks \<Longrightarrow> derives strtod v vs \<Longrightarrow> members strtod kvs us \<Longrightarrow>
    members strtod ((k, v) # kvs) (ks @ operator CHR '':'' # vs @ operator CHR '','' # us)"
| Element: "derives strtod v vs \<Longrightarrow> elements strtod [v] vs"
| Elements: "derives strtod v vs \<Longrightarrow> elements strtod ws us \<Longrightarrow>
    elements strtod (v # ws) (vs @ operator CHR '','' # us)"

lemma token_is_operator_key: "token_is_operator t c \<longleftrightarrow> tk_key t = operator c"
  by (simp add: token_is_operator_def tk_key_def)

lemma derives_nonempty:
  "derives strtod v us \<Longrightarrow> us \<noteq> []" "members strtod kvs us \<Longrightarrow> us \<noteq> []" "elements strtod vs us \<Longrightarrow> us \<noteq> []"
  by (induction rule: derives_members_elements.inducts) simp_all

section \<open>What the parser accepts is in the grammar\<close>

definition reads :: "('a \<Rightarrow> key_token list \<Rightarrow> bool) \<Rightarrow> 'a parsed option \<Rightarrow> JSONToken list \<Rightarrow> string option \<Rightarrow> bool" where
  "reads G r ts err \<longleftrightarrow> (\<forall>v w err1. r = Some (Some v, w, err1) \<longrightarrow> err1 = err \<and>
     (\<exists>us. ts = us @ w \<and> G v (map tk_key us)))"

definition sound :: "(string \<Rightarrow> 64 word) \<Rightarrow> value_parser \<Rightarrow> bool" where
  "sound strtod parse \<longleftrightarrow> (\<forall>ts err. reads (derives strtod) (parse ts err) ts err)"

lemma readsI:
  "(\<And>v w err1. r = Some (Some v, w, err1) \<Longrightarrow> err1 = err \<and> (\<exists>us. ts = us @ w \<and> G v (map tk_key us))) \<Longrightarrow> reads G r ts err"
  by (simp add: reads_def)

lemma soundD:
  assumes "sound strtod parse" and "parse ts err = Some (Some v, w, err1)"
  obtains us where "err1 = err" "ts = us @ w" "derives strtod v (map tk_key us)"
  using assms unfolding sound_def reads_def by blast

lemma parse_pair_reads:
  assumes "sound strtod parse" and "parse_pair parse d ts err = Some (Some d1, w, err1)"
  shows "err1 = err \<and> (\<exists>k v ks vs us. ts = us @ w \<and> d1 = qdict_put k v d \<and> map tk_key us = ks @ operator CHR '':'' # vs \<and>
    derives strtod (QString k) ks \<and> derives strtod v vs)"
proof -
  from assms(2) obtain k w1 e1 t w2 v where k: "parse ts err = Some (Some (QString k), w1, e1)" and w1: "w1 = t # w2"
    and t: "token_is_operator t CHR '':''" and v: "parse w2 e1 = Some (Some v, w, err1)" and d1: "d1 = qdict_put k v d"
    by (auto simp: parse_pair_def split: if_splits Option.bind_splits option.splits QObject.splits list.splits)
  from soundD [OF assms(1) k] obtain us where us: "e1 = err" "ts = us @ w1" "derives strtod (QString k) (map tk_key us)" .
  from soundD [OF assms(1) v] obtain vs where vs: "err1 = e1" "w2 = vs @ w" "derives strtod v (map tk_key vs)" .
  have "ts = (us @ t # vs) @ w" "map tk_key (us @ t # vs) = map tk_key us @ operator CHR '':'' # map tk_key vs"
    using us vs w1 t by (simp_all add: token_is_operator_key)
  with us vs d1 show ?thesis by blast
qed

lemma parse_pairs_reads:
  assumes "sound strtod parse"
  shows "parse_pairs n parse d ts err = Some (Some d1, w, err1) \<Longrightarrow>
    err1 = err \<and> (\<exists>kvs us ms. ts = us @ w \<and> d1 = qd.put_all kvs d \<and> map tk_key us = ms @ [operator CHR 0x7D] \<and>
      members strtod kvs ms)"
proof (induction n arbitrary: d ts err)
  case (Suc n)
  from Suc.prems obtain d2 w1 e1 t w2 where p: "parse_pair parse d ts err = Some (Some d2, w1, e1)" and w1: "w1 = t # w2"
    and rest: "if token_is_operator t CHR 0x7D then d1 = d2 \<and> w = w2 \<and> err1 = e1
      else token_is_operator t CHR '','' \<and> parse_pairs n parse d2 w2 e1 = Some (Some d1, w, err1)"
    by (auto split: if_splits Option.bind_splits option.splits list.splits)
  from parse_pair_reads [OF assms p] obtain k v ks vs us where e1: "e1 = err" and ts: "ts = us @ w1"
    and d2: "d2 = qdict_put k v d" and keys: "map tk_key us = ks @ operator CHR '':'' # vs"
    and kv: "derives strtod (QString k) ks" "derives strtod v vs" by blast
  show ?case
  proof (cases "token_is_operator t CHR 0x7D")
    case True
    with rest e1 ts w1 d2 keys Member [OF kv]
    show ?thesis
      by (intro conjI exI [of _ "[(k, v)]"] exI [of _ "us @ [t]"] exI [of _ "ks @ operator CHR '':'' # vs"])
        (simp_all add: token_is_operator_key)
  next
    case False
    with rest have t: "token_is_operator t CHR '',''" and p1: "parse_pairs n parse d2 w2 e1 = Some (Some d1, w, err1)" by simp_all
    from Suc.IH [OF p1] obtain kvs us1 ms where e: "err1 = e1" and w2: "w2 = us1 @ w" and d1: "d1 = qd.put_all kvs d2"
      and keys1: "map tk_key us1 = ms @ [operator CHR 0x7D]" and m: "members strtod kvs ms" by blast
    from Members [OF kv m] e e1 ts w1 w2 d1 d2 keys keys1 t
    show ?thesis
      by (intro conjI exI [of _ "(k, v) # kvs"] exI [of _ "us @ t # us1"]
          exI [of _ "ks @ operator CHR '':'' # vs @ operator CHR '','' # ms"])
        (simp_all add: token_is_operator_key)
  qed
qed simp

lemma parse_items_reads:
  assumes "sound strtod parse"
  shows "parse_items n parse vs0 ts err = Some (Some vs1, w, err1) \<Longrightarrow>
    err1 = err \<and> (\<exists>vs us ms. ts = us @ w \<and> vs1 = vs0 @ vs \<and> map tk_key us = ms @ [operator CHR '']''] \<and>
      elements strtod vs ms)"
proof (induction n arbitrary: vs0 ts err)
  case (Suc n)
  from Suc.prems obtain v w1 e1 t w2 where p: "parse ts err = Some (Some v, w1, e1)" and w1: "w1 = t # w2"
    and rest: "if token_is_operator t CHR '']'' then vs1 = vs0 @ [v] \<and> w = w2 \<and> err1 = e1
      else token_is_operator t CHR '','' \<and> parse_items n parse (vs0 @ [v]) w2 e1 = Some (Some vs1, w, err1)"
    by (auto split: if_splits Option.bind_splits option.splits list.splits)
  from soundD [OF assms p] obtain us where e1: "e1 = err" and ts: "ts = us @ w1" and v: "derives strtod v (map tk_key us)" .
  show ?case
  proof (cases "token_is_operator t CHR '']''")
    case True
    with rest e1 ts w1 Element [OF v]
    show ?thesis
      by (intro conjI exI [of _ "[v]"] exI [of _ "us @ [t]"] exI [of _ "map tk_key us"]) (simp_all add: token_is_operator_key)
  next
    case False
    with rest have t: "token_is_operator t CHR '',''" and p1: "parse_items n parse (vs0 @ [v]) w2 e1 = Some (Some vs1, w, err1)"
      by simp_all
    from Suc.IH [OF p1] obtain vs us1 ms where e: "err1 = e1" and w2: "w2 = us1 @ w" and vs1: "vs1 = (vs0 @ [v]) @ vs"
      and keys1: "map tk_key us1 = ms @ [operator CHR '']'']" and m: "elements strtod vs ms" by blast
    from Elements [OF v m] e e1 ts w1 w2 vs1 keys1 t
    show ?thesis
      by (intro conjI exI [of _ "v # vs"] exI [of _ "us @ t # us1"] exI [of _ "map tk_key us @ operator CHR '','' # ms"])
        (simp_all add: token_is_operator_key)
  qed
qed simp

lemma parse_object_reads:
  assumes "sound strtod parse"
  shows "reads (derives strtod) (parse_object parse ts err) ts err"
proof (rule readsI)
  fix v w err1 assume r: "parse_object parse ts err = Some (Some v, w, err1)"
  then obtain t p ts1 where ts: "ts = t # p # ts1" and t: "tk_key t = operator CHR 0x7B"
    by (auto simp: parse_object_def token_is_operator_key split: list.splits if_splits)
  show "err1 = err \<and> (\<exists>us. ts = us @ w \<and> derives strtod v (map tk_key us))"
  proof (cases "token_is_operator p CHR 0x7D")
    case True
    then have "ts = [t, p] @ w" "map tk_key [t, p] = [operator CHR 0x7B, operator CHR 0x7D]" "v = QDict_obj qdict_new" "err1 = err"
      using r ts t by (simp_all add: parse_object_def token_is_operator_key)
    with Empty_dict show ?thesis by metis
  next
    case False
    with r ts t obtain d where v: "v = QDict_obj d"
      and p: "parse_pairs (length (p # ts1)) parse qdict_new (p # ts1) err = Some (Some d, w, err1)"
      by (auto simp: parse_object_def token_is_operator_key simp del: parse_pairs.simps
          split: Option.bind_splits option.splits)
    from parse_pairs_reads [OF assms p] obtain kvs us ms where e: "err1 = err" and us: "p # ts1 = us @ w"
      and d: "d = qd.put_all kvs qdict_new" and keys: "map tk_key us = ms @ [operator CHR 0x7D]" and m: "members strtod kvs ms"
      by blast
    from Dict [OF m] e us d v keys ts t show ?thesis by (intro conjI exI [of _ "t # us"]) simp_all
  qed
qed

lemma parse_array_reads:
  assumes "sound strtod parse"
  shows "reads (derives strtod) (parse_array parse ts err) ts err"
proof (rule readsI)
  fix v w err1 assume r: "parse_array parse ts err = Some (Some v, w, err1)"
  then obtain t p ts1 where ts: "ts = t # p # ts1" and t: "tk_key t = operator CHR ''[''"
    by (auto simp: parse_array_def token_is_operator_key split: list.splits if_splits)
  show "err1 = err \<and> (\<exists>us. ts = us @ w \<and> derives strtod v (map tk_key us))"
  proof (cases "token_is_operator p CHR '']''")
    case True
    then have "ts = [t, p] @ w" "map tk_key [t, p] = [operator CHR ''['', operator CHR '']'']" "v = QList []" "err1 = err"
      using r ts t by (simp_all add: parse_array_def token_is_operator_key)
    with Empty_list show ?thesis by metis
  next
    case False
    with r ts t obtain l where v: "v = QList l"
      and p: "parse_items (length (p # ts1)) parse [] (p # ts1) err = Some (Some l, w, err1)"
      by (auto simp: parse_array_def token_is_operator_key simp del: parse_items.simps
          split: Option.bind_splits option.splits)
    from parse_items_reads [OF assms p] obtain vs us ms where e: "err1 = err" and us: "p # ts1 = us @ w"
      and l: "l = [] @ vs" and keys: "map tk_key us = ms @ [operator CHR '']'']" and m: "elements strtod vs ms"
      by blast
    from List [OF m] e us l v keys ts t show ?thesis by (intro conjI exI [of _ "t # us"]) simp_all
  qed
qed

lemma parse_keyword_reads: "reads (derives strtod) (Some (parse_keyword ts err)) ts err"
proof (rule readsI)
  fix v w err1 assume "Some (parse_keyword ts err) = Some (Some v, w, err1)"
  then obtain t where "ts = [t] @ w" "err1 = err" "v = QBool 1 \<and> tk_key t = (Token JSON_KEYWORD, ''true'') \<or>
      v = QBool 0 \<and> tk_key t = (Token JSON_KEYWORD, ''false'')"
    by (auto simp: parse_keyword_def token_is_keyword_def tk_key_def split: list.splits if_splits)
  with derives_members_elements.True derives_members_elements.False
  show "err1 = err \<and> (\<exists>us. ts = us @ w \<and> derives strtod v (map tk_key us))" by (intro conjI exI [of _ "[t]"]) auto
qed

lemma parse_literal_reads: "reads (derives strtod) (Some (parse_literal strtod ts err)) ts err"
proof (rule readsI)
  fix v w err1 assume "Some (parse_literal strtod ts err) = Some (Some v, w, err1)"
  then obtain t where "ts = [t] @ w" "err1 = err" "derives strtod v [tk_key t]"
    by (auto simp: parse_literal_def tk_key_def intro: derives_members_elements.intros split: list.splits if_splits sum.splits)
  then show "err1 = err \<and> (\<exists>us. ts = us @ w \<and> derives strtod v (map tk_key us))" by (intro conjI exI [of _ "[t]"]) simp_all
qed

text \<open>A parser that fails on its first token changes nothing, and one that fails later has read an opening brace or
  bracket that no other parser takes.\<close>

definition opens :: "JSONToken list \<Rightarrow> char \<Rightarrow> bool" where
  "opens ts c \<longleftrightarrow> (\<exists>t r. ts = t # r \<and> tk_key t = operator c)"

lemma parse_object_fails:
  "parse_object parse ts err = Some (None, w, err1) \<Longrightarrow> w = ts \<and> (err1 = err \<or> opens ts CHR 0x7B)"
  by (auto simp: parse_object_def opens_def token_is_operator_key
      split: list.splits if_splits Option.bind_splits option.splits)

lemma parse_array_fails:
  "parse_array parse ts err = Some (None, w, err1) \<Longrightarrow> w = ts \<and> (err1 = err \<or> opens ts CHR ''['')"
  by (auto simp: parse_array_def opens_def token_is_operator_key
      split: list.splits if_splits Option.bind_splits option.splits)

lemma parse_keyword_fails:
  "parse_keyword ts err = (None, w, err1) \<Longrightarrow> w = ts \<and> (err1 = err \<or> (\<exists>t r. ts = t # r \<and> tk_type t = Token JSON_KEYWORD))"
  by (auto simp: parse_keyword_def split: list.splits if_splits)

lemma no_literal: "ts = t # r \<Longrightarrow> tk_type t = Token JSON_OPERATOR \<or> tk_type t = Token JSON_KEYWORD \<Longrightarrow>
    parse_literal strtod ts err = (None, ts, err)"
  by (auto simp: parse_literal_def)

lemma opens_none:
  assumes "opens ts c"
  shows "parse_keyword ts err = (None, ts, err)" "parse_literal strtod ts err = (None, ts, err)"
    "c \<noteq> CHR ''['' \<Longrightarrow> parse_array parse ts err = Some (None, ts, err)"
  using assms by (auto simp: opens_def parse_keyword_def parse_literal_def parse_array_def token_is_operator_key tk_key_def)

lemma reads_chain: "reads G r ts err \<Longrightarrow> r = Some (Some v, w, err1) \<Longrightarrow> err1 = err \<and> (\<exists>us. ts = us @ w \<and> G v (map tk_key us))"
  by (simp add: reads_def)

lemma parse_value_sound: "sound strtod (parse_value n strtod)"
proof (induction n)
  case 0
  then show ?case by (simp add: sound_def reads_def)
next
  case (Suc n)
  let ?p = "parse_value n strtod"
  show ?case unfolding sound_def
  proof (intro allI readsI)
    fix ts err v w err1 assume r: "parse_value (Suc n) strtod ts err = Some (Some v, w, err1)"
    from r obtain o1 t1 e1 where ob: "parse_object ?p ts err = Some (o1, t1, e1)" by (auto split: Option.bind_splits)
    show "err1 = err \<and> (\<exists>us. ts = us @ w \<and> derives strtod v (map tk_key us))"
    proof (cases o1)
      case (Some x)
      with r ob have "parse_object ?p ts err = Some (Some v, w, err1)" by simp
      with parse_object_reads [OF Suc.IH] show ?thesis by (rule reads_chain)
    next
      case None
      with parse_object_fails [of ?p ts err t1 e1] ob have t1: "t1 = ts" and e1: "e1 = err \<or> opens ts CHR 0x7B" by simp_all
      from r ob None t1 obtain o2 t2 e2 where ar: "parse_array ?p ts e1 = Some (o2, t2, e2)" by (auto split: Option.bind_splits)
      have ne: "\<not> opens ts CHR 0x7B"
        using r ob None t1 by (auto simp: opens_none parse_escape_def)
      then have e1: "e1 = err" using e1 by simp
      show ?thesis
      proof (cases o2)
        case (Some x)
        with r ob None t1 e1 ar have "parse_array ?p ts err = Some (Some v, w, err1)" by simp
        with parse_array_reads [OF Suc.IH] show ?thesis by (rule reads_chain)
      next
        case None2: None
        with parse_array_fails [of ?p ts err t2 e2] ar e1 have t2: "t2 = ts" and e2: "e2 = err \<or> opens ts CHR ''[''" by simp_all
        have "\<not> opens ts CHR ''[''"
          using r ob None t1 ar None2 t2 by (auto simp: opens_none parse_escape_def)
        then have e2: "e2 = err" using e2 by simp
        obtain o3 t3 e3 where kw: "parse_keyword ts err = (o3, t3, e3)" by (cases "parse_keyword ts err") auto
        show ?thesis
        proof (cases o3)
          case (Some x)
          with r ob None t1 e1 ar None2 t2 e2 kw have "Some (parse_keyword ts err) = Some (Some v, w, err1)"
            by (simp add: parse_escape_def)
          with parse_keyword_reads show ?thesis by (rule reads_chain)
        next
          case None3: None
          with parse_keyword_fails kw have t3: "t3 = ts"
            and e3: "e3 = err \<or> (\<exists>t r. ts = t # r \<and> tk_type t = Token JSON_KEYWORD)" by blast+
          have lit: "parse_literal strtod ts e3 = (Some v, w, err1)"
            using r ob None t1 e1 ar None2 t2 e2 kw None3 t3 by (simp add: parse_escape_def)
          then have "e3 = err" using e3 no_literal [of ts _ _ strtod e3] by auto
          with lit have "Some (parse_literal strtod ts err) = Some (Some v, w, err1)" by simp
          with parse_literal_reads show ?thesis by (rule reads_chain)
        qed
      qed
    qed
  qed
qed

section \<open>What is in the grammar is accepted\<close>

inductive_cases derivesE: "derives strtod v us"
inductive_cases members_NilE [elim!]: "members strtod [] us"
inductive_cases members_ConsE: "members strtod (kv # kvs) us"
inductive_cases elements_NilE [elim!]: "elements strtod [] us"
inductive_cases elements_ConsE: "elements strtod (v # vs) us"

definition complete_below :: "nat \<Rightarrow> (string \<Rightarrow> 64 word) \<Rightarrow> value_parser \<Rightarrow> bool" where
  "complete_below n strtod parse \<longleftrightarrow> (\<forall>v us w err. derives strtod v (map tk_key us) \<longrightarrow> length us < n \<longrightarrow>
     parse (us @ w) err = Some (Some v, w, err))"

lemma completeD:
  "complete_below n strtod parse \<Longrightarrow> derives strtod v (map tk_key us) \<Longrightarrow> length us < n \<Longrightarrow>
    parse (us @ w) err = Some (Some v, w, err)"
  by (simp add: complete_below_def)

lemma parse_pair_complete:
  assumes "complete_below n strtod parse" and "map tk_key us = ks @ operator CHR '':'' # vs" and "length us \<le> n"
    and "derives strtod (QString k) ks" and "derives strtod v vs"
  shows "parse_pair parse d (us @ w) err = Some (Some (qdict_put k v d), w, err)"
proof -
  from assms(2) obtain us1 t us2 where us: "us = us1 @ t # us2" and k1: "map tk_key us1 = ks" and t: "tk_key t = operator CHR '':''"
    and k2: "map tk_key us2 = vs" by (auto simp: map_eq_append_conv map_eq_Cons_conv)
  have "us1 \<noteq> []" using derives_nonempty(1) [OF assms(4)] k1 by auto
  then have "length us1 < n" "length us2 < n" using assms(3) us by auto
  with completeD [OF assms(1)] assms(4,5) k1 k2
  have "parse (us1 @ t # us2 @ w) err = Some (Some (QString k), t # us2 @ w, err)"
    "parse (us2 @ w) err = Some (Some v, w, err)" by blast+
  with t us show ?thesis by (simp add: parse_pair_def token_is_operator_key)
qed

lemma map_appendE:
  assumes "map f xs = ys @ zs"
  obtains us vs where "xs = us @ vs" "map f us = ys" "map f vs = zs"
  using assms by (auto simp: map_eq_append_conv)

lemma op_tokens [simp]:
  "tk_key t = operator c \<Longrightarrow> token_is_operator t c1 \<longleftrightarrow> c1 = c"
  by (auto simp: token_is_operator_key)

lemma parse_pairs_complete:
  assumes "complete_below n strtod parse"
  shows "members strtod kvs (map tk_key us) \<Longrightarrow> length us \<le> n \<Longrightarrow> length us \<le> k \<Longrightarrow> tk_key t = operator CHR 0x7D \<Longrightarrow>
    parse_pairs k parse d (us @ t # w) err = Some (Some (qd.put_all kvs d), w, err)"
proof (induction kvs arbitrary: us k d)
  case (Cons kv kvs)
  obtain j where k: "k = Suc j" using Cons.prems(1,3) derives_nonempty(2) by (cases k) fastforce+
  from Cons.prems(1) show ?case
  proof (cases rule: members.cases)
    case (Member q ks v vs)
    with Cons.prems(2) have "parse_pair parse d (us @ t # w) err = Some (Some (qdict_put q v d), t # w, err)"
      by (intro parse_pair_complete [OF assms]) simp_all
    with Member k Cons.prems(4) show ?thesis by simp
  next
    case (Members q ks v vs ms)
    then have "map tk_key us = (ks @ operator CHR '':'' # vs) @ operator CHR '','' # ms" by simp
    from this obtain us1 us0 where us0: "us = us1 @ us0" and k1: "map tk_key us1 = ks @ operator CHR '':'' # vs"
      and k0: "map tk_key us0 = operator CHR '','' # ms" by (rule map_appendE)
    from k0 obtain s us2 where "us0 = s # us2" and s: "tk_key s = operator CHR '',''" and k2: "map tk_key us2 = ms"
      by (auto simp: map_eq_Cons_conv)
    with us0 have us: "us = us1 @ s # us2" by simp
    have "parse_pair parse d (us1 @ s # us2 @ t # w) err = Some (Some (qdict_put q v d), s # us2 @ t # w, err)"
      using Members us k1 Cons.prems(2) by (intro parse_pair_complete [OF assms]) simp_all
    moreover have "parse_pairs j parse (qdict_put q v d) (us2 @ t # w) err = Some (Some (qd.put_all kvs (qdict_put q v d)), w, err)"
      using Members us k k2 Cons.prems by (intro Cons.IH) simp_all
    ultimately show ?thesis using Members k us s by simp
  qed
qed auto

lemma parse_items_complete:
  assumes "complete_below n strtod parse"
  shows "elements strtod vs (map tk_key us) \<Longrightarrow> length us < n \<Longrightarrow> length us \<le> k \<Longrightarrow> tk_key t = operator CHR '']'' \<Longrightarrow>
    parse_items k parse l (us @ t # w) err = Some (Some (l @ vs), w, err)"
proof (induction vs arbitrary: us k l)
  case (Cons v vs)
  obtain j where k: "k = Suc j" using Cons.prems(1,3) derives_nonempty(3) by (cases k) fastforce+
  from Cons.prems(1) show ?case
  proof (cases rule: elements.cases)
    case Element
    with Cons.prems(2) have "parse (us @ t # w) err = Some (Some v, t # w, err)"
      by (intro completeD [OF assms]) simp_all
    with Element k Cons.prems(4) show ?thesis by simp
  next
    case (Elements ks ms)
    then obtain us1 s us2 where us: "us = us1 @ s # us2" and k1: "map tk_key us1 = ks"
      and s: "tk_key s = operator CHR '',''" and k2: "map tk_key us2 = ms"
      by (auto simp: map_eq_append_conv map_eq_Cons_conv)
    have "parse (us1 @ s # us2 @ t # w) err = Some (Some v, s # us2 @ t # w, err)"
      using Elements us k1 Cons.prems(2) by (intro completeD [OF assms]) simp_all
    moreover have "parse_items j parse (l @ [v]) (us2 @ t # w) err = Some (Some ((l @ [v]) @ vs), w, err)"
      using Elements us k k2 Cons.prems by (intro Cons.IH) simp_all
    ultimately show ?thesis using k us s by simp
  qed
qed auto

text \<open>No value starts with a closing brace or bracket.\<close>

lemma first_token:
  "derives strtod v us \<Longrightarrow> hd us \<noteq> operator CHR 0x7D \<and> hd us \<noteq> operator CHR '']''"
  "members strtod kvs us \<Longrightarrow> hd us \<noteq> operator CHR 0x7D"
  "elements strtod vs us \<Longrightarrow> hd us \<noteq> operator CHR '']''"
proof -
  show d: "derives strtod v us \<Longrightarrow> hd us \<noteq> operator CHR 0x7D \<and> hd us \<noteq> operator CHR '']''" for v us
    by (erule derives.cases) simp_all
  show "members strtod kvs us \<Longrightarrow> hd us \<noteq> operator CHR 0x7D"
    by (erule members.cases; frule derives_nonempty(1); drule d; simp)
  show "elements strtod vs us \<Longrightarrow> hd us \<noteq> operator CHR '']''"
    by (erule elements.cases; frule derives_nonempty(1); drule d; simp)
qed

text \<open>One token that is not an operator.\<close>

lemma parse_value_single:
  assumes "parse_keyword (t # w) err = (Some v, w, err) \<or>
      parse_keyword (t # w) err = (None, t # w, err) \<and> parse_literal strtod (t # w) err = (Some v, w, err)"
    and "tk_type t \<noteq> Token JSON_OPERATOR"
  shows "parse_value (Suc n) strtod ([t] @ w) err = Some (Some v, w, err)"
  using assms by (auto simp: parse_object_def parse_array_def token_is_operator_def parse_escape_def)

lemma parse_object_bracket: "tk_key t = operator c \<Longrightarrow> c \<noteq> CHR 0x7B \<Longrightarrow> parse_object parse (t # ts) err = Some (None, t # ts, err)"
  by (simp add: parse_object_def)

lemma parse_value_complete: "complete_below n strtod (parse_value n strtod)"
proof (induction n)
  case 0
  then show ?case by (simp add: complete_below_def)
next
  case (Suc n)
  show ?case unfolding complete_below_def
  proof (intro allI impI)
    fix v us w err assume d: "derives strtod v (map tk_key us)" and len: "length us < Suc n"
    from d show "parse_value (Suc n) strtod (us @ w) err = Some (Some v, w, err)"
    proof (cases rule: derives.cases)
      case (Int x)
      then obtain t where "us = [t]" "tk_key t = (Token JSON_INTEGER, x)" by (auto simp: map_eq_Cons_conv)
      with Int parse_value_single [of t w err v strtod n] show ?thesis by (simp add: tk_key_def parse_keyword_def parse_literal_def)
    next
      case (Float x)
      then obtain t where "us = [t]" "tk_key t = (Token JSON_FLOAT, x)" by (auto simp: map_eq_Cons_conv)
      with Float parse_value_single [of t w err v strtod n] show ?thesis by (simp add: tk_key_def parse_keyword_def parse_literal_def)
    next
      case (Str x s)
      then obtain t where "us = [t]" "tk_key t = (Token JSON_STRING, x)" by (auto simp: map_eq_Cons_conv)
      with Str parse_value_single [of t w err v strtod n] show ?thesis by (simp add: tk_key_def parse_keyword_def parse_literal_def)
    next
      case True
      then obtain t where "us = [t]" "tk_key t = (Token JSON_KEYWORD, ''true'')" by (auto simp: map_eq_Cons_conv)
      with True parse_value_single [of t w err v strtod n] show ?thesis by (simp add: tk_key_def parse_keyword_def token_is_keyword_def)
    next
      case False
      then obtain t where "us = [t]" "tk_key t = (Token JSON_KEYWORD, ''false'')" by (auto simp: map_eq_Cons_conv)
      with False parse_value_single [of t w err v strtod n] show ?thesis by (simp add: tk_key_def parse_keyword_def token_is_keyword_def)
    next
      case Empty_dict
      then obtain t s where "us = [t, s]" "tk_key t = operator CHR 0x7B" "tk_key s = operator CHR 0x7D"
        by (auto simp: map_eq_Cons_conv)
      with Empty_dict show ?thesis by (simp add: parse_object_def)
    next
      case (Dict kvs ks)
      then obtain t us1 s where us: "us = t # us1 @ [s]" and t: "tk_key t = operator CHR 0x7B" and s: "tk_key s = operator CHR 0x7D"
        and ks: "map tk_key us1 = ks" by (auto simp: map_eq_Cons_conv map_eq_append_conv)
      have m: "members strtod kvs (map tk_key us1)" using Dict ks by simp
      then obtain p us2 where us1: "us1 = p # us2" using derives_nonempty(2) by (cases us1) auto
      have "parse_pairs (length (us1 @ s # w)) (parse_value n strtod) qdict_new (us1 @ s # w) err =
          Some (Some (qd.put_all kvs qdict_new), w, err)"
        using len us by (intro parse_pairs_complete [OF Suc.IH m] s) simp_all
      moreover have "\<not> token_is_operator p CHR 0x7D"
        using first_token(2) [OF m] us1 by (simp add: token_is_operator_key)
      ultimately show ?thesis using Dict us us1 t by (simp add: parse_object_def del: parse_pairs.simps)
    next
      case Empty_list
      then obtain t s where "us = [t, s]" "tk_key t = operator CHR ''[''" "tk_key s = operator CHR '']''"
        by (auto simp: map_eq_Cons_conv)
      with Empty_list show ?thesis by (simp add: parse_object_bracket parse_array_def)
    next
      case (List vs ks)
      then obtain t us1 s where us: "us = t # us1 @ [s]" and t: "tk_key t = operator CHR ''[''" and s: "tk_key s = operator CHR '']''"
        and ks: "map tk_key us1 = ks" by (auto simp: map_eq_Cons_conv map_eq_append_conv)
      have m: "elements strtod vs (map tk_key us1)" using List ks by simp
      then obtain p us2 where us1: "us1 = p # us2" using derives_nonempty(3) by (cases us1) auto
      have "parse_items (length (us1 @ s # w)) (parse_value n strtod) [] (us1 @ s # w) err = Some (Some ([] @ vs), w, err)"
        using len us by (intro parse_items_complete [OF Suc.IH m] s) simp_all
      moreover have "\<not> token_is_operator p CHR '']''"
        using first_token(3) [OF m] us1 by (simp add: token_is_operator_key)
      ultimately show ?thesis using List us us1 t by (simp add: parse_object_bracket parse_array_def del: parse_items.simps)
    qed
  qed
qed

section \<open>The depth bound is enough\<close>

definition answers :: "nat \<Rightarrow> value_parser \<Rightarrow> bool" where
  "answers n parse \<longleftrightarrow> (\<forall>ts err. length ts < n \<longrightarrow> parse ts err \<noteq> None)"

lemma answersD: "answers n parse \<Longrightarrow> length ts < n \<Longrightarrow> \<exists>r w err1. parse ts err = Some (r, w, err1)"
  by (auto simp: answers_def)

lemma sound_shorter:
  assumes "sound strtod parse" and "parse ts err = Some (Some v, w, err1)"
  shows "length w < length ts"
  using soundD [OF assms] derives_nonempty(1) by (metis length_greater_0_conv length_append less_add_same_cancel2 map_is_Nil_conv)

lemma parse_pair_answers:
  assumes "sound strtod parse" and "answers n parse" and "length ts < n"
  shows "\<exists>r w err1. parse_pair parse d ts err = Some (r, w, err1)"
proof -
  obtain r w e1 where p: "parse ts err = Some (r, w, e1)" using answersD [OF assms(2,3)] by blast
  show ?thesis
  proof (cases "\<exists>k t w1. r = Some (QString k) \<and> w = t # w1")
    case True
    then obtain k t w1 where r: "r = Some (QString k)" and w: "w = t # w1" by blast
    with sound_shorter [OF assms(1)] p assms(3) have "length w1 < n" by fastforce
    from answersD [OF assms(2) this] obtain r2 w2 e2 where "parse w1 e1 = Some (r2, w2, e2)" by blast
    with p r w show ?thesis by (simp add: parse_pair_def split: option.split)
  next
    case False
    with p show ?thesis by (auto simp: parse_pair_def split: option.split QObject.split list.split)
  qed
qed

lemma parse_pairs_answers:
  assumes "sound strtod parse" and "answers n parse"
  shows "length ts < n \<Longrightarrow> length ts \<le> k \<Longrightarrow> k \<noteq> 0 \<Longrightarrow> \<exists>r w err1. parse_pairs k parse d ts err = Some (r, w, err1)"
proof (induction k arbitrary: d ts err)
  case (Suc k)
  obtain r w e1 where p: "parse_pair parse d ts err = Some (r, w, e1)"
    using parse_pair_answers [OF assms Suc.prems(1)] by blast
  show ?case
  proof (cases "\<exists>d1 t w1. r = Some d1 \<and> w = t # w1")
    case True
    then obtain d1 t w1 where r: "r = Some d1" and w: "w = t # w1" by blast
    from parse_pair_reads [OF assms(1)] p r obtain us ks vs where ts: "ts = us @ w"
      and us: "map tk_key us = ks @ operator CHR '':'' # vs" by blast
    have "1 \<le> length us" using us by (cases us) simp_all
    moreover have "length ts = length us + Suc (length w1)" using ts w by simp
    ultimately have "length w1 + 2 \<le> length ts" by linarith
    then have "\<exists>r w err1. parse_pairs k parse d1 w1 e1 = Some (r, w, err1)"
      using Suc.prems by (intro Suc.IH) simp_all
    with p r w show ?thesis by simp
  next
    case False
    with p show ?thesis by (auto split: option.split list.split)
  qed
qed simp

lemma parse_items_answers:
  assumes "sound strtod parse" and "answers n parse"
  shows "length ts < n \<Longrightarrow> length ts \<le> k \<Longrightarrow> k \<noteq> 0 \<Longrightarrow> \<exists>r w err1. parse_items k parse l ts err = Some (r, w, err1)"
proof (induction k arbitrary: l ts err)
  case (Suc k)
  obtain r w e1 where p: "parse ts err = Some (r, w, e1)"
    using answersD [OF assms(2) Suc.prems(1)] by blast
  show ?case
  proof (cases "\<exists>v t w1. r = Some v \<and> w = t # w1")
    case True
    then obtain v t w1 where r: "r = Some v" and w: "w = t # w1" by blast
    with sound_shorter [OF assms(1)] p have "length w1 + 2 \<le> length ts" by fastforce
    then have "\<exists>r w err1. parse_items k parse (l @ [v]) w1 e1 = Some (r, w, err1)"
      using Suc.prems by (intro Suc.IH) simp_all
    with p r w show ?thesis by simp
  next
    case False
    with p show ?thesis by (auto split: option.split list.split)
  qed
qed simp

lemma parse_object_answers:
  assumes "sound strtod parse" and "answers n parse" and "length ts \<le> n"
  shows "\<exists>r w err1. parse_object parse ts err = Some (r, w, err1)"
proof (cases "\<exists>t p w. ts = t # p # w \<and> token_is_operator t CHR 0x7B \<and> \<not> token_is_operator p CHR 0x7D")
  case True
  then obtain t p w where ts: "ts = t # p # w" and "token_is_operator t CHR 0x7B" "\<not> token_is_operator p CHR 0x7D" by blast
  moreover have "\<exists>r u err1. parse_pairs (length (p # w)) parse qdict_new (p # w) err = Some (r, u, err1)"
    using ts assms(3) by (intro parse_pairs_answers [OF assms(1,2)]) simp_all
  ultimately show ?thesis by (auto simp: parse_object_def simp del: parse_pairs.simps split: option.split)
next
  case False
  then show ?thesis by (auto simp: parse_object_def simp del: parse_pairs.simps split: list.split)
qed

lemma parse_array_answers:
  assumes "sound strtod parse" and "answers n parse" and "length ts \<le> n"
  shows "\<exists>r w err1. parse_array parse ts err = Some (r, w, err1)"
proof (cases "\<exists>t p w. ts = t # p # w \<and> token_is_operator t CHR ''['' \<and> \<not> token_is_operator p CHR '']''")
  case True
  then obtain t p w where ts: "ts = t # p # w" and "token_is_operator t CHR ''[''" "\<not> token_is_operator p CHR '']''" by blast
  moreover have "\<exists>r u err1. parse_items (length (p # w)) parse [] (p # w) err = Some (r, u, err1)"
    using ts assms(3) by (intro parse_items_answers [OF assms(1,2)]) simp_all
  ultimately show ?thesis by (auto simp: parse_array_def simp del: parse_items.simps split: option.split)
next
  case False
  then show ?thesis by (auto simp: parse_array_def simp del: parse_items.simps split: list.split)
qed

lemma parse_value_answers: "answers n (parse_value n strtod)"
proof (induction n)
  case (Suc n)
  show ?case unfolding answers_def
  proof (intro allI impI)
    fix ts :: "JSONToken list" and err assume "length ts < Suc n"
    then have len: "length ts \<le> n" by simp
    obtain r1 w1 e1 where o: "parse_object (parse_value n strtod) ts err = Some (r1, w1, e1)"
      using parse_object_answers [OF parse_value_sound Suc.IH len] by blast
    have "length w1 \<le> n" if "r1 = None" using parse_object_fails o that len by blast
    with parse_array_answers [OF parse_value_sound Suc.IH]
    have "\<exists>r w err1. parse_array (parse_value n strtod) w1 e1 = Some (r, w, err1)" if "r1 = None" using that by blast
    with o show "parse_value (Suc n) strtod ts err \<noteq> None"
      by (cases r1) (auto simp: Let_def parse_escape_def split: prod.split, metis prod_cases3)
  qed
qed (simp add: answers_def)

section \<open>Properties\<close>

text \<open>C37: [json_parser_terminates] The parser always comes back: a recursion as deep as the message has tokens, and a
  loop of at most as many turns, is enough for any list of tokens, well formed or not.\<close>

theorem json_parser_terminates: "json_parser_parse_err strtod tokens \<noteq> None"
proof (cases tokens)
  case (Some ts)
  obtain r w e where "parse_value (parse_fuel ts) strtod ts None = Some (r, w, e)"
    using answersD [OF parse_value_answers, of ts "parse_fuel ts"] unfolding parse_fuel_def by blast
  with Some show ?thesis by (simp add: json_parser_parse_err_def)
qed (simp add: json_parser_parse_err_def)

text \<open>C16: [json_parser_grammar] The parser returns an object exactly when the grammar derives it from the tokens the message
  begins with, and then it reports no error.\<close>

theorem json_parser_grammar:
  "json_parser_parse_err strtod (Some ts) = Some (Some v, err) \<longleftrightarrow>
    err = None \<and> (\<exists>us w. ts = us @ w \<and> derives strtod v (map tk_key us))"
proof
  assume "json_parser_parse_err strtod (Some ts) = Some (Some v, err)"
  then obtain w where "parse_value (parse_fuel ts) strtod ts None = Some (Some v, w, err)"
    by (auto simp: json_parser_parse_err_def split: Option.bind_splits)
  from soundD [OF parse_value_sound this] show "err = None \<and> (\<exists>us w. ts = us @ w \<and> derives strtod v (map tk_key us))"
    by blast
next
  assume "err = None \<and> (\<exists>us w. ts = us @ w \<and> derives strtod v (map tk_key us))"
  then obtain us w where e: "err = None" and ts: "ts = us @ w" and d: "derives strtod v (map tk_key us)" by blast
  have "parse_value (parse_fuel ts) strtod (us @ w) None = Some (Some v, w, None)"
    using ts by (intro completeD [OF parse_value_complete d]) (simp add: parse_fuel_def)
  with e ts show "json_parser_parse_err strtod (Some ts) = Some (Some v, err)" by (simp add: json_parser_parse_err_def)
qed

end
