(* ===== verification/Json.thy ===== *)
theory Json
  imports JsonParser
begin

unbundle bit_operations_syntax

text \<open>
  The objects of the control protocol as text, \<^verbatim>\<open>qjson.c\<close>: the writer, compact and with line breaks, and the reader that
  puts lexer, streamer and parser together. A string given to the reader is a C string without its NUL. Whether a
  \<open>char\<close> is signed differs between the targets of the application (it is not on ARM and is on x86): \<open>signed_char\<close> says
  which. How the C library prints a double is a parameter.
\<close>

section \<open>The writer\<close>

definition fmt_PRId64 :: "64 word \<Rightarrow> string" where
  "fmt_PRId64 v = (if sint v < 0 then CHR ''-'' # dec_nat (nat (- sint v)) else dec_nat (nat (sint v)))"

definition hex_char :: "nat \<Rightarrow> char" where
  "hex_char n = (if n < 10 then char_of (48 + n) else char_of (55 + n))"

definition fmt_04X :: "16 word \<Rightarrow> string" where
  "fmt_04X w = map (\<lambda>k. hex_char (unat (drop_bit (4 * k) w AND 0xF))) [3, 2, 1, 0]"

text \<open>The character \<open>k\<close> places on, the terminating NUL included.\<close>

definition char_at :: "string \<Rightarrow> nat \<Rightarrow> char" where
  "char_at s k = (if k < length s then s ! k else CHR 0x00)"

definition w8 :: "char \<Rightarrow> 8 word" where
  "w8 c = of_char c"

definition escape_one :: "bool \<Rightarrow> char \<Rightarrow> string" where
  "escape_one signed_char c =
     (if c = CHR 0x22 then [CHR 0x5C, CHR 0x22]
      else if c = CHR 0x5C then [CHR 0x5C, CHR 0x5C]
      else if c = CHR 0x08 then [CHR 0x5C, CHR ''b'']
      else if c = CHR 0x0C then [CHR 0x5C, CHR ''f'']
      else if c = CHR 0x0A then [CHR 0x5C, CHR ''n'']
      else if c = CHR 0x0D then [CHR 0x5C, CHR ''r'']
      else if c = CHR 0x09 then [CHR 0x5C, CHR ''t'']
      else if byte c \<le> 0x1F then [CHR 0x5C, CHR ''u''] @ fmt_04X (of_char c)
      else if signed_char \<and> byte c \<ge> 0x80 then [CHR 0x5C, CHR ''u''] @ ''FFFF''
      else [c])"

text \<open>The characters of three and of two bytes become escapes; their places are tested without their range.\<close>

function json_chars :: "bool \<Rightarrow> string \<Rightarrow> string" where
  "json_chars signed_char [] = []"
| "json_chars signed_char (c # cs) =
     (let c1 = w8 (char_at cs 0); c2 = w8 (char_at cs 1) in
      if w8 c AND 0xE0 = 0xE0 \<and> c1 AND 0x80 \<noteq> 0 \<and> c2 AND 0x80 \<noteq> 0
      then [CHR 0x5C, CHR ''u''] @
        fmt_04X (push_bit 12 (ucast (w8 c) AND 0x0F) OR push_bit 6 (ucast c1 AND 0x3F) OR (ucast c2 AND 0x3F)) @
        json_chars signed_char (drop 2 cs)
      else if w8 c AND 0xE0 = 0xC0 \<and> c1 AND 0x80 \<noteq> 0
      then [CHR 0x5C, CHR ''u''] @ fmt_04X (push_bit 6 (ucast (w8 c) AND 0x1F) OR (ucast c1 AND 0x3F)) @
        json_chars signed_char (drop 1 cs)
      else escape_one signed_char c @ json_chars signed_char cs)"
  by pat_completeness auto
termination by (relation "measure (\<lambda>(_, s). length s)") auto

definition json_string :: "bool \<Rightarrow> string \<Rightarrow> string" where
  "json_string signed_char s = CHR 0x22 # json_chars signed_char (c_text s) @ [CHR 0x22]"

definition line_break :: "bool \<Rightarrow> nat \<Rightarrow> string" where
  "line_break pretty indent = (if pretty then CHR 0x0A # concat (replicate indent ''    '') else [])"

text \<open>The items of a dictionary or list, the first one with \<open>count\<close> 0.\<close>

fun json_items :: "bool \<Rightarrow> nat \<Rightarrow> nat \<Rightarrow> string list \<Rightarrow> string" where
  "json_items pretty indent count [] = []"
| "json_items pretty indent count (t # ts) =
     (if count \<noteq> 0 then '', '' else []) @ line_break pretty indent @ t @ json_items pretty indent (count + 1) ts"

text \<open>A double is printed with \<open>%f\<close> and loses its last zeros.\<close>

definition trim_float :: "string \<Rightarrow> string" where
  "trim_float s =
     (let b = rev (dropWhile (\<lambda>c. c = CHR ''0'') (rev (take 1023 s)))
      in if b \<noteq> [] \<and> last b = CHR ''.'' then butlast b else b)"

lemma qdict_entries_size:
  assumes "(k, v) \<in> set (qdict_entries d)"
  shows "size v < size (QDict_obj d)"
proof -
  obtain n tab where d: "d = QDict n tab" by (cases d)
  with assms obtain es where es: "es \<in> set tab" "(k, v) \<in> set es" by (auto simp: qdict_entries_def)
  have "size v \<le> size_prod (\<lambda>_. 0) size (k, v)" by simp
  also have "\<dots> \<le> size_list (size_prod (\<lambda>_. 0) size) es" using es(2) by (rule size_list_estimation') simp
  also have "\<dots> \<le> size_list (size_list (size_prod (\<lambda>_. 0) size)) tab" using es(1) by (rule size_list_estimation') simp
  finally show ?thesis using d by simp
qed

function to_json :: "bool \<Rightarrow> (64 word \<Rightarrow> string) \<Rightarrow> bool \<Rightarrow> nat \<Rightarrow> QObject \<Rightarrow> string" where
  "to_json sc fmt_f pretty indent (QInt v) = fmt_PRId64 v"
| "to_json sc fmt_f pretty indent (QString s) = json_string sc s"
| "to_json sc fmt_f pretty indent (QDict_obj d) =
     CHR 0x7B # json_items pretty (indent + 1) 0
       (map (\<lambda>(k, v). json_string sc k @ '': '' @ to_json sc fmt_f pretty (indent + 1) v) (qdict_entries d))
     @ line_break pretty indent @ [CHR 0x7D]"
| "to_json sc fmt_f pretty indent (QList vs) =
     CHR ''['' # json_items pretty (indent + 1) 0 (map (\<lambda>v. to_json sc fmt_f pretty (indent + 1) v) vs)
     @ line_break pretty indent @ [CHR '']'']"
| "to_json sc fmt_f pretty indent (QFloat v) = trim_float (fmt_f v)"
| "to_json sc fmt_f pretty indent (QBool b) = (if b \<noteq> 0 then ''true'' else ''false'')"
| "to_json sc fmt_f pretty indent QError = []"
  by pat_completeness auto
termination
  by (relation "measure (\<lambda>(_, _, _, _, v). size v)")
    (auto dest: qdict_entries_size simp: less_Suc_eq_le intro: size_list_estimation')

definition qobject_to_json :: "bool \<Rightarrow> (64 word \<Rightarrow> string) \<Rightarrow> QObject \<Rightarrow> string" where
  "qobject_to_json sc fmt_f v = to_json sc fmt_f False 0 v"

definition qobject_to_json_pretty :: "bool \<Rightarrow> (64 word \<Rightarrow> string) \<Rightarrow> QObject \<Rightarrow> string" where
  "qobject_to_json_pretty sc fmt_f v = to_json sc fmt_f True 0 v"

section \<open>The reader\<close>

definition json_parser_parse :: "(string \<Rightarrow> 64 word) \<Rightarrow> JSONToken list option \<Rightarrow> QObject option" where
  "json_parser_parse strtod tokens = (case json_parser_parse_err strtod tokens of None \<Rightarrow> None | Some (obj, err) \<Rightarrow> obj)"

text \<open>Each message overwrites the result of the one before it.\<close>

definition qobject_from_jsonv :: "(string \<Rightarrow> 64 word) \<Rightarrow> string \<Rightarrow> QObject option" where
  "qobject_from_jsonv strtod s =
     (let (p, ms) = json_message_parser_feed s json_message_parser_init;
          (p1, ms1) = json_message_parser_flush p
      in foldl (\<lambda>result m. json_parser_parse strtod m) None (ms @ ms1))"

definition qobject_from_json :: "(string \<Rightarrow> 64 word) \<Rightarrow> string \<Rightarrow> QObject option" where
  "qobject_from_json strtod s = qobject_from_jsonv strtod s"

end
