(* ===== verification/JsonText.thy ===== *)
theory JsonText
  imports Json
begin

unbundle bit_operations_syntax

text \<open>
  The characters of a string on their way through the writer and back: the escape the writer makes of a character of
  several bytes is read back as the same bytes, and so is every other character.
\<close>

section \<open>Escapes\<close>

text \<open>Text of characters of one, two and three bytes, each in its shortest form, without NUL.\<close>

definition cont :: "char \<Rightarrow> bool" where
  "cont c \<longleftrightarrow> 0x80 \<le> byte c \<and> byte c \<le> 0xBF"

fun bmp_text :: "string \<Rightarrow> bool" where
  "bmp_text [] = True"
| "bmp_text (c # cs) =
     (if byte c < 0x80 then 0 < byte c \<and> bmp_text cs
      else if byte c \<le> 0xDF then 0xC2 \<le> byte c \<and> (case cs of d # ds \<Rightarrow> cont d \<and> bmp_text ds | [] \<Rightarrow> False)
      else byte c \<le> 0xEF \<and>
        (case cs of d # e # es \<Rightarrow> cont d \<and> cont e \<and> (byte c = 0xE0 \<longrightarrow> 0xA0 \<le> byte d) \<and> bmp_text es | _ \<Rightarrow> False))"

lemma byte_char_of: "n < 256 \<Longrightarrow> byte (char_of n) = n"
  by (simp add: of_char_of)

lemma char_byte: "c = d \<longleftrightarrow> byte c = byte d"
  by simp

lemma of_char_word: "(of_char c :: 'a::len word) = word_of_nat (byte c)"
  by (simp only: of_nat_of_char)

lemma unat_of_char:
  "unat (of_char c :: 8 word) = byte c" "unat (of_char c :: 16 word) = byte c"
proof -
  have "byte c < 256" by (rule nat_of_char_less_256)
  then have "byte c < 256" "byte c < 65536" by linarith+
  then have "byte c < 2 ^ 8" "byte c < 2 ^ 16" by simp_all
  then show "unat (of_char c :: 8 word) = byte c" "unat (of_char c :: 16 word) = byte c"
    by (simp_all only: of_char_word unsigned_of_nat) (simp_all add: take_bit_nat_eq_self)
qed

lemma chr8_eq: "chr8 w = c \<longleftrightarrow> (ucast w :: 8 word) = w8 c"
proof -
  have "chr8 w = c \<longleftrightarrow> unat w mod 256 = byte c" by (simp add: chr8_def char_byte)
  also have "\<dots> \<longleftrightarrow> unat (ucast w :: 8 word) = unat (w8 c)" by (simp add: w8_def unat_of_char unsigned_ucast_eq take_bit_eq_mod)
  finally show ?thesis by (simp only: word_unat_eq_iff)
qed

lemma ucast_w8: "(ucast (w8 c) :: 16 word) = of_char c"
  by (simp only: word_unat_eq_iff w8_def) (simp add: unat_of_char unsigned_ucast_eq take_bit_nat_eq_self nat_of_char_less_256 [THEN less_trans])

text \<open>The upper bits of a byte, from its range.\<close>

lemma upper_bits:
  assumes "unat (v :: 8 word) div 2 ^ k = m" and "k \<le> n" and "n < 8"
  shows "bit v n \<longleftrightarrow> odd (m div 2 ^ (n - k))"
proof -
  have "bit v n = bit (unat v) n" by (use assms(3) in \<open>simp add: bit_unsigned_iff\<close>)
  also have "\<dots> = bit (unat v div 2 ^ k) (n - k)"
    using assms(2) by (simp add: bit_drop_bit_eq flip: drop_bit_eq_div)
  finally show ?thesis using assms(1) by (simp add: bit_iff_odd)
qed

lemma bits_cont:
  assumes "cont c"
  shows "bit (w8 c) 7" "\<not> bit (w8 c) 6"
proof -
  have h: "unat (w8 c) div 2 ^ 6 = 2" using assms by (auto simp: cont_def w8_def unat_of_char)
  show "bit (w8 c) 7" "\<not> bit (w8 c) 6"
    using upper_bits [OF h, of 7] upper_bits [OF h, of 6] by simp_all
qed

lemma bits_two:
  assumes "0xC2 \<le> byte c" and "byte c \<le> 0xDF"
  shows "bit (w8 c) 7" "bit (w8 c) 6" "\<not> bit (w8 c) 5"
proof -
  have h: "unat (w8 c) div 2 ^ 5 = 6" using assms by (simp add: w8_def unat_of_char)
  show "bit (w8 c) 7" "bit (w8 c) 6" "\<not> bit (w8 c) 5"
    using upper_bits [OF h, of 7] upper_bits [OF h, of 6] upper_bits [OF h, of 5] by simp_all
qed

lemma bits_three:
  assumes "0xE0 \<le> byte c" and "byte c \<le> 0xEF"
  shows "bit (w8 c) 7" "bit (w8 c) 6" "bit (w8 c) 5" "\<not> bit (w8 c) 4"
proof -
  have h: "unat (w8 c) div 2 ^ 4 = 14" using assms by (simp add: w8_def unat_of_char)
  show "bit (w8 c) 7" "bit (w8 c) 6" "bit (w8 c) 5" "\<not> bit (w8 c) 4"
    using upper_bits [OF h, of 7] upper_bits [OF h, of 6] upper_bits [OF h, of 5] upper_bits [OF h, of 4] by simp_all
qed

lemma bits_ascii: "byte c < 0x80 \<Longrightarrow> \<not> bit (w8 c) 7"
  using upper_bits [of "w8 c" 7 0 7] by (simp add: w8_def unat_of_char)
lemma byte_places: "n < 8 \<Longrightarrow> n \<in> {0, 1, 2, 3, 4, 5, 6, 7 :: nat}"
  by auto

lemma bit_mask_word: "a = mask k \<Longrightarrow> k \<le> 16 \<Longrightarrow> bit (a :: 16 word) n \<longleftrightarrow> n < k"
  by (auto simp: bit_mask_iff)

lemma masks16:
  "bit (0x0F :: 16 word) n \<longleftrightarrow> n < 4" "bit (0x1F :: 16 word) n \<longleftrightarrow> n < 5" "bit (0x3F :: 16 word) n \<longleftrightarrow> n < 6"
  "bit (0x7F :: 16 word) n \<longleftrightarrow> n < 7"
  using bit_mask_word [of "0x0F" 4] bit_mask_word [of "0x1F" 5] bit_mask_word [of "0x3F" 6] bit_mask_word [of "0x7F" 7]
  by (simp_all add: mask_eq_exp_minus_1)

lemma leads16:
  "n < 8 \<Longrightarrow> bit (0xE0 :: 16 word) n \<longleftrightarrow> 5 \<le> n" "n < 8 \<Longrightarrow> bit (0xC0 :: 16 word) n \<longleftrightarrow> 6 \<le> n"
  "n < 8 \<Longrightarrow> bit (0x80 :: 16 word) n \<longleftrightarrow> n = 7"
  by (drule byte_places; auto simp: bit_iff_odd)+

lemma tail_char:
  assumes "cont c" and "\<And>n. n < 6 \<Longrightarrow> bit w n = bit (w8 c) n"
  shows "chr8 (0x80 OR (w AND 0x3F)) = c"
  unfolding chr8_eq
proof (rule bit_word_eqI)
  fix n assume "n < LENGTH(8)"
  then have n: "n < 8" by simp
  then have "n < 6 \<or> n = 6 \<or> n = 7" by auto
  then show "bit (ucast (0x80 OR (w AND 0x3F)) :: 8 word) n = bit (w8 c) n"
    unfolding bit_ucast_iff bit_or_iff bit_and_iff masks16 leads16(3) [OF n]
    using n assms(2) bits_cont [OF assms(1)] by auto
qed

lemma less_exp: "unat w < 2 ^ k \<longleftrightarrow> (\<forall>n. k \<le> n \<longrightarrow> \<not> bit w n)" for w :: "16 word"
proof -
  have "unat w < 2 ^ k \<longleftrightarrow> take_bit k (unat w) = unat w" by (simp add: take_bit_nat_eq_self_iff)
  also have "\<dots> \<longleftrightarrow> (\<forall>n. k \<le> n \<longrightarrow> \<not> bit (unat w) n)"
  proof
    assume eq: "take_bit k (unat w) = unat w"
    then show "\<forall>n. k \<le> n \<longrightarrow> \<not> bit (unat w) n" by (metis bit_take_bit_iff not_le)
  next
    assume "\<forall>n. k \<le> n \<longrightarrow> \<not> bit (unat w) n"
    then show "take_bit k (unat w) = unat w" by (intro bit_eqI) (auto simp: bit_take_bit_iff not_le [symmetric])
  qed
  finally show ?thesis by (auto simp: bit_unsigned_iff bit_imp_le_length)
qed

lemma wchar_range: "w \<le> 0x7F \<longleftrightarrow> unat w < 2 ^ 7" "w \<le> 0x7FF \<longleftrightarrow> unat w < 2 ^ 11" for w :: "16 word"
proof -
  have "unat (0x7F :: 16 word) = 127" "unat (0x7FF :: 16 word) = 2047" by simp_all
  then show "w \<le> 0x7F \<longleftrightarrow> unat w < 2 ^ 7" "w \<le> 0x7FF \<longleftrightarrow> unat w < 2 ^ 11"
    unfolding word_le_nat_alt by auto
qed

lemma w8_bit: "bit (w8 c) n \<longleftrightarrow> odd (byte c div 2 ^ n)"
proof -
  have "bit (w8 c) n = bit (unat (w8 c)) n" by (auto simp: bit_unsigned_iff bit_imp_le_length)
  then show ?thesis by (simp add: w8_def unat_of_char bit_iff_odd)
qed

lemma lead_bits:
  "list_all (\<lambda>n. \<not> (even (n div 2) \<and> even (n div 4) \<and> even (n div 8) \<and> even (n div 16))) [0xC2..<0xE0]"
  "list_all (\<lambda>n. even (n div 1) \<and> even (n div 2) \<and> even (n div 4) \<and> even (n div 8) \<longrightarrow> n = 0xE0) [0xE0..<0xF0]"
  "list_all (\<lambda>n. odd (n div 32)) [0xA0..<0xC0]"
  by code_simp+

lemma utf8_two:
  fixes c d :: char
  defines "w \<equiv> push_bit 6 (ucast (w8 c) AND 0x1F) OR (ucast (w8 d) AND 0x3F) :: 16 word"
  assumes "0xC2 \<le> byte c" and "byte c \<le> 0xDF" and "cont d"
  shows "wchar_to_utf8 w = [c, d, CHR 0x00]"
proof -
  have b: "bit w n \<longleftrightarrow> 6 \<le> n \<and> n < 11 \<and> bit (w8 c) (n - 6) \<or> n < 6 \<and> bit (w8 d) n" for n
    unfolding w_def bit_or_iff bit_push_bit_iff bit_and_iff bit_ucast_iff masks16 by auto
  have le: "w \<le> 0x7FF" unfolding wchar_range less_exp by (auto simp: b)
  have "\<not> w \<le> 0x7F"
  proof
    assume "w \<le> 0x7F"
    then have "\<not> bit w (n + 6)" if "1 \<le> n" "n < 5" for n
      using that unfolding wchar_range less_exp by simp
    then have "\<not> bit (w8 c) n" if "1 \<le> n" "n < 5" for n
      using that b [of "n + 6"] by auto
    then have "\<not> bit (w8 c) 1" "\<not> bit (w8 c) 2" "\<not> bit (w8 c) 3" "\<not> bit (w8 c) 4" by simp_all
    then have "even (byte c div 2)" "even (byte c div 4)" "even (byte c div 8)" "even (byte c div 16)"
      by (simp_all add: w8_bit)
    moreover have "byte c \<in> set [0xC2..<0xE0]" using assms(2,3) unfolding set_upt by auto
    ultimately show False using lead_bits(1) unfolding list_all_iff by blast
  qed
  moreover have "chr8 (0xC0 OR (drop_bit 6 w AND 0x1F)) = c"
    unfolding chr8_eq
  proof (rule bit_word_eqI)
    fix n assume "n < LENGTH(8)"
    then have n: "n < 8" by simp
    then have range: "n < 5 \<or> n = 5 \<or> n = 6 \<or> n = 7" by auto
    have "bit w (6 + n) \<longleftrightarrow> n < 5 \<and> bit (w8 c) n" by (simp add: b)
    then show "bit (ucast (0xC0 OR (drop_bit 6 w AND 0x1F)) :: 8 word) n = bit (w8 c) n"
      unfolding bit_ucast_iff bit_or_iff bit_and_iff bit_drop_bit_eq masks16 leads16(2) [OF n]
      using range bits_two [OF assms(2,3)] by auto
  qed
  moreover have "chr8 (0x80 OR (w AND 0x3F)) = d" by (rule tail_char [OF assms(4)]) (simp add: b)
  ultimately show ?thesis using le by (simp add: wchar_to_utf8_def)
qed

lemma utf8_three:
  fixes c d e :: char
  defines "w \<equiv> push_bit 12 (ucast (w8 c) AND 0x0F) OR push_bit 6 (ucast (w8 d) AND 0x3F) OR (ucast (w8 e) AND 0x3F) :: 16 word"
  assumes "0xE0 \<le> byte c" and "byte c \<le> 0xEF" and "cont d" and "cont e" and "byte c = 0xE0 \<longrightarrow> 0xA0 \<le> byte d"
  shows "wchar_to_utf8 w = [c, d, e, CHR 0x00]"
proof -
  have b: "bit w n \<longleftrightarrow> 12 \<le> n \<and> n < 16 \<and> bit (w8 c) (n - 12) \<or> 6 \<le> n \<and> n < 12 \<and> bit (w8 d) (n - 6) \<or> n < 6 \<and> bit (w8 e) n" for n
    unfolding w_def bit_or_iff bit_push_bit_iff bit_and_iff bit_ucast_iff masks16 by auto
  have big: "\<not> w \<le> 0x7FF"
  proof
    assume "w \<le> 0x7FF"
    then have none: "\<not> bit w n" if "11 \<le> n" for n using that unfolding wchar_range less_exp by simp
    from none [of 11] none [of 12] none [of 13] none [of 14] none [of 15]
    have "even (byte d div 32)" "even (byte c div 1)" "even (byte c div 2)" "even (byte c div 4)" "even (byte c div 8)"
      by (simp_all add: b w8_bit)
    moreover have "byte c \<in> set [0xE0..<0xF0]" using assms(2,3) unfolding set_upt by auto
    ultimately have "byte c = 0xE0" using lead_bits(2) unfolding list_all_iff by blast
    then have "byte d \<in> set [0xA0..<0xC0]" using assms(4,6) unfolding set_upt cont_def by auto
    with \<open>even (byte d div 32)\<close> show False using lead_bits(3) unfolding list_all_iff by blast
  qed
  have small: "\<not> w \<le> 0x7F"
  proof
    assume "w \<le> 0x7F"
    then have "w \<le> 0x7FF" unfolding wchar_range less_exp by simp
    with big show False by blast
  qed
  have "chr8 (0xE0 OR (drop_bit 12 w AND 0x0F)) = c"
    unfolding chr8_eq
  proof (rule bit_word_eqI)
    fix n assume "n < LENGTH(8)"
    then have n: "n < 8" by simp
    then have range: "n < 4 \<or> n = 4 \<or> n = 5 \<or> n = 6 \<or> n = 7" by auto
    have "bit w (12 + n) \<longleftrightarrow> n < 4 \<and> bit (w8 c) n" by (simp add: b)
    then show "bit (ucast (0xE0 OR (drop_bit 12 w AND 0x0F)) :: 8 word) n = bit (w8 c) n"
      unfolding bit_ucast_iff bit_or_iff bit_and_iff bit_drop_bit_eq masks16 leads16(1) [OF n]
      using range bits_three [OF assms(2,3)] by auto
  qed
  moreover have "chr8 (0x80 OR (drop_bit 6 w AND 0x3F)) = d"
    by (rule tail_char [OF assms(4)]) (simp add: b bit_drop_bit_eq)
  moreover have "chr8 (0x80 OR (w AND 0x3F)) = e" by (rule tail_char [OF assms(5)]) (simp add: b)
  ultimately show ?thesis using big small by (simp add: wchar_to_utf8_def)
qed

lemma utf8_one:
  assumes "byte c < 0x80"
  shows "wchar_to_utf8 (of_char c) = [c, CHR 0x00]"
proof -
  have "(of_char c :: 16 word) \<le> 0x7F" using assms by (simp add: wchar_range unat_of_char)
  moreover have "chr8 (of_char c AND 0x7F) = c"
  proof -
    have "(of_char c AND 0x7F :: 16 word) = of_char c"
    proof (rule bit_word_eqI)
      fix n
      have "unat (of_char c :: 16 word) < 2 ^ 7" using assms by (simp add: unat_of_char)
      then have "bit (of_char c :: 16 word) n \<Longrightarrow> n < 7" unfolding less_exp using not_less by blast
      then show "bit (of_char c AND 0x7F :: 16 word) n = bit (of_char c :: 16 word) n"
        unfolding bit_and_iff masks16 by blast
    qed
    then show ?thesis by (simp add: chr8_def unat_of_char)
  qed
  ultimately show ?thesis by (simp add: wchar_to_utf8_def)
qed

section \<open>Hexadecimal digits\<close>

lemma hex_char_digit:
  assumes "n < 16"
  shows "hex_ch (byte (hex_char n))" "hex2decimal (hex_char n) = int n"
  using assms by (auto simp: hex_char_def hex_ch_def hex2decimal_def digit_ch_def of_char_of)

lemma nibble_less: "unat (drop_bit k w AND 0xF :: 16 word) < 16"
proof -
  have "unat (drop_bit k w AND 0xF) < 2 ^ 4" unfolding less_exp bit_and_iff masks16 by auto
  then show ?thesis by simp
qed

lemma nibble_place: "word_of_int (int (unat (drop_bit k w AND 0xF)) * 2 ^ m) = (push_bit m (drop_bit k w AND 0xF) :: 16 word)"
  by (simp add: push_bit_eq_mult)

lemma nibbles: "((push_bit 12 (drop_bit 12 w AND 0xF) OR push_bit 8 (drop_bit 8 w AND 0xF)) OR
    push_bit 4 (drop_bit 4 w AND 0xF)) OR (w AND 0xF) = (w :: 16 word)"
proof (rule bit_word_eqI)
  fix n assume "n < LENGTH(16)"
  then consider "n < 4" | "4 \<le> n" "n < 8" | "8 \<le> n" "n < 12" | "12 \<le> n" "n < 16" by fastforce
  then show "bit (((push_bit 12 (drop_bit 12 w AND 0xF) OR push_bit 8 (drop_bit 8 w AND 0xF)) OR
      push_bit 4 (drop_bit 4 w AND 0xF)) OR (w AND 0xF)) n = bit w n"
    unfolding bit_or_iff bit_push_bit_iff bit_and_iff bit_drop_bit_eq masks16 by cases (simp_all, arith+)
qed

lemma hex_digits_4:
  assumes "x3 < 16" and "x2 < 16" and "x1 < 16" and "x0 < 16"
  shows "hex_digits 4 (hex_char x3 # hex_char x2 # hex_char x1 # hex_char x0 # r) 0 =
    Some (((word_of_int (int x3 * 2 ^ 12) OR word_of_int (int x2 * 2 ^ 8)) OR word_of_int (int x1 * 2 ^ 4)) OR word_of_int (int x0), r)"
proof -
  have four: "hex_digits 4 s 0 = hex_digits (Suc (Suc (Suc (Suc 0)))) s 0" for s by (simp add: numeral_eq_Suc)
  show ?thesis unfolding four using assms by (simp add: hex_char_digit)
qed

lemma hex_digits_fmt: "hex_digits 4 (fmt_04X w @ r) 0 = Some (w, r)"
proof -
  define d where "d k = unat (drop_bit (4 * k) w AND 0xF)" for k
  have less: "d k < 16" for k unfolding d_def by (rule nibble_less)
  have place: "word_of_int (int (d k) * 2 ^ m) = push_bit m (drop_bit (4 * k) w AND 0xF)" for k m
    unfolding d_def by (rule nibble_place)
  have zero: "word_of_int (int (d 0)) = w AND 0xF" by (simp add: d_def)
  have "fmt_04X w @ r = hex_char (d 3) # hex_char (d 2) # hex_char (d 1) # hex_char (d 0) # r"
    by (simp add: fmt_04X_def d_def)
  moreover have "((word_of_int (int (d 3) * 2 ^ 12) OR word_of_int (int (d 2) * 2 ^ 8)) OR word_of_int (int (d 1) * 2 ^ 4)) OR
      word_of_int (int (d 0)) = w"
    unfolding place zero using nibbles [of w] by simp
  ultimately show ?thesis using hex_digits_4 [OF less less less less, of 3 2 1 0 r] by simp
qed

section \<open>Strings\<close>

lemma byte_eq_iff: "a = b \<longleftrightarrow> bit a 0 = bit b 0 \<and> bit a 1 = bit b 1 \<and> bit a 2 = bit b 2 \<and> bit a 3 = bit b 3 \<and>
    bit a 4 = bit b 4 \<and> bit a 5 = bit b 5 \<and> bit a 6 = bit b 6 \<and> bit a 7 = bit b 7" for a b :: "8 word"
proof
  assume h: "bit a 0 = bit b 0 \<and> bit a 1 = bit b 1 \<and> bit a 2 = bit b 2 \<and> bit a 3 = bit b 3 \<and>
    bit a 4 = bit b 4 \<and> bit a 5 = bit b 5 \<and> bit a 6 = bit b 6 \<and> bit a 7 = bit b 7"
  show "a = b"
  proof (rule bit_word_eqI)
    fix n assume "n < LENGTH(8)"
    then have "n \<in> {0, 1, 2, 3, 4, 5, 6, 7}" using byte_places by simp
    with h show "bit a n = bit b n" by auto
  qed
qed simp

lemma lead_tests:
  "w8 c AND 0xE0 = 0xE0 \<longleftrightarrow> bit (w8 c) 7 \<and> bit (w8 c) 6 \<and> bit (w8 c) 5"
  "w8 c AND 0xE0 = 0xC0 \<longleftrightarrow> bit (w8 c) 7 \<and> bit (w8 c) 6 \<and> \<not> bit (w8 c) 5"
  "w8 c AND 0x80 = 0 \<longleftrightarrow> \<not> bit (w8 c) 7"
  unfolding byte_eq_iff bit_and_iff by (auto simp: bit_numeral_rec)

lemma unescape_u:
  "unescape True (CHR 0x5C # CHR ''u'' # fmt_04X w @ t) str = unescape True t (qstring_append str (wchar_to_utf8 w))"
  by (simp add: escaped_char_def hex_digits_fmt)

lemma append_utf8: "CHR 0x00 \<notin> set s \<Longrightarrow> qstring_append str (s @ [CHR 0x00]) = str @ s"
  unfolding qstring_append_def c_text_def by (subst takeWhile_append2) auto

lemma nonzero_char: "0 < byte c \<Longrightarrow> c \<noteq> CHR 0x00"
  by auto

lemma unescape_one:
  assumes "0 < byte c" and "byte c < 0x80"
  shows "unescape True (escape_one sc c @ t) str = unescape True t (str @ [c])"
proof (cases "byte c \<le> 0x1F \<and> c \<notin> {CHR 0x08, CHR 0x0C, CHR 0x0A, CHR 0x0D, CHR 0x09}")
  case True
  then have b: "byte c \<le> 0x1F"
    and n: "c \<noteq> CHR 0x08" "c \<noteq> CHR 0x0C" "c \<noteq> CHR 0x0A" "c \<noteq> CHR 0x0D" "c \<noteq> CHR 0x09" by blast+
  have q: "c \<noteq> CHR 0x22" "c \<noteq> CHR 0x5C" using b by fastforce+
  have "escape_one sc c = CHR 0x5C # CHR ''u'' # fmt_04X (of_char c)"
    unfolding escape_one_def using b n q by (simp only: if_False if_True append_Cons append_Nil)
  with unescape_u [of "of_char c" t str] utf8_one [OF assms(2)] append_utf8 [of "[c]" str] nonzero_char [OF assms(1)]
  show ?thesis by simp
next
  case False
  have c0: "c \<noteq> CHR 0x00" using assms(1) by (rule nonzero_char)
  then have one: "qstring_append str [c] = str @ [c]" by (simp add: qstring_append_def c_text_def)
  show ?thesis
  proof (cases "c \<in> {CHR 0x22, CHR 0x5C, CHR 0x08, CHR 0x0C, CHR 0x0A, CHR 0x0D, CHR 0x09}")
    case True
    then show ?thesis
      by (elim insertE emptyE) (simp_all add: escape_one_def escaped_char_def qstring_append_def c_text_def)
  next
    case other: False
    then have "escape_one sc c = [c]" using False assms(2) by (auto simp: escape_one_def)
    moreover have "c \<noteq> CHR 0x22" "c \<noteq> CHR 0x5C" using other by blast+
    ultimately show ?thesis using c0 one by simp
  qed
qed

lemma no_lead: "byte c < 0x80 \<Longrightarrow> json_chars sc (c # cs) = escape_one sc c @ json_chars sc cs"
  using bits_ascii [of c] by (simp add: Let_def lead_tests)

lemma two_lead:
  "0xC2 \<le> byte c \<Longrightarrow> byte c \<le> 0xDF \<Longrightarrow> cont d \<Longrightarrow> json_chars sc (c # d # cs) =
    CHR 0x5C # CHR ''u'' # fmt_04X (push_bit 6 (ucast (w8 c) AND 0x1F) OR (ucast (w8 d) AND 0x3F)) @ json_chars sc cs"
  using bits_two [of c] bits_cont [of d] by (simp add: Let_def lead_tests char_at_def del: push_bit_and)

lemma three_lead:
  "0xE0 \<le> byte c \<Longrightarrow> byte c \<le> 0xEF \<Longrightarrow> cont d \<Longrightarrow> cont e \<Longrightarrow> json_chars sc (c # d # e # cs) =
    CHR 0x5C # CHR ''u'' # fmt_04X (push_bit 12 (ucast (w8 c) AND 0x0F) OR push_bit 6 (ucast (w8 d) AND 0x3F) OR
      (ucast (w8 e) AND 0x3F)) @ json_chars sc cs"
  using bits_three [of c] bits_cont [of d] bits_cont [of e] by (simp add: Let_def lead_tests char_at_def del: push_bit_and)

text \<open>What the writer makes of a string, piece by piece.\<close>

inductive escaped :: "bool \<Rightarrow> string \<Rightarrow> string \<Rightarrow> bool" for sc where
  Done: "escaped sc [] []"
| One: "0 < byte c \<Longrightarrow> byte c < 0x80 \<Longrightarrow> escaped sc s t \<Longrightarrow> escaped sc (c # s) (escape_one sc c @ t)"
| Code: "wchar_to_utf8 w = cs @ [CHR 0x00] \<Longrightarrow> CHR 0x00 \<notin> set cs \<Longrightarrow> escaped sc s t \<Longrightarrow>
    escaped sc (cs @ s) (CHR 0x5C # CHR ''u'' # fmt_04X w @ t)"

lemma bmp_escaped: "bmp_text s \<Longrightarrow> escaped sc s (json_chars sc s)"
proof (induction s rule: bmp_text.induct)
  case 1
  then show ?case using Done by simp
next
  case (2 c cs)
  consider "byte c < 0x80" | "\<not> byte c < 0x80" "byte c \<le> 0xDF" | "\<not> byte c \<le> 0xDF" by linarith
  then show ?case
  proof cases
    case 1
    with 2 One show ?thesis by (simp only: no_lead bmp_text.simps if_True)
  next
    case 2
    note range = this
    with "2.prems" obtain d ds where cs: "cs = d # ds" and d: "cont d" "bmp_text ds" and c: "0xC2 \<le> byte c"
      by (auto split: list.splits)
    have "escaped sc ds (json_chars sc ds)" using "2.IH"(2) range cs d by simp
    moreover have "CHR 0x00 \<notin> set [c, d]" using c d(1) by (auto simp: cont_def)
    ultimately have "escaped sc ([c, d] @ ds) (json_chars sc (c # cs))"
      unfolding cs two_lead [OF c range(2) d(1)] using utf8_two [OF c range(2) d(1)] by (intro Code) simp_all
    then show ?thesis by (simp add: cs)
  next
    case 3
    note range = this
    with "2.prems" obtain d e es where cs: "cs = d # e # es" and d: "cont d" "cont e" "bmp_text es"
      and c: "byte c \<le> 0xEF" "byte c = 0xE0 \<longrightarrow> 0xA0 \<le> byte d" by (auto split: list.splits if_splits)
    have c0: "0xE0 \<le> byte c" using range by simp
    have "escaped sc es (json_chars sc es)" using "2.IH"(3) range cs d by simp
    moreover have "CHR 0x00 \<notin> set [c, d, e]" using c0 d by (auto simp: cont_def)
    ultimately have "escaped sc ([c, d, e] @ es) (json_chars sc (c # cs))"
      unfolding cs three_lead [OF c0 c(1) d(1,2)] using utf8_three [OF c0 c(1) d(1,2) c(2)] by (intro Code) simp_all
    then show ?thesis by (simp add: cs)
  qed
qed

lemma unescape_escaped:
  "escaped sc s t \<Longrightarrow> unescape True (t @ CHR 0x22 # r) str = Inr (str @ s)"
proof (induction arbitrary: str rule: escaped.induct)
  case (One c s t)
  then show ?case using unescape_one [of c sc "t @ CHR 0x22 # r" str] by simp
next
  case (Code w cs s t)
  then show ?case using unescape_u [of w "t @ CHR 0x22 # r" str] append_utf8 [of cs str] by simp
qed simp

lemma bmp_no_nul: "bmp_text s \<Longrightarrow> c_text s = s"
proof -
  have "escaped sc s t \<Longrightarrow> CHR 0x00 \<notin> set s" for t sc
    by (induction rule: escaped.induct) auto
  then show "bmp_text s \<Longrightarrow> c_text s = s" using bmp_escaped by (auto simp: c_text_def takeWhile_eq_all_conv)
qed

end
