(* ===== verification/JsonWords.thy ===== *)
theory JsonWords
  imports JsonText
begin

unbundle bit_operations_syntax

text \<open>
  The lexer on what the writer prints: a text is read from left to right into tokens (\<open>lex_run\<close>, and \<open>lex_all\<close> with the flush
  at its end), white space between tokens leaves no trace, and each number, keyword, operator and escaped string is one
  token. Positions and the size limit are left to the theory that uses this.
\<close>

section \<open>Reading a whole text\<close>

type_synonym lexer_core = "json_lexer_state \<times> string"

abbreviation START :: lexer_core where
  "START \<equiv> (IN_START, [])"

fun lex_run :: "lexer_core \<Rightarrow> string \<Rightarrow> lexer_core \<times> key_token list" where
  "lex_run st [] = (st, [])"
| "lex_run st (c # cs) = (let (st1, out) = lex_char st c False; (st2, out1) = lex_run st1 cs in (st2, out @ out1))"

definition lex_flush :: "lexer_core \<Rightarrow> key_token list" where
  "lex_flush st = (if fst st = IN_START then [] else snd (lex_char st CHR 0x00 True))"

definition lex_all :: "lexer_core \<Rightarrow> string \<Rightarrow> key_token list" where
  "lex_all st s = (let (st1, out) = lex_run st s in out @ lex_flush st1)"

lemma lex_all_Nil [simp]: "lex_all START [] = []"
  by (simp add: lex_all_def lex_flush_def)

lemma lex_run_append: "lex_run st (s @ t) =
    (fst (lex_run (fst (lex_run st s)) t), snd (lex_run st s) @ snd (lex_run (fst (lex_run st s)) t))"
  by (induction s arbitrary: st) (simp_all add: Let_def split_beta)

lemma lex_all_run: "lex_run st s = (st1, out) \<Longrightarrow> lex_all st (s @ t) = out @ lex_all st1 t"
  by (simp add: lex_all_def lex_run_append split_beta)

lemma lex_char_start: "lex_char START c False = lex_start c"
proof (cases "json_lexer IN_START (byte c)")
  case (State t)
  then show ?thesis by (simp add: lex_start_def first_column_start del: json_lexer.simps)
next
  case (Token ty)
  then show ?thesis using start_no_skip [of "byte c"] by (auto simp: lex_start_def first_column_start simp del: json_lexer.simps)
qed

lemma lex_run_state: "json_lexer s (byte c) = State t \<Longrightarrow> t \<noteq> IN_ERROR \<Longrightarrow> lex_run (s, tok) (c # cs) = lex_run (t, tok @ [c]) cs"
  by (simp del: json_lexer.simps)

lemma lex_run_close:
  "json_lexer s (byte c) = Token ty \<Longrightarrow> json_lexer s 0 \<noteq> Token ty \<Longrightarrow> ty \<noteq> JSON_SKIP \<Longrightarrow>
   lex_run (s, tok) [c] = (START, [(Token ty, tok @ [c])])"
  by (simp del: json_lexer.simps)

text \<open>A token that ends before the next character, or at the end of the text.\<close>

lemma lex_all_pending:
  assumes "json_lexer s 0 = Token ty" and "r = [] \<or> json_lexer s (byte (hd r)) = Token ty"
  shows "lex_all (s, tok) r = (if ty = JSON_SKIP then [] else [(Token ty, tok)]) @ lex_all START r"
proof (cases r)
  case Nil
  have "s \<noteq> IN_START" using assms(1) first_column_start by auto
  with Nil assms(1) show ?thesis by (simp add: lex_all_def lex_flush_def del: json_lexer.simps)
next
  case (Cons c cs)
  obtain st out where l: "lex_start c = (st, out)" by fastforce
  then have "lex_char (s, tok) c False = (st, (if ty = JSON_SKIP then [] else [(Token ty, tok)]) @ out)"
    using assms Cons by (simp del: json_lexer.simps)
  moreover have "lex_char START c False = (st, out)" using l lex_char_start by simp
  ultimately show ?thesis unfolding Cons lex_all_def by (simp add: split_beta del: lex_char.simps json_lexer.simps)
qed

section \<open>Spaces and separators\<close>

definition delimited :: "string \<Rightarrow> bool" where
  "delimited r \<longleftrightarrow> r = [] \<or> hd r \<in> {CHR '','', CHR '']'', CHR 0x7D, CHR 0x0A}"

lemma delimited_ends:
  assumes "delimited r"
  shows "r = [] \<or> json_lexer IN_ZERO (byte (hd r)) = Token JSON_INTEGER"
    "r = [] \<or> json_lexer IN_NONZERO_NUMBER (byte (hd r)) = Token JSON_INTEGER"
    "r = [] \<or> json_lexer IN_KEYWORD (byte (hd r)) = Token JSON_KEYWORD"
proof -
  have "json_lexer IN_ZERO (byte c) = Token JSON_INTEGER" "json_lexer IN_NONZERO_NUMBER (byte c) = Token JSON_INTEGER"
    "json_lexer IN_KEYWORD (byte c) = Token JSON_KEYWORD" if "c \<in> {CHR '','', CHR '']'', CHR 0x7D, CHR 0x0A}" for c
    using that by (elim insertE emptyE; simp add: digit_ch_def lower_ch_def terminal_def)+
  with assms show "r = [] \<or> json_lexer IN_ZERO (byte (hd r)) = Token JSON_INTEGER"
    "r = [] \<or> json_lexer IN_NONZERO_NUMBER (byte (hd r)) = Token JSON_INTEGER"
    "r = [] \<or> json_lexer IN_KEYWORD (byte (hd r)) = Token JSON_KEYWORD"
    unfolding delimited_def by blast+
qed

lemma pending_columns:
  "json_lexer IN_ZERO 0 = Token JSON_INTEGER" "json_lexer IN_NONZERO_NUMBER 0 = Token JSON_INTEGER"
  "json_lexer IN_KEYWORD 0 = Token JSON_KEYWORD" "json_lexer IN_WHITESPACE 0 = Token JSON_SKIP"
  by (simp_all add: digit_ch_def lower_ch_def space_ch_def terminal_def)

lemma lex_run_start: "json_lexer IN_START (byte c) = State t \<Longrightarrow> t \<noteq> IN_ERROR \<Longrightarrow> lex_run START (c # cs) = lex_run (t, [c]) cs"
  using lex_run_state [of IN_START c t "[]" cs] by simp

lemma lex_all_step: "lex_run st [c] = (st1, []) \<Longrightarrow> lex_all st (c # cs) = lex_all st1 cs"
  using lex_all_run [of st "[c]" st1 "[]" cs] by simp

lemma start_space: "space_ch (byte c) \<Longrightarrow> json_lexer IN_START (byte c) = State IN_WHITESPACE"
  unfolding space_ch_def by (elim disjE) (simp_all add: digit19_ch_def lower_ch_def space_ch_def)

text \<open>White space before something else.\<close>

definition begins :: "string \<Rightarrow> bool" where
  "begins r \<longleftrightarrow> r = [] \<or> byte (hd r) < 0x80 \<and> \<not> space_ch (byte (hd r))"

lemma lex_all_spaces:
  assumes "list_all (\<lambda>c. space_ch (byte c)) ws" and "begins r"
  shows "lex_all (IN_WHITESPACE, tok) (ws @ r) = lex_all START r"
  using assms(1)
proof (induction ws arbitrary: tok)
  case Nil
  have "r = [] \<or> json_lexer IN_WHITESPACE (byte (hd r)) = Token JSON_SKIP"
    using assms(2) by (auto simp: begins_def terminal_def)
  then show ?case using lex_all_pending [OF pending_columns(4), of r tok] by simp
next
  case (Cons c ws)
  then have "lex_run (IN_WHITESPACE, tok) [c] = ((IN_WHITESPACE, tok @ [c]), [])"
    using lex_run_state [of IN_WHITESPACE c IN_WHITESPACE tok "[]"] by simp
  with lex_all_step [OF this, of "ws @ r"] Cons show ?case by simp
qed

lemma lex_skip:
  assumes "list_all (\<lambda>c. space_ch (byte c)) ws" and "begins r"
  shows "lex_all START (ws @ r) = lex_all START r"
proof (cases ws)
  case (Cons c cs)
  then have "lex_run START [c] = ((IN_WHITESPACE, [c]), [])"
    using lex_run_start [OF start_space, of c "[]"] assms(1) by simp
  with lex_all_step [OF this, of "cs @ r"] lex_all_spaces [of cs r "[c]"] assms Cons show ?thesis by simp
qed simp

lemma spaces_line_break: "list_all (\<lambda>c. space_ch (byte c)) (line_break pretty indent)"
proof -
  have "list_all (\<lambda>c. space_ch (byte c)) (concat (replicate indent ''    ''))"
    by (induction indent) (simp_all add: space_ch_def)
  then show ?thesis by (simp add: line_break_def space_ch_def)
qed

lemma lex_operator:
  assumes "c \<in> {CHR 0x7B, CHR 0x7D, CHR ''['', CHR '']'', CHR '','', CHR '':''}"
  shows "lex_all START (c # r) = operator c # lex_all START r"
proof -
  have "json_lexer IN_START (byte c) = Token JSON_OPERATOR"
    using assms by (elim insertE emptyE) (simp_all add: digit19_ch_def)
  then have "lex_run START [c] = (START, [operator c])"
    using lex_run_close [of IN_START c JSON_OPERATOR "[]"] first_column_start by simp
  from lex_all_run [OF this, of r] show ?thesis by simp
qed

section \<open>Literals\<close>

lemma lex_literal:
  assumes "lex_run START s = ((st, s), [])" and "json_lexer st 0 = Token ty" and "r = [] \<or> json_lexer st (byte (hd r)) = Token ty"
    and "ty \<noteq> JSON_SKIP"
  shows "lex_all START (s @ r) = (Token ty, s) # lex_all START r"
  using lex_all_run [OF assms(1), of r] lex_all_pending [OF assms(2,3)] assms(4) by simp

lemma lex_keyword:
  assumes "list_all (\<lambda>c. lower_ch (byte c)) s"
  shows "lex_run (IN_KEYWORD, tok) s = ((IN_KEYWORD, tok @ s), [])"
  using assms
proof (induction s arbitrary: tok)
  case (Cons c s)
  then show ?case using lex_run_state [of IN_KEYWORD c IN_KEYWORD tok s] by simp
qed simp

lemma lex_bool: "delimited r \<Longrightarrow> s \<in> {''true'', ''false''} \<Longrightarrow> lex_all START (s @ r) = (Token JSON_KEYWORD, s) # lex_all START r"
proof -
  assume r: "delimited r" and s: "s \<in> {''true'', ''false''}"
  have "list_all (\<lambda>c. lower_ch (byte c)) s" using s by (auto simp: lower_ch_def)
  moreover obtain c cs where c: "s = c # cs" using s by auto
  ultimately have l: "lower_ch (byte c)" "list_all (\<lambda>c. lower_ch (byte c)) cs" by simp_all
  have k: "json_lexer IN_START (byte c) = State IN_KEYWORD"
    using s c by (auto simp: lower_ch_def digit19_ch_def)
  have "lex_run START s = ((IN_KEYWORD, s), [])"
    using lex_run_start [OF k, of cs] lex_keyword [OF l(2), of "[c]"] c by simp
  then show ?thesis by (rule lex_literal [OF _ pending_columns(3) delimited_ends(3) [OF r]]) simp
qed

lemma digit_char: "n < 10 \<Longrightarrow> byte (char_of (48 + n)) = 48 + n"
  by (simp add: of_char_of)

lemma dec_nat_digits: "list_all (\<lambda>c. digit_ch (byte c)) (dec_nat n)"
proof (induction n rule: dec_nat.induct)
  case (1 n)
  then show ?case by (subst dec_nat.simps) (auto simp: digit_char digit_ch_def)
qed

lemma dec_nat_first: "0 < n \<Longrightarrow> \<exists>c cs. dec_nat n = c # cs \<and> digit19_ch (byte c)"
proof (induction n rule: dec_nat.induct)
  case (1 n)
  show ?case
  proof (cases "n < 10")
    case True
    then show ?thesis using 1(2) by (subst dec_nat.simps) (simp add: digit_char digit19_ch_def)
  next
    case False
    then obtain c cs where "dec_nat (n div 10) = c # cs" "digit19_ch (byte c)" using 1 by fastforce
    with False show ?thesis by (subst dec_nat.simps) simp
  qed
qed

lemma dec_nat_0: "dec_nat 0 = ''0''"
  by code_simp

lemma lex_digits:
  assumes "list_all (\<lambda>c. digit_ch (byte c)) s"
  shows "lex_run (IN_NONZERO_NUMBER, tok) s = ((IN_NONZERO_NUMBER, tok @ s), [])"
  using assms
proof (induction s arbitrary: tok)
  case (Cons c s)
  then show ?case using lex_run_state [of IN_NONZERO_NUMBER c IN_NONZERO_NUMBER tok s] by simp
qed simp

lemma start_digit:
  "digit19_ch k \<Longrightarrow> json_lexer IN_START k = State IN_NONZERO_NUMBER"
  "digit19_ch k \<Longrightarrow> json_lexer IN_NEG_NONZERO_NUMBER k = State IN_NONZERO_NUMBER"
  by (simp_all add: digit19_ch_def)

lemma start_minus: "json_lexer IN_START (byte CHR ''-'') = State IN_NEG_NONZERO_NUMBER"
  "json_lexer IN_START (byte CHR ''0'') = State IN_ZERO"
  by (simp_all add: digit19_ch_def)

lemma lex_positive:
  assumes "0 < n" and "\<And>k. digit19_ch k \<Longrightarrow> json_lexer s k = State IN_NONZERO_NUMBER"
  shows "lex_run (s, tok) (dec_nat n) = ((IN_NONZERO_NUMBER, tok @ dec_nat n), [])"
proof -
  obtain c cs where d: "dec_nat n = c # cs" "digit19_ch (byte c)" using dec_nat_first [OF assms(1)] by blast
  moreover have "list_all (\<lambda>c. digit_ch (byte c)) cs" using dec_nat_digits [of n] d(1) by simp
  ultimately show ?thesis using lex_run_state [OF assms(2), of c tok cs] lex_digits [of cs "tok @ [c]"] by simp
qed

lemma lex_int_run: "\<exists>st. st \<in> {IN_ZERO, IN_NONZERO_NUMBER} \<and> lex_run START (fmt_PRId64 w) = ((st, fmt_PRId64 w), [])"
proof -
  consider "sint w < 0" | "sint w = 0" | "0 < sint w" by linarith
  then show ?thesis
  proof cases
    case 1
    with lex_run_start [OF start_minus(1)] lex_positive [of "nat (- sint w)" IN_NEG_NONZERO_NUMBER "''-''"] start_digit(2)
    show ?thesis by (simp add: fmt_PRId64_def)
  next
    case 2
    with lex_run_start [OF start_minus(2), of "[]"] show ?thesis by (simp add: fmt_PRId64_def dec_nat_0)
  next
    case 3
    with lex_positive [of "nat (sint w)" IN_START "[]"] start_digit(1) show ?thesis by (simp add: fmt_PRId64_def)
  qed
qed

lemma lex_int:
  assumes "delimited r"
  shows "lex_all START (fmt_PRId64 w @ r) = (Token JSON_INTEGER, fmt_PRId64 w) # lex_all START r"
proof -
  obtain st where st: "st \<in> {IN_ZERO, IN_NONZERO_NUMBER}" "lex_run START (fmt_PRId64 w) = ((st, fmt_PRId64 w), [])"
    using lex_int_run by blast
  then have "json_lexer st 0 = Token JSON_INTEGER" "r = [] \<or> json_lexer st (byte (hd r)) = Token JSON_INTEGER"
    using pending_columns(1,2) delimited_ends(1,2) [OF assms] by blast+
  with st(2) show ?thesis by (intro lex_literal) simp_all
qed

section \<open>Strings\<close>

lemma dq_step:
  "byte c \<noteq> 0x22 \<Longrightarrow> byte c \<noteq> 0x5C \<Longrightarrow> text_ch (byte c) \<Longrightarrow> lex_run (IN_DQ_STRING, tok) (c # cs) = lex_run (IN_DQ_STRING, tok @ [c]) cs"
  using lex_run_state [of IN_DQ_STRING c IN_DQ_STRING tok cs] by simp

lemma dq_backslash: "lex_run (IN_DQ_STRING, tok) (CHR 0x5C # cs) = lex_run (IN_DQ_STRING_ESCAPE, tok @ [CHR 0x5C]) cs"
  using lex_run_state [of IN_DQ_STRING "CHR 0x5C" IN_DQ_STRING_ESCAPE tok cs] by simp

lemma dq_escape:
  assumes "c \<in> {CHR ''b'', CHR ''f'', CHR ''n'', CHR ''r'', CHR ''t'', CHR 0x5C, CHR 0x22}"
  shows "lex_run (IN_DQ_STRING, tok) [CHR 0x5C, c] = ((IN_DQ_STRING, tok @ [CHR 0x5C, c]), [])"
proof -
  have "json_lexer IN_DQ_STRING_ESCAPE (byte c) = State IN_DQ_STRING"
    using assms by (elim insertE emptyE) simp_all
  from lex_run_state [OF this, of "tok @ [CHR 0x5C]" "[]"] show ?thesis by (simp only: dq_backslash) simp
qed

lemma ucode_step: "hex_ch (byte c) \<Longrightarrow> json_lexer s (byte c) = ucode t (byte c) \<Longrightarrow> t \<noteq> IN_ERROR \<Longrightarrow>
    lex_run (s, tok) (c # cs) = lex_run (t, tok @ [c]) cs"
  by (rule lex_run_state) (simp_all add: ucode_def)

lemma dq_ucode:
  "lex_run (IN_DQ_STRING, tok) (CHR 0x5C # CHR ''u'' # fmt_04X w) = ((IN_DQ_STRING, tok @ CHR 0x5C # CHR ''u'' # fmt_04X w), [])"
proof -
  define d where "d k = hex_char (unat (drop_bit (4 * k) w AND 0xF))" for k
  have h: "hex_ch (byte (d k))" for k unfolding d_def using nibble_less by (rule hex_char_digit)
  have f: "fmt_04X w = [d 3, d 2, d 1, d 0]" by (simp add: fmt_04X_def d_def)
  have u: "lex_run (IN_DQ_STRING_ESCAPE, t) (CHR ''u'' # cs) = lex_run (IN_DQ_UCODE0, t @ ''u'') cs" for t cs
    using lex_run_state [of IN_DQ_STRING_ESCAPE "CHR ''u''" IN_DQ_UCODE0 t cs] by simp
  show ?thesis unfolding f dq_backslash u
    by (simp add: ucode_step [OF h, where s = IN_DQ_UCODE0 and t = IN_DQ_UCODE1]
      ucode_step [OF h, where s = IN_DQ_UCODE1 and t = IN_DQ_UCODE2]
      ucode_step [OF h, where s = IN_DQ_UCODE2 and t = IN_DQ_UCODE3]
      ucode_step [OF h, where s = IN_DQ_UCODE3 and t = IN_DQ_STRING] del: lex_run.simps(2))
qed

lemma lex_escape_one:
  assumes "0 < byte c" and "byte c < 0x80"
  shows "lex_run (IN_DQ_STRING, tok) (escape_one sc c) = ((IN_DQ_STRING, tok @ escape_one sc c), [])"
proof (cases "c \<in> {CHR 0x22, CHR 0x5C, CHR 0x08, CHR 0x0C, CHR 0x0A, CHR 0x0D, CHR 0x09}")
  case True
  then show ?thesis by (elim insertE emptyE) (simp_all add: escape_one_def dq_escape del: lex_run.simps)
next
  case False
  then have n: "c \<noteq> CHR 0x22" "c \<noteq> CHR 0x5C" "c \<noteq> CHR 0x08" "c \<noteq> CHR 0x0C" "c \<noteq> CHR 0x0A" "c \<noteq> CHR 0x0D" "c \<noteq> CHR 0x09"
    by blast+
  show ?thesis
  proof (cases "byte c \<le> 0x1F")
    case True
    then have "escape_one sc c = CHR 0x5C # CHR ''u'' # fmt_04X (of_char c)"
      unfolding escape_one_def using n by (simp only: if_False if_True append_Cons append_Nil)
    then show ?thesis using dq_ucode [of tok] by (simp only:)
  next
    case big: False
    then have "escape_one sc c = [c]"
      unfolding escape_one_def using n assms(2) by (simp only: if_False) auto
    moreover have "byte c \<noteq> byte CHR 0x22" "byte c \<noteq> byte CHR 0x5C" using n(1,2) char_byte by blast+
    then have "lex_run (IN_DQ_STRING, tok) [c] = lex_run (IN_DQ_STRING, tok @ [c]) []"
      using assms by (intro dq_step) (simp_all add: text_ch_def del: of_char_eq_iff)
    ultimately show ?thesis by simp
  qed
qed

lemma lex_escaped: "escaped sc s t \<Longrightarrow> lex_run (IN_DQ_STRING, tok) t = ((IN_DQ_STRING, tok @ t), [])"
proof (induction arbitrary: tok rule: escaped.induct)
  case (One c s t)
  then show ?case by (simp add: lex_run_append lex_escape_one)
next
  case (Code w cs s t)
  have "CHR 0x5C # CHR ''u'' # fmt_04X w @ t = (CHR 0x5C # CHR ''u'' # fmt_04X w) @ t" by simp
  then show ?case unfolding lex_run_append dq_ucode using Code.IH by (simp only: lex_run_append dq_ucode fst_conv snd_conv) simp
qed simp

lemma lex_string:
  assumes "bmp_text s"
  shows "lex_all START (json_string sc s @ r) = (Token JSON_STRING, json_string sc s) # lex_all START r"
proof -
  let ?t = "json_chars sc s"
  have s: "json_string sc s = CHR 0x22 # ?t @ [CHR 0x22]" using bmp_no_nul [OF assms] by (simp add: json_string_def)
  have "lex_run START (CHR 0x22 # ?t @ [CHR 0x22]) = lex_run (IN_DQ_STRING, [CHR 0x22]) (?t @ [CHR 0x22])"
    by (rule lex_run_start) simp_all
  moreover have "lex_run (IN_DQ_STRING, tok) [CHR 0x22] = (START, [(Token JSON_STRING, tok @ [CHR 0x22])])" for tok
    by (rule lex_run_close) (simp_all add: text_ch_def)
  ultimately have "lex_run START (json_string sc s) = (START, [(Token JSON_STRING, json_string sc s)])"
    unfolding s lex_run_append using lex_escaped [OF bmp_escaped [OF assms], of "[CHR 0x22]" sc] by (simp del: lex_run.simps(2))
  from lex_all_run [OF this, of r] show ?thesis by simp
qed

lemma unescape_string: "bmp_text s \<Longrightarrow> qstring_from_escaped_str (json_string sc s) = Inr s"
  using unescape_escaped [OF bmp_escaped, of s sc "[]" "[]"] bmp_no_nul [of s]
  by (simp add: qstring_from_escaped_str_def json_string_def)

section \<open>Integers\<close>

lemma digits_val_snoc:
  "list_all (\<lambda>c. digit_ch (byte c)) (s @ [c]) \<Longrightarrow> digits_val (s @ [c]) = digits_val s * 10 + (int (byte c) - 48)"
  by (simp add: digits_val_def list_all_iff takeWhile_eq_all_conv [THEN iffD2])

lemma digits_val_dec: "digits_val (dec_nat n) = int n"
proof (induction n rule: dec_nat.induct)
  case (1 n)
  show ?case
  proof (cases "n < 10")
    case True
    then show ?thesis by (subst dec_nat.simps) (simp add: digits_val_def digit_char digit_ch_def)
  next
    case False
    have d: "list_all (\<lambda>c. digit_ch (byte c)) (dec_nat (n div 10) @ [char_of (48 + n mod 10)])"
      using dec_nat_digits [of n] False by (subst (asm) dec_nat.simps) simp
    have "int (n div 10) * 10 + int (n mod 10) = int n" by presburger
    with False 1 digits_val_snoc [OF d] show ?thesis by (subst dec_nat.simps) (simp add: digit_char)
  qed
qed

lemma dec_nat_Cons: "\<exists>c cs. dec_nat n = c # cs \<and> digit_ch (byte c)"
proof -
  have "dec_nat n \<noteq> []" by (subst dec_nat.simps) simp
  then show ?thesis using dec_nat_digits [of n] by (cases "dec_nat n") simp_all
qed

lemma strtoll_fmt: "strtoll (fmt_PRId64 w) = w"
proof -
  have range: "- (2 ^ 63) \<le> sint w" "sint w \<le> 2 ^ 63 - 1" using sint_ge [of w] sint_lt [of w] by simp_all
  show ?thesis
  proof (cases "sint w < 0")
    case True
    then have "strtoll (fmt_PRId64 w) = word_of_int (max (- (2 ^ 63)) (min (2 ^ 63 - 1) (sint w)))"
      by (simp add: strtoll_def fmt_PRId64_def space_ch_def digits_val_dec)
    with range show ?thesis by simp
  next
    case False
    obtain c cs where c: "dec_nat (nat (sint w)) = c # cs" "digit_ch (byte c)" using dec_nat_Cons by blast
    from c(2) have "\<not> space_ch (byte c)" "byte c \<noteq> byte (CHR 0x0B)" "byte c \<noteq> byte (CHR 0x0C)" "byte c \<noteq> byte (CHR ''-'')" "byte c \<noteq> byte (CHR ''+'')"
      by (auto simp: digit_ch_def space_ch_def)
    then have n: "\<not> space_ch (byte c)" "c \<noteq> CHR 0x0B" "c \<noteq> CHR 0x0C" "c \<noteq> CHR ''-''" "c \<noteq> CHR ''+''" by blast+
    have "strtoll (fmt_PRId64 w) = word_of_int (max (- (2 ^ 63)) (min (2 ^ 63 - 1) (digits_val (dec_nat (nat (sint w))))))"
      unfolding strtoll_def fmt_PRId64_def using False n by (simp only: c(1) if_False dropWhile.simps simp_thms Let_def list.case)
    with range False show ?thesis by (simp add: digits_val_dec)
  qed
qed

end
