(* ===== verification/JsonRound.thy ===== *)
theory JsonRound
  imports JsonWords
begin

text \<open>
  The round trip of the control protocol's texts: the text the writer makes of an object is split into the tokens
  \<open>toks\<close>, the streamer hands exactly these on as one message, the grammar derives from them the object \<open>rebuild\<close>, and that
  object has the same contents (\<open>abs_obj\<close>) as the first one.
\<close>

section \<open>What a text stands for\<close>

text \<open>An object without the representation of its dictionaries.\<close>

datatype jval =
    JInt "64 word" | JString string | JDict "string \<Rightarrow> jval option" | JList "jval list" | JFloat "64 word" | JBool bool | JError

function abs_obj :: "QObject \<Rightarrow> jval" where
  "abs_obj (QInt w) = JInt w"
| "abs_obj (QString s) = JString s"
| "abs_obj (QDict_obj d) = JDict (map_of (map (\<lambda>(k, v). (k, abs_obj v)) (qdict_entries d)))"
| "abs_obj (QList vs) = JList (map abs_obj vs)"
| "abs_obj (QFloat w) = JFloat w"
| "abs_obj (QBool b) = JBool (b \<noteq> 0)"
| "abs_obj QError = JError"
  by pat_completeness auto
termination
  by (relation "measure size") (auto dest: qdict_entries_size simp: less_Suc_eq_le intro: size_list_estimation')

text \<open>The objects that are read back: no doubles, texts of characters of at most three bytes, and dictionaries in order.\<close>

function json_ok :: "QObject \<Rightarrow> bool" where
  "json_ok (QInt w) = True"
| "json_ok (QString s) = bmp_text s"
| "json_ok (QDict_obj d) = (qdict_ok d \<and> list_all (\<lambda>(k, v). bmp_text k \<and> json_ok v) (qdict_entries d))"
| "json_ok (QList vs) = list_all json_ok vs"
| "json_ok (QFloat w) = False"
| "json_ok (QBool b) = True"
| "json_ok QError = False"
  by pat_completeness auto
termination
  by (relation "measure size") (auto dest: qdict_entries_size simp: less_Suc_eq_le intro: size_list_estimation')

text \<open>How deep dictionaries and lists are nested.\<close>

function obj_depth :: "QObject \<Rightarrow> nat" where
  "obj_depth (QInt w) = 0"
| "obj_depth (QString s) = 0"
| "obj_depth (QDict_obj d) = Suc (fold (\<lambda>(k, v). max (obj_depth v)) (qdict_entries d) 0)"
| "obj_depth (QList vs) = Suc (fold (\<lambda>v. max (obj_depth v)) vs 0)"
| "obj_depth (QFloat w) = 0"
| "obj_depth (QBool b) = 0"
| "obj_depth QError = 0"
  by pat_completeness auto
termination
  by (relation "measure size") (auto dest: qdict_entries_size simp: less_Suc_eq_le intro: size_list_estimation')

text \<open>The tokens of an object's text, and the object built from them again.\<close>

fun item_toks :: "nat \<Rightarrow> key_token list list \<Rightarrow> key_token list" where
  "item_toks count [] = []"
| "item_toks count (ks # kss) = (if count \<noteq> 0 then [operator CHR '','' ] else []) @ ks @ item_toks (count + 1) kss"

function toks :: "bool \<Rightarrow> QObject \<Rightarrow> key_token list" where
  "toks sc (QInt w) = [(Token JSON_INTEGER, fmt_PRId64 w)]"
| "toks sc (QString s) = [(Token JSON_STRING, json_string sc s)]"
| "toks sc (QDict_obj d) = operator CHR 0x7B # item_toks 0
     (map (\<lambda>(k, v). (Token JSON_STRING, json_string sc k) # operator CHR '':'' # toks sc v) (qdict_entries d)) @ [operator CHR 0x7D]"
| "toks sc (QList vs) = operator CHR ''['' # item_toks 0 (map (toks sc) vs) @ [operator CHR '']'']"
| "toks sc (QFloat w) = []"
| "toks sc (QBool b) = [(Token JSON_KEYWORD, if b \<noteq> 0 then ''true'' else ''false'')]"
| "toks sc QError = []"
  by pat_completeness auto
termination
  by (relation "measure (\<lambda>(_, v). size v)") (auto dest: qdict_entries_size simp: less_Suc_eq_le intro: size_list_estimation')

function rebuild :: "QObject \<Rightarrow> QObject" where
  "rebuild (QInt w) = QInt w"
| "rebuild (QString s) = QString s"
| "rebuild (QDict_obj d) = QDict_obj (qd.put_all (map (\<lambda>(k, v). (k, rebuild v)) (qdict_entries d)) qdict_new)"
| "rebuild (QList vs) = QList (map rebuild vs)"
| "rebuild (QFloat w) = QFloat w"
| "rebuild (QBool b) = QBool (if b \<noteq> 0 then 1 else 0)"
| "rebuild QError = QError"
  by pat_completeness auto
termination
  by (relation "measure size") (auto dest: qdict_entries_size simp: less_Suc_eq_le intro: size_list_estimation')

text \<open>Induction over an object, with the values of its parts.\<close>

lemma obj_induct [case_names Int String Dict List Float Bool Error]:
  assumes "\<And>w. P (QInt w)" and "\<And>s. P (QString s)" and "\<And>d. (\<And>k v. (k, v) \<in> set (qdict_entries d) \<Longrightarrow> P v) \<Longrightarrow> P (QDict_obj d)"
    and "\<And>vs. (\<And>v. v \<in> set vs \<Longrightarrow> P v) \<Longrightarrow> P (QList vs)" and "\<And>w. P (QFloat w)" and "\<And>b. P (QBool b)" and "P QError"
  shows "P v"
  by (rule rebuild.induct [of P]) (use assms in blast)+

text \<open>The abstraction does not see the rebuilding.\<close>

lemma map_of_map_value: "map_of (map (\<lambda>(k, v). (k, f v)) es) = map_option f \<circ> map_of es"
  by (rule ext) (induction es, auto)

lemma map_entries: "qdict_ok d \<Longrightarrow> map_of (map (\<lambda>(k, v). (k, f v)) (qdict_entries d)) = map_option f \<circ> qdict_get d"
  by (simp add: map_of_map_value qdict_entries_facts(2))

lemma abs_dict: "qdict_ok d \<Longrightarrow> abs_obj (QDict_obj d) = JDict (map_option abs_obj \<circ> qdict_get d)"
  by (simp add: map_of_map_value qdict_entries_facts(2))

lemma keys_map_value: "map fst (map (\<lambda>(k, v). (k, f v)) es) = map fst es"
  by (induction es) auto

lemma abs_rebuild: "json_ok v \<Longrightarrow> abs_obj (rebuild v) = abs_obj v"
proof (induction v rule: obj_induct)
  case (Dict d)
  let ?es = "map (\<lambda>(k, v). (k, rebuild v)) (qdict_entries d)"
  have ok: "qdict_ok d" using Dict.prems by simp
  have dist: "distinct (map fst ?es)" using qdict_entries_facts(1) [OF ok] by (simp only: keys_map_value)
  have "abs_obj (rebuild (QDict_obj d)) = JDict (map_option abs_obj \<circ> map_of ?es)"
    using abs_dict [OF qd.ok_put_all [OF qdict_new_ok], of ?es] qd.get_put_all_new [OF dist] by simp
  also have "map_option abs_obj \<circ> map_of ?es = map_of (map (\<lambda>(k, v). (k, abs_obj (rebuild v))) (qdict_entries d))"
    by (simp only: map_of_map_value [of rebuild] map_of_map_value [of "\<lambda>v. abs_obj (rebuild v)"]) (simp add: fun_eq_iff option.map_comp comp_def)
  also have "map (\<lambda>(k, v). (k, abs_obj (rebuild v))) (qdict_entries d) = map (\<lambda>(k, v). (k, abs_obj v)) (qdict_entries d)"
    using Dict by (auto simp: list_all_iff)
  finally show ?case by simp
qed (auto simp: list_all_iff)

section \<open>The lexer on a text\<close>

definition reads_as :: "string \<Rightarrow> key_token list \<Rightarrow> bool" where
  "reads_as t ks \<longleftrightarrow> (\<exists>c cs. t = c # cs \<and> byte c < 0x80 \<and> \<not> space_ch (byte c)) \<and>
     (\<forall>r. delimited r \<longrightarrow> lex_all START (t @ r) = ks @ lex_all START r)"

lemma reads_asD: "reads_as t ks \<Longrightarrow> delimited r \<Longrightarrow> lex_all START (t @ r) = ks @ lex_all START r"
  by (simp add: reads_as_def)

lemma reads_as_begins: "reads_as t ks \<Longrightarrow> begins (t @ r)"
  by (auto simp: reads_as_def begins_def)

lemma delimited_items: "delimited r \<Longrightarrow> delimited (json_items pretty indent (Suc n) ts @ r)"
  by (cases ts) (simp_all add: delimited_def)

lemma lex_items:
  assumes "\<forall>(t, ks) \<in> set ps. reads_as t ks" and "delimited r"
  shows "lex_all START (json_items pretty indent n (map fst ps) @ r) = item_toks n (map snd ps) @ lex_all START r"
  using assms(1)
proof (induction ps arbitrary: n)
  case (Cons p ps)
  obtain t ks where p: "p = (t, ks)" by fastforce
  let ?rest = "json_items pretty indent (Suc n) (map fst ps) @ r"
  have t: "reads_as t ks" using Cons.prems p by simp
  have rest: "lex_all START (t @ ?rest) = ks @ item_toks (Suc n) (map snd ps) @ lex_all START r"
    using reads_asD [OF t delimited_items [OF assms(2)]] Cons by simp
  have skip: "lex_all START (line_break pretty indent @ t @ ?rest) = lex_all START (t @ ?rest)"
    using spaces_line_break reads_as_begins [OF t] by (rule lex_skip)
  have "list_all (\<lambda>c. space_ch (byte c)) ('' '' @ line_break pretty indent)"
    using spaces_line_break by (simp add: space_ch_def)
  from lex_skip [OF this reads_as_begins [OF t, of ?rest]] lex_operator [of "CHR '',''" "'' '' @ line_break pretty indent @ t @ ?rest"]
  have "lex_all START ('', '' @ line_break pretty indent @ t @ ?rest) = operator CHR '','' # lex_all START (t @ ?rest)"
    by simp
  with skip rest show ?case by (cases n) (simp_all add: p)
qed simp

lemma lex_container:
  assumes "\<forall>(t, ks) \<in> set ps. reads_as t ks" and "c \<in> {CHR 0x7B, CHR ''[''}" and "e \<in> {CHR 0x7D, CHR '']''}"
  shows "reads_as (c # json_items pretty (indent + 1) 0 (map fst ps) @ line_break pretty indent @ [e])
    (operator c # item_toks 0 (map snd ps) @ [operator e])"
  unfolding reads_as_def
proof (intro conjI allI impI exI)
  show "byte c < 0x80" "\<not> space_ch (byte c)" using assms(2) by (auto simp: space_ch_def)
  fix r assume "delimited r"
  have "delimited (line_break pretty indent @ [e] @ r)"
    using assms(3) by (cases pretty) (auto simp: delimited_def line_break_def)
  note items = lex_items [OF assms(1) this, of pretty "indent + 1" 0]
  have "begins ([e] @ r)" using assms(3) by (auto simp: begins_def space_ch_def)
  from lex_skip [OF spaces_line_break this, of pretty indent] lex_operator [of e r] assms(3)
  have "lex_all START (line_break pretty indent @ [e] @ r) = operator e # lex_all START r" by auto
  with items lex_operator [of c "json_items pretty (indent + 1) 0 (map fst ps) @ line_break pretty indent @ [e] @ r"] assms(2)
  show "lex_all START ((c # json_items pretty (indent + 1) 0 (map fst ps) @ line_break pretty indent @ [e]) @ r) =
      (operator c # item_toks 0 (map snd ps) @ [operator e]) @ lex_all START r" by auto
qed simp

lemma reads_pair:
  assumes "bmp_text k" and "reads_as t ks"
  shows "reads_as (json_string sc k @ '': '' @ t) ((Token JSON_STRING, json_string sc k) # operator CHR '':'' # ks)"
  unfolding reads_as_def
proof (intro conjI allI impI)
  show "\<exists>c cs. json_string sc k @ '': '' @ t = c # cs \<and> byte c < 0x80 \<and> \<not> space_ch (byte c)"
    by (simp add: json_string_def space_ch_def)
  fix r assume r: "delimited r"
  have "lex_all START ('' '' @ t @ r) = lex_all START (t @ r)"
    by (rule lex_skip [OF _ reads_as_begins [OF assms(2)]]) (simp add: space_ch_def)
  then show "lex_all START ((json_string sc k @ '': '' @ t) @ r) =
      ((Token JSON_STRING, json_string sc k) # operator CHR '':'' # ks) @ lex_all START r"
    using reads_asD [OF assms(2) r] lex_string [OF assms(1), of sc "'': '' @ t @ r"] lex_operator [of "CHR '':''" "'' '' @ t @ r"]
    by simp
qed

lemma fmt_first: "\<exists>c cs. fmt_PRId64 w = c # cs \<and> byte c < 0x80 \<and> \<not> space_ch (byte c)"
proof -
  have d: "digit_ch k \<Longrightarrow> k < 0x80 \<and> \<not> space_ch k" for k by (auto simp: digit_ch_def space_ch_def)
  obtain c cs where "dec_nat (nat (sint w)) = c # cs" "digit_ch (byte c)" using dec_nat_Cons by blast
  with d [of "byte c"] show ?thesis by (simp add: fmt_PRId64_def space_ch_def)
qed

text \<open>The text of an object, in any layout, becomes its tokens.\<close>

lemma lex_value: "json_ok v \<Longrightarrow> reads_as (to_json sc fmt_f pretty indent v) (toks sc v)"
proof (induction v arbitrary: indent rule: obj_induct)
  case (Int w)
  then show ?case using fmt_first lex_int by (simp add: reads_as_def)
next
  case (String s)
  then show ?case using lex_string by (simp add: reads_as_def) (simp add: json_string_def space_ch_def)
next
  case (Dict d)
  define ps where "ps = map (\<lambda>(k, v). (json_string sc k @ '': '' @ to_json sc fmt_f pretty (indent + 1) v,
    (Token JSON_STRING, json_string sc k) # operator CHR '':'' # toks sc v)) (qdict_entries d)"
  have "\<forall>(t, ks) \<in> set ps. reads_as t ks"
    using Dict reads_pair unfolding ps_def by (fastforce simp: list_all_iff)
  moreover have "map fst ps = map (\<lambda>(k, v). json_string sc k @ '': '' @ to_json sc fmt_f pretty (indent + 1) v) (qdict_entries d)"
    "map snd ps = map (\<lambda>(k, v). (Token JSON_STRING, json_string sc k) # operator CHR '':'' # toks sc v) (qdict_entries d)"
    by (simp_all add: ps_def split_beta)
  ultimately show ?case using lex_container [of ps "CHR 0x7B" "CHR 0x7D" pretty indent]
    by (simp only: to_json.simps toks.simps) simp
next
  case (List vs)
  define ps where "ps = map (\<lambda>v. (to_json sc fmt_f pretty (indent + 1) v, toks sc v)) vs"
  have "\<forall>(t, ks) \<in> set ps. reads_as t ks" using List unfolding ps_def by (fastforce simp: list_all_iff)
  moreover have "map fst ps = map (to_json sc fmt_f pretty (indent + 1)) vs" "map snd ps = map (toks sc) vs"
    by (simp_all add: ps_def)
  ultimately show ?case using lex_container [of ps "CHR ''[''" "CHR '']''" pretty indent]
    by (simp only: to_json.simps toks.simps) simp
next
  case (Bool b)
  then show ?case using lex_bool by (simp add: reads_as_def) (simp add: space_ch_def)
qed simp_all


section \<open>The grammar on the tokens\<close>

lemma item_toks_same: "item_toks (Suc n) kss = item_toks (Suc m) kss"
proof (induction kss arbitrary: n m)
  case (Cons ks kss)
  show ?case using Cons.IH [of "Suc n" "Suc m"] by simp
qed simp

lemma item_toks_cases:
  "item_toks 0 [ks] = ks" "kss \<noteq> [] \<Longrightarrow> item_toks 0 (ks # kss) = ks @ operator CHR '','' # item_toks 0 kss"
proof -
  show "item_toks 0 [ks] = ks" by simp
  assume "kss \<noteq> []"
  then obtain l ls where "kss = l # ls" by (cases kss) auto
  then show "item_toks 0 (ks # kss) = ks @ operator CHR '','' # item_toks 0 kss"
    using item_toks_same [of 1 ls 0] by simp
qed

lemma elements_items:
  "vs \<noteq> [] \<Longrightarrow> \<forall>v \<in> set vs. derives strtod (f v) (g v) \<Longrightarrow> elements strtod (map f vs) (item_toks 0 (map g vs))"
proof (induction vs)
  case (Cons v vs)
  show ?case
  proof (cases "vs = []")
    case True
    with Cons.prems show ?thesis by (simp add: derives_members_elements.Element)
  next
    case False
    with Cons derives_members_elements.Elements [of strtod "f v" "g v" "map f vs" "item_toks 0 (map g vs)"]
      item_toks_cases(2) [of "map g vs" "g v"]
    show ?thesis by (simp del: item_toks.simps)
  qed
qed simp

lemma members_items:
  "es \<noteq> [] \<Longrightarrow> \<forall>(k, v) \<in> set es. derives strtod (QString k) [g k] \<and> derives strtod (f v) (h v) \<Longrightarrow>
   members strtod (map (\<lambda>(k, v). (k, f v)) es) (item_toks 0 (map (\<lambda>(k, v). g k # operator CHR '':'' # h v) es))"
proof (induction es)
  case (Cons e es)
  obtain k v where e: "e = (k, v)" by fastforce
  show ?case
  proof (cases "es = []")
    case True
    with Cons.prems e derives_members_elements.Member [of strtod k "[g k]" "f v" "h v"] show ?thesis by simp
  next
    case False
    let ?us = "item_toks 0 (map (\<lambda>(k, v). g k # operator CHR '':'' # h v) es)"
    let ?kvs = "map (\<lambda>(k, v). (k, f v)) es"
    from False Cons e derives_members_elements.Members [of strtod k "[g k]" "f v" "h v" ?kvs ?us]
      item_toks_cases(2) [of "map (\<lambda>(k, v). g k # operator CHR '':'' # h v) es" "g k # operator CHR '':'' # h v"]
    show ?thesis by (simp del: item_toks.simps)
  qed
qed simp

lemma derives_string: "bmp_text s \<Longrightarrow> derives strtod (QString s) [(Token JSON_STRING, json_string sc s)]"
  by (rule derives_members_elements.Str) (rule unescape_string)

lemma derives_toks: "json_ok v \<Longrightarrow> derives strtod (rebuild v) (toks sc v)"
proof (induction v rule: obj_induct)
  case (Int w)
  show ?case using derives_members_elements.Int [of strtod "fmt_PRId64 w"] by (simp add: strtoll_fmt)
next
  case (String s)
  then show ?case by (simp add: derives_string)
next
  case (Dict d)
  show ?case
  proof (cases "qdict_entries d = []")
    case True
    then show ?thesis by (simp add: derives_members_elements.Empty_dict)
  next
    case False
    have "\<forall>(k, v) \<in> set (qdict_entries d). derives strtod (QString k) [(Token JSON_STRING, json_string sc k)] \<and>
        derives strtod (rebuild v) (toks sc v)"
      using Dict derives_string by (fastforce simp: list_all_iff)
    from derives_members_elements.Dict [OF members_items [OF False this]] show ?thesis by simp
  qed
next
  case (List vs)
  show ?case
  proof (cases "vs = []")
    case True
    then show ?thesis by (simp add: derives_members_elements.Empty_list)
  next
    case False
    have "\<forall>v \<in> set vs. derives strtod (rebuild v) (toks sc v)" using List by (simp add: list_all_iff)
    from derives_members_elements.List [OF elements_items [OF False this]] show ?thesis by simp
  qed
next
  case (Bool b)
  then show ?case by (simp add: derives_members_elements.True derives_members_elements.False)
qed simp_all

section \<open>The streamer on the tokens\<close>

text \<open>Tokens inside a message that are taken in without ending it.\<close>

definition absorbed :: "nat \<Rightarrow> key_token list \<Rightarrow> bool" where
  "absorbed n ks \<longleftrightarrow> (\<forall>ts p. map tk_key ts = ks \<and> 0 \<le> brace_count p \<and> 0 \<le> bracket_count p \<and>
     0 < brace_count p + bracket_count p \<and> brace_count p + int n \<le> MAX_NESTING \<and> bracket_count p + int n \<le> MAX_NESTING \<and>
     token_size p + text_length ts \<le> MAX_TOKEN_SIZE \<longrightarrow>
     process_tokens ts p = (p\<lparr>token_size := token_size p + text_length ts, jp_tokens := jp_tokens p @ ts\<rparr>, []))"

lemma process_tokens_append:
  "process_tokens (ts @ us) p =
    (fst (process_tokens us (fst (process_tokens ts p))), snd (process_tokens ts p) @ snd (process_tokens us (fst (process_tokens ts p))))"
  by (induction ts arbitrary: p) (simp_all add: split_beta)

lemma absorbed_Nil: "absorbed n []"
  by (simp add: absorbed_def)

lemma absorbed_append:
  assumes "absorbed n ks" and "absorbed n ls"
  shows "absorbed n (ks @ ls)"
  unfolding absorbed_def
proof (intro allI impI, elim conjE)
  fix ts :: "JSONToken list" and p :: JSONMessageParser
  assume m: "map tk_key ts = ks @ ls" and p: "0 \<le> brace_count p" "0 \<le> bracket_count p"
    "0 < brace_count p + bracket_count p" "brace_count p + int n \<le> MAX_NESTING" "bracket_count p + int n \<le> MAX_NESTING"
    "token_size p + text_length ts \<le> MAX_TOKEN_SIZE"
  from m obtain t1 t2 where t: "ts = t1 @ t2" "map tk_key t1 = ks" "map tk_key t2 = ls" by (auto simp: map_eq_append_conv)
  let ?q = "p\<lparr>token_size := token_size p + text_length t1, jp_tokens := jp_tokens p @ t1\<rparr>"
  have "process_tokens t1 p = (?q, [])" using assms(1) t p unfolding absorbed_def by simp
  moreover have "process_tokens t2 ?q = (?q\<lparr>token_size := token_size ?q + text_length t2, jp_tokens := jp_tokens ?q @ t2\<rparr>, [])"
    using assms(2) t p unfolding absorbed_def by simp
  ultimately show "process_tokens ts p = (p\<lparr>token_size := token_size p + text_length ts, jp_tokens := jp_tokens p @ ts\<rparr>, [])"
    by (simp add: t(1) process_tokens_append add.assoc)
qed

lemma absorbed_mono: "absorbed n ks \<Longrightarrow> n \<le> m \<Longrightarrow> absorbed m ks"
  unfolding absorbed_def by simp

text \<open>A token that is neither a bracket nor an error.\<close>

definition plain :: "key_token \<Rightarrow> bool" where
  "plain k \<longleftrightarrow> fst k \<noteq> Token JSON_ERROR \<and> (fst k = Token JSON_OPERATOR \<longrightarrow> snd k \<in> {'','', '':''})"

lemma count_plain: "plain (tk_key t) \<Longrightarrow> count_operator t p = p"
  by (auto simp: plain_def count_operator_def tk_key_def split: list.split)

lemma absorbed_plain: "plain k \<Longrightarrow> absorbed n [k]"
  unfolding absorbed_def
proof (intro allI impI, elim conjE)
  fix ts :: "JSONToken list" and p :: JSONMessageParser
  assume k: "plain k" and m: "map tk_key ts = [k]" and p: "0 \<le> brace_count p" "0 \<le> bracket_count p"
    "0 < brace_count p + bracket_count p" "brace_count p + int n \<le> MAX_NESTING" "bracket_count p + int n \<le> MAX_NESTING"
    "token_size p + text_length ts \<le> MAX_TOKEN_SIZE"
  from m obtain t where t: "ts = [t]" "tk_key t = k" by (auto simp: map_eq_Cons_conv)
  then have "count_operator t p = p" "tk_type t \<noteq> Token JSON_ERROR"
    using k count_plain [of t p] by (auto simp: plain_def tk_key_def)
  moreover have "\<not> (brace_count p = 0 \<and> bracket_count p = 0)" using p by linarith
  ultimately show "process_tokens ts p = (p\<lparr>token_size := token_size p + text_length ts, jp_tokens := jp_tokens p @ ts\<rparr>, [])"
    using p t(1) by (auto simp: json_message_process_token_def Let_def)
qed

text \<open>Tokens between a pair of brackets; the outermost pair ends the message.\<close>

definition open_count :: "char \<Rightarrow> int \<Rightarrow> JSONMessageParser \<Rightarrow> JSONMessageParser" where
  "open_count c n p = (if c = CHR 0x7B then p\<lparr>brace_count := brace_count p + n\<rparr> else p\<lparr>bracket_count := bracket_count p + n\<rparr>)"

abbreviation bracket_pairs :: "(char \<times> char) set" where
  "bracket_pairs \<equiv> {(CHR 0x7B, CHR 0x7D), (CHR ''['', CHR '']'')}"

lemma count_brackets:
  assumes "(c, e) \<in> bracket_pairs"
  shows "tk_key t = operator c \<Longrightarrow> count_operator t p = open_count c 1 p" "tk_key t = operator e \<Longrightarrow> count_operator t p = open_count c (- 1) p"
  using assms by (auto simp: count_operator_def open_count_def tk_key_def)

lemma enclosed:
  assumes "absorbed n ks" and "(c, e) \<in> bracket_pairs" and "map tk_key ts = operator c # ks @ [operator e]"
    and "0 \<le> brace_count p" and "0 \<le> bracket_count p"
    and "brace_count p + int (Suc n) \<le> MAX_NESTING" and "bracket_count p + int (Suc n) \<le> MAX_NESTING"
    and "token_size p + text_length ts \<le> MAX_TOKEN_SIZE"
  defines "q \<equiv> p\<lparr>token_size := token_size p + text_length ts, jp_tokens := jp_tokens p @ ts\<rparr>"
  shows "process_tokens ts p = (if brace_count p = 0 \<and> bracket_count p = 0 then message_emit (Some (jp_tokens p @ ts)) q else (q, []))"
proof -
  from assms(3) obtain t us u where ts: "ts = t # us @ [u]" and t: "tk_key t = operator c" and u: "tk_key u = operator e"
    and us: "map tk_key us = ks" by (auto simp: map_eq_Cons_conv map_eq_append_conv)
  let ?p1 = "(open_count c 1 p)\<lparr>token_size := token_size p + length (tk_text t), jp_tokens := jp_tokens p @ [t]\<rparr>"
  let ?p2 = "?p1\<lparr>token_size := token_size ?p1 + text_length us, jp_tokens := jp_tokens ?p1 @ us\<rparr>"
  have ty: "tk_type t \<noteq> Token JSON_ERROR" "tk_type u \<noteq> Token JSON_ERROR" using t u by (simp_all add: tk_key_def)
  have bc: "bracket_count ?p1 = bracket_count p \<and> brace_count ?p1 = brace_count p + 1 \<or>
      bracket_count ?p1 = bracket_count p + 1 \<and> brace_count ?p1 = brace_count p"
    by (simp add: open_count_def)
  have sz: "token_size (open_count c i p) = token_size p" "jp_tokens (open_count c i p) = jp_tokens p" for i
    by (simp_all add: open_count_def)
  have "json_message_process_token t p = (?p1, [])"
    using count_brackets(1) [OF assms(2) t, of p] ty bc assms(4-8) ts
    by (auto simp: json_message_process_token_def Let_def sz)
  moreover have "process_tokens us ?p1 = (?p2, [])"
    using assms(1,4-8) us ts bc unfolding absorbed_def by auto
  moreover have "open_count c (- 1) ?p2 = p\<lparr>token_size := token_size ?p2, jp_tokens := jp_tokens ?p2\<rparr>"
    by (simp add: open_count_def)
  then have "json_message_process_token u ?p2 = (if brace_count p = 0 \<and> bracket_count p = 0 then message_emit (Some (jp_tokens p @ ts)) q else (q, []))"
    using count_brackets(2) [OF assms(2) u, of ?p2] ty assms(4-8) ts
    by (auto simp: json_message_process_token_def Let_def q_def message_emit_def add.assoc)
  ultimately show ?thesis by (simp add: ts process_tokens_append message_emit_def)
qed

lemma absorbed_enclosed:
  assumes "absorbed n ks" and "(c, e) \<in> bracket_pairs"
  shows "absorbed (Suc n) (operator c # ks @ [operator e])"
  unfolding absorbed_def
proof (intro allI impI, elim conjE)
  fix ts :: "JSONToken list" and p :: JSONMessageParser
  assume "map tk_key ts = operator c # ks @ [operator e]" and "0 \<le> brace_count p" and "0 \<le> bracket_count p"
    and pos: "0 < brace_count p + bracket_count p"
    and "brace_count p + int (Suc n) \<le> MAX_NESTING" and "bracket_count p + int (Suc n) \<le> MAX_NESTING"
    and "token_size p + text_length ts \<le> MAX_TOKEN_SIZE"
  from enclosed [OF assms this(1-3,5-7)] pos
  show "process_tokens ts p = (p\<lparr>token_size := token_size p + text_length ts, jp_tokens := jp_tokens p @ ts\<rparr>, [])"
    by (auto split: if_splits)
qed

lemma absorbed_items:
  "\<forall>ks \<in> set kss. absorbed n ks \<Longrightarrow> absorbed n (item_toks m kss)"
proof (induction kss arbitrary: m)
  case (Cons ks kss)
  have "absorbed n [operator CHR '','']" by (rule absorbed_plain) (simp add: plain_def)
  with Cons show ?case by (auto intro!: absorbed_append absorbed_Nil simp del: append_Cons append_Nil)
qed (simp add: absorbed_Nil)

lemma depth_le: "x \<in> set xs \<Longrightarrow> f x \<le> fold (\<lambda>x. max (f x)) xs m" for f :: "'a \<Rightarrow> nat"
proof (induction xs arbitrary: m)
  case (Cons y ys)
  have "n \<le> fold (\<lambda>x. max (f x)) zs n" for n zs
    by (induction zs arbitrary: n) (auto intro: order_trans [OF max.cobounded2])
  from this [of "max (f x) m" ys] Cons show ?case by (cases "y = x") simp_all
qed simp

lemma fold_entries: "fold (\<lambda>(k, v). max (f v)) es m = fold (\<lambda>e. max (f (snd e))) es m"
  by (rule fold_cong) auto

text \<open>The tokens of an object are one token or a pair of brackets with tokens between them.\<close>

definition shaped :: "nat \<Rightarrow> key_token list \<Rightarrow> bool" where
  "shaped n ks \<longleftrightarrow> (\<exists>k. ks = [k] \<and> plain k) \<or>
     (\<exists>m c ls e. n = Suc m \<and> ks = operator c # ls @ [operator e] \<and> (c, e) \<in> bracket_pairs \<and> absorbed m ls)"

lemma shaped_absorbed: "shaped n ks \<Longrightarrow> n \<le> m \<Longrightarrow> absorbed m ks"
  unfolding shaped_def
proof (elim disjE exE conjE)
  fix k assume "ks = [k]" "plain k"
  then show "absorbed m ks" by (simp add: absorbed_plain)
next
  fix i c ls e assume "n = Suc i" "ks = operator c # ls @ [operator e]" "(c, e) \<in> bracket_pairs" "absorbed i ls" "n \<le> m"
  then show "absorbed m ks" using absorbed_mono [OF absorbed_enclosed, of i ls c e m] by (auto simp del: insert_iff)
qed

lemma shaped_toks: "json_ok v \<Longrightarrow> shaped (obj_depth v) (toks sc v)"
proof (induction v rule: obj_induct)
  case (Dict d)
  let ?n = "fold (\<lambda>(k, v). max (obj_depth v)) (qdict_entries d) 0"
  have colon: "absorbed n [(Token JSON_STRING, x), operator CHR '':'']" for n x
    using absorbed_append [OF absorbed_plain absorbed_plain, of "(Token JSON_STRING, x)" "operator CHR '':''" n]
    by (simp add: plain_def)
  have "absorbed ?n ((Token JSON_STRING, json_string sc k) # operator CHR '':'' # toks sc v)" if "(k, v) \<in> set (qdict_entries d)" for k v
  proof -
    have "obj_depth v \<le> ?n" using depth_le [OF that, of "\<lambda>e. obj_depth (snd e)" 0] by (simp only: fold_entries snd_conv)
    moreover have "shaped (obj_depth v) (toks sc v)" using Dict that by (fastforce simp: list_all_iff)
    ultimately have "absorbed ?n (toks sc v)" using shaped_absorbed by blast
    from absorbed_append [OF colon this] show ?thesis by simp
  qed
  then have "absorbed ?n (item_toks 0 (map (\<lambda>(k, v). (Token JSON_STRING, json_string sc k) # operator CHR '':'' # toks sc v) (qdict_entries d)))"
    by (intro absorbed_items) auto
  then show ?case by (auto simp: shaped_def)
next
  case (List vs)
  let ?n = "fold (\<lambda>v. max (obj_depth v)) vs 0"
  have "absorbed ?n (toks sc v)" if "v \<in> set vs" for v
  proof -
    have "shaped (obj_depth v) (toks sc v)" using List that by (simp add: list_all_iff)
    then show ?thesis by (rule shaped_absorbed) (rule depth_le [OF that])
  qed
  then have "absorbed ?n (item_toks 0 (map (toks sc) vs))" by (intro absorbed_items) auto
  then show ?case by (auto simp: shaped_def)
qed (simp_all add: shaped_def plain_def)

text \<open>So they are one message.\<close>

lemma one_message:
  assumes "shaped n (map tk_key ts)" and "n \<le> 1024" and "text_length ts \<le> MAX_TOKEN_SIZE"
    and "brace_count p = 0" and "bracket_count p = 0" and "jp_tokens p = []" and "token_size p = 0"
  shows "\<exists>q. process_tokens ts p = (q, [Some ts]) \<and> jp_lexer q = jp_lexer p"
  using assms(1) unfolding shaped_def
proof (elim disjE exE conjE)
  fix k assume k: "map tk_key ts = [k]" "plain k"
  then obtain t where t: "ts = [t]" "tk_key t = k" by (auto simp: map_eq_Cons_conv)
  then have "count_operator t p = p" "tk_type t \<noteq> Token JSON_ERROR"
    using k(2) count_plain [of t p] by (auto simp: plain_def tk_key_def)
  with t(1) assms(4-7) show ?thesis by (simp add: json_message_process_token_def Let_def message_emit_def)
next
  fix m c ls e assume "n = Suc m" "map tk_key ts = operator c # ls @ [operator e]" "(c, e) \<in> bracket_pairs" "absorbed m ls"
  with enclosed [of m ls c e ts p] assms(2-7) show ?thesis by (simp add: message_emit_def)
qed

section \<open>The round trip\<close>

lemma lex_char_size:
  "length (snd (fst (lex_char st c flush))) + sum_list (map (length \<circ> snd) (snd (lex_char st c flush))) \<le> Suc (length (snd st))"
  by (cases st) (auto simp: lex_start_def Let_def simp del: json_lexer.simps split: lexer_code.splits)

lemma feed_run:
  "json_lexer_feed s lx = (lx1, out) \<Longrightarrow> length (lx_token lx) + length s \<le> MAX_TOKEN_SIZE \<Longrightarrow>
   lex_run (lx_core lx) s = (lx_core lx1, map tk_key out) \<and> length (lx_token lx1) + text_length out \<le> length (lx_token lx) + length s"
proof (induction s arbitrary: lx lx1 out)
  case (Cons c s)
  obtain lx2 out2 where c: "json_lexer_feed_char c False lx = (lx2, out2)" by fastforce
  obtain lx3 out3 where s: "json_lexer_feed s lx2 = (lx3, out3)" by fastforce
  have eq: "lx1 = lx3" "out = out2 @ out3" using Cons.prems(1) c s by simp_all
  have tok: "snd (lx_core l) = lx_token l" for l by (simp add: lx_core_def)
  have sum: "sum_list (map (length \<circ> snd) (map tk_key ts)) = text_length ts" for ts
    by (induction ts) (simp_all add: tk_key_def)
  have size: "length (snd (fst (lex_char (lx_core lx) c False))) + sum_list (map (length \<circ> snd) (snd (lex_char (lx_core lx) c False)))
      \<le> Suc (length (lx_token lx))"
    using lex_char_size [of "lx_core lx" c False] by (simp only: tok)
  then have core: "lex_char (lx_core lx) c False = (lx_core lx2, map tk_key out2)"
    using feed_char_core [OF c] Cons.prems(2) by simp
  with size have len: "length (lx_token lx2) + text_length out2 \<le> Suc (length (lx_token lx))"
    by (simp only: fst_conv snd_conv tok sum)
  with Cons.IH [OF s] Cons.prems(2) have "lex_run (lx_core lx2) s = (lx_core lx3, map tk_key out3)"
    "length (lx_token lx3) + text_length out3 \<le> length (lx_token lx2) + length s" by simp_all
  with core len eq show ?case by simp
qed simp

lemma count_operator_lexer: "count_operator t (p\<lparr>jp_lexer := l\<rparr>) = count_operator t p\<lparr>jp_lexer := l\<rparr>"
  by (simp add: count_operator_def split: list.split)

lemma process_tokens_frame:
  "process_tokens ts (p\<lparr>jp_lexer := l\<rparr>) = (fst (process_tokens ts p)\<lparr>jp_lexer := l\<rparr>, snd (process_tokens ts p))"
proof (induction ts arbitrary: p)
  case (Cons t ts)
  have "json_message_process_token t (p\<lparr>jp_lexer := l\<rparr>) =
      (fst (json_message_process_token t p)\<lparr>jp_lexer := l\<rparr>, snd (json_message_process_token t p))"
    by (simp add: json_message_process_token_def count_operator_lexer message_emit_def Let_def)
  with Cons show ?case by (simp add: split_beta)
qed simp

text \<open>Feeding a text and flushing gives the messages of all its tokens.\<close>

lemma feed_flush:
  assumes "length s < MAX_TOKEN_SIZE"
  shows "\<exists>ts. map tk_key ts = lex_all START s \<and> text_length ts \<le> MAX_TOKEN_SIZE \<and>
    (let (p, ms) = json_message_parser_feed s json_message_parser_init; (p1, ms1) = json_message_parser_flush p in ms @ ms1) =
      snd (process_tokens ts json_message_parser_init)"
proof -
  obtain lx1 out1 where f: "json_lexer_feed s json_lexer_init = (lx1, out1)" by fastforce
  obtain lx2 out2 where fl: "json_lexer_flush lx1 = (lx2, out2)" by fastforce
  have init: "lx_core json_lexer_init = START" "length (lx_token json_lexer_init) = 0"
    by (simp_all add: json_lexer_init_def lx_core_def)
  with feed_run [OF f] assms have run: "lex_run START s = (lx_core lx1, map tk_key out1)"
    and len1: "length (lx_token lx1) + text_length out1 \<le> length s" by simp_all
  have flush: "map tk_key out2 = lex_flush (lx_core lx1) \<and> text_length out2 \<le> Suc (length (lx_token lx1))"
  proof (cases "lx_state lx1 = IN_START")
    case True
    with fl show ?thesis by (auto simp: json_lexer_flush_def lex_flush_def lx_core_def)
  next
    case False
    then have c: "json_lexer_feed_char CHR 0x00 True lx1 = (lx2, out2)" using fl by (simp add: json_lexer_flush_def)
    have tok: "snd (lx_core lx1) = lx_token lx1" by (simp add: lx_core_def)
    have size: "length (snd (fst (lex_char (lx_core lx1) CHR 0x00 True))) +
        sum_list (map (length \<circ> snd) (snd (lex_char (lx_core lx1) CHR 0x00 True))) \<le> Suc (length (lx_token lx1))"
      using lex_char_size [of "lx_core lx1" "CHR 0x00" True] by (simp only: tok)
    with feed_char_core [OF c] len1 assms
    have core: "lex_char (lx_core lx1) CHR 0x00 True = (lx_core lx2, map tk_key out2)" by simp
    with size have "text_length out2 \<le> Suc (length (lx_token lx1))"
      by (simp add: text_length_def comp_def tk_key_def)
    with core False show ?thesis by (simp add: lex_flush_def lx_core_def)
  qed
  obtain p ms where p: "process_tokens out1 json_message_parser_init = (p, ms)" by fastforce
  have "json_message_parser_feed s json_message_parser_init = (p\<lparr>jp_lexer := lx1\<rparr>, ms)"
    using f p process_tokens_frame [of out1 lx1 json_message_parser_init]
    by (simp add: json_message_parser_feed_def json_message_parser_init_def)
  moreover have "snd (json_message_parser_flush (p\<lparr>jp_lexer := lx1\<rparr>)) = snd (process_tokens out2 p)"
    using fl process_tokens_frame [of out2 lx2 p] by (simp add: json_message_parser_flush_def)
  ultimately have "(let (p, ms) = json_message_parser_feed s json_message_parser_init; (p1, ms1) = json_message_parser_flush p in ms @ ms1) =
      snd (process_tokens (out1 @ out2) json_message_parser_init)"
    using p by (simp add: process_tokens_append split_beta)
  moreover have "map tk_key (out1 @ out2) = lex_all START s" using run flush by (simp add: lex_all_def)
  moreover have "text_length (out1 @ out2) \<le> MAX_TOKEN_SIZE" using len1 flush assms by simp
  ultimately show ?thesis by blast
qed

lemma parse_toks:
  assumes "json_ok v" and "map tk_key ts = toks sc v"
  shows "json_parser_parse strtod (Some ts) = Some (rebuild v)"
proof -
  have "derives strtod (rebuild v) (map tk_key ts)" using derives_toks [OF assms(1)] assms(2) by simp
  then have "parse_value (parse_fuel ts) strtod (ts @ []) None = Some (Some (rebuild v), [], None)"
    by (intro completeD [OF parse_value_complete]) (simp_all add: parse_fuel_def)
  then show ?thesis by (simp add: json_parser_parse_def json_parser_parse_err_def)
qed

text \<open>C12: [json_roundtrip] The text of an object is read back as the same object: numbers over their whole range, strings
  of characters of up to three bytes, whatever they contain but NUL, dictionaries with the same keys and values in
  whatever order their table keeps them, and lists, nested at most 1024 deep, in both layouts and for either kind of
  \<open>char\<close>, as long as the text is shorter than 64 MB.\<close>

theorem json_roundtrip:
  assumes "json_ok v" and "obj_depth v \<le> 1024" and "length (to_json sc fmt_f pretty 0 v) < 64 * 2 ^ 20"
  shows "map_option abs_obj (qobject_from_json strtod (to_json sc fmt_f pretty 0 v)) = Some (abs_obj v)"
proof -
  let ?s = "to_json sc fmt_f pretty 0 v"
  obtain ts where ts: "map tk_key ts = lex_all START ?s" and len: "text_length ts \<le> MAX_TOKEN_SIZE"
    and ms: "(let (p, ms) = json_message_parser_feed ?s json_message_parser_init; (p1, ms1) = json_message_parser_flush p in ms @ ms1) =
      snd (process_tokens ts json_message_parser_init)"
    using feed_flush [of ?s] assms(3) by auto
  have "lex_all START (?s @ []) = toks sc v @ lex_all START []"
    by (rule reads_asD [OF lex_value [OF assms(1)]]) (simp add: delimited_def)
  then have keys: "map tk_key ts = toks sc v" using ts by simp
  then have "shaped (obj_depth v) (map tk_key ts)" using shaped_toks [OF assms(1)] by simp
  from one_message [OF this assms(2) len, of json_message_parser_init]
  have "snd (process_tokens ts json_message_parser_init) = [Some ts]" by (auto simp: json_message_parser_init_def)
  with ms parse_toks [OF assms(1) keys] have "qobject_from_json strtod ?s = Some (rebuild v)"
    by (simp add: qobject_from_json_def qobject_from_jsonv_def split_beta Let_def del: foldl_append)
  with abs_rebuild [OF assms(1)] show ?thesis by simp
qed

text \<open>A dictionary with one key.\<close>

lemma entries_new: "qdict_entries qdict_new = []"
  by (simp add: qdict_entries_def qdict_new_def)

lemma concat_one_bucket: "concat ((replicate n [])[b := es]) = (if b < n then es else [])"
proof (induction n arbitrary: b)
  case (Suc n)
  then show ?case by (cases b) (simp_all del: concat_eq_Nil_conv)
qed simp

lemma entries_single: "qdict_entries (qdict_put k v qdict_new) = [(k, v)]"
  by (simp add: qdict_put_eq qdict_entries_def qdict_new_def Let_def concat_one_bucket)

definition demo_obj :: QObject where
  "demo_obj = QDict_obj (qdict_put ''id'' (QList [QInt (- 5), QBool 1, QString [CHR 0xC3, CHR 0xA9, CHR 0x0A],
     QDict_obj qdict_new]) qdict_new)"

lemma demo_obj_ok: "json_ok demo_obj" "obj_depth demo_obj = 3"
  by (simp_all add: demo_obj_def qdict_put_ok qdict_new_ok entries_new entries_single cont_def)

lemma demo_obj_text: "length (to_json True (\<lambda>_. []) True 0 demo_obj) \<le> 100"
proof -
  have "json_string True [CHR 0xC3, CHR 0xA9, CHR 0x0A] = CHR 0x22 # CHR 0x5C # CHR ''u'' # ''00E9'' @ [CHR 0x5C, CHR ''n'', CHR 0x22]"
    "json_string True ''id'' = CHR 0x22 # ''id'' @ [CHR 0x22]" "fmt_PRId64 (- 5) = ''-5''"
    by code_simp+
  then show ?thesis by (simp add: demo_obj_def entries_new entries_single line_break_def)
qed

lemma json_roundtrip_witness:
  "map_option abs_obj (qobject_from_json (\<lambda>_. 0) (to_json True (\<lambda>_. []) True 0 demo_obj)) = Some (abs_obj demo_obj)"
  using json_roundtrip [OF demo_obj_ok(1), of True "\<lambda>_. []" True "\<lambda>_. 0"] demo_obj_ok(2) demo_obj_text by simp

end
