(* ===== verification/Rtc.thy ===== *)
theory Rtc
  imports I8254 "HOL-Library.Signed_Division"
begin

unbundle bit_operations_syntax

text \<open>
  The real-time clock of a PC, \<^verbatim>\<open>hw/mc146818rtc.c\<close>, as built for a PC (\<^verbatim>\<open>TARGET_I386\<close>). A timer is the time it is armed for; \<open>now\<close> is
  what the clock shows when the operation runs, and a timer's callback finds its timer disarmed. \<open>rtc_irq\<close> is the
  level the chip last drove its line to; the other calls out are listed in \<open>rtc_calls\<close>, oldest first. Whether the
  interrupt controller took an interrupt that was raised, which the code asks it, is an argument (\<open>delivered\<close>). The fields of a
  date are C integers that stay far from their bounds and are unbounded here.
\<close>

section \<open>State\<close>

record tm =
  tm_sec :: int
  tm_min :: int
  tm_hour :: int
  tm_wday :: int
  tm_mday :: int
  tm_mon :: int
  tm_year :: int

datatype rtc_call = RTC_CHANGE tm | WAKEUP_RTC | SQW_PULSE

abbreviation (input) RTC_SECONDS :: nat where "RTC_SECONDS \<equiv> 0"
abbreviation (input) RTC_SECONDS_ALARM :: nat where "RTC_SECONDS_ALARM \<equiv> 1"
abbreviation (input) RTC_MINUTES :: nat where "RTC_MINUTES \<equiv> 2"
abbreviation (input) RTC_MINUTES_ALARM :: nat where "RTC_MINUTES_ALARM \<equiv> 3"
abbreviation (input) RTC_HOURS :: nat where "RTC_HOURS \<equiv> 4"
abbreviation (input) RTC_HOURS_ALARM :: nat where "RTC_HOURS_ALARM \<equiv> 5"
abbreviation (input) RTC_DAY_OF_WEEK :: nat where "RTC_DAY_OF_WEEK \<equiv> 6"
abbreviation (input) RTC_DAY_OF_MONTH :: nat where "RTC_DAY_OF_MONTH \<equiv> 7"
abbreviation (input) RTC_MONTH :: nat where "RTC_MONTH \<equiv> 8"
abbreviation (input) RTC_YEAR :: nat where "RTC_YEAR \<equiv> 9"
abbreviation (input) RTC_REG_A :: nat where "RTC_REG_A \<equiv> 10"
abbreviation (input) RTC_REG_B :: nat where "RTC_REG_B \<equiv> 11"
abbreviation (input) RTC_REG_C :: nat where "RTC_REG_C \<equiv> 12"
abbreviation (input) RTC_REG_D :: nat where "RTC_REG_D \<equiv> 13"

abbreviation (input) REG_A_UIP :: u8 where "REG_A_UIP \<equiv> 0x80"
abbreviation (input) REG_B_SET :: u8 where "REG_B_SET \<equiv> 0x80"
abbreviation (input) REG_B_PIE :: u8 where "REG_B_PIE \<equiv> 0x40"
abbreviation (input) REG_B_AIE :: u8 where "REG_B_AIE \<equiv> 0x20"
abbreviation (input) REG_B_UIE :: u8 where "REG_B_UIE \<equiv> 0x10"
abbreviation (input) REG_B_SQWE :: u8 where "REG_B_SQWE \<equiv> 0x08"
abbreviation (input) REG_B_DM :: u8 where "REG_B_DM \<equiv> 0x04"
abbreviation (input) REG_B_24H :: u8 where "REG_B_24H \<equiv> 0x02"
abbreviation (input) REG_C_UF :: u8 where "REG_C_UF \<equiv> 0x10"
abbreviation (input) REG_C_IRQF :: u8 where "REG_C_IRQF \<equiv> 0x80"
abbreviation (input) REG_C_PF :: u8 where "REG_C_PF \<equiv> 0x40"
abbreviation (input) REG_C_AF :: u8 where "REG_C_AF \<equiv> 0x20"

abbreviation (input) RTC_REINJECT_ON_ACK_COUNT :: u16 where "RTC_REINJECT_ON_ACK_COUNT \<equiv> 20"

text \<open>\<open>sqw_irq\<close> says whether the square wave output is connected, \<open>slew\<close> whether lost ticks are made up for.\<close>

record RTCState =
  cmos_data :: "u8 list"
  cmos_index :: u8
  current_tm :: tm
  base_year :: int
  rtc_irq :: bool
  sqw_irq :: bool
  periodic_timer :: "u64 option"
  next_periodic_time :: u64
  next_second_time :: u64
  irq_reinject_on_ack_count :: u16
  irq_coalesced :: u32
  rtc_period :: u32
  coalesced_timer :: "u64 option"
  second_timer :: "u64 option"
  second_timer2 :: "u64 option"
  slew :: bool
  rtc_calls :: "rtc_call list"

definition reg :: "RTCState \<Rightarrow> nat \<Rightarrow> u8" where
  "reg s i = cmos_data s ! i"

definition set_reg :: "nat \<Rightarrow> u8 \<Rightarrow> RTCState \<Rightarrow> RTCState" where
  "set_reg i v s = s\<lparr>cmos_data := (cmos_data s)[i := v]\<rparr>"

definition rtc_call :: "rtc_call \<Rightarrow> RTCState \<Rightarrow> RTCState" where
  "rtc_call c s = s\<lparr>rtc_calls := rtc_calls s @ [c]\<rparr>"

definition flag :: "RTCState \<Rightarrow> nat \<Rightarrow> u8 \<Rightarrow> bool" where
  "flag s i m \<longleftrightarrow> reg s i AND m \<noteq> 0"

definition set_flags :: "nat \<Rightarrow> u8 \<Rightarrow> RTCState \<Rightarrow> RTCState" where
  "set_flags i m s = set_reg i (reg s i OR m) s"

definition clear_flags :: "nat \<Rightarrow> u8 \<Rightarrow> RTCState \<Rightarrow> RTCState" where
  "clear_flags i m s = set_reg i (reg s i AND NOT m) s"

section \<open>The periodic interrupt\<close>

definition rtc_coalesced_timer_update :: "u64 \<Rightarrow> RTCState \<Rightarrow> RTCState" where
  "rtc_coalesced_timer_update now s =
     (if irq_coalesced s = 0 then s\<lparr>coalesced_timer := None\<rparr>
      else (let c = min (irq_coalesced s) 7 + 1 in
        s\<lparr>coalesced_timer := Some (now + muldiv64 (ucast (rtc_period s div c)) get_ticks_per_sec 32768)\<rparr>))"

definition rtc_coalesced_timer :: "bool \<Rightarrow> u64 \<Rightarrow> RTCState \<Rightarrow> RTCState" where
  "rtc_coalesced_timer delivered now s =
     rtc_coalesced_timer_update now
       (if irq_coalesced s \<noteq> 0
        then (let s1 = (set_flags RTC_REG_C 0xc0 s)\<lparr>rtc_irq := True\<rparr> in
              if delivered then s1\<lparr>irq_coalesced := irq_coalesced s1 - 1\<rparr> else s1)
        else s)"

text \<open>The period in cycles of 32 kHz, from the rate in register A.\<close>

definition period_of_code :: "u8 \<Rightarrow> u32" where
  "period_of_code code = push_bit (unat (if code \<le> 2 then code + 7 else code) - 1) 1"

definition next_irq_clock :: "u64 \<Rightarrow> u32 \<Rightarrow> u64" where
  "next_irq_clock current_time period =
     (muldiv64 current_time 32768 get_ticks_per_sec AND NOT (ucast period - 1)) + ucast period"

definition rtc_timer_update :: "u64 \<Rightarrow> RTCState \<Rightarrow> RTCState" where
  "rtc_timer_update current_time s =
     (let period_code = reg s RTC_REG_A AND 0x0f in
      if period_code \<noteq> 0 \<and> (flag s RTC_REG_B REG_B_PIE \<or> flag s RTC_REG_B REG_B_SQWE \<and> sqw_irq s)
      then (let period = period_of_code period_code;
                s1 = (if period \<noteq> rtc_period s then s\<lparr>irq_coalesced := (irq_coalesced s * rtc_period s) div period\<rparr> else s);
                t = muldiv64 (next_irq_clock current_time period) get_ticks_per_sec 32768 + 1
            in s1\<lparr>rtc_period := period, next_periodic_time := t, periodic_timer := Some t\<rparr>)
      else s\<lparr>irq_coalesced := 0, periodic_timer := None\<rparr>)"

definition rtc_periodic_timer :: "bool \<Rightarrow> u64 \<Rightarrow> RTCState \<Rightarrow> RTCState" where
  "rtc_periodic_timer delivered now s =
     (let s1 = set_flags RTC_REG_C REG_C_PF (rtc_timer_update (next_periodic_time s) s);
          s2 = (if flag s1 RTC_REG_B REG_B_PIE
                then (let t = set_flags RTC_REG_C REG_C_IRQF s1 in
                  if slew t
                  then (let t1 = (if irq_reinject_on_ack_count t \<ge> RTC_REINJECT_ON_ACK_COUNT
                                  then t\<lparr>irq_reinject_on_ack_count := 0\<rparr> else t)\<lparr>rtc_irq := True\<rparr>
                        in if delivered then t1
                           else rtc_coalesced_timer_update now (t1\<lparr>irq_coalesced := irq_coalesced t1 + 1\<rparr>))
                  else t\<lparr>rtc_irq := True\<rparr>)
                else s1)
      in if flag s2 RTC_REG_B REG_B_SQWE then rtc_call SQW_PULSE s2 else s2)"

section \<open>Date and time\<close>

definition rtc_to_bcd :: "RTCState \<Rightarrow> int \<Rightarrow> int" where
  "rtc_to_bcd s a = (if flag s RTC_REG_B REG_B_DM then a else push_bit 4 (a sdiv 10) OR (a smod 10))"

definition rtc_from_bcd :: "RTCState \<Rightarrow> int \<Rightarrow> int" where
  "rtc_from_bcd s a = (if flag s RTC_REG_B REG_B_DM then a else drop_bit 4 a * 10 + (a AND 0x0f))"

definition rtc_set_time :: "RTCState \<Rightarrow> RTCState" where
  "rtc_set_time s =
     (let hour = rtc_from_bcd s (uint (reg s RTC_HOURS AND 0x7f));
          hour12 = hour smod 12;
          t = \<lparr>tm_sec = rtc_from_bcd s (uint (reg s RTC_SECONDS)),
               tm_min = rtc_from_bcd s (uint (reg s RTC_MINUTES)),
               tm_hour = (if flag s RTC_REG_B REG_B_24H then hour
                          else if flag s RTC_HOURS 0x80 then hour12 + 12 else hour12),
               tm_wday = rtc_from_bcd s (uint (reg s RTC_DAY_OF_WEEK)) - 1,
               tm_mday = rtc_from_bcd s (uint (reg s RTC_DAY_OF_MONTH)),
               tm_mon = rtc_from_bcd s (uint (reg s RTC_MONTH)) - 1,
               tm_year = rtc_from_bcd s (uint (reg s RTC_YEAR)) + base_year s - 1900\<rparr>
      in rtc_call (RTC_CHANGE t) (s\<lparr>current_tm := t\<rparr>))"

text \<open>Storing an integer in a register keeps its low byte.\<close>

definition put :: "nat \<Rightarrow> int \<Rightarrow> RTCState \<Rightarrow> RTCState" where
  "put i a s = set_reg i (word_of_int (rtc_to_bcd s a)) s"

definition put_hours :: "int \<Rightarrow> RTCState \<Rightarrow> RTCState" where
  "put_hours hour s =
     (if flag s RTC_REG_B REG_B_24H then put RTC_HOURS hour s
      else (let h = (if hour smod 12 \<noteq> 0 then hour smod 12 else 12); s1 = put RTC_HOURS h s
            in if hour \<ge> 12 then set_flags RTC_HOURS 0x80 s1 else s1))"

definition rtc_copy_date :: "RTCState \<Rightarrow> RTCState" where
  "rtc_copy_date s =
     (let t = current_tm s;
          y = (tm_year t - base_year s) smod 100;
          s1 = put_hours (tm_hour t) (put RTC_MINUTES (tm_min t) (put RTC_SECONDS (tm_sec t) s));
          s2 = put RTC_MONTH (tm_mon t + 1) (put RTC_DAY_OF_MONTH (tm_mday t) (put RTC_DAY_OF_WEEK (tm_wday t + 1) s1))
      in put RTC_YEAR (if y < 0 then y + 100 else y) s2)"

definition days_tab :: "int list" where
  "days_tab = [31, 28, 31, 30, 31, 30, 31, 31, 30, 31, 30, 31]"

definition get_days_in_month :: "int \<Rightarrow> int \<Rightarrow> int" where
  "get_days_in_month month year =
     (if \<not> (0 \<le> month \<and> month < 12) then 31
      else (let d = days_tab ! nat month in
        if month = 1 \<and> year smod 4 = 0 \<and> (year smod 100 \<noteq> 0 \<or> year smod 400 = 0) then d + 1 else d))"

text \<open>A field that counts up to a bound and starts again; a negative value counts as above it.\<close>

definition over :: "int \<Rightarrow> int \<Rightarrow> bool" where
  "over n x \<longleftrightarrow> \<not> (0 \<le> x \<and> x < n)"

definition next_day :: "tm \<Rightarrow> tm" where
  "next_day t =
     (let wday = (if over 7 (tm_wday t + 1) then 0 else tm_wday t + 1);
          days_in_month = get_days_in_month (tm_mon t) (tm_year t + 1900);
          mday = tm_mday t + 1;
          t1 = t\<lparr>tm_wday := wday, tm_mday := mday\<rparr>
      in if mday < 1 then t1\<lparr>tm_mday := 1\<rparr>
         else if mday > days_in_month
         then (if tm_mon t + 1 \<ge> 12 then t1\<lparr>tm_mday := 1, tm_mon := 0, tm_year := tm_year t + 1\<rparr>
               else t1\<lparr>tm_mday := 1, tm_mon := tm_mon t + 1\<rparr>)
         else t1)"

definition rtc_next_second :: "tm \<Rightarrow> tm" where
  "rtc_next_second t =
     (if over 60 (tm_sec t + 1)
      then (if over 60 (tm_min t + 1)
            then (if over 24 (tm_hour t + 1) then next_day (t\<lparr>tm_sec := 0, tm_min := 0, tm_hour := 0\<rparr>)
                  else t\<lparr>tm_sec := 0, tm_min := 0, tm_hour := tm_hour t + 1\<rparr>)
            else t\<lparr>tm_sec := 0, tm_min := tm_min t + 1\<rparr>)
      else t\<lparr>tm_sec := tm_sec t + 1\<rparr>)"

section \<open>The update cycle\<close>

definition second_ns :: u64 where
  "second_ns = ucast get_ticks_per_sec"

definition rtc_update_second :: "RTCState \<Rightarrow> RTCState" where
  "rtc_update_second s =
     (if reg s RTC_REG_A AND 0x70 \<noteq> 0x20
      then s\<lparr>next_second_time := next_second_time s + second_ns, second_timer := Some (next_second_time s + second_ns)\<rparr>
      else (let s1 = s\<lparr>current_tm := rtc_next_second (current_tm s)\<rparr>;
                s2 = (if flag s1 RTC_REG_B REG_B_SET then s1 else set_flags RTC_REG_A REG_A_UIP s1);
                delay = second_ns div 100
            in s2\<lparr>second_timer2 := Some (next_second_time s2 + (if delay < 1 then 1 else delay))\<rparr>))"

definition alarm_field :: "RTCState \<Rightarrow> nat \<Rightarrow> int \<Rightarrow> bool" where
  "alarm_field s i v \<longleftrightarrow> reg s i AND 0xc0 = 0xc0 \<or> rtc_from_bcd s (uint (reg s i)) = v"

definition rtc_alarm :: "RTCState \<Rightarrow> bool" where
  "rtc_alarm s \<longleftrightarrow> alarm_field s RTC_SECONDS_ALARM (tm_sec (current_tm s)) \<and>
     alarm_field s RTC_MINUTES_ALARM (tm_min (current_tm s)) \<and> alarm_field s RTC_HOURS_ALARM (tm_hour (current_tm s))"

definition rtc_update_second2 :: "RTCState \<Rightarrow> RTCState" where
  "rtc_update_second2 s =
     (let s1 = (if flag s RTC_REG_B REG_B_SET then s else rtc_copy_date s);
          s2 = (if rtc_alarm s1
                then (let t = set_flags RTC_REG_C REG_C_AF s1 in
                  if flag t RTC_REG_B REG_B_AIE
                  then set_flags RTC_REG_C REG_C_IRQF ((rtc_call WAKEUP_RTC t)\<lparr>rtc_irq := True\<rparr>) else t)
                else s1);
          s3 = set_flags RTC_REG_C REG_C_UF s2;
          s4 = (if flag s3 RTC_REG_B REG_B_UIE then (set_flags RTC_REG_C REG_C_IRQF s3)\<lparr>rtc_irq := True\<rparr> else s3);
          s5 = clear_flags RTC_REG_A REG_A_UIP s4
      in s5\<lparr>next_second_time := next_second_time s5 + second_ns,
            second_timer := Some (next_second_time s5 + second_ns)\<rparr>)"

section \<open>The ports\<close>

definition write_reg_A :: "u64 \<Rightarrow> u8 \<Rightarrow> RTCState \<Rightarrow> RTCState" where
  "write_reg_A now v s =
     rtc_timer_update now (set_reg RTC_REG_A ((v AND NOT REG_A_UIP) OR (reg s RTC_REG_A AND REG_A_UIP)) s)"

definition write_reg_B :: "u64 \<Rightarrow> u8 \<Rightarrow> RTCState \<Rightarrow> RTCState" where
  "write_reg_B now v0 s =
     (let set_mode = (v0 AND REG_B_SET \<noteq> 0);
          v = (if set_mode then v0 AND NOT REG_B_UIE else v0);
          s1 = (if set_mode then clear_flags RTC_REG_A REG_A_UIP s
                else if flag s RTC_REG_B REG_B_SET then rtc_set_time s else s);
          s2 = (if (reg s1 RTC_REG_B XOR v) AND (REG_B_DM OR REG_B_24H) \<noteq> 0 \<and> v AND REG_B_SET = 0
                then rtc_copy_date (set_reg RTC_REG_B v s1) else set_reg RTC_REG_B v s1)
      in rtc_timer_update now s2)"

definition cmos_ioport_write :: "u64 \<Rightarrow> u32 \<Rightarrow> u32 \<Rightarrow> RTCState \<Rightarrow> RTCState" where
  "cmos_ioport_write now addr data s =
     (let i = unat (cmos_index s); v = (ucast data :: u8) in
      if addr AND 1 = 0 then s\<lparr>cmos_index := ucast (data AND 0x7f)\<rparr>
      else if i \<in> {RTC_SECONDS_ALARM, RTC_MINUTES_ALARM, RTC_HOURS_ALARM} then set_reg i v s
      else if i \<in> {RTC_SECONDS, RTC_MINUTES, RTC_HOURS, RTC_DAY_OF_WEEK, RTC_DAY_OF_MONTH, RTC_MONTH, RTC_YEAR}
      then (let s1 = set_reg i v s in if flag s1 RTC_REG_B REG_B_SET then s1 else rtc_set_time s1)
      else if i = RTC_REG_A then write_reg_A now v s
      else if i = RTC_REG_B then write_reg_B now v s
      else if i = RTC_REG_C \<or> i = RTC_REG_D then s
      else set_reg i v s)"

definition cmos_ioport_read :: "bool \<Rightarrow> u32 \<Rightarrow> RTCState \<Rightarrow> RTCState \<times> u32" where
  "cmos_ioport_read delivered addr s =
     (if addr AND 1 = 0 then (s, 0xff)
      else (let i = unat (cmos_index s); ret = (ucast (reg s i) :: u32) in
        if i = RTC_REG_C
        then (let s1 = set_reg RTC_REG_C 0 (s\<lparr>rtc_irq := False\<rparr>);
                  s2 = (if irq_coalesced s1 \<noteq> 0 \<and> flag s1 RTC_REG_B REG_B_PIE \<and>
                          irq_reinject_on_ack_count s1 < RTC_REINJECT_ON_ACK_COUNT
                        then (let t = (set_flags RTC_REG_C (REG_C_IRQF OR REG_C_PF)
                                (s1\<lparr>irq_reinject_on_ack_count := irq_reinject_on_ack_count s1 + 1\<rparr>))\<lparr>rtc_irq := True\<rparr>
                              in if delivered then t\<lparr>irq_coalesced := irq_coalesced t - 1\<rparr> else t)
                        else s1)
              in (s2, ret))
        else (s, ret)))"

section \<open>Start, reset and notifications\<close>

definition rtc_set_memory :: "int \<Rightarrow> int \<Rightarrow> RTCState \<Rightarrow> RTCState" where
  "rtc_set_memory addr val s = (if 0 \<le> addr \<and> addr \<le> 127 then set_reg (nat addr) (word_of_int val) s else s)"

definition rtc_set_date :: "tm \<Rightarrow> RTCState \<Rightarrow> RTCState" where
  "rtc_set_date t s = rtc_copy_date (s\<lparr>current_tm := t\<rparr>)"

definition rtc_set_date_from_host :: "tm \<Rightarrow> RTCState \<Rightarrow> RTCState" where
  "rtc_set_date_from_host host s =
     (let s1 = rtc_set_date host s; val = rtc_to_bcd s1 (tm_year host sdiv 100 + 19)
      in rtc_set_memory 0x37 val (rtc_set_memory 0x32 val s1))"

definition rtc_post_load :: "int \<Rightarrow> u64 \<Rightarrow> RTCState \<Rightarrow> RTCState" where
  "rtc_post_load version_id now s = (if version_id \<ge> 2 \<and> slew s then rtc_coalesced_timer_update now s else s)"

definition rtc_notify_clock_reset :: "tm \<Rightarrow> u64 \<Rightarrow> RTCState \<Rightarrow> RTCState" where
  "rtc_notify_clock_reset host now s =
     (let s1 = rtc_set_date_from_host host s;
          t = now + (second_ns * 99) div 100;
          s2 = rtc_timer_update now (s1\<lparr>next_second_time := t, second_timer2 := Some t\<rparr>)
      in if slew s2 then rtc_coalesced_timer_update now s2 else s2)"

definition rtc_notify_suspend :: "RTCState \<Rightarrow> RTCState" where
  "rtc_notify_suspend s = rtc_set_memory 0xF 0xFE s"

definition rtc_reset :: "RTCState \<Rightarrow> RTCState" where
  "rtc_reset s =
     (let s1 = clear_flags RTC_REG_B (REG_B_PIE OR REG_B_AIE OR REG_B_SQWE) s;
          s2 = (clear_flags RTC_REG_C (REG_C_UF OR REG_C_IRQF OR REG_C_PF OR REG_C_AF) s1)\<lparr>rtc_irq := False\<rparr>
      in if slew s2 then s2\<lparr>irq_coalesced := 0\<rparr> else s2)"

text \<open>A device is created zeroed, with the properties the machine gives it.\<close>

definition rtc_zeroed :: "int \<Rightarrow> bool \<Rightarrow> RTCState" where
  "rtc_zeroed year slewing =
     \<lparr>cmos_data = replicate 128 0, cmos_index = 0,
      current_tm = \<lparr>tm_sec = 0, tm_min = 0, tm_hour = 0, tm_wday = 0, tm_mday = 0, tm_mon = 0, tm_year = 0\<rparr>,
      base_year = year, rtc_irq = False, sqw_irq = False, periodic_timer = None, next_periodic_time = 0,
      next_second_time = 0, irq_reinject_on_ack_count = 0, irq_coalesced = 0, rtc_period = 0, coalesced_timer = None,
      second_timer = None, second_timer2 = None, slew = slewing, rtc_calls = []\<rparr>"

definition rtc_initfn :: "tm \<Rightarrow> u64 \<Rightarrow> RTCState \<Rightarrow> RTCState" where
  "rtc_initfn host now s =
     (let s1 = set_reg RTC_REG_D 0x80 (set_reg RTC_REG_C 0 (set_reg RTC_REG_B 0x02 (set_reg RTC_REG_A 0x26 s)));
          s2 = rtc_set_date_from_host host s1;
          t = now + (second_ns * 99) div 100
      in s2\<lparr>next_second_time := t, second_timer2 := Some t\<rparr>)"

end
