(* ===== verification/RtcTime.thy ===== *)
theory RtcTime
  imports Rtc
begin

unbundle bit_operations_syntax

text \<open>
  Dates of the real-time clock: what the registers hold after a date is copied to them and what is read back from them,
  the alarm, and the step to the next second against a calendar that counts days in closed form.
\<close>

section \<open>Registers\<close>

definition cmos_ok :: "RTCState \<Rightarrow> bool" where
  "cmos_ok s \<longleftrightarrow> length (cmos_data s) = 128"

lemma reg_set_reg [simp]: "cmos_ok s \<Longrightarrow> i < 128 \<Longrightarrow> reg (set_reg i v s) j = (if j = i then v else reg s j)"
  by (simp add: cmos_ok_def reg_def set_reg_def)

lemma cmos_ok_set_reg [simp]: "cmos_ok (set_reg i v s) = cmos_ok s"
  by (simp add: cmos_ok_def set_reg_def)

lemma reg_set_flags [simp]: "cmos_ok s \<Longrightarrow> i < 128 \<Longrightarrow> reg (set_flags i m s) j = (if j = i then reg s i OR m else reg s j)"
  by (simp add: set_flags_def)

lemma reg_clear_flags [simp]:
  "cmos_ok s \<Longrightarrow> i < 128 \<Longrightarrow> reg (clear_flags i m s) j = (if j = i then reg s i AND NOT m else reg s j)"
  by (simp add: clear_flags_def)

lemma cmos_ok_flags [simp]: "cmos_ok (set_flags i m s) = cmos_ok s" "cmos_ok (clear_flags i m s) = cmos_ok s"
  by (simp_all add: set_flags_def clear_flags_def)

lemma reg_frame [simp]:
  "reg (s\<lparr>current_tm := t\<rparr>) i = reg s i" "reg (s\<lparr>rtc_irq := b\<rparr>) i = reg s i" "reg (s\<lparr>cmos_index := k\<rparr>) i = reg s i"
  "reg (s\<lparr>periodic_timer := x\<rparr>) i = reg s i" "reg (s\<lparr>next_periodic_time := w\<rparr>) i = reg s i"
  "reg (s\<lparr>next_second_time := w\<rparr>) i = reg s i" "reg (s\<lparr>irq_reinject_on_ack_count := c\<rparr>) i = reg s i"
  "reg (s\<lparr>irq_coalesced := n\<rparr>) i = reg s i" "reg (s\<lparr>rtc_period := n\<rparr>) i = reg s i" "reg (s\<lparr>coalesced_timer := x\<rparr>) i = reg s i"
  "reg (s\<lparr>second_timer := x\<rparr>) i = reg s i" "reg (s\<lparr>second_timer2 := x\<rparr>) i = reg s i" "reg (rtc_call r s) i = reg s i"
  by (simp_all add: reg_def rtc_call_def)

lemma cmos_ok_frame [simp]:
  "cmos_ok (s\<lparr>current_tm := t\<rparr>) = cmos_ok s" "cmos_ok (s\<lparr>rtc_irq := b\<rparr>) = cmos_ok s" "cmos_ok (s\<lparr>cmos_index := k\<rparr>) = cmos_ok s"
  "cmos_ok (s\<lparr>periodic_timer := x\<rparr>) = cmos_ok s" "cmos_ok (s\<lparr>next_periodic_time := w\<rparr>) = cmos_ok s"
  "cmos_ok (s\<lparr>next_second_time := w\<rparr>) = cmos_ok s" "cmos_ok (s\<lparr>irq_reinject_on_ack_count := c\<rparr>) = cmos_ok s"
  "cmos_ok (s\<lparr>irq_coalesced := n\<rparr>) = cmos_ok s" "cmos_ok (s\<lparr>rtc_period := n\<rparr>) = cmos_ok s"
  "cmos_ok (s\<lparr>coalesced_timer := x\<rparr>) = cmos_ok s" "cmos_ok (s\<lparr>second_timer := x\<rparr>) = cmos_ok s"
  "cmos_ok (s\<lparr>second_timer2 := x\<rparr>) = cmos_ok s" "cmos_ok (rtc_call r s) = cmos_ok s"
  by (simp_all add: cmos_ok_def rtc_call_def)

text \<open>What the updates of registers and the calls out leave alone.\<close>

lemma set_reg_fields [simp]:
  "rtc_irq (set_reg i v s) = rtc_irq s" "cmos_index (set_reg i v s) = cmos_index s" "current_tm (set_reg i v s) = current_tm s"
  "second_timer (set_reg i v s) = second_timer s" "second_timer2 (set_reg i v s) = second_timer2 s"
  "next_periodic_time (set_reg i v s) = next_periodic_time s" "base_year (set_reg i v s) = base_year s"
  "sqw_irq (set_reg i v s) = sqw_irq s"
  by (simp_all add: set_reg_def)

lemma flags_fields [simp]:
  "rtc_irq (set_flags i v s) = rtc_irq s" "cmos_index (set_flags i v s) = cmos_index s" "current_tm (set_flags i v s) = current_tm s"
  "second_timer (set_flags i v s) = second_timer s" "second_timer2 (set_flags i v s) = second_timer2 s"
  "next_periodic_time (set_flags i v s) = next_periodic_time s" "base_year (set_flags i v s) = base_year s"
  "rtc_irq (clear_flags i v s) = rtc_irq s" "cmos_index (clear_flags i v s) = cmos_index s"
  "current_tm (clear_flags i v s) = current_tm s"
  "second_timer (clear_flags i v s) = second_timer s" "second_timer2 (clear_flags i v s) = second_timer2 s"
  "sqw_irq (set_flags i v s) = sqw_irq s"
  by (simp_all add: set_flags_def clear_flags_def)

lemma rtc_call_fields [simp]:
  "rtc_irq (rtc_call c s) = rtc_irq s" "cmos_index (rtc_call c s) = cmos_index s" "current_tm (rtc_call c s) = current_tm s"
  "second_timer (rtc_call c s) = second_timer s" "second_timer2 (rtc_call c s) = second_timer2 s"
  "next_periodic_time (rtc_call c s) = next_periodic_time s" "base_year (rtc_call c s) = base_year s"
  "sqw_irq (rtc_call c s) = sqw_irq s"
  by (simp_all add: rtc_call_def)

text \<open>The flags of a register, as bits.\<close>

lemma mask_bit: "m = 2 ^ n \<Longrightarrow> x AND m = 0 \<longleftrightarrow> \<not> bit x n" for x m :: u8
  using and_exp_eq_0_iff_not_bit [of x n] by simp

lemma flag_bits:
  "flag s i 0x80 \<longleftrightarrow> bit (reg s i) 7" "flag s i 0x40 \<longleftrightarrow> bit (reg s i) 6" "flag s i 0x20 \<longleftrightarrow> bit (reg s i) 5"
  "flag s i 0x10 \<longleftrightarrow> bit (reg s i) 4" "flag s i 0x08 \<longleftrightarrow> bit (reg s i) 3" "flag s i 0x04 \<longleftrightarrow> bit (reg s i) 2"
  "flag s i 0x02 \<longleftrightarrow> bit (reg s i) 1"
  using mask_bit [of "0x80" 7 "reg s i"] mask_bit [of "0x40" 6 "reg s i"] mask_bit [of "0x20" 5 "reg s i"] mask_bit [of "0x10" 4 "reg s i"]
    mask_bit [of "0x08" 3 "reg s i"] mask_bit [of "0x04" 2 "reg s i"] mask_bit [of "0x02" 1 "reg s i"]
  by (simp_all add: flag_def)

section \<open>Binary coded decimals\<close>

definition bcd_encode :: "bool \<Rightarrow> int \<Rightarrow> int" where
  "bcd_encode binary a = (if binary then a else push_bit 4 (a sdiv 10) OR (a smod 10))"

definition bcd_decode :: "bool \<Rightarrow> int \<Rightarrow> int" where
  "bcd_decode binary a = (if binary then a else drop_bit 4 a * 10 + (a AND 0x0f))"

lemma rtc_bcd: "rtc_to_bcd s = bcd_encode (flag s RTC_REG_B REG_B_DM)" "rtc_from_bcd s = bcd_decode (flag s RTC_REG_B REG_B_DM)"
  by (simp_all add: fun_eq_iff rtc_to_bcd_def rtc_from_bcd_def bcd_encode_def bcd_decode_def)

definition bcd_byte :: "bool \<Rightarrow> int \<Rightarrow> u8" where
  "bcd_byte binary a = word_of_int (bcd_encode binary a)"

definition hour_byte :: "bool \<Rightarrow> bool \<Rightarrow> int \<Rightarrow> u8" where
  "hour_byte binary h24 hour =
     (if h24 then bcd_byte binary hour
      else (let b = bcd_byte binary (if hour smod 12 \<noteq> 0 then hour smod 12 else 12) in if hour \<ge> 12 then b OR 0x80 else b))"

definition byte_hour :: "bool \<Rightarrow> bool \<Rightarrow> u8 \<Rightarrow> int" where
  "byte_hour binary h24 b =
     (let hour = bcd_decode binary (uint (b AND 0x7f)) in
      if h24 then hour else if b AND 0x80 \<noteq> 0 then hour smod 12 + 12 else hour smod 12)"

text \<open>Tables, checked entry by entry.\<close>

lemma bcd_table: "list_all (\<lambda>a. bcd_decode False (uint (bcd_byte False a)) = a) [0..99]"
  by code_simp

lemma hour_table: "list_all (\<lambda>(b, h, a). byte_hour b h (hour_byte b h a) = a) (List.product [False, True] (List.product [False, True] [0..23]))"
  by code_simp

lemma bcd_roundtrip:
  assumes "0 \<le> a" and "a < 100"
  shows "bcd_decode binary (uint (bcd_byte binary a)) = a"
proof (cases binary)
  case True
  then show ?thesis using assms by (simp add: bcd_decode_def bcd_byte_def bcd_encode_def unsigned_of_int take_bit_int_eq_self)
next
  case False
  have "a \<in> set [0..99]" using assms by simp
  with bcd_table have "bcd_decode False (uint (bcd_byte False a)) = a" unfolding list_all_iff by blast
  with False show ?thesis by simp
qed

lemma hour_roundtrip:
  assumes "0 \<le> a" and "a < 24"
  shows "byte_hour binary h24 (hour_byte binary h24 a) = a"
proof -
  have "(binary, h24, a) \<in> set (List.product [False, True] (List.product [False, True] [0..23]))"
    using assms by (cases binary; cases h24) auto
  with hour_table show ?thesis unfolding list_all_iff by blast
qed

section \<open>Copying the date and reading it back\<close>

lemma put_facts [simp]:
  "cmos_ok s \<Longrightarrow> i < 128 \<Longrightarrow> i \<noteq> RTC_REG_B \<Longrightarrow>
    reg (put i a s) j = (if j = i then bcd_byte (flag s RTC_REG_B REG_B_DM) a else reg s j)"
  "cmos_ok (put i a s) = cmos_ok s"
  by (simp_all add: put_def rtc_bcd bcd_byte_def)

lemma flag_put [simp]: "cmos_ok s \<Longrightarrow> i < 128 \<Longrightarrow> i \<noteq> RTC_REG_B \<Longrightarrow> j \<noteq> i \<Longrightarrow> flag (put i a s) j m = flag s j m"
  by (simp add: flag_def)

lemma put_fields [simp]:
  "rtc_irq (put i a s) = rtc_irq s" "cmos_index (put i a s) = cmos_index s" "current_tm (put i a s) = current_tm s"
  "second_timer (put i a s) = second_timer s" "second_timer2 (put i a s) = second_timer2 s"
  "base_year (put i a s) = base_year s" "sqw_irq (put i a s) = sqw_irq s"
  by (simp_all add: put_def)

lemma put_hours_facts [simp]:
  "cmos_ok s \<Longrightarrow> reg (put_hours h s) j =
    (if j = RTC_HOURS then hour_byte (flag s RTC_REG_B REG_B_DM) (flag s RTC_REG_B REG_B_24H) h else reg s j)"
  "cmos_ok (put_hours h s) = cmos_ok s"
  by (auto simp: put_hours_def hour_byte_def Let_def)

lemma flag_put_hours [simp]: "cmos_ok s \<Longrightarrow> j \<noteq> RTC_HOURS \<Longrightarrow> flag (put_hours h s) j m = flag s j m"
  by (simp add: flag_def)

lemma put_hours_fields [simp]:
  "rtc_irq (put_hours h s) = rtc_irq s" "cmos_index (put_hours h s) = cmos_index s" "current_tm (put_hours h s) = current_tm s"
  "second_timer (put_hours h s) = second_timer s" "second_timer2 (put_hours h s) = second_timer2 s"
  "base_year (put_hours h s) = base_year s" "sqw_irq (put_hours h s) = sqw_irq s"
  by (simp_all add: put_hours_def Let_def)

text \<open>The registers a date is copied to.\<close>

definition date_regs :: "nat set" where
  "date_regs = {RTC_SECONDS, RTC_MINUTES, RTC_HOURS, RTC_DAY_OF_WEEK, RTC_DAY_OF_MONTH, RTC_MONTH, RTC_YEAR}"

lemma copy_date_fields [simp]:
  "rtc_irq (rtc_copy_date s) = rtc_irq s" "cmos_index (rtc_copy_date s) = cmos_index s"
  "current_tm (rtc_copy_date s) = current_tm s"
  "second_timer (rtc_copy_date s) = second_timer s" "second_timer2 (rtc_copy_date s) = second_timer2 s"
  "base_year (rtc_copy_date s) = base_year s" "sqw_irq (rtc_copy_date s) = sqw_irq s" "cmos_ok (rtc_copy_date s) = cmos_ok s"
  by (simp_all add: rtc_copy_date_def Let_def)

lemma copy_date_other [simp]:
  "cmos_ok s \<Longrightarrow> i \<notin> date_regs \<Longrightarrow> reg (rtc_copy_date s) i = reg s i"
  "cmos_ok s \<Longrightarrow> i \<notin> date_regs \<Longrightarrow> flag (rtc_copy_date s) i m = flag s i m"
  by (simp_all add: rtc_copy_date_def Let_def date_regs_def flag_def)

definition year_byte :: "int \<Rightarrow> int \<Rightarrow> int" where
  "year_byte base year = (let y = (year - base) smod 100 in if y < 0 then y + 100 else y)"

lemma copy_date_regs:
  assumes "cmos_ok s"
  defines "b \<equiv> flag s RTC_REG_B REG_B_DM" and "t \<equiv> current_tm s"
  shows "reg (rtc_copy_date s) RTC_SECONDS = bcd_byte b (tm_sec t)" "reg (rtc_copy_date s) RTC_MINUTES = bcd_byte b (tm_min t)"
    "reg (rtc_copy_date s) RTC_HOURS = hour_byte b (flag s RTC_REG_B REG_B_24H) (tm_hour t)"
    "reg (rtc_copy_date s) RTC_DAY_OF_WEEK = bcd_byte b (tm_wday t + 1)"
    "reg (rtc_copy_date s) RTC_DAY_OF_MONTH = bcd_byte b (tm_mday t)"
    "reg (rtc_copy_date s) RTC_MONTH = bcd_byte b (tm_mon t + 1)"
    "reg (rtc_copy_date s) RTC_YEAR = bcd_byte b (year_byte (base_year s) (tm_year t))"
  using assms by (simp_all add: rtc_copy_date_def Let_def year_byte_def)

text \<open>A date of the calendar.\<close>

definition valid_tm :: "tm \<Rightarrow> bool" where
  "valid_tm t \<longleftrightarrow> 0 \<le> tm_sec t \<and> tm_sec t < 60 \<and> 0 \<le> tm_min t \<and> tm_min t < 60 \<and> 0 \<le> tm_hour t \<and> tm_hour t < 24 \<and>
     0 \<le> tm_wday t \<and> tm_wday t < 7 \<and> 0 \<le> tm_mon t \<and> tm_mon t < 12 \<and>
     1 \<le> tm_mday t \<and> tm_mday t \<le> get_days_in_month (tm_mon t) (tm_year t + 1900)"

lemma days_le_31: "get_days_in_month m y \<le> 31"
proof -
  have "list_all (\<lambda>d. d \<le> 31) days_tab" "days_tab ! 1 = 28" by (simp_all add: days_tab_def)
  moreover have "nat m < length days_tab" if "0 \<le> m" "m < 12" using that by (simp add: days_tab_def)
  ultimately show ?thesis by (auto simp: get_days_in_month_def Let_def list_all_length)
qed

lemma smod_mod: "0 < k \<Longrightarrow> a smod k = (if 0 \<le> a then a mod k else - ((- a) mod k))" for a k :: int
  by (cases "a = 0") (auto simp: signed_modulo_int_def signed_divide_int_def minus_mult_div_eq_mod sgn_if)

lemma year_byte_mod: "year_byte base year = (year - base) mod 100"
proof -
  define a where "a = year - base"
  have "(- a) mod 100 = (if a mod 100 = 0 then 0 else 100 - a mod 100)" by (rule zmod_zminus1_eq_if)
  then show ?thesis unfolding year_byte_def a_def [symmetric] by (auto simp: Let_def smod_mod)
qed

lemma year_byte_roundtrip:
  assumes "base \<le> year + 1900" and "year + 1900 < base + 100"
  shows "year_byte base year + base - 1900 = year"
proof -
  have "year - base = (year + 1900 - base) + (- 19) * 100" by simp
  then have "(year - base) mod 100 = (year + 1900 - base) mod 100" by (simp only: mod_mult_self1)
  also have "\<dots> = year + 1900 - base" using assms by simp
  finally show ?thesis by (simp add: year_byte_mod)
qed

lemma set_time_tm: "cmos_ok s \<Longrightarrow> current_tm (rtc_set_time s) =
    (let b = flag s RTC_REG_B REG_B_DM in
     \<lparr>tm_sec = bcd_decode b (uint (reg s RTC_SECONDS)), tm_min = bcd_decode b (uint (reg s RTC_MINUTES)),
      tm_hour = byte_hour b (flag s RTC_REG_B REG_B_24H) (reg s RTC_HOURS),
      tm_wday = bcd_decode b (uint (reg s RTC_DAY_OF_WEEK)) - 1, tm_mday = bcd_decode b (uint (reg s RTC_DAY_OF_MONTH)),
      tm_mon = bcd_decode b (uint (reg s RTC_MONTH)) - 1,
      tm_year = bcd_decode b (uint (reg s RTC_YEAR)) + base_year s - 1900\<rparr>)"
  by (simp add: rtc_set_time_def Let_def rtc_bcd byte_hour_def flag_def [of s RTC_HOURS])

text \<open>C30: [rtc_time_roundtrip] A date copied to the registers and read back by the clock is the same date, in BCD and in
  binary, with 12 and with 24 hours, for all dates of the calendar in the hundred years from the base year on.\<close>

theorem rtc_time_roundtrip:
  assumes "length (cmos_data s) = 128" and "valid_tm (current_tm s)"
    and "base_year s \<le> tm_year (current_tm s) + 1900" and "tm_year (current_tm s) + 1900 < base_year s + 100"
  shows "current_tm (rtc_set_time (rtc_copy_date s)) = current_tm s"
proof -
  let ?t = "current_tm s"
  have ok: "cmos_ok s" "cmos_ok (rtc_copy_date s)" using assms(1) by (simp_all add: cmos_ok_def [symmetric])
  have v: "0 \<le> tm_sec ?t" "tm_sec ?t < 100" "0 \<le> tm_min ?t" "tm_min ?t < 100" "0 \<le> tm_hour ?t" "tm_hour ?t < 24"
    "0 \<le> tm_wday ?t + 1" "tm_wday ?t + 1 < 100" "0 \<le> tm_mon ?t + 1" "tm_mon ?t + 1 < 100" "0 \<le> tm_mday ?t" "tm_mday ?t < 100"
    using assms(2) days_le_31 [of "tm_mon ?t" "tm_year ?t + 1900"] unfolding valid_tm_def by linarith+
  have y: "0 \<le> year_byte (base_year s) (tm_year ?t)" "year_byte (base_year s) (tm_year ?t) < 100"
    by (simp_all add: year_byte_mod)
  have "flag (rtc_copy_date s) RTC_REG_B m = flag s RTC_REG_B m" for m using ok by (simp add: date_regs_def)
  then show ?thesis
    unfolding set_time_tm [OF ok(2)] Let_def copy_date_regs [OF ok(1)]
    using v y year_byte_roundtrip [OF assms(3,4)] by (simp add: bcd_roundtrip hour_roundtrip)
qed

definition demo_rtc :: RTCState where
  "demo_rtc = rtc_initfn \<lparr>tm_sec = 59, tm_min = 59, tm_hour = 23, tm_wday = 2, tm_mday = 28, tm_mon = 1, tm_year = 112\<rparr> 0 (rtc_zeroed 2000 True)"

lemma demo_rtc_facts:
  "length (cmos_data demo_rtc) = 128" "current_tm demo_rtc =
    \<lparr>tm_sec = 59, tm_min = 59, tm_hour = 23, tm_wday = 2, tm_mday = 28, tm_mon = 1, tm_year = 112\<rparr>" "base_year demo_rtc = 2000"
  "flag demo_rtc RTC_REG_B REG_B_24H"
  by code_simp+

theorem rtc_time_roundtrip_witness: "current_tm (rtc_set_time (rtc_copy_date demo_rtc)) = current_tm demo_rtc"
  by (rule rtc_time_roundtrip) (simp_all add: demo_rtc_facts valid_tm_def get_days_in_month_def days_tab_def)

section \<open>The alarm\<close>

text \<open>The alarm set to the time the clock shows.\<close>

definition alarm_now :: "RTCState \<Rightarrow> RTCState" where
  "alarm_now s = (let s1 = rtc_copy_date s in
     set_reg RTC_HOURS_ALARM (reg s1 RTC_HOURS) (set_reg RTC_MINUTES_ALARM (reg s1 RTC_MINUTES)
       (set_reg RTC_SECONDS_ALARM (reg s1 RTC_SECONDS) s1)))"

definition alarm_byte :: "bool \<Rightarrow> u8 \<Rightarrow> int \<Rightarrow> bool" where
  "alarm_byte binary w v \<longleftrightarrow> w AND 0xc0 = 0xc0 \<or> bcd_decode binary (uint w) = v"

lemma alarm_table:
  "list_all (\<lambda>(b, a). alarm_byte b (bcd_byte b a) a) (List.product [False, True] [0..59])"
  "list_all (\<lambda>(b, h, a). alarm_byte b (hour_byte b h a) a = (h \<or> 1 \<le> a \<and> a \<le> 11))
    (List.product [False, True] (List.product [False, True] [0..23]))"
  by code_simp+

text \<open>[rtc_alarm_12h] A guest that copies the time it reads into the alarm registers is woken at that time of day if the
  clock counts 24 hours, and with 12 hours only from one to eleven in the morning: the mark of the afternoon is
  read as part of the hour, and twelve o'clock at night as noon.\<close>

theorem rtc_alarm_12h:
  assumes "length (cmos_data s) = 128" and "valid_tm (current_tm s)"
  shows "rtc_alarm (alarm_now s) \<longleftrightarrow> flag s RTC_REG_B REG_B_24H \<or> 1 \<le> tm_hour (current_tm s) \<and> tm_hour (current_tm s) \<le> 11"
proof -
  let ?t = "current_tm s" and ?b = "flag s RTC_REG_B REG_B_DM" and ?h = "flag s RTC_REG_B REG_B_24H"
  have ok: "cmos_ok s" "cmos_ok (rtc_copy_date s)" using assms(1) by (simp_all add: cmos_ok_def [symmetric])
  have fl: "flag (set_reg i w (rtc_copy_date s)) RTC_REG_B m = flag s RTC_REG_B m" if "i \<in> {1, 3, 5}" for i w m
    using ok that by (auto simp: flag_def date_regs_def)
  have "flag (alarm_now s) RTC_REG_B m = flag s RTC_REG_B m" for m
    using ok by (simp add: alarm_now_def Let_def flag_def date_regs_def)
  moreover have "current_tm (alarm_now s) = ?t" by (simp add: alarm_now_def Let_def)
  moreover have "reg (alarm_now s) RTC_SECONDS_ALARM = bcd_byte ?b (tm_sec ?t)" "reg (alarm_now s) RTC_MINUTES_ALARM = bcd_byte ?b (tm_min ?t)"
    "reg (alarm_now s) RTC_HOURS_ALARM = hour_byte ?b ?h (tm_hour ?t)"
    using ok by (simp_all add: alarm_now_def Let_def copy_date_regs)
  ultimately have a: "rtc_alarm (alarm_now s) \<longleftrightarrow> alarm_byte ?b (bcd_byte ?b (tm_sec ?t)) (tm_sec ?t) \<and>
      alarm_byte ?b (bcd_byte ?b (tm_min ?t)) (tm_min ?t) \<and> alarm_byte ?b (hour_byte ?b ?h (tm_hour ?t)) (tm_hour ?t)"
    by (simp add: rtc_alarm_def alarm_field_def alarm_byte_def rtc_bcd)
  have m: "alarm_byte ?b (bcd_byte ?b v) v" if "0 \<le> v" "v < 60" for v
  proof -
    have "(?b, v) \<in> set (List.product [False, True] [0..59])" using that by (cases ?b) auto
    with alarm_table(1) show ?thesis unfolding list_all_iff by blast
  qed
  have "(?b, ?h, tm_hour ?t) \<in> set (List.product [False, True] (List.product [False, True] [0..23]))"
    using assms(2) by (cases ?b; cases ?h) (auto simp: valid_tm_def)
  with alarm_table(2) have "alarm_byte ?b (hour_byte ?b ?h (tm_hour ?t)) (tm_hour ?t) =
      (?h \<or> 1 \<le> tm_hour ?t \<and> tm_hour ?t \<le> 11)" unfolding list_all_iff by blast
  with a m assms(2) show ?thesis by (simp add: valid_tm_def)
qed

theorem rtc_alarm_12h_witness: "rtc_alarm (alarm_now demo_rtc)"
  using rtc_alarm_12h [OF demo_rtc_facts(1)] demo_rtc_facts
  by (simp add: valid_tm_def get_days_in_month_def days_tab_def)

section \<open>The calendar\<close>

text \<open>The number of the second a date names, from the lengths of the months and the rule for leap years, with the
  years before it counted in closed form.\<close>

definition leap :: "int \<Rightarrow> bool" where
  "leap y \<longleftrightarrow> 4 dvd y \<and> (\<not> 100 dvd y \<or> 400 dvd y)"

definition month_days :: "int \<Rightarrow> int list" where
  "month_days y = [31, if leap y then 29 else 28, 31, 30, 31, 30, 31, 31, 30, 31, 30, 31]"

definition days_to_year :: "int \<Rightarrow> int" where
  "days_to_year y = 365 * y + (y - 1) div 4 - (y - 1) div 100 + (y - 1) div 400"

definition day_number :: "tm \<Rightarrow> int" where
  "day_number t = days_to_year (tm_year t + 1900) + sum_list (take (nat (tm_mon t)) (month_days (tm_year t + 1900))) + tm_mday t"

definition second_number :: "tm \<Rightarrow> int" where
  "second_number t = ((day_number t * 24 + tm_hour t) * 60 + tm_min t) * 60 + tm_sec t"

lemma smod_0: "0 < k \<Longrightarrow> a smod k = 0 \<longleftrightarrow> k dvd a" for a k :: int
  by (simp add: smod_mod dvd_eq_mod_eq_0 [symmetric])

lemma month_length:
  assumes "0 \<le> m" and "m < 12"
  shows "get_days_in_month m y = month_days y ! nat m"
proof -
  have "list_all (\<lambda>m. get_days_in_month m y = month_days y ! nat m) [0..11]"
    by (simp add: upto.simps get_days_in_month_def month_days_def days_tab_def Let_def leap_def smod_0)
  moreover have "m \<in> set [0..11]" using assms by simp
  ultimately show ?thesis unfolding list_all_iff by blast
qed

lemma month_step:
  assumes "0 \<le> m" and "m < 12"
  shows "sum_list (take (nat (m + 1)) (month_days y)) = sum_list (take (nat m) (month_days y)) + get_days_in_month m y"
proof -
  have "nat m < length (month_days y)" using assms by (simp add: month_days_def)
  then have "take (Suc (nat m)) (month_days y) = take (nat m) (month_days y) @ [month_days y ! nat m]"
    by (rule take_Suc_conv_app_nth)
  with assms show ?thesis by (simp add: month_length nat_add_distrib)
qed

lemma quotient_step: "0 < k \<Longrightarrow> y div k = (y - 1) div k + (if k dvd y then 1 else 0)" for y k :: int
proof -
  assume k: "0 < k"
  show ?thesis
  proof (cases "k dvd y")
    case True
    then obtain j where j: "y = k * j" by (rule dvdE)
    have "(k * j - 1) div k = j - 1"
      using k by (intro int_div_pos_eq [of _ _ _ "k - 1"]) (simp_all add: algebra_simps)
    with j k True show ?thesis by simp
  next
    case False
    then have r: "0 < y mod k" "y mod k < k" using pos_mod_bound [OF k, of y] pos_mod_sign [OF k, of y] by (simp_all add: dvd_eq_mod_eq_0 order_less_le)
    have "(y - 1) div k = y div k"
      using r by (intro int_div_pos_eq [of _ _ _ "y mod k - 1"]) (simp_all add: algebra_simps)
    with False show ?thesis by simp
  qed
qed

lemma year_step: "days_to_year (y + 1) = days_to_year y + sum_list (month_days y)"
proof -
  define a b c where "a = (y - 1) div 4" and "b = (y - 1) div 100" and "c = (y - 1) div 400"
  define p q r where "p \<longleftrightarrow> 4 dvd y" and "q \<longleftrightarrow> 100 dvd y" and "r \<longleftrightarrow> 400 dvd y"
  have e: "y div 4 = a + (if p then 1 else 0)" "y div 100 = b + (if q then 1 else 0)" "y div 400 = c + (if r then 1 else 0)"
    unfolding a_def b_def c_def p_def q_def r_def by (rule quotient_step; simp)+
  have d: "q \<longrightarrow> p" "r \<longrightarrow> q"
    using dvd_trans [of 4 100 y] dvd_trans [of 100 400 y] by (simp_all add: p_def q_def r_def)
  have "days_to_year (y + 1) = 365 * y + 365 + y div 4 - y div 100 + y div 400" by (simp add: days_to_year_def)
  moreover have "days_to_year y = 365 * y + a - b + c" by (simp add: days_to_year_def a_def b_def c_def)
  moreover have "sum_list (month_days y) = (if p \<and> (\<not> q \<or> r) then 366 else 365)"
    by (simp add: month_days_def leap_def p_def q_def r_def)
  ultimately show ?thesis unfolding e using d by (cases p; cases q; cases r) simp_all
qed

lemma next_day_date:
  assumes "valid_tm t"
  shows "valid_tm (next_day t)" "day_number (next_day t) = day_number t + 1"
    "tm_hour (next_day t) = tm_hour t \<and> tm_min (next_day t) = tm_min t \<and> tm_sec (next_day t) = tm_sec t"
    "tm_wday (next_day t) = (tm_wday t + 1) mod 7"
proof -
  let ?y = "tm_year t + 1900" and ?m = "tm_mon t"
  have v: "0 \<le> ?m" "?m < 12" "1 \<le> tm_mday t" "tm_mday t \<le> get_days_in_month ?m ?y" "0 \<le> tm_wday t" "tm_wday t < 7"
    and hms: "0 \<le> tm_sec t" "tm_sec t < 60" "0 \<le> tm_min t" "tm_min t < 60" "0 \<le> tm_hour t" "tm_hour t < 24"
    using assms by (simp_all add: valid_tm_def)
  have w: "(if over 7 (tm_wday t + 1) then 0 else tm_wday t + 1) = (tm_wday t + 1) mod 7"
    using v(5,6) by (cases "tm_wday t = 6") (auto simp: over_def)
  have pos: "1 \<le> get_days_in_month m y" for m y
  proof -
    have "list_all (\<lambda>d. 1 \<le> d) days_tab" by (simp add: days_tab_def)
    moreover have "nat m < length days_tab" if "0 \<le> m" "m < 12" using that by (simp add: days_tab_def)
    ultimately show ?thesis by (fastforce simp: get_days_in_month_def Let_def list_all_length)
  qed
  have december: "sum_list (take 11 (month_days ?y)) + get_days_in_month 11 ?y = sum_list (month_days ?y)"
    by (simp add: month_length) (simp add: month_days_def)
  show "tm_wday (next_day t) = (tm_wday t + 1) mod 7" using w by (simp add: next_day_def Let_def)
  show "tm_hour (next_day t) = tm_hour t \<and> tm_min (next_day t) = tm_min t \<and> tm_sec (next_day t) = tm_sec t"
    by (simp add: next_day_def Let_def)
  consider "tm_mday t < get_days_in_month ?m ?y" | "tm_mday t = get_days_in_month ?m ?y" "?m < 11"
    | "tm_mday t = get_days_in_month ?m ?y" "?m = 11" using v by linarith
  then have "valid_tm (next_day t) \<and> day_number (next_day t) = day_number t + 1"
  proof cases
    case 1
    then have "next_day t = t\<lparr>tm_wday := (tm_wday t + 1) mod 7, tm_mday := tm_mday t + 1\<rparr>"
      using v(3) w by (simp add: next_day_def Let_def)
    then show ?thesis using 1 v hms by (simp add: valid_tm_def day_number_def)
  next
    case 2
    then have "next_day t = t\<lparr>tm_wday := (tm_wday t + 1) mod 7, tm_mday := 1, tm_mon := ?m + 1\<rparr>"
      using v(3) w by (simp add: next_day_def Let_def)
    then show ?thesis using 2 v hms month_step [OF v(1,2), of ?y] pos by (simp add: valid_tm_def day_number_def)
  next
    case 3
    then have "next_day t = t\<lparr>tm_wday := (tm_wday t + 1) mod 7, tm_mday := 1, tm_mon := 0, tm_year := tm_year t + 1\<rparr>"
      using v(3) w by (simp add: next_day_def Let_def)
    then show ?thesis using 3 v hms december year_step [of ?y] pos
      by (simp add: valid_tm_def day_number_def algebra_simps)
  qed
  then show "valid_tm (next_day t)" "day_number (next_day t) = day_number t + 1" by simp_all
qed

text \<open>C23: [rtc_calendar] The second after a date of the calendar is a date of the calendar, and the one whose number is one
  more; the day of the week goes on with the date.\<close>

theorem rtc_calendar:
  assumes "valid_tm t"
  shows "valid_tm (rtc_next_second t) \<and> second_number (rtc_next_second t) = second_number t + 1 \<and>
    (tm_wday (rtc_next_second t) - day_number (rtc_next_second t)) mod 7 = (tm_wday t - day_number t) mod 7"
proof -
  have v: "0 \<le> tm_sec t" "tm_sec t < 60" "0 \<le> tm_min t" "tm_min t < 60" "0 \<le> tm_hour t" "tm_hour t < 24"
    using assms by (simp_all add: valid_tm_def)
  have num: "day_number (t\<lparr>tm_sec := a\<rparr>) = day_number t" "day_number (t\<lparr>tm_sec := a, tm_min := b\<rparr>) = day_number t"
    "day_number (t\<lparr>tm_sec := a, tm_min := b, tm_hour := c\<rparr>) = day_number t" for a b c
    by (simp_all add: day_number_def)
  consider "tm_sec t < 59" | "tm_sec t = 59" "tm_min t < 59" | "tm_sec t = 59" "tm_min t = 59" "tm_hour t < 23"
    | "tm_sec t = 59" "tm_min t = 59" "tm_hour t = 23" using v by linarith
  then show ?thesis
  proof cases
    case 4
    let ?d = "t\<lparr>tm_sec := 0, tm_min := 0, tm_hour := 0\<rparr>"
    have "valid_tm ?d" using assms by (simp add: valid_tm_def)
    note d = next_day_date [OF this]
    have "rtc_next_second t = next_day ?d" using 4 by (simp add: rtc_next_second_def over_def)
    moreover have "(tm_wday (next_day ?d) - day_number (next_day ?d)) mod 7 = (tm_wday t - day_number t) mod 7"
      using d(2,4) num(3) by (simp add: mod_diff_left_eq)
    ultimately show ?thesis using 4 d num(3) by (simp add: second_number_def)
  qed (use assms v in \<open>simp_all add: rtc_next_second_def over_def valid_tm_def second_number_def num\<close>)
qed

theorem rtc_calendar_witness:
  "rtc_next_second \<lparr>tm_sec = 59, tm_min = 59, tm_hour = 23, tm_wday = 2, tm_mday = 28, tm_mon = 1, tm_year = 112\<rparr> =
     \<lparr>tm_sec = 0, tm_min = 0, tm_hour = 0, tm_wday = 3, tm_mday = 29, tm_mon = 1, tm_year = 112\<rparr> \<and>
   second_number \<lparr>tm_sec = 0, tm_min = 0, tm_hour = 0, tm_wday = 3, tm_mday = 29, tm_mon = 1, tm_year = 112\<rparr> =
     second_number \<lparr>tm_sec = 59, tm_min = 59, tm_hour = 23, tm_wday = 2, tm_mday = 28, tm_mon = 1, tm_year = 112\<rparr> + 1"
proof -
  let ?t = "\<lparr>tm_sec = 59, tm_min = 59, tm_hour = 23, tm_wday = 2, tm_mday = 28, tm_mon = 1, tm_year = 112\<rparr>"
  have n: "rtc_next_second ?t = \<lparr>tm_sec = 0, tm_min = 0, tm_hour = 0, tm_wday = 3, tm_mday = 29, tm_mon = 1, tm_year = 112\<rparr>"
    by code_simp
  have "valid_tm ?t" by code_simp
  from rtc_calendar [OF this] n show ?thesis by simp
qed

end
