(* ===== verification/RtcTimers.thy ===== *)
theory RtcTimers
  imports RtcTime I8254Time
begin

unbundle bit_operations_syntax

text \<open>
  The timers of the real-time clock: the periodic interrupt in cycles of the 32 kHz clock, and an invariant over everything
  that can happen to the device, with the interrupt line, the flags and the timers of the update cycle.
\<close>

section \<open>The periodic interrupt\<close>

text \<open>The cycles of the 32 kHz clock, and the period selected.\<close>

definition clk :: "u64 \<Rightarrow> nat" where
  "clk t = unat t * 32768 div 1000000000"

definition rate :: "RTCState \<Rightarrow> nat" where
  "rate s = unat (period_of_code (reg s RTC_REG_A AND 0x0f))"

definition periodic_on :: "RTCState \<Rightarrow> bool" where
  "periodic_on s \<longleftrightarrow> reg s RTC_REG_A AND 0x0f \<noteq> 0 \<and>
     (flag s RTC_REG_B REG_B_PIE \<or> flag s RTC_REG_B REG_B_SQWE \<and> sqw_irq s)"

lemma period_table:
  "list_all (\<lambda>c. unat (period_of_code (word_of_int c)) = 2 ^ (if c \<le> 2 then nat c + 6 else nat c - 1)) [1..15]"
  by code_simp

lemma rate_power:
  assumes "w AND 0x0f \<noteq> 0"
  shows "\<exists>k \<le> 14. unat (period_of_code (w AND 0x0f)) = 2 ^ k"
proof -
  have "w AND 0x0f = take_bit 4 w" by (simp add: take_bit_eq_mask mask_eq_exp_minus_1)
  then have u: "uint (w AND 0x0f) = uint w mod 16" by (simp only: unsigned_take_bit_eq) (simp add: take_bit_eq_mod)
  define c where "c = uint w mod 16"
  have "c \<noteq> 0" using assms u unfolding c_def by (metis unsigned_eq_0_iff)
  moreover have "0 \<le> c" "c < 16" by (simp_all add: c_def)
  ultimately have "c \<in> set [1..15]" by simp
  with period_table have "unat (period_of_code (word_of_int c)) = 2 ^ (if c \<le> 2 then nat c + 6 else nat c - 1)"
    unfolding list_all_iff by blast
  moreover have "word_of_int c = w AND 0x0f" using u unfolding c_def by (metis word_of_int_uint)
  moreover have "(if c \<le> 2 then nat c + 6 else nat c - 1) \<le> 14" using \<open>c < 16\<close> \<open>0 \<le> c\<close> by (auto simp: le_diff_conv nat_le_iff)
  ultimately show ?thesis by metis
qed

lemma clk_muldiv: "unat (muldiv64 t 32768 get_ticks_per_sec) = clk t"
proof -
  have t: "unat t < 2 ^ 64" using unsigned_less [of t] by simp
  then have "unat t * 32768 div 1000000000 < 2 ^ 64" by simp
  then show ?thesis by (simp add: muldiv64_nat get_ticks_per_sec_def clk_def)
qed

lemma clk_small: "clk t * 1000000000 \<le> unat t * 32768"
  by (simp add: clk_def)

lemma next_irq_clock_nat:
  assumes "unat p = 2 ^ k" and "k \<le> 14"
  shows "unat (next_irq_clock t p) = (clk t div unat p + 1) * unat p"
proof -
  have "(ucast p :: u64) = of_nat (unat p)" by (rule of_nat_unat [symmetric])
  then have "(ucast p :: u64) = 2 ^ k" by (simp add: assms(1))
  then have m: "(ucast p :: u64) - 1 = mask k" "(ucast p :: u64) = 2 ^ k" by (simp_all add: mask_eq_exp_minus_1)
  have t: "unat t < 2 ^ 64" using unsigned_less [of t] by simp
  then have c: "clk t < 2 ^ 50" by (simp add: clk_def)
  have "(2 :: nat) ^ k \<le> 2 ^ 14" using assms(2) by (rule power_increasing) simp
  then have "(2 :: nat) ^ k \<le> 16384" "clk t < 1125899906842624" "clk t div 2 ^ k * 2 ^ k \<le> clk t" using c by simp_all
  then have "clk t div 2 ^ k * 2 ^ k + 2 ^ k < 18446744073709551616" by linarith
  then have "clk t div 2 ^ k * 2 ^ k + 2 ^ k < 2 ^ 64" by simp
  moreover have "unat (2 ^ k :: u64) = 2 ^ k"
  proof -
    have "(2 :: nat) ^ k < 2 ^ 64" using assms(2) by (intro power_strict_increasing) simp_all
    then have "unat (of_nat (2 ^ k) :: u64) = 2 ^ k"
      using assms(2) by (simp only: unsigned_of_nat) (simp add: take_bit_nat_eq_self)
    then show ?thesis by simp
  qed
  moreover have "next_irq_clock t p = (muldiv64 t 32768 get_ticks_per_sec AND NOT (mask k)) + 2 ^ k"
    by (simp only: next_irq_clock_def m(1)) (simp only: m(2))
  ultimately have "unat (next_irq_clock t p) = clk t div 2 ^ k * 2 ^ k + 2 ^ k"
    by (simp add: unat_word_ariths and_not_mask clk_muldiv)
  then show ?thesis by (simp add: assms(1) algebra_simps)
qed

text \<open>A time rounded up from a number of cycles has that number of cycles.\<close>

lemma cycle_exact: "(n * 1000000000 div 32768 + 1) * 32768 div 1000000000 = n" for n :: nat
proof -
  define q r where "q = n * 1000000000 div 32768" and "r = n * 1000000000 mod 32768"
  have "n * 1000000000 = q * 32768 + r" unfolding q_def r_def by (rule div_mult_mod_eq [symmetric])
  moreover have "r < 32768" by (simp add: r_def)
  ultimately have "(q + 1) * 32768 = n * 1000000000 + (32768 - r)" "32768 - r < 1000000000" by simp_all
  then show ?thesis unfolding q_def [symmetric] by simp
qed

lemma rtc_update_fields:
  "cmos_data (rtc_timer_update t s) = cmos_data s" "sqw_irq (rtc_timer_update t s) = sqw_irq s"
  "rtc_irq (rtc_timer_update t s) = rtc_irq s" "cmos_index (rtc_timer_update t s) = cmos_index s"
  "second_timer (rtc_timer_update t s) = second_timer s" "second_timer2 (rtc_timer_update t s) = second_timer2 s"
  by (simp_all add: rtc_timer_update_def Let_def)

lemma timer_update_reg [simp]:
  "reg (rtc_timer_update t s) i = reg s i" "flag (rtc_timer_update t s) i m = flag s i m"
  "cmos_ok (rtc_timer_update t s) = cmos_ok s"
  by (simp_all add: reg_def flag_def cmos_ok_def rtc_update_fields)

lemma coalesced_update_fields [simp]:
  "cmos_data (rtc_coalesced_timer_update t s) = cmos_data s" "sqw_irq (rtc_coalesced_timer_update t s) = sqw_irq s"
  "rtc_irq (rtc_coalesced_timer_update t s) = rtc_irq s" "cmos_index (rtc_coalesced_timer_update t s) = cmos_index s"
  "second_timer (rtc_coalesced_timer_update t s) = second_timer s"
  "second_timer2 (rtc_coalesced_timer_update t s) = second_timer2 s"
  "next_periodic_time (rtc_coalesced_timer_update t s) = next_periodic_time s"
  "periodic_timer (rtc_coalesced_timer_update t s) = periodic_timer s"
  by (simp_all add: rtc_coalesced_timer_update_def Let_def)

lemma coalesced_update_reg [simp]:
  "reg (rtc_coalesced_timer_update t s) i = reg s i" "flag (rtc_coalesced_timer_update t s) i m = flag s i m"
  "cmos_ok (rtc_coalesced_timer_update t s) = cmos_ok s"
  by (simp_all add: reg_def flag_def cmos_ok_def)

text \<open>Arming the timer.\<close>

lemma timer_update_armed:
  assumes "periodic_on s" and "unat t < 2 ^ 63"
  shows "periodic_timer (rtc_timer_update t s) = Some (next_periodic_time (rtc_timer_update t s))"
    "clk (next_periodic_time (rtc_timer_update t s)) = (clk t div rate s + 1) * rate s"
    "unat (next_periodic_time (rtc_timer_update t s)) = (clk t div rate s + 1) * rate s * 1000000000 div 32768 + 1"
proof -
  let ?p = "period_of_code (reg s RTC_REG_A AND 0x0f)" and ?n = "(clk t div rate s + 1) * rate s"
  obtain k where k: "k \<le> 14" "unat ?p = 2 ^ k" using rate_power assms(1) unfolding periodic_on_def by blast
  have u: "unat (next_irq_clock t ?p) = ?n" using next_irq_clock_nat [OF k(2,1)] by (simp add: rate_def)
  have "(2 :: nat) ^ k \<le> 2 ^ 14" using k(1) by (rule power_increasing) simp
  then have "rate s \<le> 2 ^ 14" using k(2) by (simp add: rate_def)
  moreover have "?n = clk t div rate s * rate s + rate s" "clk t div rate s * rate s \<le> clk t" by simp_all
  ultimately have "?n \<le> clk t + 2 ^ 14" by linarith
  then have "?n * 1000000000 \<le> unat t * 32768 + 2 ^ 14 * 1000000000" using clk_small [of t] by simp
  then have "?n * 1000000000 div 32768 + 1 < 2 ^ 64" using assms(2) by simp
  moreover have "next_periodic_time (rtc_timer_update t s) = muldiv64 (next_irq_clock t ?p) get_ticks_per_sec 32768 + 1"
    using assms(1) by (simp add: rtc_timer_update_def periodic_on_def Let_def)
  ultimately show nt: "unat (next_periodic_time (rtc_timer_update t s)) = ?n * 1000000000 div 32768 + 1"
    by (simp add: unat_word_ariths muldiv64_nat get_ticks_per_sec_def u)
  show "clk (next_periodic_time (rtc_timer_update t s)) = ?n" unfolding clk_def nt by (rule cycle_exact)
  show "periodic_timer (rtc_timer_update t s) = Some (next_periodic_time (rtc_timer_update t s))"
    using assms(1) by (simp add: rtc_timer_update_def periodic_on_def Let_def)
qed

text \<open>A firing keeps the rate and the enabling flags.\<close>

lemma flag_other [simp]:
  "cmos_ok s \<Longrightarrow> i < 128 \<Longrightarrow> j \<noteq> i \<Longrightarrow> flag (set_flags i m s) j n = flag s j n"
  "cmos_ok s \<Longrightarrow> i < 128 \<Longrightarrow> j \<noteq> i \<Longrightarrow> flag (clear_flags i m s) j n = flag s j n"
  "cmos_ok s \<Longrightarrow> i < 128 \<Longrightarrow> j \<noteq> i \<Longrightarrow> flag (set_reg i v s) j n = flag s j n"
  by (simp_all add: flag_def)

lemma flag_frame [simp]:
  "flag (s\<lparr>current_tm := t\<rparr>) i m = flag s i m" "flag (s\<lparr>rtc_irq := b\<rparr>) i m = flag s i m"
  "flag (s\<lparr>irq_reinject_on_ack_count := c\<rparr>) i m = flag s i m" "flag (s\<lparr>irq_coalesced := n\<rparr>) i m = flag s i m"
  "flag (rtc_call r s) i m = flag s i m"
  by (simp_all add: flag_def)

lemma set_flags_periodic [simp]:
  "periodic_timer (set_flags i m s) = periodic_timer s" "periodic_timer (rtc_call c s) = periodic_timer s"
  by (simp_all add: set_flags_def set_reg_def rtc_call_def)

lemma periodic_firing:
  fixes delivered :: bool and now :: u64
  assumes "cmos_ok s"
  defines "u \<equiv> rtc_timer_update (next_periodic_time s) s" and "v \<equiv> rtc_periodic_timer delivered now s"
  shows "next_periodic_time v = next_periodic_time u" "periodic_timer v = periodic_timer u" "sqw_irq v = sqw_irq s" "cmos_ok v"
    "i \<noteq> RTC_REG_C \<Longrightarrow> reg v i = reg s i"
    "flag s RTC_REG_B REG_B_PIE \<Longrightarrow> reg v RTC_REG_C = (reg s RTC_REG_C OR REG_C_PF) OR REG_C_IRQF"
    "\<not> flag s RTC_REG_B REG_B_PIE \<Longrightarrow> reg v RTC_REG_C = reg s RTC_REG_C OR REG_C_PF"
    "flag s RTC_REG_B REG_B_PIE \<Longrightarrow> rtc_irq v" "\<not> flag s RTC_REG_B REG_B_PIE \<Longrightarrow> rtc_irq v = rtc_irq s"
  using assms(1) by (simp_all add: u_def v_def rtc_periodic_timer_def Let_def rtc_update_fields)

lemma periodic_on_firing: "cmos_ok s \<Longrightarrow> periodic_on (rtc_periodic_timer d now s) = periodic_on s \<and>
    rate (rtc_periodic_timer d now s) = rate s \<and> flag (rtc_periodic_timer d now s) RTC_REG_B m = flag s RTC_REG_B m"
  by (simp add: periodic_on_def rate_def flag_def periodic_firing)

lemma rate_bounds: "periodic_on s \<Longrightarrow> 0 < rate s \<and> rate s \<le> 2 ^ 14"
proof -
  assume "periodic_on s"
  then obtain k where k: "k \<le> 14" "rate s = 2 ^ k" using rate_power unfolding periodic_on_def rate_def by blast
  then have "(2 :: nat) ^ k \<le> 2 ^ 14" by (intro power_increasing) simp_all
  with k(2) show ?thesis by simp
qed

text \<open>After the timer is armed and has fired \<open>k\<close> times.\<close>

definition fired :: "(bool \<times> u64) list \<Rightarrow> u64 \<Rightarrow> RTCState \<Rightarrow> RTCState" where
  "fired evs t s = foldl (\<lambda>s (delivered, now). rtc_periodic_timer delivered now s) (rtc_timer_update t s) evs"

lemma fired_snoc: "fired (evs @ [(d, now)]) t s = rtc_periodic_timer d now (fired evs t s)"
  by (simp add: fired_def)

lemma fired_state:
  assumes "cmos_ok s" and "periodic_on s" and "unat t < 2 ^ 62"
  shows "length evs \<le> 2 ^ 32 \<Longrightarrow> cmos_ok (fired evs t s) \<and> periodic_on (fired evs t s) \<and> rate (fired evs t s) = rate s \<and>
    flag (fired evs t s) RTC_REG_B m = flag s RTC_REG_B m \<and>
    periodic_timer (fired evs t s) = Some (next_periodic_time (fired evs t s)) \<and>
    unat (next_periodic_time (fired evs t s)) = (clk t div rate s + 1 + length evs) * rate s * 1000000000 div 32768 + 1"
proof (induction evs rule: rev_induct)
  case Nil
  from timer_update_armed [OF assms(2), of t] assms show ?case
    by (simp add: fired_def periodic_on_def rate_def rtc_update_fields)
next
  case (snoc e evs)
  obtain d now where e: "e = (d, now)" by fastforce
  let ?s = "fired evs t s" and ?n = "(clk t div rate s + 1 + length evs) * rate s"
  let ?t = "next_periodic_time ?s"
  have IH: "cmos_ok ?s" "periodic_on ?s" "rate ?s = rate s" "flag ?s RTC_REG_B m = flag s RTC_REG_B m"
    "unat ?t = ?n * 1000000000 div 32768 + 1" using snoc by simp_all
  have clk: "clk ?t = ?n" unfolding clk_def IH(5) by (rule cycle_exact)
  have r: "0 < rate s" "rate s \<le> 2 ^ 14" using rate_bounds [OF assms(2)] by simp_all
  have len: "1 + length evs \<le> 2 ^ 32" using snoc.prems by simp
  have "(1 + length evs) * rate s \<le> 2 ^ 32 * 2 ^ 14" by (rule mult_le_mono [OF len r(2)])
  moreover have "clk t div rate s * rate s \<le> clk t" "?n = clk t div rate s * rate s + (1 + length evs) * rate s"
    by (simp_all add: algebra_simps)
  ultimately have "?n \<le> clk t + 2 ^ 32 * 2 ^ 14" by linarith
  then have "?n * 1000000000 \<le> unat t * 32768 + 2 ^ 46 * 1000000000" using clk_small [of t] by simp
  then have "unat ?t < 2 ^ 63" using assms(3) unfolding IH(5) by simp
  from timer_update_armed [OF IH(2) this] clk r(1) IH(3)
  have "periodic_timer (rtc_timer_update ?t ?s) = Some (next_periodic_time (rtc_timer_update ?t ?s))"
    "unat (next_periodic_time (rtc_timer_update ?t ?s)) = (?n div rate s + 1) * rate s * 1000000000 div 32768 + 1"
    by simp_all
  moreover have "?n div rate s + 1 = clk t div rate s + 1 + length (evs @ [e])" using r(1) by simp
  ultimately show ?case
    using IH periodic_on_firing [OF IH(1)] unfolding e fired_snoc by (simp add: periodic_firing [OF IH(1)])
qed

text \<open>[rtc_periodic_exact] Once armed, the periodic timer fires at every multiple of the selected period of the 32 kHz
  clock, without drift: after \<open>k\<close> firings, however late they were handled, the timer is armed for the time at which the
  clock reaches the next multiple but \<open>k\<close> of the period; each firing sets the flag of the periodic interrupt, and with
  the interrupt enabled also its request and the line.\<close>

theorem rtc_periodic_exact:
  assumes "length (cmos_data s) = 128" and "periodic_on s" and "unat t < 2 ^ 62" and "length evs \<le> 2 ^ 32"
  shows "(\<exists>u. periodic_timer (fired evs t s) = Some u \<and> t < u \<and> clk u = (clk t div rate s + 1 + length evs) * rate s) \<and>
    (evs = [] \<or> flag (fired evs t s) RTC_REG_C REG_C_PF \<and>
      (flag s RTC_REG_B REG_B_PIE \<longrightarrow> flag (fired evs t s) RTC_REG_C REG_C_IRQF \<and> rtc_irq (fired evs t s)))"
proof
  have ok: "cmos_ok s" using assms(1) by (simp add: cmos_ok_def)
  have f: "periodic_timer (fired evs t s) = Some (next_periodic_time (fired evs t s))"
    "unat (next_periodic_time (fired evs t s)) = (clk t div rate s + 1 + length evs) * rate s * 1000000000 div 32768 + 1"
    using fired_state [OF ok assms(2,3,4)] by simp_all
  have n: "clk (next_periodic_time (fired evs t s)) = (clk t div rate s + 1 + length evs) * rate s"
    unfolding clk_def f(2) by (rule cycle_exact)
  have "clk t < (clk t div rate s + 1) * rate s"
    using rate_bounds [OF assms(2)] by (metis Suc_eq_plus1 dividend_less_div_times mult_Suc)
  also have "\<dots> \<le> (clk t div rate s + 1 + length evs) * rate s" by simp
  finally have "clk t < clk (next_periodic_time (fired evs t s))" unfolding n .
  then have "t < next_periodic_time (fired evs t s)"
    unfolding clk_def word_less_nat_alt by (meson div_le_mono leD le_less_linear mult_le_mono1)
  with f(1) n show "\<exists>u. periodic_timer (fired evs t s) = Some u \<and> t < u \<and> clk u = (clk t div rate s + 1 + length evs) * rate s"
    by blast
  show "evs = [] \<or> flag (fired evs t s) RTC_REG_C REG_C_PF \<and>
      (flag s RTC_REG_B REG_B_PIE \<longrightarrow> flag (fired evs t s) RTC_REG_C REG_C_IRQF \<and> rtc_irq (fired evs t s))"
  proof (cases evs rule: rev_cases)
    case (snoc es e)
    obtain d now where e: "e = (d, now)" by fastforce
    have "cmos_ok (fired es t s)" "flag (fired es t s) RTC_REG_B REG_B_PIE = flag s RTC_REG_B REG_B_PIE"
      using fired_state [OF ok assms(2,3), of es] assms(4) snoc by simp_all
    with periodic_firing(6-8) [OF this(1), of d now] show ?thesis
      unfolding snoc e fired_snoc flag_bits by (auto simp: flag_bits bit_or_iff bit_simps bit_numeral_rec)
  qed simp
qed

definition demo_periodic :: RTCState where
  "demo_periodic = set_reg RTC_REG_B 0x42 demo_rtc"

lemma demo_periodic_facts: "length (cmos_data demo_periodic) = 128" "periodic_on demo_periodic" "rate demo_periodic = 32"
  by code_simp+

theorem rtc_periodic_exact_witness:
  "\<exists>u. periodic_timer (fired [(True, 1), (False, 7)] 0 demo_periodic) = Some u \<and> 0 < u \<and> clk u = 96"
  using rtc_periodic_exact [OF demo_periodic_facts(1,2), of 0 "[(True, 1), (False, 7)]"] demo_periodic_facts(3)
  by (simp add: clk_def)

section \<open>Requests, flags and timers\<close>

text \<open>What can happen to the device; a timer that is not armed does not fire.\<close>

datatype rtc_op =
    Port_write u32 u32 | Port_read bool u32 | Periodic_fires bool | Coalesced_fires bool | Second_fires | Second2_fires
  | Reset | Clock_reset tm | Suspend

definition fires :: "u64 option \<Rightarrow> (RTCState \<Rightarrow> RTCState) \<Rightarrow> RTCState \<Rightarrow> RTCState" where
  "fires timer f s = (if timer = None then s else f s)"

fun rtc_apply :: "rtc_op \<times> u64 \<Rightarrow> RTCState \<Rightarrow> RTCState" where
  "rtc_apply (Port_write addr data, now) s = cmos_ioport_write now addr data s"
| "rtc_apply (Port_read delivered addr, now) s = fst (cmos_ioport_read delivered addr s)"
| "rtc_apply (Periodic_fires delivered, now) s =
     fires (periodic_timer s) (\<lambda>s. rtc_periodic_timer delivered now (s\<lparr>periodic_timer := None\<rparr>)) s"
| "rtc_apply (Coalesced_fires delivered, now) s =
     fires (coalesced_timer s) (\<lambda>s. rtc_coalesced_timer delivered now (s\<lparr>coalesced_timer := None\<rparr>)) s"
| "rtc_apply (Second_fires, now) s = fires (second_timer s) (\<lambda>s. rtc_update_second (s\<lparr>second_timer := None\<rparr>)) s"
| "rtc_apply (Second2_fires, now) s = fires (second_timer2 s) (\<lambda>s. rtc_update_second2 (s\<lparr>second_timer2 := None\<rparr>)) s"
| "rtc_apply (Reset, now) s = rtc_reset s"
| "rtc_apply (Clock_reset host, now) s = rtc_notify_clock_reset host now s"
| "rtc_apply (Suspend, now) s = rtc_notify_suspend s"

definition irq_coherent :: "bool \<Rightarrow> u8 \<Rightarrow> bool" where
  "irq_coherent line c \<longleftrightarrow> line = bit c 7 \<and> (bit c 7 \<longrightarrow> bit c 6 \<or> bit c 5 \<or> bit c 4)"

definition update_coherent :: "bool \<Rightarrow> u8 \<Rightarrow> u8 \<Rightarrow> bool" where
  "update_coherent pending a b \<longleftrightarrow> (bit a 7 \<longrightarrow> pending \<and> \<not> bit b 7) \<and> (bit b 7 \<longrightarrow> \<not> bit b 4)"

definition rtc_inv :: "RTCState \<Rightarrow> bool" where
  "rtc_inv s \<longleftrightarrow> cmos_ok s \<and> unat (cmos_index s) < 128 \<and> irq_coherent (rtc_irq s) (reg s RTC_REG_C) \<and>
     (second_timer s \<noteq> None \<or> second_timer2 s \<noteq> None) \<and>
     update_coherent (second_timer2 s \<noteq> None) (reg s RTC_REG_A) (reg s RTC_REG_B)"

lemma flag_or:
  "bit ((c :: u8) OR 0x80) n = (bit c n \<or> n = 7)" "bit (c OR 0x40) n = (bit c n \<or> n = 6)"
  "bit (c OR 0x20) n = (bit c n \<or> n = 5)" "bit (c OR 0x10) n = (bit c n \<or> n = 4)" "bit (c OR 0xc0) n = (bit c n \<or> n = 7 \<or> n = 6)"
proof -
  have b: "bit (0x80 :: u8) n = (n = 7)" "bit (0x40 :: u8) n = (n = 6)" "bit (0x20 :: u8) n = (n = 5)" "bit (0x10 :: u8) n = (n = 4)"
    using bit_exp_iff [of 7 n, where 'a = "8 word"] bit_exp_iff [of 6 n, where 'a = "8 word"]
      bit_exp_iff [of 5 n, where 'a = "8 word"] bit_exp_iff [of 4 n, where 'a = "8 word"] by auto
  have "(0xc0 :: u8) = 0x80 OR 0x40" by simp
  then have c: "bit (0xc0 :: u8) n = (n = 7 \<or> n = 6)" by (simp only: bit_or_iff b)
  show "bit (c OR 0x80) n = (bit c n \<or> n = 7)" "bit (c OR 0x40) n = (bit c n \<or> n = 6)" "bit (c OR 0x20) n = (bit c n \<or> n = 5)"
    "bit (c OR 0x10) n = (bit c n \<or> n = 4)" "bit (c OR 0xc0) n = (bit c n \<or> n = 7 \<or> n = 6)"
    by (simp_all only: bit_or_iff b c)
qed

lemma irq_raise: "k \<in> {0x40, 0x20, 0x10} \<Longrightarrow> irq_coherent True ((c OR k) OR 0x80)"
  "irq_coherent line c \<Longrightarrow> irq_coherent True (c OR 0x80) \<longleftrightarrow> bit c 6 \<or> bit c 5 \<or> bit c 4"
  "k \<in> {0x40, 0x20, 0x10} \<Longrightarrow> irq_coherent line c \<Longrightarrow> irq_coherent line (c OR k)"
  "irq_coherent True (c OR 0xc0)" "irq_coherent False 0"
  by (auto simp: irq_coherent_def flag_or)

lemma set_time_fields [simp]:
  "reg (rtc_set_time s) i = reg s i" "cmos_ok (rtc_set_time s) = cmos_ok s" "rtc_irq (rtc_set_time s) = rtc_irq s"
  "cmos_index (rtc_set_time s) = cmos_index s" "second_timer (rtc_set_time s) = second_timer s"
  "second_timer2 (rtc_set_time s) = second_timer2 s"
  by (simp_all add: rtc_set_time_def Let_def)

text \<open>The invariant speaks of a few fields only.\<close>

lemma rtc_inv_same:
  assumes "rtc_inv s" and "cmos_ok s'" and "cmos_index s' = cmos_index s" and "rtc_irq s' = rtc_irq s"
    and "second_timer s' = second_timer s" and "second_timer2 s' = second_timer2 s"
    and "reg s' RTC_REG_A = reg s RTC_REG_A" and "reg s' RTC_REG_B = reg s RTC_REG_B" and "reg s' RTC_REG_C = reg s RTC_REG_C"
  shows "rtc_inv s'"
  using assms unfolding rtc_inv_def by (simp only:)

lemma cmos_ok_inv: "rtc_inv s \<Longrightarrow> cmos_ok s"
  by (simp add: rtc_inv_def)

lemma other_reg_inv: "rtc_inv s \<Longrightarrow> i < 128 \<Longrightarrow> i \<notin> {RTC_REG_A, RTC_REG_B, RTC_REG_C} \<Longrightarrow> rtc_inv (set_reg i v s)"
  by (rule rtc_inv_same) (simp_all add: cmos_ok_inv)

lemma copy_date_inv: "rtc_inv s \<Longrightarrow> rtc_inv (rtc_copy_date s)"
  by (rule rtc_inv_same) (simp_all add: cmos_ok_inv date_regs_def)

lemma set_time_inv: "rtc_inv s \<Longrightarrow> rtc_inv (rtc_set_time s)"
  by (rule rtc_inv_same) (simp_all add: cmos_ok_inv)

lemma timer_update_inv: "rtc_inv (rtc_timer_update t s) = rtc_inv s"
  by (simp add: rtc_inv_def rtc_update_fields)

lemma coalesced_update_inv: "rtc_inv (rtc_coalesced_timer_update t s) = rtc_inv s"
  by (simp add: rtc_inv_def)

lemma set_memory_inv: "rtc_inv s \<Longrightarrow> a \<notin> {10, 11, 12} \<Longrightarrow> rtc_inv (rtc_set_memory a v s)"
  by (auto simp: rtc_set_memory_def intro!: other_reg_inv)

lemma host_date_inv: "rtc_inv s \<Longrightarrow> rtc_inv (rtc_set_date_from_host host s)"
proof -
  assume "rtc_inv s"
  then have "rtc_inv (s\<lparr>current_tm := host\<rparr>)" by (rule rtc_inv_same) (simp_all add: cmos_ok_inv \<open>rtc_inv s\<close>)
  from copy_date_inv [OF this] show ?thesis
    by (simp add: rtc_set_date_from_host_def rtc_set_date_def Let_def set_memory_inv)
qed

lemma write_reg_A_inv: "rtc_inv s \<Longrightarrow> rtc_inv (write_reg_A now v s)"
proof -
  assume inv: "rtc_inv s"
  let ?a = "(v AND NOT REG_A_UIP) OR (reg s RTC_REG_A AND REG_A_UIP)"
  have "bit (0x80 :: u8) n = (n = 7)" for n using bit_exp_iff [of 7 n, where 'a = "8 word"] by auto
  then have "bit ?a 7 = bit (reg s RTC_REG_A) 7" unfolding bit_or_iff bit_and_iff bit_not_iff by simp
  then have "rtc_inv (set_reg RTC_REG_A ?a s)" using inv by (simp add: rtc_inv_def update_coherent_def)
  then show ?thesis by (simp only: write_reg_A_def timer_update_inv)
qed

lemma write_reg_B_inv: "rtc_inv s \<Longrightarrow> rtc_inv (write_reg_B now v s)"
proof -
  assume inv: "rtc_inv s"
  have m: "bit (0x80 :: u8) n = (n = 7)" "bit (0x10 :: u8) n = (n = 4)" for n
    using bit_exp_iff [of 7 n, where 'a = "8 word"] bit_exp_iff [of 4 n, where 'a = "8 word"] by auto
  have b: "rtc_inv (set_reg RTC_REG_B w t)"
    if "rtc_inv t" "bit w 7 \<longrightarrow> \<not> bit (reg t RTC_REG_A) 7 \<and> \<not> bit w 4" for w t
    using that by (auto simp: rtc_inv_def update_coherent_def)
  have final: "rtc_inv (if P then rtc_copy_date (set_reg RTC_REG_B w t) else set_reg RTC_REG_B w t)"
    if "rtc_inv t" "bit w 7 \<longrightarrow> \<not> bit (reg t RTC_REG_A) 7 \<and> \<not> bit w 4" for w t P
    using b [OF that] copy_date_inv by simp
  have "rtc_inv (clear_flags RTC_REG_A REG_A_UIP s) \<and> \<not> bit (reg (clear_flags RTC_REG_A REG_A_UIP s) RTC_REG_A) 7"
    using inv unfolding rtc_inv_def update_coherent_def by (simp add: bit_and_iff bit_not_iff m del: and_not_numerals)
  note cleared = this
  show ?thesis
  proof (cases "v AND REG_B_SET \<noteq> 0")
    case True
    have "\<not> bit (v AND NOT REG_B_UIE) 4" unfolding bit_and_iff bit_not_iff by (simp add: m)
    with cleared have p: "rtc_inv (if P then rtc_copy_date (set_reg RTC_REG_B (v AND NOT REG_B_UIE) (clear_flags RTC_REG_A REG_A_UIP s))
        else set_reg RTC_REG_B (v AND NOT REG_B_UIE) (clear_flags RTC_REG_A REG_A_UIP s))" for P
      by (intro final) simp_all
    show ?thesis unfolding write_reg_B_def Let_def timer_update_inv if_P [OF True] by (rule p)
  next
    case False
    then have "\<not> bit v 7" using mask_bit [of "0x80" 7 v] by simp
    then show ?thesis unfolding write_reg_B_def Let_def timer_update_inv if_not_P [OF False]
      by (intro final) (use inv set_time_inv in simp_all)
  qed
qed

lemma if_inv: "(c \<Longrightarrow> rtc_inv x) \<Longrightarrow> (\<not> c \<Longrightarrow> rtc_inv y) \<Longrightarrow> rtc_inv (if c then x else y)"
  by simp

lemma write_inv: "rtc_inv s \<Longrightarrow> rtc_inv (cmos_ioport_write now addr data s)"
proof -
  assume inv: "rtc_inv s"
  have "data AND 0x7f = take_bit 7 data" by (simp add: take_bit_eq_mask mask_eq_exp_minus_1)
  then have "unat (data AND 0x7f) < 128" by (simp only: unsigned_take_bit_eq) (simp add: take_bit_eq_mod)
  then have "unat (ucast (data AND 0x7f) :: u8) < 128" by (simp add: unsigned_ucast_eq take_bit_eq_mod)
  then have index: "rtc_inv (s\<lparr>cmos_index := ucast (data AND 0x7f)\<rparr>)" using inv by (simp add: rtc_inv_def)
  have i: "unat (cmos_index s) < 128" using inv by (simp add: rtc_inv_def)
  have r: "rtc_inv (set_reg (unat (cmos_index s)) v s)" if "unat (cmos_index s) \<notin> {RTC_REG_A, RTC_REG_B, RTC_REG_C}" for v
    by (rule other_reg_inv [OF inv i that])
  show ?thesis
    unfolding cmos_ioport_write_def Let_def
    by (intro if_inv index write_reg_A_inv write_reg_B_inv set_time_inv inv r) auto
qed

lemma read_inv: "rtc_inv s \<Longrightarrow> rtc_inv (fst (cmos_ioport_read delivered addr s))"
proof -
  assume inv: "rtc_inv s"
  then show ?thesis using irq_raise(4) [of 0] irq_raise(5)
    by (simp add: cmos_ioport_read_def Let_def rtc_inv_def)
qed

lemma periodic_inv: "rtc_inv s \<Longrightarrow> rtc_inv (rtc_periodic_timer delivered now s)"
proof -
  assume inv: "rtc_inv s"
  then have ok: "cmos_ok s" and c: "irq_coherent (rtc_irq s) (reg s RTC_REG_C)" by (simp_all add: rtc_inv_def)
  let ?v = "rtc_periodic_timer delivered now s"
  have "cmos_index ?v = cmos_index s" "second_timer ?v = second_timer s" "second_timer2 ?v = second_timer2 s"
    by (simp_all add: rtc_periodic_timer_def Let_def rtc_update_fields)
  moreover have "irq_coherent (rtc_irq ?v) (reg ?v RTC_REG_C)"
    using periodic_firing(6-9) [OF ok, of delivered now] irq_raise(1) [of "0x40"] irq_raise(3) [OF _ c, of "0x40"]
    by (cases "flag s RTC_REG_B REG_B_PIE") simp_all
  moreover have "update_coherent (second_timer2 s \<noteq> None) (reg ?v RTC_REG_A) (reg ?v RTC_REG_B)"
    using inv periodic_firing(5) [OF ok] by (simp add: rtc_inv_def)
  ultimately show ?thesis using inv periodic_firing(4) [OF ok] by (simp add: rtc_inv_def)
qed

lemma coalesced_inv: "rtc_inv s \<Longrightarrow> rtc_inv (rtc_coalesced_timer delivered now s)"
  using irq_raise(4) by (simp add: rtc_coalesced_timer_def Let_def coalesced_update_inv) (simp add: rtc_inv_def)

lemma update_second_inv: "rtc_inv s \<Longrightarrow> rtc_inv (rtc_update_second (s\<lparr>second_timer := None\<rparr>))"
  unfolding rtc_inv_def update_coherent_def rtc_update_second_def Let_def
  by (auto simp: flag_bits flag_or)


text \<open>The part of the invariant that holds while the update timer runs.\<close>

definition base_inv :: "RTCState \<Rightarrow> bool" where
  "base_inv s \<longleftrightarrow> cmos_ok s \<and> unat (cmos_index s) < 128 \<and> irq_coherent (rtc_irq s) (reg s RTC_REG_C) \<and>
     (bit (reg s RTC_REG_B) 7 \<longrightarrow> \<not> bit (reg s RTC_REG_B) 4)"

lemma base_copy_date: "base_inv s \<Longrightarrow> base_inv (rtc_copy_date s)"
  by (simp add: base_inv_def date_regs_def)

lemma base_flag:
  assumes "base_inv s" and "k \<in> {0x40, 0x20, 0x10}"
  shows "base_inv (set_flags RTC_REG_C k s)"
    "base_inv (set_flags RTC_REG_C 0x80 (set_flags RTC_REG_C k s)\<lparr>rtc_irq := True\<rparr>)"
    "base_inv (set_flags RTC_REG_C 0x80 (rtc_call r (set_flags RTC_REG_C k s)\<lparr>rtc_irq := True\<rparr>))"
  using assms(1) irq_raise(1) [OF assms(2), of "reg s RTC_REG_C"] irq_raise(3) [OF assms(2), of "rtc_irq s" "reg s RTC_REG_C"]
  by (simp_all add: base_inv_def)

lemma base_if: "(c \<Longrightarrow> base_inv x) \<Longrightarrow> (\<not> c \<Longrightarrow> base_inv y) \<Longrightarrow> base_inv (if c then x else y)"
  by simp

lemma base_ended:
  assumes "base_inv s"
  shows "rtc_inv (clear_flags RTC_REG_A REG_A_UIP s\<lparr>next_second_time := t, second_timer := Some u\<rparr>)"
proof -
  have "\<not> bit (w AND NOT 0x80) 7" for w :: u8
    unfolding bit_and_iff bit_not_iff using bit_exp_iff [of 7 7, where 'a = "8 word"] by simp
  then show ?thesis using assms by (simp add: base_inv_def rtc_inv_def update_coherent_def)
qed

lemma update_second2_inv:
  assumes "rtc_inv s"
  shows "rtc_inv (rtc_update_second2 (s\<lparr>second_timer2 := None\<rparr>))"
proof -
  have "base_inv (s\<lparr>second_timer2 := None\<rparr>)" using assms by (simp add: base_inv_def rtc_inv_def update_coherent_def)
  then show ?thesis unfolding rtc_update_second2_def Let_def
    by (intro base_ended base_if base_flag base_copy_date) simp_all
qed

lemma reset_inv: "rtc_inv s \<Longrightarrow> rtc_inv (rtc_reset s)"
proof -
  assume inv: "rtc_inv s"
  have m: "bit (0x80 :: u8) n = (n = 7)" "bit (0x40 :: u8) n = (n = 6)" "bit (0x20 :: u8) n = (n = 5)" "bit (0x10 :: u8) n = (n = 4)"
    "bit (0x08 :: u8) n = (n = 3)" for n
    using flag_or [of 0 n] bit_exp_iff [of 3 n, where 'a = "8 word"] by auto
  have b: "bit (w AND NOT (0x40 OR 0x20 OR 0x08)) n = (bit w n \<and> n \<noteq> 6 \<and> n \<noteq> 5 \<and> n \<noteq> 3)" if "n < 8" for w :: u8 and n
    unfolding bit_and_iff bit_not_iff bit_or_iff m using that by auto
  have c: "irq_coherent False (w AND NOT (0x10 OR 0x80 OR 0x40 OR 0x20))" for w :: u8
    unfolding irq_coherent_def bit_and_iff bit_not_iff bit_or_iff m by auto
  have u: "update_coherent p a (w AND NOT (0x40 OR 0x20 OR 0x08))" if "update_coherent p a w" for p a w
    using that by (simp only: update_coherent_def b) simp
  have "reg (rtc_reset s) RTC_REG_A = reg s RTC_REG_A" "reg (rtc_reset s) RTC_REG_B = reg s RTC_REG_B AND NOT (0x40 OR 0x20 OR 0x08)"
    "reg (rtc_reset s) RTC_REG_C = reg s RTC_REG_C AND NOT (0x10 OR 0x80 OR 0x40 OR 0x20)"
    "rtc_irq (rtc_reset s) = False" "cmos_ok (rtc_reset s)" "cmos_index (rtc_reset s) = cmos_index s"
    "second_timer (rtc_reset s) = second_timer s" "second_timer2 (rtc_reset s) = second_timer2 s"
    using cmos_ok_inv [OF inv] by (simp_all add: rtc_reset_def Let_def)
  then show ?thesis using inv c u unfolding rtc_inv_def by (simp only:)
qed

lemma clock_reset_inv: "rtc_inv s \<Longrightarrow> rtc_inv (rtc_notify_clock_reset host now s)"
proof -
  assume "rtc_inv s"
  then have "rtc_inv (rtc_set_date_from_host host s)" by (rule host_date_inv)
  then have "rtc_inv (rtc_set_date_from_host host s\<lparr>next_second_time := t, second_timer2 := Some t\<rparr>)" for t
    by (simp add: rtc_inv_def update_coherent_def)
  then show ?thesis by (simp add: rtc_notify_clock_reset_def Let_def coalesced_update_inv timer_update_inv)
qed

lemma disarmed_inv: "rtc_inv s \<Longrightarrow> rtc_inv (s\<lparr>periodic_timer := None\<rparr>)" "rtc_inv s \<Longrightarrow> rtc_inv (s\<lparr>coalesced_timer := None\<rparr>)"
  by (simp_all add: rtc_inv_def)

lemma rtc_apply_inv: "rtc_inv s \<Longrightarrow> rtc_inv (rtc_apply e s)"
  by (cases "(e, s)" rule: rtc_apply.cases)
    (simp_all add: fires_def write_inv read_inv periodic_inv coalesced_inv update_second_inv update_second2_inv reset_inv
      clock_reset_inv disarmed_inv rtc_notify_suspend_def set_memory_inv)

lemma rtc_initfn_inv: "rtc_inv (rtc_initfn host now (rtc_zeroed year slewing))"
proof -
  let ?s = "set_reg RTC_REG_D 0x80 (set_reg RTC_REG_C 0 (set_reg RTC_REG_B 0x02 (set_reg RTC_REG_A 0x26 (rtc_zeroed year slewing))))"
  have ok: "cmos_ok (rtc_zeroed year slewing)" by (simp add: cmos_ok_def rtc_zeroed_def)
  have bits: "\<not> bit (0x26 :: u8) 7" "\<not> bit (0x02 :: u8) 7" by (simp_all add: bit_numeral_rec)
  have "rtc_inv (?s\<lparr>second_timer := Some 0\<rparr>)"
    using ok bits irq_raise(5) by (simp add: rtc_inv_def update_coherent_def) (simp add: rtc_zeroed_def)
  then have base: "cmos_ok ?s" "unat (cmos_index ?s) < 128" "irq_coherent (rtc_irq ?s) (reg ?s RTC_REG_C)"
    "\<not> bit (reg ?s RTC_REG_A) 7" "\<not> bit (reg ?s RTC_REG_B) 7"
    using ok bits by (simp_all add: rtc_inv_def)
  have "rtc_inv (rtc_set_date_from_host host ?s\<lparr>next_second_time := t, second_timer2 := Some t\<rparr>)" for t
    using base by (simp add: rtc_inv_def update_coherent_def rtc_set_date_from_host_def rtc_set_date_def rtc_set_memory_def
        Let_def date_regs_def)
  then show ?thesis by (simp add: rtc_initfn_def Let_def)
qed

text \<open>C20: [rtc_registers] From its start on, whatever the guest, the timers and the host do: the interrupt line is high
  exactly when the request flag is set, and a request has a cause among the three flags; an update in progress is
  shown only while its end is pending and never in set mode, in which the update interrupt is off; the clock never
  stops, since one of the two timers of the update cycle is armed; and the index stays in the memory.\<close>

theorem rtc_registers:
  fixes evs :: "(rtc_op \<times> u64) list" and host :: tm and now :: u64 and year :: int and slewing :: bool
  defines "s \<equiv> fold rtc_apply evs (rtc_initfn host now (rtc_zeroed year slewing))"
  shows "rtc_irq s = flag s RTC_REG_C REG_C_IRQF \<and>
    (flag s RTC_REG_C REG_C_IRQF \<longrightarrow> flag s RTC_REG_C REG_C_PF \<or> flag s RTC_REG_C REG_C_AF \<or> flag s RTC_REG_C REG_C_UF) \<and>
    (flag s RTC_REG_A REG_A_UIP \<longrightarrow> second_timer2 s \<noteq> None \<and> \<not> flag s RTC_REG_B REG_B_SET) \<and>
    (flag s RTC_REG_B REG_B_SET \<longrightarrow> \<not> flag s RTC_REG_B REG_B_UIE) \<and>
    (second_timer s \<noteq> None \<or> second_timer2 s \<noteq> None) \<and>
    length (cmos_data s) = 128 \<and> unat (cmos_index s) < 128"
proof -
  have "rtc_inv (fold rtc_apply evs s0)" if "rtc_inv s0" for s0
    using that by (induction evs arbitrary: s0) (simp_all add: rtc_apply_inv)
  then have "rtc_inv s" unfolding s_def using rtc_initfn_inv by blast
  then show ?thesis
    by (simp add: rtc_inv_def irq_coherent_def update_coherent_def cmos_ok_def flag_bits)
qed


definition demo_evs :: "(rtc_op \<times> u64) list" where
  "demo_evs = [(Port_write 0 11, 0), (Port_write 1 0x12, 0), (Second2_fires, 990000000), (Second_fires, 1990000000)]"

definition demo_host :: tm where
  "demo_host = \<lparr>tm_sec = 59, tm_min = 59, tm_hour = 23, tm_wday = 2, tm_mday = 28, tm_mon = 1, tm_year = 112\<rparr>"

lemma demo_run_flags:
  "flag (fold rtc_apply demo_evs (rtc_initfn demo_host 0 (rtc_zeroed 2000 True))) RTC_REG_C REG_C_IRQF"
  "flag (fold rtc_apply demo_evs (rtc_initfn demo_host 0 (rtc_zeroed 2000 True))) RTC_REG_A REG_A_UIP"
  by code_simp+

theorem rtc_registers_witness:
  "rtc_irq (fold rtc_apply demo_evs (rtc_initfn demo_host 0 (rtc_zeroed 2000 True))) \<and>
   second_timer2 (fold rtc_apply demo_evs (rtc_initfn demo_host 0 (rtc_zeroed 2000 True))) \<noteq> None"
  using rtc_registers [of demo_evs demo_host 0 2000 True] demo_run_flags by blast

end
