(* ===== verification/Dma.thy ===== *)
theory Dma
  imports Prelude
begin

unbundle bit_operations_syntax

text \<open>
  The two 8237 DMA controllers of a PC, \<^verbatim>\<open>hw/dma.c\<close>. A transfer is the work of the device on the channel, a handler it registers:
  a parameter \<open>h\<close> that is given the controllers, channel, position and size, changes a state \<open>'dev\<close> of the devices, and answers
  with the new position and the requests it raised or released meanwhile. Guest memory is a parameter too. \<open>dma_bh\<close> says
  that a further run is scheduled, \<open>dma_exits\<close> counts the requests to leave the processor loop. An access outside
  the four channels of a controller is \<open>None\<close>. C integers are unbounded where the code keeps only low bits of them.
\<close>

section \<open>State\<close>

record dma_regs =
  now_addr :: int
  now_count :: int
  base_addr :: u16
  base_count :: u16
  dma_mode :: u8
  dma_page :: u8
  dma_pageh :: u8

record dma_cont =
  dma_status :: u8
  dma_command :: u8
  dma_mask :: u8
  flip_flop :: bool
  dshift :: nat
  dma_channels :: "dma_regs list"

record dma_state =
  dma_conts :: "dma_cont list"
  dma_running :: bool
  dma_bh :: bool
  dma_exits :: nat

definition CMD_NOT_SUPPORTED :: u32 where
  "CMD_NOT_SUPPORTED = 0x01 OR 0x02 OR 0x08 OR 0x10 OR 0x20 OR 0x40 OR 0x80"

definition channels :: "int list" where
  "channels = [- 1, 2, 3, 1, - 1, - 1, - 1, 0]"

definition on_chan :: "nat \<Rightarrow> (dma_regs \<Rightarrow> dma_regs) \<Rightarrow> dma_cont \<Rightarrow> dma_cont" where
  "on_chan i f d = d\<lparr>dma_channels := (dma_channels d)[i := f (dma_channels d ! i)]\<rparr>"

definition on_cont :: "nat \<Rightarrow> (dma_cont \<Rightarrow> dma_cont) \<Rightarrow> dma_state \<Rightarrow> dma_state" where
  "on_cont k f s = s\<lparr>dma_conts := (dma_conts s)[k := f (dma_conts s ! k)]\<rparr>"

section \<open>Page registers\<close>

definition page_chan :: "u32 \<Rightarrow> nat option" where
  "page_chan nport = (let c = channels ! unat (nport AND 7) in if c = - 1 then None else Some (nat c))"

definition write_page :: "u32 \<Rightarrow> u32 \<Rightarrow> dma_cont \<Rightarrow> dma_cont" where
  "write_page nport data d =
     (case page_chan nport of None \<Rightarrow> d | Some i \<Rightarrow> on_chan i (\<lambda>r. r\<lparr>dma_page := ucast data\<rparr>) d)"

definition write_pageh :: "u32 \<Rightarrow> u32 \<Rightarrow> dma_cont \<Rightarrow> dma_cont" where
  "write_pageh nport data d =
     (case page_chan nport of None \<Rightarrow> d | Some i \<Rightarrow> on_chan i (\<lambda>r. r\<lparr>dma_pageh := ucast data\<rparr>) d)"

definition read_page :: "u32 \<Rightarrow> dma_cont \<Rightarrow> u32" where
  "read_page nport d = (case page_chan nport of None \<Rightarrow> 0 | Some i \<Rightarrow> ucast (dma_page (dma_channels d ! i)))"

definition read_pageh :: "u32 \<Rightarrow> dma_cont \<Rightarrow> u32" where
  "read_pageh nport d = (case page_chan nport of None \<Rightarrow> 0 | Some i \<Rightarrow> ucast (dma_pageh (dma_channels d ! i)))"

section \<open>Address and count registers\<close>

definition init_chan :: "nat \<Rightarrow> dma_cont \<Rightarrow> dma_cont" where
  "init_chan ichan d = on_chan ichan (\<lambda>r. r\<lparr>now_addr := push_bit (dshift d) (uint (base_addr r)), now_count := 0\<rparr>) d"

definition getff :: "dma_cont \<Rightarrow> dma_cont \<times> bool" where
  "getff d = (d\<lparr>flip_flop := \<not> flip_flop d\<rparr>, flip_flop d)"

definition iport_of :: "u32 \<Rightarrow> dma_cont \<Rightarrow> nat" where
  "iport_of nport d = unat (drop_bit (dshift d) nport AND 0x0f)"

definition read_chan :: "u32 \<Rightarrow> dma_cont \<Rightarrow> (dma_cont \<times> u32) option" where
  "read_chan nport d =
     (let iport = iport_of nport d; ichan = iport div 2; nreg = iport mod 2 in
      if ichan < length (dma_channels d)
      then (let r = dma_channels d ! ichan;
                dir = (if bit (dma_mode r) 5 then - 1 else 1);
                (d1, ff) = getff d;
                val = (if nreg \<noteq> 0 then push_bit (dshift d) (uint (base_count r)) - now_count r
                       else now_addr r + now_count r * dir)
            in Some (d1, word_of_int (drop_bit (dshift d + (if ff then 8 else 0)) val AND 0xff)))
      else None)"

definition set_high :: "u32 \<Rightarrow> u16 \<Rightarrow> u16" where
  "set_high data w = (w AND 0xff) OR (push_bit 8 (ucast data) AND 0xff00)"

definition set_low :: "u32 \<Rightarrow> u16 \<Rightarrow> u16" where
  "set_low data w = (w AND 0xff00) OR (ucast data AND 0xff)"

definition on_base :: "nat \<Rightarrow> (u16 \<Rightarrow> u16) \<Rightarrow> dma_regs \<Rightarrow> dma_regs" where
  "on_base nreg f r = (if nreg = 0 then r\<lparr>base_addr := f (base_addr r)\<rparr> else r\<lparr>base_count := f (base_count r)\<rparr>)"

definition write_chan :: "u32 \<Rightarrow> u32 \<Rightarrow> dma_cont \<Rightarrow> dma_cont option" where
  "write_chan nport data d =
     (let iport = iport_of nport d; ichan = iport div 2; nreg = iport mod 2 in
      if ichan < length (dma_channels d)
      then (let (d1, ff) = getff d in
            Some (if ff then init_chan ichan (on_chan ichan (on_base nreg (set_high data)) d1)
                  else on_chan ichan (on_base nreg (set_low data)) d1))
      else None)"

section \<open>Running the channels\<close>

type_synonym 'dev handler = "dma_state \<Rightarrow> nat \<Rightarrow> int \<Rightarrow> int \<Rightarrow> 'dev \<Rightarrow> 'dev \<times> int \<times> (nat \<times> bool) list"

definition dreq_bit :: "nat \<Rightarrow> u8" where
  "dreq_bit ichan = push_bit (ichan + 4) 1"

definition set_dreq :: "nat \<Rightarrow> bool \<Rightarrow> dma_state \<Rightarrow> dma_state" where
  "set_dreq nchan b s = on_cont (if nchan > 3 then 1 else 0)
     (\<lambda>d. d\<lparr>dma_status := (if b then dma_status d OR dreq_bit (nchan mod 4) else dma_status d AND NOT (dreq_bit (nchan mod 4)))\<rparr>) s"

text \<open>A request a handler makes comes while the channels run, so that it only schedules another run.\<close>

definition nested_dreq :: "nat \<times> bool \<Rightarrow> dma_state \<Rightarrow> dma_state" where
  "nested_dreq e s = (set_dreq (fst e) (snd e) s)\<lparr>dma_bh := True\<rparr>"

definition channel_run :: "'dev handler \<Rightarrow> nat \<Rightarrow> nat \<Rightarrow> dma_state \<times> 'dev \<Rightarrow> dma_state \<times> 'dev" where
  "channel_run h ncont ichan p =
     (let (s, dev) = p; r = dma_channels (dma_conts s ! ncont) ! ichan;
          (dev1, n, reqs) = h s (ichan + 4 * ncont) (now_count r) (push_bit ncont (uint (base_count r) + 1)) dev;
          s1 = fold nested_dreq reqs s
      in (on_cont ncont (on_chan ichan (\<lambda>r. r\<lparr>now_count := n\<rparr>)) s1, dev1))"

definition chan_pending :: "dma_state \<Rightarrow> nat \<Rightarrow> nat \<Rightarrow> bool" where
  "chan_pending s icont ichan \<longleftrightarrow>
     \<not> bit (dma_mask (dma_conts s ! icont)) ichan \<and> bit (dma_status (dma_conts s ! icont)) (ichan + 4)"

definition run_one :: "'dev handler \<Rightarrow> nat \<times> nat \<Rightarrow> (dma_state \<times> 'dev) \<times> bool \<Rightarrow> (dma_state \<times> 'dev) \<times> bool" where
  "run_one h c q = (if chan_pending (fst (fst q)) (fst c) (snd c) then (channel_run h (fst c) (snd c) (fst q), True) else q)"

definition all_channels :: "(nat \<times> nat) list" where
  "all_channels = List.product [0, 1] [0, 1, 2, 3]"

definition DMA_run :: "'dev handler \<Rightarrow> dma_state \<times> 'dev \<Rightarrow> dma_state \<times> 'dev" where
  "DMA_run h p =
     (let (s, dev) = p in
      if dma_running s then (s\<lparr>dma_bh := True\<rparr>, dev)
      else (let ((s1, dev1), rearm) = fold (run_one h) all_channels ((s\<lparr>dma_running := True\<rparr>, dev), False);
                s2 = s1\<lparr>dma_running := False\<rparr>
            in (if rearm then s2\<lparr>dma_bh := True\<rparr> else s2, dev1)))"

definition DMA_run_bh :: "'dev handler \<Rightarrow> dma_state \<times> 'dev \<Rightarrow> dma_state \<times> 'dev" where
  "DMA_run_bh h p = DMA_run h p"

definition DMA_hold_DREQ :: "'dev handler \<Rightarrow> nat \<Rightarrow> dma_state \<times> 'dev \<Rightarrow> dma_state \<times> 'dev" where
  "DMA_hold_DREQ h nchan p = DMA_run h (set_dreq nchan True (fst p), snd p)"

definition DMA_release_DREQ :: "'dev handler \<Rightarrow> nat \<Rightarrow> dma_state \<times> 'dev \<Rightarrow> dma_state \<times> 'dev" where
  "DMA_release_DREQ h nchan p = DMA_run h (set_dreq nchan False (fst p), snd p)"

definition DMA_get_channel_mode :: "nat \<Rightarrow> dma_state \<Rightarrow> u8" where
  "DMA_get_channel_mode nchan s = dma_mode (dma_channels (dma_conts s ! (if nchan > 3 then 1 else 0)) ! (nchan mod 4))"

definition DMA_schedule :: "dma_state \<Rightarrow> dma_state" where
  "DMA_schedule s = s\<lparr>dma_exits := dma_exits s + 1\<rparr>"

text \<open>A channel without a device.\<close>

definition dma_phony_handler :: "'dev handler" where
  "dma_phony_handler s nchan dma_pos dma_len dev = (dev, dma_pos, [])"

section \<open>Command registers\<close>

definition write_cont :: "'dev handler \<Rightarrow> nat \<Rightarrow> u32 \<Rightarrow> u32 \<Rightarrow> dma_state \<times> 'dev \<Rightarrow> dma_state \<times> 'dev" where
  "write_cont h k nport data p =
     (let (s, dev) = p; iport = iport_of nport (dma_conts s ! k); ichan = unat (data AND 3) in
      if iport = 0x08
      then (if data \<noteq> 0 \<and> data AND CMD_NOT_SUPPORTED \<noteq> 0 then p
            else (on_cont k (\<lambda>d. d\<lparr>dma_command := ucast data\<rparr>) s, dev))
      else if iport = 0x09
      then DMA_run h (on_cont k (\<lambda>d.
             let st = (if data AND 4 \<noteq> 0 then dma_status d OR dreq_bit ichan else dma_status d AND NOT (dreq_bit ichan))
             in d\<lparr>dma_status := st AND NOT (push_bit ichan 1)\<rparr>) s, dev)
      else if iport = 0x0a
      then DMA_run h (on_cont k (\<lambda>d. d\<lparr>dma_mask :=
             (if data AND 4 \<noteq> 0 then dma_mask d OR push_bit ichan 1 else dma_mask d AND NOT (push_bit ichan 1))\<rparr>) s, dev)
      else if iport = 0x0b
      then (on_cont k (on_chan ichan (\<lambda>r. r\<lparr>dma_mode := ucast data\<rparr>)) s, dev)
      else if iport = 0x0c then (on_cont k (\<lambda>d. d\<lparr>flip_flop := False\<rparr>) s, dev)
      else if iport = 0x0d
      then (on_cont k (\<lambda>d. d\<lparr>flip_flop := False, dma_mask := NOT 0, dma_status := 0, dma_command := 0\<rparr>) s, dev)
      else if iport = 0x0e then DMA_run h (on_cont k (\<lambda>d. d\<lparr>dma_mask := 0\<rparr>) s, dev)
      else if iport = 0x0f then DMA_run h (on_cont k (\<lambda>d. d\<lparr>dma_mask := ucast data\<rparr>) s, dev)
      else p)"

definition read_cont :: "u32 \<Rightarrow> dma_cont \<Rightarrow> dma_cont \<times> u32" where
  "read_cont nport d =
     (let iport = iport_of nport d in
      if iport = 0x08 then (d\<lparr>dma_status := dma_status d AND 0xf0\<rparr>, ucast (dma_status d))
      else if iport = 0x0f then (d, ucast (dma_mask d))
      else (d, 0))"

section \<open>Memory\<close>

definition chan_address :: "dma_regs \<Rightarrow> u64" where
  "chan_address r = word_of_int (push_bit 24 (uint (dma_pageh r AND 0x7f)) OR push_bit 16 (uint (dma_page r)) OR now_addr r)"

definition chan_regs :: "nat \<Rightarrow> dma_state \<Rightarrow> dma_regs" where
  "chan_regs nchan s = dma_channels (dma_conts s ! (if nchan > 3 then 1 else 0)) ! (nchan mod 4)"

text \<open>The loop over the bytes of the buffer, each taken from the other end.\<close>

definition mirror :: "nat \<Rightarrow> u8 list \<Rightarrow> u8 list" where
  "mirror turns p = fold (\<lambda>i p. p[i := p ! (length p - i - 1)]) [0..<turns] p"

definition DMA_read_memory :: "(u64 \<Rightarrow> nat \<Rightarrow> u8 list) \<Rightarrow> nat \<Rightarrow> nat \<Rightarrow> nat \<Rightarrow> dma_state \<Rightarrow> u8 list" where
  "DMA_read_memory phys_read nchan pos len s =
     (let r = chan_regs nchan s; addr = chan_address r in
      if dma_mode r AND 0x20 \<noteq> 0 then mirror (len div 2) (phys_read (addr - of_nat pos - of_nat len) len)
      else phys_read (addr + of_nat pos) len)"

text \<open>The memory after the write, and the device's buffer.\<close>

definition DMA_write_memory ::
  "(u64 \<Rightarrow> u8 list \<Rightarrow> 'mem \<Rightarrow> 'mem) \<Rightarrow> nat \<Rightarrow> u8 list \<Rightarrow> nat \<Rightarrow> dma_state \<Rightarrow> 'mem \<Rightarrow> 'mem \<times> u8 list" where
  "DMA_write_memory phys_write nchan buf pos s mem =
     (let r = chan_regs nchan s; addr = chan_address r; len = length buf in
      if dma_mode r AND 0x20 \<noteq> 0 then (phys_write (addr - of_nat pos - of_nat len) buf mem, mirror len buf)
      else (phys_write (addr + of_nat pos) buf mem, buf))"

section \<open>Start and reset\<close>

definition dma_reset :: "'dev handler \<Rightarrow> nat \<Rightarrow> dma_state \<times> 'dev \<Rightarrow> dma_state \<times> 'dev" where
  "dma_reset h k p = write_cont h k (push_bit (dshift (dma_conts (fst p) ! k)) 0x0d) 0 p"

definition dma_regs_zero :: dma_regs where
  "dma_regs_zero = \<lparr>now_addr = 0, now_count = 0, base_addr = 0, base_count = 0, dma_mode = 0, dma_page = 0, dma_pageh = 0\<rparr>"

definition dma_cont_zero :: dma_cont where
  "dma_cont_zero = \<lparr>dma_status = 0, dma_command = 0, dma_mask = 0, flip_flop = False, dshift = 0,
     dma_channels = replicate 4 dma_regs_zero\<rparr>"

definition dma_init2 :: "'dev handler \<Rightarrow> nat \<Rightarrow> nat \<Rightarrow> dma_state \<times> 'dev \<Rightarrow> dma_state \<times> 'dev" where
  "dma_init2 h k shift p = dma_reset h k (on_cont k (\<lambda>d. d\<lparr>dshift := shift\<rparr>) (fst p), snd p)"

text \<open>The ports of a controller, each with the group of handlers registered for it. A negative base says that there are no
  high page registers.\<close>

datatype dma_port = Chan_port | Cont_port | Page_port | Pageh_port

definition page_port_list :: "nat list" where
  "page_port_list = [1, 2, 3, 7]"

definition dma_ports :: "nat \<Rightarrow> nat \<Rightarrow> nat \<Rightarrow> int \<Rightarrow> (nat \<times> dma_port) list" where
  "dma_ports base shift page_base pageh_base =
     map (\<lambda>i. (base + i * 2 ^ shift, Chan_port)) [0..<8] @
     concat (map (\<lambda>p. (page_base + p, Page_port) # (if pageh_base \<ge> 0 then [(nat pageh_base + p, Pageh_port)] else [])) page_port_list) @
     map (\<lambda>i. (base + (i + 8) * 2 ^ shift, Cont_port)) [0..<8]"

definition DMA_init_ports :: "bool \<Rightarrow> (nat \<times> dma_port) list list" where
  "DMA_init_ports high_page_enable =
     [dma_ports 0 0 0x80 (if high_page_enable then 0x480 else - 1), dma_ports 0xc0 1 0x88 (if high_page_enable then 0x488 else - 1)]"

definition DMA_init :: "'dev handler \<Rightarrow> 'dev \<Rightarrow> dma_state \<times> 'dev" where
  "DMA_init h dev = dma_init2 h 1 1 (dma_init2 h 0 0
     (\<lparr>dma_conts = [dma_cont_zero, dma_cont_zero], dma_running = False, dma_bh = False, dma_exits = 0\<rparr>, dev))"

definition dma_post_load :: "'dev handler \<Rightarrow> dma_state \<times> 'dev \<Rightarrow> dma_state \<times> 'dev" where
  "dma_post_load h p = DMA_run h p"

end
