(* ===== verification/DmaRun.thy ===== *)
theory DmaRun
  imports Dma "HOL-Library.Monad_Syntax"
begin

unbundle bit_operations_syntax

text \<open>
  The DMA controllers: reading back what was written through the flip-flop, what a device sees of memory on a channel that
  counts down, and which channels a run serves.
\<close>

section \<open>Address and count registers\<close>

lemma mask16: "bit (0xff :: u16) n \<longleftrightarrow> n < 8" "bit (0xff00 :: u16) n \<longleftrightarrow> 8 \<le> n \<and> n < 16"
proof -
  have m: "(0xff :: u16) = mask 8" "(0xff00 :: u16) = push_bit 8 (mask 8)" by (simp_all add: mask_eq_exp_minus_1)
  show "bit (0xff :: u16) n \<longleftrightarrow> n < 8" "bit (0xff00 :: u16) n \<longleftrightarrow> 8 \<le> n \<and> n < 16"
    unfolding m by (auto simp: bit_mask_iff bit_push_bit_iff)
qed

lemma base_bits:
  "bit (set_high hi (set_low lo w)) n \<longleftrightarrow> n < 8 \<and> bit lo n \<or> 8 \<le> n \<and> n < 16 \<and> bit hi (n - 8)"
  unfolding set_high_def set_low_def bit_or_iff bit_and_iff bit_push_bit_iff bit_ucast_iff mask16 by auto

lemma byte_of_base:
  fixes lo hi :: u32 and w :: u16 and k :: nat
  defines "v \<equiv> push_bit k (uint (set_high hi (set_low lo w)))"
  shows "word_of_int (drop_bit k v AND 0xff) = lo AND 0xff" "word_of_int (drop_bit (k + 8) v AND 0xff) = hi AND 0xff"
proof -
  have m: "bit (0xff :: int) n \<longleftrightarrow> n < 8" "bit (0xff :: u32) n \<longleftrightarrow> n < 8" for n
  proof -
    have e: "(0xff :: int) = mask 8" "(0xff :: u32) = mask 8" by (simp_all add: mask_eq_exp_minus_1)
    show "bit (0xff :: int) n \<longleftrightarrow> n < 8" "bit (0xff :: u32) n \<longleftrightarrow> n < 8" unfolding e by (auto simp: bit_mask_iff)
  qed
  have b: "bit v (k + n) \<longleftrightarrow> n < 8 \<and> bit lo n \<or> 8 \<le> n \<and> n < 16 \<and> bit hi (n - 8)" for n
    unfolding v_def by (simp add: bit_push_bit_iff bit_uint_iff base_bits) auto
  show "word_of_int (drop_bit k v AND 0xff) = lo AND 0xff"
    by (rule bit_word_eqI) (auto simp: bit_word_of_int_iff bit_and_iff bit_drop_bit_eq m b)
  have "bit v (k + 8 + n) \<longleftrightarrow> n < 8 \<and> bit hi n" for n using b [of "8 + n"] by (simp add: add.assoc)
  then show "word_of_int (drop_bit (k + 8) v AND 0xff) = hi AND 0xff"
    by (intro bit_word_eqI) (auto simp: bit_word_of_int_iff bit_and_iff bit_drop_bit_eq m)
qed

lemma iport_frame [simp]:
  "iport_of nport (on_chan i f d) = iport_of nport d" "iport_of nport (init_chan i d) = iport_of nport d"
  "iport_of nport (d\<lparr>flip_flop := b\<rparr>) = iport_of nport d"
  by (simp_all add: iport_of_def on_chan_def init_chan_def)

text \<open>[dma_register_roundtrip] The low and then the high byte written to an address or count register of a channel are read
  back in this order, and each pair of accesses leaves the flip-flop cleared.\<close>

theorem dma_register_roundtrip:
  assumes "length (dma_channels d) = 4" and "iport_of nport d < 8" and "\<not> flip_flop d"
  shows "map_option (\<lambda>(d, a, b). (flip_flop d, a, b))
    (do { d1 \<leftarrow> write_chan nport lo d; d2 \<leftarrow> write_chan nport hi d1;
          (d3, a) \<leftarrow> read_chan nport d2; (d4, b) \<leftarrow> read_chan nport d3; Some (d4, a, b) }) =
    Some (False, lo AND 0xff, hi AND 0xff)"
proof -
  have i: "iport_of nport d div 2 < 4" using assms(2) by simp
  show ?thesis using assms i byte_of_base [of "dshift d"]
    by (cases "iport_of nport d mod 2 = 0")
      (simp_all add: write_chan_def read_chan_def Let_def getff_def on_chan_def init_chan_def on_base_def iport_of_def)
qed

theorem dma_register_roundtrip_witness:
  "map_option (\<lambda>(d, a, b). (flip_flop d, a, b))
    (do { d1 \<leftarrow> write_chan 2 0x34 dma_cont_zero; d2 \<leftarrow> write_chan 2 0x12 d1;
          (d3, a) \<leftarrow> read_chan 2 d2; (d4, b) \<leftarrow> read_chan 2 d3; Some (d4, a, b) }) = Some (False, 0x34, 0x12)"
  using dma_register_roundtrip [of dma_cont_zero 2 "0x34" "0x12"] by (simp add: dma_cont_zero_def iport_of_def)

text \<open>[dma_ports_apart] No two handlers share a port, and every port of the channel registers is decoded to one of the eight
  registers of the four channels, every command port to one of the eight commands, on either controller.\<close>

theorem dma_ports_apart:
  "distinct (map fst (concat (DMA_init_ports high))) \<and>
   list_all (\<lambda>k. list_all (\<lambda>(port, kind).
     let i = iport_of (of_nat port) (dma_cont_zero\<lparr>dshift := k\<rparr>) in
       (kind = Chan_port \<longrightarrow> i < 8) \<and> (kind = Cont_port \<longrightarrow> 8 \<le> i)) (DMA_init_ports high ! k)) [0, 1]"
  by (cases high) (simp only:, code_simp)+

section \<open>Decrementing transfers\<close>

lemma mirror_Suc: "mirror (Suc t) p = (let q = mirror t p in q[t := q ! (length q - t - 1)])"
  by (simp add: mirror_def Let_def)

lemma length_mirror [simp]: "length (mirror t p) = length p"
  by (induction t) (simp_all add: mirror_Suc Let_def, simp add: mirror_def)

lemma mirror_nth:
  "t \<le> length p \<Longrightarrow> i < length p \<Longrightarrow> mirror t p ! i = (if i < t \<and> i < length p div 2 then p ! (length p - i - 1) else p ! i)"
proof (induction t arbitrary: i)
  case 0
  then show ?case by (simp add: mirror_def)
next
  case (Suc t)
  let ?q = "mirror t p" and ?n = "length p"
  have t: "t < ?n" using Suc.prems by simp
  show ?case
  proof (cases "i = t")
    case True
    have "?q ! (?n - t - 1) = (if ?n - t - 1 < t \<and> ?n - t - 1 < ?n div 2 then p ! (?n - (?n - t - 1) - 1) else p ! (?n - t - 1))"
      using t by (intro Suc.IH) simp_all
    moreover have "?n - (?n - t - 1) - 1 = t" using t by simp
    moreover have "?n - t - 1 < t \<and> ?n - t - 1 < ?n div 2 \<longleftrightarrow> \<not> t < ?n div 2 \<and> ?n - t - 1 \<noteq> t" using t by linarith
    ultimately show ?thesis using True t by (auto simp: mirror_Suc Let_def)
  next
    case False
    then show ?thesis using Suc by (auto simp: mirror_Suc Let_def)
  qed
qed

lemma mirror_palindrome:
  assumes "length p div 2 \<le> t" and "t \<le> length p"
  shows "rev (mirror t p) = mirror t p"
proof (rule nth_equalityI)
  fix i assume "i < length (rev (mirror t p))"
  then have i: "i < length p" "length p - Suc i < length p" by simp_all
  have "rev (mirror t p) ! i = mirror t p ! (length p - Suc i)" using i by (simp add: rev_nth)
  also have "\<dots> = mirror t p ! i"
    unfolding mirror_nth [OF assms(2) i(1)] mirror_nth [OF assms(2) i(2)] using assms i by (auto intro: arg_cong [of _ _ "(!) p"])
  finally show "rev (mirror t p) ! i = mirror t p ! i" .
qed simp

text \<open>[dma_decrement] On a channel that counts its address down, a device never sees the bytes of memory in their order: what
  it is given is the same from both ends, since the bytes are copied from one end over the other instead of being
  exchanged; and the buffer it wrote from is left so, after the memory was written in rising order.\<close>

theorem dma_decrement:
  assumes "dma_mode (chan_regs nchan s) AND 0x20 \<noteq> 0" and "\<And>a n. length (phys_read a n) = n"
  shows "rev (DMA_read_memory phys_read nchan pos len s) = DMA_read_memory phys_read nchan pos len s \<and>
    (let (mem1, buf1) = DMA_write_memory phys_write nchan buf pos s mem in
       rev buf1 = buf1 \<and> mem1 = phys_write (chan_address (chan_regs nchan s) - of_nat pos - of_nat (length buf)) buf mem)"
  using assms by (simp add: DMA_read_memory_def DMA_write_memory_def Let_def mirror_palindrome)

definition dma_down :: dma_state where
  "dma_down = fst (write_cont dma_phony_handler 0 0x0b 0x20 (DMA_init dma_phony_handler ()))"

theorem dma_decrement_witness:
  "rev (DMA_read_memory (\<lambda>a n. map (\<lambda>i. ucast a + of_nat i) [0..<n]) 0 0 4 dma_down) =
     DMA_read_memory (\<lambda>a n. map (\<lambda>i. ucast a + of_nat i) [0..<n]) 0 0 4 dma_down \<and>
   DMA_read_memory (\<lambda>a n. map (\<lambda>i. ucast a + of_nat i) [0..<n]) 0 0 4 dma_down = [255, 254, 254, 255]"
proof
  have "dma_mode (chan_regs 0 dma_down) AND 0x20 \<noteq> 0" by code_simp
  from dma_decrement [OF this, of "\<lambda>a n. map (\<lambda>i. ucast a + of_nat i) [0..<n]" 0 4 "\<lambda>a b m. m" "[]" "()"]
  show "rev (DMA_read_memory (\<lambda>a n. map (\<lambda>i. ucast a + of_nat i) [0..<n]) 0 0 4 dma_down) =
      DMA_read_memory (\<lambda>a n. map (\<lambda>i. ucast a + of_nat i) [0..<n]) 0 0 4 dma_down" by simp
  show "DMA_read_memory (\<lambda>a n. map (\<lambda>i. ucast a + of_nat i) [0..<n]) 0 0 4 dma_down = [255, 254, 254, 255]"
    by code_simp
qed

section \<open>A run serves what is pending\<close>

text \<open>Handlers that only raise and release the request of their own channel, and a log of their calls.\<close>

definition own_requests :: "'dev handler \<Rightarrow> bool" where
  "own_requests h \<longleftrightarrow> (\<forall>s n pos z dev. \<forall>e \<in> set (snd (snd (h s n pos z dev))). fst e = n)"

definition logged :: "'dev handler \<Rightarrow> ('dev \<times> (nat \<times> int \<times> int) list) handler" where
  "logged h s n pos z p =
     (let (dev, log) = p; (dev1, m, reqs) = h s n pos z dev in ((dev1, log @ [(n, pos, z)]), m, reqs))"

definition dma_wf :: "dma_state \<Rightarrow> bool" where
  "dma_wf s \<longleftrightarrow> length (dma_conts s) = 2 \<and> (\<forall>k < 2. length (dma_channels (dma_conts s ! k)) = 4)"

text \<open>What a channel is asked for, and that two states agree on it.\<close>

definition job :: "dma_state \<Rightarrow> nat \<times> nat \<Rightarrow> nat \<times> int \<times> int" where
  "job s c = (let r = dma_channels (dma_conts s ! fst c) ! snd c in
     (snd c + 4 * fst c, now_count r, push_bit (fst c) (uint (base_count r) + 1)))"

definition agree :: "nat \<times> nat \<Rightarrow> dma_state \<Rightarrow> dma_state \<Rightarrow> bool" where
  "agree c s t \<longleftrightarrow> chan_pending t (fst c) (snd c) = chan_pending s (fst c) (snd c) \<and> job t c = job s c"

lemma agree_refl: "agree c s s" and agree_trans: "agree c s t \<Longrightarrow> agree c t u \<Longrightarrow> agree c s u"
  by (simp_all add: agree_def)

lemma on_cont_nth [simp]: "dma_wf s \<Longrightarrow> k < 2 \<Longrightarrow> j < 2 \<Longrightarrow> dma_conts (on_cont k f s) ! j = (if j = k then f (dma_conts s ! k) else dma_conts s ! j)"
  by (simp add: on_cont_def dma_wf_def)

lemma dreq_other: "i \<noteq> j \<Longrightarrow> i < 4 \<Longrightarrow> \<not> bit (dreq_bit j) (i + 4)"
  by (simp add: dreq_bit_def bit_exp_iff)

lemma nested_wf: "dma_wf s \<Longrightarrow> dma_wf (nested_dreq e s)"
  by (auto simp: nested_dreq_def set_dreq_def dma_wf_def on_cont_def nth_list_update)

lemma nested_agree:
  assumes "dma_wf s" and "fst e < 8" and "fst c < 2" and "snd c < 4" and "snd c + 4 * fst c \<noteq> fst e"
  shows "agree c s (nested_dreq e s)"
proof -
  have k: "(if fst e > 3 then 1 else 0) = fst e div 4" using assms(2) by presburger
  have e: "fst e mod 4 + 4 * (fst e div 4) = fst e" "fst e div 4 < 2" using assms(2) by simp_all
  have same: "dma_conts (t\<lparr>dma_bh := b\<rparr>) = dma_conts t" for t b by simp
  have "bit (if b then w OR dreq_bit (fst e mod 4) else w AND NOT (dreq_bit (fst e mod 4))) (snd c + 4) = bit w (snd c + 4)"
    if "fst c = fst e div 4" for b and w :: u8
  proof -
    have "snd c \<noteq> fst e mod 4" using assms(5) e that by auto
    then show ?thesis using dreq_other [OF _ assms(4)] assms(4) by (auto simp: bit_or_iff bit_and_iff bit_not_iff)
  qed
  then show ?thesis using assms(1,3) e(2)
    by (auto simp: agree_def chan_pending_def job_def nested_dreq_def set_dreq_def k Let_def simp del: if_cancel)
qed

lemma nested_fold:
  assumes "dma_wf s" and "\<forall>e \<in> set es. fst e = n" and "n < 8" and "fst c < 2" and "snd c < 4" and "snd c + 4 * fst c \<noteq> n"
  shows "dma_wf (fold nested_dreq es s) \<and> agree c s (fold nested_dreq es s)"
  using assms(1,2)
proof (induction es arbitrary: s)
  case (Cons e es)
  have "agree c s (nested_dreq e s)" using Cons.prems assms(3-6) by (intro nested_agree) simp_all
  with Cons nested_wf agree_trans show ?case by (metis fold_simps(2) list.set_intros(1,2))
qed (simp add: agree_refl)

lemma nested_fold_wf: "dma_wf s \<Longrightarrow> dma_wf (fold nested_dreq es s)"
  by (induction es arbitrary: s) (simp_all add: nested_wf)

lemma set_count_wf: "dma_wf s \<Longrightarrow> dma_wf (on_cont k (on_chan i f) s)"
  by (cases "k < 2") (auto simp: dma_wf_def on_cont_def on_chan_def nth_list_update list_update_beyond)

lemma set_count_agree:
  assumes "dma_wf s" and "fst b < 2" and "snd b < 4" and "fst c < 2" and "snd c < 4" and "c \<noteq> b"
  shows "agree c s (on_cont (fst b) (on_chan (snd b) f) s)"
  using assms by (cases b; cases c) (auto simp: agree_def chan_pending_def job_def on_chan_def Let_def)

text \<open>One channel: what it is asked for is logged, and the others are left as they were.\<close>

lemma channel_run_logged:
  assumes "own_requests h" and "dma_wf s" and "fst b < 2" and "snd b < 4"
  shows "\<exists>s1 dev1. channel_run (logged h) (fst b) (snd b) (s, (dev, log)) = (s1, (dev1, log @ [job s b])) \<and> dma_wf s1 \<and>
    (\<forall>c. fst c < 2 \<longrightarrow> snd c < 4 \<longrightarrow> c \<noteq> b \<longrightarrow> agree c s s1)"
proof -
  let ?n = "snd b + 4 * fst b"
  let ?r = "dma_channels (dma_conts s ! fst b) ! snd b"
  obtain dev1 m reqs where h: "h s ?n (now_count ?r) (push_bit (fst b) (uint (base_count ?r) + 1)) dev = (dev1, m, reqs)"
    by (metis prod_cases3)
  let ?t = "fold nested_dreq reqs s"
  let ?s1 = "on_cont (fst b) (on_chan (snd b) (\<lambda>r. r\<lparr>now_count := m\<rparr>)) ?t"
  have own: "\<forall>e \<in> set reqs. fst e = ?n"
    using assms(1) h unfolding own_requests_def by (metis snd_conv)
  have n8: "?n < 8" using assms(3,4) by simp
  have wf: "dma_wf ?t" using assms(2) by (rule nested_fold_wf)
  have "agree c s ?s1" if "fst c < 2" "snd c < 4" "c \<noteq> b" for c
  proof -
    have "c = b" if "snd c + 4 * fst c = ?n"
    proof (rule prod_eqI)
      have "(snd c + 4 * fst c) div 4 = (snd b + 4 * fst b) div 4" using that by simp
      then show "fst c = fst b" using \<open>snd c < 4\<close> assms(4) by simp
      then show "snd c = snd b" using that by simp
    qed
    then have "snd c + 4 * fst c \<noteq> ?n" using that(3) by blast
    from nested_fold [OF assms(2) own n8 that(1,2) this] have "agree c s ?t" by blast
    moreover have "agree c ?t ?s1" using set_count_agree [OF wf assms(3,4) that] .
    ultimately show ?thesis by (rule agree_trans)
  qed
  moreover have "channel_run (logged h) (fst b) (snd b) (s, (dev, log)) = (?s1, (dev1, log @ [job s b]))"
    using h by (simp add: channel_run_def logged_def job_def Let_def)
  ultimately show ?thesis using set_count_wf [OF wf] by blast
qed

lemma agree_pending: "agree c s t \<Longrightarrow> chan_pending t (fst c) (snd c) = chan_pending s (fst c) (snd c)"
  by (simp add: agree_def)

lemma run_logged:
  assumes "own_requests h"
  shows "dma_wf s \<Longrightarrow> distinct cs \<Longrightarrow> \<forall>c \<in> set cs. fst c < 2 \<and> snd c < 4 \<Longrightarrow>
    \<exists>s1 dev1. fold (run_one (logged h)) cs ((s, (dev, log)), rearm) =
      ((s1, (dev1, log @ map (job s) (filter (\<lambda>c. chan_pending s (fst c) (snd c)) cs))),
       rearm \<or> filter (\<lambda>c. chan_pending s (fst c) (snd c)) cs \<noteq> [])"
proof (induction cs arbitrary: s dev log rearm)
  case (Cons b cs)
  have b: "fst b < 2" "snd b < 4" "b \<notin> set cs" "distinct cs" using Cons.prems by simp_all
  show ?case
  proof (cases "chan_pending s (fst b) (snd b)")
    case False
    with Cons.IH [OF Cons.prems(1) b(4)] Cons.prems(3) show ?thesis by (simp add: run_one_def)
  next
    case True
    obtain s1 dev1 where r: "channel_run (logged h) (fst b) (snd b) (s, (dev, log)) = (s1, (dev1, log @ [job s b]))"
      and wf: "dma_wf s1" and a: "\<And>c. fst c < 2 \<Longrightarrow> snd c < 4 \<Longrightarrow> c \<noteq> b \<Longrightarrow> agree c s s1"
      using channel_run_logged [OF assms Cons.prems(1) b(1,2)] by blast
    have rest: "\<forall>c \<in> set cs. fst c < 2 \<and> snd c < 4" using Cons.prems(3) by simp
    have ag: "agree c s s1" if "c \<in> set cs" for c using a [of c] that b(3) Cons.prems(3) by auto
    have f: "filter (\<lambda>c. chan_pending s1 (fst c) (snd c)) cs = filter (\<lambda>c. chan_pending s (fst c) (snd c)) cs"
      using ag agree_pending by (intro filter_cong) auto
    have j: "map (job s1) (filter P cs) = map (job s) (filter P cs)" for P
      using ag by (intro map_cong) (auto simp: agree_def)
    obtain s2 dev2 where "fold (run_one (logged h)) cs ((s1, (dev1, log @ [job s b])), True) =
        ((s2, (dev2, (log @ [job s b]) @ map (job s1) (filter (\<lambda>c. chan_pending s1 (fst c) (snd c)) cs))), True)"
      using Cons.IH [OF wf b(4) rest, of dev1 "log @ [job s b]" True] by auto
    moreover have "run_one (logged h) b ((s, (dev, log)), rearm) = ((s1, (dev1, log @ [job s b])), True)"
      using True r by (simp add: run_one_def)
    ultimately show ?thesis using True unfolding f j by simp
  qed
qed simp

text \<open>C27: [dma_run_serves] A run calls the handlers of exactly the channels that are requested and not masked when it
  starts, each once and in the order of their numbers, with the position and size of their registers; it schedules
  another run whenever it called one. While it runs, a further request only schedules a run.\<close>

theorem dma_run_serves:
  assumes "own_requests h" and "dma_wf s" and "\<not> dma_running s"
  shows "snd (snd (DMA_run (logged h) (s, (dev, [])))) =
      map (job s) (filter (\<lambda>(k, c). \<not> bit (dma_mask (dma_conts s ! k)) c \<and> bit (dma_status (dma_conts s ! k)) (c + 4))
        (List.product [0, 1] [0, 1, 2, 3])) \<and>
    (snd (snd (DMA_run (logged h) (s, (dev, [])))) \<noteq> [] \<longrightarrow> dma_bh (fst (DMA_run (logged h) (s, (dev, []))))) \<and>
    \<not> dma_running (fst (DMA_run (logged h) (s, (dev, [])))) \<and>
    DMA_hold_DREQ h n (s\<lparr>dma_running := True\<rparr>, dev1) = (nested_dreq (n, True) (s\<lparr>dma_running := True\<rparr>), dev1) \<and>
    DMA_release_DREQ h n (s\<lparr>dma_running := True\<rparr>, dev1) = (nested_dreq (n, False) (s\<lparr>dma_running := True\<rparr>), dev1)"
proof -
  let ?s = "s\<lparr>dma_running := True\<rparr>"
  have wf: "dma_wf ?s" using assms(2) by (simp add: dma_wf_def)
  have "distinct all_channels" "\<forall>c \<in> set all_channels. fst c < 2 \<and> snd c < 4" by (simp_all add: all_channels_def)
  from run_logged [OF assms(1) wf this, of dev "[]" False] obtain s1 dev2 where
    f: "fold (run_one (logged h)) all_channels ((?s, (dev, [])), False) =
      ((s1, (dev2, map (job ?s) (filter (\<lambda>c. chan_pending ?s (fst c) (snd c)) all_channels))),
       filter (\<lambda>c. chan_pending ?s (fst c) (snd c)) all_channels \<noteq> [])" by auto
  have "chan_pending ?s = chan_pending s" "job ?s = job s" by (simp_all add: fun_eq_iff chan_pending_def job_def)
  moreover have "filter (\<lambda>c. chan_pending s (fst c) (snd c)) all_channels =
    filter (\<lambda>(k, c). \<not> bit (dma_mask (dma_conts s ! k)) c \<and> bit (dma_status (dma_conts s ! k)) (c + 4)) (List.product [0, 1] [0, 1, 2, 3])"
    unfolding all_channels_def by (rule filter_cong) (auto simp: chan_pending_def)
  ultimately show ?thesis using f assms(3)
    by (auto simp: DMA_run_def Let_def DMA_hold_DREQ_def DMA_release_DREQ_def nested_dreq_def set_dreq_def on_cont_def)
qed

definition dma_two :: dma_state where
  "dma_two = fst (DMA_hold_DREQ dma_phony_handler 5 (DMA_hold_DREQ dma_phony_handler 1
     (write_cont dma_phony_handler 1 0x1e 0 (write_cont dma_phony_handler 0 0x0e 0 (DMA_init dma_phony_handler ())))))"

theorem dma_run_serves_witness:
  "snd (snd (DMA_run (logged dma_phony_handler) (dma_two, ((), [])))) = [(1, 0, 1), (5, 0, 2)]"
proof -
  have "own_requests (dma_phony_handler :: unit handler)" by (simp add: own_requests_def dma_phony_handler_def)
  moreover have "dma_wf dma_two" "\<not> dma_running dma_two" by code_simp+
  moreover have "map (job dma_two) (filter (\<lambda>(k, c). \<not> bit (dma_mask (dma_conts dma_two ! k)) c \<and>
      bit (dma_status (dma_conts dma_two ! k)) (c + 4)) (List.product [0, 1] [0, 1, 2, 3])) = [(1, 0, 1), (5, 0, 2)]"
    by code_simp
  ultimately show ?thesis using dma_run_serves [of dma_phony_handler dma_two "()" 0 "()"] by metis
qed

end
