(* ===== verification/Bitops.thy ===== *)
theory Bitops
  imports Prelude
begin

unbundle bit_operations_syntax

text \<open>
  Single bits and searches in arrays of \<^theory_text>\<open>unsigned long\<close>, \<^verbatim>\<open>bitops.h\<close> and \<^verbatim>\<open>bitops.c\<close>. The width of a long is the length
  of the word type, so the definitions cover the builds for 32 and 64 bits; \<open>long\<close> says that it is one of the two. An
  array is the list of its words; \<open>None\<close> stands for an access outside of it.
\<close>

definition long :: "'a::len itself \<Rightarrow> bool" where
  "long t \<longleftrightarrow> LENGTH('a) = 32 \<or> LENGTH('a) = 64"

section \<open>Bits of one word\<close>

definition ffsl_step :: "nat \<Rightarrow> 'a::len word \<times> nat \<Rightarrow> 'a word \<times> nat" where
  "ffsl_step h = (\<lambda>(w, num). if w AND mask h = 0 then (drop_bit h w, num + h) else (w, num))"

definition bitops_ffsl :: "'a::len word \<Rightarrow> 'a word" where
  "bitops_ffsl w0 =
     (let s = (if LENGTH('a) > 32 then ffsl_step 32 (w0, 0) else (w0, 0));
          (w, num) = ffsl_step 2 (ffsl_step 4 (ffsl_step 8 (ffsl_step 16 s)))
      in of_nat (if w AND 1 = 0 then num + 1 else num))"

definition flsl_step :: "nat \<Rightarrow> 'a::len word \<times> nat \<Rightarrow> 'a word \<times> nat" where
  "flsl_step h = (\<lambda>(w, num). if w AND push_bit (LENGTH('a) - h) (NOT 0) = 0 then (push_bit h w, num - h) else (w, num))"

definition bitops_flsl :: "'a::len word \<Rightarrow> 'a word" where
  "bitops_flsl w0 =
     (let s = (if LENGTH('a) > 32 then flsl_step 32 (w0, LENGTH('a) - 1) else (w0, LENGTH('a) - 1));
          (w, num) = flsl_step 2 (flsl_step 4 (flsl_step 8 (flsl_step 16 s)))
      in of_nat (if w AND push_bit (LENGTH('a) - 1) (NOT 0) = 0 then num - 1 else num))"

definition ffz :: "'a::len word \<Rightarrow> 'a word" where
  "ffz w = bitops_ffsl (NOT w)"

function hweight_from :: "'a::len word \<Rightarrow> 'a word \<Rightarrow> 'a word" where
  "hweight_from w count = (if w = 0 then count else hweight_from (drop_bit 1 w) (count + (w AND 1)))"
  by auto
termination
proof (relation "measure (\<lambda>(w, _). unat w)")
  fix w count :: "'a word"
  assume "w \<noteq> 0"
  then have "0 < unat w" by (simp add: unat_gt_0)
  then show "((drop_bit 1 w, count + (w AND 1)), w, count) \<in> measure (\<lambda>(w, _). unat w)"
    by (simp only: unat_drop_bit_eq in_measure prod.case) (simp add: drop_bit_Suc)
qed simp

declare hweight_from.simps [simp del]

definition hweight_long :: "'a::len word \<Rightarrow> 'a word" where
  "hweight_long w = hweight_from w 0"

section \<open>One bit of an array\<close>

definition on_word :: "nat \<Rightarrow> ('a::len word \<Rightarrow> 'a word) \<Rightarrow> 'a word list \<Rightarrow> 'a word list option" where
  "on_word nr f m =
     (let k = nr div LENGTH('a) in if k < length m then Some (m[k := f (m ! k)]) else None)"

definition BIT_MASK :: "nat \<Rightarrow> 'a::len word" where
  "BIT_MASK nr = push_bit (nr mod LENGTH('a)) 1"

definition set_bit_at :: "nat \<Rightarrow> 'a::len word list \<Rightarrow> 'a word list option" where
  "set_bit_at nr m = on_word nr (\<lambda>w. w OR BIT_MASK nr) m"

definition clear_bit :: "nat \<Rightarrow> 'a::len word list \<Rightarrow> 'a word list option" where
  "clear_bit nr m = on_word nr (\<lambda>w. w AND NOT (BIT_MASK nr)) m"

definition change_bit :: "nat \<Rightarrow> 'a::len word list \<Rightarrow> 'a word list option" where
  "change_bit nr m = on_word nr (\<lambda>w. w XOR BIT_MASK nr) m"

definition with_old :: "nat \<Rightarrow> 'a::len word list \<Rightarrow> 'a word list option \<Rightarrow> ('a word list \<times> bool) option" where
  "with_old nr m r = map_option (\<lambda>m'. (m', m ! (nr div LENGTH('a)) AND BIT_MASK nr \<noteq> 0)) r"

definition test_and_set_bit :: "nat \<Rightarrow> 'a::len word list \<Rightarrow> ('a word list \<times> bool) option" where
  "test_and_set_bit nr m = with_old nr m (on_word nr (\<lambda>w. w OR BIT_MASK nr) m)"

definition test_and_clear_bit :: "nat \<Rightarrow> 'a::len word list \<Rightarrow> ('a word list \<times> bool) option" where
  "test_and_clear_bit nr m = with_old nr m (on_word nr (\<lambda>w. w AND NOT (BIT_MASK nr)) m)"

definition test_and_change_bit :: "nat \<Rightarrow> 'a::len word list \<Rightarrow> ('a word list \<times> bool) option" where
  "test_and_change_bit nr m = with_old nr m (on_word nr (\<lambda>w. w XOR BIT_MASK nr) m)"

definition test_bit :: "nat \<Rightarrow> 'a::len word list \<Rightarrow> bool option" where
  "test_bit nr m =
     (let k = nr div LENGTH('a) in
      if k < length m then Some (1 AND drop_bit (nr mod LENGTH('a)) (m ! k) \<noteq> 0) else None)"

section \<open>Searches\<close>

text \<open>The rest of the array is a parameter of a loop, so is the position \<open>result\<close> of its first word; \<open>sz\<close> (\<^verbatim>\<open>size\<close>) counts the bits
  still to be searched.\<close>

definition long_bits :: "'a::len word" where
  "long_bits = of_nat LENGTH('a)"

definition found_first :: "'a::len word \<Rightarrow> 'a word \<Rightarrow> 'a word \<Rightarrow> 'a word" where
  "found_first tmp0 sz result =
     (let tmp = tmp0 AND drop_bit (LENGTH('a) - unat sz) (NOT 0)
      in if tmp = 0 then result + sz else result + bitops_ffsl tmp)"

fun next_bit_loop :: "'a::len word list \<Rightarrow> 'a word \<Rightarrow> 'a word \<Rightarrow> 'a word option" where
  "next_bit_loop [] sz result =
     (if sz AND NOT (long_bits - 1) \<noteq> 0 then None else if sz = 0 then Some result else None)"
| "next_bit_loop (tmp # p) sz result =
     (if sz AND NOT (long_bits - 1) \<noteq> 0
      then (if tmp \<noteq> 0 then Some (result + bitops_ffsl tmp) else next_bit_loop p (sz - long_bits) (result + long_bits))
      else if sz = 0 then Some result else Some (found_first tmp sz result))"

definition find_next_bit :: "'a::len word list \<Rightarrow> 'a word \<Rightarrow> 'a word \<Rightarrow> 'a word option" where
  "find_next_bit addr size0 offset0 =
     (let p = drop (unat offset0 div LENGTH('a)) addr;
          result = offset0 AND NOT (long_bits - 1);
          sz = size0 - result;
          offset = unat offset0 mod LENGTH('a)
      in if offset0 \<ge> size0 then Some size0
         else if offset \<noteq> 0
         then (case p of
                 [] \<Rightarrow> None
               | w # p1 \<Rightarrow>
                   let tmp = w AND push_bit offset (NOT 0) in
                   if sz < long_bits then Some (found_first tmp sz result)
                   else if tmp \<noteq> 0 then Some (result + bitops_ffsl tmp)
                   else next_bit_loop p1 (sz - long_bits) (result + long_bits))
         else next_bit_loop p sz result)"

definition zero_first :: "'a::len word \<Rightarrow> 'a word \<Rightarrow> 'a word \<Rightarrow> 'a word" where
  "zero_first tmp0 sz result =
     (let tmp = tmp0 OR push_bit (unat sz) (NOT 0)
      in if tmp = NOT 0 then result + sz else result + ffz tmp)"

fun next_zero_loop :: "'a::len word list \<Rightarrow> 'a word \<Rightarrow> 'a word \<Rightarrow> 'a word option" where
  "next_zero_loop [] sz result =
     (if sz AND NOT (long_bits - 1) \<noteq> 0 then None else if sz = 0 then Some result else None)"
| "next_zero_loop (tmp # p) sz result =
     (if sz AND NOT (long_bits - 1) \<noteq> 0
      then (if NOT tmp \<noteq> 0 then Some (result + ffz tmp) else next_zero_loop p (sz - long_bits) (result + long_bits))
      else if sz = 0 then Some result else Some (zero_first tmp sz result))"

definition find_next_zero_bit :: "'a::len word list \<Rightarrow> 'a word \<Rightarrow> 'a word \<Rightarrow> 'a word option" where
  "find_next_zero_bit addr size0 offset0 =
     (let p = drop (unat offset0 div LENGTH('a)) addr;
          result = offset0 AND NOT (long_bits - 1);
          sz = size0 - result;
          offset = unat offset0 mod LENGTH('a)
      in if offset0 \<ge> size0 then Some size0
         else if offset \<noteq> 0
         then (case p of
                 [] \<Rightarrow> None
               | w # p1 \<Rightarrow>
                   let tmp = w OR drop_bit (LENGTH('a) - offset) (NOT 0) in
                   if sz < long_bits then Some (zero_first tmp sz result)
                   else if NOT tmp \<noteq> 0 then Some (result + ffz tmp)
                   else next_zero_loop p1 (sz - long_bits) (result + long_bits))
         else next_zero_loop p sz result)"

text \<open>The words below the last one, from the highest down.\<close>

fun last_bit_loop :: "nat \<Rightarrow> 'a::len word list \<Rightarrow> 'a word \<Rightarrow> 'a word option" where
  "last_bit_loop 0 addr sz = Some sz"
| "last_bit_loop (Suc k) addr sz =
     (if k < length addr
      then (let tmp = addr ! k in
            if tmp \<noteq> 0 then Some (of_nat k * long_bits + bitops_flsl tmp) else last_bit_loop k addr sz)
      else None)"

definition find_last_bit :: "'a::len word list \<Rightarrow> 'a word \<Rightarrow> 'a word option" where
  "find_last_bit addr sz =
     (let words = unat sz div LENGTH('a); part = unat (sz AND (long_bits - 1))
      in if part \<noteq> 0
         then (if words < length addr
               then (let tmp = addr ! words AND drop_bit (LENGTH('a) - part) (NOT 0) in
                     if tmp \<noteq> 0 then Some (of_nat words * long_bits + bitops_flsl tmp) else last_bit_loop words addr sz)
               else None)
         else last_bit_loop words addr sz)"

definition find_first_bit :: "'a::len word list \<Rightarrow> 'a word \<Rightarrow> 'a word option" where
  "find_first_bit addr sz = find_next_bit addr sz 0"

definition find_first_zero_bit :: "'a::len word list \<Rightarrow> 'a word \<Rightarrow> 'a word option" where
  "find_first_zero_bit addr sz = find_next_zero_bit addr sz 0"

end
