(* ===== verification/BitSearch.thy ===== *)
theory BitSearch
  imports Bitops
begin

unbundle bit_operations_syntax

text \<open>
  The operations on single bits and the searches of \<^verbatim>\<open>bitops.h\<close> and \<^verbatim>\<open>bitops.c\<close>, against an array seen as the set of the
  indices of its bits (\<open>mbit\<close>): the search in a word by halving, the search in the words of an array with its partial
  first and last words, and the same from the end.
\<close>

section \<open>What the operations do to bits\<close>

text \<open>The bit at an index of the array; there is none behind its end.\<close>

definition mbit :: "'a::len word list \<Rightarrow> nat \<Rightarrow> bool" where
  "mbit m i \<longleftrightarrow> i div LENGTH('a) < length m \<and> bit (m ! (i div LENGTH('a))) (i mod LENGTH('a))"

lemma longD:
  assumes "long TYPE('a::len)"
  shows "\<exists>k. LENGTH('a) = 2 ^ k \<and> k < LENGTH('a) \<and> 5 \<le> k \<and> k \<le> 6"
proof (cases "LENGTH('a) = 32")
  case True then show ?thesis by (intro exI [of _ 5]) simp
next
  case False
  with assms have "LENGTH('a) = 64" by (simp add: long_def)
  then show ?thesis by (intro exI [of _ 6]) simp
qed

text \<open>The two searches in a word halve the part in which the bit is.\<close>

definition ffsl_inv :: "'a::len word \<Rightarrow> nat \<Rightarrow> 'a word \<times> nat \<Rightarrow> bool" where
  "ffsl_inv w0 k s \<longleftrightarrow> (let (w, num) = s in w = drop_bit num w0 \<and> (\<forall>i < num. \<not> bit w0 i) \<and> (\<exists>i < k. bit w i))"

lemma ffsl_step_inv: "ffsl_inv w0 (2 * h) s \<Longrightarrow> ffsl_inv w0 h (ffsl_step h s)"
proof (cases s)
  case (Pair w num)
  assume "ffsl_inv w0 (2 * h) s"
  with Pair have w: "w = drop_bit num w0" and low: "\<forall>i < num. \<not> bit w0 i" and ex: "\<exists>i < 2 * h. bit w i"
    by (auto simp: ffsl_inv_def)
  show ?thesis
  proof (cases "w AND mask h = 0")
    case True
    then have no: "\<not> bit w i" if "i < h" for i
      using that by (auto simp: bit_eq_iff bit_and_iff bit_mask_iff dest!: spec [of _ i] dest: bit_imp_le_length)
    have "\<not> bit w0 i" if "i < num + h" for i
    proof (cases "i < num")
      case False
      with that no [of "i - num"] show ?thesis by (simp add: w bit_drop_bit_eq)
    qed (use low in simp)
    moreover obtain i where i: "i < 2 * h" "bit w i" using ex by blast
    with no have "h \<le> i" by (meson not_le)
    with i have "i - h < h \<and> bit (drop_bit h w) (i - h)" by (simp add: bit_drop_bit_eq)
    then have "\<exists>i < h. bit (drop_bit h w) i" by blast
    ultimately show ?thesis using True Pair by (simp add: ffsl_inv_def ffsl_step_def w add.commute)
  next
    case False
    then obtain i where "bit (w AND mask h) i" by (auto simp: bit_eq_iff)
    then have "i < h \<and> bit w i" by (auto simp: bit_and_iff bit_mask_iff)
    with False Pair w low show ?thesis by (auto simp: ffsl_inv_def ffsl_step_def)
  qed
qed

lemma ffsl_inv_start:
  assumes "w0 \<noteq> 0"
  shows "ffsl_inv (w0 :: 'a::len word) LENGTH('a) (w0, 0)"
proof -
  obtain i where "bit w0 i" using assms by (auto simp: bit_eq_iff)
  then show ?thesis using bit_imp_le_length [of w0 i] by (auto simp: ffsl_inv_def)
qed

lemma and_one_bit: "w AND 1 = 0 \<longleftrightarrow> \<not> bit (w :: 'a::len word) 0"
  by (simp add: and_one_eq bit_0 even_iff_mod_2_eq_zero)

lemma bitops_ffsl_first:
  assumes "long TYPE('a::len)" and "w \<noteq> (0 :: 'a word)"
  shows "bit w (unat (bitops_ffsl w)) \<and> (\<forall>i < unat (bitops_ffsl w). \<not> bit w i) \<and> unat (bitops_ffsl w) < LENGTH('a)"
proof -
  define s where "s = (if LENGTH('a) > 32 then ffsl_step 32 (w, 0) else (w, 0))"
  have "ffsl_inv w 32 s"
    using assms(1) ffsl_inv_start [OF assms(2)] ffsl_step_inv [of w 32 "(w, 0)"] by (auto simp: s_def long_def)
  then have "ffsl_inv w 2 (ffsl_step 2 (ffsl_step 4 (ffsl_step 8 (ffsl_step 16 s))))"
    using ffsl_step_inv [of w 16 s] ffsl_step_inv [of w 8 "ffsl_step 16 s"] ffsl_step_inv [of w 4 "ffsl_step 8 (ffsl_step 16 s)"]
      ffsl_step_inv [of w 2 "ffsl_step 4 (ffsl_step 8 (ffsl_step 16 s))"] by simp
  then obtain v n where v: "ffsl_step 2 (ffsl_step 4 (ffsl_step 8 (ffsl_step 16 s))) = (v, n)" and i: "ffsl_inv w 2 (v, n)"
    by (metis surj_pair)
  let ?n = "if v AND 1 = 0 then n + 1 else n"
  have b: "bit w ?n \<and> (\<forall>i < ?n. \<not> bit w i)"
    using i by (auto simp: ffsl_inv_def and_one_bit bit_drop_bit_eq less_Suc_eq numeral_2_eq_2)
  then have l: "?n < LENGTH('a)" using bit_imp_le_length [of w ?n] by simp
  have "bitops_ffsl w = of_nat ?n" using v by (simp add: bitops_ffsl_def s_def)
  then have "unat (bitops_ffsl w) = ?n" using less_trans [OF l less_exp] by (simp only: unat_small)
  with b l show ?thesis by simp
qed

definition flsl_inv :: "'a::len word \<Rightarrow> nat \<Rightarrow> 'a word \<times> nat \<Rightarrow> bool" where
  "flsl_inv w0 k s \<longleftrightarrow> (let (w, num) = s in num < LENGTH('a) \<and> w = push_bit (LENGTH('a) - 1 - num) w0 \<and>
     (\<forall>i > num. \<not> bit w0 i) \<and> k \<le> num + 1 \<and> (\<exists>i < k. bit w (LENGTH('a) - 1 - i)))"

lemma high_bits:
  assumes "h \<le> LENGTH('a::len)"
  shows "(w :: 'a word) AND push_bit (LENGTH('a) - h) (NOT 0) = 0 \<longleftrightarrow> (\<forall>i < h. \<not> bit w (LENGTH('a) - 1 - i))"
proof
  assume e: "w AND push_bit (LENGTH('a) - h) (NOT 0) = 0"
  show "\<forall>i < h. \<not> bit w (LENGTH('a) - 1 - i)"
  proof (intro allI impI notI)
    fix i assume "i < h" "bit w (LENGTH('a) - 1 - i)"
    then have "bit (w AND push_bit (LENGTH('a) - h) (NOT 0)) (LENGTH('a) - 1 - i)"
      using assms by (auto simp: bit_and_iff bit_push_bit_iff bit_not_iff bit_mask_iff)
    with e show False by simp
  qed
next
  assume a: "\<forall>i < h. \<not> bit w (LENGTH('a) - 1 - i)"
  show "w AND push_bit (LENGTH('a) - h) (NOT 0) = 0"
  proof (rule bit_word_eqI)
    fix n assume n: "n < LENGTH('a)"
    show "bit (w AND push_bit (LENGTH('a) - h) (NOT 0)) n = bit 0 n"
    proof (cases "LENGTH('a) - h \<le> n")
      case True
      then have "LENGTH('a) - 1 - n < h" "LENGTH('a) - 1 - (LENGTH('a) - 1 - n) = n" using n assms by linarith+
      with a [rule_format, of "LENGTH('a) - 1 - n"] have "\<not> bit w n" by simp
      then show ?thesis by (simp add: bit_and_iff)
    qed (use n in \<open>simp add: bit_and_iff bit_push_bit_iff bit_not_iff bit_mask_iff\<close>)
  qed
qed

lemma flsl_step_inv:
  assumes "0 < h" and "2 * h \<le> LENGTH('a)" and "flsl_inv w0 (2 * h) s"
  shows "flsl_inv (w0 :: 'a::len word) h (flsl_step h s)"
proof (cases s)
  case (Pair w num)
  with assms(3) have w: "num < LENGTH('a)" "w = push_bit (LENGTH('a) - 1 - num) w0" and high: "\<forall>i > num. \<not> bit w0 i"
    and k: "2 * h \<le> num + 1" and ex: "\<exists>i < 2 * h. bit w (LENGTH('a) - 1 - i)"
    by (auto simp: flsl_inv_def)
  have h: "h \<le> LENGTH('a)" using assms(2) by simp
  show ?thesis
  proof (cases "w AND push_bit (LENGTH('a) - h) (NOT 0) = 0")
    case True
    then have no: "\<not> bit w (LENGTH('a) - 1 - i)" if "i < h" for i using that high_bits [OF h] by blast
    have "\<not> bit w0 i" if "num - h < i" for i
    proof (cases "num < i")
      case False
      with that have "num - i < h" using k assms(1) by linarith
      from no [OF this] show ?thesis using w that False by (auto simp: bit_push_bit_iff)
    qed (use high in simp)
    moreover obtain i where i: "i < 2 * h" "bit w (LENGTH('a) - 1 - i)" using ex by blast
    with no have hi: "h \<le> i" by (meson not_le)
    have "bit (push_bit h w) (LENGTH('a) - 1 - (i - h))"
    proof -
      have "LENGTH('a) - 1 - (i - h) - h = LENGTH('a) - 1 - i" "h \<le> LENGTH('a) - 1 - (i - h)"
        using hi i(1) assms by linarith+
      then show ?thesis using i(2) hi assms(1) by (simp only: bit_push_bit_iff) auto
    qed
    then have "\<exists>j < h. bit (push_bit h w) (LENGTH('a) - 1 - j)" using i(1) hi
      by (intro exI [of _ "i - h"]) auto
    moreover have "push_bit h w = push_bit (LENGTH('a) - 1 - (num - h)) w0"
      using w k assms by (simp add: push_bit_push_bit) (rule arg_cong [of _ _ "\<lambda>n. push_bit n w0"], linarith)
    ultimately show ?thesis using True Pair w k assms by (auto simp: flsl_inv_def flsl_step_def)
  next
    case False
    with high_bits [OF h] have "\<exists>i < h. bit w (LENGTH('a) - 1 - i)" by blast
    with False Pair w k high show ?thesis by (auto simp: flsl_inv_def flsl_step_def)
  qed
qed

lemma flsl_inv_start:
  assumes "w0 \<noteq> 0"
  shows "flsl_inv (w0 :: 'a::len word) LENGTH('a) (w0, LENGTH('a) - 1)"
proof -
  obtain i where "bit w0 i" using assms by (auto simp: bit_eq_iff)
  moreover from this have "i < LENGTH('a)" by (rule bit_imp_le_length)
  ultimately have "\<exists>i < LENGTH('a). bit w0 (LENGTH('a) - 1 - i)" by (intro exI [of _ "LENGTH('a) - 1 - i"]) simp
  then show ?thesis by (auto simp: flsl_inv_def dest: bit_imp_le_length)
qed

lemma bitops_flsl_last:
  assumes "long TYPE('a::len)" and "w \<noteq> (0 :: 'a word)"
  shows "bit w (unat (bitops_flsl w)) \<and> (\<forall>i > unat (bitops_flsl w). \<not> bit w i) \<and> unat (bitops_flsl w) < LENGTH('a)"
proof -
  define s where "s = (if LENGTH('a) > 32 then flsl_step 32 (w, LENGTH('a) - 1) else (w, LENGTH('a) - 1))"
  have "flsl_inv w 32 s"
    using assms(1) flsl_inv_start [OF assms(2)] flsl_step_inv [of 32 w "(w, LENGTH('a) - 1)"] by (auto simp: s_def long_def)
  then have "flsl_inv w 2 (flsl_step 2 (flsl_step 4 (flsl_step 8 (flsl_step 16 s))))"
    using flsl_step_inv [of 16 w s] flsl_step_inv [of 8 w "flsl_step 16 s"] flsl_step_inv [of 4 w "flsl_step 8 (flsl_step 16 s)"]
      flsl_step_inv [of 2 w "flsl_step 4 (flsl_step 8 (flsl_step 16 s))"] assms(1) by (auto simp: long_def)
  then obtain v n where v: "flsl_step 2 (flsl_step 4 (flsl_step 8 (flsl_step 16 s))) = (v, n)" and i: "flsl_inv w (2 * 1) (v, n)"
    by (metis surj_pair mult.right_neutral)
  let ?n = "if v AND push_bit (LENGTH('a) - 1) (NOT 0) = 0 then n - 1 else n"
  have "flsl_inv w 1 (flsl_step 1 (v, n))" by (rule flsl_step_inv [OF _ _ i]) (use assms(1) in \<open>auto simp: long_def\<close>)
  moreover have "snd (flsl_step 1 (v, n)) = ?n" by (simp add: flsl_step_def)
  ultimately have l: "?n < LENGTH('a)" and b: "bit w ?n \<and> (\<forall>i > ?n. \<not> bit w i)"
    by (auto simp: flsl_inv_def bit_push_bit_iff split: prod.splits)
  have "bitops_flsl w = of_nat ?n" using v by (simp add: bitops_flsl_def s_def)
  then have "unat (bitops_flsl w) = ?n" using less_trans [OF l less_exp] by (simp only: unat_small)
  with b l show ?thesis by simp
qed

subsection \<open>The searches\<close>

text \<open>The first index from \<open>a\<close> on and below \<open>n\<close> with a property, else \<open>n\<close>; and the last one.\<close>

definition first_index :: "(nat \<Rightarrow> bool) \<Rightarrow> nat \<Rightarrow> nat \<Rightarrow> nat" where
  "first_index P a n = (case find P [a..<n] of Some i \<Rightarrow> i | None \<Rightarrow> n)"

definition last_index :: "(nat \<Rightarrow> bool) \<Rightarrow> nat \<Rightarrow> nat" where
  "last_index P n = (case find P (rev [0..<n]) of Some i \<Rightarrow> i | None \<Rightarrow> n)"

lemma upt_split: "a \<le> j \<Longrightarrow> j < n \<Longrightarrow> [a..<n] = [a..<j] @ j # [Suc j..<n]"
  by (metis le_add_diff_inverse less_imp_le upt_add_eq_append upt_conv_Cons)

lemma find_first: "P j \<Longrightarrow> \<forall>y \<in> set ys. \<not> P y \<Longrightarrow> find P (ys @ j # xs) = Some j"
  by (induction ys) auto

lemma first_index_at:
  assumes "a \<le> j" and "j < n" and "P j" and "\<And>i. a \<le> i \<Longrightarrow> i < j \<Longrightarrow> \<not> P i"
  shows "first_index P a n = j"
proof -
  have "find P ([a..<j] @ j # [Suc j..<n]) = Some j" by (rule find_first) (use assms in auto)
  then show ?thesis using upt_split [OF assms(1,2)] by (simp add: first_index_def)
qed

lemma first_index_none: "(\<And>i. a \<le> i \<Longrightarrow> i < n \<Longrightarrow> \<not> P i) \<Longrightarrow> first_index P a n = n"
  by (auto simp: first_index_def split: option.splits) (metis atLeastLessThan_iff find_Some_iff nth_mem set_upt)

lemma first_index_cases:
  obtains (found) j where "a \<le> j" "j < n" "P j" "\<And>i. a \<le> i \<Longrightarrow> i < j \<Longrightarrow> \<not> P i" "first_index P a n = j"
  | (absent) "\<And>i. a \<le> i \<Longrightarrow> i < n \<Longrightarrow> \<not> P i" "first_index P a n = n"
proof (cases "\<exists>j. a \<le> j \<and> j < n \<and> P j")
  case True
  define j where "j = (LEAST j. a \<le> j \<and> j < n \<and> P j)"
  have j: "a \<le> j \<and> j < n \<and> P j" unfolding j_def by (rule LeastI_ex [OF True])
  have no: "\<not> P i" if "a \<le> i" "i < j" for i
    using not_less_Least [of i "\<lambda>j. a \<le> j \<and> j < n \<and> P j"] that j by (auto simp: j_def)
  then show thesis using that(1) [of j] j first_index_at [of a j n P] by blast
next
  case False
  then show thesis using that(2) first_index_none [of a n P] by blast
qed

lemma first_index_skip:
  assumes "a \<le> b" and "\<And>i. a \<le> i \<Longrightarrow> i < b \<Longrightarrow> i < n \<Longrightarrow> \<not> P i" and "b \<le> n"
  shows "first_index P a n = first_index P b n"
proof (cases rule: first_index_cases [of b n P])
  case (found j)
  have "\<not> P i" if "a \<le> i" "i < j" for i using that found(2,4) assms(2) by (cases "i < b") auto
  then have "first_index P a n = j" using found assms(1) by (intro first_index_at) auto
  with found show ?thesis by simp
next
  case absent
  have "\<not> P i" if "a \<le> i" "i < n" for i using that absent(1) assms(2) by (cases "i < b") auto
  then have "first_index P a n = n" by (rule first_index_none)
  with absent show ?thesis by simp
qed

lemma first_index_le: "first_index P a n \<le> n"
  by (cases rule: first_index_cases [of a n P]) auto

lemma first_index_cong: "(\<And>i. a \<le> i \<Longrightarrow> i < n \<Longrightarrow> P i = Q i) \<Longrightarrow> first_index P a n = first_index Q a n"
  by (cases rule: first_index_cases [of a n Q]) (auto intro!: first_index_at first_index_none)

lemma last_index_at:
  assumes "j < n" and "P j" and "\<And>i. j < i \<Longrightarrow> i < n \<Longrightarrow> \<not> P i"
  shows "last_index P n = j"
proof -
  have "find P (rev [Suc j..<n] @ j # rev [0..<j]) = Some j" by (rule find_first) (use assms in auto)
  then show ?thesis using upt_split [of 0 j n] assms(1) by (simp add: last_index_def)
qed

lemma last_index_none: "(\<And>i. i < n \<Longrightarrow> \<not> P i) \<Longrightarrow> last_index P n = n"
  by (auto simp: last_index_def split: option.splits)
    (metis atLeastLessThan_iff find_Some_iff nth_mem set_upt set_rev)

lemma last_index_cases:
  obtains (found) j where "j < n" "P j" "\<And>i. j < i \<Longrightarrow> i < n \<Longrightarrow> \<not> P i" "last_index P n = j"
  | (absent) "\<And>i. i < n \<Longrightarrow> \<not> P i" "last_index P n = n"
proof (cases "\<exists>j < n. P j")
  case True
  define j where "j = Max {j. j < n \<and> P j}"
  have fin: "finite {j. j < n \<and> P j}" by simp
  have j: "j \<in> {j. j < n \<and> P j}" unfolding j_def using True by (intro Max_in [OF fin]) blast
  have no: "\<not> P i" if "j < i" "i < n" for i
    using Max_ge [OF fin, of i] that by (auto simp: j_def simp del: Max_ge Max_less_iff)
  then show thesis using that(1) [of j] j last_index_at [of j n P] by blast
next
  case False
  then show thesis using that(2) last_index_none [of n P] by blast
qed

lemma unat_long_bits: "unat (long_bits :: 'a::len word) = LENGTH('a)"
  unfolding long_bits_def by (rule unat_small) (rule less_exp)

lemma align_down:
  assumes "long TYPE('a::len)"
  shows "unat ((x :: 'a word) AND NOT (long_bits - 1)) = LENGTH('a) * (unat x div LENGTH('a))"
proof -
  obtain k where k: "LENGTH('a) = 2 ^ k" "k < LENGTH('a)" using longD [OF assms] by blast
  have "long_bits - 1 = (mask k :: 'a word)" by (simp add: long_bits_def k(1) mask_eq_exp_minus_1)
  then show ?thesis by (simp add: and_not_mask k(1) mult.commute)
qed

lemma whole_words:
  assumes "long TYPE('a::len)"
  shows "(sz :: 'a word) AND NOT (long_bits - 1) = 0 \<longleftrightarrow> unat sz < LENGTH('a)"
proof -
  have "sz AND NOT (long_bits - 1) = 0 \<longleftrightarrow> unat (sz AND NOT (long_bits - 1)) = 0" by (simp add: unat_eq_zero)
  then show ?thesis by (simp add: align_down [OF assms] div_eq_0_iff)
qed

lemma mbit_word: "j < length m \<Longrightarrow> i < LENGTH('a) \<Longrightarrow> mbit (m :: 'a::len word list) (LENGTH('a) * j + i) \<longleftrightarrow> bit (m ! j) i"
  by (simp add: mbit_def)

lemma mbit_in_word:
  assumes "LENGTH('a) * j \<le> i" and "i < LENGTH('a) * j + LENGTH('a)" and "j < length m"
  shows "mbit (m :: 'a::len word list) i \<longleftrightarrow> bit (m ! j) (i - LENGTH('a) * j)"
  using mbit_word [OF assms(3), of "i - LENGTH('a) * j"] assms by simp

lemma bit_from: "bit (w AND NOT (mask s)) i \<longleftrightarrow> bit (w :: 'a::len word) i \<and> s \<le> i"
  by (auto simp: bit_and_iff bit_push_bit_iff bit_not_iff bit_mask_iff dest: bit_imp_le_length)

lemma low_ones: "n \<le> LENGTH('a) \<Longrightarrow> drop_bit (LENGTH('a) - n) (NOT 0) = (mask n :: 'a::len word)"
  by (rule bit_word_eqI) (auto simp: bit_drop_bit_eq bit_mask_iff)

text \<open>A word from which the bits below \<open>s\<close> are removed.\<close>

lemma found_in_word:
  assumes "long TYPE('a::len)" and "j < length m" and "tmp \<noteq> (0 :: 'a word)"
    and "\<And>i. bit tmp i \<Longrightarrow> bit (m ! j :: 'a word) i \<and> s \<le> i"
    and "\<And>i. i < u \<Longrightarrow> bit (m ! j) i \<Longrightarrow> s \<le> i \<Longrightarrow> bit tmp i" and "unat (bitops_ffsl tmp) < u"
    and "unat result = LENGTH('a) * j" and "LENGTH('a) * j + u \<le> n" and "n < 2 ^ LENGTH('a)" and "u \<le> LENGTH('a)"
  shows "unat (result + bitops_ffsl tmp) = first_index (mbit m) (LENGTH('a) * j + s) n"
proof -
  let ?f = "unat (bitops_ffsl tmp)"
  have f: "bit tmp ?f" "\<forall>i < ?f. \<not> bit tmp i" "?f < LENGTH('a)" using bitops_ffsl_first [OF assms(1,3)] by auto
  have "first_index (mbit m) (LENGTH('a) * j + s) n = LENGTH('a) * j + ?f"
  proof (rule first_index_at)
    show "mbit m (LENGTH('a) * j + ?f)" using mbit_word [OF assms(2) f(3)] assms(4) [OF f(1)] by simp
    fix i assume i: "LENGTH('a) * j + s \<le> i" "i < LENGTH('a) * j + ?f"
    with f(3) have "mbit m i \<longleftrightarrow> bit (m ! j) (i - LENGTH('a) * j)" by (intro mbit_in_word [OF _ _ assms(2)]) auto
    moreover have "i - LENGTH('a) * j < ?f" "s \<le> i - LENGTH('a) * j" using i f(3) by linarith+
    ultimately show "\<not> mbit m i" using f(2) assms(5) [of "i - LENGTH('a) * j"] assms(6) by auto
  qed (use assms(4) [OF f(1)] assms(6,8) in auto)
  moreover have "unat (result + bitops_ffsl tmp) = LENGTH('a) * j + ?f"
    using assms(6-9) by (subst unat_add_lem [THEN iffD1]) auto
  ultimately show ?thesis by simp
qed

lemma found_first_correct:
  assumes "long TYPE('a::len)" and "j < length m" and "unat (result :: 'a word) = LENGTH('a) * j" and "unat sz < LENGTH('a)"
    and "unat result + unat sz < 2 ^ LENGTH('a)"
  shows "unat (found_first (m ! j AND NOT (mask s)) sz result) = first_index (mbit m) (LENGTH('a) * j + s) (LENGTH('a) * j + unat sz)"
proof -
  let ?t = "(m ! j AND NOT (mask s)) AND mask (unat sz)"
  have t: "bit ?t i \<longleftrightarrow> bit (m ! j) i \<and> s \<le> i \<and> i < unat sz" for i
    using bit_from [of "m ! j" s i] by (auto simp: bit_and_iff bit_mask_iff dest: bit_imp_le_length)
  show ?thesis
  proof (cases "?t = 0")
    case True
    then have "\<not> bit ?t i" for i by (simp only: bit_0_eq bot_apply bot_bool_def not_False_eq_True)
    then have no: "\<not> (bit (m ! j) i \<and> s \<le> i \<and> i < unat sz)" for i using t by blast
    have "\<not> mbit m i" if "LENGTH('a) * j + s \<le> i" "i < LENGTH('a) * j + unat sz" for i
      using that no [of "i - LENGTH('a) * j"] mbit_in_word [of j i m] assms(2,4) by auto
    then have "first_index (mbit m) (LENGTH('a) * j + s) (LENGTH('a) * j + unat sz) = LENGTH('a) * j + unat sz"
      by (rule first_index_none)
    moreover have "unat (result + sz) = LENGTH('a) * j + unat sz" using assms(3,5) by (subst unat_add_lem [THEN iffD1]) auto
    ultimately show ?thesis using True assms(4) by (simp add: found_first_def low_ones)
  next
    case False
    then have "bit ?t (unat (bitops_ffsl ?t))" using bitops_ffsl_first [OF assms(1)] by blast
    then have "unat (bitops_ffsl ?t) < unat sz" using t by blast
    then have "unat (result + bitops_ffsl ?t) = first_index (mbit m) (LENGTH('a) * j + s) (LENGTH('a) * j + unat sz)"
      using assms(3-5) by (intro found_in_word [OF assms(1,2) False, where u = "unat sz"]) (auto simp: t)
    with False assms(4) show ?thesis by (simp add: found_first_def low_ones)
  qed
qed

lemma next_bit_loop_correct:
  assumes "long TYPE('a::len)" and "unat (result :: 'a word) = LENGTH('a) * j" and "unat result + unat sz \<le> LENGTH('a) * length m"
    and "unat result + unat sz < 2 ^ LENGTH('a)"
  shows "\<exists>r. next_bit_loop (drop j m) sz result = Some r \<and> unat r = first_index (mbit m) (unat result) (unat result + unat sz)"
  using assms(2-)
proof (induction "drop j m" arbitrary: j sz result)
  case Nil
  then have "LENGTH('a) * length m \<le> LENGTH('a) * j" by simp
  with Nil have "unat sz = 0" by linarith
  then have "sz = 0" by (simp add: unat_eq_zero)
  then have "next_bit_loop (drop j m) sz result = Some result" using Nil(1) by (simp flip: Nil(1))
  then show ?case using \<open>sz = 0\<close> by (auto intro!: first_index_none [symmetric])
next
  case (Cons w ps)
  have j: "j < length m" using Cons(2) by (metis drop_all list.distinct(1) not_le)
  have d: "drop j m = m ! j # drop (Suc j) m" using j by (simp add: Cons_nth_drop_Suc)
  show ?case
  proof (cases "unat sz < LENGTH('a)")
    case True
    show ?thesis
    proof (cases "sz = 0")
      case True
      then show ?thesis by (auto simp: d intro!: first_index_none [symmetric])
    next
      case False
      then show ?thesis
        using found_first_correct [OF assms(1) j Cons(3) True Cons(5), of 0] True
        by (simp add: d whole_words [OF assms(1)] Cons(3))
    qed
  next
    case False
    have l: "unat (sz - long_bits) = unat sz - LENGTH('a)"
      using False by (metis unat_sub unat_long_bits word_le_nat_alt not_less)
    have r: "unat (result + long_bits) = LENGTH('a) * Suc j"
      using False Cons(3,5) by (subst unat_add_lem [THEN iffD1]) (auto simp: unat_long_bits)
    show ?thesis
    proof (cases "m ! j = 0")
      case True
      have "\<exists>r. next_bit_loop (drop (Suc j) m) (sz - long_bits) (result + long_bits) = Some r \<and>
          unat r = first_index (mbit m) (unat (result + long_bits)) (unat (result + long_bits) + unat (sz - long_bits))"
        using Cons(2-) d False l r by (intro Cons(1)) auto
      moreover have "first_index (mbit m) (unat result) (unat result + unat sz) =
          first_index (mbit m) (unat result + LENGTH('a)) (unat result + unat sz)"
        using True j False Cons(3) by (intro first_index_skip) (auto simp: mbit_in_word)
      ultimately show ?thesis using True False l r Cons(3) by (simp add: d whole_words [OF assms(1)] add.commute)
    next
      case nz: False
      have "unat (result + bitops_ffsl (m ! j)) = first_index (mbit m) (LENGTH('a) * j + 0) (unat result + unat sz)"
        using False Cons(3-5) bitops_ffsl_first [OF assms(1) nz]
        by (intro found_in_word [OF assms(1) j nz, where u = "LENGTH('a)"]) (auto dest: bit_imp_le_length)
      with nz False Cons(3) show ?thesis by (simp add: d whole_words [OF assms(1)])
    qed
  qed
qed

lemma find_next_bit_correct:
  assumes "long TYPE('a::len)" and "unat (sz :: 'a word) \<le> LENGTH('a) * length m"
  shows "\<exists>r. find_next_bit m sz off = Some r \<and> unat r = first_index (mbit m) (unat off) (unat sz)"
proof (cases "sz \<le> off")
  case True
  then have "first_index (mbit m) (unat off) (unat sz) = unat sz"
    by (intro first_index_none) (simp add: word_le_nat_alt)
  with True show ?thesis by (simp add: find_next_bit_def)
next
  case False
  define j s where "j = unat off div LENGTH('a)" and "s = unat off mod LENGTH('a)"
  have o: "unat off = LENGTH('a) * j + s" "s < LENGTH('a)" by (simp_all add: j_def s_def)
  define result where "result = off AND NOT (long_bits - 1)"
  have r: "unat result = LENGTH('a) * j" by (simp add: result_def align_down [OF assms(1)] j_def)
  have lt: "unat off < unat sz" using False by (simp add: word_le_nat_alt)
  have "unat (sz - result) = unat sz - unat result" using r o lt by (intro unat_sub) (simp add: word_le_nat_alt)
  then have n: "unat result + unat (sz - result) = unat sz" using r o lt by simp
  have b: "unat sz < 2 ^ LENGTH('a)" by (rule unsigned_less)
  have j: "j < length m" using o lt assms(2) by (metis le_add1 le_less_trans less_le_trans nat_mult_less_cancel_disj)
  have d: "drop j m = m ! j # drop (Suc j) m" using j by (simp add: Cons_nth_drop_Suc)
  have nle: "\<not> sz \<le> off" using False .
  show ?thesis
  proof (cases "s = 0")
    case True
    then show ?thesis
      using next_bit_loop_correct [OF assms(1) r, of "sz - result" m] n assms(2) b nle o r
      by (simp add: find_next_bit_def Let_def result_def [symmetric] j_def [symmetric] s_def [symmetric])
  next
    case s: False
    let ?t = "m ! j AND NOT (mask s)"
    have e: "find_next_bit m sz off =
        (if sz - result < long_bits then Some (found_first ?t (sz - result) result)
         else if ?t \<noteq> 0 then Some (result + bitops_ffsl ?t)
         else next_bit_loop (drop (Suc j) m) (sz - result - long_bits) (result + long_bits))"
      using nle s by (simp add: find_next_bit_def Let_def result_def [symmetric] j_def [symmetric] s_def [symmetric] d)
    show ?thesis
    proof (cases "sz - result < long_bits")
      case True
      then have "unat (sz - result) < LENGTH('a)" by (simp add: word_less_nat_alt unat_long_bits)
      then show ?thesis
        using found_first_correct [OF assms(1) j r, of "sz - result" s] True n b o r by (simp add: e)
    next
      case big: False
      then have L: "LENGTH('a) \<le> unat (sz - result)" by (simp add: word_less_nat_alt unat_long_bits)
      show ?thesis
      proof (cases "?t = 0")
        case True
        have l: "unat (sz - result - long_bits) = unat (sz - result) - LENGTH('a)"
          using L by (metis unat_sub unat_long_bits word_le_nat_alt)
        have rl: "unat (result + long_bits) = LENGTH('a) * Suc j"
        proof -
          have "unat result + unat (long_bits :: 'a word) < 2 ^ LENGTH('a)" using L n b by (simp only: unat_long_bits)
          then show ?thesis by (subst unat_add_lem [THEN iffD1]) (simp_all add: unat_long_bits r)
        qed
        have "\<exists>x. next_bit_loop (drop (Suc j) m) (sz - result - long_bits) (result + long_bits) = Some x \<and>
            unat x = first_index (mbit m) (unat (result + long_bits)) (unat (result + long_bits) + unat (sz - result - long_bits))"
          using assms(2) l rl r n L b by (intro next_bit_loop_correct [OF assms(1)]) auto
        moreover have "unat (result + long_bits) + unat (sz - result - long_bits) = unat sz" using l rl r n L by simp
        moreover have "first_index (mbit m) (unat off) (unat sz) = first_index (mbit m) (LENGTH('a) * Suc j) (unat sz)"
        proof (rule first_index_skip)
          fix i assume i: "unat off \<le> i" "i < LENGTH('a) * Suc j"
          have "\<not> bit ?t (i - LENGTH('a) * j)" by (simp only: True bit_0_eq bot_apply bot_bool_def not_False_eq_True)
          then show "\<not> mbit m i" using i o mbit_in_word [of j i m] j bit_from [of "m ! j" s "i - LENGTH('a) * j"] by auto
        qed (use o r n L in auto)
        ultimately show ?thesis using True big rl by (simp add: e)
      next
        case nz: False
        have "unat (result + bitops_ffsl ?t) = first_index (mbit m) (LENGTH('a) * j + s) (unat sz)"
          using L n r b bitops_ffsl_first [OF assms(1) nz] bit_from [of "m ! j" s]
          by (intro found_in_word [OF assms(1) j nz, where u = "LENGTH('a)"]) auto
        with nz big o show ?thesis by (simp add: e)
      qed
    qed
  qed
qed

text \<open>A clear bit is a set bit of the complement, and the search for it is that search.\<close>

lemma zero_first_not:
  assumes "unat sz < LENGTH('a)"
  shows "zero_first tmp sz result = found_first (NOT (tmp :: 'a::len word)) sz result"
proof -
  have "NOT (tmp OR push_bit (unat sz) (NOT 0)) = NOT tmp AND mask (unat sz)"
    by (rule bit_word_eqI) (auto simp: bit_simps)
  moreover have "tmp OR push_bit (unat sz) (NOT 0) = NOT 0 \<longleftrightarrow> NOT (tmp OR push_bit (unat sz) (NOT 0)) = 0"
    by (metis bit.double_compl)
  ultimately show ?thesis using assms by (simp only: zero_first_def found_first_def ffz_def Let_def low_ones less_imp_le)
qed

lemma next_zero_loop_not:
  assumes "long TYPE('a::len)"
  shows "next_zero_loop p (sz :: 'a word) result = next_bit_loop (map NOT p) sz result"
  by (induction p arbitrary: sz result) (simp_all add: ffz_def zero_first_not whole_words [OF assms])

lemma find_next_zero_not:
  assumes "long TYPE('a::len)"
  shows "find_next_zero_bit m (sz :: 'a word) off = find_next_bit (map NOT m) sz off"
proof -
  have t: "NOT (w OR drop_bit (LENGTH('a) - s) (NOT 0)) = NOT w AND push_bit s (NOT 0)" if "s < LENGTH('a)" for w :: "'a word" and s
    using low_ones [of s, where 'a = 'a] that by (simp only: less_imp_le) simp
  show ?thesis
    by (auto simp: find_next_zero_bit_def find_next_bit_def Let_def next_zero_loop_not [OF assms] drop_map ffz_def t zero_first_not
        unat_long_bits word_less_nat_alt split: list.split)
qed

lemma mbit_not: "i < LENGTH('a) * length m \<Longrightarrow> mbit (map NOT m :: 'a::len word list) i \<longleftrightarrow> \<not> mbit m i"
  by (auto simp: mbit_def bit_not_iff less_mult_imp_div_less mult.commute)

lemma find_next_zero_correct:
  assumes "long TYPE('a::len)" and "unat (sz :: 'a word) \<le> LENGTH('a) * length m"
  shows "\<exists>r. find_next_zero_bit m sz off = Some r \<and> unat r = first_index (\<lambda>i. \<not> mbit m i) (unat off) (unat sz)"
proof -
  have "first_index (mbit (map NOT m)) (unat off) (unat sz) = first_index (\<lambda>i. \<not> mbit m i) (unat off) (unat sz)"
    using assms(2) by (intro first_index_cong) (auto simp: mbit_not)
  then show ?thesis using find_next_bit_correct [OF assms(1), of sz "map NOT m" off] assms by (simp add: find_next_zero_not)
qed

lemma last_bit_loop_correct:
  assumes "long TYPE('a::len)" and "k \<le> length m" and "LENGTH('a) * k < 2 ^ LENGTH('a)"
    and "LENGTH('a) * k \<le> n" and "\<And>i. LENGTH('a) * k \<le> i \<Longrightarrow> i < n \<Longrightarrow> \<not> mbit m i" and "unat (sz :: 'a word) = n"
  shows "\<exists>r. last_bit_loop k m sz = Some r \<and> unat r = last_index (mbit m) n"
  using assms(2-5)
proof (induction k)
  case 0
  then show ?case using assms(6) last_index_none [of n "mbit m"] by auto
next
  case (Suc k)
  then have k: "k < length m" by simp
  show ?case
  proof (cases "m ! k = 0")
    case True
    have "\<not> mbit m i" if "LENGTH('a) * k \<le> i" "i < n" for i
      using Suc(5) [of i] that k True mbit_in_word [of k i m] by (cases "i < LENGTH('a) * Suc k") auto
    with True k Suc show ?thesis by simp
  next
    case False
    let ?f = "unat (bitops_flsl (m ! k))"
    have f: "bit (m ! k) ?f" "\<forall>i > ?f. \<not> bit (m ! k) i" "?f < LENGTH('a)" using bitops_flsl_last [OF assms(1) False] by auto
    have "unat (of_nat k * long_bits :: 'a word) = LENGTH('a) * k"
      using Suc(3) unfolding long_bits_def of_nat_mult [symmetric] by (subst unat_small) (auto simp: mult.commute)
    then have "unat (of_nat k * long_bits + bitops_flsl (m ! k)) = LENGTH('a) * k + ?f"
      using f(3) Suc(3) by (subst unat_add_lem [THEN iffD1]) auto
    moreover have "last_index (mbit m) n = LENGTH('a) * k + ?f"
    proof (rule last_index_at)
      show "mbit m (LENGTH('a) * k + ?f)" using mbit_word [OF k f(3)] f(1) by simp
      fix i assume i: "LENGTH('a) * k + ?f < i" "i < n"
      show "\<not> mbit m i"
      proof (cases "i < LENGTH('a) * Suc k")
        case True
        then have "?f < i - LENGTH('a) * k" using i by linarith
        with True i f(2) k mbit_in_word [of k i m] show ?thesis by auto
      qed (use Suc(5) i in simp)
    qed (use f(3) Suc(4) in simp)
    ultimately show ?thesis using False k by simp
  qed
qed

lemma part_mod:
  assumes "long TYPE('a::len)"
  shows "unat ((sz :: 'a word) AND (long_bits - 1)) = unat sz mod LENGTH('a)"
proof -
  obtain k where k: "LENGTH('a) = 2 ^ k" using longD [OF assms] by blast
  have "long_bits - 1 = (mask k :: 'a word)" by (simp add: long_bits_def k mask_eq_exp_minus_1)
  then have "unat (sz AND (long_bits - 1)) = unat (take_bit k sz)" by (simp only: take_bit_eq_mask)
  also have "\<dots> = take_bit k (unat sz)" by (rule unsigned_take_bit_eq)
  also have "\<dots> = unat sz mod LENGTH('a)" by (simp only: take_bit_eq_mod k)
  finally show ?thesis .
qed

lemma find_last_bit_correct:
  assumes "long TYPE('a::len)" and "unat (sz :: 'a word) \<le> LENGTH('a) * length m"
  shows "\<exists>r. find_last_bit m sz = Some r \<and> unat r = last_index (mbit m) (unat sz)"
proof -
  define k s where "k = unat sz div LENGTH('a)" and "s = unat sz mod LENGTH('a)"
  have n: "unat sz = LENGTH('a) * k + s" "s < LENGTH('a)" by (simp_all add: k_def s_def)
  have u: "unat sz < 2 ^ LENGTH('a)" by (rule unsigned_less)
  then have b: "LENGTH('a) * k < 2 ^ LENGTH('a)" using n(1) by linarith
  have km: "k \<le> length m"
  proof (rule ccontr)
    assume "\<not> k \<le> length m"
    then have "LENGTH('a) * length m < LENGTH('a) * k" by simp
    with n(1) assms(2) show False by linarith
  qed
  show ?thesis
  proof (cases "s = 0")
    case True
    then show ?thesis
      using last_bit_loop_correct [OF assms(1) km b, of "unat sz" sz] n
      by (simp add: find_last_bit_def Let_def part_mod [OF assms(1)] k_def [symmetric] s_def [symmetric])
  next
    case s: False
    have kl: "k < length m"
    proof (rule ccontr)
      assume "\<not> k < length m"
      with km have "k = length m" by simp
      with n(1) s assms(2) show False by simp
    qed
    let ?t = "m ! k AND mask s"
    have t: "bit ?t i \<longleftrightarrow> bit (m ! k) i \<and> i < s" for i
      by (auto simp: bit_and_iff bit_mask_iff dest: bit_imp_le_length)
    have e: "find_last_bit m sz = (if ?t \<noteq> 0 then Some (of_nat k * long_bits + bitops_flsl ?t) else last_bit_loop k m sz)"
      using s kl n(2)
      by (simp add: find_last_bit_def Let_def part_mod [OF assms(1)] k_def [symmetric] s_def [symmetric] low_ones)
    show ?thesis
    proof (cases "?t = 0")
      case True
      have "\<not> mbit m i" if "LENGTH('a) * k \<le> i" "i < unat sz" for i
      proof -
        have "\<not> bit ?t (i - LENGTH('a) * k)" by (simp only: True bit_0_eq bot_apply bot_bool_def not_False_eq_True)
        moreover have "i < LENGTH('a) * k + LENGTH('a)" "i - LENGTH('a) * k < s" using that n by linarith+
        ultimately show ?thesis using t by (simp only: mbit_in_word [OF that(1) _ kl]) blast
      qed
      then show ?thesis
        using last_bit_loop_correct [OF assms(1) km b, of "unat sz" sz] n True by (simp add: e)
    next
      case False
      let ?f = "unat (bitops_flsl ?t)"
      have f: "bit ?t ?f" "\<forall>i > ?f. \<not> bit ?t i" using bitops_flsl_last [OF assms(1) False] by auto
      have fs: "bit (m ! k) ?f" "?f < s" using f(1) t by blast+
      have "unat (of_nat k * long_bits :: 'a word) = LENGTH('a) * k"
        using b unfolding long_bits_def of_nat_mult [symmetric] by (subst unat_small) (auto simp: mult.commute)
      then have "unat (of_nat k * long_bits + bitops_flsl ?t) = LENGTH('a) * k + ?f"
        using fs(2) n(1) u by (subst unat_add_lem [THEN iffD1]) linarith+
      moreover have "last_index (mbit m) (unat sz) = LENGTH('a) * k + ?f"
      proof (rule last_index_at)
        show "mbit m (LENGTH('a) * k + ?f)" using mbit_word [OF kl, of ?f] fs n(2) by simp
        fix i assume i: "LENGTH('a) * k + ?f < i" "i < unat sz"
        then have c: "LENGTH('a) * k \<le> i" "i < LENGTH('a) * k + LENGTH('a)" "?f < i - LENGTH('a) * k" "i - LENGTH('a) * k < s"
          using n by linarith+
        then show "\<not> mbit m i" using f(2) t by (simp only: mbit_in_word [OF c(1,2) kl]) blast
      qed (use fs(2) n(1) in simp)
      ultimately show ?thesis using False by (simp add: e)
    qed
  qed
qed

text \<open>C29: [bit_searches] On an array with at least \<open>sz\<close> bits, of either width, the search from an offset gives the first
  index from it at which the bit is set, or clear, and the search from the end the last one at which it is set; where there is
  none, each gives the size. None reads outside of the array.\<close>

theorem bit_searches:
  assumes "long TYPE('a::len)" and "unat (sz :: 'a word) \<le> LENGTH('a) * length m"
  shows "map_option unat (find_next_bit m sz off) = Some (first_index (mbit m) (unat off) (unat sz)) \<and>
    map_option unat (find_next_zero_bit m sz off) = Some (first_index (\<lambda>i. \<not> mbit m i) (unat off) (unat sz)) \<and>
    map_option unat (find_last_bit m sz) = Some (last_index (mbit m) (unat sz))"
  using find_next_bit_correct [OF assms, of off] find_next_zero_correct [OF assms, of off] find_last_bit_correct [OF assms]
  by auto

theorem bit_searches_witness:
  "map_option unat (find_next_bit [0x80000001, 0, 6 :: u32] 90 1) = Some 31 \<and>
   map_option unat (find_next_bit [0x80000001, 0, 6 :: u32] 90 32) = Some 65 \<and>
   map_option unat (find_next_zero_bit [0xFFFFFFFFFFFFFFFF, 0x1F :: u64] 128 3) = Some 69 \<and>
   map_option unat (find_last_bit [0x80000001, 0, 6 :: u32] 65) = Some 31"
proof -
  have l: "long TYPE(32)" "long TYPE(64)" by (simp_all add: long_def)
  have "first_index (mbit [0x80000001, 0, 6 :: u32]) 1 90 = 31" "first_index (mbit [0x80000001, 0, 6 :: u32]) 32 90 = 65"
    "last_index (mbit [0x80000001, 0, 6 :: u32]) 65 = 31" "first_index (\<lambda>i. \<not> mbit [0xFFFFFFFFFFFFFFFF, 0x1F :: u64] i) 3 128 = 69"
    by code_simp+
  then show ?thesis
    using bit_searches [OF l(1), of 90 "[0x80000001, 0, 6]" 1] bit_searches [OF l(1), of 90 "[0x80000001, 0, 6]" 32]
      bit_searches [OF l(1), of 65 "[0x80000001, 0, 6]" 0] bit_searches [OF l(2), of 128 "[0xFFFFFFFFFFFFFFFF, 0x1F]" 3]
    by simp
qed

subsection \<open>One bit, and the weight of a word\<close>

lemma bit_BIT_MASK: "bit (BIT_MASK nr :: 'a::len word) i \<longleftrightarrow> i = nr mod LENGTH('a)"
  by (auto simp: BIT_MASK_def bit_exp_iff)

lemma on_word_mbit:
  assumes "on_word nr f m = Some m'"
    and "\<And>i. i < LENGTH('a) \<Longrightarrow> bit (f (m ! (nr div LENGTH('a)) :: 'a::len word)) i \<longleftrightarrow>
      (if i = nr mod LENGTH('a) then v else bit (m ! (nr div LENGTH('a))) i)"
  shows "length m' = length m \<and> mbit m' i = (if i = nr then v else mbit m i)"
proof -
  have m': "nr div LENGTH('a) < length m" "m' = m[nr div LENGTH('a) := f (m ! (nr div LENGTH('a)))]"
    using assms(1) by (auto simp: on_word_def Let_def split: if_splits)
  have l: "length m' = length m" using m'(2) by simp
  show ?thesis
  proof (cases "i div LENGTH('a) = nr div LENGTH('a)")
    case True
    then have "i mod LENGTH('a) = nr mod LENGTH('a) \<longleftrightarrow> i = nr" by (metis mult_div_mod_eq)
    then show ?thesis using True l m' assms(2) [of "i mod LENGTH('a)"] by (simp add: mbit_def)
  next
    case False
    then have "i \<noteq> nr" by auto
    with False l m'(2) show ?thesis by (simp add: mbit_def)
  qed
qed

lemma BIT_MASK_and: "w AND BIT_MASK nr \<noteq> 0 \<longleftrightarrow> bit (w :: 'a::len word) (nr mod LENGTH('a))"
proof
  assume "w AND BIT_MASK nr \<noteq> 0"
  then obtain i where "bit (w AND BIT_MASK nr) i" by (auto simp: bit_eq_iff)
  then show "bit w (nr mod LENGTH('a))" by (auto simp: bit_and_iff bit_BIT_MASK)
next
  assume "bit w (nr mod LENGTH('a))"
  then have "bit (w AND BIT_MASK nr) (nr mod LENGTH('a))" by (simp add: bit_and_iff bit_BIT_MASK)
  then show "w AND BIT_MASK nr \<noteq> 0" by auto
qed

lemma test_bit_mbit: "nr div LENGTH('a) < length m \<Longrightarrow> test_bit nr (m :: 'a::len word list) = Some (mbit m nr)"
  using and_one_bit [of "drop_bit (nr mod LENGTH('a)) (m ! (nr div LENGTH('a)))"]
  by (simp add: test_bit_def mbit_def Let_def and.commute bit_drop_bit_eq)

lemma with_old_mbit:
  "nr div LENGTH('a) < length m \<Longrightarrow> with_old nr (m :: 'a::len word list) (Some m') = Some (m', mbit m nr)"
  by (simp add: with_old_def mbit_def BIT_MASK_and)

text \<open>[bit_operations] Setting, clearing and changing a bit of the array do that to the bit of the given number and to no
  other; the variants that test give the bit as it was.\<close>

theorem bit_operations:
  assumes "nr < LENGTH('a) * length m"
  shows "(\<exists>m'. set_bit_at nr (m :: 'a::len word list) = Some m' \<and> test_and_set_bit nr m = Some (m', mbit m nr) \<and>
      length m' = length m \<and> mbit m' = (mbit m)(nr := True)) \<and>
    (\<exists>m'. clear_bit nr m = Some m' \<and> test_and_clear_bit nr m = Some (m', mbit m nr) \<and>
      length m' = length m \<and> mbit m' = (mbit m)(nr := False)) \<and>
    (\<exists>m'. change_bit nr m = Some m' \<and> test_and_change_bit nr m = Some (m', mbit m nr) \<and>
      length m' = length m \<and> mbit m' = (mbit m)(nr := \<not> mbit m nr)) \<and>
    test_bit nr m = Some (mbit m nr)"
proof -
  have k: "nr div LENGTH('a) < length m" using assms by (simp add: less_mult_imp_div_less mult.commute)
  have o: "\<exists>m'. on_word nr f m = Some m' \<and> length m' = length m \<and> mbit m' = (mbit m)(nr := v)"
    if "\<And>i. i < LENGTH('a) \<Longrightarrow> bit (f (m ! (nr div LENGTH('a)))) i \<longleftrightarrow>
      (if i = nr mod LENGTH('a) then v else bit (m ! (nr div LENGTH('a))) i)" for f v
  proof -
    from k obtain m' where m': "on_word nr f m = Some m'" by (simp add: on_word_def Let_def)
    from on_word_mbit [OF this that] m' show ?thesis by (auto simp: fun_eq_iff)
  qed
  have mb: "mbit m nr = bit (m ! (nr div LENGTH('a))) (nr mod LENGTH('a))" using k by (simp add: mbit_def)
  have "\<exists>m'. on_word nr (\<lambda>w. w OR BIT_MASK nr) m = Some m' \<and> length m' = length m \<and> mbit m' = (mbit m)(nr := True)"
    by (rule o) (auto simp: bit_or_iff bit_BIT_MASK)
  moreover have "\<exists>m'. on_word nr (\<lambda>w. w AND NOT (BIT_MASK nr)) m = Some m' \<and> length m' = length m \<and>
      mbit m' = (mbit m)(nr := False)"
    by (rule o) (auto simp: bit_and_iff bit_not_iff bit_BIT_MASK)
  moreover have "\<exists>m'. on_word nr (\<lambda>w. w XOR BIT_MASK nr) m = Some m' \<and> length m' = length m \<and>
      mbit m' = (mbit m)(nr := \<not> mbit m nr)"
    by (rule o) (auto simp: bit_xor_iff bit_BIT_MASK mb)
  ultimately show ?thesis
    using k by (auto simp: set_bit_at_def clear_bit_def change_bit_def test_and_set_bit_def test_and_clear_bit_def
        test_and_change_bit_def with_old_mbit test_bit_mbit)
qed

theorem bit_operations_witness:
  "test_and_set_bit 40 [1, 2 :: u32] = Some ([1, 0x102], False) \<and> test_bit 33 [1, 2 :: u32] = Some True"
proof -
  have "set_bit_at 40 [1, 2 :: u32] = Some [1, 0x102]" "mbit [1, 2 :: u32] 40 = False" "mbit [1, 2 :: u32] 33 = True" by code_simp+
  then show ?thesis using bit_operations [of 40 "[1, 2 :: u32]"] bit_operations [of 33 "[1, 2 :: u32]"] by simp
qed

lemma bits_half: "{i. bit (w :: 'a::len word) i} = (if bit w 0 then {0} else {}) \<union> Suc ` {i. bit (drop_bit 1 w) i}"
  by (auto simp: bit_drop_bit_eq image_iff) (metis not0_implies_Suc)+

lemma hweight_from_card: "hweight_from w c = c + of_nat (card {i. bit (w :: 'a::len word) i})"
proof (induction w c rule: hweight_from.induct)
  case (1 w c)
  show ?case
  proof (cases "w = 0")
    case False
    have f: "finite {i. bit (drop_bit 1 w) i}" by (rule finite_subset [of _ "{..<LENGTH('a)}"]) (auto dest: bit_imp_le_length)
    have "card {i. bit w i} = (if bit w 0 then 1 else 0) + card {i. bit (drop_bit 1 w) i}"
      by (subst bits_half, subst card_Un_disjoint) (auto simp: f card_image)
    moreover have "w AND 1 = (if bit w 0 then 1 else 0)" by (simp add: and_one_eq bit_0 odd_iff_mod_2_eq_one)
    ultimately show ?thesis using 1 False by (subst hweight_from.simps) (simp add: add.assoc)
  qed (subst hweight_from.simps, simp add: bot_fun_def)
qed

lemma hweight_long_card: "hweight_long w = of_nat (card {i. bit (w :: 'a::len word) i})"
  by (simp add: hweight_long_def hweight_from_card)

end
