(* ===== verification/Bitmaps.thy ===== *)
theory Bitmaps
  imports BitSearch
begin

unbundle bit_operations_syntax

text \<open>
  Bitmaps of a given number of bits in arrays of \<^theory_text>\<open>unsigned long\<close>, \<^verbatim>\<open>bitmap.h\<close> and \<^verbatim>\<open>bitmap.c\<close>. A bitmap whose bits fit into one
  word is handled in line, a longer one by the loops of \<^verbatim>\<open>bitmap.c\<close>; the bits of the last word behind the given number
  may have any value. \<open>None\<close> stands for an access outside of an array, and for the search for an area also for not returning.
\<close>

section \<open>Sizes and masks\<close>

definition BITS_TO_LONGS :: "'a::len itself \<Rightarrow> nat \<Rightarrow> nat" where
  "BITS_TO_LONGS t nr = (nr + LENGTH('a) - 1) div LENGTH('a)"

definition BITMAP_LAST_WORD_MASK :: "nat \<Rightarrow> 'a::len word" where
  "BITMAP_LAST_WORD_MASK nbits = (if nbits mod LENGTH('a) \<noteq> 0 then push_bit (nbits mod LENGTH('a)) 1 - 1 else NOT 0)"

definition BITMAP_FIRST_WORD_MASK :: "nat \<Rightarrow> 'a::len word" where
  "BITMAP_FIRST_WORD_MASK start = push_bit (start mod LENGTH('a)) (NOT 0)"

definition small_nbits :: "'a::len itself \<Rightarrow> nat \<Rightarrow> bool" where
  "small_nbits t nbits \<longleftrightarrow> nbits \<le> LENGTH('a)"

text \<open>The first word of an array.\<close>

definition word0 :: "'a::len word list \<Rightarrow> 'a word option" where
  "word0 m = (case m of [] \<Rightarrow> None | w # _ \<Rightarrow> Some w)"

definition put_word0 :: "'a::len word \<Rightarrow> 'a word list \<Rightarrow> 'a word list option" where
  "put_word0 w m = (case m of [] \<Rightarrow> None | _ # ws \<Rightarrow> Some (w # ws))"

section \<open>Making, filling and copying\<close>

definition bitmap_new :: "nat \<Rightarrow> 'a::len word list" where
  "bitmap_new nbits = replicate (BITS_TO_LONGS TYPE('a) nbits) 0"

text \<open>\<^verbatim>\<open>memset\<close> and \<^verbatim>\<open>memcpy\<close> of whole words.\<close>

definition set_words :: "nat \<Rightarrow> 'a::len word \<Rightarrow> 'a word list \<Rightarrow> 'a word list option" where
  "set_words n w m = (if n \<le> length m then Some (replicate n w @ drop n m) else None)"

definition copy_words :: "nat \<Rightarrow> 'a::len word list \<Rightarrow> 'a word list \<Rightarrow> 'a word list option" where
  "copy_words n dst src = (if n \<le> length dst \<and> n \<le> length src then Some (take n src @ drop n dst) else None)"

definition bitmap_zero :: "'a::len word list \<Rightarrow> nat \<Rightarrow> 'a word list option" where
  "bitmap_zero dst nbits =
     (if small_nbits TYPE('a) nbits then put_word0 0 dst else set_words (BITS_TO_LONGS TYPE('a) nbits) 0 dst)"

definition bitmap_fill :: "'a::len word list \<Rightarrow> nat \<Rightarrow> 'a word list option" where
  "bitmap_fill dst nbits =
     (let nlongs = BITS_TO_LONGS TYPE('a) nbits
      in case (if small_nbits TYPE('a) nbits then Some dst else set_words (nlongs - 1) (NOT 0) dst) of
           None \<Rightarrow> None
         | Some d \<Rightarrow> if 0 < nlongs \<and> nlongs \<le> length d then Some (d[nlongs - 1 := BITMAP_LAST_WORD_MASK nbits]) else None)"

definition bitmap_copy :: "'a::len word list \<Rightarrow> 'a word list \<Rightarrow> nat \<Rightarrow> 'a word list option" where
  "bitmap_copy dst src nbits =
     (if small_nbits TYPE('a) nbits then Option.bind (word0 src) (\<lambda>w. put_word0 w dst)
      else copy_words (BITS_TO_LONGS TYPE('a) nbits) dst src)"

section \<open>Word by word\<close>

text \<open>The loops \<^verbatim>\<open>for (k = 0; k < nr; k++) dst[k] = bitmap1[k] op bitmap2[k]\<close>.\<close>

fun for_words :: "('a::len word \<Rightarrow> 'a word \<Rightarrow> 'a word) \<Rightarrow> nat \<Rightarrow> 'a word list \<Rightarrow> 'a word list \<Rightarrow> 'a word list \<Rightarrow> 'a word list option" where
  "for_words f 0 dst b1 b2 = Some dst"
| "for_words f (Suc n) (_ # dst) (x # b1) (y # b2) = map_option (Cons (f x y)) (for_words f n dst b1 b2)"
| "for_words f (Suc n) _ _ _ = None"

text \<open>Two of the loops collect the words they write, and return whether one is not zero.\<close>

fun for_words_result ::
  "('a::len word \<Rightarrow> 'a word \<Rightarrow> 'a word) \<Rightarrow> nat \<Rightarrow> 'a word \<Rightarrow> 'a word list \<Rightarrow> 'a word list \<Rightarrow> 'a word list \<Rightarrow> ('a word list \<times> bool) option" where
  "for_words_result f 0 result dst b1 b2 = Some (dst, result \<noteq> 0)"
| "for_words_result f (Suc n) result (_ # dst) (x # b1) (y # b2) =
     map_option (\<lambda>(d, r). (f x y # d, r)) (for_words_result f n (result OR f x y) dst b1 b2)"
| "for_words_result f (Suc n) result _ _ _ = None"

definition in_line :: "('a::len word \<Rightarrow> 'a word \<Rightarrow> 'a word) \<Rightarrow> 'a word list \<Rightarrow> 'a word list \<Rightarrow> 'a word list \<Rightarrow> ('a word list \<times> bool) option" where
  "in_line f dst b1 b2 =
     Option.bind (word0 b1) (\<lambda>x. Option.bind (word0 b2) (\<lambda>y. map_option (\<lambda>d. (d, f x y \<noteq> 0)) (put_word0 (f x y) dst)))"

definition slow_bitmap_and :: "'a::len word list \<Rightarrow> 'a word list \<Rightarrow> 'a word list \<Rightarrow> nat \<Rightarrow> ('a word list \<times> bool) option" where
  "slow_bitmap_and dst b1 b2 bits = for_words_result (\<lambda>x y. x AND y) (BITS_TO_LONGS TYPE('a) bits) 0 dst b1 b2"

definition slow_bitmap_andnot :: "'a::len word list \<Rightarrow> 'a word list \<Rightarrow> 'a word list \<Rightarrow> nat \<Rightarrow> ('a word list \<times> bool) option" where
  "slow_bitmap_andnot dst b1 b2 bits = for_words_result (\<lambda>x y. x AND NOT y) (BITS_TO_LONGS TYPE('a) bits) 0 dst b1 b2"

definition slow_bitmap_or :: "'a::len word list \<Rightarrow> 'a word list \<Rightarrow> 'a word list \<Rightarrow> nat \<Rightarrow> 'a word list option" where
  "slow_bitmap_or dst b1 b2 bits = for_words (\<lambda>x y. x OR y) (BITS_TO_LONGS TYPE('a) bits) dst b1 b2"

definition slow_bitmap_xor :: "'a::len word list \<Rightarrow> 'a word list \<Rightarrow> 'a word list \<Rightarrow> nat \<Rightarrow> 'a word list option" where
  "slow_bitmap_xor dst b1 b2 bits = for_words (\<lambda>x y. x XOR y) (BITS_TO_LONGS TYPE('a) bits) dst b1 b2"

definition bitmap_and :: "'a::len word list \<Rightarrow> 'a word list \<Rightarrow> 'a word list \<Rightarrow> nat \<Rightarrow> ('a word list \<times> bool) option" where
  "bitmap_and dst src1 src2 nbits =
     (if small_nbits TYPE('a) nbits then in_line (\<lambda>x y. x AND y) dst src1 src2 else slow_bitmap_and dst src1 src2 nbits)"

definition bitmap_andnot :: "'a::len word list \<Rightarrow> 'a word list \<Rightarrow> 'a word list \<Rightarrow> nat \<Rightarrow> ('a word list \<times> bool) option" where
  "bitmap_andnot dst src1 src2 nbits =
     (if small_nbits TYPE('a) nbits then in_line (\<lambda>x y. x AND NOT y) dst src1 src2 else slow_bitmap_andnot dst src1 src2 nbits)"

definition bitmap_or :: "'a::len word list \<Rightarrow> 'a word list \<Rightarrow> 'a word list \<Rightarrow> nat \<Rightarrow> 'a word list option" where
  "bitmap_or dst src1 src2 nbits =
     (if small_nbits TYPE('a) nbits then map_option fst (in_line (\<lambda>x y. x OR y) dst src1 src2) else slow_bitmap_or dst src1 src2 nbits)"

definition bitmap_xor :: "'a::len word list \<Rightarrow> 'a word list \<Rightarrow> 'a word list \<Rightarrow> nat \<Rightarrow> 'a word list option" where
  "bitmap_xor dst src1 src2 nbits =
     (if small_nbits TYPE('a) nbits then map_option fst (in_line (\<lambda>x y. x XOR y) dst src1 src2) else slow_bitmap_xor dst src1 src2 nbits)"

text \<open>The complement counts whole words, and masks the last one.\<close>

fun complement_words :: "nat \<Rightarrow> nat \<Rightarrow> 'a::len word list \<Rightarrow> 'a word list \<Rightarrow> 'a word list option" where
  "complement_words (Suc lim) bits (_ # dst) (x # src) = map_option (Cons (NOT x)) (complement_words lim bits dst src)"
| "complement_words (Suc lim) bits _ _ = None"
| "complement_words 0 bits dst src =
     (if bits mod LENGTH('a) \<noteq> 0
      then Option.bind (word0 src) (\<lambda>x. put_word0 (NOT x AND BITMAP_LAST_WORD_MASK bits) dst)
      else Some dst)"

definition slow_bitmap_complement :: "'a::len word list \<Rightarrow> 'a word list \<Rightarrow> nat \<Rightarrow> 'a word list option" where
  "slow_bitmap_complement dst src bits = complement_words (bits div LENGTH('a)) bits dst src"

definition bitmap_complement :: "'a::len word list \<Rightarrow> 'a word list \<Rightarrow> nat \<Rightarrow> 'a word list option" where
  "bitmap_complement dst src nbits =
     (if small_nbits TYPE('a) nbits then Option.bind (word0 src) (\<lambda>x. put_word0 (NOT x AND BITMAP_LAST_WORD_MASK nbits) dst)
      else slow_bitmap_complement dst src nbits)"

section \<open>Questions\<close>

text \<open>The loops that look for a word with a property among the whole words, and then at the masked last one. The word of two
  arrays is the pair of their words.\<close>

fun scan_words :: "('w \<Rightarrow> bool) \<Rightarrow> ('w \<Rightarrow> 'a::len word) \<Rightarrow> nat \<Rightarrow> nat \<Rightarrow> 'w list \<Rightarrow> bool option" where
  "scan_words hit lastw (Suc lim) bits (w # ws) = (if hit w then Some True else scan_words hit lastw lim bits ws)"
| "scan_words hit lastw (Suc lim) bits [] = None"
| "scan_words hit lastw 0 bits ws =
     (if bits mod LENGTH('a) \<noteq> 0
      then (case ws of [] \<Rightarrow> None | w # _ \<Rightarrow> Some (lastw w AND BITMAP_LAST_WORD_MASK bits \<noteq> 0))
      else Some False)"

definition slow_bitmap_empty :: "'a::len word list \<Rightarrow> nat \<Rightarrow> bool option" where
  "slow_bitmap_empty bitmap bits = map_option Not (scan_words (\<lambda>w. w \<noteq> 0) (\<lambda>w. w) (bits div LENGTH('a)) bits bitmap)"

definition slow_bitmap_full :: "'a::len word list \<Rightarrow> nat \<Rightarrow> bool option" where
  "slow_bitmap_full bitmap bits =
     map_option Not (scan_words (\<lambda>w. NOT w \<noteq> 0) (\<lambda>w. NOT w) (bits div LENGTH('a)) bits bitmap)"

definition slow_bitmap_equal :: "'a::len word list \<Rightarrow> 'a word list \<Rightarrow> nat \<Rightarrow> bool option" where
  "slow_bitmap_equal bitmap1 bitmap2 bits =
     map_option Not (scan_words (\<lambda>(x, y). x \<noteq> y) (\<lambda>(x, y). x XOR y) (bits div LENGTH('a)) bits (zip bitmap1 bitmap2))"

definition slow_bitmap_intersects :: "'a::len word list \<Rightarrow> 'a word list \<Rightarrow> nat \<Rightarrow> bool option" where
  "slow_bitmap_intersects bitmap1 bitmap2 bits =
     scan_words (\<lambda>(x, y). x AND y \<noteq> 0) (\<lambda>(x, y). x AND y) (bits div LENGTH('a)) bits (zip bitmap1 bitmap2)"

definition bitmap_empty :: "'a::len word list \<Rightarrow> nat \<Rightarrow> bool option" where
  "bitmap_empty src nbits =
     (if small_nbits TYPE('a) nbits then map_option (\<lambda>w. w AND BITMAP_LAST_WORD_MASK nbits = 0) (word0 src)
      else slow_bitmap_empty src nbits)"

definition bitmap_full :: "'a::len word list \<Rightarrow> nat \<Rightarrow> bool option" where
  "bitmap_full src nbits =
     (if small_nbits TYPE('a) nbits then map_option (\<lambda>w. NOT w AND BITMAP_LAST_WORD_MASK nbits = 0) (word0 src)
      else slow_bitmap_full src nbits)"

definition bitmap_equal :: "'a::len word list \<Rightarrow> 'a word list \<Rightarrow> nat \<Rightarrow> bool option" where
  "bitmap_equal src1 src2 nbits =
     (if small_nbits TYPE('a) nbits
      then Option.bind (word0 src1) (\<lambda>x. map_option (\<lambda>y. (x XOR y) AND BITMAP_LAST_WORD_MASK nbits = 0) (word0 src2))
      else slow_bitmap_equal src1 src2 nbits)"

definition bitmap_intersects :: "'a::len word list \<Rightarrow> 'a word list \<Rightarrow> nat \<Rightarrow> bool option" where
  "bitmap_intersects src1 src2 nbits =
     (if small_nbits TYPE('a) nbits
      then Option.bind (word0 src1) (\<lambda>x. map_option (\<lambda>y. (x AND y) AND BITMAP_LAST_WORD_MASK nbits \<noteq> 0) (word0 src2))
      else slow_bitmap_intersects src1 src2 nbits)"

section \<open>Ranges and areas\<close>

text \<open>The loop of \<^verbatim>\<open>bitmap_set\<close> and \<^verbatim>\<open>bitmap_clear\<close> over the words from the one of the first bit on. The numbers of bits are
  signed; the code does not reach the places where they would overflow unless the range itself does.\<close>

fun range_loop :: "('a::len word \<Rightarrow> 'a word \<Rightarrow> 'a word) \<Rightarrow> nat \<Rightarrow> int \<Rightarrow> int \<Rightarrow> 'a word \<Rightarrow> 'a word list \<Rightarrow> 'a word list option" where
  "range_loop op sz nr bits msk [] = (if nr - bits \<ge> 0 \<or> nr \<noteq> 0 then None else Some [])"
| "range_loop op sz nr bits msk (p # ps) =
     (if nr - bits \<ge> 0 then map_option (Cons (op p msk)) (range_loop op sz (nr - bits) (int LENGTH('a)) (NOT 0) ps)
      else if nr \<noteq> 0 then Some (op p (msk AND BITMAP_LAST_WORD_MASK sz) # ps)
      else Some (p # ps))"

definition on_range :: "('a::len word \<Rightarrow> 'a word \<Rightarrow> 'a word) \<Rightarrow> 'a word list \<Rightarrow> nat \<Rightarrow> nat \<Rightarrow> 'a word list option" where
  "on_range op m start nr =
     (let k = start div LENGTH('a) in
      if k \<le> length m
      then map_option (append (take k m))
        (range_loop op (start + nr) (int nr) (int (LENGTH('a) - start mod LENGTH('a))) (BITMAP_FIRST_WORD_MASK start) (drop k m))
      else None)"

definition bitmap_set :: "'a::len word list \<Rightarrow> nat \<Rightarrow> nat \<Rightarrow> 'a word list option" where
  "bitmap_set m start nr = on_range (\<lambda>p msk. p OR msk) m start nr"

definition bitmap_clear :: "'a::len word list \<Rightarrow> nat \<Rightarrow> nat \<Rightarrow> 'a word list option" where
  "bitmap_clear m start nr = on_range (\<lambda>p msk. p AND NOT msk) m start nr"

definition ALIGN_MASK :: "'a::len word \<Rightarrow> 'a word \<Rightarrow> 'a word" where
  "ALIGN_MASK x msk = (x + msk) AND NOT msk"

partial_function (option) bitmap_find_next_zero_area ::
  "'a::len word list \<Rightarrow> 'a word \<Rightarrow> 'a word \<Rightarrow> u32 \<Rightarrow> 'a word \<Rightarrow> 'a word option" where
  "bitmap_find_next_zero_area m sz start nr align_mask =
     Option.bind (find_next_zero_bit m sz start) (\<lambda>index0.
       let index = ALIGN_MASK index0 align_mask; end = index + ucast nr
       in if end > sz then Some end
          else Option.bind (find_next_bit m end index) (\<lambda>i.
            if i < end then bitmap_find_next_zero_area m sz (i + 1) nr align_mask
            else Some index))"

end
