(* ===== verification/BitmapLaws.thy ===== *)
theory BitmapLaws
  imports Bitmaps
begin

unbundle bit_operations_syntax

text \<open>
  What the operations on bitmaps do to the bits: the operations word by word and the questions, the unused bits of the last
  word, setting and clearing of ranges, and the search for an aligned free area.
\<close>

section \<open>What the operations do to the bits\<close>

lemma last_mask: "bit (BITMAP_LAST_WORD_MASK n :: 'a::len word) i \<longleftrightarrow> i < LENGTH('a) \<and> (n mod LENGTH('a) \<noteq> 0 \<longrightarrow> i < n mod LENGTH('a))"
proof (cases "n mod LENGTH('a) = 0")
  case False
  have "push_bit r 1 - 1 = (mask r :: 'a word)" for r by (simp add: mask_eq_exp_minus_1 push_bit_of_1)
  with False show ?thesis by (simp add: BITMAP_LAST_WORD_MASK_def bit_mask_iff)
qed (simp add: BITMAP_LAST_WORD_MASK_def)

lemma word_nonzero: "(w :: 'a::len word) \<noteq> 0 \<longleftrightarrow> (\<exists>i < LENGTH('a). bit w i)"
  by (auto simp: bit_eq_iff dest: bit_imp_le_length)

lemma last_word_bits:
  "(w :: 'a::len word) AND BITMAP_LAST_WORD_MASK n \<noteq> 0 \<longleftrightarrow>
     (\<exists>i < (if n mod LENGTH('a) = 0 then LENGTH('a) else n mod LENGTH('a)). bit w i)"
  by (auto simp: word_nonzero bit_and_iff last_mask intro: bit_imp_le_length dest: bit_imp_le_length)

lemma longs_less: "i < n \<Longrightarrow> i div LENGTH('a::len) < BITS_TO_LONGS TYPE('a) n"
proof -
  assume "i < n"
  then have "i \<le> n - 1" by simp
  then have "i div LENGTH('a) \<le> (n - 1) div LENGTH('a)" by (rule div_le_mono)
  also have "\<dots> < (n - 1 + LENGTH('a)) div LENGTH('a)" by (subst div_add_self2) simp_all
  finally show ?thesis using \<open>i < n\<close> by (simp add: BITS_TO_LONGS_def)
qed

lemma longs_le: "n \<le> LENGTH('a::len) * k \<Longrightarrow> BITS_TO_LONGS TYPE('a) n \<le> k"
proof -
  assume "n \<le> LENGTH('a) * k"
  moreover have "0 < LENGTH('a)" by (rule len_gt_0)
  ultimately have "n + LENGTH('a) - 1 < LENGTH('a) + LENGTH('a) * k" by linarith
  then have "n + LENGTH('a) - 1 < Suc k * LENGTH('a)" by (simp add: mult.commute)
  then show ?thesis unfolding BITS_TO_LONGS_def by (simp only: less_mult_imp_div_less less_Suc_eq_le [symmetric])
qed

lemma longs_small: "0 < n \<Longrightarrow> small_nbits TYPE('a::len) n \<Longrightarrow> BITS_TO_LONGS TYPE('a) n = Suc 0"
  unfolding small_nbits_def BITS_TO_LONGS_def by (rule div_nat_eqI) auto

subsection \<open>Word by word\<close>

lemma for_words_result_words:
  assumes "n \<le> length dst" and "n \<le> length b1" and "n \<le> length b2"
  shows "\<exists>d. for_words_result f n r dst b1 b2 = Some (d, r \<noteq> 0 \<or> (\<exists>k < n. f (b1 ! k) (b2 ! k) \<noteq> 0)) \<and> length d = length dst \<and>
    (\<forall>k < length dst. d ! k = (if k < n then f (b1 ! k) (b2 ! k) else dst ! k))"
  using assms
proof (induction f n r dst b1 b2 rule: for_words_result.induct)
  case (2 f n r e dst x b1 y b2)
  from 2 obtain d where d: "for_words_result f n (r OR f x y) dst b1 b2 = Some (d, r OR f x y \<noteq> 0 \<or> (\<exists>k < n. f (b1 ! k) (b2 ! k) \<noteq> 0))"
    "length d = length dst" "\<forall>k < length dst. d ! k = (if k < n then f (b1 ! k) (b2 ! k) else dst ! k)" by auto
  have "(r OR f x y \<noteq> 0 \<or> (\<exists>k < n. f (b1 ! k) (b2 ! k) \<noteq> 0)) = (r \<noteq> 0 \<or> (\<exists>k < Suc n. f ((x # b1) ! k) ((y # b2) ! k) \<noteq> 0))"
    by (auto simp: or_eq_0_iff less_Suc_eq_0_disj)
  with d show ?case by (auto simp: nth_Cons split: nat.splits)
qed auto

lemma for_words_fst: "for_words f n dst b1 b2 = map_option fst (for_words_result f n r dst b1 b2)"
proof (induction f n dst b1 b2 arbitrary: r rule: for_words.induct)
  case (2 f n e dst x b1 y b2)
  have "for_words f n dst b1 b2 = map_option fst (for_words_result f n (r OR f x y) dst b1 b2)" by (rule 2)
  then show ?case by (cases "for_words_result f n (r OR f x y) dst b1 b2") (auto split: prod.splits)
qed auto

lemma in_line_result: "in_line f dst b1 b2 = for_words_result f (Suc 0) 0 dst b1 b2"
  by (cases b1; cases b2; cases dst) (simp_all add: in_line_def word0_def put_word0_def)

text \<open>The bits of the result of a binary operation, and what it returns: the unused bits count too.\<close>

lemma for_words_bits:
  assumes "n \<le> LENGTH('a) * length dst" and "n \<le> LENGTH('a) * length b1" and "n \<le> LENGTH('a) * length (b2 :: 'a::len word list)"
    and "\<And>x y i. i < LENGTH('a) \<Longrightarrow> bit (f x y) i \<longleftrightarrow> F (bit x i) (bit y i)"
  shows "\<exists>d r. for_words_result f (BITS_TO_LONGS TYPE('a) n) 0 dst b1 b2 = Some (d, r) \<and> length d = length dst \<and>
    (\<forall>i < n. mbit d i = F (mbit b1 i) (mbit b2 i)) \<and>
    (r \<longleftrightarrow> (\<exists>i < LENGTH('a) * BITS_TO_LONGS TYPE('a) n. F (mbit b1 i) (mbit b2 i)))"
proof -
  let ?k = "BITS_TO_LONGS TYPE('a) n"
  have k: "?k \<le> length dst" "?k \<le> length b1" "?k \<le> length b2" using assms(1-3) by (simp_all add: longs_le)
  from for_words_result_words [OF this, of f 0] obtain d where
    d: "for_words_result f ?k 0 dst b1 b2 = Some (d, \<exists>j < ?k. f (b1 ! j) (b2 ! j) \<noteq> 0)" "length d = length dst"
    "\<forall>j < length dst. d ! j = (if j < ?k then f (b1 ! j) (b2 ! j) else dst ! j)" by auto
  have b: "mbit b1 i = bit (b1 ! (i div LENGTH('a))) (i mod LENGTH('a))" "mbit b2 i = bit (b2 ! (i div LENGTH('a))) (i mod LENGTH('a))"
    if "i div LENGTH('a) < ?k" for i
    using that k by (auto simp: mbit_def)
  have "mbit d i = F (mbit b1 i) (mbit b2 i)" if "i < n" for i
    using longs_less [OF that, where 'a = 'a] d(2,3) k assms(4) [of "i mod LENGTH('a)"] b [of i] by (simp add: mbit_def)
  moreover have "(\<exists>j < ?k. f (b1 ! j) (b2 ! j) \<noteq> 0) \<longleftrightarrow> (\<exists>i < LENGTH('a) * ?k. F (mbit b1 i) (mbit b2 i))"
  proof
    assume "\<exists>j < ?k. f (b1 ! j) (b2 ! j) \<noteq> 0"
    then obtain j i where ji: "j < ?k" "i < LENGTH('a)" "bit (f (b1 ! j) (b2 ! j)) i" unfolding word_nonzero by blast
    have "LENGTH('a) * j + i < LENGTH('a) * Suc j" using ji(2) by simp
    also have "\<dots> \<le> LENGTH('a) * ?k" using ji(1) by (intro mult_le_mono2) simp
    finally have "LENGTH('a) * j + i < LENGTH('a) * ?k" .
    moreover have "F (mbit b1 (LENGTH('a) * j + i)) (mbit b2 (LENGTH('a) * j + i))"
      using ji k assms(4) [OF ji(2)] by (simp add: mbit_word)
    ultimately show "\<exists>i < LENGTH('a) * ?k. F (mbit b1 i) (mbit b2 i)" by blast
  next
    assume "\<exists>i < LENGTH('a) * ?k. F (mbit b1 i) (mbit b2 i)"
    then obtain i where i: "i < LENGTH('a) * ?k" "F (mbit b1 i) (mbit b2 i)" by blast
    have j: "i div LENGTH('a) < ?k" using i(1) by (simp add: less_mult_imp_div_less mult.commute)
    then have "bit (f (b1 ! (i div LENGTH('a))) (b2 ! (i div LENGTH('a)))) (i mod LENGTH('a))"
      using i(2) b [OF j] assms(4) [of "i mod LENGTH('a)"] by simp
    with j show "\<exists>j < ?k. f (b1 ! j) (b2 ! j) \<noteq> 0" unfolding word_nonzero by (meson len_gt_0 mod_less_divisor)
  qed
  ultimately show ?thesis using d(1,2) by blast
qed

subsection \<open>The complement\<close>

lemma complement_words_bits:
  assumes "bits \<le> LENGTH('a) * length dst" and "bits \<le> LENGTH('a) * length (src :: 'a::len word list)" and "n mod LENGTH('a) = bits mod LENGTH('a)"
  shows "\<exists>d. complement_words (bits div LENGTH('a)) n dst src = Some d \<and> length d = length dst \<and> (\<forall>i < bits. mbit d i = (\<not> mbit src i))"
  using assms
proof (induction "bits div LENGTH('a)" arbitrary: bits dst src)
  case 0
  then have bl: "bits < LENGTH('a)" by (simp add: div_eq_0_iff)
  show ?case
  proof (cases "bits = 0")
    case True
    then show ?thesis using 0 by simp
  next
    case False
    then obtain e es x xs where l: "dst = e # es" "src = x # xs" using 0(2,3) by (cases dst; cases src) auto
    have "mbit ((NOT x AND BITMAP_LAST_WORD_MASK n) # es) i = (\<not> mbit (x # xs) i)" if "i < bits" for i
      using that bl 0(4) by (simp add: mbit_def bit_and_iff bit_not_iff last_mask)
    then show ?thesis using False bl 0(4) l by (simp add: 0(1) [symmetric] word0_def put_word0_def)
  qed
next
  case (Suc lim)
  then have "LENGTH('a) \<le> bits" by (metis div_less not_less zero_less_Suc less_irrefl)
  moreover from this obtain e es x xs where l: "dst = e # es" "src = x # xs" using Suc(3,4) by (cases dst; cases src) (auto dest: le_zero_eq [THEN iffD1])
  ultimately have "\<exists>d. complement_words ((bits - LENGTH('a)) div LENGTH('a)) n es xs = Some d \<and> length d = length es \<and>
      (\<forall>i < bits - LENGTH('a). mbit d i = (\<not> mbit xs i))"
    using Suc(2-5) by (intro Suc(1)) (auto simp: le_div_geq le_mod_geq)
  then obtain d where d: "complement_words lim n es xs = Some d" "length d = length es" "\<forall>i < bits - LENGTH('a). mbit d i = (\<not> mbit xs i)"
    using \<open>LENGTH('a) \<le> bits\<close> Suc(2) by (auto simp: le_div_geq)
  have "mbit (NOT x # d) i = (\<not> mbit (x # xs) i)" if "i < bits" for i
  proof (cases "i < LENGTH('a)")
    case True
    then show ?thesis by (simp add: mbit_def bit_not_iff)
  next
    case False
    then have "mbit (w # ws) i = mbit ws (i - LENGTH('a))" for w :: "'a word" and ws
      by (simp add: mbit_def le_div_geq le_mod_geq)
    then show ?thesis using d(3) that False by simp
  qed
  then show ?case using d Suc(2) l by (simp flip: Suc(2))
qed

lemma complement_small:
  "0 < n \<Longrightarrow> small_nbits TYPE('a) n \<Longrightarrow> n \<le> LENGTH('a) * length dst \<Longrightarrow> n \<le> LENGTH('a) * length (src :: 'a::len word list) \<Longrightarrow>
    \<exists>d. Option.bind (word0 src) (\<lambda>x. put_word0 (NOT x AND BITMAP_LAST_WORD_MASK n) dst) = Some d \<and> length d = length dst \<and>
      (\<forall>i < n. mbit d i = (\<not> mbit src i))"
proof -
  assume n: "0 < n" "small_nbits TYPE('a) n" "n \<le> LENGTH('a) * length dst" "n \<le> LENGTH('a) * length src"
  then obtain e es x xs where l: "dst = e # es" "src = x # xs" by (cases dst; cases src) auto
  have "mbit ((NOT x AND BITMAP_LAST_WORD_MASK n) # es) i = (\<not> mbit (x # xs) i)" if i: "i < n" for i
  proof -
    have "i < LENGTH('a)" "n mod LENGTH('a) \<noteq> 0 \<longrightarrow> i < n mod LENGTH('a)"
      using i n(2) by (auto simp: small_nbits_def le_less)
    then show ?thesis by (simp add: mbit_def bit_and_iff bit_not_iff last_mask)
  qed
  then show ?thesis by (simp add: l word0_def put_word0_def)
qed

text \<open>[bitmap_algebra] On arrays long enough for the bitmap, every bit of the result is the conjunction, difference,
  disjunction, exclusive disjunction or complement of the bits of the arguments, on both ways through the code.\<close>

theorem bitmap_algebra:
  assumes "0 < n" and "n \<le> LENGTH('a) * length dst" and "n \<le> LENGTH('a) * length a" and "n \<le> LENGTH('a) * length (b :: 'a::len word list)"
  shows "(\<exists>d r. bitmap_and dst a b n = Some (d, r) \<and> length d = length dst \<and> (\<forall>i < n. mbit d i = (mbit a i \<and> mbit b i))) \<and>
    (\<exists>d r. bitmap_andnot dst a b n = Some (d, r) \<and> length d = length dst \<and> (\<forall>i < n. mbit d i = (mbit a i \<and> \<not> mbit b i))) \<and>
    (\<exists>d. bitmap_or dst a b n = Some d \<and> length d = length dst \<and> (\<forall>i < n. mbit d i = (mbit a i \<or> mbit b i))) \<and>
    (\<exists>d. bitmap_xor dst a b n = Some d \<and> length d = length dst \<and> (\<forall>i < n. mbit d i = (mbit a i \<noteq> mbit b i))) \<and>
    (\<exists>d. bitmap_complement dst a n = Some d \<and> length d = length dst \<and> (\<forall>i < n. mbit d i = (\<not> mbit a i)))"
proof -
  note w = for_words_bits [OF assms(2-4)]
  have fst: "(if small_nbits TYPE('a) n then map_option fst (in_line f dst a b) else for_words f (BITS_TO_LONGS TYPE('a) n) dst a b)
      = map_option fst (for_words_result f (BITS_TO_LONGS TYPE('a) n) 0 dst a b)" for f
    using assms(1) for_words_fst [of f _ dst a b 0] by (auto simp: in_line_result longs_small)
  have eor: "bitmap_or dst a b n = map_option fst (for_words_result (\<lambda>x y. x OR y) (BITS_TO_LONGS TYPE('a) n) 0 dst a b)"
    and exor: "bitmap_xor dst a b n = map_option fst (for_words_result (\<lambda>x y. x XOR y) (BITS_TO_LONGS TYPE('a) n) 0 dst a b)"
    by (simp_all only: bitmap_or_def slow_bitmap_or_def bitmap_xor_def slow_bitmap_xor_def fst)
  have "\<exists>d. bitmap_complement dst a n = Some d \<and> length d = length dst \<and> (\<forall>i < n. mbit d i = (\<not> mbit a i))"
    using complement_small [OF assms(1) _ assms(2,3)] complement_words_bits [OF assms(2,3) refl]
    by (simp add: bitmap_complement_def slow_bitmap_complement_def)
  moreover have "\<exists>d r. bitmap_and dst a b n = Some (d, r) \<and> length d = length dst \<and> (\<forall>i < n. mbit d i = (mbit a i \<and> mbit b i))"
    using w [of "\<lambda>x y. x AND y" "(\<and>)"] by (auto simp: bitmap_and_def slow_bitmap_and_def in_line_result longs_small [OF assms(1)] bit_and_iff)
  moreover have "\<exists>d r. bitmap_andnot dst a b n = Some (d, r) \<and> length d = length dst \<and> (\<forall>i < n. mbit d i = (mbit a i \<and> \<not> mbit b i))"
    using w [of "\<lambda>x y. x AND NOT y" "\<lambda>p q. p \<and> \<not> q"]
    by (auto simp: bitmap_andnot_def slow_bitmap_andnot_def in_line_result longs_small [OF assms(1)] bit_and_iff bit_not_iff)
  moreover have "\<exists>d. bitmap_or dst a b n = Some d \<and> length d = length dst \<and> (\<forall>i < n. mbit d i = (mbit a i \<or> mbit b i))"
    using w [of "\<lambda>x y. x OR y" "(\<or>)"] by (auto simp: eor bit_or_iff)
  moreover have "\<exists>d. bitmap_xor dst a b n = Some d \<and> length d = length dst \<and> (\<forall>i < n. mbit d i = (mbit a i \<noteq> mbit b i))"
    using w [of "\<lambda>x y. x XOR y" "(\<noteq>)"] by (auto simp: exor bit_xor_iff)
  ultimately show ?thesis by blast
qed

theorem bitmap_algebra_witness:
  "\<exists>d. bitmap_xor [0, 0, 7] [1, 6, 9] [3, 2, 9 :: u32] 40 = Some d \<and> \<not> mbit d 0 \<and> mbit d 1 \<and> mbit d 34"
proof -
  obtain d where "bitmap_xor [0, 0, 7] [1, 6, 9] [3, 2, 9 :: u32] 40 = Some d" "\<forall>i < 40. mbit d i = (mbit [1, 6, 9 :: u32] i \<noteq> mbit [3, 2, 9 :: u32] i)"
    using bitmap_algebra [of 40 "[0, 0, 7 :: u32]" "[1, 6, 9]" "[3, 2, 9]"] by auto
  moreover have "mbit [1, 6, 9 :: u32] 0 = mbit [3, 2, 9 :: u32] 0" "mbit [1, 6, 9 :: u32] 1 \<noteq> mbit [3, 2, 9 :: u32] 1"
    "mbit [1, 6, 9 :: u32] 34 \<noteq> mbit [3, 2, 9 :: u32] 34" by code_simp+
  ultimately show ?thesis by auto
qed

text \<open>[bitmap_and_unused] The answer of \<^verbatim>\<open>bitmap_and\<close> depends on the unused bits of the last word: of two bitmaps of 40 bits
  with no bit in common it says that they have one.\<close>

theorem bitmap_and_unused:
  "bitmap_and [0, 0] [1, 0x102] [2, 0x104 :: u32] 40 = Some ([0, 0x100], True) \<and>
   bitmap_intersects [1, 0x102] [2, 0x104 :: u32] 40 = Some False"
  by code_simp

subsection \<open>Questions\<close>

lemma scan_words_bits:
  fixes lastw :: "'w \<Rightarrow> 'a::len word"
  assumes "\<And>w. hit w \<longleftrightarrow> (\<exists>i < LENGTH('a). bit (lastw w) i)" and "bits \<le> LENGTH('a) * length ws"
    and "n mod LENGTH('a) = bits mod LENGTH('a)"
  shows "scan_words hit lastw (bits div LENGTH('a)) n ws = Some (\<exists>i < bits. bit (lastw (ws ! (i div LENGTH('a)))) (i mod LENGTH('a)))"
  using assms(2,3)
proof (induction "bits div LENGTH('a)" arbitrary: bits ws)
  case 0
  then have bl: "bits < LENGTH('a)" by (simp add: div_eq_0_iff)
  show ?case
  proof (cases "bits = 0")
    case True
    then show ?thesis using 0 by simp
  next
    case False
    then obtain w ws' where l: "ws = w # ws'" using 0(2) by (cases ws) auto
    have "(\<exists>i < bits. bit (lastw w) i) \<longleftrightarrow> (\<exists>i < bits. bit (lastw (ws ! (i div LENGTH('a)))) (i mod LENGTH('a)))"
      using bl l by (intro ex_cong) auto
    then show ?thesis using False bl 0(3) l by (simp add: 0(1) [symmetric] last_word_bits)
  qed
next
  case (Suc lim)
  then have L: "LENGTH('a) \<le> bits" by (metis div_less not_less zero_less_Suc less_irrefl)
  with Suc(3) obtain w ws' where l: "ws = w # ws'" by (cases ws) auto
  have lim: "lim = (bits - LENGTH('a)) div LENGTH('a)" using Suc(2) L by (simp add: le_div_geq)
  have IH: "scan_words hit lastw lim n ws' = Some (\<exists>i < bits - LENGTH('a). bit (lastw (ws' ! (i div LENGTH('a)))) (i mod LENGTH('a)))"
    unfolding lim using Suc(3,4) L l by (intro Suc(1) [OF lim]) (auto simp: le_mod_geq)
  have "(\<exists>i < bits. bit (lastw (ws ! (i div LENGTH('a)))) (i mod LENGTH('a))) \<longleftrightarrow>
      hit w \<or> (\<exists>i < bits - LENGTH('a). bit (lastw (ws' ! (i div LENGTH('a)))) (i mod LENGTH('a)))" (is "?l = ?r")
  proof
    assume ?l
    then obtain i where i: "i < bits" "bit (lastw (ws ! (i div LENGTH('a)))) (i mod LENGTH('a))" by blast
    show ?r
    proof (cases "i < LENGTH('a)")
      case True
      with i l show ?thesis by (auto simp: assms(1))
    next
      case False
      with i l have "i - LENGTH('a) < bits - LENGTH('a)" "bit (lastw (ws' ! ((i - LENGTH('a)) div LENGTH('a)))) ((i - LENGTH('a)) mod LENGTH('a))"
        by (auto simp: le_div_geq le_mod_geq)
      then show ?thesis by blast
    qed
  next
    assume ?r
    then show ?l
    proof
      assume "hit w"
      then obtain i where i: "i < LENGTH('a)" "bit (lastw w) i" by (auto simp: assms(1))
      then show ?thesis using L l by (intro exI [of _ i]) auto
    next
      assume "\<exists>i < bits - LENGTH('a). bit (lastw (ws' ! (i div LENGTH('a)))) (i mod LENGTH('a))"
      then obtain i where i: "i < bits - LENGTH('a)" "bit (lastw (ws' ! (i div LENGTH('a)))) (i mod LENGTH('a))" by blast
      then show ?thesis using L l by (intro exI [of _ "i + LENGTH('a)"]) (auto simp: div_add_self2)
    qed
  qed
  then show ?case using IH l by (simp flip: Suc(2))
qed

lemma small_word_bits:
  assumes "0 < n" and "small_nbits TYPE('a) n"
  shows "(w :: 'a::len word) AND BITMAP_LAST_WORD_MASK n \<noteq> 0 \<longleftrightarrow> (\<exists>i < n. bit w i)"
  using assms by (cases "n = LENGTH('a)") (auto simp: last_word_bits small_nbits_def)

text \<open>[bitmap_questions] The questions about bitmaps are answered for their bits alone, whatever the unused bits of the
  last word are.\<close>

theorem bitmap_questions:
  assumes "0 < n" and "n \<le> LENGTH('a) * length a" and "n \<le> LENGTH('a) * length (b :: 'a::len word list)"
  shows "bitmap_empty a n = Some (\<forall>i < n. \<not> mbit a i) \<and> bitmap_full a n = Some (\<forall>i < n. mbit a i) \<and>
    bitmap_equal a b n = Some (\<forall>i < n. mbit a i = mbit b i) \<and> bitmap_intersects a b n = Some (\<exists>i < n. mbit a i \<and> mbit b i)"
proof -
  have m: "mbit a i = bit (a ! (i div LENGTH('a))) (i mod LENGTH('a))" "mbit b i = bit (b ! (i div LENGTH('a))) (i mod LENGTH('a))"
    "i div LENGTH('a) < length a" "i div LENGTH('a) < length b" if "i < n" for i
    using that assms(2,3) by (auto simp: mbit_def less_mult_imp_div_less mult.commute intro: less_le_trans)
  have z: "zip a b ! (i div LENGTH('a)) = (a ! (i div LENGTH('a)), b ! (i div LENGTH('a)))" if "i < n" for i
    using m [OF that] by simp
  have zl: "n \<le> LENGTH('a) * length (zip a b)" using assms(2,3) by (simp add: min_def)
  have u: "bitmap_empty a n = Some (\<forall>i < n. \<not> mbit a i) \<and> bitmap_full a n = Some (\<forall>i < n. mbit a i) \<and>
    bitmap_equal a b n = Some (\<forall>i < n. mbit a i = mbit b i) \<and> bitmap_intersects a b n = Some (\<exists>i < n. mbit a i \<and> mbit b i)"
    if "small_nbits TYPE('a) n"
  proof -
    obtain x xs y ys where l: "a = x # xs" "b = y # ys" using assms by (cases a; cases b) auto
    have "mbit a i = bit x i" "mbit b i = bit y i" if "i < n" for i
      using m(1,2) [OF that] l that \<open>small_nbits TYPE('a) n\<close> by (auto simp: small_nbits_def mbit_def dest: bit_imp_le_length)
    then show ?thesis
      using small_word_bits [OF assms(1) that, of x] small_word_bits [OF assms(1) that, of "NOT x"] small_word_bits [OF assms(1) that, of "x XOR y"]
        small_word_bits [OF assms(1) that, of "x AND y"] that l
      by (auto simp: bitmap_empty_def bitmap_full_def bitmap_equal_def bitmap_intersects_def word0_def bit_and_iff bit_xor_iff bit_not_iff
          small_nbits_def)
  qed
  show ?thesis
  proof (cases "small_nbits TYPE('a) n")
    case False
    have "slow_bitmap_empty a n = Some (\<forall>i < n. \<not> mbit a i)"
      using scan_words_bits [of "\<lambda>w. w \<noteq> 0" "\<lambda>w :: 'a word. w" n a n] assms(2) m by (auto simp: slow_bitmap_empty_def word_nonzero)
    moreover have "slow_bitmap_full a n = Some (\<forall>i < n. mbit a i)"
      using scan_words_bits [of "\<lambda>w. NOT w \<noteq> 0" "\<lambda>w :: 'a word. NOT w" n a n] assms(2) m
      by (auto simp: slow_bitmap_full_def word_nonzero bit_not_iff)
    moreover have "slow_bitmap_equal a b n = Some (\<forall>i < n. mbit a i = mbit b i)"
      using scan_words_bits [of "\<lambda>(x, y). x \<noteq> y" "\<lambda>(x, y :: 'a word). x XOR y" n "zip a b" n] zl m z
      by (auto simp: slow_bitmap_equal_def bit_xor_iff bit_eq_iff)
    moreover have "(\<exists>i < n. bit (case zip a b ! (i div LENGTH('a)) of (x, y) \<Rightarrow> x AND y) (i mod LENGTH('a))) =
        (\<exists>i < n. mbit a i \<and> mbit b i)"
      by (intro ex_cong conj_cong refl) (simp add: z m bit_and_iff)
    then have "slow_bitmap_intersects a b n = Some (\<exists>i < n. mbit a i \<and> mbit b i)"
      using scan_words_bits [of "\<lambda>(x, y). x AND y \<noteq> 0" "\<lambda>(x, y :: 'a word). x AND y" n "zip a b" n] zl
      by (simp add: slow_bitmap_intersects_def bit_and_iff word_nonzero split: prod.splits)
    ultimately show ?thesis using False by (simp add: bitmap_empty_def bitmap_full_def bitmap_equal_def bitmap_intersects_def)
  qed (rule u)
qed

theorem bitmap_questions_witness:
  "bitmap_equal [1, 0x105] [1, 0xFF05 :: u32] 40 = Some True \<and> bitmap_empty [0, 0xFF00 :: u32] 40 = Some True \<and>
   bitmap_intersects [1, 2] [2, 3 :: u64] 66 = Some True"
proof -
  have "list_all (\<lambda>i. mbit [1, 0x105 :: u32] i = mbit [1, 0xFF05 :: u32] i \<and> \<not> mbit [0, 0xFF00 :: u32] i) [0..<40]" by code_simp
  then have "\<forall>i < 40. mbit [1, 0x105 :: u32] i = mbit [1, 0xFF05 :: u32] i" "\<forall>i < 40. \<not> mbit [0, 0xFF00 :: u32] i"
    by (auto simp: list_all_iff)
  moreover have "mbit [1, 2 :: u64] 65" "mbit [2, 3 :: u64] 65" by code_simp+
  then have "\<exists>i < 66. mbit [1, 2 :: u64] i \<and> mbit [2, 3 :: u64] i" by (intro exI [of _ 65]) simp
  ultimately show ?thesis
    using bitmap_questions [of 40 "[1, 0x105 :: u32]" "[1, 0xFF05]"] bitmap_questions [of 40 "[0, 0xFF00 :: u32]" "[0, 0]"]
      bitmap_questions [of 66 "[1, 2 :: u64]" "[2, 3]"] by simp
qed

subsection \<open>Ranges\<close>

text \<open>An operation that gives the masked bits of a word the value \<open>v\<close>.\<close>

definition puts :: "('a::len word \<Rightarrow> 'a word \<Rightarrow> 'a word) \<Rightarrow> bool \<Rightarrow> bool" where
  "puts op v \<longleftrightarrow> (\<forall>p msk i. i < LENGTH('a) \<longrightarrow> bit (op p msk) i = (if bit msk i then v else bit p i))"

lemma putsD: "puts op v \<Longrightarrow> i < LENGTH('a) \<Longrightarrow> bit (op p msk) i = (if bit msk i then v else bit (p :: 'a::len word) i)"
  by (simp add: puts_def)

lemma mbit_Cons: "mbit (w # ws) i = (if i < LENGTH('a) then bit w i else mbit ws (i - LENGTH('a)))" for w :: "'a::len word"
  by (auto simp: mbit_def le_div_geq le_mod_geq not_less)

lemma range_loop_bits:
  fixes ps :: "'a::len word list"
  assumes "puts op v" and "s < LENGTH('a)" and "s + n \<le> LENGTH('a) * length ps" and "z mod LENGTH('a) = (s + n) mod LENGTH('a)"
  shows "\<exists>ps'. range_loop op z (int n) (int (LENGTH('a) - s)) (push_bit s (NOT 0)) ps = Some ps' \<and> length ps' = length ps \<and>
    (\<forall>i. mbit ps' i = (if s \<le> i \<and> i < s + n then v else mbit ps i))"
  using assms(2-)
proof (induction ps arbitrary: s n)
  case Nil
  then show ?case by simp
next
  case (Cons p ps)
  have m: "bit (push_bit s (NOT 0) :: 'a word) i \<longleftrightarrow> s \<le> i \<and> i < LENGTH('a)" for i
    by (auto simp: bit_push_bit_iff bit_not_iff bit_mask_iff)
  show ?case
  proof (cases "LENGTH('a) - s \<le> n")
    case True
    define n' where "n' = n - (LENGTH('a) - s)"
    have n: "s + n = LENGTH('a) + n'" using True Cons(2) by (simp add: n'_def)
    have "\<exists>ps'. range_loop op z (int n') (int (LENGTH('a) - 0)) (push_bit 0 (NOT 0)) ps = Some ps' \<and> length ps' = length ps \<and>
      (\<forall>i. mbit ps' i = (if 0 \<le> i \<and> i < 0 + n' then v else mbit ps i))"
      using Cons(3,4) n by (intro Cons(1)) auto
    then obtain ps' where ps': "range_loop op z (int n') (int LENGTH('a)) (NOT 0) ps = Some ps'" "length ps' = length ps"
      "\<forall>i. mbit ps' i = (if i < n' then v else mbit ps i)" by auto
    have "range_loop op z (int n) (int (LENGTH('a) - s)) (push_bit s (NOT 0)) (p # ps) = Some (op p (push_bit s (NOT 0)) # ps')"
      using ps'(1) True by (simp add: n'_def of_nat_diff)
    moreover have "mbit (op p (push_bit s (NOT 0)) # ps') i = (if s \<le> i \<and> i < s + n then v else mbit (p # ps) i)" for i
      using ps'(3) n Cons(2) putsD [OF assms(1), of i p "push_bit s (NOT 0)"] m [of i] by (auto simp: mbit_Cons)
    ultimately show ?thesis using ps'(2) by (intro exI [of _ "op p (push_bit s (NOT 0)) # ps'"]) simp
  next
    case False
    then have l: "s + n < LENGTH('a)" by simp
    show ?thesis
    proof (cases "n = 0")
      case True
      then show ?thesis using Cons(2) by auto
    next
      case nz: False
      let ?m = "push_bit s (NOT 0) AND BITMAP_LAST_WORD_MASK z :: 'a word"
      have b: "bit ?m i \<longleftrightarrow> s \<le> i \<and> i < s + n" for i
        using m [of i] l nz Cons(4) by (auto simp: bit_and_iff last_mask)
      have "range_loop op z (int n) (int (LENGTH('a) - s)) (push_bit s (NOT 0)) (p # ps) = Some (op p ?m # ps)"
        using False nz Cons(2) by (subst range_loop.simps) auto
      moreover have "mbit (op p ?m # ps) i = (if s \<le> i \<and> i < s + n then v else mbit (p # ps) i)" for i
        using putsD [OF assms(1), of i p ?m] b [of i] l by (auto simp: mbit_Cons)
      ultimately show ?thesis by (intro exI [of _ "op p ?m # ps"]) simp
    qed
  qed
qed

lemma mbit_append: "mbit (xs @ ys) i = (if i < LENGTH('a) * length xs then mbit xs i else mbit ys (i - LENGTH('a) * length xs))"
  for xs :: "'a::len word list"
proof (induction xs arbitrary: i)
  case (Cons x xs)
  then show ?case by (auto simp: mbit_Cons)
qed simp

lemma on_range_bits:
  assumes "puts op v" and "start + n \<le> LENGTH('a) * length (m :: 'a::len word list)"
  shows "\<exists>m'. on_range op m start n = Some m' \<and> length m' = length m \<and>
    (\<forall>i. mbit m' i = (if start \<le> i \<and> i < start + n then v else mbit m i))"
proof -
  define k s where "k = start div LENGTH('a)" and "s = start mod LENGTH('a)"
  have st: "start = LENGTH('a) * k + s" "s < LENGTH('a)" by (simp_all add: k_def s_def)
  have km: "k \<le> length m"
  proof (rule ccontr)
    assume "\<not> k \<le> length m"
    then have "LENGTH('a) * length m < LENGTH('a) * k" by simp
    with st(1) assms(2) show False by linarith
  qed
  have len: "s + n \<le> LENGTH('a) * length (drop k m)"
  proof -
    have "LENGTH('a) * length m = LENGTH('a) * k + LENGTH('a) * length (drop k m)"
      using km by (simp add: distrib_left [symmetric])
    with st(1) assms(2) show ?thesis by linarith
  qed
  have "(start + n) mod LENGTH('a) = (s + n) mod LENGTH('a)" by (simp add: s_def mod_simps)
  from range_loop_bits [OF assms(1) st(2) len this] obtain ps' where
    ps': "range_loop op (start + n) (int n) (int (LENGTH('a) - s)) (push_bit s (NOT 0)) (drop k m) = Some ps'"
    "length ps' = length (drop k m)" "\<forall>i. mbit ps' i = (if s \<le> i \<and> i < s + n then v else mbit (drop k m) i)" by blast
  have e: "on_range op m start n = Some (take k m @ ps')"
    using ps'(1) km by (simp add: on_range_def BITMAP_FIRST_WORD_MASK_def k_def [symmetric] s_def [symmetric])
  have "mbit (take k m @ ps') i = (if start \<le> i \<and> i < start + n then v else mbit (take k m @ drop k m) i)" for i
    using km ps'(3) st(1) unfolding mbit_append by (auto simp: min_def)
  with e ps'(2) km show ?thesis by (intro exI [of _ "take k m @ ps'"]) simp
qed

text \<open>[bitmap_ranges] Setting or clearing \<open>n\<close> bits from \<open>start\<close> gives exactly these bits the value; all others, of the same
  words too, stay as they are.\<close>

theorem bitmap_ranges:
  assumes "start + n \<le> LENGTH('a) * length (m :: 'a::len word list)"
  shows "(\<exists>m'. bitmap_set m start n = Some m' \<and> length m' = length m \<and>
      (\<forall>i. mbit m' i = (start \<le> i \<and> i < start + n \<or> mbit m i))) \<and>
    (\<exists>m'. bitmap_clear m start n = Some m' \<and> length m' = length m \<and>
      (\<forall>i. mbit m' i = (\<not> (start \<le> i \<and> i < start + n) \<and> mbit m i)))"
proof -
  have "puts (\<lambda>p msk. p OR msk :: 'a word) True" "puts (\<lambda>p msk. p AND NOT msk :: 'a word) False"
    by (auto simp: puts_def bit_or_iff bit_and_iff bit_not_iff)
  from this [THEN on_range_bits [OF _ assms]] show ?thesis
    by (auto simp: bitmap_set_def bitmap_clear_def)
qed

theorem bitmap_ranges_witness:
  "bitmap_set [0, 0, 0 :: u32] 30 40 = Some [0xC0000000, 0xFFFFFFFF, 0x3F] \<and>
   (\<exists>m'. bitmap_set [0, 0, 0 :: u32] 30 40 = Some m' \<and> \<not> mbit m' 29 \<and> mbit m' 30 \<and> mbit m' 69 \<and> \<not> mbit m' 70)"
proof -
  have "bitmap_set [0, 0, 0 :: u32] 30 40 = Some [0xC0000000, 0xFFFFFFFF, 0x3F]" by code_simp
  moreover have "\<not> mbit [0, 0, 0 :: u32] 29" "\<not> mbit [0, 0, 0 :: u32] 70" by code_simp+
  moreover obtain m' where "bitmap_set [0, 0, 0 :: u32] 30 40 = Some m'" "\<forall>i. mbit m' i = (30 \<le> i \<and> i < 30 + 40 \<or> mbit [0, 0, 0 :: u32] i)"
    using bitmap_ranges [of 30 40 "[0, 0, 0 :: u32]"] by auto
  ultimately show ?thesis by auto
qed

subsection \<open>The search for an area\<close>

text \<open>An aligned area of \<open>nr\<close> clear bits below \<open>n\<close>.\<close>

definition free_area :: "'a::len word list \<Rightarrow> nat \<Rightarrow> nat \<Rightarrow> nat \<Rightarrow> nat \<Rightarrow> bool" where
  "free_area m n nr al i \<longleftrightarrow> al dvd i \<and> i + nr \<le> n \<and> list_all (\<lambda>j. \<not> mbit m (i + j)) [0..<nr]"

lemma free_area_iff: "free_area m n nr al i \<longleftrightarrow> al dvd i \<and> i + nr \<le> n \<and> (\<forall>j < nr. \<not> mbit m (i + j))"
  by (auto simp: free_area_def list_all_iff)

lemma unat_align:
  assumes "msk = (mask k :: 'a::len word)" and "k < LENGTH('a)" and "unat x + unat msk < 2 ^ LENGTH('a)"
  shows "2 ^ k dvd unat (ALIGN_MASK x msk) \<and> unat x \<le> unat (ALIGN_MASK x msk) \<and> unat (ALIGN_MASK x msk) \<le> unat x + unat msk \<and>
    (\<forall>i. 2 ^ k dvd i \<longrightarrow> unat x \<le> i \<longrightarrow> unat (ALIGN_MASK x msk) \<le> i)"
proof -
  have "(2 :: nat) ^ k - 1 < 2 ^ LENGTH('a)"
    using power_strict_increasing [OF assms(2), of "2 :: nat"] by linarith
  then have mk: "unat msk = 2 ^ k - 1"
    using unat_small [of "2 ^ k - 1", where 'a = 'a] assms(1) by (simp add: mask_eq_exp_minus_1 of_nat_diff)
  have "unat (x + msk) = unat x + unat msk" using assms(3) by (subst unat_add_lem [THEN iffD1]) auto
  then have u: "unat (ALIGN_MASK x msk) = (unat x + unat msk) div 2 ^ k * 2 ^ k"
    by (simp add: ALIGN_MASK_def assms(1) and_not_mask)
  let ?d = "2 ^ k :: nat" and ?y = "unat x + unat msk"
  have y: "?y = ?y div ?d * ?d + ?y mod ?d" "?y mod ?d < ?d" by (simp_all only: div_mult_mod_eq) simp
  have d: "0 < ?d" by simp
  have "unat x \<le> ?y div ?d * ?d" using y mk d by linarith
  moreover have "?y div ?d * ?d \<le> i" if dv: "?d dvd i" and le: "unat x \<le> i" for i
  proof -
    obtain c where c: "i = ?d * c" using dv by (elim dvdE)
    have "?y < ?d + ?d * c" using le mk d c by linarith
    then have "?y < Suc c * ?d" by (simp only: mult_Suc mult.commute)
    then have "?y div ?d < Suc c" by (simp only: less_mult_imp_div_less)
    then show ?thesis using c by (simp add: mult.commute)
  qed
  ultimately show ?thesis by (simp add: u)
qed

lemma area_correct:
  assumes l: "long TYPE('a::len)" and al: "align_mask = (mask k :: 'a word)" "k < LENGTH('a)"
    and nr: "0 < nr" and len: "unat sz \<le> LENGTH('a) * length m" and room: "unat sz + unat nr + unat align_mask < 2 ^ LENGTH('a)"
  shows "\<exists>r. bitmap_find_next_zero_area m sz start nr align_mask = Some r \<and>
    (let q = first_index (free_area m (unat sz) (unat nr) (2 ^ k)) (unat start) (unat sz)
     in if q < unat sz then unat r = q else unat sz < unat r)"
proof (induction "unat sz - unat start" arbitrary: start rule: less_induct)
  case less
  let ?G = "free_area m (unat sz) (unat nr) (2 ^ k)"
  obtain x where x: "find_next_zero_bit m sz start = Some x" "unat x = first_index (\<lambda>i. \<not> mbit m i) (unat start) (unat sz)"
    using find_next_zero_correct [OF l len] by blast
  have xs: "unat x \<le> unat sz" unfolding x(2) by (rule first_index_le)
  define y where "y = ALIGN_MASK x align_mask"
  have y: "2 ^ k dvd unat y" "unat x \<le> unat y" "unat y \<le> unat x + unat align_mask" "\<And>i. 2 ^ k dvd i \<Longrightarrow> unat x \<le> i \<Longrightarrow> unat y \<le> i"
    using unat_align [OF al, of x] xs room by (auto simp: y_def)
  have pos: "0 < unat nr" using nr by (simp add: unat_gt_0)
  have un: "unat (ucast nr :: 'a word) = unat nr"
  proof -
    have "32 \<le> LENGTH('a)" using l by (auto simp: long_def)
    then have "(2 :: nat) ^ 32 \<le> 2 ^ LENGTH('a)" by (rule power_increasing) simp
    moreover have "unat nr < 2 ^ LENGTH(32)" by (rule unsigned_less)
    ultimately have "unat nr < 2 ^ LENGTH('a)" by simp
    then show ?thesis by (simp add: unsigned_ucast_eq take_bit_nat_eq_self_iff)
  qed
  define e where "e = y + ucast nr"
  have e: "unat e = unat y + unat nr" using xs y(3) room unfolding e_def un [symmetric]
    by (subst unat_add_lem [THEN iffD1]) (auto simp: un)
  have above: "unat y \<le> i" if "?G i" "unat start \<le> i" for i
  proof -
    have i: "\<not> mbit m i" "i < unat sz" "2 ^ k dvd i" using that(1) pos by (auto simp: free_area_iff dest: spec [of _ 0])
    have "unat x \<le> i"
    proof (rule ccontr)
      assume "\<not> unat x \<le> i"
      then show False using i that(2) x(2)
        by (cases rule: first_index_cases [of "unat start" "unat sz" "\<lambda>i. \<not> mbit m i"]) auto
    qed
    then show ?thesis by (rule y(4) [OF i(3)])
  qed
  have step: "bitmap_find_next_zero_area m sz start nr align_mask =
      (if e > sz then Some e else Option.bind (find_next_bit m e y) (\<lambda>i.
        if i < e then bitmap_find_next_zero_area m sz (i + 1) nr align_mask else Some y))"
    by (subst bitmap_find_next_zero_area.simps) (simp only: x(1) Option.bind.bind_lunit Let_def y_def e_def)
  show ?case
  proof (cases "e > sz")
    case True
    then have "\<not> ?G i" if "unat start \<le> i" "i < unat sz" for i
      using above [OF _ that(1)] e by (auto simp: free_area_iff word_less_nat_alt)
    then have "first_index ?G (unat start) (unat sz) = unat sz" by (rule first_index_none)
    with True step show ?thesis by (simp add: word_less_nat_alt)
  next
    case False
    then have es: "unat e \<le> unat sz" by (simp add: word_less_nat_alt)
    with len have "unat e \<le> LENGTH('a) * length m" by simp
    from find_next_bit_correct [OF l this] obtain i where
      i: "find_next_bit m e y = Some i" "unat i = first_index (mbit m) (unat y) (unat e)" by blast
    have st: "unat start \<le> unat y"
      using x(2) y(2) es e pos xs by (cases rule: first_index_cases [of "unat start" "unat sz" "\<lambda>i. \<not> mbit m i"]) auto
    show ?thesis
    proof (cases "i < e")
      case True
      then have lt: "unat i < unat e" by (simp add: word_less_nat_alt)
      then have hit: "mbit m (unat i)" "unat y \<le> unat i"
        using i(2) by (cases rule: first_index_cases [of "unat y" "unat e" "mbit m"]; simp)+
      have i1: "unat (i + 1) = Suc (unat i)"
      proof -
        have "unat e < 2 ^ LENGTH('a)" by (rule unsigned_less)
        with lt have "unat i + unat (1 :: 'a word) < 2 ^ LENGTH('a)" by (simp only: unat_1)
        then show ?thesis by (simp only: unat_add_lem [THEN iffD1] unat_1)
      qed
      have skip: "first_index ?G (unat start) (unat sz) = first_index ?G (unat (i + 1)) (unat sz)"
      proof (rule first_index_skip)
        fix g assume g: "unat start \<le> g" "g < unat (i + 1)"
        show "\<not> ?G g"
        proof
          assume G: "?G g"
          then have "unat y \<le> g" using above g(1) by blast
          then have "unat i - g < unat nr" "g + (unat i - g) = unat i" using lt e g(2) i1 by linarith+
          moreover have "\<forall>j < unat nr. \<not> mbit m (g + j)" using G by (simp add: free_area_iff)
          ultimately have "\<not> mbit m (g + (unat i - g))" by blast
          with \<open>g + (unat i - g) = unat i\<close> hit(1) show False by simp
        qed
      qed (use st hit(2) i1 lt es in auto)
      have "unat sz - unat (i + 1) < unat sz - unat start" using st hit(2) i1 lt es by linarith
      from less(1) [OF this] show ?thesis using step False True i(1) by (simp add: skip)
    next
      case stop: False
      then have "unat i = unat e" using i(2) first_index_le [of "mbit m" "unat y" "unat e"] by (simp add: word_less_nat_alt)
      then have clear: "\<not> mbit m j" if "unat y \<le> j" "j < unat e" for j
        using that i(2) by (cases rule: first_index_cases [of "unat y" "unat e" "mbit m"]) auto
      have "first_index ?G (unat start) (unat sz) = unat y"
      proof (rule first_index_at)
        show "?G (unat y)" using y(1) es e clear by (auto simp: free_area_iff)
        show "unat y < unat sz" using es e pos by simp
        fix g assume "unat start \<le> g" "g < unat y"
        then show "\<not> ?G g" using above by fastforce
      qed (rule st)
      with step False stop i(1) es e pos show ?thesis by simp
    qed
  qed
qed

text \<open>C31: [bitmap_area] The search for an area returns: with the first aligned position from \<open>start\<close> on at which \<open>nr\<close> bits are clear
  within the size, or with a number above the size when there is none.\<close>

theorem bitmap_area:
  assumes "long TYPE('a::len)" and "align_mask = (mask k :: 'a word)" and "k < LENGTH('a)" and "0 < nr"
    and "unat sz \<le> LENGTH('a) * length m" and "unat sz + unat nr + unat align_mask < 2 ^ LENGTH('a)"
  shows "\<exists>r. bitmap_find_next_zero_area m sz start nr align_mask = Some r \<and>
    (let q = first_index (free_area m (unat sz) (unat nr) (2 ^ k)) (unat start) (unat sz)
     in if q < unat sz then unat r = q else unat sz < unat r)"
  by (rule area_correct [OF assms])

theorem bitmap_area_witness:
  "\<exists>r. bitmap_find_next_zero_area [0x10F, 0x20, 0 :: u32] 96 0 24 7 = Some r \<and> unat r = 40"
proof -
  have "long TYPE(32)" "(7 :: u32) = mask 3" "(0 :: u32) < 24" by (simp_all add: long_def mask_numeral)
  moreover have "first_index (free_area [0x10F, 0x20, 0 :: u32] 96 24 8) 0 96 = 40" by code_simp
  ultimately show ?thesis using bitmap_area [of "7 :: u32" 3 24 96 "[0x10F, 0x20, 0]" 0] by simp
qed

subsection \<open>Making, filling and copying\<close>

text \<open>[bitmap_whole] A new or zeroed bitmap has no bit, a filled one has all its bits, and a copy has the bits of
  its source.\<close>

theorem bitmap_whole:
  assumes "0 < n" and "n \<le> LENGTH('a) * length (dst :: 'a::len word list)" and "n \<le> LENGTH('a) * length src"
  shows "(\<forall>i. \<not> mbit (bitmap_new n :: 'a word list) i) \<and> n \<le> LENGTH('a) * length (bitmap_new n :: 'a word list) \<and>
    (\<exists>d. bitmap_zero dst n = Some d \<and> length d = length dst \<and> (\<forall>i < n. \<not> mbit d i)) \<and>
    (\<exists>d. bitmap_fill dst n = Some d \<and> length d = length dst \<and> (\<forall>i < n. mbit d i)) \<and>
    (\<exists>d. bitmap_copy dst src n = Some d \<and> length d = length dst \<and> (\<forall>i < n. mbit d i = mbit src i))"
proof (intro conjI)
  let ?k = "BITS_TO_LONGS TYPE('a) n"
  have k: "?k \<le> length dst" "?k \<le> length src" using assms(2,3) by (simp_all add: longs_le)
  have kp: "0 < ?k" using longs_less [OF assms(1), where 'a = 'a] by simp
  have kw: "i div LENGTH('a) < ?k" if "i < n" for i using that by (rule longs_less)
  have w0: "put_word0 w dst = Some (replicate 1 w @ drop 1 dst)" for w
    using k(1) kp by (cases dst) (simp_all add: put_word0_def)
  show "\<forall>i. \<not> mbit (bitmap_new n :: 'a word list) i" by (simp add: bitmap_new_def mbit_def)
  have "(n - 1) div LENGTH('a) < ?k" by (rule kw) (use assms(1) in simp)
  then have "n - 1 < LENGTH('a) * ?k" by (simp add: div_less_iff_less_mult mult.commute)
  then show "n \<le> LENGTH('a) * length (bitmap_new n :: 'a word list)" by (simp add: bitmap_new_def)
  have "bitmap_zero dst n = Some (replicate ?k 0 @ drop ?k dst)"
    using w0 [of 0] k by (simp add: bitmap_zero_def set_words_def longs_small [OF assms(1)])
  then show "\<exists>d. bitmap_zero dst n = Some d \<and> length d = length dst \<and> (\<forall>i < n. \<not> mbit d i)"
    using k kw by (simp add: mbit_def nth_append)
  have "bitmap_copy dst src n = Some (take ?k src @ drop ?k dst)"
    using k kp by (cases src; cases dst) (auto simp: bitmap_copy_def copy_words_def longs_small [OF assms(1)] word0_def put_word0_def)
  moreover have "mbit (take ?k src @ drop ?k dst) i = mbit src i" if "i < n" for i
    using kw [OF that] k by (auto simp: mbit_def nth_append)
  ultimately show "\<exists>d. bitmap_copy dst src n = Some d \<and> length d = length dst \<and> (\<forall>i < n. mbit d i = mbit src i)"
    using k by auto
  let ?d = "replicate (?k - 1) (NOT 0) @ BITMAP_LAST_WORD_MASK n # drop ?k dst"
  have "bitmap_fill dst n = Some ?d"
  proof -
    have u: "(replicate (?k - 1) w @ drop (?k - 1) dst)[?k - 1 := x] = replicate (?k - 1) w @ x # drop ?k dst" for w x :: "'a word"
      using k(1) kp by (simp add: list_update_append Cons_nth_drop_Suc [symmetric])
    show ?thesis
    proof (cases "small_nbits TYPE('a) n")
      case True
      with assms(1) have "?k = 1" by (simp add: longs_small)
      with k(1) True show ?thesis by (cases dst) (simp_all add: bitmap_fill_def)
    next
      case False
      with k(1) kp show ?thesis unfolding u [symmetric] by (simp add: bitmap_fill_def set_words_def Let_def)
    qed
  qed
  moreover have "mbit ?d i" if "i < n" for i
  proof (cases "i div LENGTH('a) < ?k - 1")
    case True
    then show ?thesis by (simp add: mbit_def nth_append bit_not_iff)
  next
    case False
    with kw [OF that] have e: "i div LENGTH('a) = ?k - 1" by simp
    have "i mod LENGTH('a) < n mod LENGTH('a)" if r: "n mod LENGTH('a) \<noteq> 0"
    proof -
      have "LENGTH('a) * (n div LENGTH('a)) < n" 
        using r mult_div_mod_eq [of "LENGTH('a)" n] by linarith
      then have "n div LENGTH('a) < ?k" using kw [of "LENGTH('a) * (n div LENGTH('a))"] by simp
      with e \<open>i < n\<close> have "n div LENGTH('a) \<le> i div LENGTH('a)" by simp
      with \<open>i < n\<close> have "n div LENGTH('a) = i div LENGTH('a)" by (simp add: div_le_mono le_antisym)
      then show ?thesis using \<open>i < n\<close> by (metis div_mult_mod_eq nat_add_left_cancel_less)
    qed
    with e show ?thesis by (simp add: mbit_def nth_append last_mask)
  qed
  ultimately show "\<exists>d. bitmap_fill dst n = Some d \<and> length d = length dst \<and> (\<forall>i < n. mbit d i)"
    using k(1) kp by (intro exI [of _ ?d]) auto
qed

theorem bitmap_whole_witness: "\<exists>d. bitmap_fill [0, 0, 5 :: u32] 40 = Some d \<and> mbit d 39"
  using bitmap_whole [of 40 "[0, 0, 5 :: u32]" "[0, 0, 5]"] by auto

end
