(* ===== verification/Serial.thy ===== *)
theory Serial
  imports I8254 Fifo "HOL-Library.Signed_Division"
begin

unbundle bit_operations_syntax

text \<open>
  The serial port, a 16550A, \<^verbatim>\<open>hw/serial.c\<close>. Time and the answers of the character device behind the port are arguments,
  in a \<open>serial_env\<close>; what the port asks of the character device is a log. A timer is the time it is armed for.
  \<open>None\<close> is a division by zero in the computation of the transmission time.
\<close>

section \<open>Registers\<close>

abbreviation (input) UART_LCR_DLAB :: u8 where "UART_LCR_DLAB \<equiv> 0x80"
abbreviation (input) UART_IER_MSI :: u8 where "UART_IER_MSI \<equiv> 0x08"
abbreviation (input) UART_IER_RLSI :: u8 where "UART_IER_RLSI \<equiv> 0x04"
abbreviation (input) UART_IER_THRI :: u8 where "UART_IER_THRI \<equiv> 0x02"
abbreviation (input) UART_IER_RDI :: u8 where "UART_IER_RDI \<equiv> 0x01"
abbreviation (input) UART_IIR_NO_INT :: u8 where "UART_IIR_NO_INT \<equiv> 0x01"
abbreviation (input) UART_IIR_ID :: u8 where "UART_IIR_ID \<equiv> 0x06"
abbreviation (input) UART_IIR_MSI :: u8 where "UART_IIR_MSI \<equiv> 0x00"
abbreviation (input) UART_IIR_THRI :: u8 where "UART_IIR_THRI \<equiv> 0x02"
abbreviation (input) UART_IIR_RDI :: u8 where "UART_IIR_RDI \<equiv> 0x04"
abbreviation (input) UART_IIR_RLSI :: u8 where "UART_IIR_RLSI \<equiv> 0x06"
abbreviation (input) UART_IIR_CTI :: u8 where "UART_IIR_CTI \<equiv> 0x0C"
abbreviation (input) UART_IIR_FE :: u8 where "UART_IIR_FE \<equiv> 0xC0"
abbreviation (input) UART_MCR_LOOP :: u8 where "UART_MCR_LOOP \<equiv> 0x10"
abbreviation (input) UART_MCR_OUT2 :: u8 where "UART_MCR_OUT2 \<equiv> 0x08"
abbreviation (input) UART_MSR_DCD :: u8 where "UART_MSR_DCD \<equiv> 0x80"
abbreviation (input) UART_MSR_RI :: u8 where "UART_MSR_RI \<equiv> 0x40"
abbreviation (input) UART_MSR_DSR :: u8 where "UART_MSR_DSR \<equiv> 0x20"
abbreviation (input) UART_MSR_CTS :: u8 where "UART_MSR_CTS \<equiv> 0x10"
abbreviation (input) UART_MSR_TERI :: u8 where "UART_MSR_TERI \<equiv> 0x04"
abbreviation (input) UART_MSR_ANY_DELTA :: u8 where "UART_MSR_ANY_DELTA \<equiv> 0x0F"
abbreviation (input) UART_LSR_TEMT :: u8 where "UART_LSR_TEMT \<equiv> 0x40"
abbreviation (input) UART_LSR_THRE :: u8 where "UART_LSR_THRE \<equiv> 0x20"
abbreviation (input) UART_LSR_BI :: u8 where "UART_LSR_BI \<equiv> 0x10"
abbreviation (input) UART_LSR_OE :: u8 where "UART_LSR_OE \<equiv> 0x02"
abbreviation (input) UART_LSR_DR :: u8 where "UART_LSR_DR \<equiv> 0x01"
abbreviation (input) UART_LSR_INT_ANY :: u8 where "UART_LSR_INT_ANY \<equiv> 0x1E"
abbreviation (input) UART_FCR_XFR :: u8 where "UART_FCR_XFR \<equiv> 0x04"
abbreviation (input) UART_FCR_RFR :: u8 where "UART_FCR_RFR \<equiv> 0x02"
abbreviation (input) UART_FCR_FE :: u8 where "UART_FCR_FE \<equiv> 0x01"

definition UART_FIFO_LENGTH :: nat where "UART_FIFO_LENGTH = 16"
definition XMIT_FIFO :: nat where "XMIT_FIFO = 0"
definition RECV_FIFO :: nat where "RECV_FIFO = 1"
definition MAX_XMIT_RETRY :: int where "MAX_XMIT_RETRY = 4"

abbreviation (input) CHR_TIOCM_CTS :: u32 where "CHR_TIOCM_CTS \<equiv> 0x020"
abbreviation (input) CHR_TIOCM_CAR :: u32 where "CHR_TIOCM_CAR \<equiv> 0x040"
abbreviation (input) CHR_TIOCM_DSR :: u32 where "CHR_TIOCM_DSR \<equiv> 0x100"
abbreviation (input) CHR_TIOCM_RI :: u32 where "CHR_TIOCM_RI \<equiv> 0x080"
abbreviation (input) CHR_TIOCM_DTR :: u32 where "CHR_TIOCM_DTR \<equiv> 0x002"
abbreviation (input) CHR_TIOCM_RTS :: u32 where "CHR_TIOCM_RTS \<equiv> 0x004"

record SerialFIFO =
  f_data :: "u8 list"
  f_count :: nat
  f_itl :: nat
  f_tail :: nat
  f_head :: nat

datatype serial_call =
    Set_params int char int int
  | Set_break bool
  | Set_tiocm u32
  | Chr_write u8 bool
  | Accept_input
  | Wakeup_request

record SerialState =
  divider :: u16
  rbr :: u8
  thr :: u8
  tsr :: u8
  ier :: u8
  iir :: u8
  lcr :: u8
  mcr :: u8
  lsr :: u8
  msr :: u8
  scr :: u8
  fcr :: u8
  fcr_vmstate :: u8
  thr_ipending :: bool
  uart_irq :: bool
  last_break_enable :: bool
  it_shift :: nat
  baudbase :: int
  tsr_retry :: int
  wakeup :: bool
  last_xmit_ts :: u64
  recv_fifo :: SerialFIFO
  xmit_fifo :: SerialFIFO
  fifo_timeout_timer :: "u64 option"
  timeout_ipending :: bool
  transmit_timer :: "u64 option"
  char_transmit_time :: u64
  poll_msl :: int
  modem_status_poll :: "u64 option"
  serial_calls :: "serial_call list"

text \<open>The time, whether the character device takes a byte, and its modem lines; \<open>None\<close> when it has none, and then the
  variable that would hold them keeps the value \<open>env_stale\<close> it happens to have.\<close>

record serial_env =
  env_now :: u64
  env_write_ok :: bool
  env_tiocm :: "u32 option"
  env_stale :: u32

definition serial_call :: "serial_call \<Rightarrow> SerialState \<Rightarrow> SerialState" where
  "serial_call c s = s\<lparr>serial_calls := serial_calls s @ [c]\<rparr>"

definition ticks_per_sec :: int where
  "ticks_per_sec = uint get_ticks_per_sec"

section \<open>The two queues\<close>

definition the_fifo :: "nat \<Rightarrow> SerialState \<Rightarrow> SerialFIFO" where
  "the_fifo fifo s = (if fifo \<noteq> 0 then recv_fifo s else xmit_fifo s)"

definition set_fifo :: "nat \<Rightarrow> SerialFIFO \<Rightarrow> SerialState \<Rightarrow> SerialState" where
  "set_fifo fifo f s = (if fifo \<noteq> 0 then s\<lparr>recv_fifo := f\<rparr> else s\<lparr>xmit_fifo := f\<rparr>)"

definition fifo_clear :: "nat \<Rightarrow> SerialState \<Rightarrow> SerialState" where
  "fifo_clear fifo s =
     set_fifo fifo ((the_fifo fifo s)\<lparr>f_data := replicate UART_FIFO_LENGTH 0, f_count := 0, f_head := 0, f_tail := 0\<rparr>) s"

definition fifo_put :: "nat \<Rightarrow> u8 \<Rightarrow> SerialState \<Rightarrow> SerialState" where
  "fifo_put fifo chr s =
     (let f = the_fifo fifo s;
          f1 = (if fifo = XMIT_FIFO \<or> f_count f < UART_FIFO_LENGTH
                then f\<lparr>f_data := (f_data f)[f_head f := chr],
                       f_head := (if f_head f + 1 = UART_FIFO_LENGTH then 0 else f_head f + 1)\<rparr>
                else f)
      in if f_count f1 < UART_FIFO_LENGTH then set_fifo fifo (f1\<lparr>f_count := f_count f1 + 1\<rparr>) s
         else if fifo = RECV_FIFO then (set_fifo fifo f1 s)\<lparr>lsr := lsr s OR UART_LSR_OE\<rparr>
         else set_fifo fifo f1 s)"

definition fifo_get :: "nat \<Rightarrow> SerialState \<Rightarrow> u8 \<times> SerialState" where
  "fifo_get fifo s =
     (let f = the_fifo fifo s in
      if f_count f = 0 then (0, s)
      else (f_data f ! f_tail f,
        set_fifo fifo (f\<lparr>f_tail := (if f_tail f + 1 = UART_FIFO_LENGTH then 0 else f_tail f + 1),
          f_count := f_count f - 1\<rparr>) s))"

section \<open>Interrupts and parameters\<close>

definition serial_update_irq :: "SerialState \<Rightarrow> SerialState" where
  "serial_update_irq s =
     (let tmp_iir =
        (if ier s AND UART_IER_RLSI \<noteq> 0 \<and> lsr s AND UART_LSR_INT_ANY \<noteq> 0 then UART_IIR_RLSI
         else if ier s AND UART_IER_RDI \<noteq> 0 \<and> timeout_ipending s then UART_IIR_CTI
         else if ier s AND UART_IER_RDI \<noteq> 0 \<and> lsr s AND UART_LSR_DR \<noteq> 0 \<and>
              (fcr s AND UART_FCR_FE = 0 \<or> f_count (recv_fifo s) \<ge> f_itl (recv_fifo s)) then UART_IIR_RDI
         else if ier s AND UART_IER_THRI \<noteq> 0 \<and> thr_ipending s then UART_IIR_THRI
         else if ier s AND UART_IER_MSI \<noteq> 0 \<and> msr s AND UART_MSR_ANY_DELTA \<noteq> 0 then UART_IIR_MSI
         else UART_IIR_NO_INT)
      in s\<lparr>iir := tmp_iir OR (iir s AND 0xF0), uart_irq := (tmp_iir \<noteq> UART_IIR_NO_INT)\<rparr>)"

definition serial_update_parameters :: "SerialState \<Rightarrow> SerialState option" where
  "serial_update_parameters s =
     (if divider s = 0 then Some s
      else
        let parity = (if lcr s AND 0x08 \<noteq> 0 then (if lcr s AND 0x10 \<noteq> 0 then CHR ''E'' else CHR ''O'') else CHR ''N'');
            stop_bits = (if lcr s AND 0x04 \<noteq> 0 then 2 else 1);
            data_bits = uint (lcr s AND 0x03) + 5;
            frame_size = 1 + (if lcr s AND 0x08 \<noteq> 0 then 1 else 0) + data_bits + stop_bits;
            speed = baudbase s sdiv uint (divider s)
        in if speed = 0 then None
           else Some (serial_call (Set_params speed parity data_bits stop_bits)
             (s\<lparr>char_transmit_time := word_of_int ((ticks_per_sec sdiv speed) * frame_size)\<rparr>)))"

definition put_line :: "bool \<Rightarrow> u8 \<Rightarrow> u8 \<Rightarrow> u8" where
  "put_line b m v = (if b then v OR m else v AND NOT m)"

text \<open>The modem lines as the status register shows them, with the bits that tell of a change.\<close>

definition msr_lines :: "u32 \<Rightarrow> u8 \<Rightarrow> u8" where
  "msr_lines flags omsr =
     put_line (flags AND CHR_TIOCM_RI \<noteq> 0) UART_MSR_RI
       (put_line (flags AND CHR_TIOCM_CAR \<noteq> 0) UART_MSR_DCD
         (put_line (flags AND CHR_TIOCM_DSR \<noteq> 0) UART_MSR_DSR
           (put_line (flags AND CHR_TIOCM_CTS \<noteq> 0) UART_MSR_CTS omsr)))"

definition msr_deltas :: "u8 \<Rightarrow> u8 \<Rightarrow> u8" where
  "msr_deltas omsr m =
     (let m1 = m OR (drop_bit 4 m XOR drop_bit 4 omsr)
      in if m1 AND UART_MSR_TERI \<noteq> 0 \<and> omsr AND UART_MSR_RI = 0 then m1 AND NOT UART_MSR_TERI else m1)"

definition serial_update_msl :: "serial_env \<Rightarrow> SerialState \<Rightarrow> SerialState" where
  "serial_update_msl e s =
     (let s1 = s\<lparr>modem_status_poll := None\<rparr> in
      case env_tiocm e of
        None \<Rightarrow> s1\<lparr>poll_msl := - 1\<rparr>
      | Some flags \<Rightarrow>
          let m = msr_lines flags (msr s);
              s2 = (if m \<noteq> msr s then serial_update_irq (s1\<lparr>msr := msr_deltas (msr s) m\<rparr>) else s1)
          in if poll_msl s2 \<noteq> 0
             then s2\<lparr>modem_status_poll := Some (env_now e + word_of_int (ticks_per_sec sdiv 100))\<rparr>
             else s2)"

section \<open>Receiving\<close>

definition serial_can_receive :: "SerialState \<Rightarrow> nat" where
  "serial_can_receive s =
     (if fcr s AND UART_FCR_FE \<noteq> 0
      then (if f_count (recv_fifo s) < UART_FIFO_LENGTH
            then (if f_count (recv_fifo s) \<le> f_itl (recv_fifo s) then f_itl (recv_fifo s) - f_count (recv_fifo s) else 1)
            else 0)
      else if lsr s AND UART_LSR_DR = 0 then 1 else 0)"

definition serial_receive_break :: "SerialState \<Rightarrow> SerialState" where
  "serial_receive_break s =
     (let s1 = fifo_put RECV_FIFO 0 (s\<lparr>rbr := 0\<rparr>)
      in serial_update_irq (s1\<lparr>lsr := lsr s1 OR UART_LSR_BI OR UART_LSR_DR\<rparr>))"

definition fifo_timeout_int :: "SerialState \<Rightarrow> SerialState" where
  "fifo_timeout_int s =
     (if f_count (recv_fifo s) \<noteq> 0 then serial_update_irq (s\<lparr>timeout_ipending := True\<rparr>) else s)"

definition timeout_at :: "serial_env \<Rightarrow> SerialState \<Rightarrow> SerialState" where
  "timeout_at e s = s\<lparr>fifo_timeout_timer := Some (env_now e + char_transmit_time s * 4)\<rparr>"

text \<open>The buffer holds at least one byte when the queues are off, as the character devices call it.\<close>

definition serial_receive1 :: "serial_env \<Rightarrow> u8 list \<Rightarrow> SerialState \<Rightarrow> SerialState" where
  "serial_receive1 e buf s =
     (let s1 = (if wakeup s then serial_call Wakeup_request s else s)
      in serial_update_irq
        (if fcr s1 AND UART_FCR_FE \<noteq> 0
         then (let s2 = fold (fifo_put RECV_FIFO) buf s1 in timeout_at e (s2\<lparr>lsr := lsr s2 OR UART_LSR_DR\<rparr>))
         else (let s2 = (if lsr s1 AND UART_LSR_DR \<noteq> 0 then s1\<lparr>lsr := lsr s1 OR UART_LSR_OE\<rparr> else s1)
               in s2\<lparr>rbr := hd buf, lsr := lsr s2 OR UART_LSR_DR\<rparr>)))"

definition CHR_EVENT_BREAK :: int where "CHR_EVENT_BREAK = 0"

definition serial_event :: "int \<Rightarrow> SerialState \<Rightarrow> SerialState" where
  "serial_event event s = (if event = CHR_EVENT_BREAK then serial_receive_break s else s)"

section \<open>Transmitting\<close>

text \<open>The next byte for the shift register; \<open>None\<close> when there is nothing to send.\<close>

definition xmit_load :: "SerialState \<Rightarrow> SerialState option" where
  "xmit_load s =
     (if tsr_retry s \<le> 0
      then (if fcr s AND UART_FCR_FE \<noteq> 0
            then (let (c, s1) = fifo_get XMIT_FIFO s; s2 = s1\<lparr>tsr := c\<rparr>
                  in Some (if f_count (xmit_fifo s2) = 0 then s2\<lparr>lsr := lsr s2 OR UART_LSR_THRE\<rparr> else s2))
            else if lsr s AND UART_LSR_THRE \<noteq> 0 then None
            else Some (s\<lparr>tsr := thr s, lsr := (lsr s OR UART_LSR_THRE) AND NOT UART_LSR_TEMT\<rparr>))
      else Some s)"

definition transmit_at :: "serial_env \<Rightarrow> SerialState \<Rightarrow> SerialState" where
  "transmit_at e s = s\<lparr>transmit_timer := Some (env_now e + char_transmit_time s)\<rparr>"

definition xmit_done :: "serial_env \<Rightarrow> SerialState \<Rightarrow> SerialState" where
  "xmit_done e s =
     (let s1 = s\<lparr>last_xmit_ts := env_now e\<rparr>;
          s2 = (if lsr s1 AND UART_LSR_THRE = 0 then transmit_at e s1 else s1)
      in if lsr s2 AND UART_LSR_THRE \<noteq> 0
         then serial_update_irq (s2\<lparr>lsr := lsr s2 OR UART_LSR_TEMT, thr_ipending := True\<rparr>)
         else s2)"

definition serial_xmit :: "serial_env \<Rightarrow> SerialState \<Rightarrow> SerialState" where
  "serial_xmit e s =
     (case xmit_load s of
        None \<Rightarrow> s
      | Some s1 \<Rightarrow>
          if mcr s1 AND UART_MCR_LOOP \<noteq> 0 then xmit_done e (serial_receive1 e [tsr s1] s1)
          else
            let s2 = serial_call (Chr_write (tsr s1) (env_write_ok e)) s1
            in if \<not> env_write_ok e
               then (if tsr_retry s2 \<ge> 0 \<and> tsr_retry s2 \<le> MAX_XMIT_RETRY
                     then transmit_at e (s2\<lparr>tsr_retry := tsr_retry s2 + 1\<rparr>)
                     else if poll_msl s2 < 0 then xmit_done e (s2\<lparr>tsr_retry := - 1\<rparr>)
                     else xmit_done e s2)
               else xmit_done e (s2\<lparr>tsr_retry := 0\<rparr>))"

section \<open>Ports\<close>

definition write_thr :: "serial_env \<Rightarrow> u32 \<Rightarrow> SerialState \<Rightarrow> SerialState" where
  "write_thr e val s =
     (let s1 = s\<lparr>thr := ucast val\<rparr>;
          s2 = (if fcr s1 AND UART_FCR_FE \<noteq> 0
                then (let s' = (fifo_put XMIT_FIFO (thr s1) s1)\<lparr>thr_ipending := False\<rparr>
                      in s'\<lparr>lsr := (lsr s' AND NOT UART_LSR_TEMT) AND NOT UART_LSR_THRE\<rparr>)
                else s1\<lparr>thr_ipending := False, lsr := lsr s1 AND NOT UART_LSR_THRE\<rparr>)
      in serial_xmit e (serial_update_irq s2))"

definition write_ier :: "serial_env \<Rightarrow> u32 \<Rightarrow> SerialState \<Rightarrow> SerialState" where
  "write_ier e val s =
     (let s1 = s\<lparr>ier := ucast val AND 0x0F\<rparr>;
          s2 = (if poll_msl s1 \<ge> 0
                then (if ier s1 AND UART_IER_MSI \<noteq> 0 then serial_update_msl e (s1\<lparr>poll_msl := 1\<rparr>)
                      else s1\<lparr>modem_status_poll := None, poll_msl := 0\<rparr>)
                else s1)
      in if lsr s2 AND UART_LSR_THRE \<noteq> 0 then serial_update_irq (s2\<lparr>thr_ipending := True\<rparr>) else s2)"

definition trigger_level :: "u8 \<Rightarrow> nat" where
  "trigger_level v =
     (if v AND 0xC0 = 0 then 1 else if v AND 0xC0 = 0x40 then 4 else if v AND 0xC0 = 0x80 then 8 else 14)"

definition write_fcr :: "u32 \<Rightarrow> SerialState \<Rightarrow> SerialState" where
  "write_fcr val0 s =
     (let v = ucast val0 :: u8 in
      if fcr s = v then s
      else
        let val = (if (v XOR fcr s) AND UART_FCR_FE \<noteq> 0 then v OR UART_FCR_XFR OR UART_FCR_RFR else v);
            s1 = (if val AND UART_FCR_RFR \<noteq> 0
                  then fifo_clear RECV_FIFO (s\<lparr>fifo_timeout_timer := None, timeout_ipending := False\<rparr>) else s);
            s2 = (if val AND UART_FCR_XFR \<noteq> 0 then fifo_clear XMIT_FIFO s1 else s1);
            s3 = (if val AND UART_FCR_FE \<noteq> 0
                  then s2\<lparr>iir := iir s2 OR UART_IIR_FE, recv_fifo := (recv_fifo s2)\<lparr>f_itl := trigger_level val\<rparr>\<rparr>
                  else s2\<lparr>iir := iir s2 AND NOT UART_IIR_FE\<rparr>)
        in serial_update_irq (s3\<lparr>fcr := val AND 0xC9\<rparr>))"

definition write_lcr :: "u32 \<Rightarrow> SerialState \<Rightarrow> SerialState option" where
  "write_lcr val s =
     map_option (\<lambda>s1. let break_enable = bit val 6 in
        if break_enable \<noteq> last_break_enable s1 then serial_call (Set_break break_enable) (s1\<lparr>last_break_enable := break_enable\<rparr>) else s1)
       (serial_update_parameters (s\<lparr>lcr := ucast val\<rparr>))"

definition write_mcr :: "serial_env \<Rightarrow> u32 \<Rightarrow> SerialState \<Rightarrow> SerialState" where
  "write_mcr e val s =
     (let old_mcr = mcr s; s1 = s\<lparr>mcr := ucast val AND 0x1F\<rparr> in
      if (ucast val :: u8) AND UART_MCR_LOOP \<noteq> 0 then s1
      else if poll_msl s1 \<ge> 0 \<and> old_mcr \<noteq> mcr s1
      then (let flags0 = (case env_tiocm e of None \<Rightarrow> env_stale e | Some f \<Rightarrow> f);
                flags1 = flags0 AND NOT (CHR_TIOCM_RTS OR CHR_TIOCM_DTR);
                flags2 = (if val AND 0x02 \<noteq> 0 then flags1 OR CHR_TIOCM_RTS else flags1);
                flags = (if val AND 0x01 \<noteq> 0 then flags2 OR CHR_TIOCM_DTR else flags2)
            in (serial_call (Set_tiocm flags) s1)\<lparr>modem_status_poll := Some (env_now e + char_transmit_time s1)\<rparr>)
      else s1)"

definition serial_ioport_write :: "serial_env \<Rightarrow> u32 \<Rightarrow> u32 \<Rightarrow> SerialState \<Rightarrow> SerialState option" where
  "serial_ioport_write e addr0 val s =
     (let addr = addr0 AND 7; dlab = lcr s AND UART_LCR_DLAB \<noteq> 0 in
      if addr = 1 then
        (if dlab then serial_update_parameters (s\<lparr>divider := ucast (ucast (divider s AND 0x00FF) OR push_bit 8 val)\<rparr>)
         else Some (write_ier e val s))
      else if addr = 2 then Some (write_fcr val s)
      else if addr = 3 then write_lcr val s
      else if addr = 4 then Some (write_mcr e val s)
      else if addr = 5 \<or> addr = 6 then Some s
      else if addr = 7 then Some (s\<lparr>scr := ucast val\<rparr>)
      else if dlab then serial_update_parameters (s\<lparr>divider := ucast (ucast (divider s AND 0xFF00) OR val)\<rparr>)
      else Some (write_thr e val s))"

definition read_rbr :: "serial_env \<Rightarrow> SerialState \<Rightarrow> u8 \<times> SerialState" where
  "read_rbr e s =
     (let (ret, s1) =
        (if fcr s AND UART_FCR_FE \<noteq> 0
         then (let (c, s') = fifo_get RECV_FIFO s;
                   s'' = (if f_count (recv_fifo s') = 0 then s'\<lparr>lsr := lsr s' AND NOT (UART_LSR_DR OR UART_LSR_BI)\<rparr>
                          else timeout_at e s')
               in (c, s''\<lparr>timeout_ipending := False\<rparr>))
         else (rbr s, s\<lparr>lsr := lsr s AND NOT (UART_LSR_DR OR UART_LSR_BI)\<rparr>));
          s2 = serial_update_irq s1
      in (ret, if mcr s2 AND UART_MCR_LOOP = 0 then serial_call Accept_input s2 else s2))"

definition read_iir :: "SerialState \<Rightarrow> u8 \<times> SerialState" where
  "read_iir s = (iir s, if iir s AND UART_IIR_ID = UART_IIR_THRI then serial_update_irq (s\<lparr>thr_ipending := False\<rparr>) else s)"

definition read_lsr :: "SerialState \<Rightarrow> u8 \<times> SerialState" where
  "read_lsr s =
     (lsr s, if lsr s AND (UART_LSR_BI OR UART_LSR_OE) \<noteq> 0
             then serial_update_irq (s\<lparr>lsr := lsr s AND NOT (UART_LSR_BI OR UART_LSR_OE)\<rparr>) else s)"

definition read_msr :: "serial_env \<Rightarrow> SerialState \<Rightarrow> u8 \<times> SerialState" where
  "read_msr e s =
     (if mcr s AND UART_MCR_LOOP \<noteq> 0
      then (push_bit 4 (mcr s AND 0x0C) OR push_bit 3 (mcr s AND 0x02) OR push_bit 5 (mcr s AND 0x01), s)
      else (let s1 = (if poll_msl s \<ge> 0 then serial_update_msl e s else s)
            in (msr s1, if msr s1 AND UART_MSR_ANY_DELTA \<noteq> 0 then serial_update_irq (s1\<lparr>msr := msr s1 AND 0xF0\<rparr>) else s1)))"

definition serial_ioport_read :: "serial_env \<Rightarrow> u32 \<Rightarrow> SerialState \<Rightarrow> u8 \<times> SerialState" where
  "serial_ioport_read e addr0 s =
     (let addr = addr0 AND 7; dlab = lcr s AND UART_LCR_DLAB \<noteq> 0 in
      if addr = 1 then (if dlab then ucast (drop_bit 8 (divider s)) else ier s, s)
      else if addr = 2 then read_iir s
      else if addr = 3 then (lcr s, s)
      else if addr = 4 then (mcr s, s)
      else if addr = 5 then read_lsr s
      else if addr = 6 then read_msr e s
      else if addr = 7 then (scr s, s)
      else if dlab then (ucast (divider s AND 0xFF), s)
      else read_rbr e s)"

text \<open>The memory mapped interface.\<close>

definition serial_mm_read :: "serial_env \<Rightarrow> u64 \<Rightarrow> SerialState \<Rightarrow> u8 \<times> SerialState" where
  "serial_mm_read e addr s = serial_ioport_read e (ucast (drop_bit (it_shift s) addr)) s"

definition serial_mm_write :: "serial_env \<Rightarrow> u64 \<Rightarrow> u64 \<Rightarrow> nat \<Rightarrow> SerialState \<Rightarrow> SerialState option" where
  "serial_mm_write e addr v sz s =
     serial_ioport_write e (ucast (drop_bit (it_shift s) addr)) (ucast (v AND ucast (drop_bit (32 - sz * 8) (NOT 0 :: u32)))) s"

section \<open>Life of the device\<close>

definition serial_pre_save :: "SerialState \<Rightarrow> SerialState" where
  "serial_pre_save s = s\<lparr>fcr_vmstate := fcr s\<rparr>"

definition serial_post_load :: "serial_env \<Rightarrow> int \<Rightarrow> SerialState \<Rightarrow> SerialState option" where
  "serial_post_load e version_id s =
     (let s1 = (if version_id < 3 then s\<lparr>fcr_vmstate := 0\<rparr> else s)
      in Option.bind (serial_ioport_write e 2 (ucast (fcr_vmstate s1)) s1) serial_update_parameters)"

definition serial_reset :: "serial_env \<Rightarrow> SerialState \<Rightarrow> SerialState" where
  "serial_reset e s =
     (let s1 = s\<lparr>rbr := 0, ier := 0, iir := UART_IIR_NO_INT, lcr := 0, lsr := UART_LSR_TEMT OR UART_LSR_THRE,
            msr := UART_MSR_DCD OR UART_MSR_DSR OR UART_MSR_CTS, divider := 0x0C, mcr := UART_MCR_OUT2, scr := 0,
            tsr_retry := 0, char_transmit_time := word_of_int ((ticks_per_sec sdiv 9600) * 10), poll_msl := 0\<rparr>;
          s2 = fifo_clear XMIT_FIFO (fifo_clear RECV_FIFO s1)
      in s2\<lparr>last_xmit_ts := env_now e, thr_ipending := False, last_break_enable := False, uart_irq := False\<rparr>)"

text \<open>A device is created zeroed, with its clock and the position of its registers.\<close>

definition serial_zeroed :: "int \<Rightarrow> nat \<Rightarrow> bool \<Rightarrow> SerialState" where
  "serial_zeroed base shift wake =
     (let f = \<lparr>f_data = replicate UART_FIFO_LENGTH 0, f_count = 0, f_itl = 0, f_tail = 0, f_head = 0\<rparr>
      in \<lparr>divider = 0, rbr = 0, thr = 0, tsr = 0, ier = 0, iir = 0, lcr = 0, mcr = 0, lsr = 0, msr = 0, scr = 0, fcr = 0,
          fcr_vmstate = 0, thr_ipending = False, uart_irq = False, last_break_enable = False, it_shift = shift,
          baudbase = base, tsr_retry = 0, wakeup = wake, last_xmit_ts = 0, recv_fifo = f, xmit_fifo = f,
          fifo_timeout_timer = None, timeout_ipending = False, transmit_timer = None, char_transmit_time = 0,
          poll_msl = 0, modem_status_poll = None, serial_calls = []\<rparr>)"

definition serial_set_frequency :: "u32 \<Rightarrow> SerialState \<Rightarrow> SerialState option" where
  "serial_set_frequency frequency s = serial_update_parameters (s\<lparr>baudbase := sint frequency\<rparr>)"

text \<open>The place of an ISA port: the number of ports made so far, and the properties, which are all ones when not given.\<close>

definition isa_serial_io :: "u32 list" where "isa_serial_io = [0x3F8, 0x2F8, 0x3E8, 0x2E8]"
definition isa_serial_irq :: "u32 list" where "isa_serial_irq = [4, 3, 4, 3]"

definition serial_isa_initfn :: "u32 \<Rightarrow> u32 \<times> u32 \<times> u32 \<Rightarrow> bool \<Rightarrow> (u32 \<times> (u32 \<times> u32 \<times> u32) \<times> SerialState) option" where
  "serial_isa_initfn index props wake =
     (let (index0, iobase0, isairq0) = props;
          index1 = (if index0 = - 1 then index else index0)
      in if index1 \<ge> 4 then None
         else
           let iobase1 = (if iobase0 = - 1 then isa_serial_io ! unat index1 else iobase0);
               isairq1 = (if isairq0 = - 1 then isa_serial_irq ! unat index1 else isairq0)
           in Some (index + 1, (index1, iobase1, isairq1), serial_zeroed 115200 0 wake))"

definition serial_init :: "int \<Rightarrow> SerialState" where
  "serial_init base = serial_zeroed base 0 False"

definition serial_mm_init :: "serial_env \<Rightarrow> int \<Rightarrow> nat \<Rightarrow> SerialState" where
  "serial_mm_init e base shift = serial_update_msl e (serial_zeroed base shift False)"

text \<open>Everything that happens to a port. A timer is gone when its function is called.\<close>

datatype serial_op =
    Port_write u32 u32
  | Port_read u32
  | Chr_receive "u8 list"
  | Chr_event int
  | Timeout_fires
  | Transmit_fires
  | Poll_fires
  | Machine_reset

fun serial_apply :: "serial_env \<Rightarrow> serial_op \<Rightarrow> SerialState \<Rightarrow> SerialState option" where
  "serial_apply e (Port_write a v) s = serial_ioport_write e a v s"
| "serial_apply e (Port_read a) s = Some (snd (serial_ioport_read e a s))"
| "serial_apply e (Chr_receive buf) s = Some (serial_receive1 e buf s)"
| "serial_apply e (Chr_event ev) s = Some (serial_event ev s)"
| "serial_apply e Timeout_fires s = Some (fifo_timeout_int (s\<lparr>fifo_timeout_timer := None\<rparr>))"
| "serial_apply e Transmit_fires s = Some (serial_xmit e (s\<lparr>transmit_timer := None\<rparr>))"
| "serial_apply e Poll_fires s = Some (serial_update_msl e (s\<lparr>modem_status_poll := None\<rparr>))"
| "serial_apply e Machine_reset s = Some (serial_reset e s)"

end
