(* ===== verification/SerialIrq.thy ===== *)
theory SerialIrq
  imports Serial
begin

unbundle bit_operations_syntax

text \<open>
  The interrupts of the serial port: the sources by priority, and that the line and the identification follow them after every
  operation. The receive queue is an instance of the contract of bounded queues (\<open>bounded_fifo\<close>).
\<close>

section \<open>The interrupt the registers ask for\<close>

text \<open>The sources of an interrupt by priority, with the identification the guest reads.\<close>

definition uart_sources :: "SerialState \<Rightarrow> (bool \<times> u8) list" where
  "uart_sources s =
     [(ier s AND UART_IER_RLSI \<noteq> 0 \<and> lsr s AND UART_LSR_INT_ANY \<noteq> 0, UART_IIR_RLSI),
      (ier s AND UART_IER_RDI \<noteq> 0 \<and> timeout_ipending s, UART_IIR_CTI),
      (ier s AND UART_IER_RDI \<noteq> 0 \<and> lsr s AND UART_LSR_DR \<noteq> 0 \<and>
         (fcr s AND UART_FCR_FE = 0 \<or> f_count (recv_fifo s) \<ge> f_itl (recv_fifo s)), UART_IIR_RDI),
      (ier s AND UART_IER_THRI \<noteq> 0 \<and> thr_ipending s, UART_IIR_THRI),
      (ier s AND UART_IER_MSI \<noteq> 0 \<and> msr s AND UART_MSR_ANY_DELTA \<noteq> 0, UART_IIR_MSI)]"

definition uart_source :: "SerialState \<Rightarrow> u8" where
  "uart_source s = (case find fst (uart_sources s) of None \<Rightarrow> UART_IIR_NO_INT | Some (_, i) \<Rightarrow> i)"

text \<open>The line is high when some source is active, and the guest reads the first of them.\<close>

definition uart_coherent :: "SerialState \<Rightarrow> bool" where
  "uart_coherent s \<longleftrightarrow> iir s AND 0x0F = uart_source s \<and> uart_irq s = (\<exists>src \<in> set (uart_sources s). fst src)"

lemma update_irq_eq:
  "serial_update_irq s = s\<lparr>iir := uart_source s OR (iir s AND 0xF0), uart_irq := (\<exists>src \<in> set (uart_sources s). fst src)\<rparr>"
  by (simp add: serial_update_irq_def uart_source_def uart_sources_def Let_def)

lemma source_cases: "uart_source s \<in> {0x06, 0x0C, 0x04, 0x02, 0x00, 0x01}"
  by (simp add: uart_source_def uart_sources_def)

lemma source_low: "(uart_source s OR (v AND 0xF0)) AND 0x0F = uart_source s"
  using source_cases [of s] by (auto simp: bit.conj_disj_distrib2 and.assoc)

lemma update_irq_frame [simp]:
  "ier (serial_update_irq s) = ier s" "lsr (serial_update_irq s) = lsr s" "msr (serial_update_irq s) = msr s"
  "fcr (serial_update_irq s) = fcr s" "mcr (serial_update_irq s) = mcr s" "lcr (serial_update_irq s) = lcr s"
  "thr_ipending (serial_update_irq s) = thr_ipending s" "timeout_ipending (serial_update_irq s) = timeout_ipending s"
  "recv_fifo (serial_update_irq s) = recv_fifo s" "xmit_fifo (serial_update_irq s) = xmit_fifo s"
  "tsr_retry (serial_update_irq s) = tsr_retry s" "tsr (serial_update_irq s) = tsr s" "thr (serial_update_irq s) = thr s"
  "rbr (serial_update_irq s) = rbr s" "serial_calls (serial_update_irq s) = serial_calls s" "poll_msl (serial_update_irq s) = poll_msl s"
  "transmit_timer (serial_update_irq s) = transmit_timer s" "fifo_timeout_timer (serial_update_irq s) = fifo_timeout_timer s"
  "char_transmit_time (serial_update_irq s) = char_transmit_time s" "baudbase (serial_update_irq s) = baudbase s"
  "divider (serial_update_irq s) = divider s" "last_xmit_ts (serial_update_irq s) = last_xmit_ts s"
  "wakeup (serial_update_irq s) = wakeup s"
  by (simp_all add: update_irq_eq)

lemma sources_cong:
  assumes "ier s' = ier s" and "lsr s' AND 0x1F = lsr s AND 0x1F" and "msr s' AND 0x0F = msr s AND 0x0F"
    and "fcr s' AND 1 = fcr s AND 1" and "thr_ipending s' = thr_ipending s" and "timeout_ipending s' = timeout_ipending s"
    and "f_count (recv_fifo s') = f_count (recv_fifo s)" and "f_itl (recv_fifo s') = f_itl (recv_fifo s)"
  shows "uart_sources s' = uart_sources s"
proof -
  have "lsr s' AND 0x1E = lsr s AND 0x1E" "lsr s' AND 1 = lsr s AND 1"
    using arg_cong [OF assms(2), of "\<lambda>x. x AND 0x1E"] arg_cong [OF assms(2), of "\<lambda>x. x AND 1"] by (simp_all add: and.assoc)
  then show ?thesis using assms by (simp add: uart_sources_def)
qed

lemma coherent_update [simp]: "uart_coherent (serial_update_irq s)"
proof -
  have "uart_sources (serial_update_irq s) = uart_sources s" by (rule sources_cong) simp_all
  moreover from this have "uart_source (serial_update_irq s) = uart_source s" by (simp add: uart_source_def)
  ultimately show ?thesis by (simp add: uart_coherent_def) (simp add: update_irq_eq source_low)
qed

lemma coherent_cong:
  assumes "uart_coherent s" and "uart_sources s' = uart_sources s" and "iir s' AND 0x0F = iir s AND 0x0F" and "uart_irq s' = uart_irq s"
  shows "uart_coherent s'"
  using assms by (simp add: uart_coherent_def uart_source_def)

section \<open>The queues\<close>

definition fifo_ok :: "SerialFIFO \<Rightarrow> bool" where
  "fifo_ok f \<longleftrightarrow> length (f_data f) = 16 \<and> f_tail f < 16 \<and> f_count f \<le> 16 \<and> f_head f = (f_tail f + f_count f) mod 16"

definition queued :: "SerialFIFO \<Rightarrow> u8 list" where
  "queued f = ring (f_data f) (f_tail f) (f_count f)"

lemma length_queued [simp]: "length (queued f) = f_count f"
  by (simp add: queued_def)

lemma queued_empty: "queued f = [] \<longleftrightarrow> f_count f = 0"
  by (simp add: queued_def)

lemmas fifo_numbers = UART_FIFO_LENGTH_def XMIT_FIFO_def RECV_FIFO_def

definition fifo_pushed :: "u8 \<Rightarrow> SerialFIFO \<Rightarrow> SerialFIFO" where
  "fifo_pushed c f = f\<lparr>f_data := (f_data f)[f_head f := c], f_head := Suc (f_head f) mod 16, f_count := Suc (f_count f)\<rparr>"

definition fifo_popped :: "SerialFIFO \<Rightarrow> SerialFIFO" where
  "fifo_popped f = (if f_count f = 0 then f else f\<lparr>f_tail := Suc (f_tail f) mod 16, f_count := f_count f - 1\<rparr>)"

lemma pushed_ok:
  assumes "fifo_ok f" and "f_count f < 16"
  shows "fifo_ok (fifo_pushed c f) \<and> queued (fifo_pushed c f) = queued f @ [c]"
proof -
  have "Suc ((f_tail f + f_count f) mod 16) mod 16 = (f_tail f + Suc (f_count f)) mod 16" by (simp add: mod_Suc_eq)
  then show ?thesis using assms ring_snoc [of "f_tail f" "f_data f" "f_count f" "f_head f" c]
    by (simp add: fifo_ok_def queued_def fifo_pushed_def)
qed

lemma popped_ok:
  assumes "fifo_ok f"
  shows "fifo_ok (fifo_popped f) \<and> queued (fifo_popped f) = tl (queued f) \<and> (f_count f \<noteq> 0 \<longrightarrow> f_data f ! f_tail f = hd (queued f))"
proof (cases "f_count f = 0")
  case False
  then obtain n where n: "f_count f = Suc n" by (cases "f_count f") auto
  have "(Suc (f_tail f) mod 16 + n) mod 16 = (f_tail f + Suc n) mod 16" by (simp add: mod_simps)
  then show ?thesis using assms n ring_hd [of "f_tail f" "f_data f" "f_count f"]
    by (simp add: fifo_ok_def queued_def fifo_popped_def)
qed (use assms in \<open>simp add: fifo_popped_def queued_def\<close>)

lemma popped_fields [simp]: "f_itl (fifo_popped f) = f_itl f" "f_count (fifo_popped f) = f_count f - 1"
  by (simp_all add: fifo_popped_def)

lemma pushed_fields [simp]: "f_itl (fifo_pushed c f) = f_itl f" "f_count (fifo_pushed c f) = Suc (f_count f)"
  by (simp_all add: fifo_pushed_def)

lemma put_recv:
  assumes "fifo_ok (recv_fifo s)"
  shows "fifo_put RECV_FIFO c s =
    (if f_count (recv_fifo s) < 16 then s\<lparr>recv_fifo := fifo_pushed c (recv_fifo s)\<rparr> else s\<lparr>lsr := lsr s OR UART_LSR_OE\<rparr>)"
  using assms by (auto simp: fifo_put_def fifo_numbers the_fifo_def set_fifo_def Let_def fifo_pushed_def fifo_ok_def)

lemma put_xmit:
  assumes "fifo_ok (xmit_fifo s)" and "f_count (xmit_fifo s) < 16"
  shows "fifo_put XMIT_FIFO c s = s\<lparr>xmit_fifo := fifo_pushed c (xmit_fifo s)\<rparr>"
  using assms by (auto simp: fifo_put_def fifo_numbers the_fifo_def set_fifo_def Let_def fifo_pushed_def fifo_ok_def)

lemma get_recv:
  assumes "fifo_ok (recv_fifo s)"
  shows "fifo_get RECV_FIFO s =
    (if f_count (recv_fifo s) = 0 then 0 else hd (queued (recv_fifo s)), s\<lparr>recv_fifo := fifo_popped (recv_fifo s)\<rparr>)"
  using assms popped_ok [OF assms]
  by (auto simp: fifo_get_def fifo_numbers the_fifo_def set_fifo_def Let_def fifo_popped_def fifo_ok_def)

lemma get_xmit:
  assumes "fifo_ok (xmit_fifo s)"
  shows "fifo_get XMIT_FIFO s =
    (if f_count (xmit_fifo s) = 0 then 0 else hd (queued (xmit_fifo s)), s\<lparr>xmit_fifo := fifo_popped (xmit_fifo s)\<rparr>)"
  using assms popped_ok [OF assms]
  by (auto simp: fifo_get_def fifo_numbers the_fifo_def set_fifo_def Let_def fifo_popped_def fifo_ok_def)

text \<open>The receive queue keeps the contract of a bounded queue.\<close>

interpretation uart_rx: bounded_fifo "\<lambda>s. fifo_ok (recv_fifo s)" "\<lambda>s. queued (recv_fifo s)" "\<lambda>_. 16"
  "\<lambda>s c. fifo_put RECV_FIFO c s" "fifo_get RECV_FIFO"
proof (unfold_locales, goal_cases)
  case (1 q)
  then show ?case by (simp add: fifo_ok_def)
next
  case (2 q x)
  then show ?case using pushed_ok by (simp add: put_recv)
next
  case (4 q x)
  then show ?case using pushed_ok by (simp add: put_recv)
next
  case (5 q)
  then show ?case using popped_ok by (simp add: get_recv)
next
  case (7 q)
  then show ?case by (auto simp: get_recv queued_def)
next
  case (8 q)
  then show ?case using popped_ok by (simp add: get_recv)
qed simp_all

lemma fifo_get_frame:
  "snd (fifo_get fifo s) = (if fifo \<noteq> 0 then s\<lparr>recv_fifo := recv_fifo (snd (fifo_get fifo s))\<rparr> else s\<lparr>xmit_fifo := xmit_fifo (snd (fifo_get fifo s))\<rparr>)"
  by (simp add: fifo_get_def Let_def set_fifo_def the_fifo_def)

lemma fifo_put_frame:
  "fifo_put fifo c s = s\<lparr>recv_fifo := recv_fifo (fifo_put fifo c s), xmit_fifo := xmit_fifo (fifo_put fifo c s), lsr := lsr (fifo_put fifo c s)\<rparr>"
  by (simp add: fifo_put_def Let_def set_fifo_def the_fifo_def)

lemma fifo_clear_eq:
  "fifo_clear fifo s = (if fifo \<noteq> 0 then s\<lparr>recv_fifo := (recv_fifo s)\<lparr>f_data := replicate 16 0, f_count := 0, f_head := 0, f_tail := 0\<rparr>\<rparr>
    else s\<lparr>xmit_fifo := (xmit_fifo s)\<lparr>f_data := replicate 16 0, f_count := 0, f_head := 0, f_tail := 0\<rparr>\<rparr>)"
  by (simp add: fifo_clear_def set_fifo_def the_fifo_def UART_FIFO_LENGTH_def)

section \<open>Interrupts after every operation\<close>

definition uart_inv :: "SerialState \<Rightarrow> bool" where
  "uart_inv s \<longleftrightarrow> uart_coherent s \<and> fifo_ok (recv_fifo s)"

text \<open>A change that no source of an interrupt depends on.\<close>

definition quiet_change :: "SerialState \<Rightarrow> SerialState \<Rightarrow> bool" where
  "quiet_change s s' \<longleftrightarrow> ier s' = ier s \<and> lsr s' AND 0x1F = lsr s AND 0x1F \<and> msr s' = msr s \<and> fcr s' = fcr s \<and>
     thr_ipending s' = thr_ipending s \<and> timeout_ipending s' = timeout_ipending s \<and> recv_fifo s' = recv_fifo s \<and>
     iir s' = iir s \<and> uart_irq s' = uart_irq s"

lemma quiet_inv: "uart_inv s \<Longrightarrow> quiet_change s s' \<Longrightarrow> uart_inv s'"
proof -
  assume i: "uart_inv s" and q: "quiet_change s s'"
  have "uart_sources s' = uart_sources s" by (rule sources_cong) (use q in \<open>simp_all add: quiet_change_def\<close>)
  with i q show ?thesis by (auto simp: uart_inv_def quiet_change_def intro: coherent_cong)
qed

lemma update_inv: "fifo_ok (recv_fifo s) \<Longrightarrow> uart_inv (serial_update_irq s)"
  by (simp add: uart_inv_def)

lemma inv_fifo: "uart_inv s \<Longrightarrow> fifo_ok (recv_fifo s)"
  by (simp add: uart_inv_def)

lemma transmit_bits:
  "(x OR 0x20) AND 0x1F = x AND (0x1F :: u8)" "((x OR 0x20) AND NOT 0x40) AND 0x1F = x AND (0x1F :: u8)"
  "((x AND NOT 0x40) AND NOT 0x20) AND 0x1F = x AND (0x1F :: u8)" "(x AND NOT 0x20) AND 0x1F = x AND (0x1F :: u8)"
  "((x OR 0x20) AND - 65) AND 0x1F = x AND (0x1F :: u8)"
  by (simp_all add: bit.conj_disj_distrib2 and.assoc)

lemma load_quiet: "xmit_load s = Some s1 \<Longrightarrow> quiet_change s s1"
  by (auto simp: xmit_load_def Let_def quiet_change_def fifo_get_def set_fifo_def the_fifo_def XMIT_FIFO_def transmit_bits
      split: if_splits)

lemma clear_ok: "fifo_ok (f\<lparr>f_data := replicate 16 0, f_count := 0, f_head := 0, f_tail := 0\<rparr>)"
  by (simp add: fifo_ok_def)

lemma done_inv: "uart_inv s \<Longrightarrow> uart_inv (xmit_done e s)"
proof -
  assume i: "uart_inv s"
  have "quiet_change s (transmit_at e (s\<lparr>last_xmit_ts := env_now e\<rparr>))" by (simp add: quiet_change_def transmit_at_def)
  from quiet_inv [OF i this] i show ?thesis
    by (auto simp: xmit_done_def Let_def transmit_at_def intro!: update_inv dest: inv_fifo)
qed

lemma put_all_ok: "fifo_ok (recv_fifo s) \<Longrightarrow> fifo_ok (recv_fifo (fold (fifo_put RECV_FIFO) buf s))"
  using uart_rx.inv_put_all [of s buf] by (simp add: foldl_conv_fold)

lemma call_fields [simp]:
  "recv_fifo (serial_call c s) = recv_fifo s" "xmit_fifo (serial_call c s) = xmit_fifo s" "fcr (serial_call c s) = fcr s"
  "lsr (serial_call c s) = lsr s" "ier (serial_call c s) = ier s" "mcr (serial_call c s) = mcr s" "lcr (serial_call c s) = lcr s"
  "tsr_retry (serial_call c s) = tsr_retry s" "tsr (serial_call c s) = tsr s" "poll_msl (serial_call c s) = poll_msl s"
  "transmit_timer (serial_call c s) = transmit_timer s" "serial_calls (serial_call c s) = serial_calls s @ [c]"
  "msr (serial_call c s) = msr s" "rbr (serial_call c s) = rbr s" "thr_ipending (serial_call c s) = thr_ipending s"
  "timeout_ipending (serial_call c s) = timeout_ipending s" "iir (serial_call c s) = iir s" "uart_irq (serial_call c s) = uart_irq s"
  "divider (serial_call c s) = divider s" "baudbase (serial_call c s) = baudbase s" "char_transmit_time (serial_call c s) = char_transmit_time s"
  "last_break_enable (serial_call c s) = last_break_enable s"
  by (simp_all add: serial_call_def)

lemma quiet_call [simp]: "quiet_change s (serial_call c s)"
  by (simp add: quiet_change_def)

lemma receive_inv: "fifo_ok (recv_fifo s) \<Longrightarrow> uart_inv (serial_receive1 e buf s)"
  unfolding serial_receive1_def Let_def
  by (intro update_inv) (simp add: timeout_at_def put_all_ok)

lemma xmit_inv: "uart_inv s \<Longrightarrow> uart_inv (serial_xmit e s)"
proof (cases "xmit_load s")
  case None
  then show "uart_inv s \<Longrightarrow> ?thesis" by (simp add: serial_xmit_def)
next
  case (Some s1)
  assume "uart_inv s"
  then have i: "uart_inv s1" using load_quiet [OF Some] by (rule quiet_inv)
  let ?s2 = "serial_call (Chr_write (tsr s1) (env_write_ok e)) s1"
  have i2: "uart_inv ?s2" using i quiet_call by (rule quiet_inv)
  have "uart_inv (transmit_at e (?s2\<lparr>tsr_retry := n\<rparr>))" "uart_inv (?s2\<lparr>tsr_retry := n\<rparr>)" for n
    by (rule quiet_inv [OF i2], simp add: quiet_change_def transmit_at_def)+
  with i i2 Some show ?thesis
    by (auto simp: serial_xmit_def Let_def intro!: done_inv receive_inv dest: inv_fifo)
qed

lemma update_msl_inv: "uart_inv s \<Longrightarrow> uart_inv (serial_update_msl e s)"
proof -
  assume i: "uart_inv s"
  have q: "uart_inv (s\<lparr>modem_status_poll := x\<rparr>)" "uart_inv (s\<lparr>modem_status_poll := x, poll_msl := p\<rparr>)" for x p
    by (rule quiet_inv [OF i], simp add: quiet_change_def)+
  have u: "uart_inv ((serial_update_irq (s\<lparr>modem_status_poll := None, msr := m\<rparr>))\<lparr>modem_status_poll := x\<rparr>)" for x m
  proof -
    have "uart_inv (serial_update_irq (s\<lparr>modem_status_poll := None, msr := m\<rparr>))" by (rule update_inv) (use i in \<open>simp add: inv_fifo\<close>)
    then show ?thesis by (rule quiet_inv) (simp add: quiet_change_def)
  qed
  have u2: "uart_inv (serial_update_irq (s\<lparr>modem_status_poll := None, msr := m\<rparr>))" for m
    by (rule update_inv) (use i in \<open>simp add: inv_fifo\<close>)
  show ?thesis using q u u2 by (auto simp: serial_update_msl_def Let_def split: option.split)
qed

lemma write_thr_inv: "uart_inv s \<Longrightarrow> uart_inv (write_thr e val s)"
  unfolding write_thr_def Let_def
  by (intro xmit_inv update_inv) (auto simp: fifo_put_def set_fifo_def the_fifo_def XMIT_FIFO_def RECV_FIFO_def Let_def dest: inv_fifo)

lemma update_parameters_inv: "uart_inv s \<Longrightarrow> serial_update_parameters s = Some s' \<Longrightarrow> uart_inv s'"
  by (auto simp: serial_update_parameters_def Let_def serial_call_def quiet_change_def split: if_splits elim!: quiet_inv)

lemma write_fcr_inv: "uart_inv s \<Longrightarrow> uart_inv (write_fcr val s)"
proof -
  assume i: "uart_inv s"
  have "fifo_ok (f\<lparr>f_itl := x\<rparr>) = fifo_ok f" for f x by (simp add: fifo_ok_def)
  with i show ?thesis by (auto simp: write_fcr_def Let_def fifo_clear_eq clear_ok RECV_FIFO_def XMIT_FIFO_def intro!: update_inv dest: inv_fifo)
qed

lemma write_lcr_inv: "uart_inv s \<Longrightarrow> write_lcr val s = Some s' \<Longrightarrow> uart_inv s'"
proof -
  assume i: "uart_inv s" and w: "write_lcr val s = Some s'"
  then obtain s1 where s1: "serial_update_parameters (s\<lparr>lcr := ucast val\<rparr>) = Some s1" by (auto simp: write_lcr_def)
  have "uart_inv (s\<lparr>lcr := ucast val\<rparr>)" by (rule quiet_inv [OF i]) (simp add: quiet_change_def)
  from update_parameters_inv [OF this s1] have i1: "uart_inv s1" .
  have "uart_inv (serial_call c (s1\<lparr>last_break_enable := b\<rparr>))" for c b by (rule quiet_inv [OF i1]) (simp add: quiet_change_def)
  with w s1 i1 show ?thesis by (auto simp: write_lcr_def Let_def)
qed

lemma write_mcr_inv: "uart_inv s \<Longrightarrow> uart_inv (write_mcr e val s)"
  by (erule quiet_inv) (simp add: write_mcr_def Let_def quiet_change_def serial_call_def)

text \<open>A write to the interrupt enable register is followed by an update only while the transmitter is ready.\<close>

definition heard :: "serial_op \<Rightarrow> SerialState \<Rightarrow> bool" where
  "heard x s \<longleftrightarrow> (case x of Port_write a v \<Rightarrow> a AND 7 = 1 \<and> lcr s AND UART_LCR_DLAB = 0 \<longrightarrow> lsr s AND UART_LSR_THRE \<noteq> 0 | _ \<Rightarrow> True)"

lemma update_msl_lsr [simp]: "lsr (serial_update_msl e s) = lsr s"
  by (simp add: serial_update_msl_def Let_def split: option.split)

lemma update_msl_recv [simp]: "recv_fifo (serial_update_msl e s) = recv_fifo s"
  by (simp add: serial_update_msl_def Let_def split: option.split)

lemma write_ier_inv: "uart_inv s \<Longrightarrow> lsr s AND UART_LSR_THRE \<noteq> 0 \<Longrightarrow> uart_inv (write_ier e val s)"
  by (auto simp: write_ier_def Let_def intro!: update_inv dest: inv_fifo)

lemma uart_write_inv: "uart_inv s \<Longrightarrow> heard (Port_write a v) s \<Longrightarrow> serial_ioport_write e a v s = Some s' \<Longrightarrow> uart_inv s'"
proof -
  assume i: "uart_inv s" and h: "heard (Port_write a v) s" and w: "serial_ioport_write e a v s = Some s'"
  have d: "uart_inv (s\<lparr>divider := d\<rparr>)" and sc: "uart_inv (s\<lparr>scr := d'\<rparr>)" for d d'
    by (rule quiet_inv [OF i], simp add: quiet_change_def)+
  have "serial_update_parameters (s\<lparr>divider := x\<rparr>) = Some s' \<Longrightarrow> uart_inv s'" for x by (rule update_parameters_inv [OF d])
  then show ?thesis using i h w sc
    by (auto simp: serial_ioport_write_def Let_def heard_def write_ier_inv write_fcr_inv write_mcr_inv write_thr_inv write_lcr_inv
        split: if_splits)
qed

lemma read_rbr_inv: "uart_inv s \<Longrightarrow> uart_inv (snd (read_rbr e s))"
proof -
  assume i: "uart_inv s"
  let ?s1 = "snd (if fcr s AND UART_FCR_FE \<noteq> 0
         then (let (c, s') = fifo_get RECV_FIFO s;
                   s'' = (if f_count (recv_fifo s') = 0 then s'\<lparr>lsr := lsr s' AND NOT (UART_LSR_DR OR UART_LSR_BI)\<rparr>
                          else timeout_at e s')
               in (c, s''\<lparr>timeout_ipending := False\<rparr>))
         else (rbr s, s\<lparr>lsr := lsr s AND NOT (UART_LSR_DR OR UART_LSR_BI)\<rparr>))"
  have "fifo_ok (recv_fifo ?s1)"
    using i popped_ok [OF inv_fifo [OF i]] by (auto simp: get_recv inv_fifo timeout_at_def Let_def)
  then have u: "uart_inv (serial_update_irq ?s1)" by (rule update_inv)
  have "uart_inv (serial_call c (serial_update_irq ?s1))" for c using u quiet_call by (rule quiet_inv)
  with u show ?thesis unfolding read_rbr_def Let_def by (auto split: prod.splits)
qed

lemma uart_read_inv: "uart_inv s \<Longrightarrow> uart_inv (snd (serial_ioport_read e a s))"
proof -
  assume i: "uart_inv s"
  have "uart_inv (snd (read_msr e s))"
    using i update_msl_inv [OF i, of e] by (auto simp: read_msr_def Let_def intro!: update_inv dest: inv_fifo)
  then show ?thesis
    using i read_rbr_inv [OF i, of e]
    by (auto simp: serial_ioport_read_def Let_def read_iir_def read_lsr_def intro!: update_inv dest: inv_fifo)
qed

lemma no_enable_sources: "ier s = 0 \<Longrightarrow> \<not> fst src" if "src \<in> set (uart_sources s)"
  using that by (auto simp: uart_sources_def)

lemma uart_reset_inv: "uart_inv (serial_reset e s)"
proof -
  let ?r = "serial_reset e s"
  have f: "ier ?r = 0" "iir ?r = 1" "uart_irq ?r = False" "fifo_ok (recv_fifo ?r)"
    by (simp_all add: serial_reset_def Let_def fifo_clear_eq RECV_FIFO_def XMIT_FIFO_def clear_ok)
  moreover have "find fst (uart_sources ?r) = None" using f(1) by (simp add: uart_sources_def)
  ultimately show ?thesis using no_enable_sources [of _ ?r] by (auto simp: uart_inv_def uart_coherent_def uart_source_def)
qed

lemma apply_inv: "uart_inv s \<Longrightarrow> heard x s \<Longrightarrow> serial_apply e x s = Some s' \<Longrightarrow> uart_inv s'"
proof -
  assume i: "uart_inv s" and h: "heard x s" and a: "serial_apply e x s = Some s'"
  have t: "uart_inv (s\<lparr>fifo_timeout_timer := x1\<rparr>)" "uart_inv (s\<lparr>transmit_timer := x2\<rparr>)" "uart_inv (s\<lparr>modem_status_poll := x3\<rparr>)"
    for x1 x2 x3 by (rule quiet_inv [OF i], simp add: quiet_change_def)+
  show ?thesis
  proof (cases x)
    case (Port_write p v)
    with i h a show ?thesis by (auto intro: uart_write_inv)
  next
    case (Chr_event ev)
    have "uart_inv (serial_receive_break s)"
      unfolding serial_receive_break_def Let_def using inv_fifo [OF i] pushed_ok
      by (intro update_inv) (auto simp: put_recv)
    with Chr_event i a show ?thesis by (auto simp: serial_event_def)
  next
    case Timeout_fires
    with t(1) [of None] a show ?thesis by (auto simp: fifo_timeout_int_def inv_fifo [OF i] intro!: update_inv)
  qed (use i a t in \<open>auto simp: uart_read_inv receive_inv inv_fifo xmit_inv update_msl_inv uart_reset_inv\<close>)
qed

section \<open>What holds in every reachable state\<close>

text \<open>The states after a reset and any operations, where the guest writes the interrupt enable register while the transmitter
  is ready.\<close>

inductive serial_reachable :: "SerialState \<Rightarrow> bool" where
  serial_start: "serial_reachable (serial_reset e s)"
| serial_next: "serial_reachable s \<Longrightarrow> heard x s \<Longrightarrow> serial_apply e x s = Some s' \<Longrightarrow> serial_reachable s'"

text \<open>C7: [serial_interrupts] In every such state the interrupt line is high exactly when an enabled source is active, the guest
  reads the identification of the first active source by priority, and the receive queue is well formed.\<close>

theorem serial_interrupts:
  assumes "serial_reachable s"
  shows "uart_irq s = (\<exists>src \<in> set (uart_sources s). fst src) \<and> iir s AND 0x0F = uart_source s \<and> fifo_ok (recv_fifo s)"
  using assms
proof -
  from assms have "uart_inv s" by induction (auto intro: uart_reset_inv apply_inv)
  then show ?thesis by (simp add: uart_inv_def uart_coherent_def)
qed

definition demo_env :: serial_env where
  "demo_env = \<lparr>env_now = 5, env_write_ok = True, env_tiocm = None, env_stale = 0\<rparr>"

definition demo_received :: SerialState where
  "demo_received = serial_receive1 demo_env [0x48] (write_ier demo_env 1 (serial_reset demo_env (serial_zeroed 115200 0 False)))"

lemma demo_received_reachable: "serial_reachable demo_received"
  unfolding demo_received_def
proof (rule serial_next [where x = "Chr_receive [0x48]" and e = demo_env])
  let ?r = "serial_reset demo_env (serial_zeroed 115200 0 False)"
  show "serial_reachable (write_ier demo_env 1 ?r)"
  proof (rule serial_next [where x = "Port_write 1 1" and e = demo_env])
    show "serial_reachable ?r" by (rule serial_start)
    show "heard (Port_write 1 1) ?r"
      by (simp add: heard_def serial_reset_def serial_zeroed_def Let_def fifo_clear_eq)
    show "serial_apply demo_env (Port_write 1 1) ?r = Some (write_ier demo_env 1 ?r)"
      by (simp add: serial_ioport_write_def serial_reset_def serial_zeroed_def Let_def fifo_clear_eq)
  qed
  show "heard (Chr_receive [0x48]) (write_ier demo_env 1 ?r)" by (simp add: heard_def)
  show "serial_apply demo_env (Chr_receive [0x48]) (write_ier demo_env 1 ?r) = Some (serial_receive1 demo_env [0x48] (write_ier demo_env 1 ?r))"
    by simp
qed

theorem serial_interrupts_witness: "uart_irq demo_received \<and> iir demo_received AND 0x0F = UART_IIR_RDI"
proof -
  have "uart_source demo_received = UART_IIR_RDI" "\<exists>src \<in> set (uart_sources demo_received). fst src" by code_simp+
  with serial_interrupts [OF demo_received_reachable] show ?thesis by simp
qed

end
