(* ===== verification/SerialData.thy ===== *)
theory SerialData
  imports SerialIrq "HOL-Library.Sublist"
begin

unbundle bit_operations_syntax

text \<open>
  The data that goes through the serial port: transmission through the queue with a character device that may refuse bytes,
  reception, loopback, and the cases in which the port fails.
\<close>

section \<open>Transmission through the queue\<close>

text \<open>What the character device has taken, and the byte it has refused and that waits in the shift register.\<close>

fun sent_bytes :: "serial_call list \<Rightarrow> u8 list" where
  "sent_bytes [] = []"
| "sent_bytes (Chr_write b True # cs) = b # sent_bytes cs"
| "sent_bytes (_ # cs) = sent_bytes cs"

definition in_shift :: "SerialState \<Rightarrow> u8 list" where
  "in_shift s = (if tsr_retry s > 0 then [tsr s] else [])"

definition uart_stream :: "SerialState \<Rightarrow> u8 list" where
  "uart_stream s = sent_bytes (serial_calls s) @ in_shift s @ queued (xmit_fifo s)"

text \<open>The queues are on, the port is not looped back and shows its data register.\<close>

definition tx_ready :: "SerialState \<Rightarrow> bool" where
  "tx_ready s \<longleftrightarrow> fcr s AND UART_FCR_FE \<noteq> 0 \<and> mcr s AND UART_MCR_LOOP = 0 \<and> lcr s AND UART_LCR_DLAB = 0"

definition tx_inv :: "SerialState \<Rightarrow> bool" where
  "tx_inv s \<longleftrightarrow> tx_ready s \<and> fifo_ok (xmit_fifo s) \<and> (lsr s AND UART_LSR_THRE = 0 \<longleftrightarrow> f_count (xmit_fifo s) \<noteq> 0) \<and>
     (transmit_timer s \<noteq> None \<longrightarrow> 0 < tsr_retry s \<or> f_count (xmit_fifo s) \<noteq> 0) \<and>
     (f_count (xmit_fifo s) \<noteq> 0 \<longrightarrow> transmit_timer s \<noteq> None) \<and> (0 \<le> poll_msl s \<longrightarrow> 0 \<le> tsr_retry s)"

lemma sent_bytes_append [simp]: "sent_bytes (xs @ ys) = sent_bytes xs @ sent_bytes ys"
  by (induction xs rule: sent_bytes.induct) simp_all

lemma thre_bits [simp]:
  "(x OR 0x20) AND 0x20 = (0x20 :: u8)" "(x OR 0x40) AND 0x20 = x AND (0x20 :: u8)"
  by (simp_all add: bit.conj_disj_distrib2)

text \<open>The state when the sending function is entered: something waits.\<close>

definition tx_pending :: "SerialState \<Rightarrow> bool" where
  "tx_pending s \<longleftrightarrow> tx_ready s \<and> fifo_ok (xmit_fifo s) \<and> (lsr s AND UART_LSR_THRE = 0 \<longleftrightarrow> f_count (xmit_fifo s) \<noteq> 0) \<and>
     (0 < tsr_retry s \<or> f_count (xmit_fifo s) \<noteq> 0) \<and> (0 \<le> poll_msl s \<longrightarrow> 0 \<le> tsr_retry s) \<and>
     (transmit_timer s \<noteq> None \<longrightarrow> (if 0 < tsr_retry s then 0 else 1) < f_count (xmit_fifo s))"

lemma load_pending:
  assumes "tx_pending s"
  obtains s1 where "xmit_load s = Some s1" "tx_ready s1" "fifo_ok (xmit_fifo s1)"
    "lsr s1 AND UART_LSR_THRE = 0 \<longleftrightarrow> f_count (xmit_fifo s1) \<noteq> 0" "tsr_retry s1 = tsr_retry s" "poll_msl s1 = poll_msl s"
    "serial_calls s1 = serial_calls s" "transmit_timer s1 \<noteq> None \<longrightarrow> f_count (xmit_fifo s1) \<noteq> 0"
    "in_shift s @ queued (xmit_fifo s) = tsr s1 # queued (xmit_fifo s1)"
proof (cases "tsr_retry s \<le> 0")
  case False
  with assms show thesis
    by (intro that [of s]) (auto simp: tx_pending_def xmit_load_def in_shift_def)
next
  case True
  let ?f = "fifo_popped (xmit_fifo s)" and ?q = "queued (xmit_fifo s)"
  have ok: "fifo_ok (xmit_fifo s)" and ne: "f_count (xmit_fifo s) \<noteq> 0" using assms True by (auto simp: tx_pending_def)
  then have q: "?q \<noteq> []" by (simp add: queued_def)
  let ?s2 = "s\<lparr>xmit_fifo := ?f, tsr := hd ?q\<rparr>"
  let ?s1 = "if f_count ?f = 0 then ?s2\<lparr>lsr := lsr s OR UART_LSR_THRE\<rparr> else ?s2"
  have "xmit_load s = Some ?s1"
    using assms True ne by (simp add: xmit_load_def tx_pending_def tx_ready_def get_xmit [OF ok])
  moreover have "hd ?q # queued ?f = ?q" using popped_ok [OF ok] q by simp
  ultimately show thesis
    using assms True ne popped_ok [OF ok] by (intro that [of ?s1]) (auto simp: tx_pending_def tx_ready_def in_shift_def)
qed

lemma done_fields:
  "tx_ready s1 \<Longrightarrow> tx_ready (xmit_done e s1)" "xmit_fifo (xmit_done e s1) = xmit_fifo s1" "tsr_retry (xmit_done e s1) = tsr_retry s1"
  "poll_msl (xmit_done e s1) = poll_msl s1" "serial_calls (xmit_done e s1) = serial_calls s1" "tsr (xmit_done e s1) = tsr s1"
  "lsr (xmit_done e s1) AND UART_LSR_THRE = lsr s1 AND UART_LSR_THRE"
  "transmit_timer (xmit_done e s1) = (if lsr s1 AND UART_LSR_THRE = 0 then Some (env_now e + char_transmit_time s1) else transmit_timer s1)"
  by (auto simp: xmit_done_def Let_def tx_ready_def transmit_at_def)

lemma retry_fields [simp]:
  "in_shift (transmit_at e s) = in_shift s" "xmit_fifo (transmit_at e s) = xmit_fifo s" "serial_calls (transmit_at e s) = serial_calls s"
  "tx_ready (transmit_at e s) = tx_ready s" "lsr (transmit_at e s) = lsr s" "tsr_retry (transmit_at e s) = tsr_retry s"
  "poll_msl (transmit_at e s) = poll_msl s" "transmit_timer (transmit_at e s) = Some (env_now e + char_transmit_time s)"
  by (simp_all add: transmit_at_def in_shift_def tx_ready_def)

lemma ready_update [simp]: "tx_ready (s\<lparr>tsr_retry := n\<rparr>) = tx_ready s" "tx_ready (serial_call c s) = tx_ready s"
  by (simp_all add: tx_ready_def)

text \<open>Sending keeps the stream, or drops the one byte when the device has refused it too often.\<close>

lemma xmit_stream:
  assumes "tx_pending s"
  shows "tx_inv (serial_xmit e s) \<and> poll_msl (serial_xmit e s) = poll_msl s \<and>
    (uart_stream (serial_xmit e s) = uart_stream s \<or>
     poll_msl s < 0 \<and> (\<exists>b. uart_stream s = sent_bytes (serial_calls s) @ b # queued (xmit_fifo (serial_xmit e s)) \<and>
       uart_stream (serial_xmit e s) = sent_bytes (serial_calls s) @ queued (xmit_fifo (serial_xmit e s)))) \<and>
    (env_write_ok e \<longrightarrow> uart_stream (serial_xmit e s) = uart_stream s \<and> in_shift (serial_xmit e s) = [] \<and>
       Suc (f_count (xmit_fifo (serial_xmit e s))) = length (in_shift s) + f_count (xmit_fifo s))"
proof -
  obtain s1 where s1: "xmit_load s = Some s1" "tx_ready s1" "fifo_ok (xmit_fifo s1)"
    "lsr s1 AND UART_LSR_THRE = 0 \<longleftrightarrow> f_count (xmit_fifo s1) \<noteq> 0" "tsr_retry s1 = tsr_retry s" "poll_msl s1 = poll_msl s"
    "serial_calls s1 = serial_calls s" "transmit_timer s1 \<noteq> None \<longrightarrow> f_count (xmit_fifo s1) \<noteq> 0"
    "in_shift s @ queued (xmit_fifo s) = tsr s1 # queued (xmit_fifo s1)"
    using load_pending [OF assms] by blast
  have nl: "mcr s1 AND UART_MCR_LOOP = 0" using s1(2) by (simp add: tx_ready_def)
  have st: "uart_stream s = sent_bytes (serial_calls s) @ tsr s1 # queued (xmit_fifo s1)" using s1(9) by (simp add: uart_stream_def)
  have ln: "Suc (f_count (xmit_fifo s1)) = length (in_shift s) + f_count (xmit_fifo s)" using arg_cong [OF s1(9), of length] by simp
  let ?s2 = "serial_call (Chr_write (tsr s1) (env_write_ok e)) s1"
  have p: "0 \<le> poll_msl s \<Longrightarrow> 0 \<le> tsr_retry s" using assms by (simp add: tx_pending_def)
  have x: "serial_xmit e s = (if \<not> env_write_ok e
      then (if tsr_retry s \<ge> 0 \<and> tsr_retry s \<le> 4 then transmit_at e (?s2\<lparr>tsr_retry := tsr_retry s + 1\<rparr>)
            else if poll_msl s < 0 then xmit_done e (?s2\<lparr>tsr_retry := - 1\<rparr>) else xmit_done e ?s2)
      else xmit_done e (?s2\<lparr>tsr_retry := 0\<rparr>))"
    using nl s1(1,5,6) by (simp add: serial_xmit_def Let_def MAX_XMIT_RETRY_def)
  have d: "tx_inv (xmit_done e t)" if "tx_ready t" "fifo_ok (xmit_fifo t)" "lsr t AND UART_LSR_THRE = 0 \<longleftrightarrow> f_count (xmit_fifo t) \<noteq> 0"
      "transmit_timer t \<noteq> None \<longrightarrow> f_count (xmit_fifo t) \<noteq> 0" "0 \<le> poll_msl t \<longrightarrow> 0 \<le> tsr_retry t" for t
    using that by (auto simp: tx_inv_def done_fields)
  show ?thesis
  proof (cases "env_write_ok e")
    case True
    with x d [of "?s2\<lparr>tsr_retry := 0\<rparr>"] s1 st ln show ?thesis by (simp add: done_fields uart_stream_def in_shift_def)
  next
    case False
    consider "tsr_retry s \<ge> 0 \<and> tsr_retry s \<le> 4" | "\<not> (tsr_retry s \<ge> 0 \<and> tsr_retry s \<le> 4)" "poll_msl s < 0"
      | "\<not> (tsr_retry s \<ge> 0 \<and> tsr_retry s \<le> 4)" "0 \<le> poll_msl s" by linarith
    then show ?thesis
    proof cases
      case 1
      with x False s1 st show ?thesis by (simp add: tx_inv_def uart_stream_def) (simp add: in_shift_def)
    next
      case 2
      with x False d [of "?s2\<lparr>tsr_retry := - 1\<rparr>"] s1 st show ?thesis by (auto simp: done_fields uart_stream_def in_shift_def)
    next
      case 3
      with p have "4 < tsr_retry s" by simp
      with 3 x False d [of ?s2] s1 st show ?thesis by (simp add: done_fields uart_stream_def in_shift_def)
    qed
  qed
qed

text \<open>Bytes of the guest (\<open>Some b\<close>, while the queue has room) and expiries of the timer (\<open>None\<close>, while it is armed).\<close>

fun tx_run :: "(serial_env \<times> u8 option) list \<Rightarrow> SerialState \<Rightarrow> SerialState option" where
  "tx_run [] s = Some s"
| "tx_run ((e, Some b) # evs) s =
     (if f_count (xmit_fifo s) < 16 then Option.bind (serial_apply e (Port_write 0 (ucast b)) s) (tx_run evs) else None)"
| "tx_run ((e, None) # evs) s =
     (if transmit_timer s = None then None else Option.bind (serial_apply e Transmit_fires s) (tx_run evs))"

definition written_bytes :: "(serial_env \<times> u8 option) list \<Rightarrow> u8 list" where
  "written_bytes evs = List.map_filter snd evs"

lemma ucast_byte: "ucast (ucast (b :: u8) :: u32) = b"
  by (rule bit_word_eqI) (auto simp: bit_ucast_iff dest: bit_imp_le_length)

lemma write_data:
  assumes "tx_inv s" and "f_count (xmit_fifo s) < 16"
  shows "serial_apply e (Port_write 0 (ucast b)) s = Some (write_thr e (ucast b) s) \<and>
    (\<exists>t. tx_pending t \<and> write_thr e (ucast b) s = serial_xmit e t \<and> uart_stream t = uart_stream s @ [b] \<and> poll_msl t = poll_msl s \<and>
      in_shift t = in_shift s \<and> f_count (xmit_fifo t) = Suc (f_count (xmit_fifo s)))"
proof -
  have r: "tx_ready s" and ok: "fifo_ok (xmit_fifo s)" using assms(1) by (auto simp: tx_inv_def)
  let ?t = "serial_update_irq (s\<lparr>thr := b, xmit_fifo := fifo_pushed b (xmit_fifo s), thr_ipending := False,
      lsr := (lsr s AND NOT UART_LSR_TEMT) AND NOT UART_LSR_THRE\<rparr>)"
  have "write_thr e (ucast b) s = serial_xmit e ?t"
    using r put_xmit [of "s\<lparr>thr := b\<rparr>" b] ok assms(2) by (simp add: write_thr_def Let_def tx_ready_def ucast_byte)
  moreover have "tx_pending ?t"
    using r pushed_ok [OF ok assms(2)] assms(1) by (auto simp: tx_pending_def tx_ready_def tx_inv_def and.assoc)
  moreover have "uart_stream ?t = uart_stream s @ [b]"
    using pushed_ok [OF ok assms(2)] by (simp add: uart_stream_def in_shift_def)
  moreover have "in_shift ?t = in_shift s" "poll_msl ?t = poll_msl s" "f_count (xmit_fifo ?t) = Suc (f_count (xmit_fifo s))"
    by (simp_all add: in_shift_def)
  moreover have "serial_apply e (Port_write 0 (ucast b)) s = Some (write_thr e (ucast b) s)"
    using r by (simp add: serial_ioport_write_def Let_def tx_ready_def)
  ultimately show ?thesis by blast
qed

lemma timer_fires:
  assumes "tx_inv s" and "transmit_timer s \<noteq> None"
  shows "serial_apply e Transmit_fires s = Some (serial_xmit e (s\<lparr>transmit_timer := None\<rparr>)) \<and> tx_pending (s\<lparr>transmit_timer := None\<rparr>) \<and>
    uart_stream (s\<lparr>transmit_timer := None\<rparr>) = uart_stream s"
  using assms by (auto simp: tx_inv_def tx_pending_def tx_ready_def uart_stream_def in_shift_def)

lemma subseq_drop_one: "subseq (xs @ ys) (xs @ b # ys)"
  by (rule list_emb_append_mono) (simp_all add: list_emb_Cons)

lemma tx_run_stream:
  "tx_inv s \<Longrightarrow> tx_run evs s = Some s' \<Longrightarrow>
    tx_inv s' \<and> subseq (uart_stream s') (uart_stream s @ written_bytes evs) \<and>
    (0 \<le> poll_msl s \<longrightarrow> uart_stream s' = uart_stream s @ written_bytes evs)"
proof (induction evs s rule: tx_run.induct)
  case (1 s)
  then show ?case by (simp add: written_bytes_def map_filter_simps)
next
  case (2 e b evs s)
  then have room: "f_count (xmit_fifo s) < 16" by (auto split: if_splits)
  obtain t where t: "tx_pending t" "write_thr e (ucast b) s = serial_xmit e t" "uart_stream t = uart_stream s @ [b]" "poll_msl t = poll_msl s"
    using write_data [OF 2(2) room] by blast
  let ?u = "serial_xmit e t"
  have a: "serial_apply e (Port_write 0 (ucast b)) s = Some ?u" using write_data [OF 2(2) room] t(2) by auto
  have u: "tx_inv ?u" "poll_msl ?u = poll_msl s" "subseq (uart_stream ?u) (uart_stream s @ [b])"
    "0 \<le> poll_msl s \<Longrightarrow> uart_stream ?u = uart_stream s @ [b]"
    using xmit_stream [OF t(1), of e] t(3,4) by (auto intro: subseq_drop_one)
  have r: "tx_run evs ?u = Some s'" using 2(3) a room by simp
  have "written_bytes ((e, Some b) # evs) = b # written_bytes evs" by (simp add: written_bytes_def map_filter_simps)
  moreover have "subseq (uart_stream ?u @ written_bytes evs) ((uart_stream s @ [b]) @ written_bytes evs)"
    using u(3) by (rule list_emb_append_mono) simp
  ultimately show ?case using 2(1) [OF room a u(1) r] u(2,4) by (auto intro: subseq_order.trans)
next
  case (3 e evs s)
  then have armed: "transmit_timer s \<noteq> None" by (auto split: if_splits)
  let ?u = "serial_xmit e (s\<lparr>transmit_timer := None\<rparr>)"
  note f = timer_fires [OF 3(2) armed, of e]
  have u: "tx_inv ?u" "poll_msl ?u = poll_msl s" "subseq (uart_stream ?u) (uart_stream s)"
    "0 \<le> poll_msl s \<Longrightarrow> uart_stream ?u = uart_stream s"
    using xmit_stream [of "s\<lparr>transmit_timer := None\<rparr>" e] f by (auto intro: subseq_drop_one)
  have r: "tx_run evs ?u = Some s'" using 3(3) f armed by simp
  have "written_bytes ((e, None) # evs) = written_bytes evs" by (simp add: written_bytes_def map_filter_simps)
  moreover have "subseq (uart_stream ?u @ written_bytes evs) (uart_stream s @ written_bytes evs)"
    using u(3) by (rule list_emb_append_mono) simp
  ultimately show ?case using 3(1) [OF armed _ u(1) r] f u(2,4) by (auto intro: subseq_order.trans)
qed

text \<open>With a device that takes bytes again, every expiry of the timer sends one.\<close>

lemma tx_drain:
  assumes "tx_inv s" and "f_count (xmit_fifo s) \<noteq> 0 \<or> transmit_timer s \<noteq> None" and "\<forall>e \<in> set es. env_write_ok e"
    and "length es = length (in_shift s) + f_count (xmit_fifo s)"
  shows "\<exists>s'. tx_run (map (\<lambda>e. (e, None)) es) s = Some s' \<and> sent_bytes (serial_calls s') = uart_stream s \<and> f_count (xmit_fifo s') = 0"
  using assms
proof (induction es arbitrary: s)
  case Nil
  then show ?case by (auto simp: tx_inv_def in_shift_def split: if_splits)
next
  case (Cons e es)
  then have armed: "transmit_timer s \<noteq> None" by (auto simp: tx_inv_def)
  let ?t = "s\<lparr>transmit_timer := None\<rparr>" and ?u = "serial_xmit e (s\<lparr>transmit_timer := None\<rparr>)"
  note f = timer_fires [OF Cons(2) armed, of e]
  then have p: "tx_pending ?t" by simp
  have ok: "env_write_ok e" using Cons(4) by simp
  have u: "tx_inv ?u" "uart_stream ?u = uart_stream s" "in_shift ?u = []"
    "Suc (f_count (xmit_fifo ?u)) = length (in_shift s) + f_count (xmit_fifo s)"
    using xmit_stream [OF p, of e] ok f by (auto simp: in_shift_def)
  have r: "tx_run (map (\<lambda>e. (e, None)) (e # es)) s = tx_run (map (\<lambda>e. (e, None)) es) ?u" using f armed by (cases "transmit_timer s") auto
  have len: "length es = length (in_shift ?u) + f_count (xmit_fifo ?u)" using u(3,4) Cons(5) by simp
  show ?case
  proof (cases "es = []")
    case True
    with len u(3) have c: "f_count (xmit_fifo ?u) = 0" by simp
    then have "queued (xmit_fifo ?u) = []" by (simp add: queued_empty)
    then have "sent_bytes (serial_calls ?u) = uart_stream s" using u(2,3) by (simp add: uart_stream_def [of ?u])
    then show ?thesis using r True c by auto
  next
    case False
    then have "0 < length es" by simp
    then have "f_count (xmit_fifo ?u) \<noteq> 0" using len u(3) by simp
    then show ?thesis using Cons(1) [OF u(1) _ _ len] Cons(4) r u(2) by simp
  qed
qed

text \<open>A port without anything to send.\<close>

definition tx_idle :: "SerialState \<Rightarrow> bool" where
  "tx_idle s \<longleftrightarrow> tx_ready s \<and> fifo_ok (xmit_fifo s) \<and> f_count (xmit_fifo s) = 0 \<and> lsr s AND UART_LSR_THRE \<noteq> 0 \<and>
     tsr_retry s = 0 \<and> transmit_timer s = None"

lemma idle_inv: "tx_idle s \<Longrightarrow> tx_inv s \<and> uart_stream s = sent_bytes (serial_calls s)"
  by (auto simp: tx_idle_def tx_inv_def uart_stream_def in_shift_def queued_empty)

text \<open>C21: [serial_transmit] With the queues on, whatever the guest writes while there is room and whatever the character device
  refuses: the bytes it took, the one waiting in the shift register and the queue are the bytes written, in order. Only
  with a device that has no modem lines may bytes be missing, those it refused too often. Queued bytes have the timer armed,
  and once the device takes bytes, the expiries of the timer send everything that is left.\<close>

theorem serial_transmit:
  assumes "tx_idle s" and "tx_run evs s = Some s'"
  shows "subseq (uart_stream s') (sent_bytes (serial_calls s) @ written_bytes evs) \<and>
    (0 \<le> poll_msl s \<longrightarrow> uart_stream s' = sent_bytes (serial_calls s) @ written_bytes evs) \<and>
    (queued (xmit_fifo s') \<noteq> [] \<longrightarrow> transmit_timer s' \<noteq> None) \<and>
    (\<forall>es. queued (xmit_fifo s') \<noteq> [] \<and> list_all env_write_ok es \<and> length es = length (in_shift s') + f_count (xmit_fifo s') \<longrightarrow>
      (\<exists>r. tx_run (map (\<lambda>e. (e, None)) es) s' = Some r \<and> sent_bytes (serial_calls r) = uart_stream s'))"
proof -
  have i: "tx_inv s" "uart_stream s = sent_bytes (serial_calls s)" using idle_inv [OF assms(1)] by auto
  note r = tx_run_stream [OF i(1) assms(2)]
  have "\<exists>r. tx_run (map (\<lambda>e. (e, None)) es) s' = Some r \<and> sent_bytes (serial_calls r) = uart_stream s'"
    if "queued (xmit_fifo s') \<noteq> []" "list_all env_write_ok es" "length es = length (in_shift s') + f_count (xmit_fifo s')" for es
    using tx_drain [of s' es] r that by (auto simp: queued_empty list_all_iff)
  then show ?thesis using r i(2) by (auto simp: tx_inv_def queued_empty)
qed

definition serial_demo :: SerialState where
  "serial_demo = write_fcr 0x01 (serial_reset \<lparr>env_now = 0, env_write_ok = True, env_tiocm = None, env_stale = 0\<rparr> (serial_zeroed 115200 0 False))"

theorem serial_transmit_witness:
  "\<exists>s'. tx_run [(\<lparr>env_now = 5, env_write_ok = False, env_tiocm = None, env_stale = 0\<rparr>, Some 0x41),
      (\<lparr>env_now = 6, env_write_ok = False, env_tiocm = None, env_stale = 0\<rparr>, Some 0x42),
      (\<lparr>env_now = 9000000, env_write_ok = True, env_tiocm = None, env_stale = 0\<rparr>, None)] serial_demo = Some s' \<and>
    sent_bytes (serial_calls s') = [0x41] \<and> uart_stream s' = [0x41, 0x42]"
proof -
  let ?evs = "[(\<lparr>env_now = 5, env_write_ok = False, env_tiocm = None, env_stale = 0\<rparr>, Some 0x41),
      (\<lparr>env_now = 6, env_write_ok = False, env_tiocm = None, env_stale = 0\<rparr>, Some 0x42),
      (\<lparr>env_now = 9000000, env_write_ok = True, env_tiocm = None, env_stale = 0\<rparr>, None)] :: (serial_env \<times> u8 option) list"
  have "tx_run ?evs serial_demo \<noteq> None" "sent_bytes (serial_calls (the (tx_run ?evs serial_demo))) = [0x41]" by code_simp+
  then obtain s' where s': "tx_run ?evs serial_demo = Some s'" "sent_bytes (serial_calls s') = [0x41]" by auto
  have "0 \<le> poll_msl serial_demo" "sent_bytes (serial_calls serial_demo) = []" by code_simp+
  moreover have "tx_idle serial_demo"
    by (simp add: serial_demo_def write_fcr_def serial_reset_def serial_zeroed_def Let_def fifo_clear_eq tx_idle_def tx_ready_def
        fifo_ok_def RECV_FIFO_def XMIT_FIFO_def)
  moreover have "written_bytes ?evs = [0x41, 0x42]" by (simp add: written_bytes_def map_filter_simps)
  ultimately have "uart_stream s' = [0x41, 0x42]" using serial_transmit [OF _ s'(1)] by simp
  with s' show ?thesis by blast
qed

section \<open>Reception through the queue\<close>

text \<open>Reads of the data register.\<close>

fun rx_read :: "serial_env list \<Rightarrow> SerialState \<Rightarrow> u8 list \<times> SerialState" where
  "rx_read [] s = ([], s)"
| "rx_read (e # es) s = (let (v, s1) = serial_ioport_read e 0 s; (vs, s2) = rx_read es s1 in (v # vs, s2))"

definition rx_ready :: "SerialState \<Rightarrow> bool" where
  "rx_ready s \<longleftrightarrow> fcr s AND UART_FCR_FE \<noteq> 0 \<and> lcr s AND UART_LCR_DLAB = 0 \<and> fifo_ok (recv_fifo s)"

lemma data_bits: "((x OR 0x02) AND 2 :: u8) = 2" "(x OR 1) AND 2 = x AND (2 :: u8)" "(x OR 1) AND 1 = (1 :: u8)"
  "(x AND NOT (1 OR 0x10)) AND 1 = (0 :: u8)" "(x AND - 18) AND 1 = (0 :: u8)"
  by (simp_all add: bit.conj_disj_distrib2 and.assoc)

lemma read_one:
  assumes "rx_ready s" and "queued (recv_fifo s) = x # xs"
  shows "fst (serial_ioport_read e 0 s) = x \<and> rx_ready (snd (serial_ioport_read e 0 s)) \<and>
    queued (recv_fifo (snd (serial_ioport_read e 0 s))) = xs \<and>
    (xs = [] \<longrightarrow> lsr (snd (serial_ioport_read e 0 s)) AND UART_LSR_DR = 0)"
proof -
  have ok: "fifo_ok (recv_fifo s)" using assms(1) by (simp add: rx_ready_def)
  have c: "f_count (recv_fifo s) \<noteq> 0" using assms(2) by (metis queued_empty list.distinct(1))
  have p: "fifo_ok (fifo_popped (recv_fifo s))" "queued (fifo_popped (recv_fifo s)) = xs" using popped_ok [OF ok] assms(2) by simp_all
  then have "f_count (fifo_popped (recv_fifo s)) = 0 \<longleftrightarrow> xs = []" by (metis queued_empty)
  then have e: "f_count (recv_fifo s) = Suc 0 \<longleftrightarrow> xs = []" using c by auto
  show ?thesis
    using assms c p e
    by (auto simp: serial_ioport_read_def read_rbr_def Let_def rx_ready_def get_recv [OF ok] timeout_at_def data_bits)
qed

lemma read_many:
  "rx_ready s \<Longrightarrow> length es \<le> length (queued (recv_fifo s)) \<Longrightarrow>
    fst (rx_read es s) = take (length es) (queued (recv_fifo s)) \<and> rx_ready (snd (rx_read es s)) \<and>
    queued (recv_fifo (snd (rx_read es s))) = drop (length es) (queued (recv_fifo s)) \<and>
    (es \<noteq> [] \<and> length es = length (queued (recv_fifo s)) \<longrightarrow> lsr (snd (rx_read es s)) AND UART_LSR_DR = 0)"
proof (induction es arbitrary: s)
  case (Cons e es)
  have "queued (recv_fifo s) \<noteq> []" using Cons(3) by (auto simp: queued_empty)
  then obtain x xs where q: "queued (recv_fifo s) = x # xs" by (auto simp: neq_Nil_conv)
  let ?t = "snd (serial_ioport_read e 0 s)"
  note r = read_one [OF Cons(2) q, of e]
  have "length es \<le> length (queued (recv_fifo ?t))" using Cons(3) q r by (metis Suc_le_mono length_Cons)
  from Cons(1) [OF _ this] r have IH: "fst (rx_read es ?t) = take (length es) xs" "rx_ready (snd (rx_read es ?t))"
    "queued (recv_fifo (snd (rx_read es ?t))) = drop (length es) xs"
    "es \<noteq> [] \<and> length es = length xs \<longrightarrow> lsr (snd (rx_read es ?t)) AND UART_LSR_DR = 0" by auto
  have "rx_read (e # es) s = (x # fst (rx_read es ?t), snd (rx_read es ?t))" using r by (cases "serial_ioport_read e 0 s") (simp add: Let_def split: prod.split)
  moreover have "length (queued (recv_fifo s)) = Suc (length xs)" using q by simp
  ultimately show ?case using IH r q by (cases "es = []") auto
qed simp

lemma put_lsr:
  "fifo_ok (recv_fifo s) \<Longrightarrow> lsr (fifo_put RECV_FIFO c s) AND 2 = (if f_count (recv_fifo s) < 16 then lsr s AND 2 else 2)"
  by (simp add: put_recv data_bits)

lemma put_same: "fcr (fifo_put k c s) = fcr s" "lcr (fifo_put k c s) = lcr s"
  by (simp_all add: fifo_put_def Let_def set_fifo_def)

lemma put_all_lsr:
  "fifo_ok (recv_fifo s) \<Longrightarrow> lsr (fold (fifo_put RECV_FIFO) buf s) AND 2 \<noteq> 0 \<longleftrightarrow>
    lsr s AND 2 \<noteq> 0 \<or> 16 < f_count (recv_fifo s) + length buf"
proof (induction buf arbitrary: s)
  case Nil
  then show ?case by (auto simp: fifo_ok_def)
next
  case (Cons c buf)
  have ok: "fifo_ok (recv_fifo (fifo_put RECV_FIFO c s))" using uart_rx.inv_put Cons(2) by simp
  have "f_count (recv_fifo (fifo_put RECV_FIFO c s)) = min 16 (Suc (f_count (recv_fifo s)))"
    using Cons(2) by (auto simp: put_recv fifo_ok_def)
  then show ?case using Cons(1) [OF ok] put_lsr [OF Cons(2), of c] Cons(2) by (auto simp: fifo_ok_def)
qed

lemma receive_facts:
  assumes "rx_ready s"
  shows serial_receive_queue: "queued (recv_fifo (serial_receive1 e buf s)) = take 16 (queued (recv_fifo s) @ buf) \<and>
      lsr (serial_receive1 e buf s) AND UART_LSR_DR \<noteq> 0"
    and receive_ready: "rx_ready (serial_receive1 e buf s)"
    and receive_overrun: "lsr (serial_receive1 e buf s) AND UART_LSR_OE \<noteq> 0 \<longleftrightarrow>
      lsr s AND UART_LSR_OE \<noteq> 0 \<or> 16 < length (queued (recv_fifo s) @ buf)"
proof -
  let ?s1 = "if wakeup s then serial_call Wakeup_request s else s"
  let ?f = "fold (fifo_put RECV_FIFO) buf ?s1"
  have ok: "fifo_ok (recv_fifo ?s1)" using assms(1) by (simp add: rx_ready_def)
  have f: "fifo_ok (recv_fifo ?f)" "queued (recv_fifo ?f) = take 16 (queued (recv_fifo s) @ buf)"
    using uart_rx.inv_put_all [OF ok, of buf] uart_rx.contents_put_all [OF ok, of buf] by (simp_all add: foldl_conv_fold)
  have "fcr (fold (fifo_put RECV_FIFO) buf t) = fcr t \<and> lcr (fold (fifo_put RECV_FIFO) buf t) = lcr t" for t
    by (induction buf arbitrary: t) (simp_all add: put_same)
  then have fr: "fcr ?f = fcr s \<and> lcr ?f = lcr s" by (simp add: serial_call_def)
  have r: "serial_receive1 e buf s = serial_update_irq (timeout_at e (?f\<lparr>lsr := lsr ?f OR UART_LSR_DR\<rparr>))"
    using assms(1) by (simp add: serial_receive1_def Let_def rx_ready_def)
  have l: "lsr (serial_receive1 e buf s) = lsr ?f OR 1" by (simp add: r timeout_at_def)
  show "rx_ready (serial_receive1 e buf s)" using f fr assms(1) by (simp add: r rx_ready_def timeout_at_def)
  show "queued (recv_fifo (serial_receive1 e buf s)) = take 16 (queued (recv_fifo s) @ buf) \<and>
      lsr (serial_receive1 e buf s) AND UART_LSR_DR \<noteq> 0"
    using f fr assms(1) by (simp add: r timeout_at_def data_bits)
  show "lsr (serial_receive1 e buf s) AND UART_LSR_OE \<noteq> 0 \<longleftrightarrow> lsr s AND UART_LSR_OE \<noteq> 0 \<or> 16 < length (queued (recv_fifo s) @ buf)"
    using put_all_lsr [OF ok, of buf] by (simp add: l data_bits)
qed

text \<open>C36: [serial_receive] With the queues on, bytes that arrive are put behind the ones not read yet, as far as the sixteen places
  go; when they do not, the overrun is flagged. The guest reads them in the order of arrival, and the data flag is clear after
  the last.\<close>

theorem serial_receive:
  assumes "rx_ready s" and "length es \<le> length (take 16 (queued (recv_fifo s) @ buf))"
  shows "queued (recv_fifo (serial_receive1 e buf s)) = take 16 (queued (recv_fifo s) @ buf) \<and>
    lsr (serial_receive1 e buf s) AND UART_LSR_DR \<noteq> 0 \<and>
    (lsr (serial_receive1 e buf s) AND UART_LSR_OE \<noteq> 0 \<longleftrightarrow>
      lsr s AND UART_LSR_OE \<noteq> 0 \<or> 16 < length (queued (recv_fifo s) @ buf)) \<and>
    fst (rx_read es (serial_receive1 e buf s)) = take (length es) (take 16 (queued (recv_fifo s) @ buf)) \<and>
    (es \<noteq> [] \<and> length es = length (take 16 (queued (recv_fifo s) @ buf)) \<longrightarrow>
      lsr (snd (rx_read es (serial_receive1 e buf s))) AND UART_LSR_DR = 0)"
proof -
  note q = serial_receive_queue [OF assms(1), of e buf]
  have "length es \<le> length (queued (recv_fifo (serial_receive1 e buf s)))" using assms(2) by (simp only: q)
  note m = read_many [OF receive_ready [OF assms(1)] this, unfolded q [THEN conjunct1]]
  with q receive_overrun [OF assms(1), of e buf] show ?thesis by blast
qed

theorem serial_receive_witness:
  "fst (rx_read [\<lparr>env_now = 7, env_write_ok = True, env_tiocm = None, env_stale = 0\<rparr>, \<lparr>env_now = 8, env_write_ok = True, env_tiocm = None, env_stale = 0\<rparr>]
     (serial_receive1 \<lparr>env_now = 5, env_write_ok = True, env_tiocm = None, env_stale = 0\<rparr> [0x48, 0x69] serial_demo)) = [0x48, 0x69]"
proof -
  have "rx_ready serial_demo"
    by (simp add: serial_demo_def write_fcr_def serial_reset_def serial_zeroed_def Let_def fifo_clear_eq rx_ready_def
        fifo_ok_def RECV_FIFO_def XMIT_FIFO_def)
  moreover have "queued (recv_fifo serial_demo) = []" by code_simp
  ultimately show ?thesis
    using serial_receive [of serial_demo "[\<lparr>env_now = 7, env_write_ok = True, env_tiocm = None, env_stale = 0\<rparr>,
      \<lparr>env_now = 8, env_write_ok = True, env_tiocm = None, env_stale = 0\<rparr>]" "[0x48, 0x69]"
      "\<lparr>env_now = 5, env_write_ok = True, env_tiocm = None, env_stale = 0\<rparr>"] by simp
qed

section \<open>Loopback\<close>

text \<open>[serial_loopback] In loopback mode a byte the guest writes is the byte it reads next, with the queues on or off; nothing is
  handed to the character device.\<close>

theorem serial_loopback:
  assumes "mcr s AND UART_MCR_LOOP \<noteq> 0" and "lcr s AND UART_LCR_DLAB = 0" and "tsr_retry s \<le> 0"
    and "fcr s AND UART_FCR_FE = 0 \<or> fifo_ok (recv_fifo s) \<and> fifo_ok (xmit_fifo s) \<and> queued (recv_fifo s) = [] \<and> queued (xmit_fifo s) = []"
  shows "\<exists>s1. serial_ioport_write e 0 v s = Some s1 \<and> lsr s1 AND UART_LSR_DR \<noteq> 0 \<and> fst (serial_ioport_read e' 0 s1) = ucast v \<and>
    serial_calls s1 = serial_calls s @ (if wakeup s then [Wakeup_request] else [])"
proof (cases "fcr s AND UART_FCR_FE = 0")
  case True
  let ?s2 = "serial_update_irq (s\<lparr>thr := ucast v, thr_ipending := False, lsr := lsr s AND NOT UART_LSR_THRE\<rparr>)"
  let ?s3 = "?s2\<lparr>tsr := ucast v, lsr := (lsr ?s2 OR UART_LSR_THRE) AND NOT UART_LSR_TEMT\<rparr>"
  have z: "(lsr s AND NOT UART_LSR_THRE) AND UART_LSR_THRE = 0" by (simp add: and.assoc)
  then have "xmit_load ?s2 = Some ?s3" using True assms(3) by (simp add: xmit_load_def)
  then have w: "write_thr e v s = xmit_done e (serial_receive1 e [ucast v] ?s3)"
    using True assms(1) by (simp add: write_thr_def serial_xmit_def Let_def)
  have r: "rbr (serial_receive1 e [b] t) = b" "lsr (serial_receive1 e [b] t) AND 1 = 1" "lcr (serial_receive1 e [b] t) = lcr t"
    "fcr (serial_receive1 e [b] t) = fcr t" "serial_calls (serial_receive1 e [b] t) = serial_calls t @ (if wakeup t then [Wakeup_request] else [])"
    if "fcr t AND UART_FCR_FE = 0" for b t
    using that by (simp_all add: serial_receive1_def Let_def data_bits)
  have d: "rbr (xmit_done e t) = rbr t" "lsr (xmit_done e t) AND 1 = lsr t AND 1" "lcr (xmit_done e t) = lcr t" "fcr (xmit_done e t) = fcr t"
    "serial_calls (xmit_done e t) = serial_calls t" for t
    by (simp_all add: xmit_done_def Let_def transmit_at_def bit.conj_disj_distrib2)
  have "serial_ioport_write e 0 v s = Some (write_thr e v s)" using assms(2) by (simp add: serial_ioport_write_def Let_def)
  moreover have "fst (serial_ioport_read e' 0 (write_thr e v s)) = ucast v"
    using True assms(2) by (simp add: w serial_ioport_read_def read_rbr_def Let_def d r split: prod.split)
  ultimately show ?thesis using True by (simp add: w d r)
next
  case False
  with assms(4) have ok: "fifo_ok (recv_fifo s)" "fifo_ok (xmit_fifo s)" and em: "f_count (recv_fifo s) = 0" "f_count (xmit_fifo s) = 0"
    by (auto simp: queued_empty)
  let ?x = "fifo_pushed (ucast v) (xmit_fifo s)"
  have px: "fifo_ok ?x" "queued ?x = [ucast v]" using pushed_ok [OF ok(2), of "ucast v"] em by (auto simp: queued_empty)
  let ?s2 = "serial_update_irq (s\<lparr>thr := ucast v, xmit_fifo := ?x, thr_ipending := False,
      lsr := (lsr s AND NOT UART_LSR_TEMT) AND NOT UART_LSR_THRE\<rparr>)"
  let ?s3 = "?s2\<lparr>xmit_fifo := fifo_popped ?x, tsr := ucast v, lsr := lsr ?s2 OR UART_LSR_THRE\<rparr>"
  have "xmit_load ?s2 = Some ?s3" using False assms(3) px em get_xmit [of ?s2] by (simp add: xmit_load_def)
  then have w: "write_thr e v s = xmit_done e (serial_receive1 e [ucast v] ?s3)"
    using False assms(1) put_xmit [of "s\<lparr>thr := ucast v\<rparr>" "ucast v"] ok em by (simp add: write_thr_def serial_xmit_def Let_def)
  have q: "queued (recv_fifo (serial_receive1 e [ucast v] ?s3)) = [ucast v]" and l: "lsr (serial_receive1 e [ucast v] ?s3) AND UART_LSR_DR \<noteq> 0"
    using serial_receive_queue [of ?s3 e "[ucast v]"] False assms(2) ok em by (auto simp: rx_ready_def queued_empty)
  have rr: "rx_ready (serial_receive1 e [ucast v] ?s3)"
    using receive_ready [of ?s3 e "[ucast v]"] False assms(2) ok by (simp add: rx_ready_def)
  have d: "recv_fifo (xmit_done e t) = recv_fifo t" "lsr (xmit_done e t) AND 1 = lsr t AND 1" "rx_ready (xmit_done e t) = rx_ready t"
    "serial_calls (xmit_done e t) = serial_calls t" for t
    by (simp_all add: xmit_done_def Let_def transmit_at_def bit.conj_disj_distrib2 rx_ready_def)
  have c: "serial_calls (serial_receive1 e [b] t) = serial_calls t @ (if wakeup t then [Wakeup_request] else [])" for b t
    by (simp add: serial_receive1_def Let_def timeout_at_def fifo_put_def set_fifo_def)
  have "serial_ioport_write e 0 v s = Some (write_thr e v s)" using assms(2) by (simp add: serial_ioport_write_def Let_def)
  moreover have "fst (serial_ioport_read e' 0 (write_thr e v s)) = ucast v"
    using read_one [of "write_thr e v s" "ucast v" "[]" e'] q rr by (simp add: w d)
  ultimately show ?thesis using l by (simp add: w d c)
qed

theorem serial_loopback_witness:
  "\<exists>s1. serial_ioport_write demo_env 0 0x5A (write_mcr demo_env 0x10 serial_demo) = Some s1 \<and> fst (serial_ioport_read demo_env 0 s1) = 0x5A"
proof -
  let ?s = "write_mcr demo_env 0x10 serial_demo"
  have h: "mcr ?s AND UART_MCR_LOOP \<noteq> 0" "lcr ?s AND UART_LCR_DLAB = 0" "tsr_retry ?s \<le> 0" by code_simp+
  have "fifo_ok (recv_fifo ?s)" "fifo_ok (xmit_fifo ?s)" "queued (recv_fifo ?s) = []" "queued (xmit_fifo ?s) = []"
    by (simp_all add: serial_demo_def write_mcr_def write_fcr_def serial_reset_def serial_zeroed_def Let_def fifo_clear_eq
        fifo_ok_def queued_empty RECV_FIFO_def XMIT_FIFO_def)
  then show ?thesis using serial_loopback [OF h, where e = demo_env and v = "0x5A" and e' = demo_env] by auto
qed

section \<open>Where the port fails\<close>

text \<open>C40: [serial_clear_sends] When the guest clears the transmit queue while bytes wait in it, the queue is empty, but the
  transmitter still counts as busy and its timer stays armed; when the timer expires, a null byte that the guest never wrote is
  sent.\<close>

theorem serial_clear_sends:
  assumes "tx_inv s" and "queued (xmit_fifo s) \<noteq> []" and "tsr_retry s = 0" and "fcr s \<noteq> ucast v"
    and "(ucast v :: u8) AND UART_FCR_FE \<noteq> 0" and "(ucast v :: u8) AND UART_FCR_XFR \<noteq> 0" and "env_write_ok e"
  shows "queued (xmit_fifo (write_fcr v s)) = [] \<and> lsr (write_fcr v s) AND UART_LSR_THRE = 0 \<and> transmit_timer (write_fcr v s) \<noteq> None \<and>
    (\<exists>s'. serial_apply e Transmit_fires (write_fcr v s) = Some s' \<and>
      sent_bytes (serial_calls s') = sent_bytes (serial_calls s) @ [0])"
proof -
  let ?w = "ucast v :: u8" and ?t = "write_fcr v s"
  let ?val = "if (?w XOR fcr s) AND UART_FCR_FE \<noteq> 0 then ?w OR UART_FCR_XFR OR UART_FCR_RFR else ?w"
  have val: "?val AND UART_FCR_XFR \<noteq> 0" "(?val AND 0xC9) AND UART_FCR_FE \<noteq> 0"
    using assms(5,6) by (simp_all add: bit.conj_disj_distrib2 and.assoc)
  have f: "transmit_timer ?t = transmit_timer s" "lsr ?t = lsr s" "tsr_retry ?t = tsr_retry s" "mcr ?t = mcr s" "fcr ?t = ?val AND 0xC9"
    "serial_calls ?t = serial_calls s" "f_count (xmit_fifo ?t) = 0" "poll_msl ?t = poll_msl s"
    using assms(4) val(1) by (simp_all add: write_fcr_def Let_def fifo_clear_eq RECV_FIFO_def XMIT_FIFO_def)
  let ?u = "?t\<lparr>transmit_timer := None\<rparr>"
  have g: "fifo_get XMIT_FIFO ?u = (0, ?u)" using f(7) by (simp add: fifo_get_def the_fifo_def XMIT_FIFO_def)
  then have l: "xmit_load ?u = Some (?u\<lparr>tsr := 0, lsr := lsr ?u OR UART_LSR_THRE\<rparr>)"
    using f(3,5,7) assms(3) val(2) by (simp add: xmit_load_def)
  have m: "mcr s AND UART_MCR_LOOP = 0" using assms(1) by (simp add: tx_inv_def tx_ready_def)
  have "sent_bytes (serial_calls (serial_xmit e ?u)) = sent_bytes (serial_calls s) @ [0]"
    using l m f assms(7) by (simp add: serial_xmit_def Let_def done_fields)
  then show ?thesis using f assms(1,2) by (auto simp: queued_empty tx_inv_def)
qed

definition serial_busy :: SerialState where
  "serial_busy = the (tx_run [(demo_env\<lparr>env_write_ok := False\<rparr>, Some 0x41), (demo_env\<lparr>env_write_ok := False\<rparr>, Some 0x42),
     (demo_env\<lparr>env_write_ok := False\<rparr>, Some 0x43), (demo_env, None)] serial_demo)"

theorem serial_clear_sends_witness:
  "\<exists>s'. serial_apply demo_env Transmit_fires (write_fcr 0x05 serial_busy) = Some s' \<and> sent_bytes (serial_calls s') = [0x41, 0]"
proof -
  let ?evs = "[(demo_env\<lparr>env_write_ok := False\<rparr>, Some 0x41), (demo_env\<lparr>env_write_ok := False\<rparr>, Some 0x42),
     (demo_env\<lparr>env_write_ok := False\<rparr>, Some 0x43), (demo_env, None)]"
  have "tx_run ?evs serial_demo \<noteq> None" by code_simp
  then have r: "tx_run ?evs serial_demo = Some serial_busy" by (auto simp: serial_busy_def)
  have "tx_idle serial_demo"
    by (simp add: serial_demo_def write_fcr_def serial_reset_def serial_zeroed_def Let_def fifo_clear_eq tx_idle_def tx_ready_def
        fifo_ok_def RECV_FIFO_def XMIT_FIFO_def)
  then have "tx_inv serial_demo" using idle_inv by blast
  then have i: "tx_inv serial_busy" using tx_run_stream [OF _ r] by blast
  have b: "queued (xmit_fifo serial_busy) \<noteq> []" "tsr_retry serial_busy = 0" "fcr serial_busy \<noteq> ucast (0x05 :: u32)"
    "sent_bytes (serial_calls serial_busy) = [0x41]" "env_write_ok demo_env" by code_simp+
  then show ?thesis using serial_clear_sends [OF i b(1,2,3) _ _ b(5)] by simp
qed

text \<open>[serial_unheard] While a byte waits to be sent, a write to the interrupt enable register changes neither the line nor the
  identification, whatever it enables or disables. So an interrupt enabled for data that has already arrived does not come.\<close>

theorem serial_unheard:
  assumes "lsr s AND UART_LSR_THRE = 0" and "poll_msl s < 0"
  shows "uart_irq (write_ier e v s) = uart_irq s \<and> iir (write_ier e v s) = iir s \<and> ier (write_ier e v s) = ucast v AND 0x0F \<and>
    (ucast v AND (0x01 :: u8) \<noteq> 0 \<and> fcr s AND UART_FCR_FE = 0 \<and> lsr s AND UART_LSR_DR \<noteq> 0 \<longrightarrow>
      (\<exists>src \<in> set (uart_sources (write_ier e v s)). fst src))"
  using assms by (auto simp: write_ier_def Let_def uart_sources_def and.assoc)

definition serial_waiting :: SerialState where
  "serial_waiting = serial_receive1 demo_env [0x48] (write_thr (demo_env\<lparr>env_write_ok := False\<rparr>) 0x42
     (write_thr (demo_env\<lparr>env_write_ok := False\<rparr>) 0x41 (serial_update_msl demo_env (serial_reset demo_env (serial_zeroed 115200 0 False)))))"

theorem serial_unheard_witness:
  "\<not> uart_irq (write_ier demo_env 1 serial_waiting) \<and> (\<exists>src \<in> set (uart_sources (write_ier demo_env 1 serial_waiting)). fst src)"
proof -
  have "lsr serial_waiting AND UART_LSR_THRE = 0" "poll_msl serial_waiting < 0" "\<not> uart_irq serial_waiting"
    "fcr serial_waiting AND UART_FCR_FE = 0" "lsr serial_waiting AND UART_LSR_DR \<noteq> 0" by code_simp+
  then show ?thesis using serial_unheard [of serial_waiting demo_env 1] by simp
qed

text \<open>[serial_transmit_overrun] A byte written to a full transmit queue takes the place of the oldest one, not behind the others:
  it is sent before the fifteen bytes that were written before it.\<close>

theorem serial_transmit_overrun:
  assumes "fifo_ok (xmit_fifo s)" and "f_count (xmit_fifo s) = 16"
  shows "queued (xmit_fifo (fifo_put XMIT_FIFO c s)) = c # tl (queued (xmit_fifo s))"
proof -
  have h: "f_head (xmit_fifo s) = f_tail (xmit_fifo s)" "f_tail (xmit_fifo s) < length (f_data (xmit_fifo s))"
    "length (f_data (xmit_fifo s)) = 16" using assms by (simp_all add: fifo_ok_def)
  let ?d = "f_data (xmit_fifo s)" and ?t = "f_tail (xmit_fifo s)"
  have "queued (xmit_fifo (fifo_put XMIT_FIFO c s)) = ring (?d[?t := c]) ?t 16"
    using assms(2) h by (simp add: fifo_put_def fifo_numbers the_fifo_def set_fifo_def Let_def queued_def)
  also have "\<dots> = c # ring (?d[?t := c]) (Suc ?t mod 16) 15" using ring_hd [of ?t "?d[?t := c]" 16] h by simp
  also have "ring (?d[?t := c]) (Suc ?t mod 16) 15 = ring ?d (Suc ?t mod 16) 15"
  proof (rule nth_equalityI)
    fix i assume "i < length (ring (?d[?t := c]) (Suc ?t mod 16) 15)"
    then have i: "i < 15" by simp
    have "(Suc ?t mod 16 + i) mod 16 \<noteq> ?t"
    proof
      assume "(Suc ?t mod 16 + i) mod 16 = ?t"
      then have "(?t + Suc i) mod 16 = ?t mod 16" using h by (simp add: mod_simps)
      then have "16 dvd (?t + Suc i) - ?t" by (metis le_add1 mod_eq_dvd_iff_nat)
      then show False using i by (auto dest: dvd_imp_le)
    qed
    then show "ring (?d[?t := c]) (Suc ?t mod 16) 15 ! i = ring ?d (Suc ?t mod 16) 15 ! i"
      using i h by (simp add: nth_ring)
  qed simp
  also have "ring ?d (Suc ?t mod 16) 15 = tl (queued (xmit_fifo s))"
    using ring_hd [of ?t ?d 16] h assms(2) by (simp add: queued_def)
  finally show ?thesis .
qed

text \<open>[serial_reset_queues] A reset switches off the identification of the queues but leaves them on, and a guest that then
  enables them as before is ignored.\<close>

theorem serial_reset_queues:
  "iir (serial_reset e s) AND UART_IIR_FE = 0 \<and> fcr (serial_reset e s) = fcr s \<and>
   write_fcr (ucast (fcr s)) (serial_reset e s) = serial_reset e s"
proof -
  have f: "fcr (serial_reset e s) = fcr s" "iir (serial_reset e s) = 1"
    by (simp_all add: serial_reset_def Let_def fifo_clear_eq RECV_FIFO_def XMIT_FIFO_def)
  then show ?thesis by (simp add: write_fcr_def ucast_byte)
qed

text \<open>[serial_ring_lost] The bit for the end of a ring is set when the ring line falls, but it is lost when another line changes
  before the guest has read it.\<close>

theorem serial_ring_lost:
  "(omsr AND UART_MSR_RI \<noteq> 0 \<and> m AND UART_MSR_RI = 0 \<longrightarrow> msr_deltas omsr m AND UART_MSR_TERI \<noteq> 0) \<and>
   (omsr AND UART_MSR_RI = 0 \<longrightarrow> msr_deltas omsr m AND UART_MSR_TERI = 0)"
proof -
  have mb: "(x :: u8) AND 0x40 = 0 \<longleftrightarrow> \<not> bit x 6" "x AND 0x04 = 0 \<longleftrightarrow> \<not> bit x 2" for x
    using and_exp_eq_0_iff_not_bit [of x 6] and_exp_eq_0_iff_not_bit [of x 2] by simp_all
  have "bit (m OR (drop_bit 4 m XOR drop_bit 4 omsr)) 2 \<longleftrightarrow> bit m 2 \<or> (bit m 6 \<noteq> bit omsr 6)"
    by (simp add: bit_or_iff bit_xor_iff bit_drop_bit_eq)
  then show ?thesis unfolding msr_deltas_def Let_def by (auto simp: mb bit_and_iff bit_not_iff)
qed

end
