(* ===== verification/Apic.thy ===== *)
theory Apic
  imports I8259 "HOL-Library.Monad_Syntax"
begin

unbundle bit_operations_syntax

text \<open>
  The local interrupt controllers of the processors (\<^verbatim>\<open>hw/apic.c\<close>, \<^verbatim>\<open>hw/apic_common.c\<close>), and what connects them with the
  8259 (\<^verbatim>\<open>pic_irq_request\<close> and \<^verbatim>\<open>cpu_get_pic_interrupt\<close> of \<^verbatim>\<open>hw/pc.c\<close>). A controller with its processor is a record; what all
  controllers share (the counter of delivered interrupts, the guest memory with the shadow registers, the 8259) is another,
  \<open>apic_world\<close>. The functions that call each other in a circle, \<^verbatim>\<open>apic_update_irq\<close>, \<^verbatim>\<open>apic_local_deliver\<close> and \<^verbatim>\<open>apic_set_irq\<close>,
  take the depth of the stack as fuel; running out is \<open>None\<close>, and so is a failing assertion.
\<close>

section \<open>State\<close>

text \<open>What the controllers use of the processor: \<^verbatim>\<open>CPUX86State\<close> of \<^verbatim>\<open>target-i386/cpu.h\<close>.\<close>

record CPUX86State =
  cpu_index :: nat
  interrupt_request :: u32
  cpuid_apic :: bool
  eip :: u64
  cs_selector :: int
  cs_base :: int
  halted :: bool

abbreviation (input) CPU_INTERRUPT_HARD :: u32 where "CPU_INTERRUPT_HARD \<equiv> 0x2"
abbreviation (input) CPU_INTERRUPT_SMI :: u32 where "CPU_INTERRUPT_SMI \<equiv> 0x40"
abbreviation (input) CPU_INTERRUPT_VIRQ :: u32 where "CPU_INTERRUPT_VIRQ \<equiv> 0x100"
abbreviation (input) CPU_INTERRUPT_NMI :: u32 where "CPU_INTERRUPT_NMI \<equiv> 0x200"
abbreviation (input) CPU_INTERRUPT_INIT :: u32 where "CPU_INTERRUPT_INIT \<equiv> 0x400"
abbreviation (input) CPU_INTERRUPT_SIPI :: u32 where "CPU_INTERRUPT_SIPI \<equiv> 0x800"

record APICCommonState =
  cpu_env :: CPUX86State
  apicbase :: u32
  apic_id :: u8
  arb_id :: u8
  tpr :: u8
  spurious_vec :: u32
  log_dest :: u8
  dest_mode :: u8
  isr :: "u32 list"
  tmr :: "u32 list"
  irr :: "u32 list"
  lvt :: "u32 list"
  esr :: u32
  icr :: "u32 list"
  divide_conf :: u32
  count_shift :: nat
  initial_count :: u32
  initial_count_load_time :: u64
  next_time :: u64
  apic_idx :: nat
  apic_timer_at :: "u64 option"
  timer_expiry :: u64
  sipi_vector :: nat
  wait_for_sipi :: bool
  vapic_paddr :: u64

abbreviation (input) APIC_LVT_TIMER :: nat where "APIC_LVT_TIMER \<equiv> 0"
abbreviation (input) APIC_LVT_LINT0 :: nat where "APIC_LVT_LINT0 \<equiv> 3"
abbreviation (input) APIC_LVT_LINT1 :: nat where "APIC_LVT_LINT1 \<equiv> 4"
abbreviation (input) APIC_LVT_NB :: nat where "APIC_LVT_NB \<equiv> 6"

abbreviation (input) APIC_LVT_TIMER_PERIODIC :: u32 where "APIC_LVT_TIMER_PERIODIC \<equiv> 0x20000"
abbreviation (input) APIC_LVT_MASKED :: u32 where "APIC_LVT_MASKED \<equiv> 0x10000"
abbreviation (input) APIC_LVT_LEVEL_TRIGGER :: u32 where "APIC_LVT_LEVEL_TRIGGER \<equiv> 0x8000"
abbreviation (input) ESR_ILLEGAL_ADDRESS :: u32 where "ESR_ILLEGAL_ADDRESS \<equiv> 0x80"
abbreviation (input) APIC_SV_DIRECTED_IO :: u32 where "APIC_SV_DIRECTED_IO \<equiv> 0x1000"
abbreviation (input) APIC_SV_ENABLE :: u32 where "APIC_SV_ENABLE \<equiv> 0x100"
abbreviation (input) MSR_IA32_APICBASE_BSP :: u32 where "MSR_IA32_APICBASE_BSP \<equiv> 0x100"
abbreviation (input) MSR_IA32_APICBASE_ENABLE :: u32 where "MSR_IA32_APICBASE_ENABLE \<equiv> 0x800"
abbreviation (input) MAX_APICS :: nat where "MAX_APICS \<equiv> 255"

text \<open>The delivery modes.\<close>

abbreviation (input) APIC_DM_FIXED :: nat where "APIC_DM_FIXED \<equiv> 0"
abbreviation (input) APIC_DM_LOWPRI :: nat where "APIC_DM_LOWPRI \<equiv> 1"
abbreviation (input) APIC_DM_SMI :: nat where "APIC_DM_SMI \<equiv> 2"
abbreviation (input) APIC_DM_NMI :: nat where "APIC_DM_NMI \<equiv> 4"
abbreviation (input) APIC_DM_INIT :: nat where "APIC_DM_INIT \<equiv> 5"
abbreviation (input) APIC_DM_SIPI :: nat where "APIC_DM_SIPI \<equiv> 6"
abbreviation (input) APIC_DM_EXTINT :: nat where "APIC_DM_EXTINT \<equiv> 7"

text \<open>The shared part: \<open>guest_ram\<close> is the memory that holds the shadow registers of the controllers, \<open>vcpu_thread\<close> whether
  the caller is the processors' thread, \<open>tpr_reports\<close> the accesses to the task priority reported to the patching device.\<close>

record apic_world =
  apic_irq_delivered :: u32
  apic_report_tpr_access :: bool
  tpr_reports :: "(nat \<times> bool) list"
  guest_ram :: "u64 \<Rightarrow> u8"
  vcpu_thread :: bool
  isa_pic :: i8259

type_synonym apic_focus = "APICCommonState \<times> apic_world"

definition cpu_interrupt :: "u32 \<Rightarrow> APICCommonState \<Rightarrow> APICCommonState" where
  "cpu_interrupt m s = s\<lparr>cpu_env := (cpu_env s)\<lparr>interrupt_request := interrupt_request (cpu_env s) OR m\<rparr>\<rparr>"

definition cpu_reset_interrupt :: "u32 \<Rightarrow> APICCommonState \<Rightarrow> APICCommonState" where
  "cpu_reset_interrupt m s = s\<lparr>cpu_env := (cpu_env s)\<lparr>interrupt_request := interrupt_request (cpu_env s) AND NOT m\<rparr>\<rparr>"

section \<open>Registers of 256 bits\<close>

definition clz32 :: "u32 \<Rightarrow> nat" where
  "clz32 x = length (takeWhile (\<lambda>i. \<not> bit x (31 - i)) [0..<32])"

definition ctz32 :: "u32 \<Rightarrow> nat" where
  "ctz32 x = length (takeWhile (\<lambda>i. \<not> bit x i) [0..<32])"

definition fls_bit :: "u32 \<Rightarrow> nat" where
  "fls_bit x = 31 - clz32 x"

definition ffs_bit :: "u32 \<Rightarrow> nat" where
  "ffs_bit x = ctz32 x"

definition tab_set_bit :: "u32 list \<Rightarrow> nat \<Rightarrow> u32 list" where
  "tab_set_bit tab n = tab[n div 32 := tab ! (n div 32) OR push_bit (n mod 32) 1]"

definition tab_reset_bit :: "u32 list \<Rightarrow> nat \<Rightarrow> u32 list" where
  "tab_reset_bit tab n = tab[n div 32 := tab ! (n div 32) AND NOT (push_bit (n mod 32) 1)]"

definition tab_get_bit :: "u32 list \<Rightarrow> nat \<Rightarrow> bool" where
  "tab_get_bit tab n \<longleftrightarrow> tab ! (n div 32) AND push_bit (n mod 32) 1 \<noteq> 0"

text \<open>The search from the last word down; \<^verbatim>\<open>-1\<close> is \<open>None\<close>.\<close>

fun highest_from :: "u32 list \<Rightarrow> nat \<Rightarrow> nat option" where
  "highest_from tab 0 = None"
| "highest_from tab (Suc i) = (if tab ! i \<noteq> 0 then Some (i * 32 + fls_bit (tab ! i)) else highest_from tab i)"

definition get_highest_priority_int :: "u32 list \<Rightarrow> nat option" where
  "get_highest_priority_int tab = highest_from tab 8"

section \<open>The shadow registers in guest memory\<close>

text \<open>\<^verbatim>\<open>VAPICState\<close> is packed: task priority, service, zero, request, enabled.\<close>

abbreviation (input) SYNC_FROM_VAPIC :: nat where "SYNC_FROM_VAPIC \<equiv> 1"
abbreviation (input) SYNC_TO_VAPIC :: nat where "SYNC_TO_VAPIC \<equiv> 2"
abbreviation (input) SYNC_ISR_IRR_TO_VAPIC :: nat where "SYNC_ISR_IRR_TO_VAPIC \<equiv> 4"

definition highest_or_0 :: "u32 list \<Rightarrow> nat" where
  "highest_or_0 tab = (case get_highest_priority_int tab of None \<Rightarrow> 0 | Some v \<Rightarrow> v)"

definition vapic_isr_irr :: "APICCommonState \<Rightarrow> (u64 \<Rightarrow> u8) \<Rightarrow> u64 \<Rightarrow> u8" where
  "vapic_isr_irr s ram = ram(vapic_paddr s + 1 := word_of_nat (highest_or_0 (isr s)) AND 0xf0,
     vapic_paddr s + 2 := 0, vapic_paddr s + 3 := word_of_nat (highest_or_0 (irr s)) AND 0xff)"

definition apic_sync_vapic :: "nat \<Rightarrow> apic_focus \<Rightarrow> apic_focus option" where
  "apic_sync_vapic sync_type sw =
     (let (s, w) = sw in
      if vapic_paddr s = 0 then Some (s, w)
      else (let s1 = (if sync_type AND SYNC_FROM_VAPIC \<noteq> 0 then s\<lparr>tpr := guest_ram w (vapic_paddr s)\<rparr> else s) in
            if sync_type AND SYNC_TO_VAPIC \<noteq> 0
            then (if vcpu_thread w
                  then Some (s1, w\<lparr>guest_ram := (vapic_isr_irr s1 (guest_ram w))(vapic_paddr s1 := tpr s1, vapic_paddr s1 + 4 := 1)\<rparr>)
                  else None)
            else if sync_type AND SYNC_ISR_IRR_TO_VAPIC \<noteq> 0
            then Some (s1, w\<lparr>guest_ram := vapic_isr_irr s1 (guest_ram w)\<rparr>)
            else Some (s1, w)))"

definition apic_vapic_base_update :: "apic_focus \<Rightarrow> apic_focus option" where
  "apic_vapic_base_update sw = apic_sync_vapic SYNC_TO_VAPIC sw"

section \<open>Priorities and delivery\<close>

definition apic_get_ppr :: "APICCommonState \<Rightarrow> nat" where
  "apic_get_ppr s =
     (let task = unat (drop_bit 4 (tpr s)); isrv = drop_bit 4 (highest_or_0 (isr s))
      in if task \<ge> isrv then unat (tpr s) else push_bit 4 isrv)"

definition apic_irq_pending :: "APICCommonState \<Rightarrow> int" where
  "apic_irq_pending s =
     (case get_highest_priority_int (irr s) of
        None \<Rightarrow> 0
      | Some irrv \<Rightarrow> (let ppr = apic_get_ppr s in
                     if ppr \<noteq> 0 \<and> irrv AND 0xf0 \<le> ppr AND 0xf0 then - 1 else int irrv))"

definition apic_accept_pic_intr :: "APICCommonState \<Rightarrow> bool" where
  "apic_accept_pic_intr s \<longleftrightarrow>
     apicbase s AND MSR_IA32_APICBASE_ENABLE = 0 \<or> lvt s ! APIC_LVT_LINT0 AND APIC_LVT_MASKED = 0"

definition lvt_mode :: "u32 \<Rightarrow> nat" where
  "lvt_mode l = unat (drop_bit 8 l AND 7)"

text \<open>The registers an arriving interrupt changes: the counter counts it when its bit was clear.\<close>

definition latch_irq :: "nat \<Rightarrow> bool \<Rightarrow> APICCommonState \<Rightarrow> APICCommonState" where
  "latch_irq v level s = s\<lparr>irr := tab_set_bit (irr s) v,
     tmr := if level then tab_set_bit (tmr s) v else tab_reset_bit (tmr s) v\<rparr>"

definition apic_report_irq_delivered :: "bool \<Rightarrow> apic_world \<Rightarrow> apic_world" where
  "apic_report_irq_delivered delivered w =
     w\<lparr>apic_irq_delivered := apic_irq_delivered w + (if delivered then 1 else 0)\<rparr>"

function (sequential) apic_update_irq :: "nat \<Rightarrow> apic_focus \<Rightarrow> apic_focus option"
  and apic_local_deliver :: "nat \<Rightarrow> nat \<Rightarrow> apic_focus \<Rightarrow> apic_focus option"
  and apic_set_irq :: "nat \<Rightarrow> nat \<Rightarrow> bool \<Rightarrow> apic_focus \<Rightarrow> apic_focus option" where
  "apic_update_irq 0 (s, w) = None"
| "apic_update_irq (Suc n) (s, w) =
     (if spurious_vec s AND APIC_SV_ENABLE = 0 then Some (s, w)
      else if apic_irq_pending s > 0 then Some (cpu_interrupt CPU_INTERRUPT_HARD s, w)
      else if apic_accept_pic_intr s \<and> pic_get_output (isa_pic w) then apic_local_deliver n APIC_LVT_LINT0 (s, w)
      else Some (s, w))"
| "apic_local_deliver n vector (s, w) =
     (let l = lvt s ! vector; m = lvt_mode l in
      if l AND APIC_LVT_MASKED \<noteq> 0 then Some (s, w)
      else if m = APIC_DM_SMI then Some (cpu_interrupt CPU_INTERRUPT_SMI s, w)
      else if m = APIC_DM_NMI then Some (cpu_interrupt CPU_INTERRUPT_NMI s, w)
      else if m = APIC_DM_EXTINT then Some (cpu_interrupt CPU_INTERRUPT_HARD s, w)
      else if m = APIC_DM_FIXED
      then apic_set_irq n (unat (l AND 0xff))
             ((vector = APIC_LVT_LINT0 \<or> vector = APIC_LVT_LINT1) \<and> l AND APIC_LVT_LEVEL_TRIGGER \<noteq> 0) (s, w)
      else Some (s, w))"
| "apic_set_irq n v level (s, w) =
     (let s1 = latch_irq v level s; w1 = apic_report_irq_delivered (\<not> tab_get_bit (irr s) v) w in
      if vapic_paddr s1 \<noteq> 0
      then do { sw2 \<leftarrow> apic_sync_vapic SYNC_ISR_IRR_TO_VAPIC (s1, w1);
                sw3 \<leftarrow> apic_sync_vapic SYNC_FROM_VAPIC sw2;
                apic_update_irq n sw3 }
      else apic_update_irq n (s1, w1))"
  by pat_completeness auto

termination
  by (relation "measure (\<lambda>x. case x of Inl (n, _) \<Rightarrow> 3 * n | Inr (Inl (n, _)) \<Rightarrow> 3 * n + 2 | Inr (Inr (n, _)) \<Rightarrow> 3 * n + 1)") auto

text \<open>Two calls of \<^verbatim>\<open>apic_update_irq\<close> are all that ever return (\<open>update_cases\<close>).\<close>

abbreviation (input) apic_fuel :: nat where "apic_fuel \<equiv> 2"

definition apic_deliver_pic_intr :: "bool \<Rightarrow> apic_focus \<Rightarrow> apic_focus option" where
  "apic_deliver_pic_intr level sw =
     (let (s, w) = sw; l = lvt s ! APIC_LVT_LINT0; m = lvt_mode l in
      if level then apic_local_deliver apic_fuel APIC_LVT_LINT0 (s, w)
      else if m = APIC_DM_FIXED
      then (if l AND APIC_LVT_LEVEL_TRIGGER = 0 then Some (s, w)
            else Some (cpu_reset_interrupt CPU_INTERRUPT_HARD (s\<lparr>irr := tab_reset_bit (irr s) (unat (l AND 0xff))\<rparr>), w))
      else if m = APIC_DM_EXTINT then Some (cpu_reset_interrupt CPU_INTERRUPT_HARD s, w)
      else Some (s, w))"

definition apic_external_nmi :: "apic_focus \<Rightarrow> apic_focus option" where
  "apic_external_nmi sw = apic_local_deliver apic_fuel APIC_LVT_LINT1 sw"

definition apic_poll_irq :: "apic_focus \<Rightarrow> apic_focus option" where
  "apic_poll_irq sw = do { sw1 \<leftarrow> apic_sync_vapic SYNC_FROM_VAPIC sw; apic_update_irq apic_fuel sw1 }"

section \<open>The processor's side\<close>

definition apic_set_base :: "u64 \<Rightarrow> APICCommonState \<Rightarrow> APICCommonState" where
  "apic_set_base val s =
     (let s1 = s\<lparr>apicbase := ucast (val AND 0xfffff000) OR (apicbase s AND (MSR_IA32_APICBASE_BSP OR MSR_IA32_APICBASE_ENABLE))\<rparr>
      in if val AND 0x800 = 0
         then s1\<lparr>apicbase := apicbase s1 AND NOT MSR_IA32_APICBASE_ENABLE, cpu_env := (cpu_env s1)\<lparr>cpuid_apic := False\<rparr>,
                 spurious_vec := spurious_vec s1 AND NOT APIC_SV_ENABLE\<rparr>
         else s1)"

definition apic_set_tpr :: "u8 \<Rightarrow> apic_focus \<Rightarrow> apic_focus option" where
  "apic_set_tpr val sw =
     (let (s, w) = sw in
      if vapic_paddr s = 0 then apic_update_irq apic_fuel (s\<lparr>tpr := push_bit 4 val\<rparr>, w) else Some (s, w))"

definition apic_get_tpr :: "apic_focus \<Rightarrow> (u8 \<times> apic_focus) option" where
  "apic_get_tpr sw = do { (s, w) \<leftarrow> apic_sync_vapic SYNC_FROM_VAPIC sw; Some (drop_bit 4 (tpr s), (s, w)) }"

text \<open>The interrupt the processor takes: \<^verbatim>\<open>-1\<close> leaves it to the 8259, a request of too low a priority is answered by
  the spurious vector.\<close>

definition take_irq :: "nat \<Rightarrow> APICCommonState \<Rightarrow> APICCommonState" where
  "take_irq v s = s\<lparr>irr := tab_reset_bit (irr s) v, isr := tab_set_bit (isr s) v\<rparr>"

definition apic_get_interrupt :: "apic_focus \<Rightarrow> (int \<times> apic_focus) option" where
  "apic_get_interrupt sw =
     (if spurious_vec (fst sw) AND APIC_SV_ENABLE = 0 then Some (- 1, sw)
      else do {
        (s, w) \<leftarrow> apic_sync_vapic SYNC_FROM_VAPIC sw;
        let intno = apic_irq_pending s;
        if intno = 0 then do { sw1 \<leftarrow> apic_sync_vapic SYNC_TO_VAPIC (s, w); Some (- 1, sw1) }
        else if intno < 0
        then do { sw1 \<leftarrow> apic_sync_vapic SYNC_TO_VAPIC (s, w); Some (uint (spurious_vec s AND 0xff), sw1) }
        else do {
          sw1 \<leftarrow> apic_sync_vapic SYNC_TO_VAPIC (take_irq (nat intno) s, w);
          sw2 \<leftarrow> apic_update_irq apic_fuel sw1;
          Some (intno, sw2)
        }
      })"

definition apic_startup :: "nat \<Rightarrow> APICCommonState \<Rightarrow> APICCommonState" where
  "apic_startup v s = cpu_interrupt CPU_INTERRUPT_SIPI (s\<lparr>sipi_vector := v\<rparr>)"

definition cpu_x86_load_seg_cache_sipi :: "nat \<Rightarrow> CPUX86State \<Rightarrow> CPUX86State" where
  "cpu_x86_load_seg_cache_sipi v c =
     c\<lparr>eip := 0, cs_selector := int (push_bit 8 v), cs_base := int (push_bit 12 v), halted := False\<rparr>"

definition apic_sipi :: "APICCommonState \<Rightarrow> APICCommonState" where
  "apic_sipi s =
     (let s1 = cpu_reset_interrupt CPU_INTERRUPT_SIPI s in
      if \<not> wait_for_sipi s1 then s1
      else s1\<lparr>cpu_env := cpu_x86_load_seg_cache_sipi (sipi_vector s1) (cpu_env s1), wait_for_sipi := False\<rparr>)"

section \<open>The timer\<close>

text \<open>Times are nanoseconds in 64-bit words, read as signed where the code's \<^verbatim>\<open>int64_t\<close> matters.\<close>

definition apic_elapsed :: "u64 \<Rightarrow> APICCommonState \<Rightarrow> u64" where
  "apic_elapsed now s = signed_drop_bit (count_shift s) (now - initial_count_load_time s)"

definition apic_get_current_count :: "u64 \<Rightarrow> APICCommonState \<Rightarrow> u32" where
  "apic_get_current_count now s =
     (let d = apic_elapsed now s in
      if lvt s ! APIC_LVT_TIMER AND APIC_LVT_TIMER_PERIODIC \<noteq> 0
      then initial_count s - ucast (d mod (ucast (initial_count s) + 1))
      else if sint d \<ge> uint (initial_count s) then 0 else initial_count s - ucast d)"

definition apic_next_timer :: "u64 \<Rightarrow> APICCommonState \<Rightarrow> bool \<times> APICCommonState" where
  "apic_next_timer current_time s =
     (let s1 = s\<lparr>timer_expiry := - 1\<rparr>;
          d = apic_elapsed current_time s;
          per = ucast (initial_count s) + (1 :: u64);
          at = (\<lambda>d. let t = initial_count_load_time s + push_bit (count_shift s) d
                   in (True, s1\<lparr>next_time := t, timer_expiry := t\<rparr>))
      in if lvt s ! APIC_LVT_TIMER AND APIC_LVT_MASKED \<noteq> 0 then (False, s1)
         else if lvt s ! APIC_LVT_TIMER AND APIC_LVT_TIMER_PERIODIC \<noteq> 0
         then (if initial_count s = 0 then (False, s1) else at ((d div per + 1) * per))
         else (if sint d \<ge> uint (initial_count s) then (False, s1) else at per))"

definition apic_timer_update :: "u64 \<Rightarrow> APICCommonState \<Rightarrow> APICCommonState" where
  "apic_timer_update current_time s =
     (let (armed, s1) = apic_next_timer current_time s
      in s1\<lparr>apic_timer_at := if armed then Some (next_time s1) else None\<rparr>)"

definition apic_timer :: "apic_focus \<Rightarrow> apic_focus option" where
  "apic_timer sw = do {
     (s, w) \<leftarrow> apic_local_deliver apic_fuel APIC_LVT_TIMER sw;
     Some (apic_timer_update (next_time s) s, w) }"

definition apic_post_load :: "APICCommonState \<Rightarrow> APICCommonState" where
  "apic_post_load s = s\<lparr>apic_timer_at := if timer_expiry s \<noteq> - 1 then Some (timer_expiry s) else None\<rparr>"

definition apic_pre_save :: "apic_focus \<Rightarrow> apic_focus option" where
  "apic_pre_save sw = apic_sync_vapic SYNC_FROM_VAPIC sw"

section \<open>Initialisation and reset\<close>

text \<open>A new controller is zero apart from its index, its identifier and its processor; there are at most 255.\<close>

definition apic_init_common :: "nat \<Rightarrow> u8 \<Rightarrow> APICCommonState option" where
  "apic_init_common apic_no ident =
     (if apic_no \<ge> MAX_APICS then None
      else Some \<lparr>cpu_env = \<lparr>cpu_index = apic_no, interrupt_request = 0, cpuid_apic = True, eip = 0, cs_selector = 0, cs_base = 0,
               halted = False\<rparr>,
             apicbase = 0, apic_id = ident, arb_id = 0, tpr = 0, spurious_vec = 0, log_dest = 0, dest_mode = 0, isr = replicate 8 0,
             tmr = replicate 8 0, irr = replicate 8 0, lvt = replicate APIC_LVT_NB 0, esr = 0, icr = replicate 2 0, divide_conf = 0,
             count_shift = 0, initial_count = 0, initial_count_load_time = 0, next_time = 0, apic_idx = apic_no, apic_timer_at = None,
             timer_expiry = 0, sipi_vector = 0, wait_for_sipi = False, vapic_paddr = 0\<rparr>)"

definition apic_init_reset :: "APICCommonState \<Rightarrow> APICCommonState" where
  "apic_init_reset s = s\<lparr>tpr := 0, spurious_vec := 0xff, log_dest := 0, dest_mode := 0xf,
     isr := replicate 8 0, tmr := replicate 8 0, irr := replicate 8 0, lvt := replicate APIC_LVT_NB APIC_LVT_MASKED,
     esr := 0, icr := replicate 2 0, divide_conf := 0, count_shift := 0, initial_count := 0,
     initial_count_load_time := 0, next_time := 0, wait_for_sipi := True, apic_timer_at := None, timer_expiry := - 1\<rparr>"

definition cpu_is_bsp :: "CPUX86State \<Rightarrow> bool" where
  "cpu_is_bsp c \<longleftrightarrow> cpu_index c = 0"

definition apic_reset_common :: "apic_focus \<Rightarrow> apic_focus option" where
  "apic_reset_common sw =
     (let (s, w) = sw; bsp = cpu_is_bsp (cpu_env s) in do {
      (s1, w1) \<leftarrow> apic_vapic_base_update
        (s\<lparr>apicbase := 0xfee00000 OR (if bsp then MSR_IA32_APICBASE_BSP else 0) OR MSR_IA32_APICBASE_ENABLE, vapic_paddr := 0\<rparr>, w);
      let s2 = apic_init_reset s1;
      Some (if bsp then s2\<lparr>lvt := (lvt s2)[APIC_LVT_LINT0 := 0x700]\<rparr> else s2, w1) })"

definition apic_enable_vapic :: "u64 \<Rightarrow> apic_focus \<Rightarrow> apic_focus option" where
  "apic_enable_vapic paddr sw = apic_vapic_base_update ((fst sw)\<lparr>vapic_paddr := paddr\<rparr>, snd sw)"

text \<open>What the rest of the emulator asks of the controllers, and the counter and switch they share.\<close>

definition cpu_get_apic_base :: "APICCommonState option \<Rightarrow> u64" where
  "cpu_get_apic_base d = (case d of None \<Rightarrow> 0 | Some s \<Rightarrow> ucast (apicbase s))"

definition apic_enable_tpr_access_reporting :: "bool \<Rightarrow> apic_world \<Rightarrow> apic_world" where
  "apic_enable_tpr_access_reporting enable w = w\<lparr>apic_report_tpr_access := enable\<rparr>"

definition apic_reset_irq_delivered :: "apic_world \<Rightarrow> apic_world" where
  "apic_reset_irq_delivered w = w\<lparr>apic_irq_delivered := 0\<rparr>"

definition apic_get_irq_delivered :: "apic_world \<Rightarrow> int" where
  "apic_get_irq_delivered w = sint (apic_irq_delivered w)"

section \<open>Snapshots of old versions\<close>

text \<open>The stream is the list of the bytes left; past its end it yields zeros. Its counted shift is read as a natural number.\<close>

type_synonym 'a qemu_get = "u8 list \<Rightarrow> 'a \<times> u8 list"

definition qemu_get_byte :: "u8 qemu_get" where
  "qemu_get_byte f = (case f of [] \<Rightarrow> (0, []) | b # bs \<Rightarrow> (b, bs))"

definition qemu_get_be32 :: "u32 qemu_get" where
  "qemu_get_be32 f =
     (let (a, f) = qemu_get_byte f; (b, f) = qemu_get_byte f; (c, f) = qemu_get_byte f; (d, f) = qemu_get_byte f
      in (push_bit 24 (ucast a) OR push_bit 16 (ucast b) OR push_bit 8 (ucast c) OR ucast d, f))"

definition qemu_get_be64 :: "u64 qemu_get" where
  "qemu_get_be64 f = (let (a, f) = qemu_get_be32 f; (b, f) = qemu_get_be32 f in (push_bit 32 (ucast a) OR ucast b, f))"

primrec get_tables :: "nat list \<Rightarrow> APICCommonState \<times> u8 list \<Rightarrow> APICCommonState \<times> u8 list" where
  "get_tables [] sf = sf"
| "get_tables (i # is) sf =
     (let (s, f) = sf; (a, f) = qemu_get_be32 f; (b, f) = qemu_get_be32 f; (c, f) = qemu_get_be32 f
      in get_tables is (s\<lparr>isr := (isr s)[i := a], tmr := (tmr s)[i := b], irr := (irr s)[i := c]\<rparr>, f))"

primrec get_lvts :: "nat list \<Rightarrow> APICCommonState \<times> u8 list \<Rightarrow> APICCommonState \<times> u8 list" where
  "get_lvts [] sf = sf"
| "get_lvts (i # is) sf = (let (s, f) = sf; (v, f) = qemu_get_be32 f in get_lvts is (s\<lparr>lvt := (lvt s)[i := v]\<rparr>, f))"

definition apic_load_old :: "int \<Rightarrow> APICCommonState \<Rightarrow> u8 list \<Rightarrow> (int \<times> APICCommonState \<times> u8 list)" where
  "apic_load_old version_id s f =
     (if version_id > 2 then (- 22, s, f)
      else (let (base, f) = qemu_get_be32 f; (ident, f) = qemu_get_byte f; (arb, f) = qemu_get_byte f; (task, f) = qemu_get_byte f;
                (spur, f) = qemu_get_be32 f; (ldest, f) = qemu_get_byte f; (fmt, f) = qemu_get_byte f;
                (s, f) = get_tables [0..<8] (s\<lparr>apicbase := base, apic_id := ident, arb_id := arb, tpr := task, spurious_vec := spur,
                    log_dest := ldest, dest_mode := fmt\<rparr>, f);
                (s, f) = get_lvts [0..<APIC_LVT_NB] (s, f);
                (e, f) = qemu_get_be32 f; (c0, f) = qemu_get_be32 f; (c1, f) = qemu_get_be32 f; (conf, f) = qemu_get_be32 f;
                (shift, f) = qemu_get_be32 f; (count, f) = qemu_get_be32 f; (load, f) = qemu_get_be64 f; (next, f) = qemu_get_be64 f;
                s = s\<lparr>esr := e, icr := (icr s)[0 := c0, 1 := c1], divide_conf := conf, count_shift := unat shift, initial_count := count,
                    initial_count_load_time := load, next_time := next\<rparr>;
                (s, f) = (if version_id \<ge> 2 then (let (x, f) = qemu_get_be64 f in (s\<lparr>timer_expiry := x\<rparr>, f)) else (s, f))
            in (0, apic_post_load s, f)))"

end
