(* ===== verification/ApicBus.thy ===== *)
theory ApicBus
  imports Apic
begin

unbundle bit_operations_syntax

text \<open>
  The controllers of all processors and the I/O interrupt controller between the devices and them (\<^verbatim>\<open>hw/apic.c\<close>,
  \<^verbatim>\<open>hw/ioapic.c\<close>, \<^verbatim>\<open>hw/ioapic_common.c\<close>): destinations and delivery, the I/O controller's pins and table, the end of an
  interrupt, the registers in memory, messages, and the 8259's way to the processors (\<^verbatim>\<open>hw/pc.c\<close>). The controllers are reached
  by their index, as in the code's array \<^verbatim>\<open>local_apics\<close>.
\<close>

section \<open>The machine\<close>

record IOAPICCommonState =
  ioapic_id :: u8
  ioregsel :: u8
  ioapic_irr :: u32
  ioredtbl :: "u64 list"

record apic_machine =
  local_apics :: "APICCommonState option list"
  ioapic :: "IOAPICCommonState option"
  world :: apic_world

definition apic_at :: "apic_machine \<Rightarrow> nat \<Rightarrow> APICCommonState option" where
  "apic_at m i = (if i < length (local_apics m) then local_apics m ! i else None)"

text \<open>An operation of one controller; where there is none nothing happens.\<close>

definition on_apic :: "nat \<Rightarrow> (apic_focus \<Rightarrow> apic_focus option) \<Rightarrow> apic_machine \<Rightarrow> apic_machine option" where
  "on_apic i f m =
     (case apic_at m i of
        None \<Rightarrow> Some m
      | Some s \<Rightarrow> (case f (s, world m) of
                    None \<Rightarrow> None
                  | Some (s', w) \<Rightarrow> Some (m\<lparr>local_apics := (local_apics m)[i := Some s'], world := w\<rparr>)))"

definition pure_op :: "(APICCommonState \<Rightarrow> APICCommonState) \<Rightarrow> apic_focus \<Rightarrow> apic_focus option" where
  "pure_op f sw = Some (f (fst sw), snd sw)"

primrec each_of :: "('a \<Rightarrow> 's \<Rightarrow> 's option) \<Rightarrow> 'a list \<Rightarrow> 's \<Rightarrow> 's option" where
  "each_of f [] m = Some m"
| "each_of f (x # xs) m = Option.bind (f x m) (each_of f xs)"

section \<open>Destinations\<close>

abbreviation (input) MAX_APIC_WORDS :: nat where "MAX_APIC_WORDS \<equiv> 8"

definition no_apics :: "u32 list" where "no_apics = replicate MAX_APIC_WORDS 0"
definition all_apics :: "u32 list" where "all_apics = replicate MAX_APIC_WORDS 0xffffffff"

fun find_dest_from :: "apic_machine \<Rightarrow> u8 \<Rightarrow> nat list \<Rightarrow> nat option" where
  "find_dest_from m dest [] = None"
| "find_dest_from m dest (i # is) =
     (case apic_at m i of
        None \<Rightarrow> None
      | Some a \<Rightarrow> if apic_id a = dest then Some i else find_dest_from m dest is)"

definition apic_find_dest :: "apic_machine \<Rightarrow> u8 \<Rightarrow> nat option" where
  "apic_find_dest m dest =
     (case apic_at m (unat dest) of
        Some a \<Rightarrow> if apic_id a = dest then Some (unat dest) else find_dest_from m dest [0..<MAX_APICS]
      | None \<Rightarrow> find_dest_from m dest [0..<MAX_APICS])"

definition logical_match :: "u8 \<Rightarrow> APICCommonState \<Rightarrow> bool" where
  "logical_match dest a =
     (if dest_mode a = 0xf then dest AND log_dest a \<noteq> 0
      else if dest_mode a = 0 then dest AND 0xf0 = log_dest a AND 0xf0 \<and> dest AND log_dest a AND 0x0f \<noteq> 0
      else False)"

fun logical_bits :: "apic_machine \<Rightarrow> u8 \<Rightarrow> nat list \<Rightarrow> u32 list \<Rightarrow> u32 list" where
  "logical_bits m dest [] bm = bm"
| "logical_bits m dest (i # is) bm =
     (case apic_at m i of
        None \<Rightarrow> bm
      | Some a \<Rightarrow> logical_bits m dest is (if logical_match dest a then tab_set_bit bm i else bm))"

definition apic_get_delivery_bitmask :: "apic_machine \<Rightarrow> u8 \<Rightarrow> nat \<Rightarrow> u32 list" where
  "apic_get_delivery_bitmask m dest dmode =
     (if dmode = 0
      then (if dest = 0xff then all_apics
            else (case apic_find_dest m dest of None \<Rightarrow> no_apics | Some idx \<Rightarrow> tab_set_bit no_apics idx))
      else logical_bits m dest [0..<MAX_APICS] no_apics)"

section \<open>Delivery\<close>

text \<open>The indices \<^verbatim>\<open>foreach_apic\<close> visits.\<close>

definition mask_indices :: "u32 list \<Rightarrow> nat list" where
  "mask_indices bm = concat (map (\<lambda>i. if bm ! i \<noteq> 0
     then map (\<lambda>j. i * 32 + j) (filter (\<lambda>j. bm ! i AND push_bit j 1 \<noteq> 0) [0..<32]) else []) [0..<MAX_APIC_WORDS])"

definition foreach_apic :: "u32 list \<Rightarrow> (apic_focus \<Rightarrow> apic_focus option) \<Rightarrow> apic_machine \<Rightarrow> apic_machine option" where
  "foreach_apic bm f m = each_of (\<lambda>i. on_apic i f) (mask_indices bm) m"

fun lowest_bit_from :: "u32 list \<Rightarrow> nat list \<Rightarrow> nat option" where
  "lowest_bit_from bm [] = None"
| "lowest_bit_from bm (i # is) = (if bm ! i \<noteq> 0 then Some (i * 32 + ffs_bit (bm ! i)) else lowest_bit_from bm is)"

definition apic_bus_deliver :: "u32 list \<Rightarrow> nat \<Rightarrow> nat \<Rightarrow> bool \<Rightarrow> apic_machine \<Rightarrow> apic_machine option" where
  "apic_bus_deliver bm mode vector level m =
     (if mode = APIC_DM_LOWPRI
      then (case lowest_bit_from bm [0..<MAX_APIC_WORDS] of
              None \<Rightarrow> Some m
            | Some d \<Rightarrow> on_apic d (apic_set_irq apic_fuel vector level) m)
      else if mode = APIC_DM_SMI then foreach_apic bm (pure_op (cpu_interrupt CPU_INTERRUPT_SMI)) m
      else if mode = APIC_DM_NMI then foreach_apic bm (pure_op (cpu_interrupt CPU_INTERRUPT_NMI)) m
      else if mode = APIC_DM_INIT then foreach_apic bm (pure_op (cpu_interrupt CPU_INTERRUPT_INIT)) m
      else if mode = APIC_DM_FIXED \<or> mode = APIC_DM_EXTINT
      then foreach_apic bm (apic_set_irq apic_fuel vector level) m
      else Some m)"

definition apic_deliver_irq :: "u8 \<Rightarrow> nat \<Rightarrow> nat \<Rightarrow> nat \<Rightarrow> bool \<Rightarrow> apic_machine \<Rightarrow> apic_machine option" where
  "apic_deliver_irq dest dmode mode vector level m =
     apic_bus_deliver (apic_get_delivery_bitmask m dest dmode) mode vector level m"

text \<open>A message one processor sends to others, with the shorthands of its command register.\<close>

definition icr_bitmask :: "APICCommonState \<Rightarrow> u8 \<Rightarrow> nat \<Rightarrow> apic_machine \<Rightarrow> u32 list" where
  "icr_bitmask s dest dmode m =
     (let shorthand = drop_bit 18 (icr s ! 0) AND 3 in
      if shorthand = 0 then apic_get_delivery_bitmask m dest dmode
      else if shorthand = 1 then tab_set_bit no_apics (apic_idx s)
      else if shorthand = 2 then all_apics
      else tab_reset_bit all_apics (apic_idx s))"

definition apic_deliver :: "APICCommonState \<Rightarrow> u8 \<Rightarrow> nat \<Rightarrow> nat \<Rightarrow> nat \<Rightarrow> bool \<Rightarrow> apic_machine \<Rightarrow> apic_machine option" where
  "apic_deliver s dest dmode mode vector level m =
     (let bm = icr_bitmask s dest dmode m in
      if mode = APIC_DM_INIT \<and> drop_bit 14 (icr s ! 0) AND 1 = 0 \<and> drop_bit 15 (icr s ! 0) AND 1 = 1
      then foreach_apic bm (pure_op (\<lambda>a. a\<lparr>arb_id := apic_id a\<rparr>)) m
      else if mode = APIC_DM_SIPI then foreach_apic bm (pure_op (apic_startup vector)) m
      else apic_bus_deliver bm mode vector level m)"

section \<open>The 8259 and the processors\<close>

text \<open>The 8259's output changes hands: every controller that accepts it is told. \<open>drive_pic\<close> is one drive of the output, after
  the 8259's state became \<open>p\<close>.\<close>

definition pic_irq_request :: "bool \<Rightarrow> apic_machine \<Rightarrow> apic_machine option" where
  "pic_irq_request level m =
     each_of (\<lambda>i. on_apic i (\<lambda>sw. if apic_accept_pic_intr (fst sw) then apic_deliver_pic_intr level sw else Some sw))
       [0..<length (local_apics m)] m"

definition with_pic :: "i8259 \<Rightarrow> apic_machine \<Rightarrow> apic_machine" where
  "with_pic p m = m\<lparr>world := (world m)\<lparr>isa_pic := p\<rparr>\<rparr>"

definition drive_pic :: "i8259 \<Rightarrow> apic_machine \<Rightarrow> apic_machine option" where
  "drive_pic p m = pic_irq_request (int_line p) (with_pic p m)"

text \<open>The states in which \<^verbatim>\<open>pic_read_irq\<close> drives the output: once for each acknowledged chip.\<close>

definition pic_read_drives :: "i8259 \<Rightarrow> i8259 list" where
  "pic_read_drives p =
     (case pic_get_irq (pic_m p) of
        None \<Rightarrow> []
      | Some irq \<Rightarrow>
          if irq = 2
          then (case pic_get_irq (pic_s p) of
                  None \<Rightarrow> [pic_intack Master 2 p]
                | Some irq2 \<Rightarrow> (let p1 = pic_intack Slave irq2 p in [p1, pic_intack Master 2 p1]))
          else [pic_intack Master irq p])"

definition machine_pic_read :: "apic_machine \<Rightarrow> (nat \<times> apic_machine) option" where
  "machine_pic_read m =
     (let p = isa_pic (world m) in do {
      m1 \<leftarrow> each_of drive_pic (pic_read_drives p) m;
      Some (fst (pic_read_irq p), with_pic (snd (pic_read_irq p)) m1) })"

definition machine_isa_irq :: "nat \<Rightarrow> bool \<Rightarrow> apic_machine \<Rightarrow> apic_machine option" where
  "machine_isa_irq n level m = drive_pic (isa_irq n level (isa_pic (world m))) m"

section \<open>The I/O interrupt controller\<close>

abbreviation (input) IOAPIC_NUM_PINS :: nat where "IOAPIC_NUM_PINS \<equiv> 24"
abbreviation (input) IOAPIC_LVT_MASKED :: u64 where "IOAPIC_LVT_MASKED \<equiv> 0x10000"
abbreviation (input) IOAPIC_LVT_REMOTE_IRR :: u64 where "IOAPIC_LVT_REMOTE_IRR \<equiv> 0x4000"

definition entry_level :: "u64 \<Rightarrow> bool" where
  "entry_level e \<longleftrightarrow> drop_bit 15 e AND 1 = 1"

definition entry_mode :: "u64 \<Rightarrow> nat" where
  "entry_mode e = unat (drop_bit 8 e AND 7)"

text \<open>One turn of the loop of \<^verbatim>\<open>ioapic_service\<close>.\<close>

definition mark_served :: "nat \<Rightarrow> IOAPICCommonState \<Rightarrow> IOAPICCommonState" where
  "mark_served i s =
     (if \<not> entry_level (ioredtbl s ! i) then s\<lparr>ioapic_irr := ioapic_irr s AND NOT (push_bit i 1)\<rparr>
      else s\<lparr>ioredtbl := (ioredtbl s)[i := ioredtbl s ! i OR IOAPIC_LVT_REMOTE_IRR]\<rparr>)"

definition service_pin :: "nat \<Rightarrow> apic_machine \<Rightarrow> apic_machine option" where
  "service_pin i m =
     (case ioapic m of
        None \<Rightarrow> Some m
      | Some s \<Rightarrow>
          (let entry = ioredtbl s ! i in
           if ioapic_irr s AND push_bit i 1 \<noteq> 0 \<and> entry AND IOAPIC_LVT_MASKED = 0
           then do {
             let m1 = m\<lparr>ioapic := Some (mark_served i s)\<rparr>;
             (vector, m2) \<leftarrow> (if entry_mode entry = APIC_DM_EXTINT then machine_pic_read m1
                              else Some (unat (entry AND 0xff), m1));
             apic_deliver_irq (ucast (drop_bit 56 entry)) (unat (drop_bit 11 entry AND 1)) (entry_mode entry)
               (vector mod 256) (entry_level entry) m2 }
           else Some m))"

definition ioapic_service :: "apic_machine \<Rightarrow> apic_machine option" where
  "ioapic_service m = each_of service_pin [0..<IOAPIC_NUM_PINS] m"

definition ioapic_set_irq :: "nat \<Rightarrow> bool \<Rightarrow> apic_machine \<Rightarrow> apic_machine option" where
  "ioapic_set_irq pin level m =
     (case ioapic m of
        None \<Rightarrow> Some m
      | Some s \<Rightarrow>
          (let n = (if pin = 0 then 2 else pin); entry = ioredtbl s ! n;
               active = (if entry AND 0x2000 \<noteq> 0 then \<not> level else level);
               raise = ioapic_service (m\<lparr>ioapic := Some (s\<lparr>ioapic_irr := ioapic_irr s OR push_bit n 1\<rparr>)\<rparr>)
           in if n < IOAPIC_NUM_PINS
              then (if entry_level entry
                    then (if active then raise
                          else Some (m\<lparr>ioapic := Some (s\<lparr>ioapic_irr := ioapic_irr s AND NOT (push_bit n 1)\<rparr>)\<rparr>))
                    else if active \<and> entry AND IOAPIC_LVT_MASKED = 0 then raise
                    else Some m)
              else Some m))"

definition eoi_pin :: "nat \<Rightarrow> nat \<Rightarrow> apic_machine \<Rightarrow> apic_machine option" where
  "eoi_pin vector n m =
     (case ioapic m of
        None \<Rightarrow> Some m
      | Some s \<Rightarrow>
          (let entry = ioredtbl s ! n in
           if entry AND IOAPIC_LVT_REMOTE_IRR \<noteq> 0 \<and> unat (entry AND 0xff) = vector
           then (let m1 = m\<lparr>ioapic := Some (s\<lparr>ioredtbl := (ioredtbl s)[n := entry AND NOT IOAPIC_LVT_REMOTE_IRR]\<rparr>)\<rparr>
                 in if entry AND IOAPIC_LVT_MASKED = 0 \<and> ioapic_irr s AND push_bit n 1 \<noteq> 0 then ioapic_service m1 else Some m1)
           else Some m))"

definition ioapic_eoi_broadcast :: "nat \<Rightarrow> apic_machine \<Rightarrow> apic_machine option" where
  "ioapic_eoi_broadcast vector m = each_of (eoi_pin vector) [0..<IOAPIC_NUM_PINS] m"

definition ioapic_reset_common :: "IOAPICCommonState \<Rightarrow> IOAPICCommonState" where
  "ioapic_reset_common s = s\<lparr>ioapic_id := 0, ioregsel := 0, ioapic_irr := 0, ioredtbl := replicate IOAPIC_NUM_PINS 0x10000\<rparr>"

text \<open>The table entry the register index selects.\<close>

definition redtbl_index :: "u8 \<Rightarrow> nat option" where
  "redtbl_index r = (if 16 \<le> unat r \<and> (unat r - 16) div 2 < IOAPIC_NUM_PINS then Some ((unat r - 16) div 2) else None)"

definition ioapic_mem_read :: "u64 \<Rightarrow> nat \<Rightarrow> IOAPICCommonState \<Rightarrow> u32" where
  "ioapic_mem_read addr n s =
     (if addr AND 0xff = 0 then ucast (ioregsel s)
      else if addr AND 0xff = 0x10 \<and> n = 4
      then (if ioregsel s = 0 then push_bit 24 (ucast (ioapic_id s))
            else if ioregsel s = 1 then 0x11 OR push_bit 16 23
            else if ioregsel s = 2 then 0
            else (case redtbl_index (ioregsel s) of
                    None \<Rightarrow> 0
                  | Some i \<Rightarrow> if ioregsel s AND 1 \<noteq> 0 then ucast (drop_bit 32 (ioredtbl s ! i))
                             else ucast (ioredtbl s ! i AND 0xffffffff)))
      else 0)"

definition redtbl_write :: "bool \<Rightarrow> u64 \<Rightarrow> u64 \<Rightarrow> u64" where
  "redtbl_write high val e =
     (if high then (e AND 0xffffffff) OR push_bit 32 val else (e AND NOT 0xffffffff) OR val)"

definition ioapic_mem_write :: "u64 \<Rightarrow> u64 \<Rightarrow> nat \<Rightarrow> apic_machine \<Rightarrow> apic_machine option" where
  "ioapic_mem_write addr val n m =
     (case ioapic m of
        None \<Rightarrow> Some m
      | Some s \<Rightarrow>
          (if addr AND 0xff = 0 then Some (m\<lparr>ioapic := Some (s\<lparr>ioregsel := ucast val\<rparr>)\<rparr>)
           else if addr AND 0xff = 0x10 \<and> n = 4
           then (if ioregsel s = 0 then Some (m\<lparr>ioapic := Some (s\<lparr>ioapic_id := ucast (drop_bit 24 val AND 0xf)\<rparr>)\<rparr>)
                 else if ioregsel s = 1 \<or> ioregsel s = 2 then Some m
                 else (case redtbl_index (ioregsel s) of
                         None \<Rightarrow> Some m
                       | Some i \<Rightarrow> ioapic_service (m\<lparr>ioapic := Some (s\<lparr>ioredtbl :=
                           (ioredtbl s)[i := redtbl_write (ioregsel s AND 1 \<noteq> 0) val (ioredtbl s ! i)]\<rparr>)\<rparr>)))
           else Some m))"

definition gsi_handler :: "nat \<Rightarrow> bool \<Rightarrow> apic_machine \<Rightarrow> apic_machine option" where
  "gsi_handler n level m = do {
     m1 \<leftarrow> (if n < 16 then machine_isa_irq n level m else Some m);
     ioapic_set_irq n level m1 }"

section \<open>The end of an interrupt, and the processor\<close>

definition apic_eoi :: "nat \<Rightarrow> apic_machine \<Rightarrow> apic_machine option" where
  "apic_eoi i m =
     (case apic_at m i of
        None \<Rightarrow> Some m
      | Some s \<Rightarrow>
          (case get_highest_priority_int (isr s) of
             None \<Rightarrow> Some m
           | Some isrv \<Rightarrow> do {
               m1 \<leftarrow> on_apic i (pure_op (\<lambda>s. s\<lparr>isr := tab_reset_bit (isr s) isrv\<rparr>)) m;
               m2 \<leftarrow> (if spurious_vec s AND APIC_SV_DIRECTED_IO = 0 \<and> tab_get_bit (tmr s) isrv
                       then ioapic_eoi_broadcast isrv m1 else Some m1);
               on_apic i (\<lambda>sw. do { sw1 \<leftarrow> apic_sync_vapic (SYNC_FROM_VAPIC OR SYNC_TO_VAPIC) sw;
                                    apic_update_irq apic_fuel sw1 }) m2 }))"

text \<open>The vector the processor takes, \<^verbatim>\<open>-1\<close> for none; \<open>cpu_take_hard\<close> is the loop of \<^verbatim>\<open>cpu-exec.c\<close> around it.\<close>

definition machine_get_interrupt :: "nat \<Rightarrow> apic_machine \<Rightarrow> (int \<times> apic_machine) option" where
  "machine_get_interrupt i m =
     (case apic_at m i of
        None \<Rightarrow> Some (- 1, m)
      | Some s \<Rightarrow> (case apic_get_interrupt (s, world m) of
                    None \<Rightarrow> None
                  | Some (v, s', w) \<Rightarrow> Some (v, m\<lparr>local_apics := (local_apics m)[i := Some s'], world := w\<rparr>)))"

definition cpu_get_pic_interrupt :: "nat \<Rightarrow> apic_machine \<Rightarrow> (int \<times> apic_machine) option" where
  "cpu_get_pic_interrupt i m = do {
     (intno, m1) \<leftarrow> machine_get_interrupt i m;
     if intno \<ge> 0 then Some (intno, m1)
     else if (case apic_at m1 i of None \<Rightarrow> False | Some s \<Rightarrow> \<not> apic_accept_pic_intr s) then Some (- 1, m1)
     else do { (v, m2) \<leftarrow> machine_pic_read m1; Some (int v, m2) } }"

definition cpu_take_hard :: "nat \<Rightarrow> apic_machine \<Rightarrow> (int \<times> apic_machine) option" where
  "cpu_take_hard i m = do {
     m1 \<leftarrow> on_apic i (pure_op (cpu_reset_interrupt (CPU_INTERRUPT_HARD OR CPU_INTERRUPT_VIRQ))) m;
     cpu_get_pic_interrupt i m1 }"

section \<open>The registers in memory\<close>

text \<open>Byte and word accesses have no effect; \<open>cur\<close> is the controller of the running processor.\<close>

definition apic_mem_readb :: "u64 \<Rightarrow> u32" where "apic_mem_readb addr = 0"
definition apic_mem_readw :: "u64 \<Rightarrow> u32" where "apic_mem_readw addr = 0"
definition apic_mem_writeb :: "u64 \<Rightarrow> u32 \<Rightarrow> apic_machine \<Rightarrow> apic_machine" where "apic_mem_writeb addr val m = m"
definition apic_mem_writew :: "u64 \<Rightarrow> u32 \<Rightarrow> apic_machine \<Rightarrow> apic_machine" where "apic_mem_writew addr val m = m"

definition apic_get_arb_pri :: "APICCommonState \<Rightarrow> u32" where "apic_get_arb_pri s = 0"

definition reg_index :: "u64 \<Rightarrow> nat" where
  "reg_index addr = unat (drop_bit 4 addr AND 0xff)"

definition apic_reg :: "u64 \<Rightarrow> nat \<Rightarrow> APICCommonState \<Rightarrow> u32 option" where
  "apic_reg now index s =
     (if index = 0x02 then Some (push_bit 24 (ucast (apic_id s)))
      else if index = 0x03 then Some (0x11 OR push_bit 16 5)
      else if index = 0x08 then Some (ucast (tpr s))
      else if index = 0x09 then Some (apic_get_arb_pri s)
      else if index = 0x0a then Some (word_of_nat (apic_get_ppr s))
      else if index = 0x0b then Some 0
      else if index = 0x0d then Some (push_bit 24 (ucast (log_dest s)))
      else if index = 0x0e then Some (push_bit 28 (ucast (dest_mode s)))
      else if index = 0x0f then Some (spurious_vec s)
      else if 0x10 \<le> index \<and> index \<le> 0x17 then Some (isr s ! (index mod 8))
      else if 0x18 \<le> index \<and> index \<le> 0x1f then Some (tmr s ! (index mod 8))
      else if 0x20 \<le> index \<and> index \<le> 0x27 then Some (irr s ! (index mod 8))
      else if index = 0x28 then Some (esr s)
      else if index = 0x30 \<or> index = 0x31 then Some (icr s ! (index mod 2))
      else if 0x32 \<le> index \<and> index \<le> 0x37 then Some (lvt s ! (index - 0x32))
      else if index = 0x38 then Some (initial_count s)
      else if index = 0x39 then Some (apic_get_current_count now s)
      else if index = 0x3e then Some (divide_conf s)
      else None)"

definition illegal_address :: "APICCommonState \<Rightarrow> APICCommonState" where
  "illegal_address s = s\<lparr>esr := esr s OR ESR_ILLEGAL_ADDRESS\<rparr>"

definition cpu_report_tpr_access :: "bool \<Rightarrow> apic_focus \<Rightarrow> apic_focus" where
  "cpu_report_tpr_access writing sw =
     (let (s, w) = sw in
      (s, if apic_report_tpr_access w then w\<lparr>tpr_reports := tpr_reports w @ [(cpu_index (cpu_env s), writing)]\<rparr> else w))"

definition apic_mem_readl :: "nat option \<Rightarrow> u64 \<Rightarrow> u64 \<Rightarrow> apic_machine \<Rightarrow> (u32 \<times> apic_machine) option" where
  "apic_mem_readl cur now addr m =
     (case cur of
        None \<Rightarrow> Some (0, m)
      | Some i \<Rightarrow> do {
          let index = reg_index addr;
          m1 \<leftarrow> (if index = 0x08
                  then on_apic i (\<lambda>sw. do { sw1 \<leftarrow> apic_sync_vapic SYNC_FROM_VAPIC sw; Some (cpu_report_tpr_access False sw1) }) m
                  else Some m);
          (case apic_at m1 i of
             None \<Rightarrow> Some (0, m1)
           | Some s \<Rightarrow> (case apic_reg now index s of
                         Some v \<Rightarrow> Some (v, m1)
                       | None \<Rightarrow> do { m2 \<leftarrow> on_apic i (pure_op illegal_address) m1; Some (0, m2) })) })"

definition apic_send_msi :: "u64 \<Rightarrow> u32 \<Rightarrow> apic_machine \<Rightarrow> apic_machine option" where
  "apic_send_msi addr data m =
     apic_deliver_irq (ucast (drop_bit 12 (addr AND 0xffff0))) (unat (drop_bit 2 addr AND 1)) (unat (drop_bit 8 data AND 7))
       (unat (data AND 0xff)) (drop_bit 15 data AND 1 = 1) m"

definition divide_shift :: "u32 \<Rightarrow> nat" where
  "divide_shift conf = unat (((conf AND 3) OR (drop_bit 1 conf AND 4)) + 1 AND 7)"

text \<open>The registers that only the writing controller sees.\<close>

definition apic_write_own :: "u64 \<Rightarrow> nat \<Rightarrow> u32 \<Rightarrow> apic_focus \<Rightarrow> apic_focus option" where
  "apic_write_own now index val sw =
     (let (s, w) = sw in
      if index = 0x02 then Some (s\<lparr>apic_id := ucast (drop_bit 24 val)\<rparr>, w)
      else if index = 0x08
      then do { sw1 \<leftarrow> apic_sync_vapic SYNC_TO_VAPIC
                  (let (s1, w1) = cpu_report_tpr_access True (s, w) in (s1\<lparr>tpr := ucast val\<rparr>, w1));
                apic_update_irq apic_fuel sw1 }
      else if index = 0x0d then Some (s\<lparr>log_dest := ucast (drop_bit 24 val)\<rparr>, w)
      else if index = 0x0e then Some (s\<lparr>dest_mode := ucast (drop_bit 28 val)\<rparr>, w)
      else if index = 0x0f then apic_update_irq apic_fuel (s\<lparr>spurious_vec := val AND 0x1ff\<rparr>, w)
      else if index = 0x31 then Some (s\<lparr>icr := (icr s)[1 := val]\<rparr>, w)
      else if 0x32 \<le> index \<and> index \<le> 0x37
      then (let s1 = s\<lparr>lvt := (lvt s)[index - 0x32 := val]\<rparr>
            in Some (if index - 0x32 = APIC_LVT_TIMER then apic_timer_update now s1 else s1, w))
      else if index = 0x38
      then Some (apic_timer_update now (s\<lparr>initial_count := val, initial_count_load_time := now\<rparr>), w)
      else if index = 0x3e then Some (s\<lparr>divide_conf := val AND 0xb, count_shift := divide_shift (val AND 0xb)\<rparr>, w)
      else if index = 0x03 \<or> index = 0x09 \<or> index = 0x0a \<or> (0x10 \<le> index \<and> index \<le> 0x28) \<or> index = 0x39 then Some (s, w)
      else Some (illegal_address s, w))"

definition apic_mem_writel :: "nat option \<Rightarrow> u64 \<Rightarrow> u64 \<Rightarrow> u32 \<Rightarrow> apic_machine \<Rightarrow> apic_machine option" where
  "apic_mem_writel cur now addr val m =
     (let index = reg_index addr in
      if addr > 0xfff \<or> index = 0 then apic_send_msi addr val m
      else (case cur of
              None \<Rightarrow> Some m
            | Some i \<Rightarrow>
                if index = 0x0b then apic_eoi i m
                else if index = 0x30
                then do {
                  m1 \<leftarrow> on_apic i (pure_op (\<lambda>s. s\<lparr>icr := (icr s)[0 := val]\<rparr>)) m;
                  (case apic_at m1 i of
                     None \<Rightarrow> Some m1
                   | Some s \<Rightarrow> apic_deliver s (ucast (drop_bit 24 (icr s ! 1) AND 0xff)) (unat (drop_bit 11 val AND 1))
                                (unat (drop_bit 8 val AND 7)) (unat (val AND 0xff)) (drop_bit 15 val AND 1 = 1) m1) }
                else on_apic i (apic_write_own now index val) m))"

end
