(* ===== verification/ApicLaws.thy ===== *)
theory ApicLaws
  imports ApicBus
begin

unbundle bit_operations_syntax

text \<open>
  The laws of the local interrupt controllers: their 256-bit registers as sets of vectors, the priorities on these sets, what the
  operations keep, and when the functions that call each other return.
\<close>

section \<open>Registers as sets of vectors\<close>

text \<open>A register that holds a set of vectors and gives its greatest.\<close>

locale priority_register =
  fixes ok :: "'r \<Rightarrow> bool"
    and vecs :: "'r \<Rightarrow> nat set"
    and put :: "'r \<Rightarrow> nat \<Rightarrow> 'r"
    and clear :: "'r \<Rightarrow> nat \<Rightarrow> 'r"
    and top :: "'r \<Rightarrow> nat option"
    and size_of :: nat
  assumes ok_put: "ok r \<Longrightarrow> ok (put r v)"
    and ok_clear: "ok r \<Longrightarrow> ok (clear r v)"
    and vecs_small: "vecs r \<subseteq> {..<size_of}"
    and vecs_put: "ok r \<Longrightarrow> v < size_of \<Longrightarrow> vecs (put r v) = insert v (vecs r)"
    and vecs_clear: "ok r \<Longrightarrow> v < size_of \<Longrightarrow> vecs (clear r v) = vecs r - {v}"
    and top_vecs: "ok r \<Longrightarrow> top r = (if vecs r = {} then None else Some (Max (vecs r)))"
begin

lemma finite_vecs: "finite (vecs r)"
  using vecs_small by (rule finite_subset) simp

lemma top_Some: "ok r \<Longrightarrow> top r = Some v \<longleftrightarrow> v \<in> vecs r \<and> (\<forall>u\<in>vecs r. u \<le> v)"
  using Max_eq_iff [OF finite_vecs, of r v] by (auto simp: top_vecs)

lemma top_None: "ok r \<Longrightarrow> top r = None \<longleftrightarrow> vecs r = {}"
  by (simp add: top_vecs)

lemma top_small: "ok r \<Longrightarrow> top r = Some v \<Longrightarrow> v < size_of"
  using vecs_small by (auto simp: top_Some)

lemma top_put:
  assumes "ok r" "v < size_of" "\<forall>u\<in>vecs r. u < v"
  shows "top (put r v) = Some v"
  using assms by (auto simp: top_Some ok_put vecs_put less_imp_le)

text \<open>The greatest one is put in and taken out again like the top of a stack.\<close>

lemma put_clear_top:
  assumes "ok r" "v < size_of" "\<forall>u\<in>vecs r. u < v"
  shows "vecs (clear (put r v) v) = vecs r"
  using assms by (auto simp: vecs_put vecs_clear ok_put)

end

definition tab_ok :: "u32 list \<Rightarrow> bool" where
  "tab_ok tab \<longleftrightarrow> length tab = 8"

definition vectors :: "u32 list \<Rightarrow> nat set" where
  "vectors tab = {v. v < 256 \<and> bit (tab ! (v div 32)) (v mod 32)}"

lemma u32_bit_test [simp]: "((x :: u32) AND 2 ^ n = 0) = (\<not> bit x n)"
  by (rule and_exp_eq_0_iff_not_bit)

lemma tab_get_bit_iff: "v < 256 \<Longrightarrow> tab_get_bit tab v \<longleftrightarrow> v \<in> vectors tab"
  by (simp add: tab_get_bit_def vectors_def)

lemma same_word: "u div 32 = v div 32 \<Longrightarrow> u mod 32 = v mod 32 \<longleftrightarrow> u = v" for u v :: nat
  by (metis mult_div_mod_eq)

lemma one_bit: "n < 32 \<Longrightarrow> bit (2 ^ n :: u32) j \<longleftrightarrow> j = n"
  by (auto simp: bit_exp_iff)

lemma tab_set_bit_bits:
  assumes "tab_ok tab" "v < 256"
  shows "bit (tab_set_bit tab v ! (u div 32)) (u mod 32) \<longleftrightarrow> u = v \<or> bit (tab ! (u div 32)) (u mod 32)"
proof (cases "u div 32 = v div 32")
  case True
  then show ?thesis using assms same_word [OF True]
    by (simp add: tab_set_bit_def tab_ok_def bit_or_iff one_bit) blast
qed (auto simp: tab_set_bit_def)

lemma tab_reset_bit_bits:
  assumes "tab_ok tab" "v < 256"
  shows "bit (tab_reset_bit tab v ! (u div 32)) (u mod 32) \<longleftrightarrow> u \<noteq> v \<and> bit (tab ! (u div 32)) (u mod 32)"
proof (cases "u div 32 = v div 32")
  case True
  then show ?thesis using assms same_word [OF True]
    by (simp add: tab_reset_bit_def tab_ok_def bit_and_iff bit_not_iff one_bit) blast
qed (auto simp: tab_reset_bit_def)

lemma vectors_set_bit: "tab_ok tab \<Longrightarrow> v < 256 \<Longrightarrow> vectors (tab_set_bit tab v) = insert v (vectors tab)"
  by (simp add: vectors_def tab_set_bit_bits) blast

lemma vectors_reset_bit: "tab_ok tab \<Longrightarrow> v < 256 \<Longrightarrow> vectors (tab_reset_bit tab v) = vectors tab - {v}"
  by (simp add: vectors_def tab_reset_bit_bits) blast

lemma tab_ok_bits [simp]: "tab_ok (tab_set_bit tab v) = tab_ok tab" "tab_ok (tab_reset_bit tab v) = tab_ok tab"
  "tab_ok (replicate 8 0)"
  by (simp_all add: tab_ok_def tab_set_bit_def tab_reset_bit_def)

lemma vectors_zero [simp]: "vectors (replicate 8 0) = {}"
  by (auto simp: vectors_def)

lemma takeWhile_upt:
  fixes k :: nat
  assumes n: "n = length (takeWhile P [0..<k])"
  shows "n \<le> k" "i < n \<Longrightarrow> P i" "n < k \<Longrightarrow> \<not> P n"
proof -
  show le: "n \<le> k" using length_takeWhile_le [of P "[0..<k]"] n by simp
  show "n < k \<Longrightarrow> \<not> P n" using n nth_length_takeWhile [of P "[0..<k]"] by simp
  assume i: "i < n"
  then have "takeWhile P [0..<k] ! i = i" using n le by (simp add: takeWhile_nth)
  moreover have "takeWhile P [0..<k] ! i \<in> set (takeWhile P [0..<k])" using i n by (intro nth_mem) simp
  ultimately show "P i" using set_takeWhileD by metis
qed

lemma fls_bit_top:
  assumes "x \<noteq> 0"
  shows "fls_bit x < 32" "bit x (fls_bit x)" "fls_bit x < j \<Longrightarrow> \<not> bit x j"
proof -
  let ?n = "clz32 x"
  note t = takeWhile_upt [OF clz32_def [of x]]
  have z: "\<not> bit x j" if "31 - j < ?n" "j < 32" for j
    using t(2) [OF that(1)] that(2) by simp
  obtain k where k: "bit x k" using assms by (auto simp: bit_eq_iff)
  then have "k < 32" by (auto dest: bit_imp_le_length)
  moreover have "\<not> 31 - k < ?n" using z [of k] k \<open>k < 32\<close> by blast
  ultimately have less: "?n < 32" by linarith
  then show "fls_bit x < 32" "bit x (fls_bit x)" using t(3) by (simp_all add: fls_bit_def)
  assume j: "fls_bit x < j"
  show "\<not> bit x j"
  proof (cases "j < 32")
    case True
    then show ?thesis using j less by (intro z) (simp_all add: fls_bit_def)
  qed (auto dest: bit_imp_le_length)
qed

lemma highest_from_spec:
  "k \<le> 8 \<Longrightarrow> (case highest_from tab k of
     None \<Rightarrow> \<forall>v<k * 32. \<not> bit (tab ! (v div 32)) (v mod 32)
   | Some v \<Rightarrow> v < k * 32 \<and> bit (tab ! (v div 32)) (v mod 32) \<and> (\<forall>u<k * 32. v < u \<longrightarrow> \<not> bit (tab ! (u div 32)) (u mod 32)))"
proof (induction k)
  case (Suc k)
  have split: "u < Suc k * 32 \<Longrightarrow> u < k * 32 \<or> u div 32 = k" for u :: nat by simp linarith
  show ?case
  proof (cases "tab ! k = 0")
    case True
    then have z: "u div 32 = k \<Longrightarrow> \<not> bit (tab ! (u div 32)) (u mod 32)" for u by simp
    show ?thesis
    proof (cases "highest_from tab k")
      case None
      then show ?thesis using Suc True z split by (simp only: highest_from.simps option.case if_False simp_thms) (metis Suc_leD)
    next
      case (Some v)
      then show ?thesis using Suc True z split by (simp only: highest_from.simps option.case if_False simp_thms) (metis Suc_leD less_SucI mult_Suc trans_less_add2)
    qed
  next
    case False
    note f = fls_bit_top [OF False]
    have "(k * 32 + fls_bit (tab ! k)) div 32 = k" "(k * 32 + fls_bit (tab ! k)) mod 32 = fls_bit (tab ! k)" using f(1) by simp_all
    moreover have "\<not> bit (tab ! (u div 32)) (u mod 32)" if "u < Suc k * 32" "k * 32 + fls_bit (tab ! k) < u" for u
    proof -
      have d: "u div 32 = k" using that by simp
      then have "fls_bit (tab ! k) < u mod 32" using that(2) by (metis add_less_cancel_left div_mult_mod_eq)
      from f(3) [OF this] d show ?thesis by simp
    qed
    ultimately show ?thesis using False f by auto
  qed
qed simp

lemma highest_vectors:
  "get_highest_priority_int tab = (if vectors tab = {} then None else Some (Max (vectors tab)))"
proof (cases "get_highest_priority_int tab")
  case None
  then have "vectors tab = {}" using highest_from_spec [of 8 tab] by (auto simp: get_highest_priority_int_def vectors_def)
  with None show ?thesis by simp
next
  case (Some v)
  then have v: "v \<in> vectors tab" "\<forall>u\<in>vectors tab. u \<le> v"
    using highest_from_spec [of 8 tab] by (auto simp: get_highest_priority_int_def vectors_def not_less [symmetric])
  have "finite (vectors tab)" by (simp add: vectors_def)
  from Max_eqI [OF this] v have "Max (vectors tab) = v" by blast
  with Some v(1) show ?thesis by auto
qed

interpretation reg: priority_register tab_ok vectors tab_set_bit tab_reset_bit get_highest_priority_int 256
  by unfold_locales (auto simp: vectors_set_bit vectors_reset_bit highest_vectors, auto simp: vectors_def)

section \<open>Priority classes\<close>

lemma nibble_nat:
  fixes v :: nat
  assumes "v < 256"
  shows "v AND 0xf0 = v div 16 * 16"
proof -
  have v: "bit v n \<Longrightarrow> n < 8" for n
    using assms take_bit_nat_eq_self [of v 8] bit_take_bit_iff [of 8 v n] by simp
  have m: "bit (240 :: nat) n \<longleftrightarrow> 4 \<le> n \<and> n < 8" for n
  proof -
    have "(240 :: nat) = push_bit 4 (mask 4)" by (simp add: mask_eq_exp_minus_1 push_bit_eq_mult)
    then show ?thesis by (simp only: bit_push_bit_iff bit_mask_iff) auto
  qed
  have "v AND 240 = push_bit 4 (drop_bit 4 v)"
    by (rule bit_eqI) (use v in \<open>auto simp: bit_and_iff m bit_push_bit_iff bit_drop_bit_eq\<close>)
  then show ?thesis by (simp add: push_bit_eq_mult drop_bit_eq_div)
qed

lemma highest_or_0_less: "highest_or_0 tab < 256"
  using highest_vectors [of tab] Max_in [of "vectors tab"] by (auto simp: highest_or_0_def vectors_def)

lemma tpr_class: "unat (drop_bit 4 t) = unat t div 16" for t :: u8
  by (simp add: drop_bit_eq_div unat_div_distrib)

lemma u8_less: "unat (t :: u8) < 256"
proof -
  have "unat t < 2 ^ LENGTH(8)" by (rule unsigned_less)
  then show ?thesis by simp
qed

lemma ppr_less: "apic_get_ppr s < 256"
  using highest_or_0_less [of "isr s"] u8_less [of "tpr s"]
  by (auto simp: apic_get_ppr_def Let_def push_bit_eq_mult drop_bit_eq_div)

lemma ppr_class: "apic_get_ppr s div 16 = max (unat (tpr s) div 16) (highest_or_0 (isr s) div 16)"
  unfolding apic_get_ppr_def Let_def tpr_class by (simp add: push_bit_eq_mult drop_bit_eq_div max_def)

lemma ppr_zero: "apic_get_ppr s = 0 \<longleftrightarrow> tpr s = 0 \<and> highest_or_0 (isr s) < 16"
  unfolding apic_get_ppr_def Let_def tpr_class
  by (auto simp: push_bit_eq_mult drop_bit_eq_div div_eq_0_iff unat_eq_0)

text \<open>A request may be served when its class is above the processor's priority, or nothing holds it back.\<close>

definition servable :: "APICCommonState \<Rightarrow> nat \<Rightarrow> bool" where
  "servable s v \<longleftrightarrow> get_highest_priority_int (irr s) = Some v \<and> 0 < v \<and> (apic_get_ppr s = 0 \<or> apic_get_ppr s div 16 < v div 16)"

lemma highest_less: "get_highest_priority_int tab = Some v \<Longrightarrow> v < 256"
  using highest_or_0_less [of tab] by (simp add: highest_or_0_def)

lemma pending_none: "get_highest_priority_int (irr s) = None \<Longrightarrow> apic_irq_pending s = 0"
  by (simp add: apic_irq_pending_def)

lemma pending_some:
  assumes "get_highest_priority_int (irr s) = Some v"
  shows "apic_irq_pending s = (if apic_get_ppr s = 0 \<or> apic_get_ppr s div 16 < v div 16 then int v else - 1)"
  using ppr_less [of s] highest_less [OF assms] by (simp add: apic_irq_pending_def assms Let_def nibble_nat not_le)

lemma pending_pos: "apic_irq_pending s > 0 \<longleftrightarrow> (\<exists>v. servable s v)"
  by (cases "get_highest_priority_int (irr s)") (simp_all add: servable_def pending_none pending_some)

lemma pending_value: "apic_irq_pending s = int v \<Longrightarrow> 0 < v \<Longrightarrow> servable s v"
  by (cases "get_highest_priority_int (irr s)") (auto simp: servable_def pending_none pending_some split: if_splits)

lemma servable_pending: "servable s v \<Longrightarrow> apic_irq_pending s = int v"
  by (auto simp: servable_def pending_some)

lemma servable_less: "servable s v \<Longrightarrow> v < 256"
  unfolding servable_def by (blast intro: highest_less)

section \<open>What an arriving interrupt leaves alone\<close>

definition more_requests :: "u32 \<Rightarrow> u32 \<Rightarrow> bool" where
  "more_requests a b \<longleftrightarrow> a OR b = b"

lemma more_requests_simps [simp]: "more_requests a a" "more_requests a (a OR b)"
  by (simp_all add: more_requests_def)

lemma more_requests_trans: "more_requests a b \<Longrightarrow> more_requests b c \<Longrightarrow> more_requests a c"
  by (metis more_requests_def or.assoc)

text \<open>Requests are added, lines to the processor raised, the task priority read from the shadow registers; the rest stays.\<close>

definition arrival :: "apic_focus \<Rightarrow> apic_focus \<Rightarrow> bool" where
  "arrival x y \<longleftrightarrow>
     (fst y)\<lparr>cpu_env := cpu_env (fst x), tpr := tpr (fst x), tmr := tmr (fst x), irr := irr (fst x)\<rparr> = fst x
     \<and> (cpu_env (fst y))\<lparr>interrupt_request := interrupt_request (cpu_env (fst x))\<rparr> = cpu_env (fst x)
     \<and> more_requests (interrupt_request (cpu_env (fst x))) (interrupt_request (cpu_env (fst y)))
     \<and> (tab_ok (irr (fst x)) \<longrightarrow> tab_ok (irr (fst y)) \<and> vectors (irr (fst x)) \<subseteq> vectors (irr (fst y)))
     \<and> (tab_ok (tmr (fst x)) \<longrightarrow> tab_ok (tmr (fst y)))
     \<and> (vapic_paddr (fst x) = 0 \<longrightarrow> tpr (fst y) = tpr (fst x))
     \<and> isa_pic (snd y) = isa_pic (snd x) \<and> vcpu_thread (snd y) = vcpu_thread (snd x)"

lemma arrival_refl [simp]: "arrival x x"
  by (simp add: arrival_def)

lemma arrival_trans: "arrival x y \<Longrightarrow> arrival y z \<Longrightarrow> arrival x z"
  unfolding arrival_def
  by (cases "fst x"; cases "fst y"; cases "fst z"; cases "cpu_env (fst x)"; cases "cpu_env (fst y)"; cases "cpu_env (fst z)")
     (auto intro: more_requests_trans)

lemma arrival_fields:
  assumes "arrival x y"
  shows "isr (fst y) = isr (fst x)" "lvt (fst y) = lvt (fst x)" "apicbase (fst y) = apicbase (fst x)"
    "spurious_vec (fst y) = spurious_vec (fst x)" "vapic_paddr (fst y) = vapic_paddr (fst x)" "icr (fst y) = icr (fst x)"
    "apic_id (fst y) = apic_id (fst x)" "dest_mode (fst y) = dest_mode (fst x)" "log_dest (fst y) = log_dest (fst x)"
    "apic_idx (fst y) = apic_idx (fst x)" "count_shift (fst y) = count_shift (fst x)" "isa_pic (snd y) = isa_pic (snd x)"
  using assms unfolding arrival_def by (cases "fst x"; cases "fst y"; simp)+

lemma arrival_interrupt: "arrival (s, w) (cpu_interrupt m s, w)"
  by (simp add: arrival_def cpu_interrupt_def)

lemma arrival_latch: "v < 256 \<Longrightarrow> arrival (s, w) (latch_irq v l s, apic_report_irq_delivered d w)"
  by (auto simp: arrival_def latch_irq_def apic_report_irq_delivered_def reg.vecs_put)

lemma arrival_sync: "apic_sync_vapic k (s, w) = Some y \<Longrightarrow> arrival (s, w) y"
  by (auto simp: apic_sync_vapic_def arrival_def Let_def split: if_splits)

lemma lvt_vector_less: "unat (l AND 0xff) < 256" for l :: u32
proof -
  have "l AND 0xff \<le> 0xff" by (rule word_and_le1)
  then show ?thesis by (simp add: word_le_nat_alt)
qed

lemma arrival_irq:
  "apic_update_irq n x = Some y \<Longrightarrow> arrival x y"
  "apic_local_deliver n vector x = Some y \<Longrightarrow> arrival x y"
  "v < 256 \<Longrightarrow> apic_set_irq n v level x = Some y \<Longrightarrow> arrival x y"
proof (induction n x and n vector x and n v level x arbitrary: y and y and y
    rule: apic_update_irq_apic_local_deliver_apic_set_irq.induct)
  case (2 n s w)
  then show ?case by (auto simp: arrival_interrupt split: if_splits)
next
  case (3 n vector s w)
  then show ?case by (auto simp: Let_def arrival_interrupt lvt_vector_less split: if_splits)
next
  case (4 n v level s w)
  let ?s1 = "latch_irq v level s" and ?w1 = "apic_report_irq_delivered (\<not> tab_get_bit (irr s) v) w"
  have l: "arrival (s, w) (?s1, ?w1)" using "4.prems"(1) by (rule arrival_latch)
  show ?case
  proof (cases "vapic_paddr ?s1 = 0")
    case True
    then have "apic_update_irq n (?s1, ?w1) = Some y" using "4.prems"(2) by (simp add: Let_def)
    then have "arrival (?s1, ?w1) y" using "4.IH"(2) True by simp
    with l show ?thesis by (rule arrival_trans)
  next
    case False
    then obtain x2 x3 where x: "apic_sync_vapic SYNC_ISR_IRR_TO_VAPIC (?s1, ?w1) = Some x2"
      "apic_sync_vapic SYNC_FROM_VAPIC x2 = Some x3" "apic_update_irq n x3 = Some y"
      using "4.prems"(2) by (auto simp: Let_def bind_eq_Some_conv simp del: split_paired_Ex)
    from "4.IH"(1) [OF refl refl False x] have "arrival x3 y" .
    moreover have "arrival x2 x3" using x(2) by (cases x2) (auto intro: arrival_sync)
    ultimately show ?thesis using arrival_sync [OF x(1)] l by (blast intro: arrival_trans)
  qed
qed simp

section \<open>When the circle of calls ends\<close>

text \<open>What \<^verbatim>\<open>apic_set_irq\<close> does before it calls \<^verbatim>\<open>apic_update_irq\<close>, in one step.\<close>

definition set_stage :: "nat \<Rightarrow> bool \<Rightarrow> apic_focus \<Rightarrow> apic_focus" where
  "set_stage v level x =
     (let s1 = latch_irq v level (fst x); w1 = apic_report_irq_delivered (\<not> tab_get_bit (irr (fst x)) v) (snd x)
      in if vapic_paddr s1 \<noteq> 0
         then (s1\<lparr>tpr := guest_ram w1 (vapic_paddr s1)\<rparr>, w1\<lparr>guest_ram := vapic_isr_irr s1 (guest_ram w1)\<rparr>)
         else (s1, w1))"

lemma vapic_isr_irr_tpr: "vapic_isr_irr s ram (vapic_paddr s) = ram (vapic_paddr s)"
  by (simp add: vapic_isr_irr_def)

lemma apic_set_irq_stage: "apic_set_irq n v level x = apic_update_irq n (set_stage v level x)"
  by (cases x) (simp add: set_stage_def Let_def apic_sync_vapic_def vapic_isr_irr_tpr)

lemma stage_fields:
  "lvt (fst (set_stage v l x)) = lvt (fst x)" "apicbase (fst (set_stage v l x)) = apicbase (fst x)"
  "spurious_vec (fst (set_stage v l x)) = spurious_vec (fst x)" "isr (fst (set_stage v l x)) = isr (fst x)"
  "vapic_paddr (fst (set_stage v l x)) = vapic_paddr (fst x)" "isa_pic (snd (set_stage v l x)) = isa_pic (snd x)"
  "irr (fst (set_stage v l x)) = tab_set_bit (irr (fst x)) v"
  "tpr (fst (set_stage v l x)) = (if vapic_paddr (fst x) = 0 then tpr (fst x) else guest_ram (snd x) (vapic_paddr (fst x)))"
  by (simp_all add: set_stage_def Let_def latch_irq_def apic_report_irq_delivered_def)

lemma stage_tpr_again: "tpr (fst (set_stage u k (set_stage v l x))) = tpr (fst (set_stage v l x))"
  by (simp add: stage_fields) (simp add: set_stage_def Let_def latch_irq_def apic_report_irq_delivered_def vapic_isr_irr_def)

definition lint0_vector :: "APICCommonState \<Rightarrow> nat" where
  "lint0_vector s = unat (lvt s ! APIC_LVT_LINT0 AND 0xff)"

definition lint0_stage :: "apic_focus \<Rightarrow> apic_focus" where
  "lint0_stage x = set_stage (lint0_vector (fst x)) (lvt (fst x) ! APIC_LVT_LINT0 AND APIC_LVT_LEVEL_TRIGGER \<noteq> 0) x"

text \<open>The controller is on, serves no request of its own, and turns the active output of the 8259 into a request of LINT0.\<close>

definition pic_round :: "apic_focus \<Rightarrow> bool" where
  "pic_round x \<longleftrightarrow> spurious_vec (fst x) AND APIC_SV_ENABLE \<noteq> 0 \<and> \<not> apic_irq_pending (fst x) > 0
     \<and> pic_get_output (isa_pic (snd x))
     \<and> lvt (fst x) ! APIC_LVT_LINT0 AND APIC_LVT_MASKED = 0 \<and> lvt_mode (lvt (fst x) ! APIC_LVT_LINT0) = APIC_DM_FIXED"

lemma update_round: "pic_round x \<Longrightarrow> apic_update_irq (Suc n) x = apic_update_irq n (lint0_stage x)"
  by (cases x) (simp add: pic_round_def apic_accept_pic_intr_def lint0_stage_def lint0_vector_def Let_def
      apic_set_irq_stage del: apic_set_irq.simps)

lemma update_done: "\<not> pic_round x \<Longrightarrow> apic_update_irq (Suc n) x = apic_update_irq (Suc 0) x \<and> apic_update_irq (Suc n) x \<noteq> None"
  by (cases x) (auto simp: pic_round_def Let_def simp del: apic_set_irq.simps)

lemma ppr_same: "tpr s = tpr s' \<Longrightarrow> isr s = isr s' \<Longrightarrow> apic_get_ppr s = apic_get_ppr s'"
  by (simp add: apic_get_ppr_def Let_def)

lemma pending_same:
  assumes "vectors (irr s) = vectors (irr s')" "tpr s = tpr s'" "isr s = isr s'"
  shows "apic_irq_pending s = apic_irq_pending s'"
  using assms(1) by (simp add: apic_irq_pending_def ppr_same [OF assms(2,3)] highest_vectors [of "irr s"] highest_vectors [of "irr s'"])

lemma lint0_stage_fields:
  "lvt (fst (lint0_stage x)) = lvt (fst x)" "apicbase (fst (lint0_stage x)) = apicbase (fst x)"
  "spurious_vec (fst (lint0_stage x)) = spurious_vec (fst x)" "isr (fst (lint0_stage x)) = isr (fst x)"
  "vapic_paddr (fst (lint0_stage x)) = vapic_paddr (fst x)" "isa_pic (snd (lint0_stage x)) = isa_pic (snd x)"
  "irr (fst (lint0_stage x)) = tab_set_bit (irr (fst x)) (lint0_vector (fst x))"
  "lint0_vector (fst (lint0_stage x)) = lint0_vector (fst x)" "lint0_vector s < 256"
  by (simp_all add: lint0_stage_def lint0_vector_def stage_fields lvt_vector_less)

lemma round_again:
  assumes "tab_ok (irr (fst x))" "pic_round x" "pic_round (lint0_stage x)"
  shows "pic_round (lint0_stage (lint0_stage x))"
proof -
  have "apic_irq_pending (fst (lint0_stage (lint0_stage x))) = apic_irq_pending (fst (lint0_stage x))"
  proof (rule pending_same)
    show "tpr (fst (lint0_stage (lint0_stage x))) = tpr (fst (lint0_stage x))"
      unfolding lint0_stage_def by (rule stage_tpr_again)
  qed (simp_all add: lint0_stage_fields reg.vecs_put assms)
  with assms show ?thesis by (simp add: pic_round_def lint0_stage_fields)
qed

lemma endless_round: "tab_ok (irr (fst x)) \<Longrightarrow> pic_round x \<Longrightarrow> pic_round (lint0_stage x) \<Longrightarrow> apic_update_irq n x = None"
proof (induction n arbitrary: x)
  case 0
  then show ?case by (cases x) simp
next
  case (Suc n)
  then show ?case by (simp add: update_round round_again lint0_stage_fields)
qed

lemma two_up: "n \<ge> 2 \<Longrightarrow> \<exists>k. n = Suc (Suc k)" for n :: nat
  by presburger

lemma update_cases:
  assumes "tab_ok (irr (fst x))"
  shows "if pic_round x \<and> pic_round (lint0_stage x) then \<forall>n. apic_update_irq n x = None
         else apic_update_irq apic_fuel x \<noteq> None \<and> (\<forall>n\<ge>apic_fuel. apic_update_irq n x = apic_update_irq apic_fuel x)"
proof (cases "pic_round x")
  case True
  show ?thesis
  proof (cases "pic_round (lint0_stage x)")
    case False
    have "apic_update_irq (Suc (Suc k)) x = apic_update_irq (Suc k) (lint0_stage x)" for k
      by (rule update_round [OF True])
    then have "apic_update_irq (Suc (Suc k)) x = apic_update_irq (Suc (Suc 0)) x \<and> apic_update_irq (Suc (Suc k)) x \<noteq> None" for k
      using update_done [OF False, of k] update_done [OF False, of 0] by simp
    then show ?thesis using False two_up by (metis numeral_2_eq_2)
  qed (use True assms in \<open>simp add: endless_round\<close>)
next
  case False
  then show ?thesis using update_done [OF False] two_up by (metis numeral_2_eq_2)
qed

text \<open>Two calls are enough for an arriving interrupt whenever any number is.\<close>

lemma apic_fuel_enough:
  assumes "tab_ok (irr (fst x))" "v < 256" "apic_set_irq n v level x = Some y"
  shows "apic_set_irq apic_fuel v level x = Some y \<or> n < apic_fuel"
proof -
  have "tab_ok (irr (fst (set_stage v level x)))" using assms(1) by (simp add: stage_fields)
  from update_cases [OF this] assms(3) show ?thesis unfolding apic_set_irq_stage by (metis not_less option.distinct(1))
qed

lemma servable_any:
  assumes "tab_ok (irr s)"
  shows "(\<exists>u. servable s u) \<longleftrightarrow> (\<exists>v\<in>vectors (irr s). 0 < v \<and> (apic_get_ppr s = 0 \<or> apic_get_ppr s div 16 < v div 16))"
proof (cases "get_highest_priority_int (irr s)")
  case None
  then have "vectors (irr s) = {}" using reg.top_None assms by blast
  with None show ?thesis unfolding servable_def by simp
next
  case (Some t)
  then have t: "t \<in> vectors (irr s)" "\<forall>u\<in>vectors (irr s). u \<le> t" using assms by (simp_all add: reg.top_Some)
  then have "v div 16 \<le> t div 16" if "v \<in> vectors (irr s)" for v using that by (simp add: div_le_mono)
  with t show ?thesis unfolding servable_def Some
    by (metis less_le_trans option.inject)
qed

section \<open>The line to the processor\<close>

text \<open>A request that may be served is signalled. With the shadow registers in use the guest polls instead.\<close>

definition line_up :: "APICCommonState \<Rightarrow> bool" where
  "line_up s \<longleftrightarrow> (vapic_paddr s = 0 \<and> spurious_vec s AND APIC_SV_ENABLE \<noteq> 0 \<and> apic_irq_pending s > 0 \<longrightarrow>
     interrupt_request (cpu_env s) AND CPU_INTERRUPT_HARD \<noteq> 0)"

lemma and_1_nonzero: "x AND 2 \<noteq> 0 \<longleftrightarrow> bit x 1" for x :: u32
  using and_exp_eq_0_iff_not_bit [of x 1] by simp

lemma line_hard [simp]: "line_up (cpu_interrupt CPU_INTERRUPT_HARD s)"
  by (simp add: line_up_def cpu_interrupt_def and_1_nonzero bit_or_iff)

lemma pending_env [simp]: "apic_irq_pending (s\<lparr>cpu_env := e\<rparr>) = apic_irq_pending s"
  by (rule pending_same) simp_all

lemma line_interrupt: "line_up s \<Longrightarrow> line_up (cpu_interrupt k s)"
  by (auto simp: line_up_def cpu_interrupt_def and_1_nonzero bit_or_iff)

lemma idle_line: "\<not> apic_irq_pending s > 0 \<Longrightarrow> line_up s" "spurious_vec s AND APIC_SV_ENABLE = 0 \<Longrightarrow> line_up s"
  by (simp_all add: line_up_def)

lemma update_line_up: "apic_update_irq n x = Some y \<Longrightarrow> line_up (fst y)"
proof (induction n arbitrary: x)
  case 0
  then show ?case by (cases x) simp
next
  case (Suc n)
  show ?case
  proof (cases "pic_round x")
    case True
    with Suc show ?thesis by (simp add: update_round)
  next
    case False
    with Suc.prems show ?thesis
      by (cases x) (auto simp: pic_round_def Let_def line_interrupt idle_line simp del: apic_set_irq.simps split: if_splits)
  qed
qed

text \<open>A finished delivery: an arrival after which the line follows.\<close>

definition delivery :: "apic_focus \<Rightarrow> apic_focus \<Rightarrow> bool" where
  "delivery x y \<longleftrightarrow> arrival x y \<and> (line_up (fst x) \<longrightarrow> line_up (fst y))"

lemma delivery_arrival: "delivery x y \<Longrightarrow> arrival x y"
  by (simp add: delivery_def)

lemma delivery_update: "apic_update_irq n x = Some y \<Longrightarrow> delivery x y"
  by (simp add: delivery_def arrival_irq update_line_up)

lemma delivery_set_irq: "v < 256 \<Longrightarrow> apic_set_irq n v level x = Some y \<Longrightarrow> delivery x y"
  using arrival_irq(3) [of v n level x y] by (simp add: delivery_def apic_set_irq_stage update_line_up)

lemma delivery_interrupt: "delivery (s, w) (cpu_interrupt k s, w)"
  by (simp add: delivery_def arrival_interrupt line_interrupt)

lemma delivery_local: "apic_local_deliver n vector x = Some y \<Longrightarrow> delivery x y"
  by (cases x) (auto simp: Let_def delivery_def arrival_interrupt line_interrupt simp del: apic_set_irq.simps split: if_splits
      dest: delivery_set_irq [OF lvt_vector_less, unfolded delivery_def])

lemma delivery_sync: "apic_sync_vapic k (s, w) = Some y \<Longrightarrow> delivery (s, w) y"
  using arrival_sync [of k s w y] by (auto simp: delivery_def apic_sync_vapic_def Let_def line_up_def split: if_splits)

lemma line_same:
  assumes "irr s' = irr s" "tpr s' = tpr s" "isr s' = isr s" "spurious_vec s' = spurious_vec s" "vapic_paddr s' = vapic_paddr s"
    "interrupt_request (cpu_env s') AND CPU_INTERRUPT_HARD = interrupt_request (cpu_env s) AND CPU_INTERRUPT_HARD"
  shows "line_up s' = line_up s"
  using assms pending_same [of s' s] by (simp add: line_up_def)

lemma line_frame [simp]:
  "line_up (s\<lparr>arb_id := a\<rparr>) = line_up s" "line_up (s\<lparr>sipi_vector := n\<rparr>) = line_up s" "line_up (s\<lparr>apic_id := a\<rparr>) = line_up s"
  "line_up (s\<lparr>log_dest := a\<rparr>) = line_up s" "line_up (s\<lparr>dest_mode := a\<rparr>) = line_up s" "line_up (s\<lparr>icr := ls\<rparr>) = line_up s"
  "line_up (s\<lparr>lvt := ls\<rparr>) = line_up s" "line_up (s\<lparr>esr := x\<rparr>) = line_up s" "line_up (s\<lparr>initial_count := x, initial_count_load_time := t\<rparr>) = line_up s"
  "line_up (s\<lparr>divide_conf := x, count_shift := n\<rparr>) = line_up s" "line_up (s\<lparr>apicbase := x\<rparr>) = line_up s"
  "line_up (s\<lparr>wait_for_sipi := b\<rparr>) = line_up s" "line_up (apic_timer_update now s) = line_up s"
  by (rule line_same; simp add: apic_timer_update_def apic_next_timer_def Let_def)+

end
