(* ===== verification/ApicMachine.thy ===== *)
theory ApicMachine
  imports ApicLaws
begin

unbundle bit_operations_syntax

text \<open>
  The machine of interrupt controllers as a transition system: an invariant of every controller, and that no delivery, access or line
  breaks it.
\<close>

section \<open>Invariants of the machine\<close>

definition machine_all :: "(nat \<Rightarrow> APICCommonState option \<Rightarrow> bool) \<Rightarrow> apic_machine \<Rightarrow> bool" where
  "machine_all P m \<longleftrightarrow> (\<forall>i. P i (apic_at m i))"

lemma machine_allD: "machine_all P m \<Longrightarrow> apic_at m i = Some s \<Longrightarrow> P i (Some s)"
  by (auto simp: machine_all_def dest: spec [of _ i])

lemma apic_at_update [simp]:
  "apic_at (m\<lparr>ioapic := o'\<rparr>) i = apic_at m i" "apic_at (m\<lparr>world := w\<rparr>) i = apic_at m i"
  "apic_at (with_pic p m) i = apic_at m i"
  by (simp_all add: apic_at_def with_pic_def)

lemma machine_all_update [simp]:
  "machine_all P (m\<lparr>ioapic := o'\<rparr>) = machine_all P m" "machine_all P (m\<lparr>world := w\<rparr>) = machine_all P m"
  "machine_all P (with_pic p m) = machine_all P m"
  by (simp_all add: machine_all_def)

lemma apic_at_put:
  "apic_at m i = Some s \<Longrightarrow> apic_at (m\<lparr>local_apics := (local_apics m)[i := Some s']\<rparr>) j = (if j = i then Some s' else apic_at m j)"
  by (auto simp: apic_at_def split: if_splits)

text \<open>What an operation of one controller does to the machine.\<close>

lemma on_apic_cases:
  assumes "on_apic i f m = Some m'"
  obtains (none) "apic_at m i = None" "m' = m"
  | (one) s s' w where "apic_at m i = Some s" "f (s, world m) = Some (s', w)" "world m' = w" "ioapic m' = ioapic m"
      "length (local_apics m') = length (local_apics m)"
      "\<And>j. apic_at m' j = (if j = i then Some s' else apic_at m j)"
  using assms by (auto simp: on_apic_def apic_at_put split: option.splits)

lemma on_apic_all:
  assumes "machine_all P m" "on_apic i f m = Some m'"
    and f: "\<And>s w s' w'. P i (Some s) \<Longrightarrow> f (s, w) = Some (s', w') \<Longrightarrow> P i (Some s')"
  shows "machine_all P m'"
  using assms(2)
proof (rule on_apic_cases)
  fix s s' w
  assume s: "apic_at m i = Some s" "f (s, world m) = Some (s', w)" and at: "\<And>j. apic_at m' j = (if j = i then Some s' else apic_at m j)"
  have "P i (Some s')" using f [OF machine_allD [OF assms(1) s(1)] s(2)] .
  then show ?thesis using assms(1) at by (simp add: machine_all_def)
qed (use assms(1) in simp)

lemma each_of_induct:
  assumes "each_of f xs m = Some m'" "Q m" "\<And>x m m'. x \<in> set xs \<Longrightarrow> Q m \<Longrightarrow> f x m = Some m' \<Longrightarrow> Q m'"
  shows "Q m'"
  using assms
proof (induction xs arbitrary: m)
  case (Cons x xs)
  then obtain m1 where "f x m = Some m1" "each_of f xs m1 = Some m'" by (auto simp: bind_eq_Some_conv)
  with Cons show ?case by (metis list.set_intros)
qed simp

text \<open>A property of the controllers that arriving interrupts and the 8259's line keep is kept by every delivery.\<close>

locale apic_invariant =
  fixes P :: "nat \<Rightarrow> APICCommonState option \<Rightarrow> bool"
  assumes arrives: "delivery x y \<Longrightarrow> P i (Some (fst x)) \<Longrightarrow> P i (Some (fst y))"
    and pic_line: "P i (Some s) \<Longrightarrow> apic_accept_pic_intr s \<Longrightarrow> apic_deliver_pic_intr l (s, w) = Some (s', w') \<Longrightarrow> P i (Some s')"
    and arbitration: "P i (Some s) \<Longrightarrow> P i (Some (s\<lparr>arb_id := a\<rparr>))"
    and startup: "P i (Some s) \<Longrightarrow> P i (Some (s\<lparr>sipi_vector := v\<rparr>))"
begin

lemma foreach_all:
  assumes "machine_all P m" "foreach_apic bm f m = Some m'"
    and "\<And>i s w s' w'. P i (Some s) \<Longrightarrow> f (s, w) = Some (s', w') \<Longrightarrow> P i (Some s')"
  shows "machine_all P m'"
  using assms(2) unfolding foreach_apic_def
proof (rule each_of_induct [where Q = "machine_all P", OF _ assms(1)])
  fix i m m'
  assume "machine_all P m" "on_apic i f m = Some m'"
  then show "machine_all P m'" by (rule on_apic_all) (rule assms(3))
qed

lemma set_irq_P: "v < 256 \<Longrightarrow> P i (Some s) \<Longrightarrow> apic_set_irq n v l (s, w) = Some (s', w') \<Longrightarrow> P i (Some s')"
  using arrives [OF delivery_set_irq] by fastforce

lemma update_irq_P: "P i (Some s) \<Longrightarrow> apic_update_irq n (s, w) = Some (s', w') \<Longrightarrow> P i (Some s')"
  using arrives [OF delivery_update] by fastforce

lemma local_deliver_P: "P i (Some s) \<Longrightarrow> apic_local_deliver n v (s, w) = Some (s', w') \<Longrightarrow> P i (Some s')"
  using arrives [OF delivery_local] by fastforce

lemma interrupt_P: "P i (Some s) \<Longrightarrow> pure_op (cpu_interrupt k) (s, w) = Some (s', w') \<Longrightarrow> P i (Some s')"
  using arrives [OF delivery_interrupt [of s w k]] by (simp add: pure_op_def)

lemma bus_deliver_all:
  assumes "machine_all P m" "apic_bus_deliver bm mode v l m = Some m'" "v < 256"
  shows "machine_all P m'"
proof -
  note irq = set_irq_P [OF assms(3)]
  show ?thesis using assms unfolding apic_bus_deliver_def
    by (auto split: if_splits option.splits intro: on_apic_all [where P = P, OF _ _ irq] foreach_all [OF _ _ irq]
        foreach_all [OF _ _ interrupt_P])
qed

lemma deliver_irq_all:
  "machine_all P m \<Longrightarrow> apic_deliver_irq dest d mode v l m = Some m' \<Longrightarrow> v < 256 \<Longrightarrow> machine_all P m'"
  unfolding apic_deliver_irq_def by (rule bus_deliver_all)

lemma startup_P: "P i (Some s) \<Longrightarrow> pure_op (apic_startup v) (s, w) = Some (s', w') \<Longrightarrow> P i (Some s')"
  using interrupt_P [OF startup, of i s CPU_INTERRUPT_SIPI v w s' w'] by (simp add: pure_op_def apic_startup_def)

lemma deliver_all:
  assumes "machine_all P m" "apic_deliver s dest d mode v l m = Some m'" "v < 256"
  shows "machine_all P m'"
proof -
  have a: "P i (Some t) \<Longrightarrow> pure_op (\<lambda>a. a\<lparr>arb_id := apic_id a\<rparr>) (t, w) = Some (t', w') \<Longrightarrow> P i (Some t')" for i t w t' w'
    by (auto simp: pure_op_def arbitration)
  from assms show ?thesis unfolding apic_deliver_def
    by (auto simp: Let_def split: if_splits intro: bus_deliver_all foreach_all [OF _ _ a] foreach_all [OF _ _ startup_P])
qed

lemma pic_request_all:
  assumes "machine_all P m" "pic_irq_request l m = Some m'"
  shows "machine_all P m'"
  using assms(2) unfolding pic_irq_request_def
proof (rule each_of_induct [where Q = "machine_all P", OF _ assms(1)])
  fix i m m'
  assume m: "machine_all P m"
  assume "on_apic i (\<lambda>sw. if apic_accept_pic_intr (fst sw) then apic_deliver_pic_intr l sw else Some sw) m = Some m'"
  with m show "machine_all P m'" by (rule on_apic_all) (auto split: if_splits intro: pic_line)
qed

lemma drive_all: "machine_all P m \<Longrightarrow> drive_pic p m = Some m' \<Longrightarrow> machine_all P m'"
  unfolding drive_pic_def by (rule pic_request_all) simp_all

lemma drives_all: "machine_all P m \<Longrightarrow> each_of drive_pic ps m = Some m' \<Longrightarrow> machine_all P m'"
  by (erule each_of_induct [rotated]) (auto intro: drive_all)

lemma pic_read_all: "machine_all P m \<Longrightarrow> machine_pic_read m = Some (v, m') \<Longrightarrow> machine_all P m'"
  by (auto simp: machine_pic_read_def Let_def bind_eq_Some_conv intro: drives_all)

lemma isa_irq_all: "machine_all P m \<Longrightarrow> machine_isa_irq n l m = Some m' \<Longrightarrow> machine_all P m'"
  unfolding machine_isa_irq_def by (rule drive_all)

lemma service_pin_all:
  assumes "machine_all P m" "service_pin i m = Some m'"
  shows "machine_all P m'"
proof -
  have r: "machine_all P m2" if "machine_pic_read (m\<lparr>ioapic := x\<rparr>) = Some (v, m2)" for x v m2
    using that by (rule pic_read_all [rotated]) (use assms in simp)
  show ?thesis using assms
    by (auto simp: service_pin_def Let_def bind_eq_Some_conv split: option.splits if_splits
        elim!: deliver_irq_all [rotated] dest: r)
qed

lemma service_all: "machine_all P m \<Longrightarrow> ioapic_service m = Some m' \<Longrightarrow> machine_all P m'"
  unfolding ioapic_service_def by (erule each_of_induct [rotated]) (auto intro: service_pin_all)

lemma io_set_irq_all: "machine_all P m \<Longrightarrow> ioapic_set_irq n l m = Some m' \<Longrightarrow> machine_all P m'"
  by (auto simp: ioapic_set_irq_def Let_def split: option.splits if_splits elim!: service_all [rotated])

lemma eoi_broadcast_all: "machine_all P m \<Longrightarrow> ioapic_eoi_broadcast v m = Some m' \<Longrightarrow> machine_all P m'"
  unfolding ioapic_eoi_broadcast_def
  by (erule each_of_induct [rotated]) (auto simp: eoi_pin_def Let_def split: option.splits if_splits elim!: service_all [rotated])

lemma io_write_all: "machine_all P m \<Longrightarrow> ioapic_mem_write addr val n m = Some m' \<Longrightarrow> machine_all P m'"
  by (auto simp: ioapic_mem_write_def split: option.splits if_splits elim!: service_all [rotated])

lemma gsi_all: "machine_all P m \<Longrightarrow> gsi_handler n l m = Some m' \<Longrightarrow> machine_all P m'"
  by (auto simp: gsi_handler_def bind_eq_Some_conv split: if_splits intro: io_set_irq_all isa_irq_all)

lemma msi_all: "machine_all P m \<Longrightarrow> apic_send_msi addr val m = Some m' \<Longrightarrow> machine_all P m'"
  unfolding apic_send_msi_def by (erule (1) deliver_irq_all) (rule lvt_vector_less)

end

section \<open>The invariant of every controller\<close>

text \<open>No two interrupts in service share a priority class; the classes below 16 are reserved and not held back by anything.\<close>

definition nested :: "u32 list \<Rightarrow> bool" where
  "nested tab \<longleftrightarrow> (\<forall>u\<in>vectors tab. \<forall>v\<in>vectors tab. u \<noteq> v \<and> 16 \<le> u \<and> 16 \<le> v \<longrightarrow> u div 16 \<noteq> v div 16)"

definition apic_inv :: "APICCommonState \<Rightarrow> bool" where
  "apic_inv s \<longleftrightarrow> tab_ok (isr s) \<and> tab_ok (tmr s) \<and> tab_ok (irr s) \<and> length (lvt s) = 6 \<and> length (icr s) = 2
     \<and> count_shift s < 8 \<and> spurious_vec s < 0x200 \<and> nested (isr s)"

lemma highest_Some: "tab_ok t \<Longrightarrow> get_highest_priority_int t = Some h \<Longrightarrow> highest_or_0 t = h \<and> h \<in> vectors t \<and> (\<forall>u\<in>vectors t. u \<le> h)"
  using reg.top_Some [of t h] by (simp add: highest_or_0_def)

lemma in_service_le: "tab_ok t \<Longrightarrow> u \<in> vectors t \<Longrightarrow> u \<le> highest_or_0 t"
  using highest_Some reg.top_None by (cases "get_highest_priority_int t") auto

text \<open>What is served is above everything in service, reserved vectors aside.\<close>

lemma servable_above:
  assumes "tab_ok (isr s)" "servable s v" "u \<in> vectors (isr s)" "16 \<le> v"
  shows "u div 16 < v div 16"
proof -
  have "u div 16 \<le> highest_or_0 (isr s) div 16" using assms by (intro div_le_mono in_service_le)
  moreover have "highest_or_0 (isr s) div 16 < v div 16"
  proof (cases "apic_get_ppr s = 0")
    case True
    then have "highest_or_0 (isr s) < 16" by (simp add: ppr_zero)
    moreover have "0 < v div 16" using assms(4) by (simp add: div_greater_zero_iff)
    ultimately show ?thesis by simp
  next
    case False
    with assms(2) have "apic_get_ppr s div 16 < v div 16" by (simp add: servable_def)
    then show ?thesis unfolding ppr_class by simp
  qed
  ultimately show ?thesis by simp
qed

lemma nested_take: "tab_ok (isr s) \<Longrightarrow> nested (isr s) \<Longrightarrow> servable s v \<Longrightarrow> nested (tab_set_bit (isr s) v)"
  using servable_above [of s v] servable_less [of s v]
  by (auto simp: nested_def reg.vecs_put) (metis less_irrefl)+

lemma nested_retire: "tab_ok t \<Longrightarrow> v < 256 \<Longrightarrow> nested t \<Longrightarrow> nested (tab_reset_bit t v)"
  by (auto simp: nested_def reg.vecs_clear)

lemma arrival_more:
  assumes "arrival x y"
  shows "tab_ok (irr (fst x)) \<Longrightarrow> tab_ok (irr (fst y))" "tab_ok (tmr (fst x)) \<Longrightarrow> tab_ok (tmr (fst y))"
    "tab_ok (irr (fst x)) \<Longrightarrow> vectors (irr (fst x)) \<subseteq> vectors (irr (fst y))"
  using assms by (simp_all add: arrival_def)

lemma inv_arrival: "arrival x y \<Longrightarrow> apic_inv (fst x) \<Longrightarrow> apic_inv (fst y)"
  by (simp add: apic_inv_def arrival_fields arrival_more)

text \<open>The 8259's line arrives, or its fall clears at most a request and the line to the processor.\<close>

definition lowered :: "APICCommonState \<Rightarrow> APICCommonState \<Rightarrow> bool" where
  "lowered s s' \<longleftrightarrow> s'\<lparr>cpu_env := cpu_env s, irr := irr s\<rparr> = s \<and> (tab_ok (irr s) \<longrightarrow> tab_ok (irr s'))"

lemma pic_line_cases:
  assumes "apic_deliver_pic_intr l (s, w) = Some (s', w')"
  shows "l \<and> arrival (s, w) (s', w') \<or> \<not> l \<and> lowered s s'"
proof (cases l)
  case True
  with assms show ?thesis by (simp add: apic_deliver_pic_intr_def Let_def arrival_irq(2) del: apic_local_deliver.simps)
next
  case False
  with assms show ?thesis
    by (auto simp: apic_deliver_pic_intr_def Let_def cpu_reset_interrupt_def lowered_def split: if_splits)
qed

lemma lowered_fields:
  assumes "lowered s s'"
  shows "isr s' = isr s" "tmr s' = tmr s" "lvt s' = lvt s" "icr s' = icr s" "count_shift s' = count_shift s"
    "spurious_vec s' = spurious_vec s"
  using assms unfolding lowered_def by (cases s; cases s'; simp)+

lemma lowered_inv: "lowered s s' \<Longrightarrow> apic_inv s \<Longrightarrow> apic_inv s'"
  by (simp add: apic_inv_def lowered_fields) (simp add: lowered_def)

interpretation inv: apic_invariant "\<lambda>_. pred_option apic_inv"
proof unfold_locales
  fix s w l s' w'
  assume "pred_option apic_inv (Some s)" "apic_deliver_pic_intr l (s, w) = Some (s', w')"
  then show "pred_option apic_inv (Some s')" using inv_arrival [of "(s, w)" "(s', w')"] by (auto dest: pic_line_cases lowered_inv)
qed (simp_all add: inv_arrival [OF delivery_arrival], simp_all add: apic_inv_def)

lemmas inv_update_irq = inv.update_irq_P [unfolded option.pred_inject]
lemmas inv_local_deliver = inv.local_deliver_P [unfolded option.pred_inject]

lemma sync_inv: "apic_inv s \<Longrightarrow> apic_sync_vapic k (s, w) = Some (s', w') \<Longrightarrow> apic_inv s'"
  using inv_arrival [OF arrival_sync] by fastforce

lemma less_512: "val AND 0x1ff < (0x200 :: u32)"
  using word_and_le1 [of val "0x1ff"] by (simp add: word_le_nat_alt word_less_nat_alt)

lemma apic_timer_update_inv: "apic_inv s \<Longrightarrow> apic_inv (apic_timer_update now s)"
  by (simp add: apic_timer_update_def apic_next_timer_def Let_def apic_inv_def)

lemma divide_shift_less: "divide_shift c < 8"
proof -
  have "unat (x AND 7) \<le> unat (7 :: u32)" for x :: u32 by (simp only: word_and_le1 flip: word_le_nat_alt)
  from this [of "(c AND 3 OR drop_bit 1 c AND 4) + 1"] show ?thesis unfolding divide_shift_def by simp
qed

lemma write_own_inv:
  assumes i: "apic_inv s" and w: "apic_write_own now index val (s, w) = Some (s', w')"
  shows "apic_inv s'"
proof -
  have t: "apic_inv (s\<lparr>tpr := x\<rparr>)" "apic_inv (s\<lparr>spurious_vec := val AND 0x1ff\<rparr>)" "apic_inv (illegal_address s)"
    "apic_inv (s\<lparr>apic_id := x\<rparr>)" "apic_inv (s\<lparr>log_dest := x\<rparr>)" "apic_inv (s\<lparr>dest_mode := x\<rparr>)" "apic_inv (s\<lparr>icr := (icr s)[k := val]\<rparr>)"
    "apic_inv (s\<lparr>lvt := (lvt s)[k := val]\<rparr>)" "apic_inv (s\<lparr>initial_count := val, initial_count_load_time := now\<rparr>)"
    "apic_inv (s\<lparr>divide_conf := y, count_shift := divide_shift y\<rparr>)" for x k y
    using i by (simp_all add: apic_inv_def less_512 divide_shift_less illegal_address_def)
  show ?thesis using w t i
    by (auto simp: apic_write_own_def cpu_report_tpr_access_def Let_def bind_eq_Some_conv split: if_splits
        simp del: apic_update_irq.simps intro: apic_timer_update_inv elim!: inv_update_irq [rotated] dest!: sync_inv [rotated])
qed

lemma init_reset_inv: "apic_inv (apic_init_reset s)"
  by (simp add: apic_inv_def apic_init_reset_def nested_def tab_ok_def)

lemma reset_common_inv: "apic_reset_common x = Some y \<Longrightarrow> apic_inv (fst y)"
  using init_reset_inv
  by (cases x) (auto simp: apic_reset_common_def Let_def bind_eq_Some_conv apic_inv_def split: if_splits)

lemma take_inv: "apic_inv s \<Longrightarrow> servable s v \<Longrightarrow> apic_inv (take_irq v s)"
  by (simp add: apic_inv_def take_irq_def nested_take)

text \<open>The outcomes of the processor's request: either a servable vector moves into service, or nothing but the shadow changes.\<close>

lemma get_interrupt_cases:
  assumes "apic_get_interrupt (s, w) = Some (v, s', w')"
  obtains (none) "v = - 1 \<or> v = uint (spurious_vec s AND 0xff)" "arrival (s, w) (s', w')"
  | (take) s1 w1 w2 n where "arrival (s, w) (s1, w1)" "servable s1 n" "v = int n"
      "apic_sync_vapic SYNC_TO_VAPIC (take_irq n s1, w1) = Some (take_irq n s1, w2)"
      "apic_update_irq apic_fuel (take_irq n s1, w2) = Some (s', w')"
proof (cases "spurious_vec s AND APIC_SV_ENABLE = 0")
  case True
  with assms show thesis by (intro none) (simp_all add: apic_get_interrupt_def)
next
  case False
  then obtain s1 w1 where s1: "apic_sync_vapic SYNC_FROM_VAPIC (s, w) = Some (s1, w1)"
    using assms by (auto simp: apic_get_interrupt_def bind_eq_Some_conv)
  note a = arrival_sync [OF s1]
  have sp: "spurious_vec s1 = spurious_vec s" using arrival_fields [OF a] by simp
  show thesis
  proof (cases "apic_irq_pending s1 > 0")
    case True
    then obtain n where n: "servable s1 n" by (auto simp: pending_pos)
    have "fst sw = t" if "apic_sync_vapic SYNC_TO_VAPIC (t, w1) = Some sw" for t sw
      using that by (auto simp: apic_sync_vapic_def Let_def split: if_splits)
    then have to: "sw = (t, snd sw)" if "apic_sync_vapic SYNC_TO_VAPIC (t, w1) = Some sw" for t sw
      using that by (metis prod.collapse)
    from assms False s1 True servable_pending [OF n] show thesis
      by (auto simp: apic_get_interrupt_def bind_eq_Some_conv Let_def simp del: apic_update_irq.simps dest: to
          intro!: take [OF a n])
  next
    case f: False
    have b: "apic_sync_vapic SYNC_TO_VAPIC (s1, w1) = Some (s', w') \<Longrightarrow> arrival (s, w) (s', w')"
      by (rule arrival_trans [OF a arrival_sync])
    from assms False s1 f sp show thesis
      by (auto simp: apic_get_interrupt_def bind_eq_Some_conv Let_def split: if_splits
          intro!: none b)
  qed
qed

lemma get_interrupt_inv:
  assumes i: "apic_inv s" and g: "apic_get_interrupt (s, w) = Some (v, s', w')"
  shows "apic_inv s'"
  using g
proof (cases rule: get_interrupt_cases)
  case none
  then show ?thesis using inv_arrival [of "(s, w)" "(s', w')"] i by simp
next
  case (take s1 w1 w2 n)
  have "apic_inv s1" using inv_arrival [OF take(1)] i by simp
  from inv_update_irq [OF take_inv [OF this take(2)] take(5)] show ?thesis .
qed

section \<open>Steps of the machine\<close>

text \<open>Everything the guest, the devices and the host do to the controllers. The 8259 moves on its own (\<open>pic\<close>): \<open>p\<close> is any of its
  states, its output is driven.\<close>

inductive apic_step :: "apic_machine \<Rightarrow> apic_machine \<Rightarrow> bool" where
  read: "apic_mem_readl cur now addr m = Some (v, m') \<Longrightarrow> apic_step m m'"
| store: "apic_mem_writel cur now addr val m = Some m' \<Longrightarrow> apic_step m m'"
| take: "cpu_take_hard i m = Some (n, m') \<Longrightarrow> apic_step m m'"
| gsi: "gsi_handler pin level m = Some m' \<Longrightarrow> apic_step m m'"
| io_write: "ioapic_mem_write addr data width m = Some m' \<Longrightarrow> apic_step m m'"
| io_reset: "ioapic m = Some s \<Longrightarrow> apic_step m (m\<lparr>ioapic := Some (ioapic_reset_common s)\<rparr>)"
| pic: "drive_pic p m = Some m' \<Longrightarrow> apic_step m m'"
| expiry: "on_apic i apic_timer m = Some m' \<Longrightarrow> apic_step m m'"
| sipi: "on_apic i (pure_op apic_sipi) m = Some m' \<Longrightarrow> apic_step m m'"
| init: "on_apic i (pure_op apic_init_reset) m = Some m' \<Longrightarrow> apic_step m m'"
| reset: "on_apic i apic_reset_common m = Some m' \<Longrightarrow> apic_step m m'"
| base: "on_apic i (pure_op (apic_set_base b)) m = Some m' \<Longrightarrow> apic_step m m'"
| cr8: "on_apic i (apic_set_tpr t) m = Some m' \<Longrightarrow> apic_step m m'"
| poll: "on_apic i apic_poll_irq m = Some m' \<Longrightarrow> apic_step m m'"
| nmi: "on_apic i apic_external_nmi m = Some m' \<Longrightarrow> apic_step m m'"
| vapic: "paddr \<noteq> 0 \<Longrightarrow> on_apic i (apic_enable_vapic paddr) m = Some m' \<Longrightarrow> apic_step m m'"

text \<open>Every controller starts with a reset.\<close>

inductive apic_reach :: "apic_machine \<Rightarrow> bool" where
  start: "(\<And>i s. apic_at m i = Some s \<Longrightarrow> \<exists>x w. apic_reset_common x = Some (s, w)) \<Longrightarrow> apic_reach m"
| step: "apic_reach m \<Longrightarrow> apic_step m m' \<Longrightarrow> apic_reach m'"

abbreviation all_inv :: "apic_machine \<Rightarrow> bool" where
  "all_inv \<equiv> machine_all (\<lambda>_. pred_option apic_inv)"

lemma all_invD: "all_inv m \<Longrightarrow> apic_at m i = Some s \<Longrightarrow> apic_inv s"
  using machine_allD [of "\<lambda>_. pred_option apic_inv"] by fastforce

lemma on_apic_inv:
  "all_inv m \<Longrightarrow> on_apic i f m = Some m' \<Longrightarrow> (\<And>s w s' w'. apic_inv s \<Longrightarrow> f (s, w) = Some (s', w') \<Longrightarrow> apic_inv s') \<Longrightarrow> all_inv m'"
  by (erule (1) on_apic_all) simp

text \<open>The end of an interrupt in three parts: the vector leaves the service register, the I/O controller hears of it when it was
  level-triggered, and the processor is told what is pending now.\<close>

lemma eoi_cases:
  assumes "apic_eoi i m = Some m'"
  obtains (none) "m' = m" "apic_at m i = None \<or> (\<exists>s. apic_at m i = Some s \<and> get_highest_priority_int (isr s) = None)"
  | (some) s v m1 m2 where "apic_at m i = Some s" "get_highest_priority_int (isr s) = Some v"
      "on_apic i (pure_op (\<lambda>s. s\<lparr>isr := tab_reset_bit (isr s) v\<rparr>)) m = Some m1"
      "m2 = m1 \<or> ioapic_eoi_broadcast v m1 = Some m2"
      "on_apic i (\<lambda>sw. Option.bind (apic_sync_vapic (SYNC_FROM_VAPIC OR SYNC_TO_VAPIC) sw) (apic_update_irq apic_fuel)) m2 = Some m'"
proof (cases "apic_at m i")
  case None
  with assms show thesis by (intro none) (simp_all add: apic_eoi_def)
next
  case s: (Some s)
  show thesis
  proof (cases "get_highest_priority_int (isr s)")
    case None
    with assms s show thesis by (intro none) (simp_all add: apic_eoi_def)
  next
    case (Some v)
    with assms s obtain m1 m2 where m: "on_apic i (pure_op (\<lambda>s. s\<lparr>isr := tab_reset_bit (isr s) v\<rparr>)) m = Some m1"
      "(if spurious_vec s AND APIC_SV_DIRECTED_IO = 0 \<and> tab_get_bit (tmr s) v then ioapic_eoi_broadcast v m1 else Some m1) = Some m2"
      "on_apic i (\<lambda>sw. Option.bind (apic_sync_vapic (SYNC_FROM_VAPIC OR SYNC_TO_VAPIC) sw) (apic_update_irq apic_fuel)) m2 = Some m'"
      unfolding apic_eoi_def by (simp only: option.case bind_eq_Some_conv) blast
    show thesis by (rule some [OF s Some m(1) _ m(3)]) (use m(2) in \<open>simp split: if_split_asm\<close>)
  qed
qed

lemma sync_update_inv:
  "apic_inv s \<Longrightarrow> Option.bind (apic_sync_vapic k (s, w)) (apic_update_irq n) = Some (s', w') \<Longrightarrow> apic_inv s'"
  by (auto simp: bind_eq_Some_conv simp del: apic_update_irq.simps dest: sync_inv intro: inv_update_irq)

lemma eoi_inv:
  assumes m: "all_inv m" and e: "apic_eoi i m = Some m'"
  shows "all_inv m'"
  using e
proof (cases rule: eoi_cases)
  case (some s v m1 m2)
  have retire: "apic_inv s \<Longrightarrow> pure_op (\<lambda>s. s\<lparr>isr := tab_reset_bit (isr s) v\<rparr>) (s, w) = Some (s', w') \<Longrightarrow> apic_inv s'" for s w s' w'
    using highest_less [OF some(2)] by (auto simp: pure_op_def apic_inv_def nested_retire)
  have "all_inv m1" using m some(3) retire by (rule on_apic_inv)
  then have "all_inv m2" using some(4) by (auto intro: inv.eoi_broadcast_all)
  then show ?thesis using some(5) sync_update_inv by (rule on_apic_inv)
qed (use m in simp)

lemma machine_get_interrupt_cases:
  assumes "machine_get_interrupt i m = Some (v, m')"
  obtains (none) "apic_at m i = None" "v = - 1" "m' = m"
  | (one) s s' w where "apic_at m i = Some s" "apic_get_interrupt (s, world m) = Some (v, s', w)" "world m' = w" "ioapic m' = ioapic m"
      "\<And>j. apic_at m' j = (if j = i then Some s' else apic_at m j)"
  using assms by (auto simp: machine_get_interrupt_def apic_at_put split: option.splits)

lemma machine_get_interrupt_inv:
  assumes m: "all_inv m" and g: "machine_get_interrupt i m = Some (v, m')"
  shows "all_inv m'"
  using g
proof (cases rule: machine_get_interrupt_cases)
  case (one s s' w)
  have "apic_inv s'" using get_interrupt_inv [OF all_invD [OF m one(1)] one(2)] .
  with m show ?thesis by (simp add: machine_all_def one(5))
qed (use m in simp)

lemma pure_op_inv: "apic_inv s \<Longrightarrow> pure_op f (s, w) = Some (s', w') \<Longrightarrow> apic_inv (f s) \<Longrightarrow> apic_inv s'"
  by (auto simp: pure_op_def)

lemma on_pure_inv: "all_inv m \<Longrightarrow> on_apic i (pure_op f) m = Some m' \<Longrightarrow> (\<And>s. apic_inv s \<Longrightarrow> apic_inv (f s)) \<Longrightarrow> all_inv m'"
  by (erule on_apic_inv) (auto simp: pure_op_def)

lemma take_hard_inv:
  assumes m: "all_inv m" and t: "cpu_take_hard i m = Some (n, m')"
  shows "all_inv m'"
proof -
  obtain m1 m2 k where c: "on_apic i (pure_op (cpu_reset_interrupt (CPU_INTERRUPT_HARD OR CPU_INTERRUPT_VIRQ))) m = Some m1"
    "machine_get_interrupt i m1 = Some (k, m2)" "m' = m2 \<or> (\<exists>v. machine_pic_read m2 = Some (v, m'))"
    using t by (auto simp: cpu_take_hard_def cpu_get_pic_interrupt_def bind_eq_Some_conv split: if_splits)
  have "all_inv m1" by (rule on_pure_inv [OF m c(1)]) (simp add: cpu_reset_interrupt_def apic_inv_def)
  then have "all_inv m2" using c(2) by (rule machine_get_interrupt_inv)
  with c(3) show ?thesis by (auto intro: inv.pic_read_all)
qed

text \<open>A read changes at most the task priority, from the shadow registers, and the error register.\<close>

lemma readl_cases:
  assumes "apic_mem_readl cur now addr m = Some (v, m')"
  obtains "m' = m" | i m1 where
      "m1 = m \<or> on_apic i (\<lambda>sw. Option.bind (apic_sync_vapic SYNC_FROM_VAPIC sw) (\<lambda>x. Some (cpu_report_tpr_access False x))) m = Some m1"
      "m' = m1 \<or> on_apic i (pure_op illegal_address) m1 = Some m'"
proof (cases cur)
  case (Some i)
  let ?f = "\<lambda>sw. Option.bind (apic_sync_vapic SYNC_FROM_VAPIC sw) (\<lambda>x. Some (cpu_report_tpr_access False x))"
  obtain m1 where c: "(if reg_index addr = 0x08 then on_apic i ?f m else Some m) = Some m1"
    "(case apic_at m1 i of None \<Rightarrow> Some (0, m1)
      | Some s \<Rightarrow> (case apic_reg now (reg_index addr) s of
                    Some v \<Rightarrow> Some (v, m1)
                  | None \<Rightarrow> Option.bind (on_apic i (pure_op illegal_address) m1) (\<lambda>m2. Some (0, m2)))) = Some (v, m')"
    using assms Some unfolding apic_mem_readl_def Let_def by (simp only: option.case bind_eq_Some_conv) blast
  show thesis
    by (rule that(2) [of m1 i]) (use c in \<open>auto split: if_split_asm option.split_asm simp: bind_eq_Some_conv\<close>)
qed (use assms in \<open>simp add: apic_mem_readl_def that(1)\<close>)

lemma readl_inv:
  assumes m: "all_inv m" and r: "apic_mem_readl cur now addr m = Some (v, m')"
  shows "all_inv m'"
  using r
proof (cases rule: readl_cases)
  case (2 i m1)
  from 2(1) have "all_inv m1"
  proof
    assume "on_apic i (\<lambda>sw. Option.bind (apic_sync_vapic SYNC_FROM_VAPIC sw) (\<lambda>x. Some (cpu_report_tpr_access False x))) m = Some m1"
    with m show ?thesis
      by (rule on_apic_inv) (auto simp: bind_eq_Some_conv cpu_report_tpr_access_def split: if_splits dest: sync_inv)
  qed (use m in simp)
  then show ?thesis using 2(2) by (elim disjE) (simp, erule (1) on_pure_inv, simp add: illegal_address_def apic_inv_def)
qed (use m in simp)

lemma icr_write_inv: "all_inv m \<Longrightarrow> on_apic i (pure_op (\<lambda>s. s\<lparr>icr := (icr s)[0 := val]\<rparr>)) m = Some m' \<Longrightarrow> all_inv m'"
  by (erule (1) on_pure_inv) (simp add: apic_inv_def)

lemma writel_cases:
  assumes "apic_mem_writel cur now addr val m = Some m'"
  obtains "apic_send_msi addr val m = Some m'" | "m' = m" | i where "apic_eoi i m = Some m'"
    | i m1 where "on_apic i (pure_op (\<lambda>s. s\<lparr>icr := (icr s)[0 := val]\<rparr>)) m = Some m1"
        "m' = m1 \<or> (\<exists>s dest d mode l. apic_deliver s dest d mode (unat (val AND 0xff)) l m1 = Some m')"
    | i where "on_apic i (apic_write_own now (reg_index addr) val) m = Some m'"
proof (cases "addr > 0xfff \<or> reg_index addr = 0")
  case True
  with assms show thesis by (intro that(1)) (simp add: apic_mem_writel_def)
next
  case False
  show thesis
  proof (cases cur)
    case None
    with False assms show thesis by (intro that(2)) (simp add: apic_mem_writel_def)
  next
    case (Some i)
    consider "reg_index addr = 0x0b" | "reg_index addr = 0x30" | "reg_index addr \<noteq> 0x0b" "reg_index addr \<noteq> 0x30" by blast
    then show thesis
    proof cases
      case 2
      with False Some assms obtain m1 where m1: "on_apic i (pure_op (\<lambda>s. s\<lparr>icr := (icr s)[0 := val]\<rparr>)) m = Some m1"
        "(case apic_at m1 i of None \<Rightarrow> Some m1
          | Some s \<Rightarrow> apic_deliver s (ucast (drop_bit 24 (icr s ! 1) AND 0xff)) (unat (drop_bit 11 val AND 1))
                       (unat (drop_bit 8 val AND 7)) (unat (val AND 0xff)) (drop_bit 15 val AND 1 = 1) m1) = Some m'"
        by (simp add: apic_mem_writel_def bind_eq_Some_conv) blast
      show thesis by (rule that(4) [OF m1(1)]) (use m1(2) in \<open>auto split: option.split_asm\<close>)
    next
      case 3
      with False Some assms show thesis by (intro that(5)) (simp add: apic_mem_writel_def Let_def)
    qed (use False Some assms in \<open>intro that(3); simp add: apic_mem_writel_def\<close>)
  qed
qed

lemma writel_inv:
  assumes m: "all_inv m" and w: "apic_mem_writel cur now addr val m = Some m'"
  shows "all_inv m'"
proof -
  consider "apic_send_msi addr val m = Some m'" | "m' = m" | i where "apic_eoi i m = Some m'"
    | i m1 where "on_apic i (pure_op (\<lambda>s. s\<lparr>icr := (icr s)[0 := val]\<rparr>)) m = Some m1"
        "m' = m1 \<or> (\<exists>s dest d mode l. apic_deliver s dest d mode (unat (val AND 0xff)) l m1 = Some m')"
    | i where "on_apic i (apic_write_own now (reg_index addr) val) m = Some m'"
    using w by (rule writel_cases)
  then show ?thesis
  proof cases
    case 5
    with m show ?thesis by (rule on_apic_inv) (rule write_own_inv)
  next
    case (4 i m1)
    from icr_write_inv [OF m 4(1)] 4(2) show ?thesis by (auto intro: inv.deliver_all lvt_vector_less)
  qed (use m in \<open>auto intro: eoi_inv inv.msi_all\<close>)
qed

lemma focus_inv:
  "apic_inv s \<Longrightarrow> apic_timer (s, w) = Some (s', w') \<Longrightarrow> apic_inv s'"
  "apic_inv s \<Longrightarrow> pure_op apic_sipi (s, w) = Some (s', w') \<Longrightarrow> apic_inv s'"
  "apic_inv s \<Longrightarrow> pure_op apic_init_reset (s, w) = Some (s', w') \<Longrightarrow> apic_inv s'"
  "apic_inv s \<Longrightarrow> apic_reset_common (s, w) = Some (s', w') \<Longrightarrow> apic_inv s'"
  "apic_inv s \<Longrightarrow> pure_op (apic_set_base b) (s, w) = Some (s', w') \<Longrightarrow> apic_inv s'"
  "apic_inv s \<Longrightarrow> apic_set_tpr t (s, w) = Some (s', w') \<Longrightarrow> apic_inv s'"
  "apic_inv s \<Longrightarrow> apic_poll_irq (s, w) = Some (s', w') \<Longrightarrow> apic_inv s'"
  "apic_inv s \<Longrightarrow> apic_external_nmi (s, w) = Some (s', w') \<Longrightarrow> apic_inv s'"
  "apic_inv s \<Longrightarrow> apic_enable_vapic paddr (s, w) = Some (s', w') \<Longrightarrow> apic_inv s'"
proof -
  assume i: "apic_inv s"
  have off: "x < (0x200 :: u32) \<Longrightarrow> x AND y < 0x200" for x y
    using word_and_le2 [of x y] by (rule le_less_trans)
  have t: "apic_inv (s\<lparr>tpr := x\<rparr>)" "apic_inv (s\<lparr>vapic_paddr := p\<rparr>)" for x p
    using i by (simp_all add: apic_inv_def)
  show "apic_timer (s, w) = Some (s', w') \<Longrightarrow> apic_inv s'"
    using i by (auto simp: apic_timer_def bind_eq_Some_conv simp del: apic_local_deliver.simps intro: apic_timer_update_inv inv_local_deliver)
  show "pure_op apic_sipi (s, w) = Some (s', w') \<Longrightarrow> apic_inv s'"
    using i by (auto simp: pure_op_def apic_sipi_def Let_def cpu_reset_interrupt_def apic_inv_def)
  show "pure_op apic_init_reset (s, w) = Some (s', w') \<Longrightarrow> apic_inv s'"
    using init_reset_inv [of s] by (simp add: pure_op_def)
  show "apic_reset_common (s, w) = Some (s', w') \<Longrightarrow> apic_inv s'" using reset_common_inv by fastforce
  show "pure_op (apic_set_base b) (s, w) = Some (s', w') \<Longrightarrow> apic_inv s'"
    using i by (auto simp: pure_op_def apic_set_base_def Let_def apic_inv_def off)
  show "apic_set_tpr t (s, w) = Some (s', w') \<Longrightarrow> apic_inv s'"
    using i inv_update_irq [OF t(1)] by (auto simp: apic_set_tpr_def simp del: apic_update_irq.simps split: if_splits)
  show "apic_poll_irq (s, w) = Some (s', w') \<Longrightarrow> apic_inv s'"
    using i by (auto simp: apic_poll_irq_def bind_eq_Some_conv simp del: apic_update_irq.simps dest: sync_inv intro: inv_update_irq)
  show "apic_external_nmi (s, w) = Some (s', w') \<Longrightarrow> apic_inv s'"
    using i unfolding apic_external_nmi_def by (rule inv_local_deliver)
  show "apic_enable_vapic paddr (s, w) = Some (s', w') \<Longrightarrow> apic_inv s'"
    using t unfolding apic_enable_vapic_def apic_vapic_base_update_def by (auto dest: sync_inv [rotated])
qed

lemma step_inv: "apic_step m m' \<Longrightarrow> all_inv m \<Longrightarrow> all_inv m'"
proof (induction rule: apic_step.induct)
  case (take i m n m')
  then show ?case by (blast intro: take_hard_inv)
qed (auto intro: readl_inv writel_inv inv.gsi_all inv.io_write_all inv.drive_all on_apic_inv focus_inv)

lemma reach_inv: "apic_reach m \<Longrightarrow> all_inv m"
proof (induction rule: apic_reach.induct)
  case (start m)
  have "pred_option apic_inv (apic_at m i)" for i
    using start [of i] reset_common_inv by (cases "apic_at m i") fastforce+
  then show ?case by (simp add: machine_all_def)
qed (rule step_inv)

end
