(* ===== verification/ApicServe.thy ===== *)
theory ApicServe
  imports ApicMachine
begin

unbundle bit_operations_syntax

text \<open>
  What the processors are promised: interrupts in service nest, requests are signalled while no controller accepts the 8259 (and one
  path on which they are not when one does), and the circle of calls inside a controller ends, one configuration aside.
\<close>

section \<open>Interrupts in service\<close>

text \<open>One controller and its service register, whatever is delivered.\<close>

definition serves :: "nat \<Rightarrow> u32 list \<Rightarrow> nat \<Rightarrow> APICCommonState option \<Rightarrow> bool" where
  "serves k t i a \<longleftrightarrow> (i = k \<longrightarrow> (\<exists>s. a = Some s \<and> isr s = t))"

interpretation service: apic_invariant "serves k t" for k t
proof unfold_locales
  fix i s w l s' w'
  assume "serves k t i (Some s)" "apic_deliver_pic_intr l (s, w) = Some (s', w')"
  then show "serves k t i (Some s')"
    using arrival_fields(1) [of "(s, w)" "(s', w')"] lowered_fields(1) [of s s'] by (auto simp: serves_def dest!: pic_line_cases)
qed (auto simp: serves_def arrival_fields(1) [OF delivery_arrival])

lemma machine_serves: "machine_all (serves k t) m \<longleftrightarrow> (\<exists>s. apic_at m k = Some s \<and> isr s = t)"
  by (auto simp: machine_all_def serves_def)

lemma delivery_sync_update: "Option.bind (apic_sync_vapic k x) (apic_update_irq n) = Some y \<Longrightarrow> delivery x y"
proof -
  assume "Option.bind (apic_sync_vapic k x) (apic_update_irq n) = Some y"
  then obtain z where "apic_sync_vapic k x = Some z" "apic_update_irq n z = Some y" unfolding bind_eq_Some_conv by blast
  then show ?thesis using arrival_sync [of k "fst x" "snd x" z]
    by (auto simp: delivery_def update_line_up intro: arrival_trans arrival_irq(1))
qed

lemma eoi_service:
  assumes e: "apic_eoi i m = Some m'" and s: "apic_at m i = Some s" and v: "get_highest_priority_int (isr s) = Some v"
  shows "\<exists>s'. apic_at m' i = Some s' \<and> isr s' = tab_reset_bit (isr s) v"
  using e
proof (cases rule: eoi_cases)
  case none
  with s v show ?thesis by simp
next
  case (some t u m1 m2)
  then have [simp]: "t = s" "u = v" using s v by simp_all
  let ?P = "serves i (tab_reset_bit (isr s) v)"
  have "machine_all ?P m1" using some(3) s unfolding machine_serves
    by (cases rule: on_apic_cases) (auto simp: pure_op_def)
  then have "machine_all ?P m2" using some(4) by (auto intro: service.eoi_broadcast_all)
  then have "machine_all ?P m'" using some(5)
  proof (rule on_apic_all)
    fix s w s' w'
    assume p: "?P i (Some s)"
    assume "Option.bind (apic_sync_vapic (SYNC_FROM_VAPIC OR SYNC_TO_VAPIC) (s, w)) (apic_update_irq apic_fuel) = Some (s', w')"
    then have "delivery (s, w) (s', w')" by (rule delivery_sync_update)
    with p show "?P i (Some s')" using service.arrives [of "(s, w)" "(s', w')"] by simp
  qed
  then show ?thesis by (simp add: machine_serves)
qed

text \<open>The processor's request in terms of the service register.\<close>

lemma get_interrupt_service:
  assumes i: "apic_inv s" and g: "apic_get_interrupt (s, w) = Some (v, s', w')" and c: "vectors (isr s') \<noteq> vectors (isr s)"
  shows "\<exists>n. v = int n \<and> n < 256 \<and> isr s' = tab_set_bit (isr s) n \<and> (16 \<le> n \<longrightarrow> (\<forall>u\<in>vectors (isr s). u div 16 < n div 16))"
  using g
proof (cases rule: get_interrupt_cases)
  case none
  with c show ?thesis using arrival_fields(1) [of "(s, w)" "(s', w')"] by simp
next
  case (take s1 w1 w2 n)
  have s1: "isr s1 = isr s" using arrival_fields(1) [OF take(1)] by simp
  moreover have "isr s' = tab_set_bit (isr s) n" using arrival_fields(1) [OF arrival_irq(1) [OF take(5)]] s1 by (simp add: take_irq_def)
  moreover have "16 \<le> n \<longrightarrow> (\<forall>u\<in>vectors (isr s). u div 16 < n div 16)"
    using servable_above [of s1 n] take(2) s1 i by (auto simp: apic_inv_def)
  ultimately show ?thesis using servable_less [OF take(2)] take(3) by blast
qed

text \<open>C8: [apic_nesting] In every state that resets, accesses, lines, messages and timers lead to, no two interrupts in service of a
  controller share a priority class (the reserved classes aside). When a processor takes an interrupt that goes into service, its class
  is above all others, it is the one the next end of interrupt retires, and that gives back the service register of before.\<close>

theorem apic_nesting:
  assumes r: "apic_reach m" and s: "apic_at m i = Some s"
  shows "(\<forall>u\<in>vectors (isr s). \<forall>v\<in>vectors (isr s). u \<noteq> v \<and> 16 \<le> u \<and> 16 \<le> v \<longrightarrow> u div 16 \<noteq> v div 16)
    \<and> (\<forall>n m1 s1. machine_get_interrupt i m = Some (int n, m1) \<and> apic_at m1 i = Some s1 \<and> vectors (isr s1) \<noteq> vectors (isr s) \<and> 16 \<le> n \<longrightarrow>
         (\<forall>u\<in>vectors (isr s). u div 16 < n div 16) \<and> get_highest_priority_int (isr s1) = Some n
         \<and> (\<forall>m2. apic_eoi i m1 = Some m2 \<longrightarrow> (\<exists>s2. apic_at m2 i = Some s2 \<and> vectors (isr s2) = vectors (isr s))))"
proof (intro conjI allI impI; (elim conjE)?)
  have inv: "apic_inv s" using reach_inv [OF r] s by (rule all_invD)
  then have ok: "tab_ok (isr s)" by (simp add: apic_inv_def)
  show "\<forall>u\<in>vectors (isr s). \<forall>v\<in>vectors (isr s). u \<noteq> v \<and> 16 \<le> u \<and> 16 \<le> v \<longrightarrow> u div 16 \<noteq> v div 16"
    using inv by (simp add: apic_inv_def nested_def)
  fix n m1 s1
  assume g: "machine_get_interrupt i m = Some (int n, m1)" and s1: "apic_at m1 i = Some s1"
    and c: "vectors (isr s1) \<noteq> vectors (isr s)" and n16: "16 \<le> n"
  obtain w where "apic_get_interrupt (s, world m) = Some (int n, s1, w)"
    using g s s1 by (cases rule: machine_get_interrupt_cases) auto
  from get_interrupt_service [OF inv this c] n16 have n: "n < 256" "isr s1 = tab_set_bit (isr s) n"
    and cl: "\<forall>u\<in>vectors (isr s). u div 16 < n div 16" by auto
  then have above: "\<forall>u\<in>vectors (isr s). u < n" by (metis div_le_mono not_less)
  show "\<forall>u\<in>vectors (isr s). u div 16 < n div 16" by (rule cl)
  show top: "get_highest_priority_int (isr s1) = Some n" unfolding n(2) using ok n(1) above by (rule reg.top_put)
  fix m2
  assume "apic_eoi i m1 = Some m2"
  from eoi_service [OF this s1 top] show "\<exists>s2. apic_at m2 i = Some s2 \<and> vectors (isr s2) = vectors (isr s)"
    using reg.put_clear_top [OF ok n(1) above] n(2) by auto
qed

section \<open>Requests reach the processor\<close>

text \<open>No controller accepts the 8259 (as when a guest routes everything through the I/O controller), and the line of each but one
  follows its requests; \<open>k\<close> is the exception, if any.\<close>

definition quiet_pic :: "nat option \<Rightarrow> nat \<Rightarrow> APICCommonState option \<Rightarrow> bool" where
  "quiet_pic k i = pred_option (\<lambda>s. \<not> apic_accept_pic_intr s \<and> (k \<noteq> Some i \<longrightarrow> line_up s))"

definition lines_up :: "nat \<Rightarrow> APICCommonState option \<Rightarrow> bool" where
  "lines_up i = pred_option line_up"

definition no_pic :: "nat \<Rightarrow> APICCommonState option \<Rightarrow> bool" where
  "no_pic i = pred_option (\<lambda>s. \<not> apic_accept_pic_intr s)"

lemma accept_arrival: "arrival x y \<Longrightarrow> apic_accept_pic_intr (fst y) = apic_accept_pic_intr (fst x)"
  by (simp add: apic_accept_pic_intr_def arrival_fields)

interpretation quiet: apic_invariant "quiet_pic k" for k
proof unfold_locales
  fix x y :: apic_focus and i
  assume "delivery x y" "quiet_pic k i (Some (fst x))"
  then show "quiet_pic k i (Some (fst y))" using accept_arrival [of x y] by (simp add: quiet_pic_def delivery_def)
qed (simp_all add: quiet_pic_def, simp_all add: apic_accept_pic_intr_def)

lemma all_pred: "machine_all (\<lambda>i. pred_option (Q i)) m \<longleftrightarrow> (\<forall>i s. apic_at m i = Some s \<longrightarrow> Q i s)"
  unfolding machine_all_def by (metis option.pred_inject(2) option.pred_inject(1) option.exhaust)

lemma quiet_split: "machine_all (quiet_pic k) m \<longleftrightarrow> machine_all no_pic m \<and> (\<forall>i s. k \<noteq> Some i \<longrightarrow> apic_at m i = Some s \<longrightarrow> line_up s)"
  unfolding quiet_pic_def [abs_def] no_pic_def [abs_def] all_pred by blast

lemma lines_at: "machine_all lines_up m \<longleftrightarrow> (\<forall>i s. apic_at m i = Some s \<longrightarrow> line_up s)"
  unfolding lines_up_def [abs_def] all_pred ..

lemma nobody: "machine_all (quiet_pic None) m \<longleftrightarrow> machine_all no_pic m \<and> machine_all lines_up m"
  by (simp add: quiet_split lines_at)

lemma quiet_lines: "machine_all (quiet_pic (Some k)) m \<Longrightarrow> apic_at m k = None \<or> (\<exists>s. apic_at m k = Some s \<and> line_up s) \<Longrightarrow> machine_all lines_up m"
  unfolding quiet_split lines_at by (metis option.distinct(1) option.inject)

lemma lines_on:
  assumes "machine_all lines_up m" "on_apic i f m = Some m'"
    and "\<And>s w s' w'. apic_at m i = Some s \<Longrightarrow> line_up s \<Longrightarrow> f (s, w) = Some (s', w') \<Longrightarrow> line_up s'"
  shows "machine_all lines_up m'"
  using assms(2)
proof (cases rule: on_apic_cases)
  case (one s s' w)
  have "line_up s'" using assms(1) one(1) assms(3) [OF one(1) _ one(2)] by (simp add: lines_at)
  with assms(1) one(6) show ?thesis by (simp add: lines_at)
qed (use assms(1) in simp)

lemma line_sync: "line_up s \<Longrightarrow> apic_sync_vapic k (s, w) = Some (s', w') \<Longrightarrow> line_up s'"
  using delivery_sync by (fastforce simp: delivery_def)

lemma line_update: "apic_update_irq n (s, w) = Some (s', w') \<Longrightarrow> line_up s'"
  using update_line_up by fastforce

lemma write_own_line:
  assumes l: "line_up s" and w: "apic_write_own now index val (s, w) = Some (s', w')"
  shows "line_up s'"
  using w l by (auto simp: apic_write_own_def illegal_address_def cpu_report_tpr_access_def Let_def bind_eq_Some_conv
      simp del: apic_update_irq.simps split: if_splits dest: line_update)

lemma env_line: "interrupt_request e AND CPU_INTERRUPT_HARD = interrupt_request (cpu_env s) AND CPU_INTERRUPT_HARD \<Longrightarrow>
    line_up (s\<lparr>cpu_env := e\<rparr>) = line_up s"
  by (simp add: line_up_def)

lemma no_request_line: "irr s = replicate 8 0 \<Longrightarrow> line_up s"
  by (simp add: line_up_def pending_none highest_vectors)

lemma sipi_line: "line_up s \<Longrightarrow> line_up (apic_sipi s)"
  by (rule iffD2 [OF line_same [where s = s]])
    (simp_all add: apic_sipi_def Let_def cpu_reset_interrupt_def cpu_x86_load_seg_cache_sipi_def and.assoc)

lemma base_line: "line_up s \<Longrightarrow> line_up (apic_set_base b s)"
proof (cases "b AND 0x800 = 0")
  case True
  then show ?thesis by (intro idle_line(2)) (simp add: apic_set_base_def Let_def and.assoc)
next
  case False
  assume "line_up s"
  then show ?thesis using False by (simp add: apic_set_base_def Let_def)
qed

lemma focus_line:
  "line_up s \<Longrightarrow> apic_timer (s, w) = Some (s', w') \<Longrightarrow> line_up s'"
  "apic_reset_common (s, w) = Some (s', w') \<Longrightarrow> line_up s'"
  "line_up s \<Longrightarrow> apic_set_tpr t (s, w) = Some (s', w') \<Longrightarrow> line_up s'"
  "apic_poll_irq (s, w) = Some (s', w') \<Longrightarrow> line_up s'"
  "line_up s \<Longrightarrow> apic_external_nmi (s, w) = Some (s', w') \<Longrightarrow> line_up s'"
  "paddr \<noteq> 0 \<Longrightarrow> apic_enable_vapic paddr (s, w) = Some (s', w') \<Longrightarrow> line_up s'"
proof -
  have loc: "line_up s \<Longrightarrow> apic_local_deliver n v (s, w) = Some (s', w') \<Longrightarrow> line_up s'" for n v s'
    using delivery_local by (fastforce simp: delivery_def)
  show "line_up s \<Longrightarrow> apic_timer (s, w) = Some (s', w') \<Longrightarrow> line_up s'"
    by (auto simp: apic_timer_def bind_eq_Some_conv simp del: apic_local_deliver.simps dest: loc)
  show "apic_reset_common (s, w) = Some (s', w') \<Longrightarrow> line_up s'"
    by (auto simp: apic_reset_common_def Let_def bind_eq_Some_conv apic_init_reset_def split: if_splits intro: no_request_line)
  show "line_up s \<Longrightarrow> apic_set_tpr t (s, w) = Some (s', w') \<Longrightarrow> line_up s'"
    by (auto simp: apic_set_tpr_def simp del: apic_update_irq.simps split: if_splits dest: line_update)
  show "apic_poll_irq (s, w) = Some (s', w') \<Longrightarrow> line_up s'"
    by (auto simp: apic_poll_irq_def bind_eq_Some_conv simp del: apic_update_irq.simps dest: line_update)
  show "line_up s \<Longrightarrow> apic_external_nmi (s, w) = Some (s', w') \<Longrightarrow> line_up s'"
    unfolding apic_external_nmi_def by (rule loc)
  show "paddr \<noteq> 0 \<Longrightarrow> apic_enable_vapic paddr (s, w) = Some (s', w') \<Longrightarrow> line_up s'"
    by (auto simp: apic_enable_vapic_def apic_vapic_base_update_def apic_sync_vapic_def Let_def line_up_def split: if_splits)
qed

lemma get_interrupt_line:
  assumes "apic_get_interrupt (s, w) = Some (v, s', w')"
  shows "line_up s'"
proof (cases "spurious_vec s AND APIC_SV_ENABLE = 0")
  case True
  with assms show ?thesis by (auto simp: apic_get_interrupt_def intro: idle_line)
next
  case False
  then obtain s1 w1 where s1: "apic_sync_vapic SYNC_FROM_VAPIC (s, w) = Some (s1, w1)"
    using assms by (auto simp: apic_get_interrupt_def bind_eq_Some_conv)
  show ?thesis
  proof (cases "apic_irq_pending s1 > 0")
    case True
    with False s1 assms show ?thesis
      by (auto simp: apic_get_interrupt_def bind_eq_Some_conv Let_def simp del: apic_update_irq.simps dest: line_update)
  next
    case f: False
    then have "line_up s1" by (rule idle_line)
    with False s1 f assms show ?thesis
      by (auto simp: apic_get_interrupt_def bind_eq_Some_conv Let_def split: if_splits dest: line_sync)
  qed
qed

lemma eoi_line:
  assumes p: "machine_all no_pic m" and l: "machine_all lines_up m" and e: "apic_eoi i m = Some m'"
  shows "machine_all lines_up m'"
  using e
proof (cases rule: eoi_cases)
  case (some s v m1 m2)
  have "machine_all (quiet_pic (Some i)) m" using p l by (simp add: quiet_split lines_at)
  then have "machine_all (quiet_pic (Some i)) m1" using some(3)
    by (rule on_apic_all) (auto simp: pure_op_def quiet_pic_def apic_accept_pic_intr_def)
  then have q: "machine_all (quiet_pic (Some i)) m2" using some(4) by (auto intro: quiet.eoi_broadcast_all)
  have "apic_at m' i = None \<or> (\<exists>s. apic_at m' i = Some s \<and> line_up s)" using some(5)
  proof (cases rule: on_apic_cases)
    case (one t t' w)
    then obtain x where "apic_update_irq apic_fuel x = Some (t', w)" by (auto simp: bind_eq_Some_conv simp del: apic_update_irq.simps)
    from update_line_up [OF this] show ?thesis using one(6) by simp
  qed simp
  moreover have "machine_all (quiet_pic (Some i)) m'" using q some(5)
  proof (rule on_apic_all)
    fix s w s' w'
    assume s: "quiet_pic (Some i) i (Some s)"
    assume "Option.bind (apic_sync_vapic (SYNC_FROM_VAPIC OR SYNC_TO_VAPIC) (s, w)) (apic_update_irq apic_fuel) = Some (s', w')"
    then have "delivery (s, w) (s', w')" by (rule delivery_sync_update)
    with s show "quiet_pic (Some i) i (Some s')" using quiet.arrives [of "(s, w)" "(s', w')"] by simp
  qed
  ultimately show ?thesis by (intro quiet_lines)
qed (use l in simp)

text \<open>Steps from states, and to states, in which no controller accepts the 8259.\<close>

inductive apic_io_reach :: "apic_machine \<Rightarrow> bool" where
  start: "machine_all no_pic m \<Longrightarrow> (\<And>i s. apic_at m i = Some s \<Longrightarrow> vectors (irr s) = {}) \<Longrightarrow> apic_io_reach m"
| step: "apic_io_reach m \<Longrightarrow> apic_step m m' \<Longrightarrow> machine_all no_pic m' \<Longrightarrow> apic_io_reach m'"

lemma take_hard_line:
  assumes p: "machine_all no_pic m" and l: "machine_all lines_up m" and t: "cpu_take_hard i m = Some (n, m')"
  shows "machine_all lines_up m'"
proof -
  obtain m1 m2 k where c: "on_apic i (pure_op (cpu_reset_interrupt (CPU_INTERRUPT_HARD OR CPU_INTERRUPT_VIRQ))) m = Some m1"
    "machine_get_interrupt i m1 = Some (k, m2)" "m' = m2 \<or> (\<exists>v. machine_pic_read m2 = Some (v, m'))"
    using t by (auto simp: cpu_take_hard_def cpu_get_pic_interrupt_def bind_eq_Some_conv split: if_splits)
  have "machine_all (quiet_pic (Some i)) m" using p l by (simp add: quiet_split lines_at)
  then have q1: "machine_all (quiet_pic (Some i)) m1" using c(1)
    by (rule on_apic_all) (auto simp: pure_op_def quiet_pic_def apic_accept_pic_intr_def cpu_reset_interrupt_def)
  have q2: "machine_all (quiet_pic None) m2" using c(2)
  proof (cases rule: machine_get_interrupt_cases)
    case none
    then show ?thesis using q1 by (auto simp: quiet_split) (metis option.distinct(1))
  next
    case (one s s' w)
    have "apic_accept_pic_intr s' = apic_accept_pic_intr s" using one(2)
    proof (cases rule: get_interrupt_cases)
      case none
      then show ?thesis using accept_arrival [of "(s, world m1)" "(s', w)"] by simp
    next
      case (take s1 w1 w2 v)
      then show ?thesis using accept_arrival [OF take(1)] accept_arrival [OF arrival_irq(1) [OF take(5)]]
        by (simp add: take_irq_def apic_accept_pic_intr_def)
    qed
    moreover have "quiet_pic (Some i) j (apic_at m1 j)" for j using q1 by (simp add: machine_all_def)
    from this [of i] have "\<not> apic_accept_pic_intr s" using one(1) by (simp add: quiet_pic_def)
    ultimately have "\<not> apic_accept_pic_intr s'" by simp
    then have "quiet_pic None i (Some s')" using get_interrupt_line [OF one(2)] by (simp add: quiet_pic_def)
    moreover have "quiet_pic None j (apic_at m1 j)" if "j \<noteq> i" for j
      using \<open>quiet_pic (Some i) j (apic_at m1 j)\<close> that by (simp add: quiet_pic_def)
    ultimately show ?thesis by (simp add: machine_all_def one(5))
  qed
  then have "machine_all (quiet_pic None) m'" using c(3) by (auto intro: quiet.pic_read_all)
  then show ?thesis by (simp add: nobody)
qed

lemma step_line:
  assumes "apic_step m m'" and p: "machine_all no_pic m" and l: "machine_all lines_up m"
  shows "machine_all lines_up m'"
proof -
  have q: "machine_all (quiet_pic None) m" using p l by (simp add: nobody)
  have out: "(machine_all (quiet_pic None) m \<Longrightarrow> machine_all (quiet_pic None) m') \<Longrightarrow> machine_all lines_up m'" for m'
    using q by (simp add: nobody)
  have on: "on_apic i f m = Some m' \<Longrightarrow> (\<And>s w s' w'. line_up s \<Longrightarrow> f (s, w) = Some (s', w') \<Longrightarrow> line_up s') \<Longrightarrow> machine_all lines_up m'"
    for i f m' using l by (rule lines_on)
  show ?thesis using assms(1)
  proof cases
    case (read cur now addr v)
    then show ?thesis
    proof (cases rule: readl_cases)
      case (2 i m1)
      have "machine_all lines_up m1"
        using 2(1) l by (elim disjE) (simp, erule on, auto simp: bind_eq_Some_conv cpu_report_tpr_access_def split: if_splits dest: line_sync)
      then show ?thesis using 2(2) by (elim disjE) (simp, erule (1) lines_on, auto simp: pure_op_def illegal_address_def)
    qed (use l in simp)
  next
    case (store cur now addr val)
    then show ?thesis
    proof (cases rule: writel_cases)
      case (4 i m1)
      have "machine_all (quiet_pic None) m1" using q 4(1)
        by (rule on_apic_all) (auto simp: pure_op_def quiet_pic_def apic_accept_pic_intr_def)
      then have "machine_all (quiet_pic None) m'" using 4(2) by (auto intro: quiet.deliver_all lvt_vector_less)
      then show ?thesis by (simp add: nobody)
    next
      case (5 i)
      then show ?thesis by (rule on) (rule write_own_line)
    qed (use p l in \<open>auto intro: eoi_line out quiet.msi_all\<close>)
  next
    case (take i n)
    show ?thesis using p l take by (rule take_hard_line)
  next
    case (init i)
    show ?thesis by (rule on [OF init]) (auto simp: pure_op_def apic_init_reset_def intro: no_request_line)
  next
    case (sipi i)
    show ?thesis by (rule on [OF sipi]) (auto simp: pure_op_def intro: sipi_line)
  next
    case (base i b)
    show ?thesis by (rule on [OF base]) (auto simp: pure_op_def intro: base_line)
  next
    case (io_reset s)
    then show ?thesis using l by simp
  qed (auto intro: out quiet.gsi_all quiet.io_write_all quiet.drive_all on focus_line)
qed

section \<open>A machine\<close>

text \<open>One processor after power-on, for the witnesses.\<close>

definition demo_world :: apic_world where
  "demo_world = \<lparr>apic_irq_delivered = 0, apic_report_tpr_access = False, tpr_reports = [], guest_ram = (\<lambda>_. 0), vcpu_thread = True,
     isa_pic = i8259_init\<rparr>"

definition demo_apic :: APICCommonState where
  "demo_apic = fst (the (apic_reset_common (the (apic_init_common 0 0), demo_world)))"

definition demo_machine :: apic_machine where
  "demo_machine = \<lparr>local_apics = [Some demo_apic],
     ioapic = Some (ioapic_reset_common \<lparr>ioapic_id = 0, ioregsel = 0, ioapic_irr = 0, ioredtbl = []\<rparr>), world = demo_world\<rparr>"

text \<open>The guest switches the controller on and sends itself vector 0x41.\<close>

definition demo_on :: apic_machine where
  "demo_on = the (apic_mem_writel (Some 0) 0 0xf0 0x1ff demo_machine)"

definition demo_sent :: apic_machine where
  "demo_sent = the (apic_mem_writel (Some 0) 0 0x300 0x40041 demo_on)"

definition demo_taken :: apic_machine where
  "demo_taken = snd (the (machine_get_interrupt 0 demo_sent))"

lemma some_the: "\<not> Option.is_none x \<Longrightarrow> x = Some (the x)"
  by (cases x) simp_all

lemma demo_steps:
  "apic_mem_writel (Some 0) 0 0xf0 0x1ff demo_machine = Some demo_on"
  "apic_mem_writel (Some 0) 0 0x300 0x40041 demo_on = Some demo_sent"
  unfolding demo_on_def demo_sent_def by (rule some_the, code_simp)+

lemma demo_take: "machine_get_interrupt 0 demo_sent = Some (0x41, demo_taken)"
proof -
  have "\<not> Option.is_none (machine_get_interrupt 0 demo_sent)" "fst (the (machine_get_interrupt 0 demo_sent)) = 0x41" by code_simp+
  then show ?thesis unfolding demo_taken_def by (cases "machine_get_interrupt 0 demo_sent") auto
qed

lemma demo_at: "apic_at demo_sent 0 = Some (the (apic_at demo_sent 0))" "apic_at demo_taken 0 = Some (the (apic_at demo_taken 0))"
  by (rule some_the, code_simp)+

lemma demo_reach: "apic_reach demo_sent"
proof -
  have "apic_reset_common (the (apic_init_common 0 0), demo_world) = Some (demo_apic, snd (the (apic_reset_common (the (apic_init_common 0 0), demo_world))))"
    unfolding demo_apic_def by (subst some_the, code_simp) simp
  then have "apic_reach demo_machine"
    by (intro apic_reach.start) (auto simp: demo_machine_def apic_at_def split: if_splits)
  then show ?thesis using apic_step.store [OF demo_steps(1)] apic_step.store [OF demo_steps(2)] by (blast intro: apic_reach.step)
qed

lemma demo_isr: "isr (the (apic_at demo_sent 0)) = replicate 8 0" "isr (the (apic_at demo_taken 0)) = tab_set_bit (replicate 8 0) 0x41"
  by code_simp+

theorem apic_nesting_witness:
  "get_highest_priority_int (isr (the (apic_at demo_taken 0))) = Some 0x41
   \<and> (\<exists>m2 s2. apic_eoi 0 demo_taken = Some m2 \<and> apic_at m2 0 = Some s2 \<and> vectors (isr s2) = {})"
proof -
  have h: "machine_get_interrupt 0 demo_sent = Some (int 0x41, demo_taken) \<and> apic_at demo_taken 0 = Some (the (apic_at demo_taken 0))
      \<and> vectors (isr (the (apic_at demo_taken 0))) \<noteq> vectors (isr (the (apic_at demo_sent 0))) \<and> 16 \<le> (0x41 :: nat)"
    by (simp add: demo_take demo_at(2) [symmetric] demo_isr vectors_set_bit)
  have "\<not> Option.is_none (apic_eoi 0 demo_taken)" by code_simp
  then obtain m2 where "apic_eoi 0 demo_taken = Some m2" using some_the by blast
  then show ?thesis
    using conjunct2 [OF apic_nesting [OF demo_reach demo_at(1)], THEN spec, THEN spec, THEN spec, THEN mp, OF h] by (simp add: demo_isr)
qed

section \<open>Requests are signalled\<close>

lemma io_reach_line: "apic_io_reach m \<Longrightarrow> machine_all no_pic m \<and> machine_all lines_up m"
proof (induction rule: apic_io_reach.induct)
  case (start m)
  then show ?case by (auto simp: lines_at line_up_def pending_none highest_vectors)
next
  case (step m m')
  then show ?case by (blast intro: step_line)
qed

text \<open>C11: [apic_line_follows] While no controller accepts the 8259, whatever else happens: a controller that has no shadow registers in
  guest memory, is on and holds a request above the priority of its processor has the processor's line up, and the processor that asks
  gets the highest request. (With shadow registers the task priority is the guest's memory, and reading it may lower it at any time.)\<close>

theorem apic_line_follows:
  assumes "apic_io_reach m" "apic_at m i = Some s" "vapic_paddr s = 0" "spurious_vec s AND APIC_SV_ENABLE \<noteq> 0" "servable s v"
  shows "interrupt_request (cpu_env s) AND CPU_INTERRUPT_HARD \<noteq> 0
    \<and> (\<forall>n m'. machine_get_interrupt i m = Some (n, m') \<longrightarrow> n = int v \<and> (\<exists>s'. apic_at m' i = Some s' \<and> isr s' = tab_set_bit (isr s) v))"
proof (intro conjI allI impI)
  have "line_up s" using io_reach_line [OF assms(1)] assms(2) by (simp add: lines_at)
  then show "interrupt_request (cpu_env s) AND CPU_INTERRUPT_HARD \<noteq> 0" using assms(3,4,5) by (auto simp: line_up_def pending_pos)
  fix n m'
  assume "machine_get_interrupt i m = Some (n, m')"
  then obtain s' w where g: "apic_get_interrupt (s, world m) = Some (n, s', w)" and at: "apic_at m' i = Some s'"
    using assms(2) by (cases rule: machine_get_interrupt_cases) auto
  have u: "n = int v \<and> apic_update_irq apic_fuel (take_irq v s, world m) = Some (s', w)"
    using g assms(3,4) servable_pending [OF assms(5)] assms(5)
    by (auto simp: apic_get_interrupt_def apic_sync_vapic_def bind_eq_Some_conv servable_def take_irq_def simp del: apic_update_irq.simps)
  then show "n = int v" by simp
  have "isr s' = isr (take_irq v s)" using arrival_fields(1) [OF arrival_irq(1)] u by fastforce
  with at show "\<exists>s'. apic_at m' i = Some s' \<and> isr s' = tab_set_bit (isr s) v" by (simp add: take_irq_def)
qed

definition demo_masked :: apic_machine where
  "demo_masked = the (apic_mem_writel (Some 0) 0 0x350 0x10000 demo_on)"

definition demo_asked :: apic_machine where
  "demo_asked = the (apic_mem_writel (Some 0) 0 0x300 0x40041 demo_masked)"

lemma single_apic: "length (local_apics m) = 1 \<Longrightarrow> apic_at m i = Some s \<Longrightarrow> i = 0 \<and> s = the (apic_at m 0)"
  by (simp add: apic_at_def split: if_splits)

lemma demo_asked_reach: "apic_io_reach demo_asked"
proof -
  have "length (local_apics demo_masked) = 1" "irr (the (apic_at demo_masked 0)) = replicate 8 0" "\<not> apic_accept_pic_intr (the (apic_at demo_masked 0))"
    "length (local_apics demo_asked) = 1" "\<not> apic_accept_pic_intr (the (apic_at demo_asked 0))" by code_simp+
  note f = this
  have "machine_all no_pic demo_masked" "machine_all no_pic demo_asked"
    unfolding no_pic_def [abs_def] all_pred using single_apic [OF f(1)] single_apic [OF f(4)] f by metis+
  moreover have "vectors (irr s) = {}" if "apic_at demo_masked i = Some s" for i s
    using single_apic [OF f(1) that] f(2) by simp
  moreover have "apic_mem_writel (Some 0) 0 0x300 0x40041 demo_masked = Some demo_asked"
    unfolding demo_asked_def by (rule some_the, code_simp)
  ultimately show ?thesis using apic_step.store by (blast intro: apic_io_reach.start apic_io_reach.step)
qed

theorem apic_line_follows_witness:
  "interrupt_request (cpu_env (the (apic_at demo_asked 0))) AND CPU_INTERRUPT_HARD \<noteq> 0"
proof -
  have s: "apic_at demo_asked 0 = Some (the (apic_at demo_asked 0))" by (rule some_the, code_simp)
  have "vapic_paddr (the (apic_at demo_asked 0)) = 0" "spurious_vec (the (apic_at demo_asked 0)) AND 0x100 \<noteq> 0"
    "apic_irq_pending (the (apic_at demo_asked 0)) = 0x41" by code_simp+
  then show ?thesis
    using apic_line_follows [OF demo_asked_reach s, where v = "0x41"] pending_value [of "the (apic_at demo_asked 0)" "0x41"] by simp
qed

text \<open>[apic_line_dropped] When the 8259's output falls, the controller that passes it on as an external interrupt takes the processor's
  line down although a request of its own waits that the processor may serve; nothing has changed that would bring it up again.\<close>

theorem apic_line_dropped:
  assumes "lvt_mode (lvt s ! APIC_LVT_LINT0) = APIC_DM_EXTINT" "servable s v"
  shows "\<exists>s'. apic_deliver_pic_intr False (s, w) = Some (s', w) \<and> servable s' v \<and> interrupt_request (cpu_env s') AND CPU_INTERRUPT_HARD = 0"
proof -
  have "servable (cpu_reset_interrupt k s) v" for k
    using assms(2) ppr_same [of "cpu_reset_interrupt k s" s] by (simp add: servable_def cpu_reset_interrupt_def)
  moreover have "interrupt_request (cpu_env (cpu_reset_interrupt CPU_INTERRUPT_HARD s)) AND CPU_INTERRUPT_HARD = 0"
    by (simp add: cpu_reset_interrupt_def and.assoc)
  ultimately show ?thesis using assms(1) by (simp add: apic_deliver_pic_intr_def)
qed

theorem apic_line_dropped_witness:
  "\<exists>s'. apic_deliver_pic_intr False (the (apic_at demo_sent 0), demo_world) = Some (s', demo_world) \<and> servable s' 0x41
     \<and> interrupt_request (cpu_env s') AND CPU_INTERRUPT_HARD = 0"
proof (rule apic_line_dropped)
  show "lvt_mode (lvt (the (apic_at demo_sent 0)) ! APIC_LVT_LINT0) = APIC_DM_EXTINT" by code_simp
  have "apic_irq_pending (the (apic_at demo_sent 0)) = int 0x41" by code_simp
  then show "servable (the (apic_at demo_sent 0)) 0x41" by (rule pending_value) simp
qed

section \<open>The circle of calls\<close>

text \<open>The task priority after a request has been taken in: what the shadow registers in guest memory hold,
  where there are any.\<close>

definition shadow_tpr :: "APICCommonState \<Rightarrow> apic_world \<Rightarrow> u8" where
  "shadow_tpr s w = (if vapic_paddr s = 0 then tpr s else guest_ram w (vapic_paddr s))"

lemma without_shadow:
  fixes s :: APICCommonState and w :: apic_world
  assumes "tab_ok (irr s)" and "vapic_paddr s = 0" and "\<not> apic_irq_pending s > 0"
  defines "ppr \<equiv> apic_get_ppr (s\<lparr>tpr := shadow_tpr s w\<rparr>)"
  shows "(\<forall>v\<in>insert (lint0_vector s) (vectors (irr s)). v = 0 \<or> ppr \<noteq> 0 \<and> v div 16 \<le> ppr div 16) \<longleftrightarrow>
    lint0_vector s = 0 \<or> apic_get_ppr s \<noteq> 0 \<and> lint0_vector s div 16 \<le> apic_get_ppr s div 16"
proof -
  have "ppr = apic_get_ppr s" unfolding ppr_def by (rule ppr_same) (simp_all add: shadow_tpr_def assms(2))
  then show ?thesis using assms(3) servable_any [OF assms(1)] unfolding pending_pos by (auto simp: not_less)
qed

text \<open>C35: [apic_update_returns] The update of the processor's line returns, within two rounds, except when the controller is on, nothing
  of its own can be served, the 8259's output is active, LINT0 turns it into a fixed vector, and neither that vector nor any
  other one requested is above the priority the processor has with the task priority of the shadow registers: then its
  functions call each other for ever. Without shadow registers that last condition is that the vector of LINT0 is 0 or not
  above the processor's priority (\<open>without_shadow\<close>).\<close>

theorem apic_update_returns:
  fixes s :: APICCommonState and w :: apic_world
  assumes ok: "tab_ok (irr s)"
  defines "ppr \<equiv> apic_get_ppr (s\<lparr>tpr := shadow_tpr s w\<rparr>)"
  shows "if spurious_vec s AND APIC_SV_ENABLE \<noteq> 0 \<and> \<not> apic_irq_pending s > 0 \<and> pic_get_output (isa_pic w)
            \<and> lvt s ! APIC_LVT_LINT0 AND APIC_LVT_MASKED = 0 \<and> lvt_mode (lvt s ! APIC_LVT_LINT0) = APIC_DM_FIXED
            \<and> (\<forall>v\<in>insert (lint0_vector s) (vectors (irr s)). v = 0 \<or> ppr \<noteq> 0 \<and> v div 16 \<le> ppr div 16)
         then \<forall>n. apic_update_irq n (s, w) = None
         else \<exists>y. \<forall>n\<ge>2. apic_update_irq n (s, w) = Some y"
proof -
  let ?x = "(s, w)" and ?s' = "fst (lint0_stage (s, w))"
  have p: "apic_get_ppr ?s' = ppr"
    unfolding ppr_def by (rule ppr_same) (simp_all add: lint0_stage_def stage_fields shadow_tpr_def)
  have irr: "irr ?s' = tab_set_bit (irr s) (lint0_vector s)" by (simp add: lint0_stage_fields)
  then have "vectors (irr ?s') = insert (lint0_vector s) (vectors (irr s))" "tab_ok (irr ?s')"
    using ok by (simp_all add: reg.vecs_put lint0_stage_fields)
  then have n: "\<not> apic_irq_pending ?s' > 0 \<longleftrightarrow>
      (\<forall>v\<in>insert (lint0_vector s) (vectors (irr s)). v = 0 \<or> ppr \<noteq> 0 \<and> v div 16 \<le> ppr div 16)" (is "_ \<longleftrightarrow> ?low")
    unfolding pending_pos by (subst servable_any) (auto simp: p not_less)
  have c: "pic_round ?x \<and> pic_round (lint0_stage ?x) \<longleftrightarrow>
      spurious_vec s AND APIC_SV_ENABLE \<noteq> 0 \<and> \<not> apic_irq_pending s > 0 \<and> pic_get_output (isa_pic w)
      \<and> lvt s ! APIC_LVT_LINT0 AND APIC_LVT_MASKED = 0 \<and> lvt_mode (lvt s ! APIC_LVT_LINT0) = APIC_DM_FIXED \<and> ?low"
  proof -
    have merge: "(a \<and> p \<and> q \<and> l \<and> d) \<and> (a \<and> low \<and> q \<and> l \<and> d) \<longleftrightarrow> a \<and> p \<and> q \<and> l \<and> d \<and> low" for a p q l d low
      by blast
    show ?thesis unfolding pic_round_def lint0_stage_fields fst_conv snd_conv n by (rule merge)
  qed
  note uc = update_cases [of ?x, unfolded fst_conv, OF ok]
  show ?thesis unfolding c [symmetric]
  proof (cases "pic_round ?x \<and> pic_round (lint0_stage ?x)")
    case True
    show "if pic_round ?x \<and> pic_round (lint0_stage ?x) then \<forall>n. apic_update_irq n ?x = None
      else \<exists>y. \<forall>n\<ge>2. apic_update_irq n ?x = Some y" using uc unfolding if_P [OF True] .
  next
    case False
    from uc [unfolded if_not_P [OF False]] obtain y where "apic_update_irq 2 ?x = Some y" by blast
    with uc [unfolded if_not_P [OF False]]
    show "if pic_round ?x \<and> pic_round (lint0_stage ?x) then \<forall>n. apic_update_irq n ?x = None
      else \<exists>y. \<forall>n\<ge>2. apic_update_irq n ?x = Some y" unfolding if_not_P [OF False] by metis
  qed
qed

definition demo_circle :: apic_focus where
  "demo_circle = ((the (apic_at demo_on 0))\<lparr>lvt := replicate 6 0\<rparr>, demo_world\<lparr>isa_pic := i8259_init\<lparr>pic_m := i8259_init_chip True\<lparr>p_irr := 0x20\<rparr>\<rparr>\<rparr>)"

theorem apic_update_returns_witness: "\<forall>n. apic_update_irq n demo_circle = None"
proof -
  have f: "tab_ok (irr (fst demo_circle))" "vapic_paddr (fst demo_circle) = 0" "spurious_vec (fst demo_circle) AND 0x100 \<noteq> 0"
    "\<not> apic_irq_pending (fst demo_circle) > 0" "lvt (fst demo_circle) ! 3 = 0" "lint0_vector (fst demo_circle) = 0"
    "irr (fst demo_circle) = replicate 8 0"
    unfolding tab_ok_def by code_simp+
  have g: "pic_get_output (isa_pic (snd demo_circle))"
    by (simp add: demo_circle_def pic_get_output_def pic_get_irq_def get_priority_def priority_loop.simps priority_line_def
        pic_requests_def pic_in_service_def Let_def i8259_init_chip_def)
  have v: "vectors (irr (fst demo_circle)) = {}" using f(7) by simp
  show ?thesis
    using apic_update_returns [OF f(1), of "snd demo_circle"] f(3-6) g v by (simp add: lvt_mode_def)
qed

text \<open>The guest cannot reach the bit that would keep the end of an interrupt from the I/O controllers.\<close>

theorem apic_eoi_never_directed:
  assumes "apic_reach m" "apic_at m i = Some s"
  shows "spurious_vec s AND APIC_SV_DIRECTED_IO = 0"
proof -
  have "spurious_vec s < 2 ^ 9" using all_invD [OF reach_inv [OF assms(1)] assms(2)] by (simp add: apic_inv_def)
  then have "take_bit 9 (spurious_vec s) = spurious_vec s" by (simp add: take_bit_eq_mod word_less_nat_alt word_arith_nat_mod)
  then have "\<not> bit (spurious_vec s) 12" using bit_take_bit_iff [of 9 "spurious_vec s" 12] by simp
  then show ?thesis using and_exp_eq_0_iff_not_bit [of "spurious_vec s" 12] by simp
qed

end
