(* ===== verification/ApicTimer.thy ===== *)
theory ApicTimer
  imports ApicServe
begin

unbundle bit_operations_syntax

text \<open>
  The timer of a local interrupt controller: its words as natural numbers, and its expiries and count as arithmetic of rounds.
\<close>

section \<open>The clock of the timer\<close>

text \<open>Nanoseconds since the count was loaded, the ticks among them, and the nanoseconds of one round of the count.\<close>

definition since_load :: "u64 \<Rightarrow> APICCommonState \<Rightarrow> nat" where
  "since_load now s = unat now - unat (initial_count_load_time s)"

definition timer_ticks :: "u64 \<Rightarrow> APICCommonState \<Rightarrow> nat" where
  "timer_ticks now s = since_load now s div 2 ^ count_shift s"

definition timer_round :: "APICCommonState \<Rightarrow> nat" where
  "timer_round s = (unat (initial_count s) + 1) * 2 ^ count_shift s"

lemma unat_less_2p: "unat (x :: 'a::len word) < 2 ^ LENGTH('a)"
  by (rule unsigned_less)

lemma timer_round_bound:
  assumes "count_shift s < 8"
  shows "0 < timer_round s" "timer_round s \<le> 2 ^ 39"
proof -
  show "0 < timer_round s" by (simp add: timer_round_def)
  have "unat (initial_count s) + 1 \<le> 2 ^ 32" using unat_less_2p [of "initial_count s"] by simp
  moreover have "(2 :: nat) ^ count_shift s \<le> 2 ^ 7" using assms by (intro power_increasing) simp_all
  ultimately have "timer_round s \<le> 2 ^ 32 * 2 ^ 7" unfolding timer_round_def by (rule mult_le_mono)
  then show "timer_round s \<le> 2 ^ 39" by simp
qed

lemma elapsed_ticks:
  assumes "initial_count_load_time s \<le> now" "unat now < 2 ^ 63"
  shows "unat (apic_elapsed now s) = timer_ticks now s" "sint (apic_elapsed now s) = int (timer_ticks now s)"
proof -
  let ?d = "now - initial_count_load_time s"
  have d: "unat ?d = since_load now s" using assms(1) by (simp add: since_load_def unat_sub)
  then have small: "unat ?d < 2 ^ 63" using assms(2) by (simp add: since_load_def)
  have top: "\<not> bit x 63" if "unat x < 2 ^ 63" for x :: u64
  proof -
    have "take_bit 63 (unat x) = unat x" using that by (rule take_bit_nat_eq_self)
    then have "take_bit 63 x = x" by (metis unsigned_take_bit_eq unsigned_word_eqI)
    then show ?thesis using bit_take_bit_iff [of 63 x 63] by simp
  qed
  have "signed_drop_bit (count_shift s) ?d = drop_bit (count_shift s) ?d"
    using top [OF small] by (intro bit_word_eqI) (auto simp: bit_signed_drop_bit_iff bit_drop_bit_eq dest: bit_imp_le_length)
  then have e: "apic_elapsed now s = drop_bit (count_shift s) ?d" by (simp add: apic_elapsed_def)
  show u: "unat (apic_elapsed now s) = timer_ticks now s"
    unfolding e timer_ticks_def unat_drop_bit_eq d by (simp add: drop_bit_eq_div)
  have "timer_ticks now s < 2 ^ 63"
    using small unfolding timer_ticks_def d [symmetric] by (rule le_less_trans [OF div_le_dividend])
  then have "signed_take_bit 63 (int (timer_ticks now s)) = int (timer_ticks now s)"
    by (intro signed_take_bit_int_eq_self) (auto intro: order_trans [of _ 0])
  then show "sint (apic_elapsed now s) = int (timer_ticks now s)" unfolding sint_uint uint_nat u by simp
qed

lemma round_ticks: "timer_ticks now s div (unat (initial_count s) + 1) = since_load now s div timer_round s"
  unfolding timer_ticks_def timer_round_def mult.commute [of _ "2 ^ count_shift s"] by (rule div_mult2_eq [symmetric])

section \<open>The timer's expiry\<close>

lemma unat_count: "unat (ucast (initial_count s) + (1 :: u64)) = unat (initial_count s) + 1"
proof -
  have c: "unat (initial_count s) < 2 ^ 32" using unat_less_2p [of "initial_count s"] by simp
  have "unat (ucast (initial_count s) :: u64) = unat (initial_count s)" by (simp add: unsigned_ucast_eq take_bit_nat_eq_self_iff c less_trans [OF c])
  then show ?thesis using c by (simp add: unat_word_ariths)
qed

text \<open>A word built from a count of ticks, when it does not wrap.\<close>

lemma expiry_word:
  assumes "unat d * 2 ^ count_shift s + unat (initial_count_load_time s) < 2 ^ 64"
  shows "unat (initial_count_load_time s + push_bit (count_shift s) d) = unat (initial_count_load_time s) + unat d * 2 ^ count_shift s"
proof -
  have p: "unat (push_bit (count_shift s) d) = unat d * 2 ^ count_shift s"
  proof -
    have "unat (push_bit (count_shift s) d) = take_bit 64 (push_bit (count_shift s) (unat d))" by (simp only: unsigned_push_bit_eq) simp
    also have "\<dots> = unat d * 2 ^ count_shift s" unfolding push_bit_eq_mult using assms by (intro take_bit_nat_eq_self) simp
    finally show ?thesis .
  qed
  show ?thesis using assms by (simp add: unat_word_ariths p)
qed

lemma timer_at_expiry:
  assumes k: "count_shift s < 8" and now: "unat now < 2 ^ 62" "initial_count_load_time s \<le> now"
    and d: "unat d * 2 ^ count_shift s \<le> since_load now s + timer_round s"
  shows "unat (initial_count_load_time s + push_bit (count_shift s) d) = unat (initial_count_load_time s) + unat d * 2 ^ count_shift s"
proof (rule expiry_word)
  have "unat (initial_count_load_time s) \<le> unat now" using now(2) by (simp add: word_le_nat_alt)
  then have "unat d * 2 ^ count_shift s + unat (initial_count_load_time s) \<le> unat now + timer_round s" using d by (simp add: since_load_def)
  also have "\<dots> < 2 ^ 64" using now(1) timer_round_bound(2) [OF k] by simp
  finally show "unat d * 2 ^ count_shift s + unat (initial_count_load_time s) < 2 ^ 64" .
qed

lemma timer_update_at:
  "apic_timer_at (apic_timer_update now s) =
     (if lvt s ! APIC_LVT_TIMER AND APIC_LVT_MASKED \<noteq> 0 then None
      else if lvt s ! APIC_LVT_TIMER AND APIC_LVT_TIMER_PERIODIC \<noteq> 0
      then (if initial_count s = 0 then None
            else Some (initial_count_load_time s + push_bit (count_shift s)
                   ((apic_elapsed now s div (ucast (initial_count s) + 1) + 1) * (ucast (initial_count s) + 1))))
      else if sint (apic_elapsed now s) \<ge> uint (initial_count s) then None
      else Some (initial_count_load_time s + push_bit (count_shift s) (ucast (initial_count s) + 1)))"
  by (simp add: apic_timer_update_def apic_next_timer_def Let_def apic_elapsed_def)

lemma apic_timer_update_fields [simp]:
  "count_shift (apic_timer_update now s) = count_shift s" "initial_count (apic_timer_update now s) = initial_count s"
  "initial_count_load_time (apic_timer_update now s) = initial_count_load_time s" "lvt (apic_timer_update now s) = lvt s"
  by (simp_all add: apic_timer_update_def apic_next_timer_def Let_def)

text \<open>One shot: the end of the only round, unless its last tick has begun.\<close>

lemma timer_oneshot:
  assumes "count_shift s < 8" "unat now < 2 ^ 62" "initial_count_load_time s \<le> now"
    "lvt s ! APIC_LVT_TIMER AND APIC_LVT_MASKED = 0" "lvt s ! APIC_LVT_TIMER AND APIC_LVT_TIMER_PERIODIC = 0"
  shows "map_option unat (apic_timer_at (apic_timer_update now s)) =
    (if timer_ticks now s < unat (initial_count s) then Some (unat (initial_count_load_time s) + timer_round s) else None)"
proof -
  have "uint (initial_count s) \<le> sint (apic_elapsed now s) \<longleftrightarrow> unat (initial_count s) \<le> timer_ticks now s"
    unfolding elapsed_ticks(2) [OF assms(3) less_trans [OF assms(2)], simplified] uint_nat of_nat_le_iff ..
  moreover have "unat (initial_count_load_time s + push_bit (count_shift s) (ucast (initial_count s) + 1)) = unat (initial_count_load_time s) + timer_round s"
    using timer_at_expiry [OF assms(1-3), of "ucast (initial_count s) + 1"] unfolding unat_count timer_round_def by simp
  ultimately show ?thesis using assms(4,5) by (simp add: timer_update_at not_le)
qed

text \<open>Periodic: the next end of a round.\<close>

lemma timer_periodic:
  assumes "count_shift s < 8" "unat now < 2 ^ 62" "initial_count_load_time s \<le> now"
    "lvt s ! APIC_LVT_TIMER AND APIC_LVT_MASKED = 0" "lvt s ! APIC_LVT_TIMER AND APIC_LVT_TIMER_PERIODIC \<noteq> 0" "initial_count s \<noteq> 0"
  shows "map_option unat (apic_timer_at (apic_timer_update now s)) =
    Some (unat (initial_count_load_time s) + (since_load now s div timer_round s + 1) * timer_round s)"
proof -
  let ?c = "ucast (initial_count s) + (1 :: u64)" and ?e = "apic_elapsed now s"
  let ?d = "(?e div ?c + 1) * ?c" and ?q = "since_load now s div timer_round s"
  have e: "unat ?e = timer_ticks now s" using elapsed_ticks(1) [OF assms(3)] assms(2) by simp
  have q: "unat (?e div ?c) = ?q" by (simp only: unat_div_distrib e unat_count round_ticks)
  have le: "(?q + 1) * timer_round s \<le> since_load now s + timer_round s"
    using div_times_less_eq_dividend [of "since_load now s" "timer_round s"] by (simp add: add_mult_distrib)
  have small: "since_load now s + timer_round s < 2 ^ 63" using assms(2) timer_round_bound(2) [OF assms(1)] by (simp add: since_load_def)
  have "(?q + 1) * (unat (initial_count s) + 1) \<le> (?q + 1) * timer_round s" 
    using mult_le_mono2 [of 1 "2 ^ count_shift s" "unat (initial_count s) + 1"] unfolding timer_round_def by (intro mult_le_mono2) simp
  then have m: "(?q + 1) * (unat (initial_count s) + 1) < 2 ^ 63" using le small by linarith
  have "?q + 1 \<le> (?q + 1) * (unat (initial_count s) + 1)" by simp
  then have q1: "unat (?e div ?c + 1) = ?q + 1" using m q by (simp add: unat_word_ariths)
  have d: "unat ?d = (?q + 1) * (unat (initial_count s) + 1)"
    using m unfolding unat_word_ariths(2) [of "?e div ?c + 1" ?c] q1 unat_count by simp
  then have r: "unat ?d * 2 ^ count_shift s = (?q + 1) * timer_round s" unfolding d timer_round_def by (simp only: mult.assoc)
  have "unat (initial_count_load_time s + push_bit (count_shift s) ?d) = unat (initial_count_load_time s) + (?q + 1) * timer_round s"
    using timer_at_expiry [OF assms(1-3), of ?d] le unfolding r by simp
  then show ?thesis using assms(4-6) by (simp only: timer_update_at if_True if_False simp_thms not_True_eq_False not_False_eq_True option.map)
qed

lemma count_reads:
  assumes "unat now < 2 ^ 62" "initial_count_load_time s \<le> now"
  shows "unat (apic_get_current_count now s) =
    (if lvt s ! APIC_LVT_TIMER AND APIC_LVT_TIMER_PERIODIC \<noteq> 0
     then unat (initial_count s) - timer_ticks now s mod (unat (initial_count s) + 1)
     else unat (initial_count s) - timer_ticks now s)"
proof -
  let ?i = "initial_count s" and ?e = "apic_elapsed now s"
  have e: "unat ?e = timer_ticks now s" "sint ?e = int (timer_ticks now s)" using elapsed_ticks [OF assms(2)] assms(1) by simp_all
  have sub: "unat (?i - ucast d) = unat ?i - unat d" if "unat d \<le> unat ?i" for d :: u64
  proof -
    have "unat d < 2 ^ 32" using that unat_less_2p [of ?i] by simp
    then have "unat (ucast d :: u32) = unat d" by (simp add: unsigned_ucast_eq take_bit_nat_eq_self)
    with that show ?thesis by (simp add: unat_sub word_le_nat_alt)
  qed
  have p: "unat (?e mod (ucast ?i + 1)) = timer_ticks now s mod (unat ?i + 1)" by (simp only: unat_mod_distrib e unat_count)
  show ?thesis
  proof (cases "lvt s ! APIC_LVT_TIMER AND APIC_LVT_TIMER_PERIODIC \<noteq> 0")
    case True
    have "timer_ticks now s mod (unat ?i + 1) \<le> unat ?i" using mod_less_divisor [of "unat ?i + 1" "timer_ticks now s"] by simp
    with True sub [of "?e mod (ucast ?i + 1)"] show ?thesis unfolding p by (simp add: apic_get_current_count_def)
  next
    case False
    have "uint ?i \<le> sint ?e \<longleftrightarrow> unat ?i \<le> timer_ticks now s" unfolding e(2) uint_nat of_nat_le_iff ..
    with False sub [of ?e] e(1) show ?thesis by (simp add: apic_get_current_count_def)
  qed
qed

section \<open>What the guest sees\<close>

text \<open>C26: [apic_timer_exact] The timer of a controller against the arithmetic of rounds of \<open>initial_count + 1\<close> ticks: a one-shot timer
  expires at the end of the only round, a periodic one at the next end of a round after now, however long ago the count was loaded, and an
  update at that time arms the following end, so that rounds do not drift; the count register reads what is left of the round.\<close>

theorem apic_timer_exact:
  assumes "count_shift s < 8" "unat now + timer_round s < 2 ^ 62" "initial_count_load_time s \<le> now" "lvt s ! APIC_LVT_TIMER AND APIC_LVT_MASKED = 0"
  shows "if lvt s ! APIC_LVT_TIMER AND APIC_LVT_TIMER_PERIODIC = 0
     then map_option unat (apic_timer_at (apic_timer_update now s)) =
            (if timer_ticks now s < unat (initial_count s) then Some (unat (initial_count_load_time s) + timer_round s) else None)
          \<and> unat (apic_get_current_count now s) = unat (initial_count s) - timer_ticks now s
     else if initial_count s = 0 then apic_timer_at (apic_timer_update now s) = None
     else (\<exists>t k. apic_timer_at (apic_timer_update now s) = Some t \<and> unat t = unat (initial_count_load_time s) + k * timer_round s
            \<and> unat now < unat t \<and> unat t \<le> unat now + timer_round s
            \<and> map_option unat (apic_timer_at (apic_timer_update t s)) = Some (unat t + timer_round s)
            \<and> apic_get_current_count t s = initial_count s)
          \<and> unat (apic_get_current_count now s) = unat (initial_count s) - timer_ticks now s mod (unat (initial_count s) + 1)"
proof -
  let ?L = "unat (initial_count_load_time s)" and ?R = "timer_round s"
  have now: "unat now < 2 ^ 62" using assms(2) by simp
  note one = timer_oneshot [OF assms(1) now assms(3,4)] and count = count_reads [OF now assms(3)]
  have periodic: "\<exists>t k. apic_timer_at (apic_timer_update now s) = Some t \<and> unat t = ?L + k * ?R \<and> unat now < unat t \<and> unat t \<le> unat now + ?R
      \<and> map_option unat (apic_timer_at (apic_timer_update t s)) = Some (unat t + ?R) \<and> apic_get_current_count t s = initial_count s"
    if p: "lvt s ! APIC_LVT_TIMER AND APIC_LVT_TIMER_PERIODIC \<noteq> 0" and c: "initial_count s \<noteq> 0"
  proof -
    let ?k = "since_load now s div ?R + 1"
    have R: "0 < ?R" using timer_round_bound(1) [OF assms(1)] .
    obtain t where t: "apic_timer_at (apic_timer_update now s) = Some t" "unat t = ?L + ?k * ?R"
      using timer_periodic [OF assms(1) now assms(3,4) p c] by auto
    have L: "?L + since_load now s = unat now" using assms(3) by (simp add: since_load_def word_le_nat_alt)
    have lt: "since_load now s < ?k * ?R" using dividend_less_div_times [OF R, of "since_load now s"] by (simp add: algebra_simps)
    have le: "?k * ?R \<le> since_load now s + ?R" using div_times_less_eq_dividend [of "since_load now s" ?R] by (simp add: add_mult_distrib)
    have t62: "unat t < 2 ^ 62" using t(2) le L assms(2) by linarith
    have tL: "initial_count_load_time s \<le> t" using t(2) by (simp add: word_le_nat_alt)
    have st: "since_load t s = ?k * ?R" using t(2) by (simp add: since_load_def)
    have "map_option unat (apic_timer_at (apic_timer_update t s)) = Some (unat t + ?R)"
      using timer_periodic [OF assms(1) t62 tL assms(4) p c] R unfolding st t(2) by (simp add: add_mult_distrib ac_simps)
    moreover have "timer_ticks t s mod (unat (initial_count s) + 1) = 0"
      unfolding timer_ticks_def st timer_round_def by (simp only: mult.assoc [symmetric] nonzero_mult_div_cancel_right power_not_zero
          zero_neq_numeral not_False_eq_True mod_mult_self2_is_0)
    then have "unat (apic_get_current_count t s) = unat (initial_count s)" using count_reads [OF t62 tL] p by simp
    then have "apic_get_current_count t s = initial_count s" by (rule unsigned_word_eqI)
    moreover have "unat now < unat t" "unat t \<le> unat now + ?R" using lt le L t(2) by linarith+
    ultimately show ?thesis using t by blast
  qed
  show ?thesis
  proof (cases "lvt s ! APIC_LVT_TIMER AND APIC_LVT_TIMER_PERIODIC = 0")
    case True
    with one count show ?thesis by simp
  next
    case False
    have z: "initial_count s = 0 \<Longrightarrow> apic_timer_at (apic_timer_update now s) = None" using False by (simp add: timer_update_at)
    from False count periodic [OF False] z show ?thesis by (simp only: if_False split: if_split) blast
  qed
qed

definition demo_timer :: APICCommonState where
  "demo_timer = demo_apic\<lparr>lvt := [0x20030, 0x10000, 0x10000, 0x10000, 0x10000, 0x10000], initial_count := 999, count_shift := 1, initial_count_load_time := 100\<rparr>"

theorem apic_timer_exact_witness:
  "\<exists>t k. apic_timer_at (apic_timer_update 5000 demo_timer) = Some t \<and> unat t = 100 + k * 2000 \<and> 5000 < unat t \<and> unat t \<le> 7000"
proof -
  have f: "count_shift demo_timer < 8" "unat (5000 :: u64) + timer_round demo_timer < 2 ^ 62" "initial_count_load_time demo_timer \<le> 5000"
    "lvt demo_timer ! APIC_LVT_TIMER AND APIC_LVT_MASKED = 0" "lvt demo_timer ! APIC_LVT_TIMER AND APIC_LVT_TIMER_PERIODIC \<noteq> 0"
    "initial_count demo_timer \<noteq> 0" "timer_round demo_timer = 2000" "unat (initial_count_load_time demo_timer) = 100"
    by (simp_all add: demo_timer_def timer_round_def)
  show ?thesis using apic_timer_exact [OF f(1-4)] f(5-8) by auto
qed

text \<open>[apic_timer_slips] What does not fit the arithmetic: writing the timer's own entry of the vector table again in the last tick of
  a one-shot round, when the count reads 0 but the expiry is still ahead, takes the expiry away; after a reset the divide register reads as
  division by two while the timer divides by one; and writing the divide register leaves the armed expiry where it was.\<close>

theorem apic_timer_slips:
  assumes "count_shift s < 8" "unat now < 2 ^ 62" "initial_count_load_time s \<le> now" "length (lvt s) = 6"
    "lvt s ! APIC_LVT_TIMER AND APIC_LVT_MASKED = 0" "lvt s ! APIC_LVT_TIMER AND APIC_LVT_TIMER_PERIODIC = 0"
    "timer_ticks now s = unat (initial_count s)"
  shows "unat (apic_get_current_count now s) = 0 \<and> unat now < unat (initial_count_load_time s) + timer_round s
    \<and> (\<exists>s'. apic_write_own now 0x32 (lvt s ! APIC_LVT_TIMER) (s, w) = Some (s', w) \<and> lvt s' = lvt s \<and> apic_timer_at s' = None)
    \<and> divide_conf (apic_init_reset s) = 0 \<and> count_shift (apic_init_reset s) = 0 \<and> divide_shift 0 = 1
    \<and> (\<exists>s'. apic_write_own now 0x3e val (s, w) = Some (s', w) \<and> apic_timer_at s' = apic_timer_at s \<and> count_shift s' = divide_shift (val AND 0xb))"
proof (intro conjI)
  show "unat (apic_get_current_count now s) = 0" using count_reads [OF assms(2,3)] assms(6,7) by simp
  have "since_load now s < timer_round s"
  proof -
    have "since_load now s < (timer_ticks now s + 1) * 2 ^ count_shift s"
      using dividend_less_div_times [of "2 ^ count_shift s" "since_load now s"] by (simp add: timer_ticks_def algebra_simps)
    then show ?thesis by (simp add: timer_round_def assms(7))
  qed
  then show "unat now < unat (initial_count_load_time s) + timer_round s" using assms(3) by (simp add: since_load_def word_le_nat_alt)
  have "(lvt s)[0 := lvt s ! 0] = lvt s" by simp
  then have "s\<lparr>lvt := (lvt s)[0 := lvt s ! 0]\<rparr> = s" by simp
  moreover have "apic_timer_at (apic_timer_update now s) = None" using timer_oneshot [OF assms(1-3,5,6)] assms(7) by simp
  ultimately show "\<exists>s'. apic_write_own now 0x32 (lvt s ! APIC_LVT_TIMER) (s, w) = Some (s', w) \<and> lvt s' = lvt s \<and> apic_timer_at s' = None"
    by (simp add: apic_write_own_def Let_def)
  show "\<exists>s'. apic_write_own now 0x3e val (s, w) = Some (s', w) \<and> apic_timer_at s' = apic_timer_at s \<and> count_shift s' = divide_shift (val AND 0xb)"
    by (simp add: apic_write_own_def)
qed (simp_all add: apic_init_reset_def divide_shift_def)

definition demo_last_tick :: APICCommonState where
  "demo_last_tick = demo_apic\<lparr>lvt := [0x30, 0x10000, 0x10000, 0x10000, 0x10000, 0x10000], initial_count := 10\<rparr>"

theorem apic_timer_slips_witness:
  "\<exists>s'. apic_write_own 10 0x32 0x30 (demo_last_tick, demo_world) = Some (s', demo_world) \<and> apic_timer_at s' = None"
proof -
  have f: "count_shift demo_last_tick = 0" "initial_count_load_time demo_last_tick = 0" by code_simp+
  have g: "length (lvt demo_last_tick) = 6" "lvt demo_last_tick ! APIC_LVT_TIMER = 0x30" "unat (initial_count demo_last_tick) = 10"
    by (simp_all add: demo_last_tick_def)
  have "timer_ticks 10 demo_last_tick = 10" by (simp add: timer_ticks_def since_load_def f)
  then show ?thesis using apic_timer_slips [of demo_last_tick 10 demo_world 0] f g by auto
qed

end
