(* ===== verification/ApicDelivery.thy ===== *)
theory ApicDelivery
  imports ApicTimer
begin

unbundle bit_operations_syntax

text \<open>
  Messages between the controllers: the mask computed for a destination holds the controllers the destination addresses, and a message
  reaches exactly those, or the first of them when it goes to the lowest priority.
\<close>

section \<open>Who is addressed\<close>

text \<open>What of a controller decides whether a message is for it: identifier, logical destination and destination mode.\<close>

type_synonym address = "u8 \<times> u8 \<times> u8"

definition address_of :: "APICCommonState \<Rightarrow> address" where
  "address_of a = (apic_id a, log_dest a, dest_mode a)"

definition addressed :: "u8 \<Rightarrow> nat \<Rightarrow> address \<Rightarrow> bool" where
  "addressed dest dmode a \<longleftrightarrow>
     (case a of (ident, ldest, fmt) \<Rightarrow>
        if dmode = 0 then dest = 0xff \<or> ident = dest
        else if fmt = 0xf then dest AND ldest \<noteq> 0
        else if fmt = 0 then dest AND 0xf0 = ldest AND 0xf0 \<and> dest AND ldest AND 0x0f \<noteq> 0
        else False)"

text \<open>The roster of a machine: its controllers have the first indices, and different identifiers.\<close>

definition roster_ok :: "(nat \<Rightarrow> address option) \<Rightarrow> bool" where
  "roster_ok X \<longleftrightarrow> (\<exists>n\<le>255. \<forall>i. X i \<noteq> None \<longleftrightarrow> i < n) \<and> (\<forall>i j a b. X i = Some a \<longrightarrow> X j = Some b \<longrightarrow> fst a = fst b \<longrightarrow> i = j)"

definition roster :: "apic_machine \<Rightarrow> nat \<Rightarrow> address option" where
  "roster m i = map_option address_of (apic_at m i)"

definition targets :: "(nat \<Rightarrow> address option) \<Rightarrow> u8 \<Rightarrow> nat \<Rightarrow> nat set" where
  "targets X dest dmode = {i. \<exists>a. X i = Some a \<and> addressed dest dmode a}"

lemma logical_addressed: "dmode \<noteq> 0 \<Longrightarrow> addressed dest dmode (address_of a) = logical_match dest a"
  by (simp add: addressed_def address_of_def logical_match_def)

lemma vectors_all [simp]: "vectors all_apics = {..<256}"
proof -
  have "(0xffffffff :: u32) = - 1" by simp
  then have "all_apics = replicate 8 (- 1)" unfolding all_apics_def by metis
  moreover have "vectors (replicate 8 (- 1)) = {..<256}" by (auto simp: vectors_def)
  ultimately show ?thesis by simp
qed

lemma vectors_no [simp]: "vectors no_apics = {}" "tab_ok no_apics"
  by (simp_all add: no_apics_def)

lemma find_dest_from_Some: "find_dest_from m dest is = Some i \<Longrightarrow> i \<in> set is \<and> (\<exists>a. apic_at m i = Some a \<and> apic_id a = dest)"
  by (induction "is") (auto split: option.splits if_splits)

lemma find_dest_from_None:
  "find_dest_from m dest is = None \<Longrightarrow> i \<in> set is \<Longrightarrow> sorted is \<Longrightarrow> (\<And>j. j \<le> i \<Longrightarrow> apic_at m j \<noteq> None) \<Longrightarrow>
   apic_at m i = Some a \<Longrightarrow> apic_id a \<noteq> dest"
proof (induction "is")
  case (Cons j js)
  have "j \<le> i" using Cons.prems(2,3) by auto
  then obtain b where b: "apic_at m j = Some b" using Cons.prems(4) by blast
  show ?case
  proof (cases "i = j")
    case True
    with b Cons.prems(1,5) show ?thesis by (auto split: if_splits)
  next
    case False
    with b Cons show ?thesis by (auto split: if_splits)
  qed
qed simp

lemma roster_present: "roster_ok (roster m) \<Longrightarrow> apic_at m i = Some a \<Longrightarrow> j \<le> i \<Longrightarrow> apic_at m j \<noteq> None \<and> i < 255"
  unfolding roster_ok_def roster_def by (metis (no_types, lifting) le_less_trans less_le_trans option.map_disc_iff option.simps(3))

lemma roster_unique: "roster_ok (roster m) \<Longrightarrow> apic_at m i = Some a \<Longrightarrow> apic_at m j = Some b \<Longrightarrow> apic_id a = apic_id b \<Longrightarrow> i = j"
  unfolding roster_ok_def roster_def address_of_def by (metis (no_types, lifting) fst_conv option.simps(9))

lemma find_dest_iff:
  assumes r: "roster_ok (roster m)"
  shows "apic_find_dest m dest = Some i \<longleftrightarrow> (\<exists>a. apic_at m i = Some a \<and> apic_id a = dest)"
proof
  show "apic_find_dest m dest = Some i \<Longrightarrow> \<exists>a. apic_at m i = Some a \<and> apic_id a = dest"
    using find_dest_from_Some by (auto simp: apic_find_dest_def split: option.splits if_splits)
  assume "\<exists>a. apic_at m i = Some a \<and> apic_id a = dest"
  then obtain a where a: "apic_at m i = Some a" "apic_id a = dest" by blast
  have u: "j = i" if "apic_at m j = Some b" "apic_id b = dest" for j b using roster_unique [OF r that(1) a(1)] that(2) a(2) by simp
  have "find_dest_from m dest [0..<MAX_APICS] \<noteq> None"
    using find_dest_from_None [of m dest "[0..<255]" i a] roster_present [OF r a(1)] a by auto
  then have "find_dest_from m dest [0..<MAX_APICS] = Some i" using find_dest_from_Some u by blast
  then show "apic_find_dest m dest = Some i" using u by (auto simp: apic_find_dest_def split: option.splits)
qed

lemma logical_bits_vectors:
  assumes "tab_ok bm" "\<And>i. i \<in> set is \<Longrightarrow> i < 256" "sorted is" "\<And>i j a. apic_at m i = Some a \<Longrightarrow> j \<le> i \<Longrightarrow> apic_at m j \<noteq> None"
  shows "vectors (logical_bits m dest is bm) = vectors bm \<union> {i \<in> set is. \<exists>a. apic_at m i = Some a \<and> logical_match dest a}"
  using assms(1-3)
proof (induction "is" arbitrary: bm)
  case (Cons i "is")
  show ?case
  proof (cases "apic_at m i")
    case None
    then have "apic_at m j = None" if "j \<in> set (i # is)" for j using assms(4) [of j _ i] Cons.prems(3) that by (metis list.set_cases not_None_eq order_refl sorted_simps(2) set_ConsD)
    with None show ?thesis by auto
  next
    case (Some a)
    have "vectors (logical_bits m dest is (if logical_match dest a then tab_set_bit bm i else bm)) =
        vectors (if logical_match dest a then tab_set_bit bm i else bm) \<union> {i \<in> set is. \<exists>a. apic_at m i = Some a \<and> logical_match dest a}"
      using Cons.prems by (intro Cons.IH) auto
    then show ?thesis using Some Cons.prems by (auto simp: vectors_set_bit)
  qed
qed simp

text \<open>The mask holds exactly the addressed controllers, or all bits for a broadcast.\<close>

lemma targets_at: "i \<in> targets (roster m) dest dmode \<longleftrightarrow> (\<exists>a. apic_at m i = Some a \<and> addressed dest dmode (address_of a))"
  by (cases "apic_at m i") (simp_all add: targets_def roster_def del: split_paired_Ex)

lemma delivery_mask:
  assumes r: "roster_ok (roster m)"
  shows "vectors (apic_get_delivery_bitmask m dest dmode) =
    (if dmode = 0 \<and> dest = 0xff then {..<256} else targets (roster m) dest dmode)"
proof (cases "dmode = 0")
  case True
  show ?thesis
  proof (cases "apic_find_dest m dest")
    case None
    then have n: "apic_at m i = Some a \<Longrightarrow> apic_id a \<noteq> dest" for i a using find_dest_iff [OF r, of dest] by (metis option.distinct(1))
    show ?thesis using True None
      by (auto simp: apic_get_delivery_bitmask_def targets_at addressed_def address_of_def dest: n)
  next
    case (Some j)
    have j: "\<And>i. (\<exists>a. apic_at m i = Some a \<and> apic_id a = dest) \<longleftrightarrow> i = j" using Some find_dest_iff [OF r, of dest] by (metis option.inject)
    then obtain a where "apic_at m j = Some a" by blast
    from roster_present [OF r this, of j] have "j < 256" by simp
    then show ?thesis using True Some j
      by (auto simp: apic_get_delivery_bitmask_def targets_at addressed_def address_of_def vectors_set_bit)
  qed
next
  case False
  have "vectors (logical_bits m dest [0..<255] no_apics) = vectors no_apics \<union> {i \<in> set [0..<255]. \<exists>a. apic_at m i = Some a \<and> logical_match dest a}"
    using roster_present [OF r] by (intro logical_bits_vectors) auto
  moreover have "i < 255" if "apic_at m i = Some a" for i a using roster_present [OF r that order_refl] by blast
  ultimately show ?thesis using False
    by (auto simp: apic_get_delivery_bitmask_def logical_addressed targets_at)
qed

section \<open>What a message does\<close>

lemma mask_indices_vectors: "set (mask_indices bm) = vectors bm"
proof -
  have "n \<in> set (mask_indices bm) \<longleftrightarrow> n \<in> vectors bm" for n
  proof -
    have "n \<in> set (mask_indices bm) \<longleftrightarrow> (\<exists>i<8. \<exists>j<32. bit (bm ! i) j \<and> n = i * 32 + j)"
      by (auto simp: mask_indices_def split: if_splits)
    also have "\<dots> \<longleftrightarrow> n < 256 \<and> bit (bm ! (n div 32)) (n mod 32)"
    proof
      assume "\<exists>i<8. \<exists>j<32. bit (bm ! i) j \<and> n = i * 32 + j"
      then show "n < 256 \<and> bit (bm ! (n div 32)) (n mod 32)" by auto
    next
      assume "n < 256 \<and> bit (bm ! (n div 32)) (n mod 32)"
      moreover have "n = n div 32 * 32 + n mod 32" by simp
      moreover have "n < 256 \<Longrightarrow> n div 32 < 8" by simp
      ultimately show "\<exists>i<8. \<exists>j<32. bit (bm ! i) j \<and> n = i * 32 + j" by (metis mod_less_divisor zero_less_numeral)
    qed
    finally show ?thesis by (simp add: vectors_def)
  qed
  then show ?thesis by blast
qed

lemma distinct_blocks:
  assumes "\<And>i. distinct (g i)" "\<And>i. set (g i) \<subseteq> {v :: nat. v div 32 = i}"
  shows "distinct (concat (map g [0..<n])) \<and> set (concat (map g [0..<n])) \<subseteq> {v. v div 32 < n}"
proof (induction n)
  case (Suc n)
  have "set (concat (map g [0..<n])) \<inter> set (g n) = {}" using Suc assms(2) [of n] by fastforce
  moreover have "set (g n) \<subseteq> {v. v div 32 < Suc n}" using assms(2) [of n] by auto
  ultimately show ?case using Suc assms(1) [of n] by (auto simp: less_Suc_eq)
qed simp

lemma distinct_mask_indices: "distinct (mask_indices bm)"
  unfolding mask_indices_def by (rule distinct_blocks [THEN conjunct1]) (auto simp: distinct_map inj_on_def)

lemma each_on_apic:
  assumes "each_of (\<lambda>i. on_apic i f) is m = Some m'" "distinct is"
  shows "(\<forall>j. j \<notin> set is \<longrightarrow> apic_at m' j = apic_at m j) \<and>
    (\<forall>j\<in>set is. \<forall>s. apic_at m j = Some s \<longrightarrow> (\<exists>w s' w'. f (s, w) = Some (s', w') \<and> apic_at m' j = Some s'))"
  using assms
proof (induction "is" arbitrary: m)
  case (Cons i "is")
  then obtain m1 where m1: "on_apic i f m = Some m1" "each_of (\<lambda>i. on_apic i f) is m1 = Some m'" by (auto simp: bind_eq_Some_conv)
  note IH = Cons.IH [OF m1(2)]
  from m1(1) show ?case
  proof (cases rule: on_apic_cases)
    case none
    with IH Cons.prems show ?thesis by auto
  next
    case (one s s' w)
    have "apic_at m1 j = apic_at m j" if "j \<in> set is" for j using one(6) Cons.prems(2) that by auto
    with IH Cons.prems one show ?thesis by fastforce
  qed
qed simp

lemma ctz32_lowest:
  assumes "x \<noteq> 0"
  shows "ctz32 x < 32" "bit x (ctz32 x)" "bit x j \<Longrightarrow> ctz32 x \<le> j"
proof -
  note t = takeWhile_upt [OF ctz32_def [of x]]
  obtain b where b: "bit x b" using assms by (auto simp: bit_eq_iff)
  then have "b < 32" by (auto dest: bit_imp_le_length)
  moreover have "\<not> b < ctz32 x" using t(2) [of b] b by blast
  ultimately show n: "ctz32 x < 32" by linarith
  then show "bit x (ctz32 x)" using t(3) by simp
  show "bit x j \<Longrightarrow> ctz32 x \<le> j" using t(2) [of j] by (meson not_less)
qed

lemma lowest_bit_None: "lowest_bit_from bm is = None \<longleftrightarrow> (\<forall>i\<in>set is. bm ! i = 0)"
  by (induction "is") auto

lemma lowest_bit_Some:
  "lowest_bit_from bm is = Some d \<Longrightarrow> sorted is \<Longrightarrow> d div 32 \<in> set is \<and> bit (bm ! (d div 32)) (d mod 32) \<and>
     (\<forall>v. v div 32 \<in> set is \<and> bit (bm ! (v div 32)) (v mod 32) \<longrightarrow> d \<le> v)"
proof (induction "is")
  case (Cons i "is")
  show ?case
  proof (cases "bm ! i = 0")
    case True
    with Cons show ?thesis by auto
  next
    case False
    note c = ctz32_lowest [OF False]
    have d: "d = i * 32 + ctz32 (bm ! i)" using Cons.prems(1) False by (simp add: ffs_bit_def)
    then have e: "d div 32 = i" "d mod 32 = ctz32 (bm ! i)" using c(1) by simp_all
    have "d \<le> v" if v: "v div 32 \<in> set (i # is)" "bit (bm ! (v div 32)) (v mod 32)" for v
    proof (cases "v div 32 = i")
      case True
      with v(2) c(3) have "ctz32 (bm ! i) \<le> v mod 32" by simp
      moreover have "v = i * 32 + v mod 32" using True div_mult_mod_eq [of v 32] by simp
      ultimately show ?thesis unfolding d by linarith
    next
      case f: False
      with v(1) Cons.prems(2) have "i < v div 32" by (auto simp: le_less)
      then have "d div 32 < v div 32" by (simp add: e)
      then show ?thesis using div_le_mono [of v d 32] by linarith
    qed
    with e c(2) show ?thesis by auto
  qed
qed simp

lemma lowest_vector:
  "lowest_bit_from bm [0..<8] = (if vectors bm = {} then None else Some (LEAST v. v \<in> vectors bm))"
proof (cases "lowest_bit_from bm [0..<8]")
  case None
  then have "vectors bm = {}" by (auto simp: lowest_bit_None vectors_def)
  with None show ?thesis by simp
next
  case (Some d)
  have small: "v div 32 < 8 \<longleftrightarrow> v < 256" for v :: nat by auto
  have "d \<in> vectors bm" "\<And>v. v \<in> vectors bm \<Longrightarrow> d \<le> v"
    using lowest_bit_Some [OF Some] by (auto simp: vectors_def small)
  then have "(LEAST v. v \<in> vectors bm) = d" "vectors bm \<noteq> {}" by (auto intro: Least_equality)
  with Some show ?thesis by simp
qed

lemma target_least:
  assumes r: "roster_ok (roster m)" and s: "apic_at m i = Some s"
  shows "i \<in> vectors (apic_get_delivery_bitmask m dest dmode) \<longleftrightarrow> i \<in> targets (roster m) dest dmode"
    "vectors (apic_get_delivery_bitmask m dest dmode) \<noteq> {} \<Longrightarrow>
       i = (LEAST v. v \<in> vectors (apic_get_delivery_bitmask m dest dmode)) \<longleftrightarrow>
       i \<in> targets (roster m) dest dmode \<and> (\<forall>j\<in>targets (roster m) dest dmode. i \<le> j)"
proof -
  let ?T = "targets (roster m) dest dmode"
  have all: "i < 256" using roster_present [OF r s, of i] by simp
  show "i \<in> vectors (apic_get_delivery_bitmask m dest dmode) \<longleftrightarrow> i \<in> ?T"
    using all s by (auto simp: delivery_mask [OF r] targets_at addressed_def address_of_def)
  assume ne: "vectors (apic_get_delivery_bitmask m dest dmode) \<noteq> {}"
  show "i = (LEAST v. v \<in> vectors (apic_get_delivery_bitmask m dest dmode)) \<longleftrightarrow> i \<in> ?T \<and> (\<forall>j\<in>?T. i \<le> j)"
  proof (cases "dmode = 0 \<and> dest = 0xff")
    case True
    have "(LEAST v. v \<in> {..<256 :: nat}) = 0" by (rule Least_equality) auto
    moreover have "0 \<in> ?T" using True roster_present [OF r s, of 0] by (auto simp: targets_at addressed_def address_of_def)
    moreover have "i \<in> ?T" using True s by (simp add: targets_at addressed_def address_of_def)
    ultimately show ?thesis using True by (auto simp: delivery_mask [OF r])
  next
    case False
    then have v: "vectors (apic_get_delivery_bitmask m dest dmode) = ?T" using delivery_mask [OF r, of dest dmode] by (simp only: if_False)
    obtain t where "t \<in> ?T" using ne v by blast
    then show ?thesis unfolding v by (metis LeastI Least_le le_antisym)
  qed
qed

lemma set_irq_result:
  assumes "tab_ok (irr s)" "v < 256" "apic_set_irq n v level (s, w) = Some (s', w')"
  shows "v \<in> vectors (irr s') \<and> vectors (irr s) \<subseteq> vectors (irr s') \<and> isr s' = isr s \<and> line_up s'"
proof -
  have u: "apic_update_irq n (set_stage v level (s, w)) = Some (s', w')" using assms(3) by (simp only: apic_set_irq_stage)
  note b = arrival_irq(1) [OF u]
  have "tab_ok (irr (fst (set_stage v level (s, w))))" using assms(1) by (simp add: stage_fields)
  with arrival_more(3) [OF b] have "vectors (tab_set_bit (irr s) v) \<subseteq> vectors (irr s')" by (simp add: stage_fields)
  then show ?thesis using vectors_set_bit [OF assms(1,2)] arrival_fields(1) [OF b] update_line_up [OF u] by (simp add: stage_fields)
qed

lemma delivery_spec:
  assumes r: "roster_ok (roster m)" and d: "apic_deliver_irq dest dmode mode v level m = Some m'"
    and mode: "mode = APIC_DM_FIXED \<or> mode = APIC_DM_EXTINT \<or> mode = APIC_DM_LOWPRI" and v: "v < 256"
    and s: "apic_at m i = Some s" and ok: "tab_ok (irr s)"
  shows "if i \<in> targets (roster m) dest dmode \<and> (mode = APIC_DM_LOWPRI \<longrightarrow> (\<forall>j\<in>targets (roster m) dest dmode. i \<le> j))
    then \<exists>s'. apic_at m' i = Some s' \<and> v \<in> vectors (irr s') \<and> vectors (irr s) \<subseteq> vectors (irr s') \<and> isr s' = isr s \<and> line_up s'
    else apic_at m' i = Some s"
proof -
  let ?bm = "apic_get_delivery_bitmask m dest dmode" and ?T = "targets (roster m) dest dmode"
  note got = set_irq_result [OF ok v, of apic_fuel level]
  show ?thesis
  proof (cases "mode = APIC_DM_LOWPRI")
    case False
    then have "foreach_apic ?bm (apic_set_irq apic_fuel v level) m = Some m'"
      using d mode by (auto simp: apic_deliver_irq_def apic_bus_deliver_def simp del: apic_set_irq.simps)
    then have e: "each_of (\<lambda>i. on_apic i (apic_set_irq apic_fuel v level)) (mask_indices ?bm) m = Some m'" by (simp only: foreach_apic_def)
    have t: "i \<in> vectors ?bm \<longleftrightarrow> i \<in> ?T" by (rule target_least(1) [OF r s])
    show ?thesis
      using each_on_apic [OF e distinct_mask_indices] s got t False unfolding mask_indices_vectors by fastforce
  next
    case True
    then have o: "(case lowest_bit_from ?bm [0..<8] of None \<Rightarrow> Some m | Some d \<Rightarrow> on_apic d (apic_set_irq apic_fuel v level) m) = Some m'"
      using d by (simp add: apic_deliver_irq_def apic_bus_deliver_def del: apic_set_irq.simps)
    show ?thesis
    proof (cases "vectors ?bm = {}")
      case empty: True
      then have "m' = m" "i \<notin> ?T" using o target_least(1) [OF r s, of dest dmode] by (simp_all add: lowest_vector)
      then show ?thesis using s by simp
    next
      case ne: False
      note l = target_least(2) [OF r s ne]
      have on: "on_apic (LEAST v. v \<in> vectors ?bm) (apic_set_irq apic_fuel v level) m = Some m'"
        using o ne by (simp add: lowest_vector del: apic_set_irq.simps)
      then show ?thesis
      proof (cases rule: on_apic_cases)
        case none
        then have "i \<noteq> (LEAST v. v \<in> vectors ?bm)" using s by auto
        then show ?thesis using l none s True by auto
      next
        case (one t t' w)
        show ?thesis
        proof (cases "i = (LEAST v. v \<in> vectors ?bm)")
          case i: True
          then have "t = s" using one(1) s by simp
          then show ?thesis using got [of "world m" t' w] one(2,6) i l True by (auto simp del: apic_set_irq.simps)
        next
          case False
          then show ?thesis using one(6) s l True by auto
        qed
      qed
    qed
  qed
qed

text \<open>C18: [apic_delivery] A message of fixed, external or lowest-priority mode requests its vector at the controllers it addresses,
  physically or logically, and at no other: at all of them, or for the lowest priority at the one with the least index. There the
  processor's line follows, and what is in service stays.\<close>

theorem apic_delivery:
  assumes r: "roster_ok (roster m)" and d: "apic_deliver_irq dest dmode mode v level m = Some m'"
    and mode: "mode = APIC_DM_FIXED \<or> mode = APIC_DM_EXTINT \<or> mode = APIC_DM_LOWPRI" and v: "v < 256"
    and s: "apic_at m i = Some s" and ok: "tab_ok (irr s)"
  shows "if i \<in> targets (roster m) dest dmode \<and> (mode = APIC_DM_LOWPRI \<longrightarrow> (\<forall>j\<in>targets (roster m) dest dmode. i \<le> j))
    then \<exists>s'. apic_at m' i = Some s' \<and> v \<in> vectors (irr s') \<and> vectors (irr s) \<subseteq> vectors (irr s') \<and> isr s' = isr s \<and> line_up s'
    else apic_at m' i = Some s"
  using assms by (rule delivery_spec)

lemma single_roster: "length (local_apics m) = 1 \<Longrightarrow> local_apics m \<noteq> [None] \<Longrightarrow> roster_ok (roster m)"
  unfolding roster_ok_def
  by (intro conjI exI [of _ 1]) (auto simp: roster_def apic_at_def length_Suc_conv split: if_splits)

theorem apic_delivery_witness:
  "\<exists>m' s'. apic_deliver_irq 0 0 APIC_DM_FIXED 0x41 False demo_on = Some m' \<and> apic_at m' 0 = Some s' \<and> 0x41 \<in> vectors (irr s')"
proof -
  have f: "\<not> Option.is_none (apic_at demo_on 0)" "length (local_apics demo_on) = 1" "irr (the (apic_at demo_on 0)) = replicate 8 0"
    "apic_id (the (apic_at demo_on 0)) = 0" by code_simp+
  have s: "apic_at demo_on 0 = Some (the (apic_at demo_on 0))" by (rule some_the [OF f(1)])
  have "\<not> Option.is_none (apic_deliver_irq 0 0 APIC_DM_FIXED 0x41 False demo_on)" by code_simp
  then obtain m' where m': "apic_deliver_irq 0 0 APIC_DM_FIXED 0x41 False demo_on = Some m'" using some_the by blast
  have t: "0 \<in> targets (roster demo_on) 0 0" unfolding targets_at using s f(4) by (auto simp: addressed_def address_of_def)
  have "local_apics demo_on \<noteq> [None]" using f(1) by (auto simp: apic_at_def)
  from apic_delivery [OF single_roster [OF f(2) this] m' _ _ s] t f(3) m' show ?thesis by (auto simp: tab_ok_def)
qed

end
