(* ===== verification/IoapicLaws.thy ===== *)
theory IoapicLaws
  imports ApicDelivery
begin

unbundle bit_operations_syntax

text \<open>
  The I/O interrupt controller: what serving its pins changes, that its operations return while no local controller accepts the 8259, and
  the life of a level-triggered interrupt from the line to the end of the interrupt.
\<close>

section \<open>The I/O controller\<close>

text \<open>Deliveries and the 8259 leave the I/O controller alone.\<close>

lemma on_apic_io: "on_apic i f m = Some m' \<Longrightarrow> ioapic m' = ioapic m"
  by (erule on_apic_cases) simp_all

lemma each_io: "each_of f xs m = Some m' \<Longrightarrow> (\<And>x m m'. f x m = Some m' \<Longrightarrow> ioapic m' = ioapic m) \<Longrightarrow> ioapic m' = ioapic m"
  by (erule each_of_induct [where Q = "\<lambda>m'. ioapic m' = ioapic m"]) auto

lemma deliver_irq_io: "apic_deliver_irq dest dmode mode v l m = Some m' \<Longrightarrow> ioapic m' = ioapic m"
  unfolding apic_deliver_irq_def apic_bus_deliver_def foreach_apic_def
  by (auto split: if_splits option.splits elim!: each_io on_apic_io simp del: apic_set_irq.simps)

lemma pic_read_io: "machine_pic_read m = Some (v, m') \<Longrightarrow> ioapic m' = ioapic m"
proof -
  have "drive_pic p m = Some m' \<Longrightarrow> ioapic m' = ioapic m" for p m m'
    using each_io [of _ _ "with_pic p m" m'] on_apic_io by (fastforce simp: drive_pic_def pic_irq_request_def with_pic_def)
  then show "machine_pic_read m = Some (v, m') \<Longrightarrow> ioapic m' = ioapic m"
    by (auto simp: machine_pic_read_def Let_def bind_eq_Some_conv with_pic_def dest!: each_io)
qed

text \<open>Serving a pin that is asserted and not masked, and leaving any other alone.\<close>

definition wants :: "IOAPICCommonState \<Rightarrow> nat \<Rightarrow> bool" where
  "wants s i \<longleftrightarrow> bit (ioapic_irr s) i \<and> ioredtbl s ! i AND IOAPIC_LVT_MASKED = 0"

lemma service_pin_cases:
  assumes "service_pin i m = Some m'" "ioapic m = Some s"
  obtains (idle) "\<not> wants s i" "m' = m"
  | (served) v m2 where "wants s i" "ioapic m' = Some (mark_served i s)"
      "entry_mode (ioredtbl s ! i) = APIC_DM_EXTINT \<and> machine_pic_read (m\<lparr>ioapic := Some (mark_served i s)\<rparr>) = Some (v, m2)
       \<or> entry_mode (ioredtbl s ! i) \<noteq> APIC_DM_EXTINT \<and> v = unat (ioredtbl s ! i AND 0xff) \<and> m2 = m\<lparr>ioapic := Some (mark_served i s)\<rparr>"
      "apic_deliver_irq (ucast (drop_bit 56 (ioredtbl s ! i))) (unat (drop_bit 11 (ioredtbl s ! i) AND 1)) (entry_mode (ioredtbl s ! i))
         (v mod 256) (entry_level (ioredtbl s ! i)) m2 = Some m'"
proof (cases "wants s i")
  case False
  with assms show thesis by (intro idle) (auto simp: service_pin_def wants_def)
next
  case True
  let ?m1 = "m\<lparr>ioapic := Some (mark_served i s)\<rparr>" and ?e = "ioredtbl s ! i"
  obtain v m2 where v: "(if entry_mode ?e = APIC_DM_EXTINT then machine_pic_read ?m1 else Some (unat (?e AND 0xff), ?m1)) = Some (v, m2)"
    "apic_deliver_irq (ucast (drop_bit 56 ?e)) (unat (drop_bit 11 ?e AND 1)) (entry_mode ?e) (v mod 256) (entry_level ?e) m2 = Some m'"
    using assms True unfolding service_pin_def wants_def Let_def by (auto simp: bind_eq_Some_conv)
  have "ioapic m2 = Some (mark_served i s)" using v(1) pic_read_io [of ?m1 v m2] by (auto split: if_split_asm)
  then have io: "ioapic m' = Some (mark_served i s)" using deliver_irq_io [OF v(2)] by simp
  show thesis by (rule served [OF True io _ v(2)]) (use v(1) in \<open>auto split: if_split_asm\<close>)
qed

lemma u32_bit_small: "bit (x AND NOT (2 ^ n) :: u32) i \<longleftrightarrow> bit x i \<and> (i = n \<longrightarrow> \<not> n < 32)"
proof (cases "i < 32")
  case True
  then show ?thesis by (auto simp: bit_and_iff bit_not_iff bit_exp_iff)
qed (auto dest: bit_imp_le_length)

text \<open>What serving pins does to the I/O controller: entries gain at most the remote bit, requests of edge pins go.\<close>

definition pins_served :: "IOAPICCommonState \<Rightarrow> IOAPICCommonState \<Rightarrow> bool" where
  "pins_served s s' \<longleftrightarrow> ioapic_id s' = ioapic_id s \<and> ioregsel s' = ioregsel s \<and> length (ioredtbl s') = length (ioredtbl s)
     \<and> (\<forall>i<length (ioredtbl s). ioredtbl s' ! i = ioredtbl s ! i
          \<or> entry_level (ioredtbl s ! i) \<and> wants s i \<and> ioredtbl s' ! i = ioredtbl s ! i OR IOAPIC_LVT_REMOTE_IRR)
     \<and> (\<forall>i<length (ioredtbl s). bit (ioapic_irr s') i = bit (ioapic_irr s) i
          \<or> \<not> entry_level (ioredtbl s ! i) \<and> \<not> bit (ioapic_irr s') i)"

lemma pins_served_refl [simp]: "pins_served s s"
  by (simp add: pins_served_def)

lemma remote_bits: "entry_level (e OR 0x4000) = entry_level e" "(e OR 0x4000) AND 0x10000 = e AND 0x10000"
  "entry_mode (e OR 0x4000) = entry_mode e" "(e OR 0x4000) AND 0xff = e AND 0xff" "(e OR 0x4000) OR 0x4000 = e OR 0x4000"
  "drop_bit 56 (e OR 0x4000) = drop_bit 56 e" "drop_bit 11 (e OR 0x4000) AND 1 = drop_bit 11 e AND 1"
  for e :: u64
  by (simp_all add: entry_level_def entry_mode_def drop_bit_or bit_simps conj_disj_distribR and.assoc bit.conj_disj_distrib2 or.assoc)

lemma nth_update: "j < length xs \<Longrightarrow> xs[i := x] ! j = (if j = i then x else xs ! j)"
  by (cases "j = i") auto

lemma mark_served_pins: "wants s i \<Longrightarrow> pins_served s (mark_served i s)"
  by (auto simp: pins_served_def mark_served_def u32_bit_small nth_update split: if_split_asm)

lemma pins_served_trans: "pins_served a b \<Longrightarrow> pins_served b c \<Longrightarrow> pins_served a c"
  unfolding pins_served_def wants_def by (metis remote_bits(1,2,5))

lemma service_pin_served:
  assumes "service_pin i m = Some m'" "ioapic m = Some s"
  shows "\<exists>s'. ioapic m' = Some s' \<and> pins_served s s'"
  using assms by (cases rule: service_pin_cases) (auto simp: assms(2) mark_served_pins)

lemma service_pins_served:
  "each_of service_pin xs m = Some m' \<Longrightarrow> ioapic m = Some s \<Longrightarrow> \<exists>s'. ioapic m' = Some s' \<and> pins_served s s'"
proof (induction xs arbitrary: m s)
  case (Cons x xs)
  then obtain m1 where m1: "service_pin x m = Some m1" "each_of service_pin xs m1 = Some m'" by (auto simp: bind_eq_Some_conv)
  obtain s1 where s1: "ioapic m1 = Some s1" "pins_served s s1" using service_pin_served [OF m1(1) Cons.prems(2)] by blast
  from Cons.IH [OF m1(2) s1(1)] s1(2) show ?case by (blast intro: pins_served_trans)
qed simp

section \<open>Level-triggered pins\<close>

definition pin_targets :: "(nat \<Rightarrow> address option) \<Rightarrow> u64 \<Rightarrow> nat set" where
  "pin_targets X e = targets X (ucast (drop_bit 56 e)) (unat (drop_bit 11 e AND 1))"

definition pin_vector :: "u64 \<Rightarrow> nat" where
  "pin_vector e = unat (e AND 0xff)"

lemma pin_vector_less: "pin_vector e < 256"
proof -
  have "e AND 0xff \<le> 0xff" by (rule word_and_le1)
  then show ?thesis by (simp add: pin_vector_def word_le_nat_alt)
qed

lemma pin_remote: "pin_targets X (e OR 0x4000) = pin_targets X e" "pin_vector (e OR 0x4000) = pin_vector e"
  unfolding pin_targets_def pin_vector_def remote_bits by (rule refl)+

text \<open>Controllers with the addresses \<open>X\<close> that do not accept the 8259 and hold at least the requests \<open>R\<close>.\<close>

definition holding :: "(nat \<Rightarrow> address option) \<Rightarrow> (nat \<Rightarrow> nat set) \<Rightarrow> nat \<Rightarrow> APICCommonState option \<Rightarrow> bool" where
  "holding X R i a \<longleftrightarrow> map_option address_of a = X i \<and>
     pred_option (\<lambda>s. \<not> apic_accept_pic_intr s \<and> tab_ok (irr s) \<and> R i \<subseteq> vectors (irr s)) a"

interpretation holding: apic_invariant "holding X R" for X R
proof unfold_locales
  fix x y :: apic_focus and i
  assume d: "delivery x y" and h: "holding X R i (Some (fst x))"
  note a = delivery_arrival [OF d]
  show "holding X R i (Some (fst y))"
    using h accept_arrival [OF a] arrival_more(1,3) [OF a] by (auto simp: holding_def address_of_def arrival_fields [OF a])
qed (auto simp: holding_def address_of_def apic_accept_pic_intr_def)

lemma holding_at:
  "machine_all (holding X R) m \<longleftrightarrow> roster m = X \<and>
     (\<forall>i s. apic_at m i = Some s \<longrightarrow> \<not> apic_accept_pic_intr s \<and> tab_ok (irr s) \<and> R i \<subseteq> vectors (irr s))"
proof -
  have "machine_all (holding X R) m \<longleftrightarrow> (\<forall>i. roster m i = X i)
      \<and> machine_all (\<lambda>i. pred_option (\<lambda>s. \<not> apic_accept_pic_intr s \<and> tab_ok (irr s) \<and> R i \<subseteq> vectors (irr s))) m"
    unfolding machine_all_def holding_def roster_def by blast
  then show ?thesis unfolding all_pred fun_eq_iff .
qed

lemma deliver_holding:
  assumes h: "machine_all (holding X R) m" and r: "roster_ok X"
    and d: "apic_deliver_irq dest dmode APIC_DM_FIXED v l m = Some m'" and v: "v < 256"
  shows "machine_all (holding X (\<lambda>j. if j \<in> targets X dest dmode then insert v (R j) else R j)) m'"
proof -
  have h': "machine_all (holding X R) m'" by (rule holding.deliver_irq_all [OF h d v])
  have X: "roster m = X" using h by (simp add: holding_at)
  have "v \<in> vectors (irr t)" if t: "apic_at m' j = Some t" and j: "j \<in> targets X dest dmode" for j t
  proof -
    obtain s where s: "apic_at m j = Some s" using j unfolding X [symmetric] targets_at by blast
    then have "tab_ok (irr s)" using h by (simp add: holding_at)
    from delivery_spec [OF r [folded X] d _ v s this] t j X show ?thesis by auto
  qed
  with h' show ?thesis by (auto simp: holding_at)
qed

text \<open>What happens to one pin while others are served.\<close>

definition pin_kept :: "nat \<Rightarrow> IOAPICCommonState \<Rightarrow> IOAPICCommonState \<Rightarrow> bool" where
  "pin_kept i s s' \<longleftrightarrow> length (ioredtbl s') = length (ioredtbl s) \<and> bit (ioapic_irr s') i = bit (ioapic_irr s) i
     \<and> (ioredtbl s' ! i = ioredtbl s ! i \<or> wants s i \<and> ioredtbl s' ! i = ioredtbl s ! i OR IOAPIC_LVT_REMOTE_IRR)"

lemma served_kept: "pins_served s s' \<Longrightarrow> i < length (ioredtbl s) \<Longrightarrow> entry_level (ioredtbl s ! i) \<Longrightarrow> pin_kept i s s'"
  unfolding pins_served_def pin_kept_def by blast

definition plus_request :: "(nat \<Rightarrow> address option) \<Rightarrow> u64 \<Rightarrow> (nat \<Rightarrow> nat set) \<Rightarrow> nat \<Rightarrow> nat set" where
  "plus_request X e R j = (if j \<in> pin_targets X e then insert (pin_vector e) (R j) else R j)"

lemma plus_request_remote: "plus_request X (e OR 0x4000) R = plus_request X e R"
  unfolding plus_request_def [abs_def] pin_remote ..

lemma service_pins_holding:
  assumes "machine_all (holding X R) m" "each_of service_pin xs m = Some m'"
  shows "machine_all (holding X R) m'"
  using assms(2,1) by (rule each_of_induct [where Q = "machine_all (holding X R)"]) (rule holding.service_pin_all)

text \<open>Serving the pins requests the vector of an asserted level pin, whatever the remote bit says, and sets it.\<close>

lemma service_request:
  assumes "each_of service_pin xs m = Some m'" "i \<in> set xs" "ioapic m = Some s" "i < length (ioredtbl s)" "wants s i"
    "entry_level (ioredtbl s ! i)" "entry_mode (ioredtbl s ! i) = APIC_DM_FIXED" "machine_all (holding X R) m" "roster_ok X"
  shows "machine_all (holding X (plus_request X (ioredtbl s ! i) R)) m'
    \<and> (\<exists>s'. ioapic m' = Some s' \<and> length (ioredtbl s') = length (ioredtbl s) \<and> bit (ioapic_irr s') i
         \<and> ioredtbl s' ! i = ioredtbl s ! i OR IOAPIC_LVT_REMOTE_IRR)"
  using assms(1-8)
proof (induction xs arbitrary: m s)
  case (Cons x xs)
  obtain m1 where m1: "service_pin x m = Some m1" "each_of service_pin xs m1 = Some m'" using Cons.prems(1) by (auto simp: bind_eq_Some_conv)
  let ?e = "ioredtbl s ! i"
  show ?case
  proof (cases "x = i")
    case True
    from m1(1) Cons.prems(3) show ?thesis
    proof (cases rule: service_pin_cases)
      case idle
      with Cons.prems(5) True show ?thesis by simp
    next
      case (served v m2)
      have m2: "m2 = m\<lparr>ioapic := Some (mark_served i s)\<rparr>" and v: "v = pin_vector ?e"
        using served(3) True Cons.prems(7) by (auto simp: pin_vector_def)
      have "machine_all (holding X R) m2" using Cons.prems(8) unfolding m2 by simp
      moreover have "apic_deliver_irq (ucast (drop_bit 56 ?e)) (unat (drop_bit 11 ?e AND 1)) APIC_DM_FIXED (pin_vector ?e) (entry_level ?e) m2 = Some m1"
        using served(4) unfolding True Cons.prems(7) v mod_less [OF pin_vector_less] .
      ultimately have "machine_all (holding X (plus_request X ?e R)) m1"
        unfolding plus_request_def [abs_def] pin_targets_def using assms(9) pin_vector_less by (intro deliver_holding)
      then have "machine_all (holding X (plus_request X ?e R)) m'"
        using m1(2) by (rule service_pins_holding)
      moreover obtain s' where s': "ioapic m' = Some s'" "pins_served (mark_served i s) s'"
        using service_pins_served [OF m1(2)] served(2) True by blast
      moreover have "bit (ioapic_irr s) i" using Cons.prems(5) by (simp add: wants_def)
      moreover have "pin_kept i (mark_served i s) s'"
        using Cons.prems(4,6) by (intro served_kept [OF s'(2)]) (simp_all add: mark_served_def remote_bits)
      then have "length (ioredtbl s') = length (ioredtbl s)" "bit (ioapic_irr s') i = bit (ioapic_irr s) i" "ioredtbl s' ! i = ?e OR 0x4000"
        using Cons.prems(4,6) by (auto simp: pin_kept_def mark_served_def remote_bits)
      ultimately show ?thesis by blast
    qed
  next
    case False
    obtain s1 where s1: "ioapic m1 = Some s1" "pins_served s s1" using service_pin_served [OF m1(1) Cons.prems(3)] by blast
    then have k: "pin_kept i s s1" using Cons.prems(4,6) by (intro served_kept)
    then have e: "ioredtbl s1 ! i = ?e \<or> ioredtbl s1 ! i = ?e OR 0x4000" and l: "length (ioredtbl s1) = length (ioredtbl s)"
      by (auto simp: pin_kept_def)
    have "wants s1 i" using k Cons.prems(5) e by (auto simp: wants_def pin_kept_def remote_bits)
    moreover have "machine_all (holding X R) m1" using Cons.prems(8) m1(1) by (rule holding.service_pin_all)
    moreover have "i \<in> set xs" using Cons.prems(2) False by simp
    ultimately have "machine_all (holding X (plus_request X (ioredtbl s1 ! i) R)) m'
      \<and> (\<exists>s'. ioapic m' = Some s' \<and> length (ioredtbl s') = length (ioredtbl s1) \<and> bit (ioapic_irr s') i
           \<and> ioredtbl s' ! i = ioredtbl s1 ! i OR IOAPIC_LVT_REMOTE_IRR)"
      using Cons.prems(4,6,7) e l by (intro Cons.IH [OF m1(2) _ s1(1)]) (auto simp: remote_bits)
    moreover have "plus_request X (ioredtbl s1 ! i) R = plus_request X ?e R" "ioredtbl s1 ! i OR 0x4000 = ?e OR 0x4000"
      using e by (auto simp: plus_request_remote remote_bits)
    ultimately show ?thesis using l by simp
  qed
qed simp

section \<open>The end of a level-triggered interrupt\<close>

lemma service_kept:
  assumes "ioapic_service m = Some m'" "ioapic m = Some s" "i < length (ioredtbl s)" "entry_level (ioredtbl s ! i)"
  shows "\<exists>s'. ioapic m' = Some s' \<and> pin_kept i s s'"
  using service_pins_served [OF assms(1) [unfolded ioapic_service_def] assms(2)] served_kept assms(3,4) by blast

text \<open>The broadcast at another pin.\<close>

lemma eoi_pin_other:
  assumes "eoi_pin v n m = Some m'" "ioapic m = Some s" "n \<noteq> i" "i < length (ioredtbl s)" "entry_level (ioredtbl s ! i)"
  shows "\<exists>s'. ioapic m' = Some s' \<and> pin_kept i s s'"
proof -
  let ?e = "ioredtbl s ! n"
  let ?s1 = "s\<lparr>ioredtbl := (ioredtbl s)[n := ?e AND NOT IOAPIC_LVT_REMOTE_IRR]\<rparr>"
  have c: "m' = m \<or> m' = m\<lparr>ioapic := Some ?s1\<rparr> \<or> ioapic_service (m\<lparr>ioapic := Some ?s1\<rparr>) = Some m'"
    using assms(1,2) unfolding eoi_pin_def Let_def by (auto split: if_split_asm)
  have same: "pin_kept i s ?s1" "wants ?s1 i = wants s i" "ioredtbl ?s1 ! i = ioredtbl s ! i" "length (ioredtbl ?s1) = length (ioredtbl s)"
    using assms(3) by (simp_all add: pin_kept_def wants_def)
  from c show ?thesis
  proof (elim disjE)
    assume "ioapic_service (m\<lparr>ioapic := Some ?s1\<rparr>) = Some m'"
    from service_kept [OF this, of ?s1 i] obtain s' where "ioapic m' = Some s'" "pin_kept i ?s1 s'" using same assms(4,5) by auto
    then show ?thesis using same by (auto simp: pin_kept_def)
  qed (use assms(2) same(1) in \<open>auto simp: pin_kept_def\<close>)
qed

lemma each_append: "each_of f (xs @ ys) m = Option.bind (each_of f xs m) (each_of f ys)"
proof (induction xs arbitrary: m)
  case (Cons x xs)
  then show ?case by (cases "f x m") simp_all
qed simp

lemma split_pins: "i < 24 \<Longrightarrow> [0..<24] = [0..<i] @ i # [Suc i..<24]"
  using upt_add_eq_append [of 0 i "24 - i"] upt_conv_Cons [of i 24] by (simp del: upt_rec_numeral)

text \<open>A pin whose entry the broadcast must not change while other pins are looked at: its remote bit is set, or it is not asserted.\<close>

definition settled :: "nat \<Rightarrow> u64 \<Rightarrow> bool \<Rightarrow> (nat \<Rightarrow> address option) \<Rightarrow> (nat \<Rightarrow> nat set) \<Rightarrow> apic_machine \<Rightarrow> bool" where
  "settled i e b X R m \<longleftrightarrow> machine_all (holding X R) m \<and>
     (\<exists>s. ioapic m = Some s \<and> length (ioredtbl s) = 24 \<and> ioredtbl s ! i = e \<and> bit (ioapic_irr s) i = b)"

lemma eoi_pin_settled:
  assumes "eoi_pin v n m = Some m'" "settled i e b X R m" "n \<noteq> i" "i < 24" "entry_level e" "e OR 0x4000 = e \<or> \<not> b"
  shows "settled i e b X R m'"
proof -
  obtain s where s: "machine_all (holding X R) m" "ioapic m = Some s" "length (ioredtbl s) = 24" "ioredtbl s ! i = e" "bit (ioapic_irr s) i = b"
    using assms(2) by (auto simp: settled_def)
  obtain s' where s': "ioapic m' = Some s'" "pin_kept i s s'"
    using eoi_pin_other [OF assms(1) s(2) assms(3)] s(3,4) assms(4,5) by auto
  have "machine_all (holding X R) m'"
    using assms(1) s(1) by (auto simp: eoi_pin_def s(2) Let_def split: if_split_asm elim!: holding.service_all [rotated])
  with s' s assms(6) show ?thesis by (auto simp: settled_def pin_kept_def wants_def)
qed

lemma eoi_pins_settled:
  assumes "each_of (eoi_pin v) xs m = Some m'" "settled i e b X R m" "i \<notin> set xs" "i < 24" "entry_level e" "e OR 0x4000 = e \<or> \<not> b"
  shows "settled i e b X R m'"
  using assms(1,2)
  by (rule each_of_induct [where Q = "settled i e b X R"]) (use assms(3-6) eoi_pin_settled in metis)

lemma eoi_split:
  assumes "ioapic_eoi_broadcast v m = Some m'" "i < 24"
  obtains m1 m2 where "each_of (eoi_pin v) [0..<i] m = Some m1" "eoi_pin v i m1 = Some m2" "each_of (eoi_pin v) [Suc i..<24] m2 = Some m'"
  using assms unfolding ioapic_eoi_broadcast_def split_pins [OF assms(2)] each_append by (auto simp: bind_eq_Some_conv)

lemma remote_bit: "bit (0x4000 :: u64) n \<longleftrightarrow> n = 14" "bit (- 16385 :: u64) n \<longleftrightarrow> n < 64 \<and> n \<noteq> 14"
proof -
  have "(0x4000 :: u64) = 2 ^ 14" by simp
  then show k: "bit (0x4000 :: u64) n \<longleftrightarrow> n = 14" for n by (simp only: bit_exp_iff) auto
  have "(- 16385 :: u64) = NOT 0x4000" by simp
  then show "bit (- 16385 :: u64) n \<longleftrightarrow> n < 64 \<and> n \<noteq> 14" by (simp only: bit_not_iff k) simp
qed

lemma remote_set: "e AND 0x4000 \<noteq> 0 \<Longrightarrow> (e AND - 16385) OR 0x4000 = e \<and> e OR 0x4000 = e" for e :: u64
proof -
  assume "e AND 0x4000 \<noteq> 0"
  then obtain n where "bit (e AND 0x4000) n" by (auto simp: bit_eq_iff)
  then have "bit e 14" unfolding bit_and_iff remote_bit by blast
  then have "bit ((e AND - 16385) OR 0x4000) n \<longleftrightarrow> bit e n" "bit (e OR 0x4000) n \<longleftrightarrow> bit e n" for n
    unfolding bit_or_iff bit_and_iff remote_bit by (auto dest: bit_imp_le_length)
  then show ?thesis by (blast intro: bit_word_eqI)
qed

lemma remote_cleared: "entry_level (e AND - 16385) = entry_level e" "(e AND - 16385) AND 0x10000 = e AND 0x10000"
  "entry_mode (e AND - 16385) = entry_mode e" "pin_vector (e AND - 16385) = pin_vector e"
  "pin_targets X (e AND - 16385) = pin_targets X e" for e :: u64
proof -
  have d: "drop_bit 15 (e AND - 16385) AND 1 = drop_bit 15 e AND 1" "drop_bit 8 (e AND - 16385) AND 7 = drop_bit 8 e AND 7"
    "drop_bit 11 (e AND - 16385) AND 1 = drop_bit 11 e AND 1" by (simp_all add: drop_bit_and and.assoc)
  have t: "drop_bit 56 (e AND - 16385) = drop_bit 56 e"
  proof (rule bit_word_eqI)
    show "bit (drop_bit 56 (e AND - 16385)) n \<longleftrightarrow> bit (drop_bit 56 e) n" for n
      unfolding bit_drop_bit_eq comp_def bit_and_iff remote_bit by (auto dest: bit_imp_le_length)
  qed
  show "entry_level (e AND - 16385) = entry_level e" unfolding entry_level_def d ..
  show "entry_mode (e AND - 16385) = entry_mode e" unfolding entry_mode_def d ..
  show "pin_targets X (e AND - 16385) = pin_targets X e" unfolding pin_targets_def d t ..
qed (simp_all add: and.assoc pin_vector_def)

text \<open>The end of the interrupt of an asserted pin requests it again.\<close>

lemma eoi_asserted:
  assumes b: "ioapic_eoi_broadcast (pin_vector e) m = Some m'" and st: "settled i e True X R m" and i: "i < 24"
    and e: "entry_level e" "entry_mode e = APIC_DM_FIXED" "e AND IOAPIC_LVT_MASKED = 0" "e AND IOAPIC_LVT_REMOTE_IRR \<noteq> 0" and r: "roster_ok X"
  shows "settled i e True X (plus_request X e R) m'"
proof -
  note f = remote_set [OF e(4)]
  obtain m1 m2 where m: "each_of (eoi_pin (pin_vector e)) [0..<i] m = Some m1" "eoi_pin (pin_vector e) i m1 = Some m2"
    "each_of (eoi_pin (pin_vector e)) [Suc i..<24] m2 = Some m'" using eoi_split [OF b i] .
  have "settled i e True X R m1" by (rule eoi_pins_settled [OF m(1) st _ i e(1)]) (simp_all add: f)
  then obtain s where s: "machine_all (holding X R) m1" "ioapic m1 = Some s" "length (ioredtbl s) = 24" "ioredtbl s ! i = e" "bit (ioapic_irr s) i"
    by (auto simp: settled_def)
  let ?s1 = "s\<lparr>ioredtbl := (ioredtbl s)[i := e AND NOT IOAPIC_LVT_REMOTE_IRR]\<rparr>"
  have sv: "each_of service_pin [0..<24] (m1\<lparr>ioapic := Some ?s1\<rparr>) = Some m2"
    using m(2) s(2,4,5) e(3,4) by (simp add: eoi_pin_def Let_def pin_vector_def ioapic_service_def del: upt_rec_numeral)
  have at: "ioredtbl ?s1 ! i = e AND - 16385" using s(3) i by simp
  have "machine_all (holding X (plus_request X (ioredtbl ?s1 ! i) R)) m2 \<and> (\<exists>s'. ioapic m2 = Some s' \<and> length (ioredtbl s') = length (ioredtbl ?s1)
      \<and> bit (ioapic_irr s') i \<and> ioredtbl s' ! i = ioredtbl ?s1 ! i OR IOAPIC_LVT_REMOTE_IRR)"
    by (rule service_request [OF sv]) (use s i e r in \<open>simp_all add: wants_def remote_cleared\<close>)
  moreover have "plus_request X (e AND - 16385) R = plus_request X e R" unfolding plus_request_def [abs_def] remote_cleared ..
  ultimately have "settled i e True X (plus_request X e R) m2" unfolding at using s(3) f by (auto simp: settled_def)
  then show ?thesis by (rule eoi_pins_settled [OF m(3) _ _ i e(1)]) (simp_all add: f)
qed

text \<open>The end of the interrupt of a pin that has been lowered clears its remote bit.\<close>

lemma eoi_lowered:
  assumes b: "ioapic_eoi_broadcast (pin_vector e) m = Some m'" and st: "settled i e False X R m" and i: "i < 24"
    and e: "entry_level e" "e AND IOAPIC_LVT_REMOTE_IRR \<noteq> 0"
  shows "settled i (e AND NOT IOAPIC_LVT_REMOTE_IRR) False X R m'"
proof -
  obtain m1 m2 where m: "each_of (eoi_pin (pin_vector e)) [0..<i] m = Some m1" "eoi_pin (pin_vector e) i m1 = Some m2"
    "each_of (eoi_pin (pin_vector e)) [Suc i..<24] m2 = Some m'" using eoi_split [OF b i] .
  have "settled i e False X R m1" by (rule eoi_pins_settled [OF m(1) st _ i e(1)]) simp_all
  then have "settled i (e AND NOT IOAPIC_LVT_REMOTE_IRR) False X R m2"
    using m(2) e(2) i by (auto simp: settled_def eoi_pin_def Let_def pin_vector_def)
  then show ?thesis by (rule eoi_pins_settled [OF m(3) _ _ i]) (use e in \<open>simp_all add: remote_cleared\<close>)
qed

section \<open>Nothing hangs while no controller accepts the 8259\<close>

lemma sync_total: "k = SYNC_ISR_IRR_TO_VAPIC \<or> k = SYNC_FROM_VAPIC \<Longrightarrow> \<exists>t w'. apic_sync_vapic k (s, w) = Some (s\<lparr>tpr := t\<rparr>, w')"
proof -
  have "\<exists>t. s\<lparr>tpr := t\<rparr> = s" by (rule exI [of _ "tpr s"]) simp
  then show "k = SYNC_ISR_IRR_TO_VAPIC \<or> k = SYNC_FROM_VAPIC \<Longrightarrow> ?thesis" by (auto simp: apic_sync_vapic_def Let_def intro: sym)
qed

lemma update_total: "\<not> apic_accept_pic_intr s \<Longrightarrow> apic_update_irq (Suc n) (s, w) \<noteq> None"
  by simp

lemma set_irq_total:
  assumes "\<not> apic_accept_pic_intr s"
  shows "apic_set_irq (Suc n) v l (s, w) \<noteq> None"
proof -
  have a: "\<not> apic_accept_pic_intr (latch_irq v l s\<lparr>tpr := t\<rparr>)" for t
    using assms by (simp add: latch_irq_def apic_accept_pic_intr_def)
  have u: "apic_update_irq (Suc n) (latch_irq v l s\<lparr>tpr := t\<rparr>, w') \<noteq> None" for t w' using update_total [OF a] .
  let ?w = "apic_report_irq_delivered (\<not> tab_get_bit (irr s) v) w"
  obtain t1 w1 where "apic_sync_vapic SYNC_ISR_IRR_TO_VAPIC (latch_irq v l s, ?w) = Some (latch_irq v l s\<lparr>tpr := t1\<rparr>, w1)"
    using sync_total by blast
  moreover obtain t2 w2 where "apic_sync_vapic SYNC_FROM_VAPIC (latch_irq v l s\<lparr>tpr := t1\<rparr>, w1) = Some (latch_irq v l s\<lparr>tpr := t2\<rparr>, w2)"
    using sync_total [of SYNC_FROM_VAPIC "latch_irq v l s\<lparr>tpr := t1\<rparr>" w1] by auto
  ultimately show ?thesis
    using u [of t2 w2] u [of "tpr (latch_irq v l s)" ?w] by (simp add: Let_def del: apic_update_irq.simps)
qed

lemma each_total:
  assumes "Q m" "\<And>x m. Q m \<Longrightarrow> f x m \<noteq> None" "\<And>x m m'. Q m \<Longrightarrow> f x m = Some m' \<Longrightarrow> Q m'"
  shows "each_of f xs m \<noteq> None"
  using assms(1)
proof (induction xs arbitrary: m)
  case (Cons x xs)
  then show ?case using assms(2) [of m x] assms(3) [of m x] by (cases "f x m") auto
qed simp

abbreviation no_8259 :: "apic_machine \<Rightarrow> bool" where
  "no_8259 \<equiv> machine_all (\<lambda>_. pred_option (\<lambda>s. \<not> apic_accept_pic_intr s))"

interpretation deaf: apic_invariant "\<lambda>_. pred_option (\<lambda>s. \<not> apic_accept_pic_intr s)"
proof unfold_locales
  fix x y :: apic_focus
  assume "delivery x y" "pred_option (\<lambda>s. \<not> apic_accept_pic_intr s) (Some (fst x))"
  then show "pred_option (\<lambda>s. \<not> apic_accept_pic_intr s) (Some (fst y))" using accept_arrival [OF delivery_arrival] by simp
qed (auto simp: apic_accept_pic_intr_def)

lemma on_apic_total:
  assumes "no_8259 m" "\<And>s w. \<not> apic_accept_pic_intr s \<Longrightarrow> f (s, w) \<noteq> None"
  shows "on_apic i f m \<noteq> None"
proof (cases "apic_at m i")
  case (Some s)
  with assms(1) [unfolded all_pred] have "f (s, world m) \<noteq> None" by (intro assms(2)) blast
  with Some show ?thesis by (auto simp: on_apic_def)
qed (simp add: on_apic_def)

lemma foreach_total:
  assumes "no_8259 m" "\<And>s w. \<not> apic_accept_pic_intr s \<Longrightarrow> f (s, w) \<noteq> None"
    "\<And>s w s' w'. \<not> apic_accept_pic_intr s \<Longrightarrow> f (s, w) = Some (s', w') \<Longrightarrow> \<not> apic_accept_pic_intr s'"
  shows "foreach_apic bm f m \<noteq> None"
  unfolding foreach_apic_def using assms(1)
proof (rule each_total)
  show "no_8259 m \<Longrightarrow> on_apic x f m = Some m' \<Longrightarrow> no_8259 m'" for x m m' by (erule (1) on_apic_all) (simp add: assms(3))
qed (use assms(2) on_apic_total in blast)

lemma deliver_total:
  assumes "no_8259 m" "v < 256"
  shows "apic_deliver_irq dest dmode mode v l m \<noteq> None"
proof -
  have irq: "apic_set_irq apic_fuel v l (s, w) \<noteq> None" if "\<not> apic_accept_pic_intr s" for s w
    using set_irq_total [OF that, of 1] by (simp add: numeral_2_eq_2 del: apic_set_irq.simps)
  have keep: "\<not> apic_accept_pic_intr s'" if "\<not> apic_accept_pic_intr s" "apic_set_irq apic_fuel v l (s, w) = Some (s', w')" for s w s' w'
    using deaf.set_irq_P [OF assms(2), of s apic_fuel l w s' w'] that by simp
  have cpu: "apic_accept_pic_intr (cpu_interrupt k s) = apic_accept_pic_intr s" for k s
    by (simp add: cpu_interrupt_def apic_accept_pic_intr_def)
  have "foreach_apic bm (apic_set_irq apic_fuel v l) m \<noteq> None" for bm using irq keep by (rule foreach_total [OF assms(1)])
  moreover have "foreach_apic bm (pure_op (cpu_interrupt k)) m \<noteq> None" for bm k
    by (rule foreach_total [OF assms(1)]) (auto simp: pure_op_def cpu)
  moreover have "on_apic i (apic_set_irq apic_fuel v l) m \<noteq> None" for i using irq by (rule on_apic_total [OF assms(1)])
  ultimately show ?thesis unfolding apic_deliver_irq_def apic_bus_deliver_def
    by (simp split: option.split del: not_None_eq apic_set_irq.simps)
qed

lemma drive_total: "no_8259 m \<Longrightarrow> drive_pic p m \<noteq> None"
  unfolding drive_pic_def pic_irq_request_def
proof (rule each_total [where Q = no_8259])
  let ?f = "\<lambda>sw. if apic_accept_pic_intr (fst sw) then apic_deliver_pic_intr (int_line p) sw else Some sw"
  show "no_8259 m \<Longrightarrow> no_8259 (with_pic p m)" unfolding all_pred by (simp add: with_pic_def apic_at_def split: if_split_asm)
  show "on_apic i ?f x \<noteq> None" if "no_8259 x" for i x by (rule on_apic_total [OF that]) simp
  show "no_8259 x'" if "no_8259 x" "on_apic i ?f x = Some x'" for i x x'
    using that by (rule on_apic_all) (auto split: if_splits)
qed

lemma pic_read_total:
  assumes "no_8259 m"
  shows "machine_pic_read m \<noteq> None"
proof -
  have "each_of drive_pic ps m \<noteq> None" for ps using assms by (rule each_total) (use drive_total deaf.drive_all in blast)+
  then obtain m1 where "each_of drive_pic (pic_read_drives (isa_pic (world m))) m = Some m1" by blast
  then show ?thesis by (simp add: machine_pic_read_def Let_def)
qed

lemma service_pin_total:
  assumes "no_8259 m"
  shows "service_pin i m \<noteq> None"
proof (cases "ioapic m")
  case (Some s)
  let ?m1 = "m\<lparr>ioapic := Some (mark_served i s)\<rparr>" and ?e = "ioredtbl s ! i"
  have m1: "no_8259 ?m1" using assms by simp
  obtain v m2 where v: "(if entry_mode ?e = APIC_DM_EXTINT then machine_pic_read ?m1 else Some (unat (?e AND 0xff), ?m1)) = Some (v, m2)"
    using pic_read_total [OF m1] by (cases "entry_mode ?e = APIC_DM_EXTINT") auto
  then have "no_8259 m2" using m1 deaf.pic_read_all [OF m1, of v m2] by (auto split: if_split_asm)
  then have "apic_deliver_irq (ucast (drop_bit 56 ?e)) (unat (drop_bit 11 ?e AND 1)) (entry_mode ?e) (v mod 256) (entry_level ?e) m2 \<noteq> None"
    by (rule deliver_total) simp
  with Some v show ?thesis unfolding service_pin_def Let_def by simp
qed (simp add: service_pin_def)

lemma service_total: "no_8259 m \<Longrightarrow> ioapic_service m \<noteq> None"
  unfolding ioapic_service_def by (erule each_total) (fact service_pin_total, fact deaf.service_pin_all)

lemma set_pin_total: "no_8259 m \<Longrightarrow> ioapic_set_irq i l m \<noteq> None"
  using service_total [of "m\<lparr>ioapic := _\<rparr>"] by (auto simp: ioapic_set_irq_def Let_def split: option.split simp del: not_None_eq)

lemma eoi_pin_total: "no_8259 m \<Longrightarrow> eoi_pin v i m \<noteq> None"
  using service_total [of "m\<lparr>ioapic := _\<rparr>"] by (auto simp: eoi_pin_def Let_def split: option.split simp del: not_None_eq)

lemma eoi_pin_deaf: "no_8259 m \<Longrightarrow> eoi_pin v i m = Some m' \<Longrightarrow> no_8259 m'"
  by (auto simp: eoi_pin_def Let_def split: option.splits if_split_asm elim!: deaf.service_all [rotated])

lemma eoi_total: "no_8259 m \<Longrightarrow> ioapic_eoi_broadcast v m \<noteq> None"
  unfolding ioapic_eoi_broadcast_def by (erule each_total) (fact eoi_pin_total, fact eoi_pin_deaf)

section \<open>The life of a level-triggered interrupt\<close>

text \<open>A pin of a machine whose controllers are well formed and do not accept the 8259: its entry and whether it is asserted.\<close>

definition level_pin :: "nat \<Rightarrow> u64 \<Rightarrow> bool \<Rightarrow> apic_machine \<Rightarrow> bool" where
  "level_pin i e b m \<longleftrightarrow> roster_ok (roster m) \<and> (\<forall>j t. apic_at m j = Some t \<longrightarrow> \<not> apic_accept_pic_intr t \<and> tab_ok (irr t))
     \<and> (\<exists>s. ioapic m = Some s \<and> length (ioredtbl s) = 24 \<and> ioredtbl s ! i = e \<and> bit (ioapic_irr s) i = b)"

text \<open>Every controller the entry addresses holds its vector as a request.\<close>

definition requested :: "u64 \<Rightarrow> apic_machine \<Rightarrow> bool" where
  "requested e m \<longleftrightarrow> (\<forall>j\<in>pin_targets (roster m) e. \<forall>t. apic_at m j = Some t \<longrightarrow> pin_vector e \<in> vectors (irr t))"

lemma level_pin_settled: "level_pin i e b m \<longleftrightarrow> roster_ok (roster m) \<and> settled i e b (roster m) (\<lambda>_. {}) m"
  unfolding level_pin_def settled_def holding_at by auto

lemma settled_level: "settled i e b X R m \<Longrightarrow> roster_ok X \<Longrightarrow> level_pin i e b m \<and> roster m = X"
  unfolding level_pin_def settled_def holding_at by auto

lemma settled_requested: "settled i e' b X (plus_request X e R) m \<Longrightarrow> requested e m"
  unfolding requested_def settled_def holding_at plus_request_def by (metis insert_subset)

lemma level_pin_deaf: "level_pin i e b m \<Longrightarrow> no_8259 m"
  unfolding level_pin_def all_pred by blast

lemma set_pin_unfold:
  assumes "ioapic m = Some s" "0 < i" "i < 24" "entry_level (ioredtbl s ! i)"
  shows "ioapic_set_irq i (ioredtbl s ! i AND 0x2000 = 0) m = ioapic_service (m\<lparr>ioapic := Some (s\<lparr>ioapic_irr := ioapic_irr s OR push_bit i 1\<rparr>)\<rparr>)"
    "ioapic_set_irq i (ioredtbl s ! i AND 0x2000 \<noteq> 0) m = Some (m\<lparr>ioapic := Some (s\<lparr>ioapic_irr := ioapic_irr s AND NOT (push_bit i 1)\<rparr>)\<rparr>)"
  using assms by (simp_all add: ioapic_set_irq_def Let_def)

lemma masked_bits: "bit (r OR push_bit i 1 :: u32) i" "\<not> bit (r AND NOT (push_bit i 1) :: u32) i" if "i < 24"
  using that by (simp_all add: bit_or_iff bit_and_iff bit_not_iff bit_exp_iff)

lemma pin_raised:
  assumes p: "level_pin i e b m" and i: "0 < i" "i < 24" and e: "entry_level e" "entry_mode e = APIC_DM_FIXED" "e AND IOAPIC_LVT_MASKED = 0"
    and r: "ioapic_set_irq i (e AND 0x2000 = 0) m = Some m'"
  shows "level_pin i (e OR IOAPIC_LVT_REMOTE_IRR) True m' \<and> requested e m'"
proof -
  obtain s where s: "ioapic m = Some s" "length (ioredtbl s) = 24" "ioredtbl s ! i = e" using p by (auto simp: level_pin_def)
  let ?s1 = "s\<lparr>ioapic_irr := ioapic_irr s OR push_bit i 1\<rparr>" and ?X = "roster m"
  have X: "roster_ok ?X" "machine_all (holding ?X (\<lambda>_. {})) m" using p by (auto simp: level_pin_settled settled_def)
  have sv: "each_of service_pin [0..<24] (m\<lparr>ioapic := Some ?s1\<rparr>) = Some m'"
    using r set_pin_unfold(1) [OF s(1) i] e(1) s(3) by (simp add: ioapic_service_def del: upt_rec_numeral)
  have "machine_all (holding ?X (plus_request ?X (ioredtbl ?s1 ! i) (\<lambda>_. {}))) m' \<and> (\<exists>s'. ioapic m' = Some s' \<and> length (ioredtbl s') = length (ioredtbl ?s1)
      \<and> bit (ioapic_irr s') i \<and> ioredtbl s' ! i = ioredtbl ?s1 ! i OR IOAPIC_LVT_REMOTE_IRR)"
    by (rule service_request [OF sv]) (use s i e X masked_bits [OF i(2)] in \<open>simp_all add: wants_def\<close>)
  then have "settled i (e OR IOAPIC_LVT_REMOTE_IRR) True ?X (plus_request ?X e (\<lambda>_. {})) m'" using s by (auto simp: settled_def)
  then show ?thesis using settled_level [OF _ X(1)] settled_requested by blast
qed

lemma pin_ended:
  assumes p: "level_pin i e b m" and i: "i < 24" and e: "entry_level e" "entry_mode e = APIC_DM_FIXED" "e AND IOAPIC_LVT_MASKED = 0"
      "e AND IOAPIC_LVT_REMOTE_IRR \<noteq> 0"
    and r: "ioapic_eoi_broadcast (pin_vector e) m = Some m'"
  shows "if b then level_pin i e True m' \<and> requested e m' else level_pin i (e AND NOT IOAPIC_LVT_REMOTE_IRR) False m'"
proof -
  let ?X = "roster m"
  have X: "roster_ok ?X" "settled i e b ?X (\<lambda>_. {}) m" using p by (auto simp: level_pin_settled)
  show ?thesis
  proof (cases b)
    case True
    then have "settled i e True ?X (plus_request ?X e (\<lambda>_. {})) m'" using X(2) by (intro eoi_asserted [OF r _ i e X(1)]) simp
    with True show ?thesis using settled_level [OF _ X(1)] settled_requested by (metis (full_types))
  next
    case False
    then have "settled i (e AND NOT IOAPIC_LVT_REMOTE_IRR) False ?X (\<lambda>_. {}) m'" using X(2) by (intro eoi_lowered [OF r _ i e(1,4)]) simp
    with False show ?thesis using settled_level [OF _ X(1)] by (metis (full_types))
  qed
qed

lemma pin_lowered:
  assumes p: "level_pin i e b m" and i: "0 < i" "i < 24" and e: "entry_level e"
  shows "\<exists>m'. ioapic_set_irq i (e AND 0x2000 \<noteq> 0) m = Some m' \<and> level_pin i e False m' \<and> local_apics m' = local_apics m"
proof -
  obtain s where s: "ioapic m = Some s" "length (ioredtbl s) = 24" "ioredtbl s ! i = e" using p by (auto simp: level_pin_def)
  let ?m = "m\<lparr>ioapic := Some (s\<lparr>ioapic_irr := ioapic_irr s AND NOT (push_bit i 1)\<rparr>)\<rparr>"
  have "ioapic_set_irq i (e AND 0x2000 \<noteq> 0) m = Some ?m" using set_pin_unfold(2) [OF s(1) i] s(3) e by simp
  moreover have at: "apic_at ?m = apic_at m" by (simp add: fun_eq_iff apic_at_def)
  then have "roster ?m = roster m" by (simp add: fun_eq_iff roster_def)
  then have "level_pin i e False ?m" using p s masked_bits(2) [OF i(2), of "ioapic_irr s"] unfolding level_pin_def at by simp
  ultimately show ?thesis by simp
qed

text \<open>C19: [ioapic_level] The life of a level-triggered interrupt, for a pin from 1 to 23 in fixed mode that is not masked,
  while no controller accepts the 8259: asserting the line requests the
  vector at every controller the entry addresses and marks the entry; as long as the line is asserted, the end of the interrupt requests it
  again; lowering the line changes no controller; the end of the interrupt of a lowered line removes the mark. Each of these returns.\<close>

theorem ioapic_level:
  assumes "level_pin i e b m" "0 < i" "i < 24" "entry_level e" "entry_mode e = APIC_DM_FIXED" "e AND IOAPIC_LVT_MASKED = 0"
  shows "(\<exists>m'. ioapic_set_irq i (e AND 0x2000 = 0) m = Some m' \<and> level_pin i (e OR IOAPIC_LVT_REMOTE_IRR) True m' \<and> requested e m')
    \<and> (\<exists>m'. ioapic_set_irq i (e AND 0x2000 \<noteq> 0) m = Some m' \<and> level_pin i e False m' \<and> local_apics m' = local_apics m)
    \<and> (e AND IOAPIC_LVT_REMOTE_IRR \<noteq> 0 \<longrightarrow> (\<exists>m'. ioapic_eoi_broadcast (pin_vector e) m = Some m' \<and>
         (if b then level_pin i e True m' \<and> requested e m' else level_pin i (e AND NOT IOAPIC_LVT_REMOTE_IRR) False m')))"
proof (intro conjI impI)
  note deaf = level_pin_deaf [OF assms(1)]
  obtain m1 where m1: "ioapic_set_irq i (e AND 0x2000 = 0) m = Some m1" using set_pin_total [OF deaf] by blast
  then show "\<exists>m'. ioapic_set_irq i (e AND 0x2000 = 0) m = Some m' \<and> level_pin i (e OR IOAPIC_LVT_REMOTE_IRR) True m' \<and> requested e m'"
    using pin_raised [OF assms m1] by blast
  show "\<exists>m'. ioapic_set_irq i (e AND 0x2000 \<noteq> 0) m = Some m' \<and> level_pin i e False m' \<and> local_apics m' = local_apics m"
    using assms(1-4) by (rule pin_lowered)
  assume r: "e AND IOAPIC_LVT_REMOTE_IRR \<noteq> 0"
  obtain m2 where m2: "ioapic_eoi_broadcast (pin_vector e) m = Some m2" using eoi_total [OF deaf] by blast
  then show "\<exists>m'. ioapic_eoi_broadcast (pin_vector e) m = Some m' \<and>
      (if b then level_pin i e True m' \<and> requested e m' else level_pin i (e AND NOT IOAPIC_LVT_REMOTE_IRR) False m')"
    using pin_ended [OF assms(1,3-6) r m2] by blast
qed

text \<open>C39: [ioapic_requests_twice] An interrupt at another pin requests a level-triggered interrupt again while it is still being served, with
  its line unchanged: the mark in the entry does not hold it back.\<close>

theorem ioapic_requests_twice:
  assumes "level_pin i e True m" "i < 24" "entry_level e" "entry_mode e = APIC_DM_FIXED" "e AND IOAPIC_LVT_MASKED = 0"
    "e AND IOAPIC_LVT_REMOTE_IRR \<noteq> 0"
    and other: "ioapic m = Some s" "0 < n" "n < 24" "\<not> entry_level (ioredtbl s ! n)" "ioredtbl s ! n AND 0x2000 = 0"
      "ioredtbl s ! n AND IOAPIC_LVT_MASKED = 0"
  shows "\<exists>m'. ioapic_set_irq n True m = Some m' \<and> level_pin i e True m' \<and> requested e m'"
proof -
  let ?s1 = "s\<lparr>ioapic_irr := ioapic_irr s OR push_bit n 1\<rparr>" and ?X = "roster m"
  have s: "length (ioredtbl s) = 24" "ioredtbl s ! i = e" "bit (ioapic_irr s) i" using assms(1) other(1) by (auto simp: level_pin_def)
  have X: "roster_ok ?X" "machine_all (holding ?X (\<lambda>_. {})) m" using assms(1) by (auto simp: level_pin_settled settled_def)
  have eq: "ioapic_set_irq n True m = ioapic_service (m\<lparr>ioapic := Some ?s1\<rparr>)" using other by (simp add: ioapic_set_irq_def Let_def)
  have "no_8259 m" by (rule level_pin_deaf [OF assms(1)])
  then obtain m' where m': "ioapic_set_irq n True m = Some m'" using set_pin_total by blast
  then have sv: "each_of service_pin [0..<24] (m\<lparr>ioapic := Some ?s1\<rparr>) = Some m'" unfolding eq ioapic_service_def .
  have "machine_all (holding ?X (plus_request ?X (ioredtbl ?s1 ! i) (\<lambda>_. {}))) m' \<and> (\<exists>s'. ioapic m' = Some s' \<and> length (ioredtbl s') = length (ioredtbl ?s1)
      \<and> bit (ioapic_irr s') i \<and> ioredtbl s' ! i = ioredtbl ?s1 ! i OR IOAPIC_LVT_REMOTE_IRR)"
    by (rule service_request [OF sv]) (use s assms(2-5) X in \<open>simp_all add: wants_def bit_or_iff\<close>)
  then have "settled i e True ?X (plus_request ?X e (\<lambda>_. {})) m'" using s remote_set [OF assms(6)] by (auto simp: settled_def)
  then show ?thesis using m' settled_level [OF _ X(1)] settled_requested by blast
qed

section \<open>On a machine\<close>

text \<open>Local controller 0 is on and does not accept the 8259; pin 16 is level-triggered with vector 0x51, pin 4 edge-triggered with 0x34.\<close>

definition demo_pins :: apic_machine where
  "demo_pins = demo_masked\<lparr>ioapic := Some \<lparr>ioapic_id = 0, ioregsel = 0, ioapic_irr = 0,
     ioredtbl = (replicate 24 0x10000)[16 := 0x8051, 4 := 0x34]\<rparr>\<rparr>"

definition demo_raised :: apic_machine where
  "demo_raised = the (ioapic_set_irq 16 True demo_pins)"

lemma demo_level:
  assumes "length (local_apics m) = 1" "\<not> Option.is_none (apic_at m 0)" "\<not> apic_accept_pic_intr (the (apic_at m 0))" "tab_ok (irr (the (apic_at m 0)))"
    "ioapic m = Some s" "length (ioredtbl s) = 24"
  shows "level_pin i (ioredtbl s ! i) (bit (ioapic_irr s) i) m"
proof -
  have "local_apics m \<noteq> [None]" using assms(2) by (auto simp: apic_at_def)
  then show ?thesis using single_roster [OF assms(1)] single_apic [OF assms(1)] assms(3-6) by (auto simp: level_pin_def)
qed

lemma demo_pins_level: "level_pin 16 0x8051 False demo_pins"
proof -
  have "\<not> Option.is_none (apic_at demo_pins 0)" "length (local_apics demo_pins) = 1" "\<not> apic_accept_pic_intr (the (apic_at demo_pins 0))"
    "irr (the (apic_at demo_pins 0)) = replicate 8 0" by code_simp+
  then show ?thesis using demo_level [of demo_pins _ 16] by (simp add: demo_pins_def tab_ok_def)
qed

theorem ioapic_level_witness: "ioapic_set_irq 16 True demo_pins = Some demo_raised \<and> level_pin 16 0xc051 True demo_raised \<and> requested 0x8051 demo_raised"
  using ioapic_level [OF demo_pins_level] by (auto simp: demo_raised_def entry_level_def entry_mode_def)

lemma demo_raised_at: "level_pin 16 0xc051 True demo_raised"
proof -
  have "\<not> Option.is_none (apic_at demo_raised 0)" "length (local_apics demo_raised) = 1" "\<not> apic_accept_pic_intr (the (apic_at demo_raised 0))"
    "length (irr (the (apic_at demo_raised 0))) = 8" by code_simp+
  moreover have "ioapic demo_raised = Some \<lparr>ioapic_id = 0, ioregsel = 0, ioapic_irr = 0x10000,
     ioredtbl = (replicate 24 0x10000)[16 := 0xc051, 4 := 0x34]\<rparr>" by code_simp
  ultimately show ?thesis using demo_level [of demo_raised _ 16] by (simp add: tab_ok_def)
qed

theorem ioapic_requests_twice_witness: "\<exists>m'. ioapic_set_irq 4 True demo_raised = Some m' \<and> level_pin 16 0xc051 True m' \<and> requested 0xc051 m'"
proof -
  have io: "ioapic demo_raised = Some \<lparr>ioapic_id = 0, ioregsel = 0, ioapic_irr = 0x10000,
     ioredtbl = (replicate 24 0x10000)[16 := 0xc051, 4 := 0x34]\<rparr>" by code_simp
  show ?thesis by (rule ioapic_requests_twice [OF demo_raised_at _ _ _ _ _ io]) (simp_all add: entry_level_def entry_mode_def)
qed

end
