(* ===== verification/Spec2Isabelle.thy ===== *)
theory Spec2Isabelle
  imports Prelude Fifo Ps2 Pckbd Launcher VmControl ImageCreator I8259 FlatView Ioeventfd Int128 MemoryMap MemoryAccess ReadlineKeys
    I8254 I8254Time Qdict JsonLexer JsonParser Json JsonText JsonWords JsonRound Rtc RtcTime RtcTimers Dma DmaRun Bitops BitSearch
    Bitmaps BitmapLaws Serial SerialIrq SerialData Apic ApicBus ApicLaws ApicMachine ApicServe ApicTimer ApicDelivery IoapicLaws
begin

text \<open>
  Limbo runs the QEMU emulator as a library inside an Android application. The application's own native
  code (\<^verbatim>\<open>jni/limbo\<close>) turns the fields of a Java object into QEMU's command line, loads the emulator's shared
  library and passes control requests on; QEMU (\<^verbatim>\<open>jni/qemu\<close>) then builds the machine: its address spaces, the
  devices behind them, and the monitor. The development models the launcher and the part of QEMU that a guest
  meets first: the address map, the accesses to devices, the interrupt controllers (the 8259, the local controllers of the
  processors and the I/O controller), the keyboard controller with its devices, the interval timer, the real-time clock, the
  DMA controllers and the serial port, and the bit maps the memory core and the block layer keep; and the part that the program driving the
  emulator meets: the line editor of the monitor console, and the reader and writer of the control protocol's texts.

  \<^bold>\<open>How the parts interact.\<close> A guest access is looked up in the flat view of its address space, which the
  memory core renders from the tree of regions each time a transaction ends; the region found gives the
  callbacks, and the access is checked, split and byte-swapped before they run. A device callback changes the
  state of the device and may drive an interrupt line: the keyboard controller polls the queues of keyboard and
  mouse into its two lines, the timer arms its next transition, the interrupt controllers resolve the lines by
  priority and cascade, the DMA controllers call the handlers of the devices on their channels, the serial port hands its bytes
  to a character device and takes others from it. An interrupt line of the PC goes to the 8259 and to the I/O controller
  (\<^verbatim>\<open>gsi_handler\<close>); the I/O controller sends messages to the local controllers, the 8259 drives those that accept it, each
  signals its processor, and the end of an interrupt goes back from the processor to the I/O controller. A message of the control
  protocol is cut into tokens by the lexer, collected by the streamer, parsed into objects with dictionaries, and answered
  by the writer. The launcher is the only part that sees the Java side.

  \<^bold>\<open>Theories and the code they model.\<close>
  \<^item> \<^verbatim>\<open>Prelude\<close>: word types, C integers, small-word bits and ring buffers.
  \<^item> \<^verbatim>\<open>Fifo\<close>: the contract of a bounded queue, as locales; instantiated by the PS/2 queue.
  \<^item> \<^verbatim>\<open>Launcher\<close> (\<^verbatim>\<open>limbo/vm-executor-jni.c\<close>, \<^verbatim>\<open>start\<close>): counting and filling of the argument vector. A string is a
    list of characters, NULL is \<open>None\<close>, each slot of the vector a value that may be uninitialised; the three silent
    faults of the C code are results. \<open>command_line\<close> is the specification.
  \<^item> \<^verbatim>\<open>VmControl\<close> (same file): the static variables of the launcher and every native method on them; \<^verbatim>\<open>start\<close> and
    \<^verbatim>\<open>stop\<close> are taken apart into steps, because nothing synchronises their callers and the emulator's entry point returns
    only when the machine ends; the steps of other requests come in between.
  \<^item> \<^verbatim>\<open>ImageCreator\<close> (\<^verbatim>\<open>limbo/image-creator-jni.c\<close>): the command line of qemu-img.
  \<^item> \<^verbatim>\<open>Ps2\<close>, \<^verbatim>\<open>Pckbd\<close> (\<^verbatim>\<open>hw/ps2.c\<close>, \<^verbatim>\<open>hw/pckbd.c\<close>): the devices with a log of their outgoing calls, and the controller that owns
    them and replays the logs.
  \<^item> \<^verbatim>\<open>I8259\<close> (\<^verbatim>\<open>hw/i8259.c\<close>, \<^verbatim>\<open>hw/i8259_common.c\<close>): the two chips and the processor's line.
  \<^item> \<^verbatim>\<open>I8254\<close>, \<^verbatim>\<open>I8254Time\<close> (\<^verbatim>\<open>hw/i8254.c\<close>, \<^verbatim>\<open>hw/i8254_common.c\<close>, \<^verbatim>\<open>muldiv64\<close> of \<^verbatim>\<open>qemu-common.h\<close>): counters, ports and the interrupt
    timer; the clock is an argument.
  \<^item> \<^verbatim>\<open>Rtc\<close>, \<^verbatim>\<open>RtcTime\<close>, \<^verbatim>\<open>RtcTimers\<close> (\<^verbatim>\<open>hw/mc146818rtc.c\<close>): the registers and timers of the real-time clock; its dates against a
    calendar in closed form; its periodic interrupt and an invariant over all its events.
  \<^item> \<^verbatim>\<open>Dma\<close>, \<^verbatim>\<open>DmaRun\<close> (\<^verbatim>\<open>hw/dma.c\<close>): the two DMA controllers, with the devices' handlers as parameters; what a run serves.
  \<^item> \<^verbatim>\<open>Qdict\<close> (\<^verbatim>\<open>qdict.c\<close>): the hash table of the protocol's dictionaries, against the locale \<open>dictionary\<close>.
  \<^item> \<^verbatim>\<open>JsonLexer\<close> (\<^verbatim>\<open>json-lexer.c\<close>, \<^verbatim>\<open>json-streamer.c\<close>), \<^verbatim>\<open>JsonParser\<close> (\<^verbatim>\<open>json-parser.c\<close>), \<^verbatim>\<open>Json\<close> (\<^verbatim>\<open>qjson.c\<close>): texts to tokens, tokens
    to messages, messages to objects, objects to texts. \<^verbatim>\<open>JsonText\<close>, \<^verbatim>\<open>JsonWords\<close>, \<^verbatim>\<open>JsonRound\<close>: the way of a character, a token and
    an object through the writer and back.
  \<^item> \<^verbatim>\<open>Int128\<close> (\<^verbatim>\<open>int128.h\<close>), \<^verbatim>\<open>FlatView\<close>, \<^verbatim>\<open>Ioeventfd\<close>, \<^verbatim>\<open>MemoryMap\<close> (\<^verbatim>\<open>memory.c\<close>): addresses, the list of disjoint ranges with its merging,
    comparison and search, event descriptors, the tree of regions, its rendering and the transactions.
  \<^item> \<^verbatim>\<open>Bytes\<close> (\<^verbatim>\<open>bswap.h\<close>), \<^verbatim>\<open>MemoryAccess\<close> (\<^verbatim>\<open>memory.c\<close>, sub-page RAM of \<^verbatim>\<open>exec.c\<close>): byte order and device accesses. The callbacks of a
    device are parameters; the RAM of a shared page, in the byte order of the target, is the instance the locale \<open>byte_device\<close> is interpreted on.
  \<^item> \<^verbatim>\<open>Readline\<close>, \<^verbatim>\<open>ReadlineText\<close>, \<^verbatim>\<open>ReadlineKeys\<close> (\<^verbatim>\<open>readline.c\<close>): the line editor on its C arrays, as operations on the text before and
    after the cursor, and key by key. The terminal is a model of what the bytes written to it show.
  \<^item> \<^verbatim>\<open>Serial\<close>, \<^verbatim>\<open>SerialIrq\<close>, \<^verbatim>\<open>SerialData\<close> (\<^verbatim>\<open>hw/serial.c\<close>): the 16550A serial port; its interrupt; its bytes. The character
    device is an argument.
  \<^item> \<^verbatim>\<open>Apic\<close>, \<^verbatim>\<open>ApicBus\<close> (\<^verbatim>\<open>hw/apic.c\<close>, \<^verbatim>\<open>hw/apic_common.c\<close>, \<^verbatim>\<open>hw/ioapic.c\<close>, \<^verbatim>\<open>hw/ioapic_common.c\<close>, and the wiring in \<^verbatim>\<open>hw/pc.c\<close>): one local
    controller with its processor; all of them with the I/O controller and the 8259. \<^verbatim>\<open>ApicLaws\<close>, \<^verbatim>\<open>ApicMachine\<close>, \<^verbatim>\<open>ApicServe\<close>,
    \<^verbatim>\<open>ApicTimer\<close>, \<^verbatim>\<open>ApicDelivery\<close>, \<^verbatim>\<open>IoapicLaws\<close>: registers as sets of vectors (locale \<open>priority_register\<close>), the machine as a transition
    system (locale \<open>apic_invariant\<close>), service, timer, destinations, level-triggered pins.
  \<^item> \<^verbatim>\<open>Bitops\<close>, \<^verbatim>\<open>BitSearch\<close> (\<^verbatim>\<open>bitops.h\<close>, \<^verbatim>\<open>bitops.c\<close>), \<^verbatim>\<open>Bitmaps\<close>, \<^verbatim>\<open>BitmapLaws\<close> (\<^verbatim>\<open>bitmap.h\<close>, \<^verbatim>\<open>bitmap.c\<close>): operations on bits and on arrays
    of words, as sets of positions, for words of 32 and of 64 bits.
  \<^item> this theory: the ports of the timer, where device and port dispatch meet.

  \<^bold>\<open>What the lemmas show.\<close> The launcher: the vector is exactly the specified command line for the configurations
  that satisfy \<open>launch_ok\<close>, and what goes wrong for others. The devices: queues keep order, interrupt lines
  agree with the registers after every operation, mouse motion is put into packets completely, interrupts are served by priority,
  the timer wakes at the change of its output, the clock counts the days of the calendar and the cycles between its
  interrupts exactly, a DMA run serves the channels that ask and are not masked, the serial port sends and receives the bytes in
  order and its line shows the enabled sources. Interrupts nest by priority, a message reaches exactly the controllers it
  addresses, and a level-triggered interrupt is requested as long as its pin is asserted. The searches in bit maps find the
  first position, and the area found is free and the first that fits. The protocol: the parser accepts the
  language of its grammar and returns, the streamer keeps its limits, what the writer prints is read back. Memory: the view a tree is rendered to finds, at every address,
  the region that the tree's rules give (\<open>region_at\<close>), listeners are told exactly the differences up to the dirty log masks, and what is
  written to the RAM of a shared page is read back however the two accesses are split. The editor: keys are edits of the line, the terminal shows the line, and history
  gives back what was entered.

  \<^bold>\<open>Bounds.\<close> Rendering follows aliases, so it takes a depth bound; with a rank that decreases along subregions and
  aliases every bound above the rank of the root gives a result (\<open>render_enough\<close>), unless the assertion of \<^verbatim>\<open>int128_get64\<close>
  on a step fails, which takes a region with an area of its own of the whole 64-bit space (\<open>topology_whole_region\<close>).
  The notifications of a change of map make the same assertion on each range told of. The splitting loop has one turn more
  than the access has bytes, and never uses the last (\<open>access_terminates\<close>). The other loops are structural recursions
  or have a measure. The parser takes fuel; one unit more than there are tokens (\<open>parse_fuel\<close>) is always enough
  (\<open>json_parser_terminates\<close>). The periodic interrupt is exact for 2 ^ 32 firings from a start below \<open>2 ^ 62\<close> nanoseconds, where the
  arithmetic of \<^verbatim>\<open>muldiv64\<close> does not wrap. The functions of a local controller that call each other take fuel; two units are
  enough whenever the code returns (\<open>update_cases\<close>), and the one configuration in which it does not is given
  (\<open>apic_update_returns\<close>). Its timer is exact for times below \<open>2 ^ 62\<close> nanoseconds. The search for a free area of a bit map
  is exact where the sum of size, length and alignment does not wrap. \<open>Int128\<close> is used as \<open>int\<close> in the memory map; \<open>int128_arithmetic\<close> justifies it below \<open>2 ^ 126\<close>.

  \<^bold>\<open>Not modelled.\<close> Vendored libraries; instruction semantics and code generation; the block layer, the network, the remote
  display and the event loop of QEMU, in which threads and host I/O dominate; device registration and snapshot tables;
  coalesced I/O ranges and dirty logging of the memory core; the date property of the real-time clock; the option parser of the
  command line, whose tables name every other part of the emulator; the patching of guest code by \<^verbatim>\<open>hw/kvmvapic.c\<close>. Where the
  local controllers meet the 8259, the port accesses of the 8259 are its state after them (step \<open>pic\<close>): only that its output is
  driven is used. The other devices of \<^verbatim>\<open>hw\<close> are not modelled.
\<close>

section \<open>The ports of the timer\<close>

text \<open>The port list of the timer (\<^verbatim>\<open>hw/i8254.c\<close>) and the port accesses of \<^verbatim>\<open>memory.c\<close> together. The state of the
  device is that of the timer, or \<open>None\<close> after an access outside the array of its channels.\<close>

definition pit_portio :: "u64 \<Rightarrow> PITCommonState option MemoryRegionPortio list" where
  "pit_portio now =
     [\<lparr>po_offset = 0, po_len = 4, po_size = 1, po_read = None,
       po_write = Some (\<lambda>pit addr val. do { p \<leftarrow> pit; pit_ioport_write now addr val p })\<rparr>,
      \<lparr>po_offset = 0, po_len = 3, po_size = 1,
       po_read = Some (\<lambda>pit addr.
         case Option.bind pit (pit_ioport_read now addr) of
           None \<Rightarrow> (0, None)
         | Some (v, p) \<Rightarrow> (word_of_int v, Some p)),
       po_write = None\<rparr>]"

definition pit_ioport_ops :: "u64 \<Rightarrow> PITCommonState option MemoryRegionOps" where
  "pit_ioport_ops now =
     \<lparr>op_read = None, op_write = None, op_endianness = DEVICE_NATIVE_ENDIAN, valid_min_access_size = 0,
      valid_max_access_size = 0, valid_unaligned = False, valid_accepts = None, impl_min_access_size = 0,
      impl_max_access_size = 0, op_old_portio = Some (pit_portio now), old_mmio_read = [], old_mmio_write = []\<rparr>"

lemma pit_portio_entries:
  "find_portio (pit_portio now) 0 2 True = None" "find_portio (pit_portio now) 3 2 True = None"
  "find_portio (pit_portio now) 0 (Suc 0) False = Some (pit_portio now ! Suc 0)" "find_portio (pit_portio now) 3 (Suc 0) False = None"
  "find_portio (pit_portio now) 0 (Suc 0) True = Some (pit_portio now ! 0)"
  "find_portio (pit_portio now) 3 (Suc 0) True = Some (pit_portio now ! 0)"
  by (simp_all add: pit_portio_def)

lemma pit_portio_callbacks:
  "po_write (pit_portio now ! Suc 0) = None"
  "po_write (pit_portio now ! 0) = Some (\<lambda>pit addr val. Option.bind pit (pit_ioport_write now addr val))"
  by (simp_all add: pit_portio_def)

lemma pit_ioport_ops_portio: "op_old_portio (pit_ioport_ops now) = Some (pit_portio now)"
  by (simp add: pit_ioport_ops_def)

text \<open>C38: [pit_word_write] A guest that writes a word to the first port of the timer stops the emulator: the split looks
  for an entry with a byte reader, finds the entry without a writer and calls it; at the fourth port, which has no
  reader, the assertion fails. The byte writes, from which the word would be made, reach the timer.\<close>

theorem pit_word_write:
  "memory_region_iorange_write (pit_ioport_ops now) moff pit 0 2 dw = None
   \<and> memory_region_iorange_write (pit_ioport_ops now) moff pit 3 2 dw = None
   \<and> memory_region_iorange_write (pit_ioport_ops now) moff (Some p) 0 1 dw
       = Some (pit_ioport_write now (ucast moff) (ucast dw) p)
   \<and> memory_region_iorange_write (pit_ioport_ops now) moff (Some p) 3 1 dw
       = Some (pit_ioport_write now (ucast (3 + moff)) (ucast dw) p)"
  by (simp add: memory_region_iorange_write_def pit_ioport_ops_portio pit_portio_entries pit_portio_callbacks Let_def)

end
